(* ===== verification/Prelude.thy ===== *)
theory Prelude
  imports Complex_Main
begin

text \<open>
  Shared vocabulary of the development: JavaScript numbers and values as the sources use
  them, the result type of code that may throw, and generic lemmas on lists and maps that
  the component theories rely on.

  \<^item> \<open>jsnum\<close> is a JavaScript number: a finite value (an exact rational stands for the
    double), \<open>NaN\<close> or an infinity; \<open>js_lt\<close> and \<open>js_le\<close> are \<open><\<close> and \<open><=\<close>,
    which are false as soon as one side is \<open>NaN\<close>.
  \<^item> \<open>jsval\<close> is an acyclic JavaScript value as \<open>typeof\<close> and \<open>Array.isArray\<close> see it;
    an object is the list of its own enumerable string-keyed properties in insertion order.
  \<^item> \<open>('e, 'a) result\<close> is the outcome of a call that may throw (\<open>Inl\<close> the error).
\<close>

section \<open>Collections of facts\<close>

named_theorems js_simps
  \<open>evaluation of the JavaScript primitives on constructors\<close>

named_theorems invariants
  \<open>preservation facts: each operation keeps the invariant of its component\<close>

section \<open>Numbers\<close>

datatype jsnum = Fin rat | NaN | PosInf | NegInf

fun js_le :: "jsnum \<Rightarrow> jsnum \<Rightarrow> bool" where
  "js_le NaN _ = False"
| "js_le _ NaN = False"
| "js_le NegInf _ = True"
| "js_le _ PosInf = True"
| "js_le (Fin a) (Fin b) = (a \<le> b)"
| "js_le _ _ = False"

fun js_lt :: "jsnum \<Rightarrow> jsnum \<Rightarrow> bool" where
  "js_lt NaN _ = False"
| "js_lt _ NaN = False"
| "js_lt NegInf NegInf = False"
| "js_lt NegInf _ = True"
| "js_lt _ NegInf = False"
| "js_lt PosInf _ = False"
| "js_lt _ PosInf = True"
| "js_lt (Fin a) (Fin b) = (a < b)"

text \<open>\<open>===\<close> on numbers: \<open>NaN\<close> differs from everything, itself included.\<close>

fun js_num_eq :: "jsnum \<Rightarrow> jsnum \<Rightarrow> bool" where
  "js_num_eq NaN _ = False"
| "js_num_eq _ NaN = False"
| "js_num_eq a b = (a = b)"

fun is_finite :: "jsnum \<Rightarrow> bool" where
  "is_finite (Fin _) = True"
| "is_finite _ = False"

text \<open>\<open>Number.isInteger\<close>.\<close>

fun is_integer :: "jsnum \<Rightarrow> bool" where
  "is_integer (Fin q) = (of_int \<lfloor>q\<rfloor> = q)"
| "is_integer _ = False"

fun int_of :: "jsnum \<Rightarrow> int" where
  "int_of (Fin q) = \<lfloor>q\<rfloor>"
| "int_of _ = 0"

lemma is_integer_Fin_of_int [simp]: "is_integer (Fin (of_int n))"
  by simp

lemma js_le_Fin_NaN [js_simps]: "\<not> js_le NaN x" "\<not> js_le x NaN"
  by (cases x; simp)+

section \<open>Values\<close>

datatype jsval =
    JUndef
  | JNull
  | JBool bool
  | JNum jsnum
  | JStr string
  | JArr "jsval list"
  | JObj "(string \<times> jsval) list"

text \<open>
  Truthiness: \<open>undefined\<close>, \<open>null\<close>, \<open>false\<close>, \<open>0\<close>, \<open>NaN\<close> and the empty string are falsy.
\<close>

fun truthy :: "jsval \<Rightarrow> bool" where
  "truthy JUndef = False"
| "truthy JNull = False"
| "truthy (JBool b) = b"
| "truthy (JNum n) = (n \<noteq> NaN \<and> n \<noteq> Fin 0)"
| "truthy (JStr s) = (s \<noteq> [])"
| "truthy (JArr _) = True"
| "truthy (JObj _) = True"

text \<open>Reading a property: absent properties read as \<open>undefined\<close>.\<close>

definition get_prop :: "(string \<times> jsval) list \<Rightarrow> string \<Rightarrow> jsval" where
  "get_prop props k = (case map_of props k of None \<Rightarrow> JUndef | Some v \<Rightarrow> v)"

definition has_own :: "(string \<times> jsval) list \<Rightarrow> string \<Rightarrow> bool" where
  "has_own props k = (map_of props k \<noteq> None)"

text \<open>
  Assigning a property keeps its position when it exists and appends it otherwise.
\<close>

fun set_prop :: "(string \<times> 'v) list \<Rightarrow> string \<Rightarrow> 'v \<Rightarrow> (string \<times> 'v) list" where
  "set_prop [] k v = [(k, v)]"
| "set_prop ((k', v') # ps) k v = (if k' = k then (k, v) # ps else (k', v') # set_prop ps k v)"

lemma map_of_set_prop [simp]: "map_of (set_prop ps k v) = (map_of ps)(k \<mapsto> v)"
  by (induction ps k v rule: set_prop.induct) auto

section \<open>Results of code that may throw\<close>

type_synonym ('e, 'a) result = "'e + 'a"

fun is_ok :: "('e, 'a) result \<Rightarrow> bool" where
  "is_ok (Inl _) = False"
| "is_ok (Inr _) = True"

text \<open>
  Sequencing of code that may throw and changes a state: the continuation runs only after a
  value, and the state a throwing call has reached is kept.
\<close>

definition and_then :: "('e, 'a) result \<times> 's \<Rightarrow> ('a \<Rightarrow> 's \<Rightarrow> ('e, 'b) result \<times> 's) \<Rightarrow> ('e, 'b) result \<times> 's" where
  "and_then r k = (case r of (Inl e, s) \<Rightarrow> (Inl e, s) | (Inr a, s) \<Rightarrow> k a s)"

lemma and_then_simps [simp]:
  "and_then (Inl e, s) k = (Inl e, s)"
  "and_then (Inr a, s) k = k a s"
  by (simp_all add: and_then_def)

lemma and_then_cong [fundef_cong]:
  "r = r' \<Longrightarrow> (\<And>a s. r' = (Inr a, s) \<Longrightarrow> k a s = k' a s) \<Longrightarrow> and_then r k = and_then r' k'"
  by (cases r'; cases "fst r'") auto

lemma and_then_Inr_iff:
  "and_then r k = (Inr b, s') \<longleftrightarrow> (\<exists>a s. r = (Inr a, s) \<and> k a s = (Inr b, s'))"
  by (cases r; cases "fst r") (auto simp: and_then_def)

lemma and_then_elim:
  assumes "and_then r k = (x, s')"
  obtains (thrown) e where "r = (Inl e, s')" "x = Inl e"
    | (returned) a s where "r = (Inr a, s)" "k a s = (x, s')"
  using assms by (cases r; cases "fst r") (auto simp: and_then_def)

section \<open>Decimal printing of counters in messages\<close>

fun string_of_nat :: "nat \<Rightarrow> string" where
  "string_of_nat n =
     (if n < 10 then [char_of (48 + n)]
      else string_of_nat (n div 10) @ [char_of (48 + n mod 10)])"

declare string_of_nat.simps [simp del]

text \<open>A string between double quotes, as message templates write it.\<close>

definition quoted :: "string \<Rightarrow> string" where
  "quoted s = CHR 0x22 # s @ [CHR 0x22]"

section \<open>Generic lemmas\<close>

text \<open>\<open>a ?? b\<close>.\<close>

definition nullish :: "'a option \<Rightarrow> 'a \<Rightarrow> 'a" where
  "nullish a b = (case a of None \<Rightarrow> b | Some x \<Rightarrow> x)"

lemma nullish_simps [simp]: "nullish None b = b" "nullish (Some x) b = x"
  by (simp_all add: nullish_def)

end
