(* ===== verification/Circuit_Breaker.thy ===== *)
theory Circuit_Breaker
  imports Prelude "HOL-Library.Multiset" "HOL-Library.Sublist"
begin

text \<open>
  The circuit breaker of \<open>packages/core/src/utils/circuit-breaker.ts\<close>.

  The object's private fields are the record \<open>breaker\<close>; \<open>notified\<close> lists the events
  handed to \<open>onStateChange\<close>, oldest first (a listener that throws is caught by the code,
  so it has no effect on the breaker). Each operation takes the reading \<open>now\<close> of the
  clock: an operation runs without yielding, so one reading serves the whole call.
  \<open>execute\<close> awaits the guarded operation, so it is split at the \<open>await\<close> into
  \<open>execute_enter\<close> and \<open>execute_exit\<close>; the relation \<open>cb_step\<close> interleaves any number
  of callers at that point.
\<close>

section \<open>State and operations\<close>

datatype CircuitState = Closed | Open | HalfOpen

record CircuitStateChangeEvent =
  ev_name :: string
  ev_from :: CircuitState
  ev_to :: CircuitState
  ev_failures :: nat
  ev_reason :: string
  ev_at :: int

record breaker =
  cb_name :: string
  cb_state :: CircuitState
  failures :: nat
  successes :: nat
  openedAt :: int
  probeInFlight :: bool
  failureThreshold :: int
  cooldownMs :: int
  successThreshold :: int
  notified :: "CircuitStateChangeEvent list"

datatype cb_error =
    CircuitOpenError string int
  | CircuitTypeError string

record CircuitBreakerOptions =
  opt_failureThreshold :: "jsnum option"
  opt_cooldownMs :: "jsnum option"
  opt_successThreshold :: "jsnum option"

definition assertPositiveInteger :: "string \<Rightarrow> jsnum \<Rightarrow> (cb_error, unit) result" where
  "assertPositiveInteger field value =
     (if \<not> is_integer value \<or> js_lt value (Fin 1) then Inl (CircuitTypeError field) else Inr ())"

definition new_breaker :: "string \<Rightarrow> CircuitBreakerOptions \<Rightarrow> (cb_error, breaker) result" where
  "new_breaker nm o' =
     (let ft = nullish (opt_failureThreshold o') (Fin 5);
          cd = nullish (opt_cooldownMs o') (Fin 30000);
          st = nullish (opt_successThreshold o') (Fin 1)
      in case assertPositiveInteger ''failureThreshold'' ft of Inl e \<Rightarrow> Inl e | Inr _ \<Rightarrow>
         (case assertPositiveInteger ''cooldownMs'' cd of Inl e \<Rightarrow> Inl e | Inr _ \<Rightarrow>
         (case assertPositiveInteger ''successThreshold'' st of Inl e \<Rightarrow> Inl e | Inr _ \<Rightarrow>
            Inr \<lparr>cb_name = nm, cb_state = Closed, failures = 0, successes = 0, openedAt = 0,
                 probeInFlight = False, failureThreshold = int_of ft, cooldownMs = int_of cd,
                 successThreshold = int_of st, notified = []\<rparr>)))"

definition remainingCooldownMs :: "int \<Rightarrow> breaker \<Rightarrow> int" where
  "remainingCooldownMs now b = max 0 (openedAt b + cooldownMs b - now)"

definition transition :: "int \<Rightarrow> CircuitState \<Rightarrow> string \<Rightarrow> breaker \<Rightarrow> breaker" where
  "transition now to reason b =
     (let from = cb_state b in
      if from = to then b
      else let b1 = b\<lparr>cb_state := to\<rparr>;
               b2 = (case to of
                       Open \<Rightarrow> b1\<lparr>openedAt := now, successes := 0\<rparr>
                     | Closed \<Rightarrow> b1\<lparr>failures := 0, successes := 0\<rparr>
                     | HalfOpen \<Rightarrow> b1\<lparr>successes := 0\<rparr>)
           in b2\<lparr>notified := notified b2 @
                   [\<lparr>ev_name = cb_name b2, ev_from = from, ev_to = to, ev_failures = failures b2,
                     ev_reason = reason, ev_at = now\<rparr>]\<rparr>)"

definition promoteIfCooledDown :: "int \<Rightarrow> breaker \<Rightarrow> breaker" where
  "promoteIfCooledDown now b =
     (if cb_state b = Open \<and> remainingCooldownMs now b = 0
      then transition now HalfOpen ''cooldown elapsed, probing'' b else b)"

definition currentState :: "int \<Rightarrow> breaker \<Rightarrow> CircuitState \<times> breaker" where
  "currentState now b = (let b' = promoteIfCooledDown now b in (cb_state b', b'))"

definition recordSuccess :: "int \<Rightarrow> breaker \<Rightarrow> breaker" where
  "recordSuccess now b0 =
     (let b = b0\<lparr>probeInFlight := False\<rparr> in
      if cb_state b = HalfOpen
      then let b' = b\<lparr>successes := successes b + 1\<rparr> in
           if int (successes b') \<ge> successThreshold b'
           then transition now Closed ''probe succeeded'' b' else b'
      else b\<lparr>failures := 0\<rparr>)"

definition recordFailure :: "int \<Rightarrow> string \<Rightarrow> breaker \<Rightarrow> breaker" where
  "recordFailure now reason b0 =
     (let b = b0\<lparr>probeInFlight := False, failures := failures b0 + 1\<rparr> in
      if cb_state b = HalfOpen then transition now Open (''probe failed: '' @ reason) b
      else if int (failures b) \<ge> failureThreshold b
      then transition now Open (string_of_nat (failures b) @ '' consecutive failures: '' @ reason) b
      else b)"

text \<open>
  The part of \<open>execute\<close> before the \<open>await\<close>: admission, or \<open>CircuitOpenError\<close> with the
  remaining cooldown. The promotion happens whether or not the call is admitted.
\<close>

definition execute_enter :: "int \<Rightarrow> breaker \<Rightarrow> cb_error option \<times> breaker" where
  "execute_enter now b0 =
     (let b = promoteIfCooledDown now b0 in
      case cb_state b of
        Open \<Rightarrow> (Some (CircuitOpenError (cb_name b) (remainingCooldownMs now b)), b)
      | HalfOpen \<Rightarrow>
          if probeInFlight b then (Some (CircuitOpenError (cb_name b) (remainingCooldownMs now b)), b)
          else (None, b\<lparr>probeInFlight := True\<rparr>)
      | Closed \<Rightarrow> (None, b))"

text \<open>
  The part after it: the outcome of the operation is recorded and passed on. An error is
  any value the operation threw; \<open>describeError\<close> gives the text that is recorded.
\<close>

definition execute_exit ::
    "('e \<Rightarrow> string) \<Rightarrow> bool \<Rightarrow> int \<Rightarrow> ('e, 'a) result \<Rightarrow> breaker \<Rightarrow> ('e, 'a) result \<times> breaker" where
  "execute_exit describeError deferSuccess now outcome b =
     (case outcome of
        Inr r \<Rightarrow> (Inr r, if deferSuccess then b else recordSuccess now b)
      | Inl err \<Rightarrow> (Inl err, recordFailure now (describeError err) b))"

text \<open>
  The whole of \<open>execute\<close> for an operation during which no other caller runs. The
  operation may itself change the world \<open>'w\<close>; it is not called when admission fails.
\<close>

definition execute ::
    "('e \<Rightarrow> string) \<Rightarrow> bool \<Rightarrow> int \<Rightarrow> int \<Rightarrow> ('w \<Rightarrow> ('e, 'a) result \<times> 'w) \<Rightarrow> 'w \<Rightarrow> breaker
       \<Rightarrow> (cb_error + 'e, 'a) result \<times> 'w \<times> breaker" where
  "execute describeError deferSuccess now now' operation w b =
     (case execute_enter now b of
        (Some e, b1) \<Rightarrow> (Inl (Inl e), w, b1)
      | (None, b1) \<Rightarrow>
          (let (out, w') = operation w;
               (out', b2) = execute_exit describeError deferSuccess now' out b1
           in (case out' of Inl e \<Rightarrow> Inl (Inr e) | Inr r \<Rightarrow> Inr r, w', b2)))"

section \<open>Interleaved callers\<close>

text \<open>
  A call in flight is \<open>Regular\<close> when it was admitted by a closed circuit and \<open>Probe\<close> when
  it was admitted in the half-open state. A step is one caller entering or leaving
  \<open>execute\<close>, at a clock reading that never goes back.
\<close>

datatype call_kind = Regular | Probe

record cb_sys =
  brk :: breaker
  inflight :: "call_kind multiset"
  clock :: int

definition admitted_kind :: "breaker \<Rightarrow> call_kind" where
  "admitted_kind b = (if cb_state b = HalfOpen then Probe else Regular)"

datatype cb_label = Admit call_kind | Refuse int | Succeed call_kind | Fail call_kind | Observe

inductive cb_step :: "cb_sys \<Rightarrow> cb_label \<Rightarrow> cb_sys \<Rightarrow> bool" where
  enter: "\<lbrakk>clock s \<le> t; execute_enter t (brk s) = (None, b')\<rbrakk> \<Longrightarrow>
     cb_step s (Admit (admitted_kind b'))
       \<lparr>brk = b', inflight = inflight s + {#admitted_kind b'#}, clock = t\<rparr>"
| refuse: "\<lbrakk>clock s \<le> t; execute_enter t (brk s) = (Some (CircuitOpenError nm ms), b')\<rbrakk> \<Longrightarrow>
     cb_step s (Refuse ms) \<lparr>brk = b', inflight = inflight s, clock = t\<rparr>"
| succeed: "\<lbrakk>clock s \<le> t; k \<in># inflight s\<rbrakk> \<Longrightarrow>
     cb_step s (Succeed k)
       \<lparr>brk = recordSuccess t (brk s), inflight = inflight s - {#k#}, clock = t\<rparr>"
| fail: "\<lbrakk>clock s \<le> t; k \<in># inflight s\<rbrakk> \<Longrightarrow>
     cb_step s (Fail k)
       \<lparr>brk = recordFailure t reason (brk s), inflight = inflight s - {#k#}, clock = t\<rparr>"
| observe: "clock s \<le> t \<Longrightarrow>
     cb_step s Observe \<lparr>brk = snd (currentState t (brk s)), inflight = inflight s, clock = t\<rparr>"

inductive_cases cb_stepE: "cb_step s l s'"

text \<open>A run from a state: the labels it produces and where it ends.\<close>

inductive cb_run :: "cb_sys \<Rightarrow> cb_label list \<Rightarrow> cb_sys \<Rightarrow> bool" where
  run_nil: "cb_run s [] s"
| run_cons: "\<lbrakk>cb_step s l s'; cb_run s' ls s''\<rbrakk> \<Longrightarrow> cb_run s (l # ls) s''"

definition init_sys :: "breaker \<Rightarrow> int \<Rightarrow> cb_sys" where
  "init_sys b t = \<lparr>brk = b, inflight = {#}, clock = t\<rparr>"

section \<open>The breaker's invariant\<close>

definition breaker_ok :: "breaker \<Rightarrow> bool" where
  "breaker_ok b \<longleftrightarrow>
     1 \<le> failureThreshold b \<and> 1 \<le> cooldownMs b \<and> 1 \<le> successThreshold b \<and>
     (cb_state b = Closed \<longrightarrow> int (failures b) < failureThreshold b) \<and>
     (cb_state b = HalfOpen \<longrightarrow> int (successes b) < successThreshold b) \<and>
     (probeInFlight b \<longrightarrow> cb_state b = HalfOpen)"

lemmas cb_defs =
  transition_def promoteIfCooledDown_def recordSuccess_def recordFailure_def
  execute_enter_def execute_exit_def currentState_def remainingCooldownMs_def Let_def

lemma assertPositiveInteger_Inr:
  "assertPositiveInteger f v = Inr u \<Longrightarrow> 1 \<le> int_of v"
  by (cases v) (auto simp: assertPositiveInteger_def not_less split: if_splits)

lemma new_breaker_ok: "new_breaker nm o' = Inr b \<Longrightarrow> breaker_ok b"
  by (auto simp: new_breaker_def breaker_ok_def Let_def
      dest: assertPositiveInteger_Inr split: sum.splits)

lemma promote_ok [invariants]: "breaker_ok b \<Longrightarrow> breaker_ok (promoteIfCooledDown t b)"
  by (auto simp: breaker_ok_def cb_defs)

lemma recordSuccess_ok [invariants]: "breaker_ok b \<Longrightarrow> breaker_ok (recordSuccess t b)"
  by (cases "cb_state b") (auto simp: breaker_ok_def cb_defs)

lemma recordFailure_ok [invariants]: "breaker_ok b \<Longrightarrow> breaker_ok (recordFailure t r b)"
  by (cases "cb_state b") (auto simp: breaker_ok_def cb_defs)

lemma execute_enter_ok [invariants]:
  assumes "breaker_ok b"
  shows "breaker_ok (snd (execute_enter t b))"
proof -
  have "breaker_ok (promoteIfCooledDown t b)"
    using assms by (rule promote_ok)
  then show ?thesis
    by (auto simp: execute_enter_def Let_def breaker_ok_def split: CircuitState.splits)
qed

lemma execute_enter_okD:
  "execute_enter t b = (r, b') \<Longrightarrow> breaker_ok b \<Longrightarrow> breaker_ok b'"
  using execute_enter_ok [of b t] by simp

lemma currentState_ok [invariants]: "breaker_ok b \<Longrightarrow> breaker_ok (snd (currentState t b))"
  by (simp add: currentState_def Let_def promote_ok)

lemma cb_step_ok: "cb_step s l s' \<Longrightarrow> breaker_ok (brk s) \<Longrightarrow> breaker_ok (brk s')"
  by (induction rule: cb_step.induct)
    (auto intro: invariants execute_enter_okD)

lemma cb_run_ok: "cb_run s ls s' \<Longrightarrow> breaker_ok (brk s) \<Longrightarrow> breaker_ok (brk s')"
  by (induction rule: cb_run.induct) (auto intro: cb_step_ok)

section \<open>Failing fast\<close>

text \<open>
  While the cooldown of an open circuit has not elapsed, \<open>execute\<close> throws
  \<open>CircuitOpenError\<close> with the time that is left (which is positive), does not run the
  operation, and leaves the breaker as it was.
\<close>

theorem execute_open_fails_fast:
  assumes "cb_state b = Open" and "now < openedAt b + cooldownMs b"
  shows "execute descr d now now' op w b =
           (Inl (Inl (CircuitOpenError (cb_name b) (openedAt b + cooldownMs b - now))), w, b)"
  using assms by (simp add: execute_def cb_defs)

theorem execute_open_fails_fast_witness:
  "(let b = \<lparr>cb_name = ''m'', cb_state = Open, failures = 5, successes = 0, openedAt = 100,
             probeInFlight = False, failureThreshold = 5, cooldownMs = 30, successThreshold = 1,
             notified = []\<rparr>
    in execute (\<lambda>e::string. e) False 110 120 (\<lambda>w::nat. (Inr ''ok'', w + 1)) 7 b =
         (Inl (Inl (CircuitOpenError ''m'' 20)), 7, b))"
  unfolding Let_def by (subst execute_open_fails_fast) simp_all

text \<open>The window during which an open circuit admits no one.\<close>

definition open_window :: "cb_sys \<Rightarrow> int \<Rightarrow> bool" where
  "open_window s t0 \<longleftrightarrow> cb_state (brk s) = Open \<and> openedAt (brk s) = t0 \<and> \<not> probeInFlight (brk s)"

lemma open_window_enter:
  assumes "cb_state b = Open" and "t < openedAt b + cooldownMs b"
  shows "execute_enter t b =
    (Some (CircuitOpenError (cb_name b) (openedAt b + cooldownMs b - t)), b)"
  using assms by (simp add: cb_defs)

lemma open_window_step:
  assumes "cb_step s l s'" and "open_window s t0" and "clock s' < t0 + cooldownMs (brk s)"
  shows "open_window s' t0 \<and> cooldownMs (brk s') = cooldownMs (brk s) \<and> (\<forall>k. l \<noteq> Admit k)"
  using assms
  by (cases rule: cb_step.cases)
    (auto simp: open_window_def open_window_enter, auto simp: cb_defs split: if_splits)

lemma cb_run_clock: "cb_run s ls s' \<Longrightarrow> clock s \<le> clock s'"
  by (induction rule: cb_run.induct) (auto elim!: cb_stepE)

lemma open_window_run:
  "cb_run s ls s' \<Longrightarrow> open_window s t0 \<Longrightarrow> clock s' < t0 + cooldownMs (brk s) \<Longrightarrow>
     open_window s' t0 \<and> cooldownMs (brk s') = cooldownMs (brk s) \<and> Admit k \<notin> set ls"
proof (induction rule: cb_run.induct)
  case (run_cons s l s' ls s'')
  have "clock s' < t0 + cooldownMs (brk s)"
    using run_cons.prems(2) cb_run_clock [OF run_cons.hyps(2)] by simp
  with run_cons show ?case using open_window_step [OF run_cons.hyps(1)] by auto
qed simp

text \<open>Only a failed call opens the circuit, and the window starts at that moment.\<close>

lemma opening_step:
  assumes "cb_step s l s'" and "cb_state (brk s) \<noteq> Open" and "cb_state (brk s') = Open"
  shows "(\<exists>k. l = Fail k) \<and> open_window s' (clock s') \<and> cooldownMs (brk s') = cooldownMs (brk s)"
  using assms
  by (cases rule: cb_step.cases)
    (auto simp: open_window_def cb_defs split: CircuitState.splits if_splits)

text \<open>
  C20: under any interleaving of callers, an opened circuit admits no one for exactly its cooldown. Only a
  failed call opens it; from that moment on, until the cooldown has passed by the clock, no run admits a call,
  whatever the calls still in flight do, and the circuit stays open; the first call that enters once the
  cooldown has passed is admitted.
\<close>

theorem open_window_admits_nothing:
  assumes "cb_step s0 l s" and "cb_state (brk s0) \<noteq> Open" and "cb_state (brk s) = Open"
    and "cb_run s ls s'" and "clock s' < clock s + cooldownMs (brk s0)"
  shows "(\<exists>k. l = Fail k) \<and> cb_state (brk s') = Open \<and> (\<forall>k. Admit k \<notin> set ls) \<and>
    (\<forall>t. fst (execute_enter t (brk s')) = None \<longleftrightarrow> clock s + cooldownMs (brk s0) \<le> t)"
proof -
  note opened = opening_step [OF assms(1-3)]
  with open_window_run [OF assms(4), of "clock s"] assms(5)
  have "open_window s' (clock s)" "cooldownMs (brk s') = cooldownMs (brk s0)" "\<forall>k. Admit k \<notin> set ls"
    by auto
  with opened show ?thesis by (auto simp: open_window_def cb_defs)
qed

definition failing_example :: "breaker" where
  "failing_example = \<lparr>cb_name = ''m'', cb_state = Closed, failures = 1, successes = 0,
     openedAt = 0, probeInFlight = False, failureThreshold = 2, cooldownMs = 10,
     successThreshold = 2, notified = []\<rparr>"

definition opened_example :: "breaker" where
  "opened_example = recordFailure 20 ''down'' failing_example"

lemma opened_example_facts:
  "cb_step \<lparr>brk = failing_example, inflight = {#Regular, Regular#}, clock = 15\<rparr> (Fail Regular)
     \<lparr>brk = opened_example, inflight = {#Regular#}, clock = 20\<rparr>"
  "cb_state failing_example = Closed" "cb_state opened_example = Open" "cooldownMs failing_example = 10"
  using cb_step.fail [of "\<lparr>brk = failing_example, inflight = {#Regular, Regular#}, clock = 15\<rparr>" 20 Regular "''down''"]
  by (simp_all add: opened_example_def) (simp_all add: failing_example_def cb_defs)

lemma opened_example_run:
  "cb_run \<lparr>brk = opened_example, inflight = {#Regular#}, clock = 20\<rparr> [Fail Regular, Refuse 5]
     \<lparr>brk = opened_example\<lparr>failures := 3\<rparr>, inflight = {#}, clock = 25\<rparr>"
proof -
  have a: "cb_step \<lparr>brk = opened_example, inflight = {#Regular#}, clock = 20\<rparr> (Fail Regular)
      \<lparr>brk = opened_example\<lparr>failures := 3\<rparr>, inflight = {#}, clock = 22\<rparr>"
    using cb_step.fail [of "\<lparr>brk = opened_example, inflight = {#Regular#}, clock = 20\<rparr>" 22 Regular "[]"]
    by (simp add: opened_example_def failing_example_def cb_defs numeral_3_eq_3)
  have b: "cb_step \<lparr>brk = opened_example\<lparr>failures := 3\<rparr>, inflight = {#}, clock = 22\<rparr> (Refuse 5)
      \<lparr>brk = opened_example\<lparr>failures := 3\<rparr>, inflight = {#}, clock = 25\<rparr>"
    using cb_step.refuse
      [of "\<lparr>brk = opened_example\<lparr>failures := 3\<rparr>, inflight = {#}, clock = 22\<rparr>" 25 "''m''" 5]
    by (simp add: opened_example_def failing_example_def cb_defs)
  from a b show ?thesis by (blast intro: cb_run.intros)
qed

theorem open_window_admits_nothing_witness:
  "\<forall>t. fst (execute_enter t (opened_example\<lparr>failures := 3\<rparr>)) = None \<longleftrightarrow> 30 \<le> t"
  using open_window_admits_nothing [OF opened_example_facts(1) _ _ opened_example_run]
  by (simp add: opened_example_facts)

section \<open>Tripping on consecutive failures\<close>

text \<open>The outcomes of calls, in the order in which they are recorded, with their times.\<close>

fun record_all :: "(int \<times> bool) list \<Rightarrow> breaker \<Rightarrow> breaker" where
  "record_all [] b = b"
| "record_all ((t, ok) # os) b =
     record_all os (if ok then recordSuccess t b else recordFailure t ''operation failed'' b)"

lemma record_all_open: "cb_state b = Open \<Longrightarrow> cb_state (record_all os b) = Open"
  by (induction os arbitrary: b) (auto simp: cb_defs)

lemma sublist_replicate_skip:
  assumes "f < n"
  shows "sublist (replicate n False) (replicate f False @ True # os) \<longleftrightarrow>
         sublist (replicate n False) os"
proof -
  have no_left: "\<not> sublist (replicate n False) (replicate f False)"
    using assms by (auto dest: sublist_length_le)
  have no_mid: "\<not> (suffix xs1 (replicate f False) \<and> prefix xs2 (True # os))"
    if "replicate n False = xs1 @ xs2" for xs1 xs2
  proof
    assume a: "suffix xs1 (replicate f False) \<and> prefix xs2 (True # os)"
    have "set xs2 \<subseteq> {False}"
      using that by (metis Un_subset_iff set_append set_replicate_conv_if subsetI empty_iff order_refl)
    with a have "xs2 = []" by (cases xs2) auto
    with that a have "n \<le> f" by (metis append_Nil2 length_replicate suffix_length_le)
    with assms show False by simp
  qed
  have no_prefix: "\<not> prefix (replicate n False) (True # os)"
    using assms by (cases n) auto
  show ?thesis
    unfolding sublist_append sublist_Cons_right using no_left no_mid no_prefix by blast
qed

lemma record_all_closed:
  assumes "breaker_ok b" and "cb_state b = Closed"
  shows "cb_state (record_all os b) =
    (if sublist (replicate (nat (failureThreshold b)) False)
          (replicate (failures b) False @ map snd os) then Open else Closed)"
  using assms
proof (induction os arbitrary: b)
  case Nil
  then show ?case by (auto simp: breaker_ok_def dest: sublist_length_le)
next
  case (Cons o' os)
  obtain t ok where o': "o' = (t, ok)" by (cases o')
  have lt: "failures b < nat (failureThreshold b)"
    using Cons.prems by (auto simp: breaker_ok_def)
  show ?case
  proof (cases ok)
    case True
    let ?b = "recordSuccess t b"
    have "breaker_ok ?b" "cb_state ?b = Closed" "failures ?b = 0"
      "failureThreshold ?b = failureThreshold b"
      using Cons.prems by (auto simp: recordSuccess_ok) (auto simp: cb_defs)
    with Cons.IH [of ?b] o' True lt show ?thesis by (simp add: sublist_replicate_skip)
  next
    case False
    let ?b = "recordFailure t ''operation failed'' b"
    have app: "replicate (failures b) False @ False # map snd os =
               replicate (Suc (failures b)) False @ map snd os"
      by (simp add: replicate_app_Cons_same)
    show ?thesis
    proof (cases "int (Suc (failures b)) \<ge> failureThreshold b")
      case trip: True
      then have "nat (failureThreshold b) = Suc (failures b)" using lt by simp
      moreover have "cb_state ?b = Open" using trip Cons.prems by (simp add: cb_defs)
      moreover have "sublist (replicate (Suc (failures b)) False)
          (replicate (failures b) False @ False # map snd os)"
        unfolding app by (rule sublist_append_rightI)
      ultimately show ?thesis using o' False by (simp add: record_all_open)
    next
      case no_trip: False
      have "breaker_ok ?b" using Cons.prems by (simp add: recordFailure_ok)
      moreover have "cb_state ?b = Closed" "failures ?b = Suc (failures b)"
        "failureThreshold ?b = failureThreshold b"
        using no_trip Cons.prems by (simp_all add: cb_defs)
      ultimately show ?thesis
        using Cons.IH [of ?b] o' False by (simp add: replicate_app_Cons_same)
    qed
  qed
qed

text \<open>
  a new breaker that records the outcomes \<open>os\<close> opens exactly when they contain
  \<open>failureThreshold\<close> failures in a row; any success in between restarts the count.
\<close>

theorem opens_iff_consecutive_failures:
  assumes "new_breaker nm opts = Inr b"
  shows "cb_state (record_all os b) = Open \<longleftrightarrow>
         sublist (replicate (nat (failureThreshold b)) False) (map snd os)"
proof -
  have "breaker_ok b" "cb_state b = Closed" "failures b = 0"
    using assms new_breaker_ok [OF assms] by (auto simp: new_breaker_def Let_def split: sum.splits)
  then show ?thesis using record_all_closed [of b os] by simp
qed

definition example_options :: CircuitBreakerOptions where
  "example_options = \<lparr>opt_failureThreshold = Some (Fin 2), opt_cooldownMs = Some (Fin 10),
     opt_successThreshold = Some (Fin 2)\<rparr>"

definition example_breaker :: breaker where
  "example_breaker = \<lparr>cb_name = ''m'', cb_state = Closed, failures = 0, successes = 0,
     openedAt = 0, probeInFlight = False, failureThreshold = 2, cooldownMs = 10,
     successThreshold = 2, notified = []\<rparr>"

lemma example_breaker_new: "new_breaker ''m'' example_options = Inr example_breaker"
  by (simp add: new_breaker_def example_options_def example_breaker_def assertPositiveInteger_def)

theorem opens_iff_consecutive_failures_witness:
  "cb_state (record_all [(1, False), (2, True), (3, False), (4, False)] example_breaker) = Open"
  using opens_iff_consecutive_failures
    [OF example_breaker_new, of "[(1, False), (2, True), (3, False), (4, False)]"]
  by (simp add: example_breaker_def sublist_Cons_right numeral_eq_Suc)

section \<open>One probe at a time, and the interleaving that breaks it\<close>

text \<open>
  A step is stale when a call admitted before the circuit opened reports its outcome while
  the circuit is half open. Both \<open>recordSuccess\<close> and \<open>recordFailure\<close> then clear
  \<open>probeInFlight\<close>, although the probe is still running.
\<close>

definition stale :: "cb_sys \<Rightarrow> cb_label \<Rightarrow> bool" where
  "stale s l \<longleftrightarrow> cb_state (brk s) = HalfOpen \<and> (l = Succeed Regular \<or> l = Fail Regular)"

inductive orderly_run :: "cb_sys \<Rightarrow> cb_sys \<Rightarrow> bool" where
  orderly_nil: "orderly_run s s"
| orderly_snoc: "\<lbrakk>orderly_run s s'; cb_step s' l s''; \<not> stale s' l\<rbrakk> \<Longrightarrow> orderly_run s s''"

definition probe_inv :: "cb_sys \<Rightarrow> bool" where
  "probe_inv s \<longleftrightarrow> breaker_ok (brk s) \<and>
     count (inflight s) Probe = (if probeInFlight (brk s) then 1 else 0)"

lemma execute_enter_probe:
  assumes "execute_enter t b = (r, b')" and "breaker_ok b"
  shows "probeInFlight b' =
     (probeInFlight b \<or> r = None \<and> cb_state b' = HalfOpen)" 
    and "r = None \<Longrightarrow> cb_state b' = HalfOpen \<Longrightarrow> \<not> probeInFlight b"
  using assms by (auto simp: cb_defs breaker_ok_def split: CircuitState.splits if_splits)

lemma promote_probe [simp]: "probeInFlight (promoteIfCooledDown t b) = probeInFlight b"
  by (simp add: cb_defs)

lemma record_probe [simp]:
  "probeInFlight (recordSuccess t b) = False" "probeInFlight (recordFailure t r b) = False"
  by (simp_all add: cb_defs split: CircuitState.splits)

lemma probe_inv_step:
  assumes "cb_step s l s'" and "\<not> stale s l" and "probe_inv s"
  shows "probe_inv s'"
proof -
  have ok: "breaker_ok (brk s)" "breaker_ok (brk s')"
    using assms cb_step_ok by (auto simp: probe_inv_def)
  have idle: "count (inflight s) Probe = 0" if "cb_state (brk s) \<noteq> HalfOpen"
    using assms(3) that ok(1) by (auto simp: probe_inv_def breaker_ok_def)
  from assms(1) show ?thesis
  proof (cases rule: cb_step.cases)
    case (enter t b')
    then show ?thesis
      using assms(3) ok execute_enter_probe [OF enter(4) ok(1)]
      by (auto simp: probe_inv_def admitted_kind_def)
  next
    case (refuse t nm ms b')
    then show ?thesis
      using assms(3) ok execute_enter_probe [OF refuse(4) ok(1)] by (auto simp: probe_inv_def)
  next
    case (succeed t k)
    then show ?thesis
      using assms(2,3) ok idle by (cases k) (auto simp: probe_inv_def stale_def split: if_splits)
  next
    case (fail t k reason)
    then show ?thesis
      using assms(2,3) ok idle by (cases k) (auto simp: probe_inv_def stale_def split: if_splits)
  next
    case (observe t)
    then show ?thesis
      using assms(3) ok by (auto simp: probe_inv_def currentState_def Let_def)
  qed
qed

text \<open>
  as long as no call admitted before the circuit opened reports its outcome during the
  half-open state, at most one probe is in flight, and one is in flight exactly when the
  breaker's \<open>probeInFlight\<close> flag says so.
\<close>

theorem single_probe_in_flight:
  assumes "new_breaker nm opts = Inr b" and "orderly_run (init_sys b t) s"
  shows "count (inflight s) Probe \<le> 1 \<and>
         (probeInFlight (brk s) \<longleftrightarrow> count (inflight s) Probe = 1) \<and> breaker_ok (brk s)"
proof -
  have init: "probe_inv (init_sys b t)"
    using assms(1) new_breaker_ok [OF assms(1)]
    by (auto simp: probe_inv_def init_sys_def new_breaker_def Let_def split: sum.splits)
  from assms(2) init have "probe_inv s"
    by (induction "init_sys b t" s rule: orderly_run.induct) (auto intro: probe_inv_step)
  then show ?thesis by (auto simp: probe_inv_def)
qed

definition probed_example :: cb_sys where
  "probed_example =
     \<lparr>brk = example_breaker\<lparr>cb_state := HalfOpen, failures := 2, openedAt := 2,
        probeInFlight := True,
        notified :=
          [\<lparr>ev_name = ''m'', ev_from = Closed, ev_to = Open, ev_failures = 2,
            ev_reason = string_of_nat 2 @ '' consecutive failures: down'', ev_at = 2\<rparr>,
           \<lparr>ev_name = ''m'', ev_from = Open, ev_to = HalfOpen, ev_failures = 2,
            ev_reason = ''cooldown elapsed, probing'', ev_at = 12\<rparr>]\<rparr>,
      inflight = {#Probe, Regular#}, clock = 12\<rparr>"

lemma probed_example_orderly: "orderly_run (init_sys example_breaker 0) probed_example"
proof -
  let ?b1 = "example_breaker\<lparr>failures := 1\<rparr>"
  let ?b2 = "example_breaker\<lparr>cb_state := Open, failures := 2, openedAt := 2,
      notified := [\<lparr>ev_name = ''m'', ev_from = Closed, ev_to = Open, ev_failures = 2,
            ev_reason = string_of_nat 2 @ '' consecutive failures: down'', ev_at = 2\<rparr>]\<rparr>"
  have e1: "cb_step (init_sys example_breaker 0) (Admit Regular)
      \<lparr>brk = example_breaker, inflight = {#Regular#}, clock = 0\<rparr>"
    using cb_step.enter [of "init_sys example_breaker 0" 0 example_breaker]
    by (simp add: init_sys_def example_breaker_def cb_defs admitted_kind_def)
  have e2: "cb_step \<lparr>brk = example_breaker, inflight = {#Regular#}, clock = 0\<rparr> (Admit Regular)
      \<lparr>brk = example_breaker, inflight = {#Regular, Regular#}, clock = 0\<rparr>"
    using cb_step.enter [of "\<lparr>brk = example_breaker, inflight = {#Regular#}, clock = 0\<rparr>" 0]
    by (simp add: example_breaker_def cb_defs admitted_kind_def)
  have e3: "cb_step \<lparr>brk = example_breaker, inflight = {#Regular, Regular#}, clock = 0\<rparr>
      (Admit Regular) \<lparr>brk = example_breaker, inflight = {#Regular, Regular, Regular#}, clock = 0\<rparr>"
    using cb_step.enter
      [of "\<lparr>brk = example_breaker, inflight = {#Regular, Regular#}, clock = 0\<rparr>" 0]
    by (simp add: example_breaker_def cb_defs admitted_kind_def)
  have e4: "cb_step \<lparr>brk = example_breaker, inflight = {#Regular, Regular, Regular#}, clock = 0\<rparr>
      (Fail Regular) \<lparr>brk = ?b1, inflight = {#Regular, Regular#}, clock = 1\<rparr>"
    using cb_step.fail [of
      "\<lparr>brk = example_breaker, inflight = {#Regular, Regular, Regular#}, clock = 0\<rparr>" 1 Regular
      "''down''"]
    by (simp add: example_breaker_def cb_defs)
  have e5: "cb_step \<lparr>brk = ?b1, inflight = {#Regular, Regular#}, clock = 1\<rparr>
      (Fail Regular) \<lparr>brk = ?b2, inflight = {#Regular#}, clock = 2\<rparr>"
    using cb_step.fail [of
      "\<lparr>brk = ?b1, inflight = {#Regular, Regular#}, clock = 1\<rparr>" 2 Regular "''down''"]
    by (simp add: example_breaker_def cb_defs numeral_2_eq_2)
  have e6: "cb_step \<lparr>brk = ?b2, inflight = {#Regular#}, clock = 2\<rparr> (Admit Probe) probed_example"
    using cb_step.enter [of "\<lparr>brk = ?b2, inflight = {#Regular#}, clock = 2\<rparr>" 12
        "brk probed_example"]
    by (simp add: example_breaker_def probed_example_def cb_defs admitted_kind_def)
  show ?thesis
    by (rule orderly_snoc [OF orderly_snoc [OF orderly_snoc [OF orderly_snoc [OF orderly_snoc
          [OF orderly_snoc [OF orderly_nil e1] e2] e3] e4] e5] e6])
      (simp_all add: stale_def init_sys_def example_breaker_def)
qed

theorem single_probe_in_flight_witness:
  "count (inflight probed_example) Probe \<le> 1 \<and>
   (probeInFlight (brk probed_example) \<longleftrightarrow> count (inflight probed_example) Probe = 1) \<and>
   breaker_ok (brk probed_example)"
  by (rule single_probe_in_flight [OF example_breaker_new probed_example_orderly])

lemma orderly_run_run: "orderly_run s s' \<Longrightarrow> \<exists>ls. cb_run s ls s'"
proof (induction rule: orderly_run.induct)
  case (orderly_snoc s s' l s'')
  have "cb_run s (ls @ [l]) s''" if "cb_run s ls s'" for ls
    using that orderly_snoc(2) by (induction rule: cb_run.induct) (auto intro: cb_run.intros)
  with orderly_snoc show ?case by blast
qed (auto intro: cb_run.intros)

lemma cb_run_trans: "cb_run s ls s' \<Longrightarrow> cb_run s' ls' s'' \<Longrightarrow> cb_run s (ls @ ls') s''"
  by (induction rule: cb_run.induct) (auto intro: cb_run.intros)

text \<open>
  without that condition two probes can be in flight at once: a new breaker with
  \<open>failureThreshold\<close> 2 and \<open>successThreshold\<close> 2 reaches a half-open state with two
  admitted probes, because a slow call from before the outage succeeds in between.
\<close>

theorem stale_success_admits_second_probe:
  "\<exists>b ls s. new_breaker ''m'' example_options = Inr b \<and> cb_run (init_sys b 0) ls s \<and>
     cb_state (brk s) = HalfOpen \<and> count (inflight s) Probe = 2"
proof -
  let ?s1 = "\<lparr>brk = recordSuccess 13 (brk probed_example), inflight = {#Probe#}, clock = 13\<rparr>"
  let ?s2 = "\<lparr>brk = (recordSuccess 13 (brk probed_example))\<lparr>probeInFlight := True\<rparr>,
              inflight = {#Probe, Probe#}, clock = 14\<rparr>"
  obtain ls where ls: "cb_run (init_sys example_breaker 0) ls probed_example"
    using orderly_run_run [OF probed_example_orderly] by blast
  have f1: "cb_step probed_example (Succeed Regular) ?s1"
    using cb_step.succeed [of probed_example 13 Regular] by (simp add: probed_example_def)
  have f2: "cb_step ?s1 (Admit Probe) ?s2"
    using cb_step.enter [of ?s1 14 "brk ?s2"]
    by (simp add: probed_example_def example_breaker_def cb_defs admitted_kind_def)
  from ls f1 f2 have "cb_run (init_sys example_breaker 0) (ls @ [Succeed Regular, Admit Probe]) ?s2"
    by (blast intro: cb_run_trans cb_run.intros)
  moreover have "cb_state (brk ?s2) = HalfOpen"
    by (simp add: probed_example_def example_breaker_def cb_defs)
  ultimately show ?thesis using example_breaker_new by fastforce
qed

section \<open>Recovery\<close>

text \<open>Successful calls one after another; the world counts how many really ran.\<close>

fun serve_all :: "int list \<Rightarrow> nat \<Rightarrow> breaker \<Rightarrow> nat \<times> breaker" where
  "serve_all [] w b = (w, b)"
| "serve_all (t # ts) w b =
     (case execute (\<lambda>e::string. e) False t t (\<lambda>w. (Inr (), Suc w)) w b of (_, w', b') \<Rightarrow> serve_all ts w' b')"

lemma serve_all_half_open:
  assumes "cb_state b = HalfOpen" and "\<not> probeInFlight b"
    and "int (successes b + length ts) = successThreshold b" and "ts \<noteq> []"
  shows "\<exists>b'. serve_all ts w b = (w + length ts, b') \<and> cb_state b' = Closed \<and> failures b' = 0"
  using assms
proof (induction ts arbitrary: w b)
  case (Cons t ts)
  let ?b = "b\<lparr>probeInFlight := False, successes := Suc (successes b)\<rparr>"
  show ?case
  proof (cases "ts = []")
    case True
    with Cons.prems show ?thesis by (auto simp: execute_def cb_defs)
  next
    case False
    then have "\<not> successThreshold b \<le> 1 + int (successes b)"
      using Cons.prems by (cases ts) auto
    with Cons.prems have "serve_all (t # ts) w b = serve_all ts (Suc w) ?b"
      by (auto simp: execute_def cb_defs)
    moreover have "\<exists>b'. serve_all ts (Suc w) ?b = (Suc w + length ts, b') \<and>
        cb_state b' = Closed \<and> failures b' = 0"
      by (rule Cons.IH) (use Cons.prems False in auto)
    ultimately show ?thesis by simp
  qed
qed simp

text \<open>
  once the cooldown of an open circuit has elapsed, \<open>successThreshold\<close> successful calls
  in a row are all admitted and close the circuit with its failure count cleared.
\<close>

theorem recovers_after_cooldown:
  assumes "breaker_ok b" and "cb_state b = Open"
    and "\<forall>t \<in> set ts. openedAt b + cooldownMs b \<le> t"
    and "int (length ts) = successThreshold b"
  shows "\<exists>b'. serve_all ts 0 b = (length ts, b') \<and> cb_state b' = Closed \<and> failures b' = 0"
proof (cases ts)
  case Nil
  with assms show ?thesis by (simp add: breaker_ok_def)
next
  case (Cons t ts')
  let ?h = "transition t HalfOpen ''cooldown elapsed, probing'' b"
  have h: "cb_state ?h = HalfOpen" "\<not> probeInFlight ?h" "successes ?h = 0"
      "successThreshold ?h = successThreshold b"
    using assms(1,2) by (auto simp: transition_def breaker_ok_def)
  have "promoteIfCooledDown t b = ?h"
    using assms Cons by (simp add: promoteIfCooledDown_def remainingCooldownMs_def)
  moreover have "promoteIfCooledDown t ?h = ?h"
    using h by (simp add: promoteIfCooledDown_def)
  ultimately have "serve_all ts 0 b = serve_all ts 0 ?h"
    using Cons by (simp add: execute_def execute_enter_def)
  moreover have "\<exists>b'. serve_all ts 0 ?h = (0 + length ts, b') \<and> cb_state b' = Closed \<and> failures b' = 0"
    by (rule serve_all_half_open) (use h assms(4) Cons in auto)
  ultimately show ?thesis by simp
qed

theorem recovers_after_cooldown_witness:
  "\<exists>b'. serve_all [30, 31] 0 (example_breaker\<lparr>cb_state := Open, openedAt := 20\<rparr>) =
     (length [30::int, 31], b') \<and> cb_state b' = Closed \<and> failures b' = 0"
  by (rule recovers_after_cooldown) (simp_all add: example_breaker_def breaker_ok_def)

end
