(* ===== verification/Js_Number.thy ===== *)
theory Js_Number
  imports Prelude
begin

text \<open>
  The conversion \<open>Number(s)\<close> of a string, which \<open>readRetryAfterMs\<close>, \<open>coerce\<close> and
  \<open>CostLimitPolicy\<close> call: surrounding white space is dropped, the empty string is \<open>0\<close>,
  decimal literals with an optional sign, fraction and exponent, \<open>Infinity\<close>, and unsigned
  \<open>0x\<close>, \<open>0o\<close> and \<open>0b\<close> literals are accepted, and anything else is \<open>NaN\<close>. Strings are
  lists of 8-bit code units; a decimal literal denotes its exact rational value.
\<close>

definition is_space :: "char \<Rightarrow> bool" where
  "is_space c = (let n = (of_char c :: nat) in 9 \<le> n \<and> n \<le> 13 \<or> n = 32 \<or> n = 160)"

definition trim :: "string \<Rightarrow> string" where
  "trim s = rev (dropWhile is_space (rev (dropWhile is_space s)))"

definition is_digit :: "char \<Rightarrow> bool" where
  "is_digit c = (let n = (of_char c :: nat) in 48 \<le> n \<and> n \<le> 57)"

definition digit_val :: "char \<Rightarrow> nat" where
  "digit_val c =
     (let n = (of_char c :: nat) in
      if n \<le> 57 then n - 48 else if 97 \<le> n then n - 87 else n - 55)"

definition is_digit_in :: "nat \<Rightarrow> char \<Rightarrow> bool" where
  "is_digit_in base c =
     (let n = (of_char c :: nat) in
      (48 \<le> n \<and> n \<le> 57 \<or> 97 \<le> n \<and> n \<le> 102 \<or> 65 \<le> n \<and> n \<le> 70) \<and> digit_val c < base)"

definition digits_val :: "nat \<Rightarrow> string \<Rightarrow> nat" where
  "digits_val base s = foldl (\<lambda>acc c. base * acc + digit_val c) 0 s"

definition parse_exponent :: "string \<Rightarrow> int option" where
  "parse_exponent s =
     (case s of
        [] \<Rightarrow> Some 0
      | c # r \<Rightarrow>
          if c \<noteq> CHR ''e'' \<and> c \<noteq> CHR ''E'' then None
          else (let (sgn, ds) = (case r of
                     d # r' \<Rightarrow> if d = CHR ''-'' then (-1, r')
                               else if d = CHR ''+'' then (1, r') else (1, r)
                   | [] \<Rightarrow> (1::int, []))
                in if ds = [] \<or> \<not> list_all is_digit ds then None
                   else Some (sgn * int (digits_val 10 ds))))"

definition pow10 :: "int \<Rightarrow> rat" where
  "pow10 e = (if 0 \<le> e then 10 ^ nat e else 1 / 10 ^ nat (- e))"

definition parse_unsigned_decimal :: "string \<Rightarrow> jsnum option" where
  "parse_unsigned_decimal s =
     (if s = ''Infinity'' then Some PosInf
      else let ip = takeWhile is_digit s;
               r1 = dropWhile is_digit s;
               (fp, r2) = (case r1 of
                   c # r \<Rightarrow> if c = CHR ''.'' then (takeWhile is_digit r, dropWhile is_digit r)
                             else ([], r1)
                 | [] \<Rightarrow> ([], []))
           in if ip = [] \<and> fp = [] then None
              else (case parse_exponent r2 of
                      None \<Rightarrow> None
                    | Some e \<Rightarrow>
                        Some (Fin (of_nat (digits_val 10 (ip @ fp)) * pow10 (e - int (length fp))))))"

definition js_neg :: "jsnum \<Rightarrow> jsnum" where
  "js_neg n = (case n of Fin q \<Rightarrow> Fin (- q) | PosInf \<Rightarrow> NegInf | NegInf \<Rightarrow> PosInf | NaN \<Rightarrow> NaN)"

definition parse_radix :: "nat \<Rightarrow> string \<Rightarrow> jsnum option" where
  "parse_radix base ds =
     (if ds = [] \<or> \<not> list_all (is_digit_in base) ds then None
      else Some (Fin (of_nat (digits_val base ds))))"

definition number_of_string :: "string \<Rightarrow> jsnum" where
  "number_of_string s0 =
     (let s = trim s0;
          parsed =
            (case s of
               [] \<Rightarrow> Some (Fin 0)
             | c # r \<Rightarrow>
                 if c = CHR ''-'' then map_option js_neg (parse_unsigned_decimal r)
                 else if c = CHR ''+'' then parse_unsigned_decimal r
                 else if take 2 s = ''0x'' \<or> take 2 s = ''0X'' then parse_radix 16 (drop 2 s)
                 else if take 2 s = ''0o'' \<or> take 2 s = ''0O'' then parse_radix 8 (drop 2 s)
                 else if take 2 s = ''0b'' \<or> take 2 s = ''0B'' then parse_radix 2 (drop 2 s)
                 else parse_unsigned_decimal s)
      in nullish parsed NaN)"

lemma number_of_string_examples:
  "number_of_string ''12'' = Fin 12" "number_of_string '' 1.5e1 '' = Fin 15"
  "number_of_string '''' = Fin 0" "number_of_string ''soon'' = NaN"
  "number_of_string ''-Infinity'' = NegInf" "number_of_string ''0x1F'' = Fin 31"
  by code_simp+

lemma number_of_string_blank: "trim s = [] \<Longrightarrow> number_of_string s = Fin 0"
  by (simp add: number_of_string_def)

end
