(* ===== verification/Retry.thy ===== *)
theory Retry
  imports Js_Number
begin

text \<open>
  Retrying with exponential backoff, \<open>packages/core/src/utils/retry.ts\<close>.

  A thrown value is a \<open>thrown\<close>: a primitive, or an object with the properties the code
  reads, a flag for \<open>instanceof AgenticError\<close>, and its \<open>cause\<close>. The world \<open>'w\<close> of a
  run is threaded through everything the loop awaits or reads: the operation, the hook
  \<open>onRetry\<close> (whose exceptions the code swallows), \<open>sleep\<close>, \<open>Math.random\<close> and the
  abort signal.
\<close>

section \<open>Thrown values\<close>

datatype thrown =
    ThrownPrim jsval
  | ThrownObj (agentic: bool) (props: "(string \<times> jsval) list") (cause: "thrown option")

definition TRANSPORT_CODES :: "string list" where
  "TRANSPORT_CODES =
     [''ECONNRESET'', ''ECONNREFUSED'', ''ECONNABORTED'', ''ETIMEDOUT'', ''ESOCKETTIMEDOUT'',
      ''ENOTFOUND'', ''EAI_AGAIN'', ''EPIPE'', ''EHOSTUNREACH'', ''ENETUNREACH'', ''ENETRESET'',
      ''UND_ERR_CONNECT_TIMEOUT'', ''UND_ERR_HEADERS_TIMEOUT'', ''UND_ERR_BODY_TIMEOUT'',
      ''UND_ERR_SOCKET'']"

definition TRANSPORT_NAMES :: "string list" where
  "TRANSPORT_NAMES =
     [''APIConnectionError'', ''APIConnectionTimeoutError'', ''ConnectTimeoutError'',
      ''FetchError'', ''TimeoutError'']"

fun isAbortError :: "thrown \<Rightarrow> bool" where
  "isAbortError (ThrownPrim _) = False"
| "isAbortError (ThrownObj _ ps _) = (get_prop ps ''name'' = JStr ''AbortError'')"

text \<open>\<open>typeof v === 'number' && Number.isFinite(v)\<close>.\<close>

fun finite_number :: "jsval \<Rightarrow> rat option" where
  "finite_number (JNum (Fin q)) = Some q"
| "finite_number _ = None"

text \<open>\<open>carrier.status ?? carrier.statusCode\<close>, when it is a finite number.\<close>

fun readStatus :: "thrown \<Rightarrow> rat option" where
  "readStatus (ThrownPrim _) = None"
| "readStatus (ThrownObj _ ps _) =
     (let status = (case get_prop ps ''status'' of
                      JUndef \<Rightarrow> get_prop ps ''statusCode''
                    | JNull \<Rightarrow> get_prop ps ''statusCode''
                    | v \<Rightarrow> v)
      in finite_number status)"

fun isTransportError :: "thrown option \<Rightarrow> nat \<Rightarrow> bool" where
  "isTransportError None _ = False"
| "isTransportError (Some (ThrownPrim _)) _ = False"
| "isTransportError (Some (ThrownObj ag ps c)) depth =
     (if depth > 3 then False
      else if get_prop ps ''name'' = JStr ''AbortError'' then False
      else if (case get_prop ps ''code'' of JStr s \<Rightarrow> s \<in> set TRANSPORT_CODES | _ \<Rightarrow> False) then True
      else if (case get_prop ps ''name'' of JStr s \<Rightarrow> s \<in> set TRANSPORT_NAMES | _ \<Rightarrow> False) then True
      else isTransportError c (depth + 1))"

definition isRetryableModelError :: "thrown \<Rightarrow> bool" where
  "isRetryableModelError err =
     (if (case err of ThrownObj ag _ _ \<Rightarrow> ag | _ \<Rightarrow> False) then False
      else if isAbortError err then False
      else case readStatus err of
             Some status \<Rightarrow> status = 429 \<or> status \<ge> 500
           | None \<Rightarrow> isTransportError (Some err) 0)"

definition readRetryAfterMs :: "thrown \<Rightarrow> rat option" where
  "readRetryAfterMs err =
     (case err of
        ThrownPrim _ \<Rightarrow> None
      | ThrownObj _ ps _ \<Rightarrow>
          (case finite_number (get_prop ps ''retryAfterMs'') of
             Some q \<Rightarrow> Some (max 0 q)
           | None \<Rightarrow>
          (case finite_number (get_prop ps ''retryAfterSeconds'') of
             Some q \<Rightarrow> Some (max 0 (q * 1000))
           | None \<Rightarrow>
          (let seconds = (case get_prop ps ''retryAfter'' of
                            JStr s \<Rightarrow> JNum (number_of_string s) | v \<Rightarrow> v)
           in map_option (\<lambda>q. max 0 (q * 1000)) (finite_number seconds)))))"

section \<open>Backoff\<close>

text \<open>\<open>Math.round\<close>: half rounds up.\<close>

definition js_round :: "rat \<Rightarrow> rat" where
  "js_round q = of_int \<lfloor>q + 1/2\<rfloor>"

definition computeDelayMs :: "nat \<Rightarrow> rat \<Rightarrow> rat \<Rightarrow> rat \<Rightarrow> thrown \<Rightarrow> rat \<Rightarrow> rat" where
  "computeDelayMs attempt initialDelayMs maxDelayMs jitter err random =
     (case readRetryAfterMs err of
        Some hinted \<Rightarrow> min hinted maxDelayMs
      | None \<Rightarrow>
          (let exponential = min (initialDelayMs * 2 ^ (attempt - 1)) maxDelayMs
           in max 0 (js_round (exponential * (1 - jitter * random)))))"

record RetryAttemptEvent =
  rae_attempt :: nat
  rae_maxAttempts :: nat
  rae_delayMs :: rat
  rae_error :: thrown

text \<open>
  What one run is given: the operation and the options. Absent options are filled in by
  \<open>retryWithBackoff\<close>; without a signal, \<open>aborted\<close> is constantly false.
\<close>

record ('w, 'a) retry_env =
  operation :: "'w \<Rightarrow> (thrown, 'a) result \<times> 'w"
  aborted :: "'w \<Rightarrow> bool"
  onRetry :: "RetryAttemptEvent \<Rightarrow> 'w \<Rightarrow> 'w"
  sleep :: "rat \<Rightarrow> 'w \<Rightarrow> thrown option \<times> 'w"
  random :: "'w \<Rightarrow> rat \<times> 'w"
  isRetryable :: "thrown \<Rightarrow> bool"

record retry_options =
  o_maxAttempts :: "jsnum option"
  o_initialDelayMs :: "jsnum option"
  o_maxDelayMs :: "jsnum option"
  o_jitter :: "jsnum option"

definition abortError :: thrown where
  "abortError = ThrownObj False
     [(''message'', JStr ''Retry aborted before any attempt was made.''),
      (''name'', JStr ''AbortError'')] None"

definition type_error :: "string \<Rightarrow> thrown" where
  "type_error m = ThrownObj False [(''name'', JStr ''TypeError''), (''message'', JStr m)] None"

definition assertFiniteDelay :: "string \<Rightarrow> jsnum \<Rightarrow> thrown option" where
  "assertFiniteDelay field value =
     (if \<not> is_finite value \<or> js_lt value (Fin 0)
      then Some (type_error (''retryWithBackoff: '' @ field @ '' must be a finite non-negative number''))
      else None)"

fun rat_of :: "jsnum \<Rightarrow> rat" where
  "rat_of (Fin q) = q"
| "rat_of _ = 0"

text \<open>
  The attempt loop: one round per value of \<open>attempt\<close>, from 1 to \<open>maxAttempts\<close>.
\<close>

function retry_loop ::
    "('w, 'a) retry_env \<Rightarrow> rat \<Rightarrow> rat \<Rightarrow> rat \<Rightarrow> nat \<Rightarrow> nat \<Rightarrow> thrown \<Rightarrow> 'w
       \<Rightarrow> (thrown, 'a) result \<times> 'w" where
  "retry_loop env initialDelayMs maxDelayMs jitter maxAttempts attempt lastError w =
     (if attempt > maxAttempts then (Inl lastError, w)
      else if aborted env w then (Inl lastError, w)
      else (case operation env w of
              (Inr r, w1) \<Rightarrow> (Inr r, w1)
            | (Inl err, w1) \<Rightarrow>
                if attempt = maxAttempts \<or> \<not> isRetryable env err then (Inl err, w1)
                else (case random env w1 of (rnd, w2) \<Rightarrow>
                  (let delayMs = computeDelayMs attempt initialDelayMs maxDelayMs jitter err rnd;
                       w3 = onRetry env \<lparr>rae_attempt = attempt, rae_maxAttempts = maxAttempts,
                              rae_delayMs = delayMs, rae_error = err\<rparr> w2
                   in if aborted env w3 then (Inl err, w3)
                      else (case sleep env delayMs w3 of
                              (Some e, w4) \<Rightarrow> (Inl e, w4)
                            | (None, w4) \<Rightarrow>
                                if aborted env w4 then (Inl err, w4)
                                else retry_loop env initialDelayMs maxDelayMs jitter maxAttempts
                                       (attempt + 1) err w4)))))"
  by pat_completeness auto
termination
  by (relation "measure (\<lambda>(_, _, _, _, maxAttempts, attempt, _, _). maxAttempts + 1 - attempt)") auto

declare retry_loop.simps [simp del]

definition retryWithBackoff ::
    "('w, 'a) retry_env \<Rightarrow> retry_options \<Rightarrow> 'w \<Rightarrow> (thrown, 'a) result \<times> 'w" where
  "retryWithBackoff env opts w =
     (let maxAttempts = nullish (o_maxAttempts opts) (Fin 3);
          initialDelayMs = nullish (o_initialDelayMs opts) (Fin 250);
          maxDelayMs = nullish (o_maxDelayMs opts) (Fin 10000);
          jitter = nullish (o_jitter opts) (Fin (1/2))
      in if \<not> is_integer maxAttempts \<or> js_lt maxAttempts (Fin 1)
         then (Inl (type_error ''retryWithBackoff: maxAttempts must be a positive integer''), w)
         else if \<not> (js_le (Fin 0) jitter \<and> js_le jitter (Fin 1))
         then (Inl (type_error ''retryWithBackoff: jitter must be between 0 and 1''), w)
         else (case assertFiniteDelay ''initialDelayMs'' initialDelayMs of
                 Some e \<Rightarrow> (Inl e, w)
               | None \<Rightarrow>
              (case assertFiniteDelay ''maxDelayMs'' maxDelayMs of
                 Some e \<Rightarrow> (Inl e, w)
               | None \<Rightarrow>
                   retry_loop env (rat_of initialDelayMs) (rat_of maxDelayMs) (rat_of jitter)
                     (nat (int_of maxAttempts)) 1 abortError w)))"

section \<open>Bounds on the delay\<close>

lemma js_round_mono: "a \<le> b \<Longrightarrow> js_round a \<le> js_round b"
  by (simp add: js_round_def floor_mono)

lemma js_round_int [simp]: "js_round (of_int n) = of_int n"
proof -
  have "\<lfloor>(of_int n :: rat) + 1/2\<rfloor> = n" by (rule floor_unique) auto
  then show ?thesis by (simp add: js_round_def)
qed

lemma js_round_close: "\<bar>js_round q - q\<bar> \<le> 1/2"
  unfolding js_round_def by linarith

text \<open>
  a backoff delay lies between 0 and \<open>maxDelayMs\<close> when \<open>maxDelayMs\<close> is a whole number
  of milliseconds, and in general it exceeds it by at most the half millisecond that
  rounding adds; a hint from the provider never exceeds \<open>maxDelayMs\<close> at all.
\<close>

theorem computeDelayMs_bounds:
  assumes "0 \<le> initial" and "0 \<le> maxDelay" and "0 \<le> jitter" and "jitter \<le> 1"
    and "0 \<le> rnd" and "rnd < 1"
  shows "0 \<le> computeDelayMs n initial maxDelay jitter err rnd \<and>
         computeDelayMs n initial maxDelay jitter err rnd \<le> maxDelay + 1/2 \<and>
         (is_integer (Fin maxDelay) \<or> readRetryAfterMs err \<noteq> None \<longrightarrow>
            computeDelayMs n initial maxDelay jitter err rnd \<le> maxDelay)"
proof (cases "readRetryAfterMs err")
  case (Some h)
  then have "0 \<le> h"
    by (auto simp: readRetryAfterMs_def Let_def split: thrown.splits option.splits)
  with Some assms(2) show ?thesis by (simp add: computeDelayMs_def)
next
  case None
  let ?e = "min (initial * 2 ^ (n - 1)) maxDelay"
  have e0: "0 \<le> ?e" using assms(1,2) by simp
  have "jitter * rnd \<le> 1" using assms(3-6) by (simp add: mult_le_one)
  moreover have "0 \<le> jitter * rnd" using assms(3,5) by simp
  ultimately have "?e * (1 - jitter * rnd) \<le> ?e * 1"
    by (intro mult_left_mono e0) simp
  then have le: "?e * (1 - jitter * rnd) \<le> maxDelay" by linarith
  have close: "js_round (?e * (1 - jitter * rnd)) \<le> maxDelay + 1/2"
    using js_round_close [of "?e * (1 - jitter * rnd)"] le by linarith
  have whole: "js_round (?e * (1 - jitter * rnd)) \<le> maxDelay" if "of_int \<lfloor>maxDelay\<rfloor> = maxDelay"
    using js_round_mono [OF le] js_round_int [of "\<lfloor>maxDelay\<rfloor>"] that by simp
  show ?thesis
    using None close whole assms(2) by (auto simp: computeDelayMs_def Let_def)
qed

theorem computeDelayMs_bounds_witness:
  "0 \<le> computeDelayMs 3 250 10000 (1/2) abortError (1/4) \<and>
   computeDelayMs 3 250 10000 (1/2) abortError (1/4) \<le> 10000"
  using computeDelayMs_bounds [of 250 10000 "1/2" "1/4" 3 abortError] by simp

section \<open>How often the operation runs\<close>

text \<open>
  One round of the loop as an equation with the recursive call last: either the loop ends
  in this round, or it goes on from the world after the operation, the hook and the sleep.
\<close>

definition round_ends ::
    "('w, 'a) retry_env \<Rightarrow> rat \<Rightarrow> rat \<Rightarrow> rat \<Rightarrow> nat \<Rightarrow> nat \<Rightarrow> 'w
       \<Rightarrow> ((thrown, 'a) result \<times> 'w) + (thrown \<times> 'w)" where
  "round_ends env initialDelayMs maxDelayMs jitter maxAttempts attempt w =
     (case operation env w of
        (Inr r, w1) \<Rightarrow> Inl (Inr r, w1)
      | (Inl err, w1) \<Rightarrow>
          if attempt = maxAttempts \<or> \<not> isRetryable env err then Inl (Inl err, w1)
          else (case random env w1 of (rnd, w2) \<Rightarrow>
            (let delayMs = computeDelayMs attempt initialDelayMs maxDelayMs jitter err rnd;
                 w3 = onRetry env \<lparr>rae_attempt = attempt, rae_maxAttempts = maxAttempts,
                        rae_delayMs = delayMs, rae_error = err\<rparr> w2
             in if aborted env w3 then Inl (Inl err, w3)
                else (case sleep env delayMs w3 of
                        (Some e, w4) \<Rightarrow> Inl (Inl e, w4)
                      | (None, w4) \<Rightarrow> if aborted env w4 then Inl (Inl err, w4) else Inr (err, w4)))))"

lemma retry_loop_round:
  "retry_loop env i m j n a e w =
     (if a > n \<or> aborted env w then (Inl e, w)
      else case round_ends env i m j n a w of
             Inl res \<Rightarrow> res
           | Inr (err, w') \<Rightarrow> retry_loop env i m j n (a + 1) err w')"
  by (subst retry_loop.simps)
    (simp add: round_ends_def Let_def split: prod.splits sum.splits option.splits)

lemma retry_loop_induct [case_names round]:
  assumes "\<And>a e w. (\<And>err w'. a \<le> n \<Longrightarrow> \<not> aborted env w \<Longrightarrow>
             round_ends env i m j n a w = Inr (err, w') \<Longrightarrow> P (a + 1) err w') \<Longrightarrow> P a e w"
  shows "P a e w"
proof (induction "n + 1 - a" arbitrary: a e w rule: less_induct)
  case less
  show ?case
    by (rule assms) (rule less, simp)
qed

lemma retry_loop_count:
  assumes op: "\<And>w r w'. operation env w = (r, w') \<Longrightarrow> cnt w' = Suc (cnt w)"
    and hook: "\<And>ev w. cnt (onRetry env ev w) = cnt w"
    and slp: "\<And>d w r w'. sleep env d w = (r, w') \<Longrightarrow> cnt w' = cnt w"
    and rnd: "\<And>w r w'. random env w = (r, w') \<Longrightarrow> cnt w' = cnt w"
  shows "cnt (snd (retry_loop env i m j n a e w)) \<le> cnt w + (n + 1 - a)"
proof (induction a e w rule: retry_loop_induct [of n env i m j])
  case (round a e w)
  have counted: "case round_ends env i m j n a w of
      Inl (r, w') \<Rightarrow> cnt w' = Suc (cnt w) | Inr (err, w') \<Rightarrow> cnt w' = Suc (cnt w)"
    by (auto simp: round_ends_def Let_def hook dest!: op slp rnd
        split: prod.splits sum.splits option.splits)
  show ?case
  proof (cases "a > n \<or> aborted env w")
    case True
    then show ?thesis by (auto simp: retry_loop_round)
  next
    case False
    then have small: "Suc (n - a) \<le> n + 1 - a" by auto
    show ?thesis
    proof (cases "round_ends env i m j n a w")
      case (Inl res)
      with False counted small show ?thesis by (cases res) (auto simp: retry_loop_round [of env i m j n a])
    next
      case (Inr ew)
      obtain err w' where ew: "ew = (err, w')" by (cases ew)
      from False Inr ew have "retry_loop env i m j n a e w = retry_loop env i m j n (a + 1) err w'"
        by (subst retry_loop_round) simp
      with round [of err w'] False Inr ew counted show ?thesis by simp
    qed
  qed
qed

lemma retryWithBackoff_cases:
  obtains (invalid) err where "retryWithBackoff env opts w = (Inl err, w)"
  | (loop) i m j where "0 \<le> i" "0 \<le> m" "0 \<le> j" "j \<le> 1"
      "1 \<le> nat (int_of (nullish (o_maxAttempts opts) (Fin 3)))"
      "retryWithBackoff env opts w =
         retry_loop env i m j (nat (int_of (nullish (o_maxAttempts opts) (Fin 3)))) 1 abortError w"
proof (cases "\<exists>err. retryWithBackoff env opts w = (Inl err, w)")
  case True
  with that(1) show ?thesis by blast
next
  case False
  let ?n = "nullish (o_maxAttempts opts) (Fin 3)"
  let ?i = "nullish (o_initialDelayMs opts) (Fin 250)"
  let ?m = "nullish (o_maxDelayMs opts) (Fin 10000)"
  let ?j = "nullish (o_jitter opts) (Fin (1/2))"
  from False have valid: "is_integer ?n \<and> \<not> js_lt ?n (Fin 1) \<and> js_le (Fin 0) ?j \<and> js_le ?j (Fin 1) \<and>
      assertFiniteDelay ''initialDelayMs'' ?i = None \<and> assertFiniteDelay ''maxDelayMs'' ?m = None"
    by (auto simp: retryWithBackoff_def Let_def split: if_splits option.splits)
  then have "0 \<le> rat_of ?i" "0 \<le> rat_of ?m"
    by (cases ?i; cases ?m; auto simp: assertFiniteDelay_def split: if_splits)+
  moreover from valid have "0 \<le> rat_of ?j" "rat_of ?j \<le> 1" by (cases ?j; simp)+
  moreover from valid have "1 \<le> nat (int_of ?n)" by (cases ?n) (auto simp: le_nat_iff le_floor_iff)
  moreover from valid have "retryWithBackoff env opts w =
      retry_loop env (rat_of ?i) (rat_of ?m) (rat_of ?j) (nat (int_of ?n)) 1 abortError w"
    by (simp add: retryWithBackoff_def)
  ultimately show ?thesis by (rule that(2))
qed

text \<open>
  one call of \<open>retryWithBackoff\<close> runs the operation at most \<open>maxAttempts\<close> times
  (three by default), whatever the operation, the hook, the sleep and the signal do; \<open>cnt\<close>
  is any counter of the operation's runs kept in the world.
\<close>

theorem retry_attempts_bounded:
  assumes "\<And>w r w'. operation env w = (r, w') \<Longrightarrow> cnt w' = Suc (cnt w)"
    and "\<And>ev w. cnt (onRetry env ev w) = cnt w"
    and "\<And>d w r w'. sleep env d w = (r, w') \<Longrightarrow> cnt w' = cnt w"
    and "\<And>w r w'. random env w = (r, w') \<Longrightarrow> cnt w' = cnt w"
  shows "cnt (snd (retryWithBackoff env opts w)) \<le>
         cnt w + nat (int_of (nullish (o_maxAttempts opts) (Fin 3)))"
proof (cases rule: retryWithBackoff_cases [of env opts w])
  case (invalid err)
  then show ?thesis by simp
next
  case (loop i m j)
  with retry_loop_count [of env cnt i m j
      "nat (int_of (nullish (o_maxAttempts opts) (Fin 3)))" 1 abortError w, OF assms]
  show ?thesis by simp
qed

section \<open>The outcome, against a script of attempts\<close>

text \<open>
  An environment whose operation produces a given list of outcomes, one per attempt, and
  which is never aborted; the world is the rest of the script and the delays slept so far.
\<close>

definition script_env ::
    "(thrown \<Rightarrow> bool) \<Rightarrow> rat \<Rightarrow> ((thrown, 'a) result list \<times> rat list, 'a) retry_env" where
  "script_env p r =
     \<lparr>operation = (\<lambda>(os, ds). (hd os, (tl os, ds))), aborted = (\<lambda>_. False),
      onRetry = (\<lambda>_ w. w), sleep = (\<lambda>d (os, ds). (None, (os, ds @ [d]))),
      random = (\<lambda>w. (r, w)), isRetryable = p\<rparr>"

fun retryable_failure :: "(thrown \<Rightarrow> bool) \<Rightarrow> (thrown, 'a) result \<Rightarrow> bool" where
  "retryable_failure p (Inl e) = p e"
| "retryable_failure p (Inr _) = False"

text \<open>The attempt whose outcome is returned (counting from 0).\<close>

definition deciding :: "(thrown \<Rightarrow> bool) \<Rightarrow> nat \<Rightarrow> (thrown, 'a) result list \<Rightarrow> nat" where
  "deciding p n os = min (length (takeWhile (retryable_failure p) os)) (n - 1)"

definition backoff_delays ::
    "rat \<Rightarrow> rat \<Rightarrow> rat \<Rightarrow> rat \<Rightarrow> nat \<Rightarrow> (thrown, 'a) result list \<Rightarrow> rat list" where
  "backoff_delays i m j r a os =
     map (\<lambda>(k, out). computeDelayMs (a + k) i m j (case out of Inl e \<Rightarrow> e | Inr _ \<Rightarrow> abortError) r)
       (enumerate 0 os)"

lemma backoff_delays_Cons:
  "backoff_delays i m j r a (Inl e # os) = computeDelayMs a i m j e r # backoff_delays i m j r (Suc a) os"
proof -
  have "enumerate (Suc 0) os = map (\<lambda>(k, out). (Suc k, out)) (enumerate 0 os)"
    by (auto simp: enumerate_Suc_eq)
  then show ?thesis by (simp add: backoff_delays_def case_prod_unfold comp_def)
qed

lemma script_round_stop:
  assumes "os = out # os'" and "a = n \<or> \<not> retryable_failure p out"
  shows "round_ends (script_env p r) i m j n a (os, ds) = Inl (out, (os', ds))"
  using assms by (cases out) (auto simp: round_ends_def script_env_def)

lemma script_round_go:
  assumes "os = Inl e # os'" and "a \<noteq> n" and "p e"
  shows "round_ends (script_env p r) i m j n a (os, ds) =
         Inr (e, (os', ds @ [computeDelayMs a i m j e r]))"
  using assms by (simp add: round_ends_def script_env_def)

lemma script_not_aborted [simp]: "\<not> aborted (script_env p r) w"
  by (simp add: script_env_def)

lemma script_loop:
  assumes "1 \<le> a" and "a \<le> n" and "n - a < length os"
  shows "retry_loop (script_env p r) i m j n a e (os, ds) =
    (let k = deciding p (n + 1 - a) os
     in (os ! k, (drop (k + 1) os, ds @ backoff_delays i m j r a (take k os))))"
  using assms
proof (induction "n - a" arbitrary: a e os ds)
  case 0
  then obtain out os' where os: "os = out # os'" by (cases os) auto
  from 0 have "a = n" by simp
  with os show ?case
    by (simp add: retry_loop_round [of "script_env p r" i m j n] script_round_stop deciding_def
        backoff_delays_def)
next
  case (Suc d)
  then obtain out os' where os: "os = out # os'" by (cases os) auto
  show ?case
  proof (cases "retryable_failure p out")
    case False
    with os Suc.prems show ?thesis
      by (simp add: retry_loop_round [of "script_env p r" i m j n] script_round_stop deciding_def
          backoff_delays_def)
  next
    case True
    then obtain e' where out: "out = Inl e'" "p e'" by (cases out) auto
    have "a \<noteq> n" "a \<le> n" using Suc by auto
    have IH: "retry_loop (script_env p r) i m j n (a + 1) e' (os', ds @ [computeDelayMs a i m j e' r]) =
      (let k = deciding p (n + 1 - (a + 1)) os'
       in (os' ! k, (drop (k + 1) os', (ds @ [computeDelayMs a i m j e' r]) @
            backoff_delays i m j r (a + 1) (take k os'))))"
      by (rule Suc.hyps(1)) (use Suc os in auto)
    have k: "deciding p (n + 1 - a) os = Suc (deciding p (n - a) os')"
      using os out \<open>a \<noteq> n\<close> \<open>a \<le> n\<close> by (simp add: deciding_def)
    show ?thesis
      using os out \<open>a \<noteq> n\<close> \<open>a \<le> n\<close> IH k
      by (simp add: retry_loop_round [of "script_env p r" i m j n a] script_round_go Let_def
          backoff_delays_Cons)
  qed
qed

text \<open>
  over a script of attempts, the outcome returned is the one of the first attempt that
  succeeds or fails with an error that is not retryable, or of attempt number
  \<open>maxAttempts\<close>; no later attempt is made, and one backoff delay is slept after each
  earlier attempt.
\<close>

theorem retry_outcome:
  assumes "o_maxAttempts opts = Some (Fin (of_nat n))" and "1 \<le> n" and "n \<le> length os"
    and "o_initialDelayMs opts = Some (Fin i)" and "0 \<le> i"
    and "o_maxDelayMs opts = Some (Fin m)" and "0 \<le> m"
    and "o_jitter opts = Some (Fin j)" and "0 \<le> j" and "j \<le> 1"
  shows "retryWithBackoff (script_env p r) opts (os, []) =
    (let k = deciding p n os
     in (os ! k, (drop (k + 1) os, backoff_delays i m j r 1 (take k os))))"
  using assms script_loop [of 1 n os p r i m j abortError "[]"]
  by (simp add: retryWithBackoff_def assertFiniteDelay_def)

definition overload_error :: thrown where
  "overload_error = ThrownObj False [(''status'', JNum (Fin 503))] None"

theorem retry_outcome_witness:
  "retryWithBackoff (script_env isRetryableModelError (1/2))
     \<lparr>o_maxAttempts = Some (Fin (of_nat 3)), o_initialDelayMs = Some (Fin 100),
      o_maxDelayMs = Some (Fin 1000), o_jitter = Some (Fin 0)\<rparr>
     ([Inl overload_error, Inl overload_error, Inr ''done'', Inr ''never''], []) =
   (Inr ''done'', ([Inr ''never''], [100, 200]))"
proof -
  have p: "isRetryableModelError overload_error"
    by (simp add: isRetryableModelError_def overload_error_def get_prop_def)
  have d: "computeDelayMs k 100 1000 0 overload_error (1/2) = js_round (min (100 * 2 ^ (k - 1)) 1000)"
    for k by (simp add: computeDelayMs_def overload_error_def readRetryAfterMs_def get_prop_def
        js_round_def max_def min_def not_le)
  have "js_round 100 = 100" "js_round 200 = 200"
    using js_round_int [of 100] js_round_int [of 200] by simp_all
  then show ?thesis
    by (subst retry_outcome [where n = 3 and i = 100 and m = 1000 and j = 0])
      (use p in \<open>simp_all add: deciding_def backoff_delays_def d\<close>)
qed

definition counting_env :: "(nat, unit) retry_env" where
  "counting_env =
     \<lparr>operation = (\<lambda>w. (Inl overload_error, Suc w)), aborted = (\<lambda>_. False),
      onRetry = (\<lambda>_ w. w), sleep = (\<lambda>_ w. (None, w)), random = (\<lambda>w. (0, w)),
      isRetryable = isRetryableModelError\<rparr>"

theorem retry_attempts_bounded_witness:
  "snd (retryWithBackoff counting_env
     \<lparr>o_maxAttempts = Some (Fin 4), o_initialDelayMs = None, o_maxDelayMs = None, o_jitter = None\<rparr>
     0) \<le> 0 + nat (int_of (nullish (Some (Fin 4)) (Fin 3)))"
proof -
  let ?opts = "\<lparr>o_maxAttempts = Some (Fin 4), o_initialDelayMs = None, o_maxDelayMs = None,
               o_jitter = None\<rparr>"
  have "snd (retryWithBackoff counting_env ?opts 0) \<le>
        0 + nat (int_of (nullish (o_maxAttempts ?opts) (Fin 3)))"
    by (rule retry_attempts_bounded [where cnt = "\<lambda>w. w"]) (auto simp: counting_env_def)
  then show ?thesis by (simp only: retry_options.simps)
qed

text \<open>A run whose signal is already aborted never runs the operation.\<close>

lemma retry_aborted_before_start:
  assumes "aborted env w"
  shows "\<exists>e. retryWithBackoff env opts w = (Inl e, w)"
proof (cases rule: retryWithBackoff_cases [of env opts w])
  case (loop i m j)
  then show ?thesis using assms by (subst loop(6), subst retry_loop_round) simp
qed blast

end
