(* ===== verification/Resilient_Model.thy ===== *)
theory Resilient_Model
  imports Circuit_Breaker Retry
begin

text \<open>
  The resilience wrapper of \<open>packages/core/src/adapters/resilient-model.adapter.ts\<close>: a
  circuit breaker around a retried model call. The wrapped adapter is the \<open>operation\<close> of
  a \<open>retry_env\<close>; a stream it opens is the list of what its iterator's \<open>next()\<close> calls give,
  a chunk or an exception, with \<open>done\<close> at the end of the list. The breaker and the retry
  options are each optional.
\<close>

section \<open>Operations\<close>

text \<open>\<open>err instanceof Error ? err.message : String(err)\<close>, for the values the model has.\<close>

definition describe_thrown :: "thrown \<Rightarrow> string" where
  "describe_thrown err =
     (case err of
        ThrownObj _ ps _ \<Rightarrow> (case get_prop ps ''message'' of JStr m \<Rightarrow> m | _ \<Rightarrow> [])
      | ThrownPrim (JStr s) \<Rightarrow> s
      | ThrownPrim _ \<Rightarrow> [])"

type_synonym resilience_error = "cb_error + thrown"

definition withRetry ::
    "retry_options option \<Rightarrow> ('w, 'a) retry_env \<Rightarrow> 'w \<Rightarrow> (thrown, 'a) result \<times> 'w" where
  "withRetry retryOptions env w =
     (case retryOptions of None \<Rightarrow> operation env w | Some o' \<Rightarrow> retryWithBackoff env o' w)"

lemma withRetry_None [simp]: "withRetry None env = operation env"
  by (rule ext) (simp add: withRetry_def)

definition guard ::
    "bool \<Rightarrow> int \<Rightarrow> int \<Rightarrow> ('w \<Rightarrow> (thrown, 'a) result \<times> 'w) \<Rightarrow> 'w \<Rightarrow> breaker option
       \<Rightarrow> (resilience_error, 'a) result \<times> 'w \<times> breaker option" where
  "guard deferSuccess now now' op w brk_opt =
     (case brk_opt of
        None \<Rightarrow> (case op w of (out, w') \<Rightarrow> (map_sum Inr id out, w', None))
      | Some b \<Rightarrow>
          (case execute describe_thrown deferSuccess now now' op w b of
             (out, w', b') \<Rightarrow> (out, w', Some b')))"

definition generate ::
    "retry_options option \<Rightarrow> ('w, 'a) retry_env \<Rightarrow> int \<Rightarrow> int \<Rightarrow> 'w \<Rightarrow> breaker option
       \<Rightarrow> (resilience_error, 'a) result \<times> 'w \<times> breaker option" where
  "generate retryOptions env now now' w b =
     guard False now now' (withRetry retryOptions env) w b"

datatype 'c pulled = Chunk 'c | Throws thrown

text \<open>Opening a stream and pulling its first chunk: what one attempt covers.\<close>

definition pull_first :: "'c pulled list \<Rightarrow> (thrown, 'c option \<times> 'c pulled list) result" where
  "pull_first it =
     (case it of
        [] \<Rightarrow> Inr (None, [])
      | Chunk c # rest \<Rightarrow> Inr (Some c, rest)
      | Throws e # rest \<Rightarrow> Inl e)"

datatype drain_end = Drained | Broke thrown | Abandoned

text \<open>
  The yield loop after the first chunk. \<open>quota\<close> is how many more chunks the consumer takes
  before it leaves the loop (\<open>None\<close>: it reads to the end).
\<close>

fun drain :: "nat option \<Rightarrow> 'c pulled list \<Rightarrow> 'c list \<times> drain_end" where
  "drain (Some 0) _ = ([], Abandoned)"
| "drain _ [] = ([], Drained)"
| "drain _ (Throws e # _) = ([], Broke e)"
| "drain quota (Chunk c # rest) =
     (case drain (map_option (\<lambda>n. n - 1) quota) rest of (cs, e) \<Rightarrow> (c # cs, e))"

definition stream ::
    "retry_options option \<Rightarrow> ('w, 'c option \<times> 'c pulled list) retry_env \<Rightarrow> nat option \<Rightarrow> int \<Rightarrow> int
       \<Rightarrow> 'w \<Rightarrow> breaker option \<Rightarrow> 'c list \<times> (resilience_error, unit) result \<times> 'w \<times> breaker option" where
  "stream retryOptions env quota now now' w b =
     (case guard True now now' (withRetry retryOptions env) w b of
        (Inl e, w', b') \<Rightarrow> ([], Inl e, w', b')
      | (Inr (None, _), w', b') \<Rightarrow> ([], Inr (), w', map_option (recordSuccess now') b')
      | (Inr (Some c, rest), w', b') \<Rightarrow>
          (case drain (map_option (\<lambda>n. n - 1) quota) rest of
             (cs, Drained) \<Rightarrow> (c # cs, Inr (), w', map_option (recordSuccess now') b')
           | (cs, Broke e) \<Rightarrow>
               (c # cs, Inl (Inr e), w', map_option (recordFailure now' (describe_thrown e)) b')
           | (cs, Abandoned) \<Rightarrow> (c # cs, Inr (), w', map_option (recordSuccess now') b')))"

section \<open>One call, one mark against the circuit\<close>

lemma execute_closed:
  assumes "cb_state b = Closed" and "op w = (out, w')"
  shows "execute d df now now' op w b =
    (case out of
       Inl e \<Rightarrow> (Inl (Inr e), w', recordFailure now' (d e) b)
     | Inr r \<Rightarrow> (Inr r, w', if df then b else recordSuccess now' b))"
  using assms
  by (simp add: execute_def execute_enter_def promoteIfCooledDown_def execute_exit_def
      split: sum.splits)

definition retry_opts :: "nat \<Rightarrow> rat \<Rightarrow> rat \<Rightarrow> rat \<Rightarrow> retry_options" where
  "retry_opts n i m j =
     \<lparr>o_maxAttempts = Some (Fin (of_nat n)), o_initialDelayMs = Some (Fin i),
      o_maxDelayMs = Some (Fin m), o_jitter = Some (Fin j)\<rparr>"

lemma withRetry_script:
  assumes "1 \<le> n" and "n \<le> length os" and "0 \<le> i" and "0 \<le> m" and "0 \<le> j" and "j \<le> 1"
  shows "withRetry (Some (retry_opts n i m j)) (script_env p r) (os, []) =
    (let k = deciding p n os
     in (os ! k, (drop (k + 1) os, backoff_delays i m j r 1 (take k os))))"
  using assms script_loop [of 1 n os p r i m j abortError "[]"]
  by (simp add: withRetry_def retry_opts_def retryWithBackoff_def assertFiniteDelay_def)

lemma deciding_all_fail:
  assumes "\<forall>out \<in> set (take n os). retryable_failure p out" and "n \<le> length os" and "1 \<le> n"
  shows "deciding p n os = n - 1"
proof -
  have "length (takeWhile (retryable_failure p) (take n os @ drop n os)) \<ge> n"
    using assms(1,2) by (subst takeWhile_append) (auto simp: takeWhile_eq_all_conv [THEN iffD2])
  then show ?thesis by (simp add: deciding_def)
qed

text \<open>
  A call whose retries are exhausted counts once against the circuit: with \<open>n\<close> attempts
  that all fail with retryable errors, the wrapped adapter is called \<open>n\<close> times, the caller
  sees the last error, and the failure counter grows by one (opening the circuit only if
  that reaches the threshold).
\<close>

theorem exhausted_retries_count_once:
  fixes os :: "(thrown, 'a) result list"
  assumes "cb_state b = Closed" and "1 \<le> n" and "n \<le> length os"
    and "0 \<le> i" and "0 \<le> m" and "0 \<le> j" and "j \<le> 1"
    and "\<forall>out \<in> set (take n os). retryable_failure p out"
  shows "\<exists>e b'. os ! (n - 1) = Inl e \<and>
    generate (Some (retry_opts n i m j)) (script_env p r) now now' (os, []) (Some b) =
      (Inl (Inr e), (drop n os, backoff_delays i m j r 1 (take (n - 1) os)), Some b') \<and>
    failures b' = failures b + 1 \<and>
    cb_state b' = (if int (failures b + 1) \<ge> failureThreshold b then Open else Closed)"
proof -
  have dec: "deciding p n os = n - 1" by (rule deciding_all_fail) (use assms in auto)
  have "os ! (n - 1) \<in> set (take n os)"
    using assms(2,3) by (metis One_nat_def Suc_pred diff_less in_set_conv_nth le_eq_less_or_eq
        length_take min.absorb2 nth_take less_numeral_extra(1) less_le_trans)
  with assms(8) obtain e where e: "os ! (n - 1) = Inl e" "p e"
    by (cases "os ! (n - 1)") fastforce+
  let ?b = "recordFailure now' (describe_thrown e) b"
  have run: "withRetry (Some (retry_opts n i m j)) (script_env p r) (os, []) =
      (Inl e, (drop n os, backoff_delays i m j r 1 (take (n - 1) os)))"
    using withRetry_script [of n os i m j p r] assms dec e by simp
  have "generate (Some (retry_opts n i m j)) (script_env p r) now now' (os, []) (Some b) =
      (Inl (Inr e), (drop n os, backoff_delays i m j r 1 (take (n - 1) os)), Some ?b)"
    using execute_closed [where op = "withRetry (Some (retry_opts n i m j)) (script_env p r)",
        OF assms(1) run]
    by (simp add: generate_def guard_def)
  moreover have "failures ?b = failures b + 1"
    "cb_state ?b = (if int (failures b + 1) \<ge> failureThreshold b then Open else Closed)"
    using assms(1) by (simp_all add: cb_defs)
  ultimately show ?thesis using e by blast
qed

theorem exhausted_retries_count_once_witness:
  "\<exists>e b'. [Inl overload_error, Inl overload_error, Inr ''late''] ! (2 - 1) = Inl e \<and>
    generate (Some (retry_opts 2 100 1000 0)) (script_env isRetryableModelError 0) 5 6
      ([Inl overload_error, Inl overload_error, Inr ''late''], []) (Some example_breaker) =
      (Inl (Inr e),
       (drop 2 [Inl overload_error, Inl overload_error, Inr ''late''],
        backoff_delays 100 1000 0 0 1 (take (2 - 1) [Inl overload_error, Inl overload_error, Inr ''late''])),
       Some b') \<and>
    failures b' = failures example_breaker + 1 \<and>
    cb_state b' =
      (if int (failures example_breaker + 1) \<ge> failureThreshold example_breaker then Open else Closed)"
  by (rule exhausted_retries_count_once)
    (simp_all add: example_breaker_def overload_error_def isRetryableModelError_def get_prop_def)

section \<open>Streams are never replayed\<close>

text \<open>The chunks a stream script yields before it ends or throws, and how it ends.\<close>

definition chunks_of :: "'c pulled list \<Rightarrow> 'c list" where
  "chunks_of it = map (\<lambda>x. case x of Chunk c \<Rightarrow> c) (takeWhile (\<lambda>x. \<exists>c. x = Chunk c) it)"

lemma chunks_of_simps [simp]:
  "chunks_of [] = []" "chunks_of (Chunk c # it) = c # chunks_of it" "chunks_of (Throws e # it) = []"
  by (simp_all add: chunks_of_def)

lemma drain_chunks:
  "fst (drain quota it) = (case quota of None \<Rightarrow> chunks_of it | Some n \<Rightarrow> take n (chunks_of it))"
  by (induction quota it rule: drain.induct)
    (auto split: prod.splits option.splits simp: take_Cons')

lemma pull_first_chunks:
  assumes "pull_first it = Inr (fst_c, rest)"
  shows "chunks_of it = (case fst_c of None \<Rightarrow> [] | Some c \<Rightarrow> c # chunks_of rest)"
  using assms by (auto simp: pull_first_def split: list.splits pulled.splits)

text \<open>
  what a consumer of \<open>stream\<close> receives comes from a single attempt. If attempts are
  scripted, the chunks delivered are those of the deciding attempt, cut at the number the
  consumer asked for, and never a chunk of another attempt: a failure after the first chunk
  is passed on rather than retried.
\<close>

theorem stream_delivers_one_attempt:
  assumes "1 \<le> n" and "n \<le> length its" and "0 \<le> i" and "0 \<le> m" and "0 \<le> j" and "j \<le> 1"
    and "quota \<noteq> Some 0"
  shows "fst (stream (Some (retry_opts n i m j)) (script_env p r) quota now now'
              (map pull_first its, []) None) =
    (let it = its ! deciding p n (map pull_first its)
     in case quota of None \<Rightarrow> chunks_of it | Some q \<Rightarrow> take q (chunks_of it))"
proof -
  let ?k = "deciding p n (map pull_first its)"
  have k: "?k < length its" using assms(1,2) by (auto simp: deciding_def)
  have run: "withRetry (Some (retry_opts n i m j)) (script_env p r) (map pull_first its, []) =
      (pull_first (its ! ?k), (drop (?k + 1) (map pull_first its),
         backoff_delays i m j r 1 (take ?k (map pull_first its))))"
    using withRetry_script [of n "map pull_first its" i m j p r] assms k by (simp add: Let_def)
  show ?thesis
  proof (cases "pull_first (its ! ?k)")
    case (Inl e)
    then have "chunks_of (its ! ?k) = []"
      by (auto simp: pull_first_def split: list.splits pulled.splits)
    with Inl run show ?thesis
      by (simp add: stream_def guard_def Let_def split: option.splits)
  next
    case (Inr fr)
    obtain c0 rest where fr: "fr = (c0, rest)" by (cases fr)
    have ch: "chunks_of (its ! ?k) = (case c0 of None \<Rightarrow> [] | Some c \<Rightarrow> c # chunks_of rest)"
      by (rule pull_first_chunks) (use Inr fr in simp)
    have dr: "fst (drain (map_option (\<lambda>n. n - 1) quota) rest) =
        (case quota of None \<Rightarrow> chunks_of rest | Some q \<Rightarrow> take (q - 1) (chunks_of rest))"
      by (cases quota) (simp_all add: drain_chunks)
    show ?thesis
    proof (cases c0)
      case None
      with run Inr fr ch show ?thesis
        by (simp add: stream_def guard_def Let_def split: option.splits)
    next
      case (Some c)
      have "fst (stream (Some (retry_opts n i m j)) (script_env p r) quota now now'
              (map pull_first its, []) None) =
            c # fst (drain (map_option (\<lambda>n. n - 1) quota) rest)"
        using run Inr fr Some
        by (simp add: stream_def guard_def split: prod.splits drain_end.splits)
      with dr ch Some assms(7) show ?thesis
        by (cases quota) (simp_all add: Let_def take_Cons')
    qed
  qed
qed

theorem stream_delivers_one_attempt_witness:
  "fst (stream (Some (retry_opts 2 100 1000 0)) (script_env isRetryableModelError 0) None 5 6
      (map pull_first [[Throws overload_error, Chunk ''x''], [Chunk ''a'', Throws overload_error]], [])
      None) =
   (let it = [[Throws overload_error, Chunk ''x''], [Chunk ''a'', Throws overload_error]] !
       deciding isRetryableModelError 2
         (map pull_first [[Throws overload_error, Chunk ''x''], [Chunk ''a'', Throws overload_error]])
    in case (None :: nat option) of None \<Rightarrow> chunks_of it | Some q \<Rightarrow> take q (chunks_of it))"
  by (rule stream_delivers_one_attempt) simp_all

text \<open>
  A stream that breaks after its first chunk counts as a failure of the call, although
  opening it succeeded.
\<close>

lemma stream_break_counts:
  assumes "cb_state b = Closed"
    and "operation env w = (Inr (Some c, rest), w')"
    and "drain (map_option (\<lambda>n. n - 1) quota) rest = (cs, Broke e)"
  shows "stream None env quota now now' w (Some b) =
    (c # cs, Inl (Inr e), w', Some (recordFailure now' (describe_thrown e) b))"
  using assms(3) execute_closed [where op = "operation env", OF assms(1) assms(2)]
  by (simp add: stream_def guard_def)

end
