(* ===== verification/Agent_Types.thy ===== *)
theory Agent_Types
  imports Prelude
begin

text \<open>
  The data the components exchange, as \<open>packages/core/src/interfaces\<close> declares it:
  conversation messages, execution contexts, tool results, pending approvals and audit
  events. An optional property is an \<open>option\<close>; a \<open>Date\<close> is its time in milliseconds;
  \<open>Record<string, unknown>\<close> is a property list. An \<open>AbortSignal\<close> is a live handle and
  not data: the operations that read one take its reading as an argument.
\<close>

section \<open>Provenance and messages\<close>

datatype ProvenanceSource = FromModel | FromTool | FromExternal | FromUser

record Provenance =
  source :: ProvenanceSource
  origin :: "string option"

record ModelToolCall =
  call_id :: string
  call_name :: string
  call_args :: "(string \<times> jsval) list"

datatype ModelMessage =
    SystemMsg (content: string)
  | UserMsg (content: string)
  | AssistantMsg (content: string) (toolCalls: "ModelToolCall list option")
  | ToolMsg (toolCallId: string) (toolName: string) (content: string)
      (provenance: "Provenance option")

fun is_system :: "ModelMessage \<Rightarrow> bool" where
  "is_system (SystemMsg _) = True"
| "is_system _ = False"

fun is_tool :: "ModelMessage \<Rightarrow> bool" where
  "is_tool (ToolMsg _ _ _ _) = True"
| "is_tool _ = False"

text \<open>\<open>message.toolCalls ?? []\<close> of an assistant message, the empty list of any other.\<close>

fun calls_of :: "ModelMessage \<Rightarrow> ModelToolCall list" where
  "calls_of (AssistantMsg _ tcs) = nullish tcs []"
| "calls_of _ = []"

record ModelUsage =
  inputTokens :: "int option"
  outputTokens :: "int option"
  totalTokens :: "int option"

section \<open>Execution context\<close>

record AgentSecurityContext =
  userId :: "string option"
  tenantId :: "string option"
  roles :: "string list option"
  permissions :: "string list option"

record AgentContext =
  security :: AgentSecurityContext
  sessionId :: string
  traceId :: string
  parentTraceId :: "string option"
  rootTraceId :: "string option"
  ctx_data :: "(string \<times> jsval) list option"
  deadline :: "int option"

record AuditActor =
  act_userId :: "string option"
  act_tenantId :: "string option"
  act_roles :: "string list option"
  act_label :: "string option"

section \<open>Tool results\<close>

datatype ToolExecutionResult =
    Success jsval "Provenance option"
  | Denied string "Provenance option"
  | PendingResult (res_reason: string) (res_approvalId: string)
      (res_requiredApprovals: "int option") (res_signatures: "nat option")

section \<open>Pending approvals\<close>

record ApprovalSignature =
  sig_userId :: string
  sig_actor :: AuditActor
  signedAt :: int
  approvalVersion :: "string option"

text \<open>
  \<open>StoredStructuredOutput\<close> is carried through untouched by the approval code; it is kept
  as a value.
\<close>

record ApprovalCheckpoint =
  cp_version :: nat
  cp_messages :: "ModelMessage list"
  cp_structuredOutput :: "jsval option"

definition APPROVAL_CHECKPOINT_VERSION :: nat where
  "APPROVAL_CHECKPOINT_VERSION = 1"

record PendingApproval =
  ap_id :: string
  ap_agentName :: string
  ap_toolName :: string
  ap_args :: "(string \<times> jsval) list"
  ap_context :: AgentContext
  ap_reason :: string
  createdAt :: int
  expiresAt :: "int option"
  ap_toolCallId :: "string option"
  checkpoint :: "ApprovalCheckpoint option"
  requestedBy :: "AuditActor option"
  requiredApprovals :: "int option"
  signatures :: "ApprovalSignature list option"

definition requiredApprovalsOf :: "PendingApproval \<Rightarrow> int" where
  "requiredApprovalsOf p = nullish (requiredApprovals p) 1"

definition signatureCount :: "PendingApproval \<Rightarrow> nat" where
  "signatureCount p = length (nullish (signatures p) [])"

definition hasSigned :: "PendingApproval \<Rightarrow> string \<Rightarrow> bool" where
  "hasSigned p u = list_ex (\<lambda>s. sig_userId s = u) (nullish (signatures p) [])"

datatype ApprovalSignatureResult =
    SigPending PendingApproval
  | SigComplete PendingApproval
  | SigDuplicate PendingApproval

datatype ApprovalDecision = Approve | Reject "string option"

fun is_approve :: "ApprovalDecision \<Rightarrow> bool" where
  "is_approve Approve = True"
| "is_approve (Reject _) = False"

section \<open>Audit events\<close>

record AuditEventBase =
  env_at :: int
  env_sessionId :: string
  env_traceId :: string
  env_tenantId :: "string option"

definition auditEnvelope :: "int \<Rightarrow> AgentContext \<Rightarrow> AuditEventBase" where
  "auditEnvelope now ctx =
     \<lparr>env_at = now, env_sessionId = sessionId ctx, env_traceId = traceId ctx,
      env_tenantId = tenantId (security ctx)\<rparr>"

datatype PolicyVerdict = Allowed | DeniedBy | NeedsApproval | Sanitized

datatype Outcome = Approved | Rejected

text \<open>
  One constructor per event type; the arguments of the call, which several events carry,
  come last.
\<close>

datatype AuditEvent =
    ToolPolicyDecision AuditEventBase (ev_agent: string) (ev_tool: string) (ev_policy: string)
      (ev_verdict: PolicyVerdict) (ev_reason_opt: "string option") (ev_approvalId: "string option")
      (ev_retryAfterSeconds: "int option") (ev_args: "(string \<times> jsval) list option")
  | ToolOutputPolicyDecision AuditEventBase (ev_agent: string) (ev_tool: string) (ev_policy: string)
      (ev_verdict: PolicyVerdict) (ev_reason_opt: "string option")
      (ev_args: "(string \<times> jsval) list option")
  | ApprovalRequested AuditEventBase string (ev_agent: string) (ev_tool: string) string
      (ev_expiresAt: "int option") (ev_required: "int option")
      (ev_args: "(string \<times> jsval) list option")
  | ApprovalSigned AuditEventBase string (ev_agent: string) (ev_tool: string) AuditActor nat int
  | ApprovalSettled AuditEventBase string (ev_agent: string) (ev_tool: string) Outcome
      "AuditActor option" "AuditActor list option" string
      (ev_args: "(string \<times> jsval) list option")
  | ApprovalExpired AuditEventBase string (ev_agent: string) (ev_tool: string) int "AuditActor option"
  | ApprovalSettlementFailed AuditEventBase string (ev_agent: string) (ev_tool: string) Outcome string
      "AuditActor option"
  | ApprovalSettlementDenied AuditEventBase string (ev_agent: string) (ev_tool: string) Outcome string
      "AuditActor option"

end
