(* ===== verification/Approval_Store.thy ===== *)
theory Approval_Store
  imports Agent_Types
begin

text \<open>
  The approval store: the interface \<open>ApprovalStore\<close> of
  \<open>packages/core/src/interfaces/approval.interface.ts\<close> as the record \<open>store_ops\<close> of
  operations over a state \<open>'s\<close>, its documented contract as the locale \<open>approval_store\<close>,
  and \<open>InMemoryApprovalStore\<close> as the implementation the locale is interpreted on.

  The in-memory store keeps serialized snapshots and revives the dates when it reads them
  back; a record of the model is a value already, so a snapshot is the record itself.
\<close>

section \<open>The interface\<close>

text \<open>
  \<open>save\<close> reports whether it worked, because the service catches its exceptions.
  \<open>addSignature\<close> is an optional method.
\<close>

record 's store_ops =
  st_save :: "PendingApproval \<Rightarrow> 's \<Rightarrow> bool \<times> 's"
  st_get :: "string \<Rightarrow> 's \<Rightarrow> PendingApproval option"
  st_delete :: "string \<Rightarrow> 's \<Rightarrow> 's"
  st_claim :: "string \<Rightarrow> 's \<Rightarrow> PendingApproval option \<times> 's"
  st_addSignature :: "(string \<Rightarrow> ApprovalSignature \<Rightarrow> 's \<Rightarrow> ApprovalSignatureResult option \<times> 's) option"

section \<open>The in-memory store\<close>

type_synonym mem_store = "string \<Rightarrow> PendingApproval option"

definition mem_save :: "PendingApproval \<Rightarrow> mem_store \<Rightarrow> bool \<times> mem_store" where
  "mem_save approval store = (True, store(ap_id approval \<mapsto> approval))"

definition mem_get :: "string \<Rightarrow> mem_store \<Rightarrow> PendingApproval option" where
  "mem_get i store = store i"

definition mem_delete :: "string \<Rightarrow> mem_store \<Rightarrow> mem_store" where
  "mem_delete i store = store(i := None)"

definition mem_claim :: "string \<Rightarrow> mem_store \<Rightarrow> PendingApproval option \<times> mem_store" where
  "mem_claim i store =
     (case store i of
        None \<Rightarrow> (None, store)
      | Some raw \<Rightarrow> (Some raw, store(i := None)))"

definition mem_addSignature ::
    "string \<Rightarrow> ApprovalSignature \<Rightarrow> mem_store \<Rightarrow> ApprovalSignatureResult option \<times> mem_store" where
  "mem_addSignature i sig store =
     (case store i of
        None \<Rightarrow> (None, store)
      | Some approval \<Rightarrow>
          (let required = requiredApprovalsOf approval in
           if int (signatureCount approval) \<ge> required
           then (Some (SigComplete approval), store(i := None))
           else if hasSigned approval (sig_userId sig)
           then (Some (SigDuplicate approval), store)
           else let updated = approval\<lparr>signatures := Some (nullish (signatures approval) [] @ [sig])\<rparr>
                in if int (signatureCount updated) \<ge> required
                   then (Some (SigComplete updated), store(i := None))
                   else (Some (SigPending updated), store(i \<mapsto> updated))))"

definition mem_ops :: "mem_store store_ops" where
  "mem_ops =
     \<lparr>st_save = mem_save, st_get = mem_get, st_delete = mem_delete, st_claim = mem_claim,
      st_addSignature = Some mem_addSignature\<rparr>"

section \<open>Histories\<close>

text \<open>
  Every caller reaches the store through these calls, each of them atomic; a history is any
  interleaving of the calls of any number of callers. A call takes the record out when it
  claims it or when its signature completes it.
\<close>

datatype store_call =
    CSave PendingApproval
  | CGet string
  | CDelete string
  | CClaim string
  | CAdd string ApprovalSignature

fun call_step :: "'s store_ops \<Rightarrow> store_call \<Rightarrow> 's \<Rightarrow> PendingApproval option \<times> 's" where
  "call_step ops (CSave p) s = (None, snd (st_save ops p s))"
| "call_step ops (CGet i) s = (None, s)"
| "call_step ops (CDelete i) s = (None, st_delete ops i s)"
| "call_step ops (CClaim i) s = st_claim ops i s"
| "call_step ops (CAdd i sg) s =
     (case st_addSignature ops of
        None \<Rightarrow> (None, s)
      | Some add \<Rightarrow>
          (case add i sg s of
             (Some (SigComplete p), s') \<Rightarrow> (Some p, s')
           | (_, s') \<Rightarrow> (None, s')))"

fun key_of :: "store_call \<Rightarrow> string" where
  "key_of (CSave p) = ap_id p"
| "key_of (CGet i) = i"
| "key_of (CDelete i) = i"
| "key_of (CClaim i) = i"
| "key_of (CAdd i _) = i"

text \<open>The records a history takes out, each with the identifier it was asked for.\<close>

fun taken :: "'s store_ops \<Rightarrow> store_call list \<Rightarrow> 's \<Rightarrow> (string \<times> PendingApproval) list \<times> 's" where
  "taken ops [] s = ([], s)"
| "taken ops (c # cs) s =
     (case call_step ops c s of
        (r, s1) \<Rightarrow>
          (case taken ops cs s1 of
             (rs, s2) \<Rightarrow> ((case r of None \<Rightarrow> rs | Some p \<Rightarrow> (key_of c, p) # rs), s2)))"

definition saves_of :: "string \<Rightarrow> store_call list \<Rightarrow> nat" where
  "saves_of i cs = length (filter (\<lambda>c. case c of CSave p \<Rightarrow> ap_id p = i | _ \<Rightarrow> False) cs)"

definition takes_of :: "string \<Rightarrow> (string \<times> PendingApproval) list \<Rightarrow> nat" where
  "takes_of i rs = length (filter (\<lambda>(j, _). j = i) rs)"

lemma saves_of_simps [simp]:
  "saves_of i [] = 0" "saves_of i (CSave p # cs) = (if ap_id p = i then 1 else 0) + saves_of i cs"
  "saves_of i (CGet j # cs) = saves_of i cs" "saves_of i (CDelete j # cs) = saves_of i cs"
  "saves_of i (CClaim j # cs) = saves_of i cs" "saves_of i (CAdd j sg # cs) = saves_of i cs"
  by (simp_all add: saves_of_def)

lemma takes_of_simps [simp]:
  "takes_of i [] = 0" "takes_of i ((j, p) # rs) = (if j = i then 1 else 0) + takes_of i rs"
  by (simp_all add: takes_of_def)

text \<open>No two signatures of a record are by the same user.\<close>

definition signers :: "PendingApproval \<Rightarrow> string list" where
  "signers p = map sig_userId (nullish (signatures p) [])"

definition distinct_signers :: "PendingApproval \<Rightarrow> bool" where
  "distinct_signers p = distinct (signers p)"

lemma hasSigned_iff: "hasSigned p u \<longleftrightarrow> u \<in> set (signers p)"
  by (auto simp: hasSigned_def signers_def list_ex_iff)

lemma length_signers [simp]: "length (signers p) = signatureCount p"
  by (simp add: signers_def signatureCount_def)

lemma signers_add [simp]:
  "signers (p\<lparr>signatures := Some (nullish (signatures p) [] @ [sg])\<rparr>) = signers p @ [sig_userId sg]"
  by (simp add: signers_def)

lemma signatureCount_add [simp]:
  "signatureCount (p\<lparr>signatures := Some (nullish (signatures p) [] @ [sg])\<rparr>) = signatureCount p + 1"
  by (simp add: signatureCount_def)

lemma requiredApprovalsOf_add [simp]:
  "requiredApprovalsOf (p\<lparr>signatures := x\<rparr>) = requiredApprovalsOf p"
  by (simp add: requiredApprovalsOf_def)

section \<open>The contract\<close>

text \<open>
  What \<open>ApprovalService\<close> relies on. \<open>pending s\<close> is the set of pending records a state
  holds, by identifier; \<open>add\<close> is the \<open>addSignature\<close> of the store. A failing \<open>save\<close>
  changes nothing. \<open>addSignature\<close> is one atomic step: absent record, completion of a
  record that had already met its threshold, refusal of a repeated signer, completion by
  this signature, or one more signature.
\<close>

locale approval_store =
  fixes ops :: "'s store_ops"
    and add :: "string \<Rightarrow> ApprovalSignature \<Rightarrow> 's \<Rightarrow> ApprovalSignatureResult option \<times> 's"
    and pending :: "'s \<Rightarrow> string \<Rightarrow> PendingApproval option"
  assumes save_ok: "st_save ops p s = (True, s') \<Longrightarrow> pending s' = (pending s)(ap_id p \<mapsto> p)"
    and save_fails: "st_save ops p s = (False, s') \<Longrightarrow> pending s' = pending s"
    and get: "st_get ops i s = pending s i"
    and delete: "pending (st_delete ops i s) = (pending s)(i := None)"
    and claim_result: "fst (st_claim ops i s) = pending s i"
    and claim_removes: "pending (snd (st_claim ops i s)) = (pending s)(i := None)"
    and add_offered: "st_addSignature ops = Some add"
    and add_absent: "pending s i = None \<Longrightarrow> add i sg s = (r, s') \<Longrightarrow> r = None \<and> pending s' = pending s"
    and add_met: "pending s i = Some p \<Longrightarrow> int (signatureCount p) \<ge> requiredApprovalsOf p \<Longrightarrow>
       add i sg s = (r, s') \<Longrightarrow> r = Some (SigComplete p) \<and> pending s' = (pending s)(i := None)"
    and add_repeated: "pending s i = Some p \<Longrightarrow> int (signatureCount p) < requiredApprovalsOf p \<Longrightarrow>
       hasSigned p (sig_userId sg) \<Longrightarrow> add i sg s = (r, s') \<Longrightarrow>
       r = Some (SigDuplicate p) \<and> pending s' = pending s"
    and add_last: "pending s i = Some p \<Longrightarrow> int (signatureCount p) < requiredApprovalsOf p \<Longrightarrow>
       \<not> hasSigned p (sig_userId sg) \<Longrightarrow> int (signatureCount p) + 1 \<ge> requiredApprovalsOf p \<Longrightarrow>
       add i sg s = (r, s') \<Longrightarrow>
       r = Some (SigComplete (p\<lparr>signatures := Some (nullish (signatures p) [] @ [sg])\<rparr>)) \<and>
       pending s' = (pending s)(i := None)"
    and add_more: "pending s i = Some p \<Longrightarrow> \<not> hasSigned p (sig_userId sg) \<Longrightarrow>
       int (signatureCount p) + 1 < requiredApprovalsOf p \<Longrightarrow> add i sg s = (r, s') \<Longrightarrow>
       r = Some (SigPending (p\<lparr>signatures := Some (nullish (signatures p) [] @ [sg])\<rparr>)) \<and>
       pending s' = (pending s)(i \<mapsto> p\<lparr>signatures := Some (nullish (signatures p) [] @ [sg])\<rparr>)"
begin

lemma add_cases:
  assumes "add i sg s = (r, s')"
  obtains (absent) "pending s i = None" "r = None" "pending s' = pending s"
  | (met) p where "pending s i = Some p" "int (signatureCount p) \<ge> requiredApprovalsOf p"
      "r = Some (SigComplete p)" "pending s' = (pending s)(i := None)"
  | (repeated) p where "pending s i = Some p" "hasSigned p (sig_userId sg)"
      "r = Some (SigDuplicate p)" "pending s' = pending s"
  | (last) p where "pending s i = Some p" "\<not> hasSigned p (sig_userId sg)"
      "int (signatureCount p) + 1 \<ge> requiredApprovalsOf p"
      "r = Some (SigComplete (p\<lparr>signatures := Some (nullish (signatures p) [] @ [sg])\<rparr>))"
      "pending s' = (pending s)(i := None)"
  | (more) p where "pending s i = Some p" "\<not> hasSigned p (sig_userId sg)"
      "int (signatureCount p) + 1 < requiredApprovalsOf p"
      "r = Some (SigPending (p\<lparr>signatures := Some (nullish (signatures p) [] @ [sg])\<rparr>))"
      "pending s' = (pending s)(i \<mapsto> p\<lparr>signatures := Some (nullish (signatures p) [] @ [sg])\<rparr>)"
proof (cases "pending s i")
  case None
  then show ?thesis using add_absent [OF None assms] absent by blast
next
  case (Some p)
  show ?thesis
  proof (cases "int (signatureCount p) \<ge> requiredApprovalsOf p")
    case True
    then show ?thesis using add_met [OF Some True assms] met [OF Some True] by blast
  next
    case False
    then have few: "int (signatureCount p) < requiredApprovalsOf p" by simp
    show ?thesis
    proof (cases "hasSigned p (sig_userId sg)")
      case True
      then show ?thesis using add_repeated [OF Some few True assms] repeated [OF Some True] by blast
    next
      case new: False
      show ?thesis
      proof (cases "int (signatureCount p) + 1 \<ge> requiredApprovalsOf p")
        case True
        then show ?thesis using add_last [OF Some few new True assms] last [OF Some new True] by blast
      next
        case False
        then have "int (signatureCount p) + 1 < requiredApprovalsOf p" by simp
        then show ?thesis using add_more [OF Some new _ assms] more [OF Some new] by blast
      qed
    qed
  qed
qed

lemma call_step_balance:
  assumes "call_step ops c s = (r, s')"
  shows "(if key_of c = i \<and> r \<noteq> None then 1 else 0) + (if pending s' i \<noteq> None then 1 else 0)
       \<le> saves_of i [c] + (if pending s i \<noteq> None then 1 else (0::nat))"
proof (cases c)
  case (CSave p)
  obtain ok s0 where sv: "st_save ops p s = (ok, s0)" by fastforce
  then have "pending s0 = (if ok then (pending s)(ap_id p \<mapsto> p) else pending s)"
    by (cases ok) (simp_all add: save_ok save_fails)
  with assms CSave sv show ?thesis by auto
next
  case (CGet j)
  with assms show ?thesis by auto
next
  case (CDelete j)
  with assms show ?thesis by (auto simp: delete split: if_splits)
next
  case (CClaim j)
  with assms show ?thesis using claim_result [of j s] claim_removes [of j s] by auto
next
  case (CAdd j sg)
  obtain r0 s0 where a: "add j sg s = (r0, s0)" by fastforce
  with assms CAdd have s': "s' = s0" and r: "r = (case r0 of Some (SigComplete p) \<Rightarrow> Some p | _ \<Rightarrow> None)"
    by (auto simp: add_offered split: option.splits ApprovalSignatureResult.splits)
  from a show ?thesis
    by (cases rule: add_cases) (use CAdd s' r in auto)
qed

lemma taken_balance:
  assumes "taken ops cs s = (rs, s')"
  shows "takes_of i rs + (if pending s' i \<noteq> None then 1 else 0)
       \<le> saves_of i cs + (if pending s i \<noteq> None then 1 else 0)"
  using assms
proof (induction cs arbitrary: s rs)
  case (Cons c cs)
  obtain r s1 where c: "call_step ops c s = (r, s1)" by fastforce
  obtain rs1 s2 where t: "taken ops cs s1 = (rs1, s2)" by fastforce
  have rs: "rs = (case r of None \<Rightarrow> rs1 | Some p \<Rightarrow> (key_of c, p) # rs1)" "s' = s2"
    using Cons.prems c t by simp_all
  have "saves_of i (c # cs) = saves_of i [c] + saves_of i cs"
    by (cases c) simp_all
  moreover have "takes_of i rs = (if key_of c = i \<and> r \<noteq> None then 1 else 0) + takes_of i rs1"
    using rs by (cases r) auto
  ultimately show ?case
    using Cons.IH [OF t [folded rs(2)]] call_step_balance [OF c, of i] rs by simp
qed simp

lemma call_step_signers:
  assumes "call_step ops c s = (r, s')"
    and "\<And>i p. pending s i = Some p \<Longrightarrow> distinct_signers p"
    and "\<And>p. c = CSave p \<Longrightarrow> distinct_signers p"
  shows "(\<forall>i p. pending s' i = Some p \<longrightarrow> distinct_signers p) \<and>
         (\<forall>p. r = Some p \<longrightarrow> distinct_signers p) \<and>
         (\<forall>i sg p. c = CAdd i sg \<longrightarrow> r = Some p \<longrightarrow> int (signatureCount p) \<ge> requiredApprovalsOf p)"
proof (cases c)
  case (CSave p)
  obtain ok s0 where sv: "st_save ops p s = (ok, s0)" by fastforce
  then show ?thesis
    using assms CSave by (cases ok) (auto dest!: save_ok save_fails split: if_splits)
next
  case (CGet j)
  with assms show ?thesis by auto
next
  case (CDelete j)
  with assms show ?thesis by (auto simp: delete split: if_splits)
next
  case (CClaim j)
  with assms(1) have "r = pending s j" "pending s' = (pending s)(j := None)"
    using claim_result [of j s] claim_removes [of j s] by auto
  with assms(2) CClaim show ?thesis by (auto split: if_splits)
next
  case (CAdd j sg)
  obtain r0 s0 where a: "add j sg s = (r0, s0)" by fastforce
  with assms CAdd have s': "s' = s0" and r: "r = (case r0 of Some (SigComplete p) \<Rightarrow> Some p | _ \<Rightarrow> None)"
    by (auto simp: add_offered split: option.splits ApprovalSignatureResult.splits)
  from a show ?thesis
  proof (cases rule: add_cases)
    case (last p)
    with CAdd s' r assms(2) show ?thesis
      by (auto simp: distinct_signers_def hasSigned_iff split: if_splits)
  next
    case (more p)
    with CAdd s' r assms(2) show ?thesis
      by (auto simp: distinct_signers_def hasSigned_iff split: if_splits)
  qed (use CAdd s' r assms(2) in \<open>auto split: if_splits\<close>)
qed

end

section \<open>The in-memory store meets the contract\<close>

interpretation mem: approval_store mem_ops mem_addSignature "\<lambda>s. s"
  by unfold_locales
    (auto simp: mem_ops_def mem_save_def mem_get_def mem_delete_def mem_claim_def
      mem_addSignature_def Let_def signatureCount_def requiredApprovalsOf_def
      split: option.splits if_splits)

text \<open>
  C19: exactly-once consumption under any interleaving. In every history of calls to the
  store, from any number of concurrent settlements, an approval is taken out (claimed, or
  completed by a final signature) at most as often as it was put in: once for the record
  that was pending at the start and once for each \<open>save\<close> in the history.
\<close>

theorem approval_taken_at_most_once:
  assumes "taken mem_ops cs s = (rs, s')"
  shows "takes_of i rs + (if s' i \<noteq> None then 1 else 0) \<le>
         saves_of i cs + (if s i \<noteq> None then 1 else 0)"
  using assms by (rule mem.taken_balance)

definition example_context :: AgentContext where
  "example_context = \<lparr>security = \<lparr>userId = Some ''ann'', tenantId = Some ''t1'', roles = None,
      permissions = None\<rparr>, sessionId = ''s'', traceId = ''tr'', parentTraceId = None,
      rootTraceId = None, ctx_data = None, deadline = None\<rparr>"

definition example_approval :: PendingApproval where
  "example_approval = \<lparr>ap_id = ''a1'', ap_agentName = ''support'', ap_toolName = ''refund'',
     ap_args = [], ap_context = example_context, ap_reason = ''big'', createdAt = 0,
     expiresAt = None, ap_toolCallId = None, checkpoint = None, requestedBy = None,
     requiredApprovals = Some 2, signatures = None\<rparr>"

definition example_signature :: "string \<Rightarrow> ApprovalSignature" where
  "example_signature u = \<lparr>sig_userId = u, sig_actor = \<lparr>act_userId = Some u, act_tenantId = None,
     act_roles = None, act_label = None\<rparr>, signedAt = 1, approvalVersion = None\<rparr>"

theorem approval_taken_at_most_once_witness:
  "takes_of ''a1'' (fst (taken mem_ops
      [CAdd ''a1'' (example_signature ''bob''), CAdd ''a1'' (example_signature ''bob''),
       CAdd ''a1'' (example_signature ''cat''), CClaim ''a1''] [''a1'' \<mapsto> example_approval])) \<le> 1"
proof -
  obtain rs s' where t: "taken mem_ops
      [CAdd ''a1'' (example_signature ''bob''), CAdd ''a1'' (example_signature ''bob''),
       CAdd ''a1'' (example_signature ''cat''), CClaim ''a1''] [''a1'' \<mapsto> example_approval] = (rs, s')"
    by fastforce
  from approval_taken_at_most_once [OF t, of "''a1''"] t show ?thesis
    by (simp add: split: if_splits)
qed

text \<open>
  dual control in the store. If no pending record carries two signatures of one user,
  no call of \<open>addSignature\<close> changes that, and a record is handed out as complete only with
  at least \<open>requiredApprovals\<close> signatures, all by different users.
\<close>

theorem signatures_distinct_and_sufficient:
  assumes "mem_addSignature i sg s = (r, s')"
    and "\<And>j p. s j = Some p \<Longrightarrow> distinct_signers p"
  shows "(\<forall>j p. s' j = Some p \<longrightarrow> distinct_signers p) \<and>
         (\<forall>p. r = Some (SigComplete p) \<longrightarrow>
            int (card (set (signers p))) \<ge> requiredApprovalsOf p)"
proof -
  let ?out = "case r of Some (SigComplete p) \<Rightarrow> Some p | _ \<Rightarrow> None"
  have "call_step mem_ops (CAdd i sg) s = (?out, s')"
    using assms(1) by (auto simp: mem_ops_def split: option.splits ApprovalSignatureResult.splits)
  from mem.call_step_signers [OF this assms(2)] show ?thesis
    by (auto simp: distinct_signers_def distinct_card)
qed

theorem signatures_distinct_and_sufficient_witness:
  "let p = example_approval\<lparr>signatures := Some [example_signature ''bob'']\<rparr>;
       s = [''a1'' \<mapsto> p]; out = mem_addSignature ''a1'' (example_signature ''cat'') s
   in (\<forall>j q. snd out j = Some q \<longrightarrow> distinct_signers q) \<and>
      (\<forall>q. fst out = Some (SigComplete q) \<longrightarrow> int (card (set (signers q))) \<ge> requiredApprovalsOf q) \<and>
      (\<exists>q. fst out = Some (SigComplete q))"
proof -
  let ?p = "example_approval\<lparr>signatures := Some [example_signature ''bob'']\<rparr>"
  let ?out = "mem_addSignature ''a1'' (example_signature ''cat'') [''a1'' \<mapsto> ?p]"
  have "mem_addSignature ''a1'' (example_signature ''cat'') [''a1'' \<mapsto> ?p] = (fst ?out, snd ?out)"
    by simp
  moreover have "\<And>j q. [''a1'' \<mapsto> ?p] j = Some q \<Longrightarrow> distinct_signers q"
    by (auto simp: distinct_signers_def signers_def split: if_splits)
  ultimately have "(\<forall>j q. snd ?out j = Some q \<longrightarrow> distinct_signers q) \<and>
      (\<forall>q. fst ?out = Some (SigComplete q) \<longrightarrow> int (card (set (signers q))) \<ge> requiredApprovalsOf q)"
    by (rule signatures_distinct_and_sufficient)
  moreover have "\<exists>q. fst ?out = Some (SigComplete q)"
    by (simp add: mem_addSignature_def example_approval_def example_signature_def
        requiredApprovalsOf_def signatureCount_def hasSigned_def)
  ultimately show ?thesis by (simp add: Let_def)
qed

end
