(* ===== verification/Approval_Service.thy ===== *)
theory Approval_Service
  imports Approval_Store
begin

text \<open>
  Settling approvals, \<open>packages/core/src/services/approval.service.ts\<close>.

  The service's collaborators are the record \<open>svc_env\<close>: the store, the registered
  \<open>ApprovalAuthorizer\<close>, the governance options, the runner's \<open>settleApproval\<close>, and two
  functions of the record that the code computes with \<open>canonicalize\<close> and SHA-256. The
  state \<open>svc\<close> is the store, the audit trail and the world the runner acts on.

  The service awaits between its accesses to the store, so other callers may act there:
  \<open>interfere\<close> says what they do to the store at each such point, and the theorems hold for
  every choice of it. In the same way \<open>signal\<close> gives the reading of the abort signal and
  \<open>now\<close> the clock at each point where the code reads them.
\<close>

section \<open>Collaborators and state\<close>

datatype abort_point = AtStart | BeforeClaim | AfterClaim | BeforeSign | AfterSign

datatype time_point = AtSignCheck | AtSignature | AtApply | AtAudit

datatype store_point = BetweenReadAndClaim | BetweenReadAndSign | BeforeRestore

datatype verdict = VTrue | VFalse | VAllowed | VRefused "string option"

datatype settle_error = StructuredOutputError string | OtherError string

datatype svc_error =
    ApprovalNotFoundError string
  | ApprovalNotAuthorizedError string string
  | ApprovalExpiredError string int
  | ApprovalSignaturesUnsupportedError string
  | ExecutionCancelledError
  | SettlementError settle_error

datatype 'r svc_result = Settled 'r | StillPending ToolExecutionResult

record ApprovalGovernanceOptions =
  enforceSeparationOfDuties :: bool
  enforceTenantIsolation :: bool
  requireAuthorizer :: bool

record ('s, 'w, 'r) svc_env =
  ops :: "'s store_ops"
  authorizer :: "(PendingApproval \<Rightarrow> AuditActor option \<Rightarrow> verdict) option"
  governance :: ApprovalGovernanceOptions
  canon :: "PendingApproval \<Rightarrow> string"
  sha256 :: "string \<Rightarrow> string"
  settleApproval :: "PendingApproval \<Rightarrow> ApprovalDecision \<Rightarrow> 'w \<Rightarrow> (settle_error, 'r) result \<times> 'w"
  interfere :: "store_point \<Rightarrow> 's \<Rightarrow> 's"
  signal :: "abort_point \<Rightarrow> bool"
  now :: "time_point \<Rightarrow> int"

record ('s, 'w) svc =
  svc_store :: 's
  audit :: "AuditEvent list"
  world :: 'w

section \<open>Authorization\<close>

definition tenant_refusal :: "PendingApproval \<Rightarrow> AuditActor option \<Rightarrow> string option" where
  "tenant_refusal approval actor =
     (case tenantId (security (ap_context approval)) of
        None \<Rightarrow> Some ''tenant isolation: approval carries no tenant, so the approver cannot be shown to belong to it''
      | Some approvalTenant \<Rightarrow>
          (case Option.bind actor act_tenantId of
             None \<Rightarrow> Some (''tenant isolation: approval belongs to tenant '' @ quoted approvalTenant @
                           '' and the approver supplied no tenant'')
           | Some t \<Rightarrow>
               if t \<noteq> approvalTenant
               then Some (''tenant isolation: approval belongs to tenant '' @ quoted approvalTenant @
                          '', not '' @ quoted t)
               else None))"

definition actor_of_context :: "AgentSecurityContext \<Rightarrow> AuditActor" where
  "actor_of_context sc = \<lparr>act_userId = userId sc, act_tenantId = tenantId sc, act_roles = roles sc,
     act_label = None\<rparr>"

definition duties_conflict :: "PendingApproval \<Rightarrow> AuditActor option \<Rightarrow> bool" where
  "duties_conflict approval actor =
     (let requester = nullish (requestedBy approval) (actor_of_context (security (ap_context approval)));
          requesterTenant = (case act_tenantId requester of
                               None \<Rightarrow> tenantId (security (ap_context approval)) | t \<Rightarrow> t);
          actorTenant = Option.bind actor act_tenantId;
          actorUser = Option.bind actor act_userId;
          differentTenant = (requesterTenant \<noteq> None \<and> actorTenant \<noteq> None \<and> requesterTenant \<noteq> actorTenant)
      in act_userId requester \<noteq> None \<and> actorUser \<noteq> None \<and> act_userId requester = actorUser \<and>
         \<not> differentTenant)"

definition refused_by_authorizer :: string where
  "refused_by_authorizer = ''refused by the registered ApprovalAuthorizer''"

definition checkAuthorization ::
    "('s, 'w, 'r) svc_env \<Rightarrow> PendingApproval \<Rightarrow> AuditActor option \<Rightarrow> string option" where
  "checkAuthorization env approval actor =
     (case (if enforceTenantIsolation (governance env) then tenant_refusal approval actor else None) of
        Some r \<Rightarrow> Some r
      | None \<Rightarrow>
          if enforceSeparationOfDuties (governance env) \<and> duties_conflict approval actor
          then Some (''separation of duties: '' @ quoted (nullish (Option.bind actor act_userId) []) @
                     '' requested this action and cannot also approve it'')
          else (case authorizer env of
                  None \<Rightarrow>
                    if requireAuthorizer (governance env)
                    then Some ''no ApprovalAuthorizer is registered and approvals.requireAuthorizer is enabled''
                    else None
                | Some canSettle \<Rightarrow>
                    (case canSettle approval actor of
                       VTrue \<Rightarrow> None
                     | VFalse \<Rightarrow> Some refused_by_authorizer
                     | VAllowed \<Rightarrow> None
                     | VRefused reason \<Rightarrow> Some (nullish reason refused_by_authorizer))))"

text \<open>
  The callers test the reason with \<open>if (refusal)\<close>, so an empty reason counts as no refusal.
\<close>

definition refusal_of ::
    "('s, 'w, 'r) svc_env \<Rightarrow> PendingApproval \<Rightarrow> AuditActor option \<Rightarrow> string option" where
  "refusal_of env approval actor =
     (case checkAuthorization env approval actor of Some (c # cs) \<Rightarrow> Some (c # cs) | _ \<Rightarrow> None)"

definition governed :: "('s, 'w, 'r) svc_env \<Rightarrow> bool" where
  "governed env =
     (authorizer env \<noteq> None \<or> enforceSeparationOfDuties (governance env) \<or>
      enforceTenantIsolation (governance env) \<or> requireAuthorizer (governance env))"

section \<open>Recording, restoring, fingerprints\<close>

definition record_event :: "AuditEvent \<Rightarrow> ('s, 'w) svc \<Rightarrow> ('s, 'w) svc" where
  "record_event e st = st\<lparr>audit := audit st @ [e]\<rparr>"

definition recordRefusal ::
    "('s, 'w, 'r) svc_env \<Rightarrow> PendingApproval \<Rightarrow> Outcome \<Rightarrow> string \<Rightarrow> AuditActor option
       \<Rightarrow> ('s, 'w) svc \<Rightarrow> ('s, 'w) svc" where
  "recordRefusal env approval outcome reason actor st =
     record_event (ApprovalSettlementDenied (auditEnvelope (now env AtAudit) (ap_context approval))
       (ap_id approval) (ap_agentName approval) (ap_toolName approval) outcome reason actor) st"

definition restore :: "('s, 'w, 'r) svc_env \<Rightarrow> PendingApproval \<Rightarrow> ('s, 'w) svc \<Rightarrow> bool \<times> ('s, 'w) svc" where
  "restore env approval st =
     (case st_save (ops env) approval (interfere env BeforeRestore (svc_store st)) of
        (ok, s') \<Rightarrow> (ok, st\<lparr>svc_store := s'\<rparr>))"

definition fingerprint :: "('s, 'w, 'r) svc_env \<Rightarrow> PendingApproval \<Rightarrow> string" where
  "fingerprint env approval = canon env (approval\<lparr>signatures := None\<rparr>)"

definition approval_version :: "('s, 'w, 'r) svc_env \<Rightarrow> PendingApproval \<Rightarrow> string" where
  "approval_version env approval =
     sha256 env (canon env (approval\<lparr>signatures := None, checkpoint := None\<rparr>))"

definition isExpired :: "int \<Rightarrow> PendingApproval \<Rightarrow> bool" where
  "isExpired t approval = (case expiresAt approval of None \<Rightarrow> False | Some e \<Rightarrow> t > e)"

definition outcome_of :: "ApprovalDecision \<Rightarrow> Outcome" where
  "outcome_of d = (if is_approve d then Approved else Rejected)"

definition recordSettled ::
    "('s, 'w, 'r) svc_env \<Rightarrow> PendingApproval \<Rightarrow> ApprovalDecision \<Rightarrow> AuditActor option
       \<Rightarrow> ('s, 'w) svc \<Rightarrow> ('s, 'w) svc" where
  "recordSettled env claimed decision actor st =
     record_event (ApprovalSettled (auditEnvelope (now env AtAudit) (ap_context claimed))
       (ap_id claimed) (ap_agentName claimed) (ap_toolName claimed) (outcome_of decision) actor
       (case nullish (signatures claimed) [] of [] \<Rightarrow> None | sgs \<Rightarrow> Some (map sig_actor sgs))
       (case decision of Approve \<Rightarrow> ap_reason claimed | Reject r \<Rightarrow> nullish r (ap_reason claimed))
       (Some (ap_args claimed))) st"

definition could_not_restore :: "string \<Rightarrow> bool \<Rightarrow> string" where
  "could_not_restore reason restored =
     (if restored then reason else reason @ '' (and could not be restored to the store)'')"

definition refuseClaimed ::
    "('s, 'w, 'r) svc_env \<Rightarrow> PendingApproval \<Rightarrow> PendingApproval \<Rightarrow> Outcome \<Rightarrow> string
       \<Rightarrow> AuditActor option \<Rightarrow> ('s, 'w) svc \<Rightarrow> (svc_error, 'a) result \<times> ('s, 'w) svc" where
  "refuseClaimed env claimed rst outcome reason actor st =
     (case restore env rst st of
        (restored, st1) \<Rightarrow>
          (Inl (ApprovalNotAuthorizedError (ap_id claimed) reason),
           recordRefusal env claimed outcome (could_not_restore reason restored) actor st1))"

definition claimOrCancel ::
    "('s, 'w, 'r) svc_env \<Rightarrow> string \<Rightarrow> ('s, 'w) svc
       \<Rightarrow> (svc_error, PendingApproval) result \<times> ('s, 'w) svc" where
  "claimOrCancel env approvalId st =
     (if signal env BeforeClaim then (Inl ExecutionCancelledError, st)
      else (case st_claim (ops env) approvalId
                   (interfere env BetweenReadAndClaim (svc_store st)) of
              (None, s') \<Rightarrow> (Inl (ApprovalNotFoundError approvalId), st\<lparr>svc_store := s'\<rparr>)
            | (Some claimed, s') \<Rightarrow>
                if signal env AfterClaim
                then (Inl ExecutionCancelledError, snd (restore env claimed (st\<lparr>svc_store := s'\<rparr>)))
                else (Inr claimed, st\<lparr>svc_store := s'\<rparr>)))"

section \<open>Applying a claimed approval\<close>

definition changed_reason :: string where
  "changed_reason =
     ''the approval changed between authorization and claim, so the decision no longer applies to it''"

definition missing_signatures_reason :: "int \<Rightarrow> nat \<Rightarrow> string" where
  "missing_signatures_reason required n =
     ''dual control: the approval requires '' @ string_of_nat (nat required) @ '' approvers and '' @
     string_of_nat n @ '' have signed''"

text \<open>
  The settlement itself: the runner applies the decision, and the outcome is recorded. A
  \<open>StructuredOutputError\<close> counts as settled.
\<close>

definition run_settlement ::
    "('s, 'w, 'r) svc_env \<Rightarrow> PendingApproval \<Rightarrow> ApprovalDecision \<Rightarrow> AuditActor option
       \<Rightarrow> ('s, 'w) svc \<Rightarrow> (svc_error, 'r svc_result) result \<times> ('s, 'w) svc" where
  "run_settlement env claimed decision actor st =
     (case settleApproval env claimed decision (world st) of
        (Inr r, w') \<Rightarrow> (Inr (Settled r), recordSettled env claimed decision actor (st\<lparr>world := w'\<rparr>))
      | (Inl (StructuredOutputError m), w') \<Rightarrow>
          (Inl (SettlementError (StructuredOutputError m)),
           recordSettled env claimed decision actor (st\<lparr>world := w'\<rparr>))
      | (Inl (OtherError m), w') \<Rightarrow>
          (Inl (SettlementError (OtherError m)),
           record_event (ApprovalSettlementFailed (auditEnvelope (now env AtAudit) (ap_context claimed))
             (ap_id claimed) (ap_agentName claimed) (ap_toolName claimed) (outcome_of decision) m actor)
             (st\<lparr>world := w'\<rparr>)))"

definition applyClaimed ::
    "('s, 'w, 'r) svc_env \<Rightarrow> PendingApproval \<Rightarrow> ApprovalDecision \<Rightarrow> AuditActor option
       \<Rightarrow> string option \<Rightarrow> PendingApproval \<Rightarrow> AuditEvent list
       \<Rightarrow> ('s, 'w) svc \<Rightarrow> (svc_error, 'r svc_result) result \<times> ('s, 'w) svc" where
  "applyClaimed env claimed decision actor authorizedFingerprint rst onAuthorized st =
     (if authorizedFingerprint \<noteq> None \<and> Some (fingerprint env claimed) \<noteq> authorizedFingerprint
      then refuseClaimed env claimed rst (outcome_of decision) changed_reason actor st
      else if isExpired (now env AtApply) claimed
      then (let expiredAt = (case expiresAt claimed of Some e \<Rightarrow> e | None \<Rightarrow> 0)
            in (Inl (ApprovalExpiredError (ap_id claimed) expiredAt),
                record_event (ApprovalExpired (auditEnvelope (now env AtAudit) (ap_context claimed))
                  (ap_id claimed) (ap_agentName claimed) (ap_toolName claimed) expiredAt actor) st))
      else if is_approve decision \<and> requiredApprovalsOf claimed > 1 \<and>
              int (signatureCount claimed) < requiredApprovalsOf claimed
      then refuseClaimed env claimed rst (outcome_of decision)
             (missing_signatures_reason (requiredApprovalsOf claimed) (signatureCount claimed)) actor st
      else run_settlement env claimed decision actor (st\<lparr>audit := audit st @ onAuthorized\<rparr>))"

section \<open>Dual control\<close>

definition unidentified_reason :: string where
  "unidentified_reason = ''dual control: every approver must be identified by actor.userId so signatures can be told apart''"

definition repeated_reason :: "string \<Rightarrow> string" where
  "repeated_reason u = ''dual control: '' @ quoted u @ '' has already signed this approval and cannot be counted twice''"

definition stale_reason :: string where
  "stale_reason = ''the approval changed after some approvers signed, so their signatures do not apply to it''"

text \<open>
  \<open>signatures.find\<close> by user and time: the signature this call added, if it added one.
\<close>

definition appended_signature :: "ApprovalSignature \<Rightarrow> ApprovalSignature list \<Rightarrow> ApprovalSignature option" where
  "appended_signature sg sgs =
     find (\<lambda>s. sig_userId s = sig_userId sg \<and> signedAt s = signedAt sg) sgs"

text \<open>\<open>signatures.filter((s) => s !== appended)\<close>: the first match is dropped, nothing else.\<close>

definition without_appended :: "ApprovalSignature \<Rightarrow> ApprovalSignature list \<Rightarrow> ApprovalSignature list" where
  "without_appended sg sgs =
     (case appended_signature sg sgs of None \<Rightarrow> sgs | Some a \<Rightarrow> remove1 a sgs)"

text \<open>\<open>recordSigned\<close>: nothing is recorded when the store did not append this signature.\<close>

definition signed_events ::
    "('s, 'w, 'r) svc_env \<Rightarrow> PendingApproval \<Rightarrow> AuditActor \<Rightarrow> ApprovalSignature \<Rightarrow> PendingApproval
       \<Rightarrow> AuditEvent list" where
  "signed_events env pnd actor sg p =
     (let sgs = nullish (signatures p) [] in
      if appended_signature sg sgs = None then []
      else [ApprovalSigned (auditEnvelope (now env AtAudit) (ap_context p)) (ap_id pnd)
              (ap_agentName p) (ap_toolName p) actor (length sgs) (requiredApprovalsOf pnd)])"

text \<open>The final signature was the claim: apply the decision, or put the record back.\<close>

definition sign_complete ::
    "('s, 'w, 'r) svc_env \<Rightarrow> PendingApproval \<Rightarrow> AuditActor option \<Rightarrow> ApprovalSignature
       \<Rightarrow> PendingApproval \<Rightarrow> ('s, 'w) svc \<Rightarrow> (svc_error, 'r svc_result) result \<times> ('s, 'w) svc" where
  "sign_complete env pnd actor sg p st =
     (let sgs = nullish (signatures p) [];
          withoutThisSignature = p\<lparr>signatures := Some (without_appended sg sgs)\<rparr>;
          version = approval_version env p
      in if signal env AfterSign
         then (Inl ExecutionCancelledError, snd (restore env withoutThisSignature st))
         else if list_ex (\<lambda>s. approvalVersion s \<noteq> Some version) sgs
         then (case restore env (p\<lparr>signatures := Some
                      (filter (\<lambda>s. approvalVersion s = Some version) (without_appended sg sgs))\<rparr>) st of
                 (restored, st2) \<Rightarrow>
                   (Inl (ApprovalNotAuthorizedError (ap_id pnd) stale_reason),
                    recordRefusal env p Approved (could_not_restore stale_reason restored) actor st2))
         else applyClaimed env p Approve actor None withoutThisSignature
                (signed_events env pnd (the actor) sg p) st)"

text \<open>\<open>actor?.userId\<close>, when it is present and not empty.\<close>

definition identified :: "AuditActor option \<Rightarrow> string option" where
  "identified actor = (case Option.bind actor act_userId of Some (c # cs) \<Rightarrow> Some (c # cs) | _ \<Rightarrow> None)"

definition new_signature ::
    "('s, 'w, 'r) svc_env \<Rightarrow> PendingApproval \<Rightarrow> AuditActor \<Rightarrow> string \<Rightarrow> ApprovalSignature" where
  "new_signature env pnd actor u =
     \<lparr>sig_userId = u, sig_actor = actor\<lparr>act_userId := Some u\<rparr>, signedAt = now env AtSignature,
      approvalVersion = Some (approval_version env pnd)\<rparr>"

definition sign ::
    "('s, 'w, 'r) svc_env \<Rightarrow> PendingApproval \<Rightarrow> AuditActor option \<Rightarrow> ('s, 'w) svc
       \<Rightarrow> (svc_error, 'r svc_result) result \<times> ('s, 'w) svc" where
  "sign env pnd actor st =
     (case st_addSignature (ops env) of
        None \<Rightarrow> (Inl (ApprovalSignaturesUnsupportedError (ap_id pnd)), st)
      | Some addSignature \<Rightarrow>
     (case identified actor of
        None \<Rightarrow> (Inl (ApprovalNotAuthorizedError (ap_id pnd) unidentified_reason),
                 recordRefusal env pnd Approved unidentified_reason actor st)
      | Some u \<Rightarrow>
     (case refusal_of env pnd actor of
        Some refusal \<Rightarrow> (Inl (ApprovalNotAuthorizedError (ap_id pnd) refusal),
                         recordRefusal env pnd Approved refusal actor st)
      | None \<Rightarrow>
      if isExpired (now env AtSignCheck) pnd
      then (case claimOrCancel env (ap_id pnd) st of
              (Inl e, st1) \<Rightarrow> (Inl e, st1)
            | (Inr claimed, st1) \<Rightarrow> applyClaimed env claimed Approve actor None claimed [] st1)
      else if signal env BeforeSign then (Inl ExecutionCancelledError, st)
      else
       (let sg = new_signature env pnd (the actor) u
        in case addSignature (ap_id pnd) sg (interfere env BetweenReadAndSign (svc_store st)) of
             (None, s') \<Rightarrow> (Inl (ApprovalNotFoundError (ap_id pnd)), st\<lparr>svc_store := s'\<rparr>)
           | (Some (SigDuplicate _), s') \<Rightarrow>
               (Inl (ApprovalNotAuthorizedError (ap_id pnd) (repeated_reason u)),
                recordRefusal env pnd Approved (repeated_reason u) actor (st\<lparr>svc_store := s'\<rparr>))
           | (Some (SigPending p), s') \<Rightarrow>
               (Inr (StillPending (PendingResult (ap_reason p) (ap_id pnd)
                       (Some (requiredApprovalsOf pnd)) (Some (signatureCount p)))),
                st\<lparr>svc_store := s', audit := audit st @ signed_events env pnd (the actor) sg p\<rparr>)
           | (Some (SigComplete p), s') \<Rightarrow>
               sign_complete env pnd actor sg p (st\<lparr>svc_store := s'\<rparr>)))))"

section \<open>Settling\<close>

definition settle ::
    "('s, 'w, 'r) svc_env \<Rightarrow> string \<Rightarrow> ApprovalDecision \<Rightarrow> AuditActor option \<Rightarrow> ('s, 'w) svc
       \<Rightarrow> (svc_error, 'r svc_result) result \<times> ('s, 'w) svc" where
  "settle env approvalId decision actor st =
     (let claim_and_apply = (\<lambda>fp.
            case claimOrCancel env approvalId st of
              (Inl e, st1) \<Rightarrow> (Inl e, st1)
            | (Inr claimed, st1) \<Rightarrow> applyClaimed env claimed decision actor fp claimed [] st1)
      in if signal env AtStart then (Inl ExecutionCancelledError, st)
         else if governed env \<or> is_approve decision
         then (case st_get (ops env) approvalId (svc_store st) of
                 None \<Rightarrow> (Inl (ApprovalNotFoundError approvalId), st)
               | Some pnd \<Rightarrow>
                   if is_approve decision \<and> requiredApprovalsOf pnd > 1 then sign env pnd actor st
                   else if governed env
                   then (case refusal_of env pnd actor of
                           Some refusal \<Rightarrow>
                             (Inl (ApprovalNotAuthorizedError approvalId refusal),
                              recordRefusal env pnd (outcome_of decision) refusal actor st)
                         | None \<Rightarrow> claim_and_apply (Some (fingerprint env pnd)))
                   else claim_and_apply None)
         else claim_and_apply None)"

definition approve ::
    "('s, 'w, 'r) svc_env \<Rightarrow> string \<Rightarrow> AuditActor option \<Rightarrow> ('s, 'w) svc
       \<Rightarrow> (svc_error, 'r svc_result) result \<times> ('s, 'w) svc" where
  "approve env approvalId actor st = settle env approvalId Approve actor st"

definition reject ::
    "('s, 'w, 'r) svc_env \<Rightarrow> string \<Rightarrow> string option \<Rightarrow> AuditActor option \<Rightarrow> ('s, 'w) svc
       \<Rightarrow> (svc_error, 'r svc_result) result \<times> ('s, 'w) svc" where
  "reject env approvalId reason actor st = settle env approvalId (Reject reason) actor st"

section \<open>What a settlement may run\<close>

text \<open>
  A runner that logs each decision it is asked to apply; the theorems below read the log to
  see which records the service let through.
\<close>

definition logging :: "('s, (PendingApproval \<times> ApprovalDecision) list, 'r) svc_env \<Rightarrow> bool" where
  "logging env \<longleftrightarrow> (\<forall>p d w. snd (settleApproval env p d w) = w @ [(p, d)])"

lemma world_simps [simp]:
  "world (record_event e st) = world st" "world (recordRefusal env p oc r a st) = world st"
  "world (recordSettled env p d a st) = world st" "world (snd (restore env p st)) = world st"
  "world (snd (refuseClaimed env p q oc r a st)) = world st"
  "world (snd (claimOrCancel env i st)) = world st"
  by (auto simp: record_event_def recordRefusal_def recordSettled_def restore_def refuseClaimed_def
      claimOrCancel_def split: prod.splits option.splits)

lemma world_restore: "restore env p st = (ok, st') \<Longrightarrow> world st' = world st"
  using world_simps(4) [of env p st] by simp

lemma world_claim: "claimOrCancel env i st = (r, st') \<Longrightarrow> world st' = world st"
  using world_simps(6) [of env i st] by simp

lemma run_settlement_world:
  assumes "logging env"
  shows "world (snd (run_settlement env c d a st)) = world st @ [(c, d)]"
proof -
  obtain r w where r: "settleApproval env c d (world st) = (r, w)" by fastforce
  with assms have "w = world st @ [(c, d)]" unfolding logging_def by (metis snd_conv)
  with r show ?thesis
    by (auto simp: run_settlement_def split: sum.splits settle_error.splits)
qed

definition enough_signatures :: "ApprovalDecision \<Rightarrow> PendingApproval \<Rightarrow> bool" where
  "enough_signatures d p \<longleftrightarrow> (is_approve d \<and> requiredApprovalsOf p > 1 \<longrightarrow>
     int (signatureCount p) \<ge> requiredApprovalsOf p)"

lemma applyClaimed_world:
  assumes "logging env"
  shows "world (snd (applyClaimed env c d a fp rst ev st)) = world st \<or>
    world (snd (applyClaimed env c d a fp rst ev st)) = world st @ [(c, d)] \<and>
    (fp \<noteq> None \<longrightarrow> fp = Some (fingerprint env c)) \<and>
    \<not> isExpired (now env AtApply) c \<and> enough_signatures d c"
  using run_settlement_world [OF assms, of c d a "st\<lparr>audit := audit st @ ev\<rparr>"]
  by (auto simp: applyClaimed_def enough_signatures_def Let_def not_less)

lemma claim_apply_world:
  assumes "logging env"
    and "(case claimOrCancel env i st of
            (Inl e, st1) \<Rightarrow> (Inl e, st1)
          | (Inr c, st1) \<Rightarrow> applyClaimed env c d a fp c [] st1) = (res, st')"
  shows "world st' = world st \<or> (\<exists>c. world st' = world st @ [(c, d)] \<and>
    (fp \<noteq> None \<longrightarrow> fp = Some (fingerprint env c)) \<and>
    \<not> isExpired (now env AtApply) c \<and> enough_signatures d c)"
proof (cases "claimOrCancel env i st")
  case (Pair r st1)
  then have w: "world st1 = world st" by (rule world_claim)
  show ?thesis
  proof (cases r)
    case (Inl e)
    with Pair w assms(2) show ?thesis by auto
  next
    case (Inr c)
    with Pair assms(2) have "st' = snd (applyClaimed env c d a fp c [] st1)" by simp
    with applyClaimed_world [OF assms(1), of c d a fp c "[]" st1] w show ?thesis by metis
  qed
qed

text \<open>How \<open>sign\<close> can reach the runner: through a completed signature, or by claiming.\<close>

definition signed_for :: "('s, 'w, 'r) svc_env \<Rightarrow> PendingApproval \<Rightarrow> bool" where
  "signed_for env p \<longleftrightarrow>
     list_all (\<lambda>s. approvalVersion s = Some (approval_version env p)) (nullish (signatures p) [])"

lemma sign_complete_world:
  assumes "logging env"
  shows "world (snd (sign_complete env q actor sg p st)) = world st \<or>
    world (snd (sign_complete env q actor sg p st)) = world st @ [(p, Approve)] \<and>
    \<not> isExpired (now env AtApply) p \<and> enough_signatures Approve p \<and> signed_for env p"
proof (cases "signal env AfterSign \<or> \<not> signed_for env p")
  case True
  then show ?thesis
    by (auto simp: sign_complete_def Let_def signed_for_def list_ex_iff list_all_iff
        split: prod.splits dest: world_restore)
next
  case False
  then have "sign_complete env q actor sg p st =
      applyClaimed env p Approve actor None
        (p\<lparr>signatures := Some (without_appended sg (nullish (signatures p) []))\<rparr>)
        (signed_events env q (the actor) sg p) st"
    by (auto simp: sign_complete_def Let_def signed_for_def list_ex_iff list_all_iff)
  with False applyClaimed_world [OF assms] show ?thesis by metis
qed

lemma sign_cases:
  assumes "sign env q actor st = (res, st')"
  obtains (quiet) "world st' = world st"
  | (expired) "refusal_of env q actor = None" "isExpired (now env AtSignCheck) q"
      "(case claimOrCancel env (ap_id q) st of
            (Inl e, st1) \<Rightarrow> (Inl e, st1)
          | (Inr c, st1) \<Rightarrow> applyClaimed env c Approve actor None c [] st1) = (res, st')"
  | (complete) addSignature u p s' where "refusal_of env q actor = None"
      "\<not> isExpired (now env AtSignCheck) q"
      "st_addSignature (ops env) = Some addSignature" "identified actor = Some u"
      "addSignature (ap_id q) (new_signature env q (the actor) u)
         (interfere env BetweenReadAndSign (svc_store st)) = (Some (SigComplete p), s')"
      "sign_complete env q actor (new_signature env q (the actor) u) p (st\<lparr>svc_store := s'\<rparr>) = (res, st')"
proof (cases "st_addSignature (ops env) = None \<or> identified actor = None \<or>
    refusal_of env q actor \<noteq> None")
  case True
  with assms have "world st' = world st" by (auto simp: sign_def split: option.splits)
  then show ?thesis by (rule quiet)
next
  case False
  then obtain addSignature u where here: "st_addSignature (ops env) = Some addSignature"
    "identified actor = Some u" "refusal_of env q actor = None"
    by auto
  show ?thesis
  proof (cases "isExpired (now env AtSignCheck) q")
    case True
    with here assms show ?thesis by (intro expired) (simp_all add: sign_def)
  next
    case fresh: False
    obtain r s' where call: "addSignature (ap_id q) (new_signature env q (the actor) u)
         (interfere env BetweenReadAndSign (svc_store st)) = (r, s')"
      by fastforce
    show ?thesis
    proof (cases "signal env BeforeSign \<or> (\<forall>p. r \<noteq> Some (SigComplete p))")
      case True
      with here fresh call assms have "world st' = world st"
        by (auto simp: sign_def Let_def split: option.splits ApprovalSignatureResult.splits if_splits)
      then show ?thesis by (rule quiet)
    next
      case False
      then obtain p where "r = Some (SigComplete p)" "\<not> signal env BeforeSign" by blast
      with here fresh call assms show ?thesis
        by (intro complete [of addSignature u p s']) (simp_all add: sign_def)
    qed
  qed
qed

lemma sign_world:
  assumes "logging env" and "sign env q actor st = (res, st')"
  shows "world st' = world st \<or>
    refusal_of env q actor = None \<and>
    (\<exists>c. world st' = world st @ [(c, Approve)] \<and> \<not> isExpired (now env AtApply) c \<and>
         enough_signatures Approve c \<and> (signed_for env c \<or> isExpired (now env AtSignCheck) q))"
  using assms(2)
proof (cases rule: sign_cases)
  case expired
  from claim_apply_world [OF assms(1) expired(3)] expired(1,2) show ?thesis by auto
next
  case (complete addSignature u p s')
  from sign_complete_world [OF assms(1), of q actor "new_signature env q (the actor) u" p
      "st\<lparr>svc_store := s'\<rparr>"] complete(1,6)
  show ?thesis by auto
qed simp

text \<open>
  The one path without a test of the version: when the dual-control record read has expired, \<open>sign\<close> claims
  whatever is stored by then and settles it, here a record that replaced the one that was authorized.
\<close>

lemma expired_dual_settles_replacement:
  assumes "logging env" and "st_get (ops env) i (svc_store st) = Some q" and "requiredApprovalsOf q > 1"
    and "st_addSignature (ops env) \<noteq> None" and "identified actor \<noteq> None" and "refusal_of env q actor = None"
    and "isExpired (now env AtSignCheck) q" and "\<And>t. \<not> signal env t"
    and "st_claim (ops env) (ap_id q) (interfere env BetweenReadAndClaim (svc_store st)) = (Some p, s')"
    and "\<not> isExpired (now env AtApply) p" and "requiredApprovalsOf p \<le> 1"
  shows "world (snd (settle env i Approve actor st)) = world st @ [(p, Approve)]"
  using assms
  by (auto simp: settle_def sign_def claimOrCancel_def applyClaimed_def run_settlement_def logging_def
      split: prod.splits sum.splits settle_error.splits) (metis fst_conv snd_conv)+


text \<open>A service over the in-memory store, for examples: ann asks, others approve.\<close>

definition example_env ::
    "(mem_store, (PendingApproval \<times> ApprovalDecision) list, string) svc_env" where
  "example_env =
     \<lparr>ops = mem_ops, authorizer = None,
      governance = \<lparr>enforceSeparationOfDuties = True, enforceTenantIsolation = False,
                    requireAuthorizer = False\<rparr>,
      canon = ap_reason, sha256 = (\<lambda>x. x),
      settleApproval = (\<lambda>p d w. (Inr ''ok'', w @ [(p, d)])),
      interfere = (\<lambda>_ s. s), signal = (\<lambda>_. False), now = (\<lambda>_. 5)\<rparr>"

definition user :: "string \<Rightarrow> AuditActor" where
  "user u = \<lparr>act_userId = Some u, act_tenantId = Some ''t1'', act_roles = None, act_label = None\<rparr>"

definition single_approval :: PendingApproval where
  "single_approval = example_approval\<lparr>requiredApprovals := None\<rparr>"

definition single_state :: "(mem_store, (PendingApproval \<times> ApprovalDecision) list) svc" where
  "single_state = \<lparr>svc_store = [''a1'' \<mapsto> single_approval], audit = [], world = []\<rparr>"

lemmas example_defs =
  example_env_def user_def single_approval_def single_state_def example_approval_def
  example_context_def mem_ops_def mem_get_def mem_claim_def mem_save_def

lemma example_logging: "logging example_env"
  by (simp add: logging_def example_env_def)

lemmas settle_defs =
  settle_def claimOrCancel_def applyClaimed_def run_settlement_def recordSettled_def
  record_event_def refusal_of_def checkAuthorization_def governed_def duties_conflict_def actor_of_context_def
  isExpired_def outcome_of_def fingerprint_def requiredApprovalsOf_def


section \<open>Dual control end to end\<close>

text \<open>
  C2: N-of-M approval over the in-memory store. When the record read needs more than one
  approver and has not expired, and no stored record carries two signatures of one user, the
  runner is asked to approve only a record with at least \<open>requiredApprovals\<close> signatures, by
  pairwise different users, every one of them given for exactly this version of the record.
\<close>

theorem dual_control:
  assumes "logging env" and "ops env = mem_ops"
    and "settle env i Approve actor st = (res, st')"
    and "svc_store st i = Some q" and "requiredApprovalsOf q > 1"
    and "\<not> isExpired (now env AtSignCheck) q"
    and "\<And>j p. interfere env BetweenReadAndSign (svc_store st) j = Some p \<Longrightarrow> distinct_signers p"
  shows "world st' = world st \<or>
    (\<exists>p. world st' = world st @ [(p, Approve)] \<and>
         int (card (set (signers p))) \<ge> requiredApprovalsOf p \<and> signed_for env p)"
proof (cases "signal env AtStart")
  case True
  with assms(3) show ?thesis by (simp add: settle_def)
next
  case False
  with assms have "sign env q actor st = (res, st')"
    by (simp add: settle_def mem_ops_def mem_get_def)
  then show ?thesis
  proof (cases rule: sign_cases)
    case expired
    with assms(6) show ?thesis by simp
  next
    case (complete addSignature u p s')
    then have add: "mem_addSignature (ap_id q) (new_signature env q (the actor) u)
         (interfere env BetweenReadAndSign (svc_store st)) = (Some (SigComplete p), s')"
      using assms(2) by (simp add: mem_ops_def)
    have c: "call_step mem_ops (CAdd (ap_id q) (new_signature env q (the actor) u))
         (interfere env BetweenReadAndSign (svc_store st)) = (Some p, s')"
      using add by (simp add: mem_ops_def)
    from mem.call_step_signers [OF c assms(7)]
    have "distinct_signers p" "int (signatureCount p) \<ge> requiredApprovalsOf p" by auto
    then have "int (card (set (signers p))) \<ge> requiredApprovalsOf p"
      by (simp add: distinct_signers_def distinct_card)
    with sign_complete_world [OF assms(1), of q actor "new_signature env q (the actor) u" p
        "st\<lparr>svc_store := s'\<rparr>"] complete(6)
    show ?thesis by auto
  qed simp
qed

definition dual_state :: "(mem_store, (PendingApproval \<times> ApprovalDecision) list) svc" where
  "dual_state = \<lparr>svc_store = [''a1'' \<mapsto> example_approval\<lparr>signatures :=
      Some [(example_signature ''bob'')\<lparr>approvalVersion := Some ''big''\<rparr>]\<rparr>],
     audit = [], world = []\<rparr>"

theorem dual_control_witness:
  "let st' = snd (settle example_env ''a1'' Approve (Some (user ''cat'')) dual_state) in
   length (world st') = 1 \<and>
   (world st' = world dual_state \<or>
    (\<exists>p. world st' = world dual_state @ [(p, Approve)] \<and>
         int (card (set (signers p))) \<ge> requiredApprovalsOf p \<and> signed_for example_env p))"
proof -
  let ?out = "settle example_env ''a1'' Approve (Some (user ''cat'')) dual_state"
  let ?q = "example_approval\<lparr>signatures :=
      Some [(example_signature ''bob'')\<lparr>approvalVersion := Some ''big''\<rparr>]\<rparr>"
  have "length (world (snd ?out)) = 1"
    by (simp add: example_defs settle_defs dual_state_def sign_def identified_def Let_def
        new_signature_def mem_addSignature_def signatureCount_def hasSigned_def example_signature_def
        sign_complete_def approval_version_def without_appended_def)
  moreover have out: "?out = (fst ?out, snd ?out)" by simp
  have "world (snd ?out) = world dual_state \<or>
    (\<exists>p. world (snd ?out) = world dual_state @ [(p, Approve)] \<and>
         int (card (set (signers p))) \<ge> requiredApprovalsOf p \<and> signed_for example_env p)"
    by (rule dual_control [OF example_logging _ out, where q = ?q])
      (auto simp: example_env_def dual_state_def requiredApprovalsOf_def example_approval_def
        isExpired_def distinct_signers_def signers_def split: if_splits)
  ultimately show ?thesis unfolding Let_def by blast
qed

section \<open>A refusal with an empty reason\<close>

text \<open>
  a flaw. An authorizer that refuses with an empty reason is not obeyed: the reason is
  returned as the refusal, and \<open>if (refusal)\<close> takes it for none. The authorizer below
  refuses every record and caller, and the runner is still asked to approve.
\<close>

theorem empty_reason_fails_open:
  "let env = example_env\<lparr>authorizer := Some (\<lambda>_ _. VRefused (Some []))\<rparr> in
   checkAuthorization env single_approval (Some (user ''bob'')) = Some [] \<and>
   world (snd (settle env ''a1'' Approve (Some (user ''bob'')) single_state)) =
     [(single_approval, Approve)]"
  by (simp add: example_defs settle_defs)

end
