(* ===== verification/Approval_Lifecycle.thy ===== *)
theory Approval_Lifecycle
  imports Approval_Service
begin

text \<open>
  What one call of \<open>ApprovalService.settle\<close> leaves behind, over the in-memory store and
  with no other caller between its accesses: a settlement that reached an end consumes the
  record and writes one closing audit event; every refusal and cancellation leaves the record
  pending, changed at most in its signatures.
\<close>

section \<open>Ends of a settlement\<close>

fun terminal :: "(svc_error, 'r svc_result) result \<Rightarrow> bool" where
  "terminal (Inr (Settled _)) = True"
| "terminal (Inr (StillPending _)) = False"
| "terminal (Inl (ApprovalExpiredError _ _)) = True"
| "terminal (Inl (SettlementError _)) = True"
| "terminal (Inl _) = False"

fun closing_event :: "AuditEvent \<Rightarrow> bool" where
  "closing_event (ApprovalSettled _ _ _ _ _ _ _ _ _) = True"
| "closing_event (ApprovalExpired _ _ _ _ _ _) = True"
| "closing_event (ApprovalSettlementFailed _ _ _ _ _ _ _) = True"
| "closing_event _ = False"

definition closings :: "('s, 'w) svc \<Rightarrow> nat" where
  "closings st = length (filter closing_event (audit st))"

definition unsigned :: "PendingApproval \<Rightarrow> PendingApproval" where
  "unsigned p = p\<lparr>signatures := None\<rparr>"

definition same_but_signatures :: "mem_store \<Rightarrow> mem_store \<Rightarrow> bool" where
  "same_but_signatures s s' \<longleftrightarrow> (\<forall>j. map_option unsigned (s' j) = map_option unsigned (s j))"

definition keyed :: "mem_store \<Rightarrow> bool" where
  "keyed s \<longleftrightarrow> (\<forall>j p. s j = Some p \<longrightarrow> ap_id p = j)"

definition undisturbed :: "(mem_store, 'w, 'r) svc_env \<Rightarrow> bool" where
  "undisturbed env \<longleftrightarrow> ops env = mem_ops \<and> (\<forall>pt s. interfere env pt s = s)"

text \<open>What a call that started in \<open>st\<close> may leave, when \<open>i\<close> is the approval it was about.\<close>

definition accounted ::
    "string \<Rightarrow> (mem_store, 'w) svc \<Rightarrow> (svc_error, 'r svc_result) result \<Rightarrow> (mem_store, 'w) svc \<Rightarrow> bool" where
  "accounted i st res st' \<longleftrightarrow>
     (if terminal res
      then svc_store st' = (svc_store st)(i := None) \<and> closings st' = closings st + 1
      else same_but_signatures (svc_store st) (svc_store st') \<and> closings st' = closings st)"

lemma same_refl [simp]: "same_but_signatures s s"
  by (simp add: same_but_signatures_def)

lemma same_upd:
  assumes "s i = Some p" and "unsigned q = unsigned p"
  shows "same_but_signatures s (s(i \<mapsto> q))" "same_but_signatures s ((s(i := None))(i \<mapsto> q))"
  using assms by (auto simp: same_but_signatures_def)

lemma unsigned_upd [simp]: "unsigned (p\<lparr>signatures := x\<rparr>) = unsigned p"
  by (simp add: unsigned_def)

lemma unsigned_id: "unsigned q = unsigned p \<Longrightarrow> ap_id q = ap_id p"
  by (metis (no_types) PendingApproval.select_convs(1) PendingApproval.surjective
      PendingApproval.update_convs(13) unsigned_def)

lemma closings_simps [simp]:
  "closings (record_event e st) = closings st + (if closing_event e then 1 else 0)"
  "closings (st\<lparr>svc_store := s\<rparr>) = closings st" "closings (st\<lparr>world := w\<rparr>) = closings st"
  "closings (st\<lparr>audit := audit st @ es\<rparr>) = closings st + length (filter closing_event es)"
  by (simp_all add: closings_def record_event_def)

lemma closings_signed [simp]: "filter closing_event (signed_events env q a sg p) = []"
  by (simp add: signed_events_def Let_def)

lemma store_simps [simp]:
  "svc_store (record_event e st) = svc_store st"
  by (simp add: record_event_def)

section \<open>The steps of a settlement\<close>

lemma restore_accounted:
  assumes "undisturbed env" and "svc_store st0 i = Some p" and "ap_id p = i"
    and "svc_store st = (svc_store st0)(i := None)" and "unsigned q = unsigned p"
  shows "same_but_signatures (svc_store st0) (svc_store (snd (restore env q st)))"
    and "closings (snd (restore env q st)) = closings st"
  using assms unsigned_id [OF assms(5)]
  by (auto simp: restore_def undisturbed_def mem_ops_def mem_save_def same_upd)

lemma run_settlement_end:
  "run_settlement env c d a st = (res, st') \<Longrightarrow>
     terminal res \<and> svc_store st' = svc_store st \<and> closings st' = closings st + 1"
  by (auto simp: run_settlement_def recordSettled_def split: prod.splits sum.splits settle_error.splits)

lemma refuseClaimed_accounted:
  assumes "undisturbed env" and "svc_store st0 i = Some p" and "ap_id p = i"
    and "svc_store st = (svc_store st0)(i := None)"
    and "unsigned rst = unsigned p" and "refuseClaimed env c rst oc r a st = (res, st')"
  shows "\<not> terminal res \<and> same_but_signatures (svc_store st0) (svc_store st') \<and> closings st' = closings st"
  using assms(6) restore_accounted [OF assms(1-5)]
  by (auto simp: refuseClaimed_def recordRefusal_def split: prod.splits)

lemma applyClaimed_accounted:
  assumes "undisturbed env" and "svc_store st0 i = Some p" and "ap_id p = i"
    and "svc_store st = (svc_store st0)(i := None)" and "closings st = closings st0"
    and "unsigned rst = unsigned p" and "filter closing_event ev = []"
    and "applyClaimed env c d a fp rst ev st = (res, st')"
  shows "accounted i st0 res st'"
proof -
  note refused = refuseClaimed_accounted [OF assms(1-4) assms(6)]
  consider (changed) oc r where "refuseClaimed env c rst oc r a st = (res, st')"
    | (expired) e ev' where "res = Inl (ApprovalExpiredError (ap_id c) e)" "closing_event ev'"
        "st' = record_event ev' st"
    | (run) "run_settlement env c d a (st\<lparr>audit := audit st @ ev\<rparr>) = (res, st')"
    using assms(8) unfolding applyClaimed_def Let_def
    by (smt (verit) closing_event.simps(2) prod.inject)
  then show ?thesis
  proof cases
    case changed
    from refused [OF this] assms(5) show ?thesis by (simp add: accounted_def)
  next
    case expired
    with assms(4,5) show ?thesis by (simp add: accounted_def)
  next
    case run
    from run_settlement_end [OF this] assms(4,5,7) show ?thesis by (simp add: accounted_def)
  qed
qed

lemma claim_apply_accounted:
  assumes "undisturbed env" and "keyed (svc_store st)"
    and "(case claimOrCancel env i st of
            (Inl e, st1) \<Rightarrow> (Inl e, st1)
          | (Inr c, st1) \<Rightarrow> applyClaimed env c d a fp c [] st1) = (res, st')"
  shows "accounted i st res st'"
proof (cases "signal env BeforeClaim \<or> svc_store st i = None")
  case True
  with assms(1,3) show ?thesis
    by (cases "signal env BeforeClaim")
      (auto simp: claimOrCancel_def undisturbed_def mem_ops_def mem_claim_def accounted_def)
next
  case False
  then obtain p where p: "svc_store st i = Some p" by auto
  with assms(2) have "ap_id p = i" by (auto simp: keyed_def)
  let ?st1 = "st\<lparr>svc_store := (svc_store st)(i := None)\<rparr>"
  show ?thesis
  proof (cases "signal env AfterClaim")
    case True
    with False p assms(1,3) have "res = Inl ExecutionCancelledError" "st' = snd (restore env p ?st1)"
      by (auto simp: claimOrCancel_def undisturbed_def mem_ops_def mem_claim_def)
    with restore_accounted [OF assms(1) p \<open>ap_id p = i\<close>, where st = ?st1 and q = p] show ?thesis
      by (simp add: accounted_def)
  next
    case going: False
    with False p assms(1,3) have "applyClaimed env p d a fp p [] ?st1 = (res, st')"
      by (auto simp: claimOrCancel_def undisturbed_def mem_ops_def mem_claim_def)
    from applyClaimed_accounted [OF assms(1) p \<open>ap_id p = i\<close> _ _ _ _ this] show ?thesis by simp
  qed
qed

lemma sign_complete_accounted:
  assumes "undisturbed env" and "svc_store st i = Some p" and "ap_id p = i" and "unsigned q = unsigned p"
    and "sign_complete env pnd actor sg q (st\<lparr>svc_store := (svc_store st)(i := None)\<rparr>) = (res, st')"
  shows "accounted i st res st'"
proof -
  let ?st1 = "st\<lparr>svc_store := (svc_store st)(i := None)\<rparr>"
  let ?sgs = "nullish (signatures q) []"
  let ?stale = "list_ex (\<lambda>s. approvalVersion s \<noteq> Some (approval_version env q)) ?sgs"
  note undo = restore_accounted [OF assms(1-3), where st = ?st1]
  consider (cancelled) "signal env AfterSign" | (stale) "\<not> signal env AfterSign" "?stale"
    | (settling) "\<not> signal env AfterSign" "\<not> ?stale"
    by blast
  then show ?thesis
  proof cases
    case cancelled
    with assms(4,5) undo [of "q\<lparr>signatures := Some (without_appended sg ?sgs)\<rparr>"] show ?thesis
      by (auto simp: sign_complete_def Let_def accounted_def)
  next
    case stale
    with assms(4,5) undo [of "q\<lparr>signatures := Some (filter (\<lambda>s. approvalVersion s = Some (approval_version env q))
        (without_appended sg ?sgs))\<rparr>"]
    show ?thesis
      by (auto simp: sign_complete_def Let_def accounted_def recordRefusal_def split: prod.splits)
  next
    case settling
    with assms(5) have "applyClaimed env q Approve actor None
        (q\<lparr>signatures := Some (without_appended sg ?sgs)\<rparr>)
        (signed_events env pnd (the actor) sg q) ?st1 = (res, st')"
      by (simp add: sign_complete_def Let_def)
    from applyClaimed_accounted [OF assms(1-3) _ _ _ _ this] assms(4) show ?thesis by simp
  qed
qed

lemma mem_addSignature_cases:
  assumes "s i = Some p"
  obtains (dup) "mem_addSignature i sg s = (Some (SigDuplicate p), s)"
  | (pend) q where "unsigned q = unsigned p"
      "mem_addSignature i sg s = (Some (SigPending q), s(i \<mapsto> q))"
  | (full) q where "unsigned q = unsigned p"
      "mem_addSignature i sg s = (Some (SigComplete q), s(i := None))"
proof -
  let ?u = "p\<lparr>signatures := Some (nullish (signatures p) [] @ [sg])\<rparr>"
  consider "int (signatureCount p) \<ge> requiredApprovalsOf p"
    | "int (signatureCount p) < requiredApprovalsOf p" "hasSigned p (sig_userId sg)"
    | "int (signatureCount p) < requiredApprovalsOf p" "\<not> hasSigned p (sig_userId sg)"
        "int (signatureCount ?u) \<ge> requiredApprovalsOf p"
    | "int (signatureCount p) < requiredApprovalsOf p" "\<not> hasSigned p (sig_userId sg)"
        "int (signatureCount ?u) < requiredApprovalsOf p"
    by linarith
  then show ?thesis
  proof cases
    case 1
    with assms show ?thesis by (intro full [of p]) (simp_all add: mem_addSignature_def)
  next
    case 2
    with assms show ?thesis by (intro dup) (simp add: mem_addSignature_def)
  next
    case 3
    with assms show ?thesis by (intro full [of ?u]) (simp_all add: mem_addSignature_def)
  next
    case 4
    with assms show ?thesis by (intro pend [of ?u]) (simp_all add: mem_addSignature_def Let_def)
  qed
qed

lemma sign_accounted:
  assumes "undisturbed env" and "keyed (svc_store st)" and "svc_store st i = Some q"
    and "sign env q actor st = (res, st')"
  shows "accounted i st res st'"
proof -
  from assms(2,3) have i: "ap_id q = i" by (auto simp: keyed_def)
  have ops: "st_addSignature (ops env) = Some mem_addSignature" "interfere env pt s = s" for pt s
    using assms(1) by (simp_all add: undisturbed_def mem_ops_def)
  consider (unidentified) "identified actor = None"
    | (refused) u r where "identified actor = Some u" "refusal_of env q actor = Some r"
    | (expired) u where "identified actor = Some u" "refusal_of env q actor = None"
        "isExpired (now env AtSignCheck) q"
    | (live) u where "identified actor = Some u" "refusal_of env q actor = None"
        "\<not> isExpired (now env AtSignCheck) q"
    by (cases "identified actor"; cases "refusal_of env q actor") auto
  then show ?thesis
  proof cases
    case unidentified
    with assms(4) show ?thesis by (auto simp: sign_def ops accounted_def recordRefusal_def)
  next
    case refused
    with assms(4) show ?thesis by (auto simp: sign_def ops accounted_def recordRefusal_def)
  next
    case expired
    with assms(4) i show ?thesis
      by (intro claim_apply_accounted [OF assms(1,2)]) (simp add: sign_def ops)
  next
    case live
    show ?thesis
    proof (cases "signal env BeforeSign")
      case True
      with live assms(4) show ?thesis by (auto simp: sign_def ops accounted_def)
    next
      case False
      note here = live False assms(4) i
      let ?sg = "new_signature env q (the actor) u"
      from assms(3) show ?thesis
      proof (cases rule: mem_addSignature_cases [where sg = ?sg])
        case dup
        with here show ?thesis by (auto simp: sign_def ops accounted_def recordRefusal_def)
      next
        case (pend q')
        with here same_upd(1) [where s = "svc_store st" and i = i and p = q and q = q', OF assms(3) pend(1)] show ?thesis
          by (auto simp: sign_def ops accounted_def closings_def)
      next
        case (full q')
        with here have "sign_complete env q actor ?sg q' (st\<lparr>svc_store := (svc_store st)(i := None)\<rparr>) = (res, st')"
          by (simp add: sign_def ops)
        from sign_complete_accounted [OF assms(1,3) i full(1) this] show ?thesis .
      qed
    qed
  qed
qed

section \<open>The account of a call\<close>

text \<open>
  no approval is lost and none is settled twice. Over the in-memory store, a call of
  \<open>settle\<close> that settled the approval, found it expired, or failed in the runner removes
  exactly this record and adds exactly one closing audit event (settled, expired or
  settlement failed). Any other end (not found, refused, cancelled, still collecting
  signatures) adds none and leaves every record in the store, with nothing but signatures
  changed.
\<close>

theorem settle_accounted:
  assumes "undisturbed env" and "keyed (svc_store st)"
    and "settle env i d actor st = (res, st')"
  shows "accounted i st res st'"
proof -
  have get: "st_get (ops env) j s = s j" for j s
    using assms(1) by (simp add: undisturbed_def mem_ops_def mem_get_def)
  note claim = claim_apply_accounted [OF assms(1,2)]
  consider (stop) "signal env AtStart \<or> (governed env \<or> is_approve d) \<and> svc_store st i = None"
    | (blind) "\<not> signal env AtStart" "\<not> (governed env \<or> is_approve d)"
    | (found) q where "\<not> signal env AtStart" "governed env \<or> is_approve d" "svc_store st i = Some q"
    by (cases "svc_store st i") auto
  then show ?thesis
  proof cases
    case stop
    with assms(3) show ?thesis by (cases "signal env AtStart") (auto simp: settle_def get accounted_def)
  next
    case blind
    with assms(3) show ?thesis by (intro claim) (simp add: settle_def)
  next
    case found
    show ?thesis
    proof (cases "is_approve d \<and> requiredApprovalsOf q > 1")
      case True
      with found assms(3) show ?thesis
        by (intro sign_accounted [OF assms(1,2)]) (simp_all add: settle_def get)
    next
      case single: False
      show ?thesis
      proof (cases "governed env")
        case True
        show ?thesis
        proof (cases "refusal_of env q actor")
          case None
          with True single found assms(3) show ?thesis by (intro claim) (auto simp: settle_def get)
        next
          case (Some r)
          with True single found assms(3) show ?thesis
            by (auto simp: settle_def get accounted_def recordRefusal_def)
        qed
      next
        case False
        with single found assms(3) show ?thesis by (intro claim) (auto simp: settle_def get)
      qed
    qed
  qed
qed

theorem settle_accounted_witness:
  "let out = settle example_env ''a1'' Approve (Some (user ''bob'')) single_state in
   terminal (fst out) \<and> accounted ''a1'' single_state (fst out) (snd out)"
proof -
  let ?out = "settle example_env ''a1'' Approve (Some (user ''bob'')) single_state"
  have "terminal (fst ?out)" by (simp add: example_defs settle_defs)
  moreover have "accounted ''a1'' single_state (fst ?out) (snd ?out)"
    by (rule settle_accounted [where env = example_env and d = Approve and actor = "Some (user ''bob'')"])
      (simp_all add: undisturbed_def keyed_def example_env_def single_state_def single_approval_def
        example_approval_def)
  ultimately show ?thesis unfolding Let_def by blast
qed

end
