(* ===== verification/Audit_Trail.thy ===== *)
theory Audit_Trail
  imports Agent_Types
begin

text \<open>
  The choke point of the audit trail, \<open>packages/core/src/services/audit-trail.service.ts\<close>:
  filtering, argument dropping and redaction, and delivery to every sink. A sink is a
  function of the event and its own state; \<open>False\<close> says that it threw.
\<close>

section \<open>Operations\<close>

definition REDACTED :: string where
  "REDACTED = ''***REDACTED***''"

record AuditOptions =
  includeArgs :: bool
  sensitiveFields :: "string list"
  includeAllowDecisions :: bool

text \<open>An argument value is masked inside plain objects only; arrays are copied as they are.\<close>

fun redact_value :: "string set \<Rightarrow> jsval \<Rightarrow> jsval" where
  "redact_value sensitive (JObj ps) =
     JObj (map (\<lambda>(k, v). (k, if k \<in> sensitive then JStr REDACTED else redact_value sensitive v)) ps)"
| "redact_value sensitive v = v"

definition redact :: "(string \<times> jsval) list \<Rightarrow> string set \<Rightarrow> (string \<times> jsval) list" where
  "redact args sensitive =
     map (\<lambda>(k, v). (k, if k \<in> sensitive then JStr REDACTED else redact_value sensitive v)) args"

text \<open>\<open>event.args\<close>, and the event with other arguments.\<close>

fun event_args :: "AuditEvent \<Rightarrow> (string \<times> jsval) list option" where
  "event_args (ToolPolicyDecision _ _ _ _ _ _ _ _ a) = a"
| "event_args (ToolOutputPolicyDecision _ _ _ _ _ _ a) = a"
| "event_args (ApprovalRequested _ _ _ _ _ _ _ a) = a"
| "event_args (ApprovalSettled _ _ _ _ _ _ _ _ a) = a"
| "event_args _ = None"

fun with_args :: "AuditEvent \<Rightarrow> (string \<times> jsval) list option \<Rightarrow> AuditEvent" where
  "with_args (ToolPolicyDecision b an tn pn vd rs ai ra _) a = ToolPolicyDecision b an tn pn vd rs ai ra a"
| "with_args (ToolOutputPolicyDecision b an tn pn vd rs _) a = ToolOutputPolicyDecision b an tn pn vd rs a"
| "with_args (ApprovalRequested b i an tn rs ex rq _) a = ApprovalRequested b i an tn rs ex rq a"
| "with_args (ApprovalSettled b i an tn oc ac sg rs _) a = ApprovalSettled b i an tn oc ac sg rs a"
| "with_args e a = e"

definition prepare :: "AuditOptions \<Rightarrow> AuditEvent \<Rightarrow> AuditEvent" where
  "prepare opts event =
     (case event_args event of
        None \<Rightarrow> event
      | Some args \<Rightarrow>
          if \<not> includeArgs opts then with_args event None
          else if sensitiveFields opts = [] then event
          else with_args event (Some (redact args (set (sensitiveFields opts)))))"

definition filtered_out :: "AuditOptions \<Rightarrow> AuditEvent \<Rightarrow> bool" where
  "filtered_out opts event =
     (case event of
        ToolPolicyDecision _ _ _ _ vd _ _ _ _ \<Rightarrow> vd = Allowed \<and> \<not> includeAllowDecisions opts
      | _ \<Rightarrow> False)"

text \<open>The sinks and their states, in order; an absent sink has been dropped.\<close>

type_synonym 's sinks = "((AuditEvent \<Rightarrow> 's \<Rightarrow> bool \<times> 's) \<times> 's) list"

definition resolveSinks :: "((AuditEvent \<Rightarrow> 's \<Rightarrow> bool \<times> 's) \<times> 's) option list \<Rightarrow> 's sinks" where
  "resolveSinks sinks = map the (filter (\<lambda>s. s \<noteq> None) sinks)"

definition isEnabled :: "((AuditEvent \<Rightarrow> 's \<Rightarrow> bool \<times> 's) \<times> 's) option list \<Rightarrow> bool" where
  "isEnabled sinks = (resolveSinks sinks \<noteq> [])"

fun deliver :: "AuditEvent \<Rightarrow> 's sinks \<Rightarrow> 's sinks" where
  "deliver e [] = []"
| "deliver e ((sink, s) # rest) = (case sink e s of (_, s') \<Rightarrow> (sink, s') # deliver e rest)"

definition record_to :: "AuditOptions \<Rightarrow> AuditEvent \<Rightarrow> 's sinks \<Rightarrow> 's sinks" where
  "record_to opts event sinks =
     (if sinks = [] then sinks
      else if filtered_out opts event then sinks
      else deliver (prepare opts event) sinks)"

section \<open>Properties\<close>

lemma with_args_simps [simp]:
  "event_args e \<noteq> None \<Longrightarrow> event_args (with_args e a) = a"
  "with_args (with_args e a) b = with_args e b"
  by (cases e; simp)+

lemma with_own_args: "with_args e (event_args e) = e"
  by (cases e) auto

text \<open>
  A property list with a sensitive field whose value can be read: directly, or through
  nested objects.
\<close>

inductive exposes :: "string set \<Rightarrow> (string \<times> jsval) list \<Rightarrow> bool" for S where
  here: "(k, v) \<in> set ps \<Longrightarrow> k \<in> S \<Longrightarrow> v \<noteq> JStr REDACTED \<Longrightarrow> exposes S ps"
| nested: "(k, JObj qs) \<in> set ps \<Longrightarrow> exposes S qs \<Longrightarrow> exposes S ps"

lemma redact_object: "redact_value S (JObj qs) = JObj (redact qs S)"
  by (simp add: redact_def)

lemma redact_hides: "exposes S ps \<Longrightarrow> ps = redact qs S \<Longrightarrow> False"
proof (induction arbitrary: qs rule: exposes.induct)
  case (here k v ps)
  then show ?case by (auto simp: redact_def split: if_splits)
next
  case (nested k rs ps)
  then obtain v where v: "(k, v) \<in> set qs" "JObj rs = (if k \<in> S then JStr REDACTED else redact_value S v)"
    by (auto simp: redact_def)
  then have "JObj rs = redact_value S v" by (simp split: if_splits)
  then obtain us where "rs = redact us S" by (cases v) (auto simp: redact_def)
  with nested.IH show ?case by blast
qed

text \<open>
  arguments leave only as configured. The event a sink receives is the recorded one
  except for its arguments: there are none unless \<open>includeArgs\<close> is set, and then no field
  named in \<open>sensitiveFields\<close> can be read from them, directly or inside nested objects.
\<close>

theorem prepare_protects_arguments:
  "prepare opts e = with_args e (event_args (prepare opts e)) \<and>
   (\<not> includeArgs opts \<longrightarrow> event_args (prepare opts e) = None) \<and>
   (\<forall>args. event_args (prepare opts e) = Some args \<longrightarrow> \<not> exposes (set (sensitiveFields opts)) args)"
proof -
  have none: "\<not> exposes {} ps" for ps
  proof
    assume "exposes {} ps" then show False by (induction rule: exposes.induct) auto
  qed
  show ?thesis
    using redact_hides [of "set (sensitiveFields opts)"] none with_own_args [of e]
    by (cases "event_args e") (auto simp: prepare_def)
qed

definition sample_event :: AuditEvent where
  "sample_event = ApprovalRequested \<lparr>env_at = 0, env_sessionId = ''s'', env_traceId = ''t'', env_tenantId = None\<rparr>
     ''a1'' ''agent'' ''refund'' ''large'' None None
     (Some [(''card'', JStr ''4111''), (''to'', JObj [(''iban'', JStr ''DE''), (''name'', JStr ''ann'')])])"

theorem prepare_protects_arguments_witness:
  "let opts = \<lparr>includeArgs = True, sensitiveFields = [''card'', ''iban''], includeAllowDecisions = False\<rparr>;
       args = [(''card'', JStr REDACTED), (''to'', JObj [(''iban'', JStr REDACTED), (''name'', JStr ''ann'')])]
   in event_args (prepare opts sample_event) = Some args \<and> \<not> exposes (set (sensitiveFields opts)) args"
proof -
  let ?opts = "\<lparr>includeArgs = True, sensitiveFields = [''card'', ''iban''], includeAllowDecisions = False\<rparr>"
  have "event_args (prepare ?opts sample_event) = Some
      [(''card'', JStr REDACTED), (''to'', JObj [(''iban'', JStr REDACTED), (''name'', JStr ''ann'')])]"
    by (simp add: prepare_def sample_event_def redact_def)
  with prepare_protects_arguments [of ?opts sample_event] show ?thesis unfolding Let_def by blast
qed

text \<open>
  a failing sink loses nothing for the others. An event that is not filtered out is
  handed, prepared, to every sink exactly once, whichever of them throw.
\<close>

theorem every_sink_receives:
  "record_to opts e sinks =
     (if filtered_out opts e then sinks
      else map (\<lambda>(sink, s). (sink, snd (sink (prepare opts e) s))) sinks)"
proof -
  have "deliver e' sinks = map (\<lambda>(sink, s). (sink, snd (sink e' s))) sinks" for e'
    by (induction sinks) (auto split: prod.splits)
  then show ?thesis by (simp add: record_to_def)
qed

text \<open>
  A flaw: objects inside arrays are not masked, although the option's documentation says
  that nested objects are masked recursively.
\<close>

theorem arrays_are_not_redacted:
  "redact [(''users'', JArr [JObj [(''password'', JStr ''s3cret'')]])] {''password''} =
     [(''users'', JArr [JObj [(''password'', JStr ''s3cret'')]])]"
  by (simp add: redact_def)

end
