(* ===== verification/Json_Text.thy ===== *)
theory Json_Text
  imports Js_Number
begin

text \<open>
  \<open>JSON.stringify\<close> of the values the program serializes: scope keys, transcript
  fingerprints, canonical audit records, tool results. How a finite number is printed is a
  parameter, of which only \<open>num_printer\<close> is used: it prints different numbers differently,
  with the characters of a numeric literal. The result shown is that the text determines the
  value, for values that JSON can represent.
\<close>

section \<open>Strings\<close>

definition hex_digit :: "nat \<Rightarrow> char" where
  "hex_digit n = (if n < 10 then char_of (48 + n) else char_of (87 + n))"

definition json_escape :: "char \<Rightarrow> string" where
  "json_escape c =
     (let n = (of_char c :: nat) in
      if n = 0x22 \<or> n = 0x5C then [CHR 0x5C, c]
      else if n = 8 then [CHR 0x5C, CHR ''b'']
      else if n = 9 then [CHR 0x5C, CHR ''t'']
      else if n = 10 then [CHR 0x5C, CHR ''n'']
      else if n = 12 then [CHR 0x5C, CHR ''f'']
      else if n = 13 then [CHR 0x5C, CHR ''r'']
      else if n < 32 then [CHR 0x5C, CHR ''u'', CHR ''0'', CHR ''0'', hex_digit (n div 16), hex_digit (n mod 16)]
      else [c])"

definition json_quote :: "string \<Rightarrow> string" where
  "json_quote s = CHR 0x22 # concat (map json_escape s) @ [CHR 0x22]"

text \<open>Reading one escaped character back.\<close>

fun json_unescape :: "string \<Rightarrow> (char \<times> string) option" where
  "json_unescape [] = None"
| "json_unescape (c # r) =
     (if c = CHR 0x22 then None
      else if c \<noteq> CHR 0x5C then Some (c, r)
      else (case r of
        [] \<Rightarrow> None
      | d # r2 \<Rightarrow>
          if d = CHR 0x22 \<or> d = CHR 0x5C then Some (d, r2)
          else if d = CHR ''b'' then Some (char_of (8 :: nat), r2)
          else if d = CHR ''t'' then Some (char_of (9 :: nat), r2)
          else if d = CHR ''n'' then Some (char_of (10 :: nat), r2)
          else if d = CHR ''f'' then Some (char_of (12 :: nat), r2)
          else if d = CHR ''r'' then Some (char_of (13 :: nat), r2)
          else (case r2 of
              _ # _ # h # l # r3 \<Rightarrow> Some (char_of (16 * digit_val h + digit_val l), r3)
            | _ \<Rightarrow> None)))"

lemma of_char_eq: "(of_char c :: nat) = n \<Longrightarrow> c = char_of n"
  by (metis char_of_char)

lemma digit_val_hex: "n < 16 \<Longrightarrow> digit_val (hex_digit n) = n"
  by (simp add: digit_val_def hex_digit_def Let_def)

lemma json_unescape_escape: "json_unescape (json_escape c @ r) = Some (c, r)"
proof -
  define n where "n = (of_char c :: nat)"
  then have c: "c = char_of n" by simp
  have "n < 256" by (simp add: n_def)
  have hex: "16 * digit_val (hex_digit (n div 16)) + digit_val (hex_digit (n mod 16)) = n" if "n < 32"
    using that by (simp add: digit_val_hex)
  have plain: "c \<noteq> CHR 0x22 \<and> c \<noteq> CHR 0x5C" if "n \<noteq> 0x22" "n \<noteq> 0x5C"
    using that by (auto simp: n_def)
  consider (q) "n = 0x22 \<or> n = 0x5C" | (s) "n = 8 \<or> n = 9 \<or> n = 10 \<or> n = 12 \<or> n = 13"
    | (u) "n < 32" "n \<notin> {8, 9, 10, 12, 13}"
    | (p) "n \<ge> 32" "n \<noteq> 0x22" "n \<noteq> 0x5C"
    by fastforce
  then show ?thesis
  proof cases
    case q
    then have "(of_char c :: nat) = of_char (CHR 0x22) \<or> (of_char c :: nat) = of_char (CHR 0x5C)"
      by (simp add: n_def)
    then have "c = CHR 0x22 \<or> c = CHR 0x5C" by (simp only: of_char_eq_iff)
    then show ?thesis by (auto simp: json_escape_def)
  next
    case s
    then show ?thesis by (auto simp: json_escape_def Let_def n_def [symmetric] c)
  next
    case u
    then show ?thesis using hex by (simp add: json_escape_def Let_def n_def [symmetric] c)
  next
    case p
    then show ?thesis using plain by (simp add: json_escape_def Let_def n_def [symmetric])
  qed
qed

lemma json_escape_inj:
  "json_escape c @ r = json_escape d @ r' \<Longrightarrow> c = d \<and> r = r'"
  by (metis json_unescape_escape option.inject prod.inject)

lemma json_escape_not_quote: "json_escape c @ r \<noteq> CHR 0x22 # r'"
proof
  assume "json_escape c @ r = CHR 0x22 # r'"
  then have "json_unescape (CHR 0x22 # r') = Some (c, r)" by (metis json_unescape_escape)
  then show False by simp
qed

lemma json_body_inj:
  "concat (map json_escape s) @ CHR 0x22 # r = concat (map json_escape t) @ CHR 0x22 # r'
     \<Longrightarrow> s = t \<and> r = r'"
proof (induction s arbitrary: t)
  case Nil
  then show ?case
    by (cases t) (auto dest: json_escape_not_quote [THEN notE, OF sym])
next
  case (Cons c s)
  show ?case
  proof (cases t)
    case Nil
    with Cons.prems show ?thesis using json_escape_not_quote by fastforce
  next
    case (Cons d t')
    with Cons.prems json_escape_inj
    have "c = d" "concat (map json_escape s) @ CHR 0x22 # r = concat (map json_escape t') @ CHR 0x22 # r'"
      by fastforce+
    with Cons.IH Cons show ?thesis by blast
  qed
qed

lemma json_quote_inj: "json_quote s @ r = json_quote t @ r' \<Longrightarrow> s = t \<and> r = r'"
  using json_body_inj [of s r t r'] by (simp add: json_quote_def)

lemma json_quote_eq [simp]: "json_quote s = json_quote t \<longleftrightarrow> s = t"
  using json_quote_inj [of s "[]" t "[]"] by auto

section \<open>Values\<close>

fun join :: "string \<Rightarrow> string list \<Rightarrow> string" where
  "join sep [] = []"
| "join sep [x] = x"
| "join sep (x # y # ys) = x @ sep @ join sep (y # ys)"

definition string_of_int :: "int \<Rightarrow> string" where
  "string_of_int i = (if i < 0 then ''-'' else []) @ string_of_nat (nat \<bar>i\<bar>)"

fun json_stringify :: "(rat \<Rightarrow> string) \<Rightarrow> jsval \<Rightarrow> string option" where
  "json_stringify ns JUndef = None"
| "json_stringify ns JNull = Some ''null''"
| "json_stringify ns (JBool b) = Some (if b then ''true'' else ''false'')"
| "json_stringify ns (JNum n) = Some (case n of Fin q \<Rightarrow> ns q | _ \<Rightarrow> ''null'')"
| "json_stringify ns (JStr s) = Some (json_quote s)"
| "json_stringify ns (JArr vs) =
     Some (''['' @ join '','' (map (\<lambda>v. nullish (json_stringify ns v) ''null'') vs) @ '']'')"
| "json_stringify ns (JObj ps) =
     Some (CHR 0x7B # join '','' (concat (map (\<lambda>(k, v).
        case json_stringify ns v of None \<Rightarrow> [] | Some t \<Rightarrow> [json_quote k @ '':'' @ t]) ps)) @ [CHR 0x7D])"

text \<open>Values JSON represents without loss: no \<open>undefined\<close>, no infinity, no \<open>NaN\<close>.\<close>

fun json_clean :: "jsval \<Rightarrow> bool" where
  "json_clean JUndef = False"
| "json_clean (JNum n) = is_finite n"
| "json_clean (JArr vs) = list_all json_clean vs"
| "json_clean (JObj ps) = list_all (\<lambda>(_, v). json_clean v) ps"
| "json_clean _ = True"

definition number_chars :: "char set" where
  "number_chars = set ''0123456789+-.e''"

definition num_printer :: "(rat \<Rightarrow> string) \<Rightarrow> bool" where
  "num_printer ns \<longleftrightarrow> inj ns \<and> (\<forall>q. ns q \<noteq> [] \<and> set (ns q) \<subseteq> number_chars)"

section \<open>The text determines the value\<close>

text \<open>The text of a clean value, and what may follow a value inside a larger text.\<close>

definition txt_of :: "(rat \<Rightarrow> string) \<Rightarrow> jsval \<Rightarrow> string" where
  "txt_of ns v = nullish (json_stringify ns v) ''null''"

definition ends_value :: "string \<Rightarrow> bool" where
  "ends_value r \<longleftrightarrow> (case r of [] \<Rightarrow> True | c # _ \<Rightarrow> c \<in> {CHR '','', CHR '']'', CHR 0x7D})"

lemma stringify_clean: "json_clean v \<Longrightarrow> json_stringify ns v = Some (txt_of ns v)"
  by (cases v) (simp_all add: txt_of_def)

lemma txt_of_simps:
  "txt_of ns JNull = ''null''" "txt_of ns (JBool b) = (if b then ''true'' else ''false'')"
  "txt_of ns (JNum (Fin q)) = ns q" "txt_of ns (JStr s) = json_quote s"
  "txt_of ns (JArr vs) = ''['' @ join '','' (map (txt_of ns) vs) @ '']''"
  by (simp_all add: txt_of_def [abs_def])

lemma txt_of_obj:
  assumes "list_all (\<lambda>(_, v). json_clean v) ps"
  shows "txt_of ns (JObj ps) =
    CHR 0x7B # join '','' (map (\<lambda>(k, v). json_quote k @ '':'' @ txt_of ns v) ps) @ [CHR 0x7D]"
proof -
  from assms have "concat (map (\<lambda>(k, v). case json_stringify ns v of None \<Rightarrow> []
      | Some t \<Rightarrow> [json_quote k @ '':'' @ t]) ps) = map (\<lambda>(k, v). json_quote k @ '':'' @ txt_of ns v) ps"
    by (induction ps) (auto simp: stringify_clean)
  then show ?thesis by (simp add: txt_of_def)
qed

lemma join_nonempty: "x \<noteq> [] \<Longrightarrow> join sep (x # xs) \<noteq> []"
  by (cases xs) auto

text \<open>
  A comma-separated list is read back element by element, when each element is: two lists
  whose texts agree up to a closing bracket have the same elements.
\<close>

lemma join_inj:
  assumes "\<And>x y r r'. x \<in> set xs \<Longrightarrow> y \<in> set ys \<Longrightarrow> f x @ r = f y @ r' \<Longrightarrow> ends_value r \<Longrightarrow>
      ends_value r' \<Longrightarrow> x = y \<and> r = r'"
    and "\<And>x. x \<in> set xs \<union> set ys \<Longrightarrow> f x \<noteq> [] \<and> hd (f x) \<noteq> b"
    and "b \<in> {CHR '']'', CHR 0x7D}"
    and "join '','' (map f xs) @ b # r = join '','' (map f ys) @ b # r'"
  shows "xs = ys \<and> r = r'"
  using assms
proof (induction xs arbitrary: ys)
  case Nil
  show ?case
  proof (cases ys)
    case (Cons y ys')
    with Nil.prems(2) [of y] obtain c t where "f y = c # t" "c \<noteq> b" by (cases "f y") auto
    with Nil.prems(4) Cons show ?thesis by (cases ys') auto
  qed (use Nil in simp)
next
  case (Cons x xs)
  show ?case
  proof (cases ys)
    case Nil
    from Cons.prems(2) [of x] obtain c t where "f x = c # t" "c \<noteq> b" by (cases "f x") auto
    with Cons.prems(4) Nil show ?thesis by (cases xs) auto
  next
    case (Cons y ys')
    define rest where "rest zs w = (if zs = [] then b # w else '','' @ join '','' (map f zs) @ b # w)" for zs w
    have split: "join '','' (map f (z # zs)) @ b # w = f z @ rest zs w" for z zs w
      by (cases zs) (simp_all add: rest_def)
    have ends: "ends_value (rest zs w)" for zs w
      using Cons.prems(3) by (auto simp: rest_def ends_value_def)
    from Cons.prems(4) have "f x @ rest xs r = f y @ rest ys' r'"
      unfolding Cons using split by metis
    with Cons.prems(1) [of x y] ends Cons have "x = y" and rest: "rest xs r = rest ys' r'" by auto
    have tails: "join '','' (map f xs) @ b # r = join '','' (map f ys') @ b # r'"
      using rest Cons.prems(3) by (auto simp: rest_def split: if_splits)
    have "xs = ys' \<and> r = r'"
      by (rule Cons.IH [OF _ _ Cons.prems(3) tails]) (use Cons.prems(1,2) Cons in auto)
    with \<open>x = y\<close> Cons show ?thesis by simp
  qed
qed

text \<open>The first character of a text tells which kind of value it is.\<close>

fun starts_value :: "jsval \<Rightarrow> char \<Rightarrow> bool" where
  "starts_value JUndef c = False"
| "starts_value JNull c = (c = CHR ''n'')"
| "starts_value (JBool b) c = (c = (if b then CHR ''t'' else CHR ''f''))"
| "starts_value (JNum _) c = (c \<in> number_chars)"
| "starts_value (JStr _) c = (c = CHR 0x22)"
| "starts_value (JArr _) c = (c = CHR ''['')"
| "starts_value (JObj _) c = (c = CHR 0x7B)"

lemma txt_of_starts:
  assumes "num_printer ns" and "json_clean v"
  obtains c t where "txt_of ns v = c # t" "starts_value v c"
proof (cases v)
  case (JNum n)
  with assms obtain q where n: "n = Fin q" by (cases n) auto
  from assms(1) have "ns q \<noteq> []" "set (ns q) \<subseteq> number_chars" by (auto simp: num_printer_def)
  then obtain c t where "ns q = c # t" "c \<in> number_chars" by (cases "ns q") auto
  with that JNum n show ?thesis by (simp add: txt_of_simps)
next
  case (JObj ps)
  with assms that show ?thesis by (simp add: txt_of_obj)
next
  case (JBool b)
  with that show ?thesis by (cases b) (simp_all add: txt_of_simps)
qed (use assms that in \<open>auto simp: txt_of_simps json_quote_def\<close>)

lemma starts_value_kind:
  "starts_value v c \<Longrightarrow> starts_value w c \<Longrightarrow>
     (\<exists>n m. v = JNum n \<and> w = JNum m) \<or> (\<exists>xs ys. v = JArr xs \<and> w = JArr ys) \<or>
     (\<exists>ps qs. v = JObj ps \<and> w = JObj qs) \<or> (\<exists>s t. v = JStr s \<and> w = JStr t) \<or> v = w"
  by (cases v; cases w; simp add: number_chars_def split: if_splits; elim disjE; simp)

lemma number_inj:
  assumes "num_printer ns" and "ns q @ r = ns q' @ r'" and "ends_value r" and "ends_value r'"
  shows "q = q' \<and> r = r'"
proof -
  have tw: "takeWhile (\<lambda>c. c \<in> number_chars) (ns q @ r) = ns q" if "ends_value r" for q r
  proof -
    have "takeWhile (\<lambda>c. c \<in> number_chars) r = []"
      using that by (cases r) (auto simp: ends_value_def number_chars_def)
    moreover have "\<forall>c \<in> set (ns q). c \<in> number_chars"
      using assms(1) by (auto simp: num_printer_def)
    ultimately show ?thesis by (simp add: takeWhile_append)
  qed
  from tw [OF assms(3)] tw [OF assms(4)] assms(2) have "ns q = ns q'" by metis
  with assms(1,2) show ?thesis by (auto simp: num_printer_def dest: injD)
qed

theorem txt_of_inj:
  assumes "num_printer ns"
  shows "json_clean v \<Longrightarrow> json_clean w \<Longrightarrow> txt_of ns v @ r = txt_of ns w @ r' \<Longrightarrow>
    ends_value r \<Longrightarrow> ends_value r' \<Longrightarrow> v = w \<and> r = r'"
proof (induction v arbitrary: w r r' rule: measure_induct_rule [of size])
  case (less v)
  obtain c t where v: "txt_of ns v = c # t" "starts_value v c"
    using txt_of_starts [OF assms less.prems(1)] .
  obtain d u where w: "txt_of ns w = d # u" "starts_value w d"
    using txt_of_starts [OF assms less.prems(2)] .
  from v w less.prems(3) have "starts_value w c" by simp
  from starts_value_kind [OF v(2) this] show ?case
  proof (elim disjE exE conjE)
    fix n m assume a: "v = JNum n" "w = JNum m"
    with less.prems(1,2) obtain q q' where "n = Fin q" "m = Fin q'"
      by (cases n; cases m; simp)
    with a less.prems(3-5) number_inj [OF assms, of q r q' r'] show ?thesis
      by (simp add: txt_of_simps)
  next
    fix s t assume "v = JStr s" "w = JStr t"
    with less.prems(3) json_quote_inj [of s r t r'] show ?thesis by (simp add: txt_of_simps)
  next
    fix xs ys assume a: "v = JArr xs" "w = JArr ys"
    have "xs = ys \<and> r = r'"
    proof (rule join_inj [where f = "txt_of ns" and b = "CHR '']''"])
      fix x y r r' assume "x \<in> set xs" "y \<in> set ys"
        "txt_of ns x @ r = txt_of ns y @ r'" "ends_value r" "ends_value r'"
      moreover have "size x < size v" using \<open>x \<in> set xs\<close> a by (simp add: size_list_estimation' less_Suc_eq_le)
      moreover have "json_clean x" "json_clean y"
        using \<open>x \<in> set xs\<close> \<open>y \<in> set ys\<close> less.prems(1,2) a by (auto simp: list_all_iff)
      ultimately show "x = y \<and> r = r'" using less.IH [of x y r r'] by simp
    next
      fix x assume "x \<in> set xs \<union> set ys"
      with less.prems(1,2) a have "json_clean x" by (auto simp: list_all_iff)
      with assms obtain c t where "txt_of ns x = c # t" "starts_value x c" by (rule txt_of_starts)
      then show "txt_of ns x \<noteq> [] \<and> hd (txt_of ns x) \<noteq> CHR '']''"
        by (cases x) (auto simp: number_chars_def split: if_splits)
    qed (use less.prems(3) a in \<open>auto simp: txt_of_simps\<close>)
    with a show ?thesis by simp
  next
    fix ps qs assume a: "v = JObj ps" "w = JObj qs"
    have "ps = qs \<and> r = r'"
    proof (rule join_inj [where f = "\<lambda>(k, v). json_quote k @ '':'' @ txt_of ns v" and b = "CHR 0x7D"])
      fix x y r r' assume m: "x \<in> set ps" "y \<in> set qs" "ends_value r" "ends_value r'"
        "(case x of (k, v) \<Rightarrow> json_quote k @ '':'' @ txt_of ns v) @ r =
         (case y of (k, v) \<Rightarrow> json_quote k @ '':'' @ txt_of ns v) @ r'"
      obtain k a' l b' where xy: "x = (k, a')" "y = (l, b')" by (cases x; cases y)
      from m(5) xy json_quote_inj [of k "'':'' @ txt_of ns a' @ r" l "'':'' @ txt_of ns b' @ r'"]
      have "k = l" "txt_of ns a' @ r = txt_of ns b' @ r'" by simp_all
      moreover have "size a' < size v"
        using m(1) a xy by (auto simp: less_Suc_eq_le intro!: size_list_estimation')
      moreover have "json_clean a'" "json_clean b'"
        using m(1,2) less.prems(1,2) a xy by (auto simp: list_all_iff)
      ultimately show "x = y \<and> r = r'" using less.IH [of a' b' r r'] m(3,4) xy by simp
    next
      show "(case x of (k, v) \<Rightarrow> json_quote k @ '':'' @ txt_of ns v) \<noteq> [] \<and>
          hd (case x of (k, v) \<Rightarrow> json_quote k @ '':'' @ txt_of ns v) \<noteq> CHR 0x7D" for x
        by (cases x) (simp add: json_quote_def)
    qed (use less.prems(1-3) a in \<open>auto simp: txt_of_obj\<close>)
    with a show ?thesis by simp
  next
    assume "v = w"
    with less.prems(3) show ?thesis by simp
  qed
qed

corollary json_stringify_inj:
  assumes "num_printer ns" and "json_clean v" and "json_clean w"
    and "json_stringify ns v = json_stringify ns w"
  shows "v = w"
  using txt_of_inj [OF assms(1-3), of "[]" "[]"] assms(4) stringify_clean [OF assms(2), of ns]
    stringify_clean [OF assms(3), of ns]
  by (simp add: ends_value_def)

section \<open>A number printer\<close>

text \<open>
  A printer with the two properties, for concrete evaluations: integers as JavaScript prints
  them, other rationals as numerator and denominator with an \<open>e\<close> between.
\<close>

definition plain_number :: "rat \<Rightarrow> string" where
  "plain_number q =
     (case quotient_of q of
        (n, d) \<Rightarrow> (if n < 0 then ''-'' else []) @ string_of_nat (nat \<bar>n\<bar>) @
                  (if d = 1 then [] else ''e'' @ string_of_nat (nat d)))"

lemma string_of_nat_digits: "set (string_of_nat n) \<subseteq> {c. is_digit c}"
proof (induction n rule: string_of_nat.induct)
  case (1 n)
  then show ?case
    by (subst string_of_nat.simps) (auto simp: is_digit_def Let_def)
qed

lemma string_of_nat_nonempty [simp]: "string_of_nat n \<noteq> []"
  by (subst string_of_nat.simps) simp

lemma digits_val_snoc: "digits_val b (s @ [c]) = b * digits_val b s + digit_val c"
  by (simp add: digits_val_def)

lemma digits_val_string_of_nat: "digits_val 10 (string_of_nat n) = n"
proof (induction n rule: string_of_nat.induct)
  case (1 n)
  have d: "digit_val (char_of (48 + m)) = m" if "m < 10" for m :: nat
    using that by (simp add: digit_val_def Let_def)
  show ?case
  proof (cases "n < 10")
    case True
    then show ?thesis using d [of n] by (subst string_of_nat.simps) (simp add: digits_val_def)
  next
    case False
    then show ?thesis using 1 d [of "n mod 10"]
      by (subst string_of_nat.simps) (simp add: digits_val_snoc)
  qed
qed

lemma string_of_nat_inj [simp]: "string_of_nat m = string_of_nat n \<longleftrightarrow> m = n"
  by (metis digits_val_string_of_nat)

lemma digit_number_char: "is_digit c \<Longrightarrow> c \<in> number_chars"
proof -
  assume "is_digit c"
  moreover have "n \<in> {48, 49, 50, 51, 52, 53, 54, 55, 56, 57}" if "48 \<le> n" "n \<le> 57" for n :: nat
    using that unfolding insert_iff empty_iff by presburger
  ultimately have "(of_char c :: nat) \<in> {48, 49, 50, 51, 52, 53, 54, 55, 56, 57}"
    unfolding is_digit_def Let_def by blast
  then have "(of_char c :: nat) \<in> of_char ` set ''0123456789''" by simp
  then obtain d where "(of_char c :: nat) = of_char d" "d \<in> set ''0123456789''" by (elim imageE)
  then show ?thesis unfolding of_char_eq_iff by (auto simp: number_chars_def)
qed

lemma plain_number_printer: "num_printer plain_number"
proof -
  have cut: "takeWhile is_digit (string_of_nat n @ (if P then [] else ''e'' @ t)) = string_of_nat n" for n P t
    using string_of_nat_digits [of n]
    by (auto simp: takeWhile_append is_digit_def Let_def takeWhile_eq_all_conv)
  have "inj plain_number"
  proof (rule injI)
    fix p q assume e: "plain_number p = plain_number q"
    obtain n d where p: "quotient_of p = (n, d)" by fastforce
    obtain m f where q: "quotient_of q = (m, f)" by fastforce
    from p q have pos: "0 < d" "0 < f" by (auto dest: quotient_of_denom_pos)
    have hd: "string_of_nat k @ t \<noteq> CHR ''-'' # u" for k t u
      using string_of_nat_digits [of k] by (cases "string_of_nat k") (auto simp: is_digit_def Let_def)
    let ?b = "\<lambda>n d. string_of_nat (nat \<bar>n\<bar>) @ (if d = 1 then [] else ''e'' @ string_of_nat (nat d))"
    have shown: "plain_number p = (if n < 0 then ''-'' else []) @ ?b n d"
      "plain_number q = (if m < 0 then ''-'' else []) @ ?b m f"
      using p q by (simp_all add: plain_number_def)
    have sign: "n < 0 \<longleftrightarrow> m < 0"
    proof (cases "n < 0")
      case True
      with e shown hd [of "nat \<bar>m\<bar>" "if f = 1 then [] else ''e'' @ string_of_nat (nat f)" "?b n d"] show ?thesis by (cases "m < 0") simp_all
    next
      case False
      with e shown hd [of "nat \<bar>n\<bar>" "if d = 1 then [] else ''e'' @ string_of_nat (nat d)" "?b m f"] show ?thesis by (cases "m < 0") simp_all
    qed
    with e p q have body: "string_of_nat (nat \<bar>n\<bar>) @ (if d = 1 then [] else ''e'' @ string_of_nat (nat d)) =
        string_of_nat (nat \<bar>m\<bar>) @ (if f = 1 then [] else ''e'' @ string_of_nat (nat f))"
      by (auto simp: plain_number_def)
    then have "string_of_nat (nat \<bar>n\<bar>) = string_of_nat (nat \<bar>m\<bar>)" using cut by metis
    with sign have "n = m" by auto
    moreover from body \<open>n = m\<close> pos have "d = f" by (auto split: if_splits)
    ultimately show "p = q" using p q by (metis quotient_of_div)
  qed
  moreover have "plain_number q \<noteq> [] \<and> set (plain_number q) \<subseteq> number_chars" for q
    using string_of_nat_digits digit_number_char
    by (auto simp: plain_number_def split: prod.splits if_splits) (auto simp: number_chars_def)
  ultimately show ?thesis by (simp add: num_printer_def)
qed

section \<open>Snapshots\<close>

text \<open>
  The image of a value under \<open>JSON.stringify\<close> and \<open>JSON.parse\<close>, as stores that keep snapshots return it:
  members that are \<open>undefined\<close> are dropped, numbers that are not finite become \<open>null\<close>.
\<close>

fun json_image :: "jsval \<Rightarrow> jsval option" where
  "json_image JUndef = None"
| "json_image (JNum n) = Some (if is_finite n then JNum n else JNull)"
| "json_image (JArr vs) = Some (JArr (map (\<lambda>v. nullish (json_image v) JNull) vs))"
| "json_image (JObj ps) =
     Some (JObj (concat (map (\<lambda>(k, v). case json_image v of None \<Rightarrow> [] | Some w \<Rightarrow> [(k, w)]) ps)))"
| "json_image v = Some v"

lemma json_image_clean: "json_clean v \<Longrightarrow> json_image v = Some v"
proof (induction v rule: json_clean.induct)
  case (3 vs)
  then have "map (\<lambda>v. nullish (json_image v) JNull) vs = map (\<lambda>v. v) vs"
    by (intro map_cong) (auto simp: list_all_iff)
  then show ?case by simp
next
  case (4 ps)
  have "concat (map (\<lambda>(k, v). case json_image v of None \<Rightarrow> [] | Some w \<Rightarrow> [(k, w)]) ps) = ps"
    using 4 by (induction ps) fastforce+
  then show ?case by simp
qed simp_all

text \<open>What a snapshot holds is a JSON value.\<close>

lemma json_image_is_clean: "json_image v = Some w \<Longrightarrow> json_clean w"
proof (induction v arbitrary: w rule: json_image.induct)
  case (3 vs)
  then have "json_clean (nullish (json_image v) JNull)" if "v \<in> set vs" for v
    using that by (cases "json_image v") auto
  with "3.prems" show ?case by (auto simp: list_all_iff)
next
  case (4 ps)
  then have "case json_image v of None \<Rightarrow> True | Some w \<Rightarrow> json_clean w" if "(k, v) \<in> set ps" for k v
    using that by (auto split: option.splits)
  with "4.prems" show ?case
    by (fastforce simp: list_all_iff split: option.splits)
qed (auto split: if_splits)

end
