(* ===== verification/Hash_Chain.thy ===== *)
theory Hash_Chain
  imports Json_Text "HOL-Library.List_Lexorder" "HOL-Library.Char_ord"
begin

text \<open>
  The tamper-evident audit chain, \<open>packages/core/src/audit/hash-chain-audit.sink.ts\<close>:
  canonical serialization, the chaining sink, and the verification of a stored chain. The
  hash function, \<open>String(number)\<close> and \<open>Date.toISOString\<close> are parameters. Values are trees, so
  the marker for cyclic objects has no counterpart here.
\<close>

section \<open>Canonical serialization\<close>

text \<open>
  A JavaScript value as \<open>serialize\<close> tells them apart. \<open>COther\<close> is a function or a symbol, a
  date is its time value (\<open>None\<close> when invalid).
\<close>

datatype cval =
    CUndef
  | CNull
  | CBool bool
  | CNum jsnum
  | CStr string
  | CBigInt int
  | COther
  | CDate "int option"
  | CArr "cval list"
  | CMap "(cval \<times> cval) list"
  | CSet "cval list"
  | CObj "(string \<times> cval) list"

record printers =
  num_text :: "rat \<Rightarrow> string"
  iso_text :: "int \<Rightarrow> string"

definition braces :: "string \<Rightarrow> string" where
  "braces s = CHR 0x7B # s @ [CHR 0x7D]"

text \<open>
  An object is its list of own properties, each key once. Keys with the value \<open>undefined\<close>
  are dropped and the others sorted by code units.
\<close>

fun serialize :: "printers \<Rightarrow> cval \<Rightarrow> string" where
  "serialize P CNull = ''null''"
| "serialize P (CStr s) = json_quote s"
| "serialize P (CNum n) = (case n of Fin q \<Rightarrow> num_text P q | _ \<Rightarrow> ''null'')"
| "serialize P (CBool b) = (if b then ''true'' else ''false'')"
| "serialize P CUndef = ''null''"
| "serialize P (CBigInt i) = json_quote (string_of_int i)"
| "serialize P COther = ''null''"
| "serialize P (CDate d) = (case d of None \<Rightarrow> ''null'' | Some t \<Rightarrow> json_quote (iso_text P t))"
| "serialize P (CArr vs) = ''['' @ join '','' (map (serialize P) vs) @ '']''"
| "serialize P (CMap kvs) =
     braces (join '','' (map (\<lambda>(k, v). k @ '':'' @ v)
       (sort_key fst (map (\<lambda>(k, v). (serialize P k, serialize P v)) kvs))))"
| "serialize P (CSet vs) = ''['' @ join '','' (sort (map (serialize P) vs)) @ '']''"
| "serialize P (CObj ps) =
     braces (join '','' (map (\<lambda>(k, t). json_quote k @ '':'' @ t)
       (sort_key fst (map (\<lambda>(k, v). (k, serialize P v)) (filter (\<lambda>(k, v). v \<noteq> CUndef) ps)))))"

definition canonicalize :: "printers \<Rightarrow> cval \<Rightarrow> string" where
  "canonicalize P v = serialize P v"

section \<open>The chain\<close>

record ChainedAuditEntry =
  sequence :: int
  event :: cval
  previousHash :: string
  hash :: string

definition AUDIT_CHAIN_GENESIS_HASH :: string where
  "AUDIT_CHAIN_GENESIS_HASH = replicate 64 (CHR ''0'')"

text \<open>\<open>hf algorithm input\<close> is the hexadecimal digest.\<close>

type_synonym hash_function = "string \<Rightarrow> string \<Rightarrow> string"

definition computeEntryHash :: "hash_function \<Rightarrow> printers \<Rightarrow> string \<Rightarrow> cval \<Rightarrow> string \<Rightarrow> string" where
  "computeEntryHash hf P prev ev algorithm = hf algorithm (prev @ CHR 0x00 # canonicalize P ev)"

record HashChainAuditSink =
  algorithm :: string
  headHash :: string
  headSequence :: int

record HashChainAuditSinkOptions =
  o_previousHash :: "string option"
  o_startSequence :: "jsnum option"
  o_algorithm :: "string option"

definition new_sink :: "HashChainAuditSinkOptions \<Rightarrow> (string, HashChainAuditSink) result" where
  "new_sink opts =
     (let startSequence = nullish (o_startSequence opts) (Fin 0) in
      if \<not> is_integer startSequence \<or> js_lt startSequence (Fin 0)
      then Inl ''HashChainAuditSink: startSequence must be a non-negative integer''
      else Inr \<lparr>algorithm = nullish (o_algorithm opts) ''sha256'',
                headHash = nullish (o_previousHash opts) AUDIT_CHAIN_GENESIS_HASH,
                headSequence = int_of startSequence\<rparr>)"

text \<open>
  One \<open>record\<close> call, after the calls before it have completed. The destination takes an entry
  and says whether it stored it; the head advances only then.
\<close>

definition chain_record ::
    "hash_function \<Rightarrow> printers \<Rightarrow> (ChainedAuditEntry \<Rightarrow> 'd \<Rightarrow> bool \<times> 'd) \<Rightarrow> cval
       \<Rightarrow> HashChainAuditSink \<times> 'd \<Rightarrow> bool \<times> HashChainAuditSink \<times> 'd" where
  "chain_record hf P put ev s =
     (case s of (sink, d) \<Rightarrow>
        (let seq = headSequence sink + 1;
             h = computeEntryHash hf P (headHash sink) ev (algorithm sink)
         in case put \<lparr>sequence = seq, event = ev, previousHash = headHash sink, hash = h\<rparr> d of
              (True, d') \<Rightarrow> (True, sink\<lparr>headSequence := seq, headHash := h\<rparr>, d')
            | (False, d') \<Rightarrow> (False, sink, d')))"

fun record_all ::
    "hash_function \<Rightarrow> printers \<Rightarrow> (ChainedAuditEntry \<Rightarrow> 'd \<Rightarrow> bool \<times> 'd) \<Rightarrow> cval list
       \<Rightarrow> HashChainAuditSink \<times> 'd \<Rightarrow> HashChainAuditSink \<times> 'd" where
  "record_all hf P put [] s = s"
| "record_all hf P put (e # es) s = record_all hf P put es (snd (chain_record hf P put e s))"

text \<open>\<open>InMemoryChainedAuditSink\<close>, and a destination whose writes fail as a script says.\<close>

definition mem_write :: "ChainedAuditEntry \<Rightarrow> ChainedAuditEntry list \<Rightarrow> bool \<times> ChainedAuditEntry list" where
  "mem_write entry entries = (True, entries @ [entry])"

definition scripted_write ::
    "ChainedAuditEntry \<Rightarrow> bool list \<times> ChainedAuditEntry list
       \<Rightarrow> bool \<times> bool list \<times> ChainedAuditEntry list" where
  "scripted_write entry d =
     (case d of
        (False # oks, entries) \<Rightarrow> (False, oks, entries)
      | (oks, entries) \<Rightarrow> (True, tl oks, entries @ [entry]))"

section \<open>Verification\<close>

datatype AuditChainVerification =
    Valid (verified: nat)
  | Invalid (brokenAt: int) (reason: string) (verified: nat)

fun verify_from ::
    "hash_function \<Rightarrow> printers \<Rightarrow> string \<Rightarrow> string \<Rightarrow> int \<Rightarrow> nat \<Rightarrow> ChainedAuditEntry list
       \<Rightarrow> AuditChainVerification" where
  "verify_from hf P alg expectedPrevious expectedSequence n [] = Valid n"
| "verify_from hf P alg expectedPrevious expectedSequence n (entry # entries) =
     (if sequence entry \<noteq> expectedSequence
      then Invalid (sequence entry)
             (''sequence gap: expected '' @ string_of_int expectedSequence @ '', found '' @
              string_of_int (sequence entry) @ '' (an entry was deleted or reordered)'') n
      else if previousHash entry \<noteq> expectedPrevious
      then Invalid (sequence entry)
             ''previousHash does not match the preceding entry (the chain was re-linked)'' n
      else if computeEntryHash hf P (previousHash entry) (event entry) alg \<noteq> hash entry
      then Invalid (sequence entry)
             ''hash does not match the recorded event (the entry was altered)'' n
      else verify_from hf P alg (hash entry) (expectedSequence + 1) (n + 1) entries)"

definition verifyAuditChain ::
    "hash_function \<Rightarrow> printers \<Rightarrow> string option \<Rightarrow> string option \<Rightarrow> int option
       \<Rightarrow> ChainedAuditEntry list \<Rightarrow> AuditChainVerification" where
  "verifyAuditChain hf P alg prev start entries =
     verify_from hf P (nullish alg ''sha256'') (nullish prev AUDIT_CHAIN_GENESIS_HASH)
       (nullish start 0 + 1) 0 entries"

section \<open>Canonical text and content\<close>

text \<open>
  The content of a value, for values without maps and sets: what is left when undefined
  properties are dropped, keys are sorted, dates are written out, and whatever JSON cannot
  express is \<open>null\<close>.
\<close>

fun plain_value :: "cval \<Rightarrow> bool" where
  "plain_value (CMap _) = False"
| "plain_value (CSet _) = False"
| "plain_value (CArr vs) = list_all plain_value vs"
| "plain_value (CObj ps) = list_all (\<lambda>(k, v). plain_value v) ps"
| "plain_value _ = True"

fun content_of :: "printers \<Rightarrow> cval \<Rightarrow> jsval" where
  "content_of P (CStr s) = JStr s"
| "content_of P (CNum n) = (if is_finite n then JNum n else JNull)"
| "content_of P (CBool b) = JBool b"
| "content_of P (CBigInt i) = JStr (string_of_int i)"
| "content_of P (CDate d) = (case d of None \<Rightarrow> JNull | Some t \<Rightarrow> JStr (iso_text P t))"
| "content_of P (CArr vs) = JArr (map (content_of P) vs)"
| "content_of P (CObj ps) =
     JObj (sort_key fst (map (\<lambda>(k, v). (k, content_of P v)) (filter (\<lambda>(k, v). v \<noteq> CUndef) ps)))"
| "content_of P _ = JNull"

lemma insort_map_snd:
  "insort_key fst (k, f v) (map (\<lambda>(k, v). (k, f v)) xs) = map (\<lambda>(k, v). (k, f v)) (insort_key fst (k, v) xs)"
  by (induction xs) auto

lemma sort_map_snd:
  "sort_key fst (map (\<lambda>(k, v). (k, f v)) xs) = map (\<lambda>(k, v). (k, f v)) (sort_key fst xs)"
  by (induction xs) (auto simp: insort_map_snd)

lemma content_clean: "json_clean (content_of P v)"
proof (induction P v rule: content_of.induct)
  case (7 P ps)
  then show ?case by (auto simp: list_all_iff)
qed (auto simp: list_all_iff split: option.splits)

lemma serialize_content: "plain_value v \<Longrightarrow> serialize P v = txt_of (num_text P) (content_of P v)"
proof (induction P v rule: serialize.induct)
  case (3 P n)
  then show ?case by (cases n) (simp_all add: txt_of_simps)
next
  case (9 P vs)
  then have "map (serialize P) vs = map (\<lambda>v. txt_of (num_text P) (content_of P v)) vs"
    by (auto simp: list_all_iff)
  then show ?case by (simp add: txt_of_simps comp_def cong: map_cong)
next
  case (12 P ps)
  let ?qs = "filter (\<lambda>(k, v). v \<noteq> CUndef) ps"
  let ?t = "\<lambda>v. txt_of (num_text P) (content_of P v)"
  have "map (\<lambda>(k, v). (k, serialize P v)) ?qs = map (\<lambda>(k, v). (k, ?t v)) ?qs"
    using 12 by (auto simp: list_all_iff)
  then have "serialize P (CObj ps) = braces (join '','' (map (\<lambda>(k, t). json_quote k @ '':'' @ t)
      (map (\<lambda>(k, v). (k, ?t v)) (sort_key fst ?qs))))"
    by (simp only: serialize.simps sort_map_snd)
  moreover have "list_all (\<lambda>(_, v). json_clean v) (map (\<lambda>(k, v). (k, content_of P v)) (sort_key fst ?qs))"
    by (auto simp: list_all_iff content_clean)
  from txt_of_obj [OF this, of "num_text P"]
  have "txt_of (num_text P) (content_of P (CObj ps)) =
      braces (join '','' (map (\<lambda>(k, v). json_quote k @ '':'' @ txt_of (num_text P) v)
        (map (\<lambda>(k, v). (k, content_of P v)) (sort_key fst ?qs))))"
    by (simp only: content_of.simps sort_map_snd braces_def)
  ultimately show ?case by (simp add: comp_def case_prod_beta')
qed (auto simp: txt_of_simps split: option.splits)

text \<open>
  C22: canonical serialization identifies content. Two values without maps and sets are
  serialized to the same text exactly when they have the same content: key order and
  undefined properties do not matter, and nothing else is lost.
\<close>

theorem canonicalize_identifies_content:
  assumes "num_printer (num_text P)" and "plain_value v" and "plain_value w"
  shows "canonicalize P v = canonicalize P w \<longleftrightarrow> content_of P v = content_of P w"
  using txt_of_inj [OF assms(1) content_clean content_clean, of P v "[]" P w "[]"] assms(2,3)
  by (auto simp: canonicalize_def serialize_content ends_value_def)

definition sample_printers :: printers where
  "sample_printers = \<lparr>num_text = plain_number, iso_text = string_of_int\<rparr>"

theorem canonicalize_identifies_content_witness:
  "canonicalize sample_printers (CObj [(''b'', CNum (Fin 1)), (''a'', CUndef)]) =
   canonicalize sample_printers (CObj [(''b'', CNum (Fin 1))])"
  by (subst canonicalize_identifies_content)
    (simp_all add: sample_printers_def plain_number_printer)

section \<open>Chains that verify\<close>

text \<open>The links of a chain that starts after the entry with this hash and number.\<close>

fun linked ::
    "hash_function \<Rightarrow> printers \<Rightarrow> string \<Rightarrow> string \<Rightarrow> int \<Rightarrow> ChainedAuditEntry list \<Rightarrow> bool" where
  "linked hf P alg prev n [] = True"
| "linked hf P alg prev n (e # es) =
     (sequence e = n + 1 \<and> previousHash e = prev \<and>
      hash e = computeEntryHash hf P prev (event e) alg \<and> linked hf P alg (hash e) (n + 1) es)"

definition head_of :: "string \<Rightarrow> ChainedAuditEntry list \<Rightarrow> string" where
  "head_of prev es = (if es = [] then prev else hash (last es))"

lemma head_of_simps [simp]:
  "head_of prev [] = prev" "head_of prev (es @ [e]) = hash e"
  "head_of prev (e # es) = head_of (hash e) es"
  by (simp_all add: head_of_def)

lemma verify_linked:
  "verify_from hf P alg prev (n + 1) m es = Valid k \<longleftrightarrow>
     linked hf P alg prev n es \<and> k = m + length es"
proof (induction es arbitrary: prev n m)
  case (Cons e es)
  show ?case using Cons [of "hash e" "n + 1" "m + 1"] by auto
qed auto

lemma linked_append:
  "linked hf P alg prev n (es @ fs) \<longleftrightarrow>
     linked hf P alg prev n es \<and> linked hf P alg (head_of prev es) (n + int (length es)) fs"
  by (induction es arbitrary: prev n) (auto simp: add.assoc)

lemma verifyAuditChain_linked:
  "verifyAuditChain hf P alg prev start es = Valid k \<longleftrightarrow>
     linked hf P (nullish alg ''sha256'') (nullish prev AUDIT_CHAIN_GENESIS_HASH) (nullish start 0) es \<and>
     k = length es"
  by (simp add: verifyAuditChain_def verify_linked)

section \<open>What the sink writes verifies\<close>

text \<open>
  A destination keeps what it was given in order, and keeps it unchanged when a write fails.
\<close>

locale chain_destination =
  fixes put :: "ChainedAuditEntry \<Rightarrow> 'd \<Rightarrow> bool \<times> 'd"
    and entries :: "'d \<Rightarrow> ChainedAuditEntry list"
  assumes write_ok: "put e d = (True, d') \<Longrightarrow> entries d' = entries d @ [e]"
    and write_failed: "put e d = (False, d') \<Longrightarrow> entries d' = entries d"
begin

text \<open>The sink's head is the head of what the destination holds.\<close>

definition in_step :: "hash_function \<Rightarrow> printers \<Rightarrow> string \<Rightarrow> int \<Rightarrow> HashChainAuditSink \<times> 'd \<Rightarrow> bool" where
  "in_step hf P prev n s \<longleftrightarrow>
     linked hf P (algorithm (fst s)) prev n (entries (snd s)) \<and>
     headHash (fst s) = head_of prev (entries (snd s)) \<and>
     headSequence (fst s) = n + int (length (entries (snd s)))"

lemma record_in_step:
  assumes "in_step hf P prev n s" and "chain_record hf P put ev s = (ok, s')"
  shows "in_step hf P prev n s' \<and> algorithm (fst s') = algorithm (fst s)"
proof -
  obtain sink d where s: "s = (sink, d)" by fastforce
  let ?e = "\<lparr>sequence = headSequence sink + 1, event = ev, previousHash = headHash sink,
      hash = computeEntryHash hf P (headHash sink) ev (algorithm sink)\<rparr>"
  obtain b d' where w: "put ?e d = (b, d')" by fastforce
  show ?thesis
  proof (cases b)
    case True
    with w have "entries d' = entries d @ [?e]" using write_ok by simp
    with assms s w True show ?thesis
      by (auto simp: chain_record_def Let_def in_step_def linked_append)
  next
    case False
    with w have "entries d' = entries d" using write_failed by simp
    with assms s w False show ?thesis by (auto simp: chain_record_def Let_def in_step_def)
  qed
qed

lemma record_all_in_step:
  "in_step hf P prev n s \<Longrightarrow>
     in_step hf P prev n (record_all hf P put evs s) \<and>
     algorithm (fst (record_all hf P put evs s)) = algorithm (fst s)"
proof (induction evs arbitrary: s)
  case (Cons e evs)
  obtain ok s' where r: "chain_record hf P put e s = (ok, s')" by (metis prod.exhaust)
  from record_in_step [OF Cons.prems r] Cons.IH [of s'] r show ?case by simp
qed simp

lemma chain_always_verifies:
  assumes "entries d = []"
  shows "\<exists>es. entries (snd (record_all hf P put evs (sink, d))) = es \<and>
    verifyAuditChain hf P (Some (algorithm sink)) (Some (headHash sink)) (Some (headSequence sink)) es =
      Valid (length es) \<and>
    headHash (fst (record_all hf P put evs (sink, d))) = head_of (headHash sink) es"
proof -
  let ?s = "record_all hf P put evs (sink, d)"
  have "in_step hf P (headHash sink) (headSequence sink) (sink, d)"
    using assms by (simp add: in_step_def)
  from record_all_in_step [OF this, of evs]
  have "in_step hf P (headHash sink) (headSequence sink) ?s" "algorithm (fst ?s) = algorithm sink"
    by auto
  then show ?thesis by (simp add: in_step_def verifyAuditChain_linked)
qed

end

interpretation mem_chain: chain_destination mem_write "\<lambda>es. es"
  by unfold_locales (simp_all add: mem_write_def)

interpretation scripted_chain: chain_destination scripted_write snd
  by unfold_locales (auto simp: scripted_write_def split: prod.splits list.splits bool.splits)

text \<open>
  the sink's chain verifies, whatever is recorded and whichever writes to the
  destination fail: after any sequence of \<open>record\<close> calls the stored entries pass
  \<open>verifyAuditChain\<close> from the sink's starting point, and the sink's head is the hash of the
  last of them.
\<close>

theorem recorded_chain_verifies:
  "\<exists>es. snd (snd (record_all hf P scripted_write evs (sink, oks, []))) = es \<and>
    verifyAuditChain hf P (Some (algorithm sink)) (Some (headHash sink)) (Some (headSequence sink)) es =
      Valid (length es) \<and>
    headHash (fst (record_all hf P scripted_write evs (sink, oks, []))) = head_of (headHash sink) es"
  using scripted_chain.chain_always_verifies [of "(oks, [])"] by simp

section \<open>Tampering is evident\<close>

text \<open>
  The separator is a character canonical text never contains, so a hashed input determines
  both of its parts.
\<close>

lemma set_join: "set (join sep xs) \<subseteq> set sep \<union> \<Union> (set ` set xs)"
  by (induction sep xs rule: join.induct) auto

lemma hex_digit_not_nul: "n < 16 \<Longrightarrow> hex_digit n \<noteq> CHR 0x00"
proof
  assume "n < 16" "hex_digit n = CHR 0x00"
  then have "(of_char (hex_digit n) :: nat) = of_char (CHR 0x00)" by simp
  with \<open>n < 16\<close> show False by (simp add: hex_digit_def split: if_splits)
qed

lemma nul_free_escape: "CHR 0x00 \<notin> set (json_escape c)"
proof (cases "(of_char c :: nat) < 32")
  case True
  then have "hex_digit (of_char c div 16) \<noteq> CHR 0x00" "hex_digit (of_char c mod 16) \<noteq> CHR 0x00"
    by (simp_all add: hex_digit_not_nul)
  with True show ?thesis by (auto simp: json_escape_def Let_def)
qed (auto simp: json_escape_def Let_def)

lemma nul_free_quote: "CHR 0x00 \<notin> set (json_quote s)"
  by (auto simp: json_quote_def nul_free_escape)

lemma nul_free_join: "CHR 0x00 \<notin> set sep \<Longrightarrow> (\<And>x. x \<in> set xs \<Longrightarrow> CHR 0x00 \<notin> set x) \<Longrightarrow> CHR 0x00 \<notin> set (join sep xs)"
  using set_join [of sep xs] by auto

lemma nul_free_serialize:
  assumes "num_printer (num_text P)"
  shows "CHR 0x00 \<notin> set (serialize P v)"
  using assms
proof (induction P v rule: serialize.induct)
  case (3 P n)
  then have "set (num_text P q) \<subseteq> number_chars" for q by (auto simp: num_printer_def)
  then show ?case by (cases n) (fastforce simp: number_chars_def)+
next
  case (9 P vs)
  then show ?case by (auto dest!: set_join [THEN subsetD])
next
  case (10 P kvs)
  then show ?case by (auto simp: braces_def dest!: set_join [THEN subsetD])
next
  case (11 P vs)
  then show ?case by (auto dest!: set_join [THEN subsetD])
next
  case (12 P ps)
  then show ?case by (auto simp: braces_def nul_free_quote dest!: set_join [THEN subsetD])
qed (auto simp: nul_free_quote split: option.splits)

lemma split_at_last:
  assumes "xs @ c # ys = xs' @ c # ys'" and "c \<notin> set ys" and "c \<notin> set ys'"
  shows "xs = xs' \<and> ys = ys'"
proof -
  have "takeWhile (\<lambda>x. x \<noteq> c) (rev (zs @ c # ws)) = rev ws" if "c \<notin> set ws" for zs ws
    using that takeWhile_append2 [of "rev ws" "\<lambda>x. x \<noteq> c" "c # rev zs"] by auto
  from this [OF assms(2), of xs] this [OF assms(3), of xs'] assms(1) have "ys = ys'"
    by (metis rev_rev_ident)
  with assms(1) show ?thesis by simp
qed

definition hash_inputs :: "printers \<Rightarrow> ChainedAuditEntry list \<Rightarrow> string set" where
  "hash_inputs P es = (\<lambda>e. previousHash e @ CHR 0x00 # canonicalize P (event e)) ` set es"

lemma same_hash_same_parts:
  assumes "num_printer (num_text P)" and "inj_on (hf alg) S"
    and "prev @ CHR 0x00 # canonicalize P ev \<in> S" and "prev' @ CHR 0x00 # canonicalize P ev' \<in> S"
    and "computeEntryHash hf P prev ev alg = computeEntryHash hf P prev' ev' alg"
  shows "prev = prev' \<and> canonicalize P ev = canonicalize P ev'"
proof -
  from assms(2-5) have "prev @ CHR 0x00 # canonicalize P ev = prev' @ CHR 0x00 # canonicalize P ev'"
    unfolding computeEntryHash_def by (blast dest: inj_onD)
  then show ?thesis
    by (rule split_at_last) (simp_all add: canonicalize_def nul_free_serialize [OF assms(1)])
qed

definition entry_view :: "printers \<Rightarrow> ChainedAuditEntry \<Rightarrow> int \<times> string \<times> string \<times> string" where
  "entry_view P e = (sequence e, canonicalize P (event e), previousHash e, hash e)"

lemma linked_unique:
  assumes "num_printer (num_text P)"
  shows "length es = length fs \<Longrightarrow> inj_on (hf alg) (hash_inputs P (es @ fs)) \<Longrightarrow>
    linked hf P alg prev n es \<Longrightarrow> linked hf P alg prev n fs \<Longrightarrow> head_of prev es = head_of prev fs \<Longrightarrow>
    map (entry_view P) es = map (entry_view P) fs"
proof (induction es arbitrary: fs rule: rev_induct)
  case (snoc e es)
  then obtain gs g where fs: "fs = gs @ [g]" by (cases fs rule: rev_cases) auto
  let ?S = "hash_inputs P ((es @ [e]) @ fs)"
  from snoc.prems fs have e: "sequence e = n + int (length es) + 1" "previousHash e = head_of prev es"
      "hash e = computeEntryHash hf P (previousHash e) (event e) alg" "linked hf P alg prev n es"
    and g: "sequence g = n + int (length gs) + 1" "previousHash g = head_of prev gs"
      "hash g = computeEntryHash hf P (previousHash g) (event g) alg" "linked hf P alg prev n gs"
    and "hash e = hash g" "length es = length gs"
    by (simp_all add: linked_append)
  have "previousHash e = previousHash g \<and> canonicalize P (event e) = canonicalize P (event g)"
    by (rule same_hash_same_parts [where hf = hf and alg = alg, OF assms snoc.prems(2)])
      (use e(3) g(3) \<open>hash e = hash g\<close> fs in \<open>auto simp: hash_inputs_def\<close>)
  moreover have "inj_on (hf alg) (hash_inputs P (es @ gs))"
    by (rule inj_on_subset [OF snoc.prems(2)]) (auto simp: hash_inputs_def fs)
  moreover note snoc.IH [OF \<open>length es = length gs\<close> _ e(4) g(4)]
  ultimately show ?case
    using e(1,2) g(1,2) \<open>hash e = hash g\<close> \<open>length es = length gs\<close>
    by (simp add: fs entry_view_def)
qed simp

text \<open>
  C23: an anchored chain cannot be rewritten. Two stored chains of the same length that both
  verify from the same starting point and end in the same hash agree in every entry: number,
  links, and canonical event. The hypothesis is that the hash function has no collision
  among the inputs hashed for these two chains.
\<close>

theorem anchored_chain_unique:
  assumes "num_printer (num_text P)"
    and "inj_on (hf (nullish alg ''sha256'')) (hash_inputs P (es @ fs))"
    and "verifyAuditChain hf P alg prev start es = Valid k"
    and "verifyAuditChain hf P alg prev start fs = Valid k"
    and "head_of (nullish prev AUDIT_CHAIN_GENESIS_HASH) es = head_of (nullish prev AUDIT_CHAIN_GENESIS_HASH) fs"
  shows "map (entry_view P) es = map (entry_view P) fs"
  by (rule linked_unique [where hf = hf and alg = "nullish alg ''sha256''" and n = "nullish start 0", OF assms(1) _ assms(2) _ _ assms(5)])
    (use assms(3,4) in \<open>simp_all add: verifyAuditChain_linked\<close>)

lemma verify_skip:
  "linked hf P alg prev n xs \<Longrightarrow>
     verify_from hf P alg prev (n + 1) m (xs @ zs) =
     verify_from hf P alg (head_of prev xs) (n + int (length xs) + 1) (m + length xs) zs"
proof (induction xs arbitrary: prev n m)
  case (Cons e xs)
  from Cons.prems have "linked hf P alg (hash e) (n + 1) xs" unfolding linked.simps by blast
  from Cons.prems Cons.IH [OF this, of "m + 1"] show ?case by (simp add: algebra_simps)
qed simp

text \<open>
  Two chains for examples: the hash "function" keeps its input, so that it has no collisions.
\<close>

definition sample_hash :: hash_function where
  "sample_hash alg x = x"

definition sample_chain :: "ChainedAuditEntry list" where
  "sample_chain = snd (record_all sample_hash sample_printers mem_write [CStr ''a'', CStr ''b'']
     (\<lparr>algorithm = ''sha256'', headHash = ''x'', headSequence = 0\<rparr>, []))"

lemma sample_chain_eq:
  "sample_chain =
     [\<lparr>sequence = 1, event = CStr ''a'', previousHash = ''x'', hash = ''x'' @ CHR 0x00 # json_quote ''a''\<rparr>,
      \<lparr>sequence = 2, event = CStr ''b'', previousHash = ''x'' @ CHR 0x00 # json_quote ''a'',
       hash = (''x'' @ CHR 0x00 # json_quote ''a'') @ CHR 0x00 # json_quote ''b''\<rparr>]"
  by (simp add: sample_chain_def chain_record_def Let_def mem_write_def computeEntryHash_def sample_hash_def
      canonicalize_def)

lemma sample_chain_valid:
  "verifyAuditChain sample_hash sample_printers None (Some ''x'') None sample_chain = Valid 2"
  by (simp add: verifyAuditChain_linked sample_chain_eq computeEntryHash_def sample_hash_def canonicalize_def)

lemma sample_hash_inj: "inj_on (sample_hash a) S"
  by (simp add: sample_hash_def inj_on_def)

lemma sample_printers_ok: "num_printer (num_text sample_printers)"
  by (simp add: sample_printers_def plain_number_printer)

theorem anchored_chain_unique_witness:
  "map (entry_view sample_printers) sample_chain = map (entry_view sample_printers) sample_chain"
  by (rule anchored_chain_unique [OF sample_printers_ok sample_hash_inj sample_chain_valid sample_chain_valid refl])

text \<open>
  An altered entry is found and located. Replacing the event of one entry of a chain
  that verifies by one with a different canonical text makes the verification report exactly
  this entry, after verifying all those before it.
\<close>

theorem altered_entry_located:
  assumes "num_printer (num_text P)"
    and "verifyAuditChain hf P alg prev start (xs @ e # ys) = Valid k"
    and "canonicalize P ev \<noteq> canonicalize P (event e)"
    and "inj_on (hf (nullish alg ''sha256'')) (hash_inputs P [e, e\<lparr>event := ev\<rparr>])"
  shows "verifyAuditChain hf P alg prev start (xs @ e\<lparr>event := ev\<rparr> # ys) =
    Invalid (sequence e) ''hash does not match the recorded event (the entry was altered)'' (length xs)"
proof -
  let ?alg = "nullish alg ''sha256''"
  have "computeEntryHash hf P (previousHash e) ev ?alg \<noteq> computeEntryHash hf P (previousHash e) (event e) ?alg"
    using same_hash_same_parts [where hf = hf and alg = ?alg, OF assms(1,4), of "previousHash e" ev "previousHash e" "event e"] assms(3)
    by (auto simp: hash_inputs_def)
  with assms(2) show ?thesis
    unfolding verifyAuditChain_linked linked_append
    by (simp add: verifyAuditChain_def verify_skip)
qed

theorem altered_entry_located_witness:
  "verifyAuditChain sample_hash sample_printers None (Some ''x'') None
     [hd sample_chain, (sample_chain ! 1)\<lparr>event := CStr ''c''\<rparr>] =
   Invalid 2 ''hash does not match the recorded event (the entry was altered)'' 1"
proof -
  have "verifyAuditChain sample_hash sample_printers None (Some ''x'') None
      ([hd sample_chain] @ sample_chain ! 1 # []) = Valid 2"
    using sample_chain_valid by (simp add: sample_chain_eq)
  from altered_entry_located [OF sample_printers_ok this _ sample_hash_inj, of "CStr ''c''"]
  show ?thesis by (simp add: sample_chain_eq canonicalize_def)
qed

text \<open>
  what verification alone does not detect. Deleting entries from the end of a chain
  leaves a chain that verifies, although the sink's documentation says that deleting a stored
  entry breaks the chain; only the anchored head hash tells the difference.
\<close>

theorem truncated_chain_verifies:
  assumes "verifyAuditChain hf P alg prev start (es @ fs) = Valid k"
  shows "verifyAuditChain hf P alg prev start es = Valid (length es)"
  using assms by (simp add: verifyAuditChain_linked linked_append)

theorem truncated_chain_verifies_witness:
  "verifyAuditChain sample_hash sample_printers None (Some ''x'') None (take 1 sample_chain) = Valid 1"
proof -
  have "verifyAuditChain sample_hash sample_printers None (Some ''x'') None
      (take 1 sample_chain @ drop 1 sample_chain) = Valid 2"
    using sample_chain_valid by simp
  from truncated_chain_verifies [OF this] show ?thesis by (simp add: sample_chain_eq)
qed

end
