(* ===== verification/Json_Schema.thy ===== *)
theory Json_Schema
  imports Json_Text
begin

text \<open>
  The dependency-free JSON Schema validator, \<open>packages/core/src/utils/json-schema.validator.ts\<close>.

  Parameters of the environment: how a pattern compiles and matches (\<open>RegExp\<close>), the printing
  of numbers in messages, and \<open>decodeURIComponent\<close>. Numbers are exact rationals where the code
  has doubles. A schema node is an object or a boolean, as the type \<open>SchemaNode\<close> says; any
  other value in the place of a node constrains nothing here, where the code may throw.
\<close>

section \<open>Environment and helpers\<close>

record schema_env =
  root_schema :: "(string \<times> jsval) list"
  compilePattern :: "string \<Rightarrow> (string \<Rightarrow> bool) option"
  print_num :: "rat \<Rightarrow> string"
  decodeURIComponent :: "string \<Rightarrow> string"
  maxIssues :: nat

definition MAX_REF_CHAIN :: nat where
  "MAX_REF_CHAIN = 32"

definition MAX_VALUE_DEPTH :: nat where
  "MAX_VALUE_DEPTH = 256"

fun typeOf :: "jsval \<Rightarrow> string" where
  "typeOf JNull = ''null''"
| "typeOf (JArr _) = ''array''"
| "typeOf (JNum n) = (if is_integer n then ''integer'' else ''number'')"
| "typeOf (JStr _) = ''string''"
| "typeOf (JBool _) = ''boolean''"
| "typeOf JUndef = ''undefined''"
| "typeOf (JObj _) = ''object''"

definition matchesType :: "jsval \<Rightarrow> jsval \<Rightarrow> bool" where
  "matchesType value type =
     (if type = JStr ''number'' then typeOf value = ''number'' \<or> typeOf value = ''integer''
      else JStr (typeOf value) = type)"

text \<open>
  Primitive values are compared with \<open>===\<close>, arrays item by item, objects key by key in any
  order.
\<close>

function (sequential) deepEqual :: "jsval \<Rightarrow> jsval \<Rightarrow> bool" where
  "deepEqual (JArr as) b =
     (case b of JArr bs \<Rightarrow> length as = length bs \<and> list_all (\<lambda>(x, y). deepEqual x y) (zip as bs) | _ \<Rightarrow> False)"
| "deepEqual (JObj as) b =
     (case b of
        JObj bs \<Rightarrow> length as = length bs \<and>
          list_all (\<lambda>(k, v). case map_of bs k of None \<Rightarrow> False | Some w \<Rightarrow> deepEqual v w) as
      | _ \<Rightarrow> False)"
| "deepEqual (JNum m) b = (case b of JNum n \<Rightarrow> js_num_eq m n | _ \<Rightarrow> False)"
| "deepEqual a b = (a = b)"
  by pat_completeness auto
termination
  by (relation "measure (\<lambda>(a, b). size a)")
    (auto dest!: set_zip_leftD simp: less_Suc_eq_le intro!: size_list_estimation')

definition is_ident_start :: "char \<Rightarrow> bool" where
  "is_ident_start c = (let n = (of_char c :: nat) in
     65 \<le> n \<and> n \<le> 90 \<or> 97 \<le> n \<and> n \<le> 122 \<or> n = 95 \<or> n = 36)"

definition is_identifier :: "string \<Rightarrow> bool" where
  "is_identifier s =
     (case s of [] \<Rightarrow> False | c # cs \<Rightarrow> is_ident_start c \<and> list_all (\<lambda>d. is_ident_start d \<or> is_digit d) cs)"

text \<open>What \<open>childPath\<close> appends to the path, for a key and for an index.\<close>

definition key_suffix :: "string \<Rightarrow> string" where
  "key_suffix key = (if is_identifier key then CHR ''.'' # key else ''['' @ json_quote key @ '']'')"

definition index_suffix :: "nat \<Rightarrow> string" where
  "index_suffix i = ''['' @ string_of_nat i @ '']''"

section \<open>References\<close>

fun split_on :: "char \<Rightarrow> string \<Rightarrow> string list" where
  "split_on sep [] = [[]]"
| "split_on sep (c # cs) =
     (if c = sep then [] # split_on sep cs
      else (case split_on sep cs of [] \<Rightarrow> [[c]] | w # ws \<Rightarrow> (c # w) # ws))"

text \<open>\<open>replace(/~1/g, '/')\<close> and \<open>replace(/~0/g, '~')\<close>.\<close>

fun replace_tilde :: "char \<Rightarrow> char \<Rightarrow> string \<Rightarrow> string" where
  "replace_tilde d r (c1 # c2 # cs) =
     (if c1 = CHR ''~'' \<and> c2 = d then r # replace_tilde d r cs else c1 # replace_tilde d r (c2 # cs))"
| "replace_tilde d r cs = cs"

definition pointer_segment :: "schema_env \<Rightarrow> string \<Rightarrow> string" where
  "pointer_segment E raw =
     replace_tilde (CHR ''0'') (CHR ''~'') (replace_tilde (CHR ''1'') (CHR ''/'') (decodeURIComponent E raw))"

text \<open>\<open>node[segment]\<close> when \<open>segment in node\<close>, for own properties and array indices.\<close>

fun pointer_step :: "jsval \<Rightarrow> string \<Rightarrow> jsval option" where
  "pointer_step (JObj ps) segment = map_of ps segment"
| "pointer_step (JArr vs) segment =
     map_option (\<lambda>i. vs ! i) (find (\<lambda>i. string_of_nat i = segment) [0..<length vs])"
| "pointer_step _ segment = None"

fun pointer_walk :: "schema_env \<Rightarrow> jsval \<Rightarrow> string list \<Rightarrow> jsval option" where
  "pointer_walk E node [] = Some node"
| "pointer_walk E node (raw # raws) =
     (case pointer_step node (pointer_segment E raw) of
        None \<Rightarrow> None | Some child \<Rightarrow> pointer_walk E child raws)"

fun is_node :: "jsval \<Rightarrow> bool" where
  "is_node (JBool _) = True"
| "is_node (JObj _) = True"
| "is_node (JArr _) = True"
| "is_node _ = False"

definition resolveRef :: "schema_env \<Rightarrow> string \<Rightarrow> jsval option" where
  "resolveRef E ref =
     (if ref = ''#'' then Some (JObj (root_schema E))
      else if take 2 ref \<noteq> ''#/'' then None
      else (case pointer_walk E (JObj (root_schema E)) (split_on (CHR ''/'') (drop 2 ref)) of
              Some node \<Rightarrow> if is_node node then Some node else None
            | None \<Rightarrow> None))"

datatype ref_outcome = NoRef | Follow jsval | RefError string

definition ref_step :: "schema_env \<Rightarrow> (string \<times> jsval) list \<Rightarrow> nat \<Rightarrow> ref_outcome" where
  "ref_step E s refChain =
     (case get_prop s ''$ref'' of
        JStr ref \<Rightarrow>
          (case resolveRef E ref of
             None \<Rightarrow> RefError (''unresolvable $ref '' @ quoted ref)
           | Some target \<Rightarrow>
               if refChain \<ge> MAX_REF_CHAIN
               then RefError (''$ref '' @ quoted ref @ '' loops without matching any value'')
               else Follow target)
      | _ \<Rightarrow> NoRef)"

section \<open>Keywords\<close>

text \<open>\<open>${n}\<close> and \<open>types.join\<close> in messages.\<close>

fun show_num :: "schema_env \<Rightarrow> jsnum \<Rightarrow> string" where
  "show_num E (Fin q) = print_num E q"
| "show_num E NaN = ''NaN''"
| "show_num E PosInf = ''Infinity''"
| "show_num E NegInf = ''-Infinity''"

definition show_type :: "jsval \<Rightarrow> string" where
  "show_type t = (case t of JStr s \<Rightarrow> s | _ \<Rightarrow> [])"

definition show_json :: "schema_env \<Rightarrow> jsval \<Rightarrow> string" where
  "show_json E v = nullish (json_stringify (print_num E) v) ''undefined''"

definition arr_of :: "jsval \<Rightarrow> jsval list option" where
  "arr_of v = (case v of JArr vs \<Rightarrow> Some vs | _ \<Rightarrow> None)"

definition num_of :: "jsval \<Rightarrow> jsnum option" where
  "num_of v = (case v of JNum n \<Rightarrow> Some n | _ \<Rightarrow> None)"

definition str_of :: "jsval \<Rightarrow> string option" where
  "str_of v = (case v of JStr s \<Rightarrow> Some s | _ \<Rightarrow> None)"

definition type_issue :: "(string \<times> jsval) list \<Rightarrow> jsval \<Rightarrow> string option" where
  "type_issue s inst =
     (case get_prop s ''type'' of
        JUndef \<Rightarrow> None
      | t \<Rightarrow> (let types = nullish (arr_of t) [t] in
               if list_ex (matchesType inst) types then None
               else Some (''expected '' @ join '' or '' (map show_type types) @ '', received '' @ typeOf inst)))"

text \<open>
  What a keyword asks for: an issue at this place, or at a place below it, or a walk of a part
  of the instance. Places are given by what is appended to the path.
\<close>

datatype task = Report string string | Into jsval jsval string

definition issue_if :: "bool \<Rightarrow> string \<Rightarrow> task list" where
  "issue_if b message = (if b then [Report [] message] else [])"

text \<open>A numeric keyword that is violated by its value \<open>n\<close> when \<open>bad n\<close>.\<close>

definition limit :: "schema_env \<Rightarrow> (string \<times> jsval) list \<Rightarrow> string \<Rightarrow> (jsnum \<Rightarrow> bool) \<Rightarrow> string \<Rightarrow> string \<Rightarrow> task list" where
  "limit E s keyword bad before after =
     (case num_of (get_prop s keyword) of
        None \<Rightarrow> []
      | Some n \<Rightarrow> issue_if (bad n) (before @ show_num E n @ after))"

definition value_tasks :: "schema_env \<Rightarrow> (string \<times> jsval) list \<Rightarrow> jsval \<Rightarrow> task list" where
  "value_tasks E s inst =
     (case arr_of (get_prop s ''enum'') of
        None \<Rightarrow> []
      | Some options \<Rightarrow> issue_if (\<not> list_ex (\<lambda>opt. deepEqual opt inst) options)
                          (''must be one of '' @ show_json E (JArr options))) @
     issue_if (has_own s ''const'' \<and> \<not> deepEqual (get_prop s ''const'') inst)
       (''must equal '' @ show_json E (get_prop s ''const''))"

definition string_tasks :: "schema_env \<Rightarrow> (string \<times> jsval) list \<Rightarrow> string \<Rightarrow> task list" where
  "string_tasks E s text' =
     (let len = Fin (of_nat (length text')) in
      limit E s ''minLength'' (\<lambda>n. js_lt len n) ''must be at least '' '' characters'' @
      limit E s ''maxLength'' (\<lambda>n. js_lt n len) ''must be at most '' '' characters'' @
      (case str_of (get_prop s ''pattern'') of
         None \<Rightarrow> []
       | Some p \<Rightarrow>
           (case compilePattern E p of
              None \<Rightarrow> []
            | Some matches \<Rightarrow> issue_if (\<not> matches text') (''must match pattern '' @ json_quote p))))"

text \<open>\<open>Math.abs(q - Math.round(q)) > 1e-9\<close> for the quotient of two finite numbers.\<close>

definition not_multiple :: "jsnum \<Rightarrow> jsnum \<Rightarrow> bool" where
  "not_multiple a m =
     (case (a, m) of
        (Fin x, Fin y) \<Rightarrow> (let q = x / y in \<bar>q - of_int \<lfloor>q + 1/2\<rfloor>\<bar> > 1 / 1000000000)
      | _ \<Rightarrow> False)"

definition number_tasks :: "schema_env \<Rightarrow> (string \<times> jsval) list \<Rightarrow> jsnum \<Rightarrow> task list" where
  "number_tasks E s x =
     limit E s ''minimum'' (\<lambda>n. js_lt x n) ''must be >= '' [] @
     limit E s ''maximum'' (\<lambda>n. js_lt n x) ''must be <= '' [] @
     limit E s ''exclusiveMinimum'' (\<lambda>n. js_le x n) ''must be > '' [] @
     limit E s ''exclusiveMaximum'' (\<lambda>n. js_le n x) ''must be < '' [] @
     limit E s ''multipleOf'' (\<lambda>n. js_lt (Fin 0) n \<and> not_multiple x n) ''must be a multiple of '' []"

text \<open>\<open>findIndex\<close>, and the first item that equals an earlier one.\<close>

definition find_index :: "('a \<Rightarrow> bool) \<Rightarrow> 'a list \<Rightarrow> nat option" where
  "find_index P xs = find (\<lambda>i. P (xs ! i)) [0..<length xs]"

definition duplicate_index :: "jsval list \<Rightarrow> nat option" where
  "duplicate_index items =
     find (\<lambda>i. find_index (deepEqual (items ! i)) items \<noteq> Some i) [0..<length items]"

definition item_schemas :: "(string \<times> jsval) list \<Rightarrow> jsval list \<times> jsval" where
  "item_schemas s =
     (case arr_of (get_prop s ''prefixItems'') of
        Some tuple \<Rightarrow> (tuple, get_prop s ''items'')
      | None \<Rightarrow>
          (case arr_of (get_prop s ''items'') of
             Some tuple \<Rightarrow> (tuple, get_prop s ''additionalItems'')
           | None \<Rightarrow> ([], get_prop s ''items'')))"

definition array_tasks :: "schema_env \<Rightarrow> (string \<times> jsval) list \<Rightarrow> jsval list \<Rightarrow> task list" where
  "array_tasks E s items =
     (let len = Fin (of_nat (length items)) in
      limit E s ''minItems'' (\<lambda>n. js_lt len n) ''must have at least '' '' items'' @
      limit E s ''maxItems'' (\<lambda>n. js_lt n len) ''must have at most '' '' items'' @
      (if get_prop s ''uniqueItems'' = JBool True
       then (case duplicate_index items of
               None \<Rightarrow> [] | Some i \<Rightarrow> [Report (index_suffix i) ''duplicates an earlier item''])
       else []) @
      (case item_schemas s of
         (tuple, rest) \<Rightarrow>
           concat (map (\<lambda>(i, item).
             if i < length tuple then [Into item (tuple ! i) (index_suffix i)]
             else if rest \<noteq> JUndef then [Into item rest (index_suffix i)]
             else []) (List.enumerate 0 items))))"

definition props_of :: "jsval \<Rightarrow> (string \<times> jsval) list" where
  "props_of v = (case v of JObj ps \<Rightarrow> ps | _ \<Rightarrow> [])"

definition pattern_schemas :: "schema_env \<Rightarrow> (string \<times> jsval) list \<Rightarrow> ((string \<Rightarrow> bool) \<times> jsval) list" where
  "pattern_schemas E s =
     concat (map (\<lambda>(p, sub). case compilePattern E p of None \<Rightarrow> [] | Some matches \<Rightarrow> [(matches, sub)])
       (props_of (get_prop s ''patternProperties'')))"

definition property_tasks :: "schema_env \<Rightarrow> (string \<times> jsval) list \<Rightarrow> string \<Rightarrow> jsval \<Rightarrow> task list" where
  "property_tasks E s key v =
     (let properties = props_of (get_prop s ''properties'');
          matched = (case map_of properties key of None \<Rightarrow> [] | Some sub \<Rightarrow> [Into v sub (key_suffix key)]) @
            map (\<lambda>(_, sub). Into v sub (key_suffix key)) (filter (\<lambda>(matches, _). matches key) (pattern_schemas E s))
      in if matched \<noteq> [] then matched
         else (case get_prop s ''additionalProperties'' of
                 JBool False \<Rightarrow> [Report (key_suffix key) ''is not an allowed property'']
               | JObj sub \<Rightarrow> [Into v (JObj sub) (key_suffix key)]
               | JArr sub \<Rightarrow> [Into v (JArr sub) (key_suffix key)]
               | _ \<Rightarrow> []))"

definition object_tasks :: "schema_env \<Rightarrow> (string \<times> jsval) list \<Rightarrow> (string \<times> jsval) list \<Rightarrow> task list" where
  "object_tasks E s record' =
     (let len = Fin (of_nat (length record')) in
      (case arr_of (get_prop s ''required'') of
         None \<Rightarrow> []
       | Some keys \<Rightarrow> concat (map (\<lambda>k. case str_of k of
             None \<Rightarrow> []
           | Some key \<Rightarrow> if has_own record' key then [] else [Report (key_suffix key) ''is required'']) keys)) @
      limit E s ''minProperties'' (\<lambda>n. js_lt len n) ''must have at least '' '' properties'' @
      limit E s ''maxProperties'' (\<lambda>n. js_lt n len) ''must have at most '' '' properties'' @
      concat (map (\<lambda>(key, v). property_tasks E s key v) record'))"

definition keyword_tasks :: "schema_env \<Rightarrow> (string \<times> jsval) list \<Rightarrow> jsval \<Rightarrow> task list" where
  "keyword_tasks E s inst =
     value_tasks E s inst @
     (case inst of
        JStr t \<Rightarrow> string_tasks E s t
      | JNum n \<Rightarrow> number_tasks E s n
      | JArr items \<Rightarrow> array_tasks E s items
      | JObj ps \<Rightarrow> object_tasks E s ps
      | _ \<Rightarrow> [])"

section \<open>The walk\<close>

text \<open>\<open>report\<close>: an issue is kept while there is room for it.\<close>

definition report :: "nat \<Rightarrow> string \<Rightarrow> string \<Rightarrow> string list \<Rightarrow> string list" where
  "report bound path message issues =
     (if length issues < bound then issues @ [path @ '': '' @ message] else issues)"

text \<open>The first issue of each branch.\<close>

definition summarize_branches :: "string list list \<Rightarrow> string" where
  "summarize_branches branches =
     join ''; '' (map (\<lambda>(i, found). ''#'' @ string_of_nat i @ '': '' @
       (case found of [] \<Rightarrow> ''ok'' | m # _ \<Rightarrow> m)) (List.enumerate 0 branches))"

definition subschemas :: "(string \<times> jsval) list \<Rightarrow> string \<Rightarrow> jsval list" where
  "subschemas s keyword = nullish (arr_of (get_prop s keyword)) []"

definition any_of_issue :: "(string \<times> jsval) list \<Rightarrow> string list list \<Rightarrow> string option" where
  "any_of_issue s branches =
     (if arr_of (get_prop s ''anyOf'') \<noteq> None \<and> \<not> list_ex (\<lambda>found. found = []) branches
      then Some (''must match at least one schema in anyOf ('' @ summarize_branches branches @ '')'')
      else None)"

definition one_of_issue :: "(string \<times> jsval) list \<Rightarrow> string list list \<Rightarrow> string option" where
  "one_of_issue s branches =
     (let matched = length (filter (\<lambda>found. found = []) branches) in
      if arr_of (get_prop s ''oneOf'') = None \<or> matched = 1 then None
      else if matched = 0
      then Some (''must match exactly one schema in oneOf ('' @ summarize_branches branches @ '')'')
      else Some (''must match exactly one schema in oneOf, but matched '' @ string_of_nat matched))"

definition report_opt :: "nat \<Rightarrow> string \<Rightarrow> string option \<Rightarrow> string list \<Rightarrow> string list" where
  "report_opt bound path m issues = (case m of None \<Rightarrow> issues | Some message \<Rightarrow> report bound path message issues)"

lemma get_prop_size: "size (get_prop s k) < size (JObj s)"
proof (cases "map_of s k")
  case (Some v)
  then have "(k, v) \<in> set s" by (rule map_of_SomeD)
  with Some show ?thesis
    by (auto simp: get_prop_def less_Suc_eq_le intro!: size_list_estimation')
qed (simp add: get_prop_def)

lemma subschemas_size:
  assumes "sub \<in> set (subschemas s k)"
  shows "size sub < size (JObj s)"
proof -
  from assms obtain vs where "get_prop s k = JArr vs" "sub \<in> set vs"
    by (auto simp: subschemas_def arr_of_def split: jsval.splits)
  moreover from this(2) have "size sub < size (JArr vs)"
    by (auto simp: less_Suc_eq_le intro!: size_list_estimation')
  ultimately show ?thesis using get_prop_size [of s k] by simp
qed

lemma ref_step_chain: "ref_step E s n = Follow t \<Longrightarrow> n < MAX_REF_CHAIN"
  by (auto simp: ref_step_def split: jsval.splits option.splits if_splits)

text \<open>
  \<open>walk\<close> with the issues so far as its state. The scratch lists of \<open>probe\<close> are walks from
  the empty list. Every call moves into the value, or follows one more reference, or goes to
  a smaller schema, in this order of precedence.
\<close>

function walk :: "schema_env \<Rightarrow> jsval \<Rightarrow> jsval \<Rightarrow> string \<Rightarrow> nat \<Rightarrow> nat \<Rightarrow> string list \<Rightarrow> string list" where
  "walk E inst node path depth refChain issues =
     (if length issues \<ge> maxIssues E then issues
      else if depth > MAX_VALUE_DEPTH
      then report (maxIssues E) path (''the value is nested more than '' @ string_of_nat MAX_VALUE_DEPTH @ '' levels deep'') issues
      else (case node of
        JBool b \<Rightarrow> if b then issues else report (maxIssues E) path ''no value is allowed here'' issues
      | JObj s \<Rightarrow>
         (case ref_step E s refChain of
            RefError message \<Rightarrow> report (maxIssues E) path message issues
          | outcome \<Rightarrow>
           (let issues0 = (case outcome of
                  Follow target \<Rightarrow> walk E inst target path depth (refChain + 1) issues
                | _ \<Rightarrow> issues)
            in if inst = JNull \<and> get_prop s ''nullable'' = JBool True then issues0
               else (case type_issue s inst of
                 Some message \<Rightarrow> report (maxIssues E) path message issues0
               | None \<Rightarrow>
                  (let issues1 = fold (\<lambda>t acc. case t of
                         Report suffix message \<Rightarrow> report (maxIssues E) (path @ suffix) message acc
                       | Into child sub suffix \<Rightarrow> walk E child sub (path @ suffix) (depth + 1) 0 acc)
                         (keyword_tasks E s inst) issues0;
                       issues2 = fold (\<lambda>sub acc. walk E inst sub path depth refChain acc)
                         (subschemas s ''allOf'') issues1;
                       issues3 = report_opt (maxIssues E) path (any_of_issue s
                         (map (\<lambda>sub. walk E inst sub path depth refChain []) (subschemas s ''anyOf''))) issues2;
                       issues4 = report_opt (maxIssues E) path (one_of_issue s
                         (map (\<lambda>sub. walk E inst sub path depth refChain []) (subschemas s ''oneOf''))) issues3
                   in if get_prop s ''not'' \<noteq> JUndef \<and>
                         walk E inst (get_prop s ''not'') path depth refChain [] = []
                      then report (maxIssues E) path (''must not match the schema in '' @ quoted ''not'') issues4
                      else issues4))))
      | _ \<Rightarrow> issues))"
  by pat_completeness auto
termination
proof (relation "measures [\<lambda>(E, inst, node, path, depth, refChain, issues). MAX_VALUE_DEPTH + 1 - depth,
    \<lambda>(E, inst, node, path, depth, refChain, issues). MAX_REF_CHAIN - refChain,
    \<lambda>(E, inst, node, path, depth, refChain, issues). size node]")
qed (use get_prop_size in \<open>auto dest: ref_step_chain subschemas_size\<close>)

declare walk.simps [simp del]

text \<open>The result: the issues found. The value is valid when there are none.\<close>

definition validateJsonSchema :: "schema_env \<Rightarrow> jsval \<Rightarrow> string list" where
  "validateJsonSchema E value = walk E value (JObj (root_schema E)) ''$'' 0 0 []"

section \<open>What a schema means\<close>

text \<open>
  The meaning of a schema, keyword by keyword, written without the validator's tasks, issues and scratch
  lists. Equality of values: numbers as numbers, arrays item by item, objects key by key. (The code takes one
  shortcut, an object is equal to itself; that differs only for an object with a \<open>NaN\<close> inside.)
\<close>

inductive same_json :: "jsval \<Rightarrow> jsval \<Rightarrow> bool" where
  "js_num_eq m n \<Longrightarrow> same_json (JNum m) (JNum n)"
| "same_json JNull JNull"
| "same_json JUndef JUndef"
| "same_json (JBool b) (JBool b)"
| "same_json (JStr t) (JStr t)"
| "list_all2 same_json vs ws \<Longrightarrow> same_json (JArr vs) (JArr ws)"
| "length ps = length qs \<Longrightarrow> \<forall>p \<in> set ps. \<exists>w. map_of qs (fst p) = Some w \<and> same_json (snd p) w \<Longrightarrow>
   same_json (JObj ps) (JObj qs)"

inductive_simps same_json_simps [simp]:
  "same_json (JNum m) v" "same_json JNull v" "same_json JUndef v" "same_json (JBool b) v" "same_json (JStr t) v"
  "same_json (JArr vs) v" "same_json (JObj ps) v"

fun has_type :: "jsval \<Rightarrow> string \<Rightarrow> bool" where
  "has_type JNull t \<longleftrightarrow> t = ''null''"
| "has_type (JBool _) t \<longleftrightarrow> t = ''boolean''"
| "has_type (JStr _) t \<longleftrightarrow> t = ''string''"
| "has_type (JNum n) t \<longleftrightarrow> t = ''number'' \<or> t = ''integer'' \<and> is_integer n"
| "has_type (JArr _) t \<longleftrightarrow> t = ''array''"
| "has_type (JObj _) t \<longleftrightarrow> t = ''object''"
| "has_type JUndef t \<longleftrightarrow> t = ''undefined''"

definition type_holds :: "(string \<times> jsval) list \<Rightarrow> jsval \<Rightarrow> bool" where
  "type_holds s v \<longleftrightarrow>
     (case get_prop s ''type'' of
        JUndef \<Rightarrow> True
      | JStr t \<Rightarrow> has_type v t
      | JArr ts \<Rightarrow> \<exists>t. JStr t \<in> set ts \<and> has_type v t
      | _ \<Rightarrow> False)"

text \<open>\<open>enum\<close> and \<open>const\<close>.\<close>

definition values_hold :: "(string \<times> jsval) list \<Rightarrow> jsval \<Rightarrow> bool" where
  "values_hold s v \<longleftrightarrow>
     (\<forall>options. get_prop s ''enum'' = JArr options \<longrightarrow> (\<exists>opt \<in> set options. same_json opt v)) \<and>
     (\<forall>c. map_of s ''const'' = Some c \<longrightarrow> same_json c v)"

text \<open>A size is not below the number of one keyword and not above that of another.\<close>

definition size_allowed :: "(string \<times> jsval) list \<Rightarrow> string \<Rightarrow> string \<Rightarrow> nat \<Rightarrow> bool" where
  "size_allowed s least most k \<longleftrightarrow>
     (\<forall>n. get_prop s least = JNum n \<longrightarrow> \<not> js_lt (Fin (of_nat k)) n) \<and>
     (\<forall>n. get_prop s most = JNum n \<longrightarrow> \<not> js_lt n (Fin (of_nat k)))"

definition string_holds :: "schema_env \<Rightarrow> (string \<times> jsval) list \<Rightarrow> string \<Rightarrow> bool" where
  "string_holds E s t \<longleftrightarrow>
     size_allowed s ''minLength'' ''maxLength'' (length t) \<and>
     (\<forall>p matches. get_prop s ''pattern'' = JStr p \<longrightarrow> compilePattern E p = Some matches \<longrightarrow> matches t)"

text \<open>A multiple, up to a billionth.\<close>

definition number_holds :: "(string \<times> jsval) list \<Rightarrow> jsnum \<Rightarrow> bool" where
  "number_holds s x \<longleftrightarrow>
     (\<forall>n. get_prop s ''minimum'' = JNum n \<longrightarrow> \<not> js_lt x n) \<and>
     (\<forall>n. get_prop s ''maximum'' = JNum n \<longrightarrow> \<not> js_lt n x) \<and>
     (\<forall>n. get_prop s ''exclusiveMinimum'' = JNum n \<longrightarrow> \<not> js_le x n) \<and>
     (\<forall>n. get_prop s ''exclusiveMaximum'' = JNum n \<longrightarrow> \<not> js_le n x) \<and>
     (\<forall>a b. x = Fin a \<longrightarrow> get_prop s ''multipleOf'' = JNum (Fin b) \<longrightarrow> 0 < b \<longrightarrow>
        (\<exists>k :: int. \<bar>a / b - of_int k\<bar> \<le> 1 / 1000000000))"

text \<open>The schema of the item at a position: from the tuple, or the one for the rest.\<close>

definition from_tuple :: "jsval list \<Rightarrow> jsval \<Rightarrow> nat \<Rightarrow> jsval option" where
  "from_tuple tuple rest i = (if i < length tuple then Some (tuple ! i) else if rest = JUndef then None else Some rest)"

definition item_schema :: "(string \<times> jsval) list \<Rightarrow> nat \<Rightarrow> jsval option" where
  "item_schema s i =
     (case (get_prop s ''prefixItems'', get_prop s ''items'') of
        (JArr tuple, rest) \<Rightarrow> from_tuple tuple rest i
      | (_, JArr tuple) \<Rightarrow> from_tuple tuple (get_prop s ''additionalItems'') i
      | (_, rest) \<Rightarrow> from_tuple [] rest i)"

text \<open>Unique items: an item equals itself and none before it.\<close>

definition array_holds :: "(jsval \<Rightarrow> jsval \<Rightarrow> bool) \<Rightarrow> (string \<times> jsval) list \<Rightarrow> jsval list \<Rightarrow> bool" where
  "array_holds C s items \<longleftrightarrow>
     size_allowed s ''minItems'' ''maxItems'' (length items) \<and>
     (get_prop s ''uniqueItems'' = JBool True \<longrightarrow>
        (\<forall>i < length items. same_json (items ! i) (items ! i) \<and> (\<forall>j < i. \<not> same_json (items ! i) (items ! j)))) \<and>
     (\<forall>i < length items. \<forall>sub. item_schema s i = Some sub \<longrightarrow> C (items ! i) sub)"

text \<open>The schemas that \<open>properties\<close> and \<open>patternProperties\<close> have for a key.\<close>

definition listed_for :: "schema_env \<Rightarrow> (string \<times> jsval) list \<Rightarrow> string \<Rightarrow> jsval \<Rightarrow> bool" where
  "listed_for E s key sub \<longleftrightarrow>
     (\<exists>subs. get_prop s ''properties'' = JObj subs \<and> map_of subs key = Some sub) \<or>
     (\<exists>subs p matches. get_prop s ''patternProperties'' = JObj subs \<and> (p, sub) \<in> set subs \<and>
        compilePattern E p = Some matches \<and> matches key)"

definition property_holds ::
    "schema_env \<Rightarrow> (jsval \<Rightarrow> jsval \<Rightarrow> bool) \<Rightarrow> (string \<times> jsval) list \<Rightarrow> string \<Rightarrow> jsval \<Rightarrow> bool" where
  "property_holds E C s key v \<longleftrightarrow>
     (\<forall>sub. listed_for E s key sub \<longrightarrow> C v sub) \<and>
     ((\<nexists>sub. listed_for E s key sub) \<longrightarrow>
        (case get_prop s ''additionalProperties'' of
           JBool b \<Rightarrow> b
         | JObj sub \<Rightarrow> C v (JObj sub)
         | JArr sub \<Rightarrow> C v (JArr sub)
         | _ \<Rightarrow> True))"

definition object_holds ::
    "schema_env \<Rightarrow> (jsval \<Rightarrow> jsval \<Rightarrow> bool) \<Rightarrow> (string \<times> jsval) list \<Rightarrow> (string \<times> jsval) list \<Rightarrow> bool" where
  "object_holds E C s ps \<longleftrightarrow>
     (\<forall>keys key. get_prop s ''required'' = JArr keys \<longrightarrow> JStr key \<in> set keys \<longrightarrow> map_of ps key \<noteq> None) \<and>
     size_allowed s ''minProperties'' ''maxProperties'' (length ps) \<and>
     (\<forall>(key, v) \<in> set ps. property_holds E C s key v)"

definition keywords_hold :: "schema_env \<Rightarrow> (jsval \<Rightarrow> jsval \<Rightarrow> bool) \<Rightarrow> (string \<times> jsval) list \<Rightarrow> jsval \<Rightarrow> bool" where
  "keywords_hold E C s v \<longleftrightarrow> values_hold s v \<and>
     (case v of
        JStr t \<Rightarrow> string_holds E s t
      | JNum n \<Rightarrow> number_holds s n
      | JArr items \<Rightarrow> array_holds C s items
      | JObj ps \<Rightarrow> object_holds E C s ps
      | _ \<Rightarrow> True)"

text \<open>What a local reference points at: the root, or what its segments lead to from there.\<close>

inductive leads_to :: "schema_env \<Rightarrow> jsval \<Rightarrow> string list \<Rightarrow> jsval \<Rightarrow> bool" for E where
  "leads_to E node [] node"
| "map_of ps (pointer_segment E seg) = Some child \<Longrightarrow> leads_to E child segs target \<Longrightarrow>
   leads_to E (JObj ps) (seg # segs) target"
| "pointer_segment E seg = string_of_nat i \<Longrightarrow> i < length vs \<Longrightarrow> leads_to E (vs ! i) segs target \<Longrightarrow>
   leads_to E (JArr vs) (seg # segs) target"

definition refers_to :: "schema_env \<Rightarrow> string \<Rightarrow> jsval \<Rightarrow> bool" where
  "refers_to E ref target \<longleftrightarrow>
     ref = ''#'' \<and> target = JObj (root_schema E) \<or>
     (\<exists>segs. ref = ''#/'' @ join ''/'' segs \<and> segs \<noteq> [] \<and> (\<forall>seg \<in> set segs. CHR ''/'' \<notin> set seg) \<and>
        leads_to E (JObj (root_schema E)) segs target) \<and> is_node target"

lemma listed_size: "get_prop s k = JArr subs \<Longrightarrow> sub \<in> set subs \<Longrightarrow> size sub < size (JObj s)"
  using subschemas_size [of sub s k] by (simp add: subschemas_def arr_of_def)

lemma listed_nth: "get_prop s k = JArr subs \<Longrightarrow> i < length subs \<Longrightarrow> size (subs ! i) < size (JObj s)"
  by (rule listed_size [OF _ nth_mem])

text \<open>
  A value conforms to a schema; values nested more than \<open>MAX_VALUE_DEPTH\<close> deep and chains of more than
  \<open>MAX_REF_CHAIN\<close> references on one value conform to nothing, and a node that is neither an object nor a
  boolean constrains nothing.
\<close>

function conforms :: "schema_env \<Rightarrow> jsval \<Rightarrow> jsval \<Rightarrow> nat \<Rightarrow> nat \<Rightarrow> bool" where
  "conforms E v node depth refs =
     (if depth > MAX_VALUE_DEPTH then False
      else case node of
        JBool b \<Rightarrow> b
      | JObj s \<Rightarrow>
          (case get_prop s ''$ref'' of
             JStr ref \<Rightarrow> if refs < MAX_REF_CHAIN then \<exists>target \<in> {t. refers_to E ref t}. conforms E v target depth (refs + 1)
               else False
           | _ \<Rightarrow> True) \<and>
          (v = JNull \<and> get_prop s ''nullable'' = JBool True \<or>
           type_holds s v \<and>
           keywords_hold E (\<lambda>child sub. conforms E child sub (depth + 1) 0) s v \<and>
           (case get_prop s ''allOf'' of JArr subs \<Rightarrow> \<forall>sub \<in> set subs. conforms E v sub depth refs | _ \<Rightarrow> True) \<and>
           (case get_prop s ''anyOf'' of JArr subs \<Rightarrow> \<exists>sub \<in> set subs. conforms E v sub depth refs | _ \<Rightarrow> True) \<and>
           (case get_prop s ''oneOf'' of
              JArr subs \<Rightarrow> \<exists>i \<in> {..<length subs}. \<forall>j \<in> {..<length subs}. conforms E v (subs ! j) depth refs \<longleftrightarrow> j = i
            | _ \<Rightarrow> True) \<and>
           (get_prop s ''not'' = JUndef \<or> \<not> conforms E v (get_prop s ''not'') depth refs))
      | _ \<Rightarrow> True)"
  by pat_completeness auto
termination
proof (relation "measures [\<lambda>(E, v, node, depth, refs). MAX_VALUE_DEPTH + 1 - depth,
    \<lambda>(E, v, node, depth, refs). MAX_REF_CHAIN - refs, \<lambda>(E, v, node, depth, refs). size node]")
qed (use get_prop_size in \<open>auto dest: listed_size listed_nth\<close>)

declare conforms.simps [simp del]

section \<open>The verdict of a walk\<close>

text \<open>
  The walk without issue lists, caps and scratch lists: it finds something or it does not. This is a step on
  the way to the meaning of schemas above.
\<close>

function agrees :: "schema_env \<Rightarrow> jsval \<Rightarrow> jsval \<Rightarrow> nat \<Rightarrow> nat \<Rightarrow> bool" where
  "agrees E inst node depth refChain =
     (if depth > MAX_VALUE_DEPTH then False
      else (case node of
        JBool b \<Rightarrow> b
      | JObj s \<Rightarrow>
         (case ref_step E s refChain of
            RefError message \<Rightarrow> False
          | outcome \<Rightarrow>
              (case outcome of Follow target \<Rightarrow> agrees E inst target depth (refChain + 1) | _ \<Rightarrow> True) \<and>
              (inst = JNull \<and> get_prop s ''nullable'' = JBool True \<or>
               type_issue s inst = None \<and>
               (\<forall>t \<in> set (keyword_tasks E s inst).
                  case t of Report _ _ \<Rightarrow> False | Into child sub _ \<Rightarrow> agrees E child sub (depth + 1) 0) \<and>
               (\<forall>sub \<in> set (subschemas s ''allOf''). agrees E inst sub depth refChain) \<and>
               (arr_of (get_prop s ''anyOf'') \<noteq> None \<longrightarrow>
                  (\<exists>sub \<in> set (subschemas s ''anyOf''). agrees E inst sub depth refChain)) \<and>
               (arr_of (get_prop s ''oneOf'') \<noteq> None \<longrightarrow>
                  length (filter (\<lambda>sub. agrees E inst sub depth refChain) (subschemas s ''oneOf'')) = 1) \<and>
               (get_prop s ''not'' \<noteq> JUndef \<longrightarrow> \<not> agrees E inst (get_prop s ''not'') depth refChain)))
      | _ \<Rightarrow> True))"
  by pat_completeness auto
termination
proof (relation "measures [\<lambda>(E, inst, node, depth, refChain). MAX_VALUE_DEPTH + 1 - depth,
    \<lambda>(E, inst, node, depth, refChain). MAX_REF_CHAIN - refChain,
    \<lambda>(E, inst, node, depth, refChain). size node]")
qed (use get_prop_size in \<open>auto dest: ref_step_chain subschemas_size\<close>)

declare agrees.simps [simp del]

text \<open>
  A step that only adds issues, never more than there is room for, and adds none exactly when
  \<open>ok\<close> holds, unless there was no room to begin with.
\<close>

definition adds :: "nat \<Rightarrow> bool \<Rightarrow> (string list \<Rightarrow> string list) \<Rightarrow> bool" where
  "adds m ok f \<longleftrightarrow> (\<forall>issues. \<exists>new. f issues = issues @ new \<and>
     (length issues \<le> m \<longrightarrow> length (issues @ new) \<le> m) \<and>
     (length issues < m \<longrightarrow> (new = [] \<longleftrightarrow> ok)))"

lemma addsI:
  assumes "\<And>issues. length issues < m \<Longrightarrow> \<exists>new. f issues = issues @ new \<and> length (issues @ new) \<le> m \<and> (new = [] \<longleftrightarrow> ok)"
    and "\<And>issues. length issues \<ge> m \<Longrightarrow> f issues = issues"
  shows "adds m ok f"
  unfolding adds_def
proof
  fix issues
  show "\<exists>new. f issues = issues @ new \<and> (length issues \<le> m \<longrightarrow> length (issues @ new) \<le> m) \<and>
     (length issues < m \<longrightarrow> (new = [] \<longleftrightarrow> ok))"
    using assms(1) [of issues] assms(2) [of issues] by (cases "length issues < m") auto
qed

lemma adds_full: "adds m ok f \<Longrightarrow> length issues = m \<Longrightarrow> f issues = issues"
  unfolding adds_def by (metis append.right_neutral append_eq_append_conv le_refl length_append le_add1 le_antisym)

lemma adds_id: "adds m True (\<lambda>issues. issues)"
  by (simp add: adds_def)

lemma adds_report: "adds m False (report m path message)"
  by (rule addsI) (auto simp: report_def)

lemma adds_comp:
  assumes "adds m a f" and "adds m b g"
  shows "adds m (a \<and> b) (\<lambda>issues. g (f issues))"
  unfolding adds_def
proof
  fix issues
  from assms(1) obtain n1 where n1: "f issues = issues @ n1"
    "length issues \<le> m \<longrightarrow> length (issues @ n1) \<le> m" "length issues < m \<longrightarrow> (n1 = [] \<longleftrightarrow> a)"
    unfolding adds_def by meson
  from assms(2) obtain n2 where n2: "g (issues @ n1) = (issues @ n1) @ n2"
    "length (issues @ n1) \<le> m \<longrightarrow> length ((issues @ n1) @ n2) \<le> m"
    "length (issues @ n1) < m \<longrightarrow> (n2 = [] \<longleftrightarrow> b)"
    unfolding adds_def by meson
  show "\<exists>new. g (f issues) = issues @ new \<and> (length issues \<le> m \<longrightarrow> length (issues @ new) \<le> m) \<and>
     (length issues < m \<longrightarrow> (new = [] \<longleftrightarrow> a \<and> b))"
    using n1 n2 by (intro exI [of _ "n1 @ n2"]) auto
qed

lemma adds_fold:
  "(\<And>x. x \<in> set xs \<Longrightarrow> adds m (P x) (F x)) \<Longrightarrow> adds m (\<forall>x \<in> set xs. P x) (fold F xs)"
proof (induction xs)
  case (Cons x xs)
  then have "adds m (P x \<and> (\<forall>y \<in> set xs. P y)) (\<lambda>issues. fold F xs (F x issues))"
    by (intro adds_comp) auto
  then show ?case by (simp add: comp_def)
qed (simp add: adds_def)

lemma adds_report_opt: "adds m (msg = None) (report_opt m path msg)"
  using adds_id adds_report by (cases msg) (auto simp: report_opt_def [abs_def])

lemma adds_probe: "adds m ok f \<Longrightarrow> 0 < m \<Longrightarrow> f [] = [] \<longleftrightarrow> ok"
  by (auto simp: adds_def dest!: spec [of _ "[]"])

lemma adds_cong: "adds m a f \<Longrightarrow> a = b \<Longrightarrow> (\<And>issues. f issues = g issues) \<Longrightarrow> adds m b g"
  by (simp add: adds_def)

lemma adds_guard: "adds m ok f \<Longrightarrow> adds m ok (\<lambda>issues. if length issues \<ge> m then issues else f issues)"
  unfolding adds_def by (metis append.right_neutral not_less)

text \<open>The keywords of one object schema, when walks of smaller calls behave.\<close>

lemma adds_keywords:
  fixes E and s and inst :: jsval
  assumes "0 < maxIssues E" and "depth \<le> MAX_VALUE_DEPTH"
    and into: "\<And>child sub suffix. adds (maxIssues E) (agrees E child sub (depth + 1) 0)
      (walk E child sub (path @ suffix) (depth + 1) 0)"
    and here: "\<And>sub. size sub < size (JObj s) \<Longrightarrow>
      adds (maxIssues E) (agrees E inst sub depth refChain) (walk E inst sub path depth refChain)"
    and first: "adds (maxIssues E) ok issues0"
  defines "probe \<equiv> \<lambda>sub. walk E inst sub path depth refChain []"
  shows "adds (maxIssues E)
    (ok \<and> (\<forall>t \<in> set (keyword_tasks E s inst).
         case t of Report _ _ \<Rightarrow> False | Into child sub _ \<Rightarrow> agrees E child sub (depth + 1) 0) \<and>
     (\<forall>sub \<in> set (subschemas s ''allOf''). agrees E inst sub depth refChain) \<and>
     (arr_of (get_prop s ''anyOf'') \<noteq> None \<longrightarrow>
        (\<exists>sub \<in> set (subschemas s ''anyOf''). agrees E inst sub depth refChain)) \<and>
     (arr_of (get_prop s ''oneOf'') \<noteq> None \<longrightarrow>
        length (filter (\<lambda>sub. agrees E inst sub depth refChain) (subschemas s ''oneOf'')) = 1) \<and>
     (get_prop s ''not'' \<noteq> JUndef \<longrightarrow> \<not> agrees E inst (get_prop s ''not'') depth refChain))
    (\<lambda>issues.
      let issues1 = fold (\<lambda>t acc. case t of
             Report suffix message \<Rightarrow> report (maxIssues E) (path @ suffix) message acc
           | Into child sub suffix \<Rightarrow> walk E child sub (path @ suffix) (depth + 1) 0 acc)
             (keyword_tasks E s inst) (issues0 issues);
          issues2 = fold (\<lambda>sub acc. walk E inst sub path depth refChain acc) (subschemas s ''allOf'') issues1;
          issues3 = report_opt (maxIssues E) path (any_of_issue s (map probe (subschemas s ''anyOf''))) issues2;
          issues4 = report_opt (maxIssues E) path (one_of_issue s (map probe (subschemas s ''oneOf''))) issues3
      in if get_prop s ''not'' \<noteq> JUndef \<and> probe (get_prop s ''not'') = []
         then report (maxIssues E) path (''must not match the schema in '' @ quoted ''not'') issues4
         else issues4)"
    (is "adds ?m _ _")
proof -
  have probe: "probe sub = [] \<longleftrightarrow> agrees E inst sub depth refChain" if "size sub < size (JObj s)" for sub
    unfolding probe_def using here [OF that] assms(1) by (rule adds_probe)
  let ?F = "\<lambda>t acc. case t of Report suffix message \<Rightarrow> report ?m (path @ suffix) message acc
    | Into child sub suffix \<Rightarrow> walk E child sub (path @ suffix) (depth + 1) 0 acc"
  let ?T = "\<lambda>t. case t of Report _ _ \<Rightarrow> False | Into child sub _ \<Rightarrow> agrees E child sub (depth + 1) 0"
  have tasks: "adds ?m (?T t) (?F t)" for t
    using into adds_report by (cases t) simp_all
  have ex: "list_ex (\<lambda>found. found = []) (map probe (subschemas s k)) \<longleftrightarrow>
      (\<exists>sub \<in> set (subschemas s k). agrees E inst sub depth refChain)" for k
  proof -
    have "list_ex (\<lambda>found. found = []) (map probe (subschemas s k)) \<longleftrightarrow>
        (\<exists>sub \<in> set (subschemas s k). probe sub = [])"
      by (simp only: list_ex_iff set_map bex_simps)
    then show ?thesis using probe [OF subschemas_size] by simp
  qed
  have any: "any_of_issue s (map probe (subschemas s ''anyOf'')) = None \<longleftrightarrow>
      (arr_of (get_prop s ''anyOf'') \<noteq> None \<longrightarrow>
        (\<exists>sub \<in> set (subschemas s ''anyOf''). agrees E inst sub depth refChain))"
    by (simp add: any_of_issue_def ex)
  have "filter (\<lambda>found. found = []) (map probe (subschemas s k)) =
      map probe (filter (\<lambda>sub. agrees E inst sub depth refChain) (subschemas s k))" for k
    unfolding filter_map using probe [OF subschemas_size]
    by (intro arg_cong [where f = "map probe"] filter_cong) simp_all
  then have one: "one_of_issue s (map probe (subschemas s ''oneOf'')) = None \<longleftrightarrow>
      (arr_of (get_prop s ''oneOf'') \<noteq> None \<longrightarrow>
        length (filter (\<lambda>sub. agrees E inst sub depth refChain) (subschemas s ''oneOf'')) = 1)"
    by (auto simp: one_of_issue_def Let_def)
  have neg: "probe (get_prop s ''not'') = [] \<longleftrightarrow> agrees E inst (get_prop s ''not'') depth refChain"
    by (rule probe) (rule get_prop_size)
  have not_step: "adds ?m (get_prop s ''not'' \<noteq> JUndef \<longrightarrow> \<not> agrees E inst (get_prop s ''not'') depth refChain)
      (\<lambda>issues. if get_prop s ''not'' \<noteq> JUndef \<and> probe (get_prop s ''not'') = []
        then report ?m path (''must not match the schema in '' @ quoted ''not'') issues else issues)"
    using adds_id adds_report unfolding neg
    by (cases "get_prop s ''not'' \<noteq> JUndef \<and> agrees E inst (get_prop s ''not'') depth refChain") auto
  let ?keywords = "\<lambda>issues. fold ?F (keyword_tasks E s inst) (issues0 issues)"
  let ?all = "\<lambda>issues. fold (\<lambda>sub acc. walk E inst sub path depth refChain acc) (subschemas s ''allOf'') (?keywords issues)"
  have 1: "adds ?m (ok \<and> (\<forall>t \<in> set (keyword_tasks E s inst). ?T t)) ?keywords"
    by (rule adds_comp [OF first]) (rule adds_fold [OF tasks])
  have 2: "adds ?m ((ok \<and> (\<forall>t \<in> set (keyword_tasks E s inst). ?T t)) \<and>
      (\<forall>sub \<in> set (subschemas s ''allOf''). agrees E inst sub depth refChain)) ?all"
    by (rule adds_comp [OF 1]) (rule adds_fold [OF here [OF subschemas_size]])
  note steps = adds_comp [OF adds_comp [OF adds_comp [OF 2 adds_report_opt [where path = path]]
      adds_report_opt [where path = path]] not_step]
  show ?thesis
    unfolding Let_def
    by (rule adds_cong [OF steps [of "any_of_issue s (map probe (subschemas s ''anyOf''))"
          "one_of_issue s (map probe (subschemas s ''oneOf''))"]])
      (simp_all only: any one conj_assoc)
qed

definition walk_order :: "((jsval \<times> nat \<times> nat) \<times> (jsval \<times> nat \<times> nat)) set" where
  "walk_order = measures [\<lambda>(node, depth, refChain). MAX_VALUE_DEPTH + 1 - depth,
     \<lambda>(node, depth, refChain). MAX_REF_CHAIN - refChain, \<lambda>(node, depth, refChain). size node]"

lemma wf_walk_order: "wf walk_order"
  by (simp add: walk_order_def)

text \<open>One call of \<open>walk\<close>, when the calls below it in the order behave.\<close>

lemma walk_adds_step:
  assumes "0 < maxIssues E"
    and IH: "\<And>inst' node' depth' refChain' path'.
      ((node', depth', refChain'), (node, depth, refChain)) \<in> walk_order \<Longrightarrow>
      adds (maxIssues E) (agrees E inst' node' depth' refChain') (walk E inst' node' path' depth' refChain')"
  shows "adds (maxIssues E) (agrees E inst node depth refChain) (walk E inst node path depth refChain)"
proof -
  let ?m = "maxIssues E"
  have start: "adds ?m (agrees E inst node depth refChain) (walk E inst node path depth refChain)"
    if "adds ?m (agrees E inst node depth refChain) g"
      "\<And>issues. length issues < ?m \<Longrightarrow> walk E inst node path depth refChain issues = g issues"
    for g
  proof (rule adds_cong [OF adds_guard [OF that(1)] refl])
    fix issues
    show "(if length issues \<ge> ?m then issues else g issues) = walk E inst node path depth refChain issues"
      using that(2) [of issues] by (cases "length issues \<ge> ?m") (simp_all add: walk.simps [of E inst node])
  qed
  have reports: "adds ?m (agrees E inst node depth refChain) (walk E inst node path depth refChain)"
    if "\<not> agrees E inst node depth refChain"
      "\<And>issues. length issues < ?m \<Longrightarrow> walk E inst node path depth refChain issues = report ?m p msg issues"
    for p msg
    using that start [of "report ?m p msg"] adds_report [of ?m p msg] by simp
  consider (deep) "depth > MAX_VALUE_DEPTH" | (obj) s where "depth \<le> MAX_VALUE_DEPTH" "node = JObj s"
    | (other) "depth \<le> MAX_VALUE_DEPTH" "\<And>s. node \<noteq> JObj s"
    by (cases node) (auto simp: not_le [symmetric])
  then show ?thesis
  proof cases
    case deep
    then have "\<not> agrees E inst node depth refChain" by (subst agrees.simps) simp
    with deep show ?thesis
      by (intro reports [where p = path and msg = "''the value is nested more than '' @
          string_of_nat MAX_VALUE_DEPTH @ '' levels deep''"])
        (simp_all add: walk.simps [of E inst node])
  next
    case other
    show ?thesis
    proof (cases "node = JBool False")
      case True
      with other have "\<not> agrees E inst node depth refChain" by (subst agrees.simps) simp
      with True other show ?thesis
        by (intro reports [where p = path and msg = "''no value is allowed here''"])
          (simp_all add: walk.simps [of E inst "JBool False"])
    next
      case False
      with other have "agrees E inst node depth refChain"
        by (subst agrees.simps) (cases node; auto)
      moreover from False other have "walk E inst node path depth refChain issues = issues" for issues
        by (subst walk.simps) (cases node; auto)
      ultimately show ?thesis using start [of "\<lambda>issues. issues"] by (simp add: adds_id)
    qed
  next
    case obj
    have into: "adds ?m (agrees E child sub (depth + 1) 0) (walk E child sub (path @ suffix) (depth + 1) 0)"
      for child sub suffix
      by (rule IH) (use obj(1) in \<open>simp add: walk_order_def Suc_diff_le\<close>)
    have here: "adds ?m (agrees E inst sub depth refChain) (walk E inst sub path depth refChain)"
      if "size sub < size (JObj s)" for sub
      by (rule IH) (use obj(2) that in \<open>simp add: walk_order_def\<close>)
    show ?thesis
    proof (cases "\<exists>msg. ref_step E s refChain = RefError msg")
      case True
      then obtain msg where "ref_step E s refChain = RefError msg" by blast
      with obj show ?thesis
        by (intro reports [where p = path and msg = msg])
          (simp_all add: agrees.simps [of E inst "JObj s"] walk.simps [of E inst "JObj s"])
    next
      case False
      define issues0 where "issues0 = (case ref_step E s refChain of
          Follow target \<Rightarrow> walk E inst target path depth (refChain + 1) | _ \<Rightarrow> (\<lambda>issues. issues))"
      define ok where "ok = (case ref_step E s refChain of
          Follow target \<Rightarrow> agrees E inst target depth (refChain + 1) | _ \<Rightarrow> True)"
      have first: "adds ?m ok issues0"
      proof (cases "ref_step E s refChain")
        case (Follow target)
        then have "((target, depth, refChain + 1), (node, depth, refChain)) \<in> walk_order"
          using ref_step_chain [OF Follow] by (simp add: walk_order_def diff_less_mono2)
        with Follow show ?thesis by (simp add: ok_def issues0_def IH)
      qed (use False in \<open>simp_all add: ok_def issues0_def adds_id\<close>)
      note unfold = agrees.simps [of E inst "JObj s"] walk.simps [of E inst "JObj s"]
      show ?thesis
      proof (cases "inst = JNull \<and> get_prop s ''nullable'' = JBool True")
        case True
        with False obj have "agrees E inst node depth refChain = ok"
          by (subst agrees.simps) (auto simp: ok_def split: ref_outcome.splits)
        moreover from True False obj have "walk E inst node path depth refChain issues = issues0 issues"
          if "length issues < ?m" for issues
          using that by (subst walk.simps) (auto simp: issues0_def Let_def split: ref_outcome.splits)
        ultimately show ?thesis using start [of issues0] first by simp
      next
        case present: False
        show ?thesis
        proof (cases "type_issue s inst")
          case (Some msg)
          with False obj present have "\<not> agrees E inst node depth refChain"
            by (auto simp: unfold(1) split: ref_outcome.splits)
          moreover from Some False obj present
          have "walk E inst node path depth refChain issues = report ?m path msg (issues0 issues)"
            if "length issues < ?m" for issues
            using that by (auto simp: unfold(2) issues0_def Let_def split: ref_outcome.splits)
          ultimately show ?thesis
            using start [of "\<lambda>issues. report ?m path msg (issues0 issues)"]
              adds_comp [OF first adds_report [of ?m path msg]] by simp
        next
          case None
          note kws = adds_keywords [where E = E and s = s and inst = inst and path = path and depth = depth and refChain = refChain and ok = ok and ?issues0.0 = issues0, OF assms(1) obj(1) _ _ first]
          show ?thesis
          proof (rule start [OF adds_cong [OF kws _ refl]], goal_cases)
            case 1
            show ?case by (rule into)
          next
            case 2
            then show ?case by (rule here)
          next
            case 3
            from None False obj present show ?case
              by (auto simp: unfold(1) ok_def split: ref_outcome.splits)
          next
            case (4 issues)
            from 4 None False obj present show ?case
              by (auto simp: unfold(2) issues0_def split: ref_outcome.splits)
          qed
        qed
      qed
    qed
  qed
qed

lemma walk_adds:
  assumes "0 < maxIssues E"
  shows "adds (maxIssues E) (agrees E inst node depth refChain) (walk E inst node path depth refChain)"
proof -
  have "\<forall>inst path. case x of (node, depth, refChain) \<Rightarrow>
      adds (maxIssues E) (agrees E inst node depth refChain) (walk E inst node path depth refChain)" for x
  proof (induction x rule: wf_induct_rule [OF wf_walk_order])
    case (1 x)
    obtain node depth refChain where x: "x = (node, depth, refChain)" by (cases x)
    have "adds (maxIssues E) (agrees E inst node depth refChain) (walk E inst node path depth refChain)"
      for inst path
      by (rule walk_adds_step [OF assms]) (use 1 x in fastforce)
    with x show ?case by simp
  qed
  then show ?thesis by fastforce
qed

section \<open>The walk and the meaning agree\<close>

lemma deepEqual_same: "deepEqual a b \<longleftrightarrow> same_json a b"
proof (induction a b rule: deepEqual.induct)
  case (1 vs b)
  show ?case
  proof (cases b)
    case (JArr ws)
    have "deepEqual x y \<longleftrightarrow> same_json x y" if "(x, y) \<in> set (zip vs ws)" for x y
      using 1 [OF JArr that refl] .
    then show ?thesis by (auto simp: JArr list_all2_iff list_all_iff)
  qed simp_all
next
  case (2 ps b)
  show ?case
  proof (cases b)
    case (JObj qs)
    have "deepEqual x y \<longleftrightarrow> same_json x y" if "(k, x) \<in> set ps" "map_of qs k = Some y" for k x y
      using 2 [OF JObj that(1) refl that(2)] .
    then show ?thesis by (fastforce simp: JObj list_all_iff split: option.splits)
  qed simp_all
next
  case (3 m b)
  then show ?case by (cases b) auto
qed auto

abbreviation fulfilled :: "(jsval \<Rightarrow> jsval \<Rightarrow> bool) \<Rightarrow> task \<Rightarrow> bool" where
  "fulfilled C t \<equiv> (case t of Report _ _ \<Rightarrow> False | Into child sub _ \<Rightarrow> C child sub)"

lemma type_issue_holds: "type_issue s v = None \<longleftrightarrow> type_holds s v"
proof -
  have m: "matchesType v (JStr t) \<longleftrightarrow> has_type v t" for t
    by (cases v) (auto simp: matchesType_def)
  have o: "\<not> matchesType v t" if "\<And>x. t \<noteq> JStr x" for t using that by (auto simp: matchesType_def)
  have ex: "list_ex (matchesType v) ts \<longleftrightarrow> (\<exists>t. JStr t \<in> set ts \<and> has_type v t)" for ts
    using m o by (metis list_ex_iff)
  show ?thesis
    using m o by (cases "get_prop s ''type''") (simp_all add: type_issue_def type_holds_def arr_of_def ex nullish_def)
qed

lemma issue_if_fulfilled: "(\<forall>t \<in> set (issue_if b m). fulfilled C t) \<longleftrightarrow> \<not> b"
  by (simp add: issue_if_def)

lemma limit_fulfilled:
  "(\<forall>t \<in> set (limit E s k bad before after). fulfilled C t) \<longleftrightarrow> (\<forall>n. get_prop s k = JNum n \<longrightarrow> \<not> bad n)"
  by (cases "get_prop s k") (simp_all add: limit_def num_of_def issue_if_def)

lemma value_tasks_hold: "(\<forall>t \<in> set (value_tasks E s v). fulfilled C t) \<longleftrightarrow> values_hold s v"
proof -
  have enum: "(\<forall>t \<in> set (case arr_of (get_prop s ''enum'') of None \<Rightarrow> []
      | Some options \<Rightarrow> issue_if (\<not> list_ex (\<lambda>opt. deepEqual opt v) options) (m options)). fulfilled C t) \<longleftrightarrow>
    (\<forall>options. get_prop s ''enum'' = JArr options \<longrightarrow> (\<exists>opt \<in> set options. same_json opt v))" for m
    by (cases "get_prop s ''enum''") (auto simp: arr_of_def issue_if_def list_ex_iff deepEqual_same)
  have const: "has_own s ''const'' \<and> \<not> deepEqual (get_prop s ''const'') v \<longleftrightarrow>
      \<not> (\<forall>c. map_of s ''const'' = Some c \<longrightarrow> same_json c v)"
    by (auto simp: has_own_def get_prop_def deepEqual_same)
  show ?thesis
    unfolding value_tasks_def values_hold_def set_append ball_Un enum issue_if_fulfilled const by blast
qed

lemma in_concat_map: "x \<in> set (concat (map f xs)) \<longleftrightarrow> (\<exists>y \<in> set xs. x \<in> set (f y))"
  by (induction xs) auto

lemma string_tasks_hold: "(\<forall>t \<in> set (string_tasks E s x). fulfilled C t) \<longleftrightarrow> string_holds E s x"
proof -
  have pat: "(\<forall>t \<in> set (case str_of (get_prop s ''pattern'') of None \<Rightarrow> []
      | Some p \<Rightarrow> (case compilePattern E p of None \<Rightarrow> [] | Some matches \<Rightarrow> issue_if (\<not> matches x) (m p))). fulfilled C t) \<longleftrightarrow>
    (\<forall>p matches. get_prop s ''pattern'' = JStr p \<longrightarrow> compilePattern E p = Some matches \<longrightarrow> matches x)" for m
  proof (cases "get_prop s ''pattern''")
    case (JStr p)
    then show ?thesis by (cases "compilePattern E p") (simp_all add: str_of_def issue_if_def)
  qed (simp_all add: str_of_def)
  show ?thesis
    unfolding string_tasks_def Let_def set_append ball_Un pat string_holds_def size_allowed_def limit_fulfilled by blast
qed

lemma near_integer:
  fixes q :: rat
  assumes "eps < 1 / 2"
  shows "\<bar>q - of_int \<lfloor>q + 1 / 2\<rfloor>\<bar> \<le> eps \<longleftrightarrow> (\<exists>k :: int. \<bar>q - of_int k\<bar> \<le> eps)"
proof
  assume "\<exists>k :: int. \<bar>q - of_int k\<bar> \<le> eps"
  then obtain k :: int where k: "\<bar>q - of_int k\<bar> \<le> eps" by blast
  with assms have "of_int k \<le> q + 1 / 2" "q + 1 / 2 < of_int k + 1" by linarith+
  then have "\<lfloor>q + 1 / 2\<rfloor> = k" by (simp add: floor_unique)
  with k show "\<bar>q - of_int \<lfloor>q + 1 / 2\<rfloor>\<bar> \<le> eps" by simp
qed blast

lemma not_multiple_near:
  "not_multiple (Fin a) (Fin b) \<longleftrightarrow> \<not> (\<exists>k :: int. \<bar>a / b - of_int k\<bar> \<le> 1 / 1000000000)"
  by (subst near_integer [symmetric]) (simp_all add: not_multiple_def Let_def not_le)

lemma number_tasks_hold: "(\<forall>t \<in> set (number_tasks E s x). fulfilled C t) \<longleftrightarrow> number_holds s x"
proof -
  have "(\<forall>n. get_prop s ''multipleOf'' = JNum n \<longrightarrow> \<not> (js_lt (Fin 0) n \<and> not_multiple x n)) \<longleftrightarrow>
    (\<forall>a b. x = Fin a \<longrightarrow> get_prop s ''multipleOf'' = JNum (Fin b) \<longrightarrow> 0 < b \<longrightarrow>
        (\<exists>k :: int. \<bar>a / b - of_int k\<bar> \<le> 1 / 1000000000))"
  proof (cases "\<exists>a b. x = Fin a \<and> get_prop s ''multipleOf'' = JNum (Fin b)")
    case True
    then obtain a b where "x = Fin a" "get_prop s ''multipleOf'' = JNum (Fin b)" by blast
    then show ?thesis using not_multiple_near [of a b] by auto
  next
    case False
    then show ?thesis by (auto simp: not_multiple_def split: jsnum.splits)
  qed
  then show ?thesis
    unfolding number_tasks_def set_append ball_Un number_holds_def limit_fulfilled by blast
qed

lemma no_duplicate:
  "duplicate_index items = None \<longleftrightarrow>
     (\<forall>i < length items. same_json (items ! i) (items ! i) \<and> (\<forall>j < i. \<not> same_json (items ! i) (items ! j)))"
proof -
  have "find_index P xs = Some i \<longleftrightarrow> P (xs ! i) \<and> (\<forall>j < i. \<not> P (xs ! j))" if "i < length xs" for P i and xs :: "jsval list"
  proof
    assume "find_index P xs = Some i"
    then show "P (xs ! i) \<and> (\<forall>j < i. \<not> P (xs ! j))" by (auto simp: find_index_def find_Some_iff)
  next
    assume "P (xs ! i) \<and> (\<forall>j < i. \<not> P (xs ! j))"
    with that show "find_index P xs = Some i" unfolding find_index_def find_Some_iff by (auto intro!: exI [of _ i])
  qed
  then show ?thesis by (auto simp: duplicate_index_def find_None_iff deepEqual_same)
qed

lemma item_schemas_item:
  "(case item_schemas s of (tuple, rest) \<Rightarrow>
      if i < length tuple then [Into item (tuple ! i) x] else if rest \<noteq> JUndef then [Into item rest x] else []) =
   (case item_schema s i of None \<Rightarrow> [] | Some sub \<Rightarrow> [Into item sub x])"
  by (cases "get_prop s ''prefixItems''"; cases "get_prop s ''items''")
    (simp_all add: item_schemas_def item_schema_def from_tuple_def arr_of_def)

lemma array_tasks_hold: "(\<forall>t \<in> set (array_tasks E s items). fulfilled C t) \<longleftrightarrow> array_holds C s items"
proof -
  have unique: "(\<forall>t \<in> set (if get_prop s ''uniqueItems'' = JBool True
       then (case duplicate_index items of None \<Rightarrow> [] | Some i \<Rightarrow> [Report (index_suffix i) ''duplicates an earlier item''])
       else []). fulfilled C t) \<longleftrightarrow>
    (get_prop s ''uniqueItems'' = JBool True \<longrightarrow>
        (\<forall>i < length items. same_json (items ! i) (items ! i) \<and> (\<forall>j < i. \<not> same_json (items ! i) (items ! j))))"
    unfolding no_duplicate [symmetric]
    by (cases "get_prop s ''uniqueItems'' = JBool True"; cases "duplicate_index items"; simp only:) simp_all
  have each: "(\<forall>t \<in> set (case item_schemas s of (tuple, rest) \<Rightarrow>
           concat (map (\<lambda>(i, item).
             if i < length tuple then [Into item (tuple ! i) (index_suffix i)]
             else if rest \<noteq> JUndef then [Into item rest (index_suffix i)]
             else []) (List.enumerate 0 items))). fulfilled C t) \<longleftrightarrow>
    (\<forall>i < length items. \<forall>sub. item_schema s i = Some sub \<longrightarrow> C (items ! i) sub)"
  proof -
    obtain tuple rest where ts: "item_schemas s = (tuple, rest)" by fastforce
    have one: "(\<forall>t \<in> set ((\<lambda>(i, item). if i < length tuple then [Into item (tuple ! i) (index_suffix i)]
             else if rest \<noteq> JUndef then [Into item rest (index_suffix i)] else []) q). fulfilled C t) \<longleftrightarrow>
      (\<forall>sub. item_schema s (fst q) = Some sub \<longrightarrow> C (snd q) sub)" for q
    proof -
      have "(\<lambda>(i, item). if i < length tuple then [Into item (tuple ! i) (index_suffix i)]
             else if rest \<noteq> JUndef then [Into item rest (index_suffix i)] else []) q =
        (case item_schema s (fst q) of None \<Rightarrow> [] | Some sub \<Rightarrow> [Into (snd q) sub (index_suffix (fst q))])"
        using item_schemas_item [where s = s and i = "fst q" and item = "snd q" and x = "index_suffix (fst q)"]
        by (cases q) (simp only: ts prod.case fst_conv snd_conv)
      then show ?thesis by (cases "item_schema s (fst q)") simp_all
    qed
    have "(\<forall>t \<in> set (concat (map f qs)). fulfilled C t) \<longleftrightarrow> (\<forall>q \<in> set qs. \<forall>t \<in> set (f q). fulfilled C t)" for f qs
      using in_concat_map by metis
    note all = this
    have "(\<forall>q \<in> set (List.enumerate 0 items). \<forall>sub. item_schema s (fst q) = Some sub \<longrightarrow> C (snd q) sub) \<longleftrightarrow>
      (\<forall>i < length items. \<forall>sub. item_schema s i = Some sub \<longrightarrow> C (items ! i) sub)"
    proof -
      have "set (List.enumerate 0 items) = (\<lambda>i. (i, items ! i)) ` {..<length items}"
        by (auto simp: in_set_enumerate_eq image_iff)
      then show ?thesis by auto
    qed
    then show ?thesis unfolding ts prod.case all one .
  qed
  show ?thesis
    unfolding array_tasks_def Let_def set_append ball_Un unique each array_holds_def size_allowed_def limit_fulfilled by blast
qed

lemma property_tasks_hold: "(\<forall>t \<in> set (property_tasks E s key v). fulfilled C t) \<longleftrightarrow> property_holds E C s key v"
proof -
  define found where "found = (case map_of (props_of (get_prop s ''properties'')) key of
      None \<Rightarrow> [] | Some sub \<Rightarrow> [Into v sub (key_suffix key)]) @
    map (\<lambda>(_, sub). Into v sub (key_suffix key)) (filter (\<lambda>(matches, _). matches key) (pattern_schemas E s))"
  have own: "Into v sub (key_suffix key) \<in> set (case map_of (props_of (get_prop s ''properties'')) key of
      None \<Rightarrow> [] | Some sub \<Rightarrow> [Into v sub (key_suffix key)]) \<longleftrightarrow>
    (\<exists>subs. get_prop s ''properties'' = JObj subs \<and> map_of subs key = Some sub)" for sub
    by (cases "get_prop s ''properties''") (auto simp: props_of_def split: option.splits)
  have pat: "(\<exists>matches. (matches, sub) \<in> set (pattern_schemas E s) \<and> matches key) \<longleftrightarrow>
    (\<exists>subs p matches. get_prop s ''patternProperties'' = JObj subs \<and> (p, sub) \<in> set subs \<and>
        compilePattern E p = Some matches \<and> matches key)" for sub
  proof -
    have one: "(m, sub) \<in> set ((\<lambda>(p, sub). case compilePattern E p of None \<Rightarrow> [] | Some m \<Rightarrow> [(m, sub)]) q) \<longleftrightarrow>
        compilePattern E (fst q) = Some m \<and> snd q = sub" for m q by (cases q) (auto split: option.splits)
    have "(m, sub) \<in> set (pattern_schemas E s) \<longleftrightarrow>
        (\<exists>p. (p, sub) \<in> set (props_of (get_prop s ''patternProperties'')) \<and> compilePattern E p = Some m)" for m
      unfolding pattern_schemas_def in_concat_map one by force
    then show ?thesis by (cases "get_prop s ''patternProperties''") (auto simp: props_of_def)
  qed
  have "Into v sub (key_suffix key) \<in> set found \<longleftrightarrow> listed_for E s key sub" for sub
    unfolding found_def set_append Un_iff own listed_for_def pat [symmetric] by force
  moreover have "t \<in> set found \<Longrightarrow> \<exists>sub. t = Into v sub (key_suffix key)" for t
    by (auto simp: found_def split: option.splits)
  ultimately have listed: "set found = (\<lambda>sub. Into v sub (key_suffix key)) ` {sub. listed_for E s key sub}"
    by (intro set_eqI) (metis (no_types, lifting) image_iff mem_Collect_eq)
  have "property_tasks E s key v = (if found \<noteq> [] then found
         else (case get_prop s ''additionalProperties'' of
                 JBool False \<Rightarrow> [Report (key_suffix key) ''is not an allowed property'']
               | JObj sub \<Rightarrow> [Into v (JObj sub) (key_suffix key)]
               | JArr sub \<Rightarrow> [Into v (JArr sub) (key_suffix key)]
               | _ \<Rightarrow> []))"
    by (simp add: property_tasks_def Let_def found_def)
  moreover have "found \<noteq> [] \<longleftrightarrow> (\<exists>sub. listed_for E s key sub)" using listed by (auto simp flip: set_empty)
  ultimately show ?thesis
    using listed unfolding property_holds_def by (auto split: jsval.splits bool.splits)
qed

lemma object_tasks_hold: "(\<forall>t \<in> set (object_tasks E s ps). fulfilled C t) \<longleftrightarrow> object_holds E C s ps"
proof -
  have "(\<forall>t \<in> set (case arr_of (get_prop s ''required'') of
         None \<Rightarrow> []
       | Some keys \<Rightarrow> concat (map (\<lambda>k. case str_of k of
             None \<Rightarrow> []
           | Some key \<Rightarrow> if has_own ps key then [] else [Report (key_suffix key) ''is required'']) keys)). fulfilled C t) \<longleftrightarrow>
    (\<forall>keys key. get_prop s ''required'' = JArr keys \<longrightarrow> JStr key \<in> set keys \<longrightarrow> map_of ps key \<noteq> None)"
  proof -
    have "(\<forall>t \<in> set (case str_of k of None \<Rightarrow> []
        | Some key \<Rightarrow> if has_own ps key then [] else [Report (key_suffix key) ''is required'']). fulfilled C t) \<longleftrightarrow>
      (\<forall>key. k = JStr key \<longrightarrow> map_of ps key \<noteq> None)" for k
      by (cases k) (simp_all add: str_of_def has_own_def)
    note key = this
    show ?thesis
    proof (cases "get_prop s ''required''")
      case (JArr keys)
      show ?thesis unfolding JArr arr_of_def jsval.case option.case ball_simps set_concat set_map UN_ball_bex_simps key by auto
    qed (simp_all add: arr_of_def)
  qed
  moreover have "(\<forall>t \<in> set (concat (map (\<lambda>(key, v). property_tasks E s key v) ps)). fulfilled C t) \<longleftrightarrow>
      (\<forall>(key, v) \<in> set ps. property_holds E C s key v)"
    by (auto simp: property_tasks_hold [symmetric])
  ultimately show ?thesis
    unfolding object_tasks_def Let_def set_append ball_Un object_holds_def size_allowed_def limit_fulfilled by blast
qed

lemma keyword_tasks_hold: "(\<forall>t \<in> set (keyword_tasks E s v). fulfilled C t) \<longleftrightarrow> keywords_hold E C s v"
  unfolding keyword_tasks_def keywords_hold_def set_append ball_Un value_tasks_hold
  by (cases v) (simp_all add: string_tasks_hold number_tasks_hold array_tasks_hold object_tasks_hold)

subsection \<open>References\<close>

lemma split_on_join: "join [c] (split_on c t) = t" "split_on c t \<noteq> []" "\<forall>seg \<in> set (split_on c t). c \<notin> set seg"
proof (induction t)
  case (Cons a t)
  {
    case 1
    with Cons show ?case by (cases "split_on c t") (auto split: list.splits, (case_tac list; simp)+)
  next
    case 2
    show ?case by (auto split: list.splits)
  next
    case 3
    with Cons show ?case by (auto split: list.splits)
  }
qed simp_all

lemma split_on_plain: "c \<notin> set seg \<Longrightarrow> split_on c seg = [seg]"
  by (induction seg) auto

lemma split_on_append: "c \<notin> set seg \<Longrightarrow> split_on c (seg @ c # t) = seg # split_on c t"
  by (induction seg) auto

lemma join_split_on: "segs \<noteq> [] \<Longrightarrow> \<forall>seg \<in> set segs. c \<notin> set seg \<Longrightarrow> split_on c (join [c] segs) = segs"
  by (induction "[c]" segs rule: join.induct) (simp_all add: split_on_plain split_on_append)

lemma pointer_step_array:
  "pointer_step (JArr vs) seg = Some child \<longleftrightarrow> (\<exists>i < length vs. seg = string_of_nat i \<and> child = vs ! i)"
proof
  assume "pointer_step (JArr vs) seg = Some child"
  then show "\<exists>i < length vs. seg = string_of_nat i \<and> child = vs ! i"
    by (auto simp: find_Some_iff)
next
  assume "\<exists>i < length vs. seg = string_of_nat i \<and> child = vs ! i"
  then obtain i where i: "i < length vs" "seg = string_of_nat i" "child = vs ! i" by blast
  then have "find (\<lambda>i. string_of_nat i = seg) [0..<length vs] = Some i"
    unfolding find_Some_iff by (intro exI [of _ i]) (auto simp: string_of_nat_inj)
  with i show "pointer_step (JArr vs) seg = Some child" by simp
qed

lemma pointer_walk_leads: "pointer_walk E node segs = Some target \<longleftrightarrow> leads_to E node segs target"
proof
  assume "pointer_walk E node segs = Some target"
  then show "leads_to E node segs target"
  proof (induction E node segs rule: pointer_walk.induct)
    case (2 E node raw raws)
    then obtain child where c: "pointer_step node (pointer_segment E raw) = Some child" "leads_to E child raws target"
      by (auto split: option.splits)
    then show ?case
      using pointer_step_array by (cases node) (auto simp del: pointer_step.simps(2) intro: leads_to.intros)
  qed (simp add: leads_to.intros)
next
  assume "leads_to E node segs target"
  then show "pointer_walk E node segs = Some target"
  proof induction
    case (3 seg i vs segs target)
    then have "pointer_step (JArr vs) (pointer_segment E seg) = Some (vs ! i)" by (subst pointer_step_array) auto
    with 3 show ?case by (simp del: pointer_step.simps)
  qed simp_all
qed

lemma resolveRef_refers: "resolveRef E ref = Some target \<longleftrightarrow> refers_to E ref target"
proof (cases "ref = ''#''")
  case True
  then show ?thesis by (auto simp: resolveRef_def refers_to_def)
next
  case False
  show ?thesis
  proof (cases "take 2 ref = ''#/''")
    case True
    then obtain t where t: "ref = ''#/'' @ t" by (metis append_take_drop_id)
    have "(\<exists>segs. t = join ''/'' segs \<and> segs \<noteq> [] \<and> (\<forall>seg \<in> set segs. CHR ''/'' \<notin> set seg) \<and>
        leads_to E (JObj (root_schema E)) segs target) \<longleftrightarrow>
      leads_to E (JObj (root_schema E)) (split_on (CHR ''/'') t) target"
      using split_on_join [of "CHR ''/''" t] join_split_on [of _ "CHR ''/''"] by metis
    with t show ?thesis
      by (auto simp: resolveRef_def refers_to_def pointer_walk_leads [symmetric] split: option.splits)
  next
    case F: False
    with False show ?thesis by (auto simp: resolveRef_def refers_to_def)
  qed
qed

subsection \<open>One node\<close>

lemma reference_step:
  assumes "\<forall>target. refs < MAX_REF_CHAIN \<longrightarrow> A target = C target"
  shows "(\<forall>m. ref_step E s refs \<noteq> RefError m) \<and> (case ref_step E s refs of Follow target \<Rightarrow> A target | _ \<Rightarrow> True) \<longleftrightarrow>
    (case get_prop s ''$ref'' of
       JStr ref \<Rightarrow> if refs < MAX_REF_CHAIN then \<exists>target \<in> {t. refers_to E ref t}. C target else False
     | _ \<Rightarrow> True)"
  using assms resolveRef_refers [of E]
  by (cases "get_prop s ''$ref''") (auto simp: ref_step_def resolveRef_refers [symmetric] split: option.splits)

lemma exactly_one:
  "length (filter P xs) = 1 \<longleftrightarrow> (\<exists>i \<in> {..<length xs}. \<forall>j \<in> {..<length xs}. P (xs ! j) \<longleftrightarrow> j = i)"
proof -
  have "length (filter P xs) = 1 \<longleftrightarrow> (\<exists>i. {j. j < length xs \<and> P (xs ! j)} = {i})"
    unfolding length_filter_conv_card by (rule card_1_singleton_iff [unfolded One_nat_def [symmetric]])
  also have "\<dots> \<longleftrightarrow> (\<exists>i \<in> {..<length xs}. \<forall>j \<in> {..<length xs}. P (xs ! j) \<longleftrightarrow> j = i)" by blast
  finally show ?thesis .
qed

lemma combined:
  assumes "\<forall>sub. size sub < size (JObj s) \<longrightarrow> A sub = C sub"
  shows "(\<forall>sub \<in> set (subschemas s ''allOf''). A sub) \<longleftrightarrow>
      (case get_prop s ''allOf'' of JArr subs \<Rightarrow> \<forall>sub \<in> set subs. C sub | _ \<Rightarrow> True)"
    and "(arr_of (get_prop s ''anyOf'') \<noteq> None \<longrightarrow> (\<exists>sub \<in> set (subschemas s ''anyOf''). A sub)) \<longleftrightarrow>
      (case get_prop s ''anyOf'' of JArr subs \<Rightarrow> \<exists>sub \<in> set subs. C sub | _ \<Rightarrow> True)"
    and "(arr_of (get_prop s ''oneOf'') \<noteq> None \<longrightarrow> length (filter A (subschemas s ''oneOf'')) = 1) \<longleftrightarrow>
      (case get_prop s ''oneOf'' of
         JArr subs \<Rightarrow> \<exists>i \<in> {..<length subs}. \<forall>j \<in> {..<length subs}. C (subs ! j) \<longleftrightarrow> j = i
       | _ \<Rightarrow> True)"
    and "(get_prop s ''not'' \<noteq> JUndef \<longrightarrow> \<not> A (get_prop s ''not'')) \<longleftrightarrow> get_prop s ''not'' = JUndef \<or> \<not> C (get_prop s ''not'')"
proof -
  have same: "A sub = C sub" if "get_prop s k = JArr subs" "sub \<in> set subs" for k subs sub
    using assms listed_size [OF that] by blast
  show "(\<forall>sub \<in> set (subschemas s ''allOf''). A sub) \<longleftrightarrow>
      (case get_prop s ''allOf'' of JArr subs \<Rightarrow> \<forall>sub \<in> set subs. C sub | _ \<Rightarrow> True)"
    using same [of "''allOf''"] by (cases "get_prop s ''allOf''") (simp_all add: subschemas_def arr_of_def)
  show "(arr_of (get_prop s ''anyOf'') \<noteq> None \<longrightarrow> (\<exists>sub \<in> set (subschemas s ''anyOf''). A sub)) \<longleftrightarrow>
      (case get_prop s ''anyOf'' of JArr subs \<Rightarrow> \<exists>sub \<in> set subs. C sub | _ \<Rightarrow> True)"
    using same [of "''anyOf''"] by (cases "get_prop s ''anyOf''") (simp_all add: subschemas_def arr_of_def)
  have "filter A subs = filter C subs" if "get_prop s ''oneOf'' = JArr subs" for subs
    using same [OF that] by (simp cong: filter_cong)
  then show "(arr_of (get_prop s ''oneOf'') \<noteq> None \<longrightarrow> length (filter A (subschemas s ''oneOf'')) = 1) \<longleftrightarrow>
      (case get_prop s ''oneOf'' of
         JArr subs \<Rightarrow> \<exists>i \<in> {..<length subs}. \<forall>j \<in> {..<length subs}. C (subs ! j) \<longleftrightarrow> j = i
       | _ \<Rightarrow> True)"
    by (cases "get_prop s ''oneOf''") (simp_all add: subschemas_def arr_of_def exactly_one del: One_nat_def)
  show "(get_prop s ''not'' \<noteq> JUndef \<longrightarrow> \<not> A (get_prop s ''not'')) \<longleftrightarrow> get_prop s ''not'' = JUndef \<or> \<not> C (get_prop s ''not'')"
    using assms get_prop_size [of s "''not''"] by blast
qed

lemma agrees_object:
  assumes "depth \<le> MAX_VALUE_DEPTH"
  shows "agrees E v (JObj s) depth refs \<longleftrightarrow>
    ((\<forall>m. ref_step E s refs \<noteq> RefError m) \<and>
      (case ref_step E s refs of Follow target \<Rightarrow> agrees E v target depth (refs + 1) | _ \<Rightarrow> True)) \<and>
    (v = JNull \<and> get_prop s ''nullable'' = JBool True \<or>
     type_holds s v \<and>
     keywords_hold E (\<lambda>child sub. agrees E child sub (depth + 1) 0) s v \<and>
     (\<forall>sub \<in> set (subschemas s ''allOf''). agrees E v sub depth refs) \<and>
     (arr_of (get_prop s ''anyOf'') \<noteq> None \<longrightarrow> (\<exists>sub \<in> set (subschemas s ''anyOf''). agrees E v sub depth refs)) \<and>
     (arr_of (get_prop s ''oneOf'') \<noteq> None \<longrightarrow>
        length (filter (\<lambda>sub. agrees E v sub depth refs) (subschemas s ''oneOf'')) = 1) \<and>
     (get_prop s ''not'' \<noteq> JUndef \<longrightarrow> \<not> agrees E v (get_prop s ''not'') depth refs))"
  using assms unfolding type_issue_holds [symmetric] keyword_tasks_hold [symmetric]
  by (subst agrees.simps) (cases "ref_step E s refs"; simp)

lemma agrees_conforms: "agrees E v node depth refs = conforms E v node depth refs"
proof -
  have "\<forall>v. case x of (node, depth, refs) \<Rightarrow> agrees E v node depth refs = conforms E v node depth refs" for x
  proof (induction x rule: wf_induct_rule [OF wf_walk_order])
    case (1 x)
    obtain node depth refs where x: "x = (node, depth, refs)" by (cases x)
    have IH: "agrees E v node' depth' refs' = conforms E v node' depth' refs'"
      if "((node', depth', refs'), (node, depth, refs)) \<in> walk_order" for v node' depth' refs'
      using 1 [of "(node', depth', refs')"] that x by blast
    have "agrees E v node depth refs = conforms E v node depth refs" for v
    proof (cases "depth \<le> MAX_VALUE_DEPTH \<and> (\<exists>s. node = JObj s)")
      case False
      then show ?thesis by (subst agrees.simps, subst conforms.simps) (cases node; simp)
    next
      case True
      then obtain s where s: "node = JObj s" and d: "depth \<le> MAX_VALUE_DEPTH" by blast
      have below: "agrees E child sub (depth + 1) 0 = conforms E child sub (depth + 1) 0" for child sub
        by (rule IH) (use d in \<open>simp add: walk_order_def Suc_diff_le\<close>)
      have here: "\<forall>sub. size sub < size (JObj s) \<longrightarrow> agrees E v sub depth refs = conforms E v sub depth refs"
        by (intro allI impI IH) (use s in \<open>simp add: walk_order_def\<close>)
      have next_ref: "\<forall>target. refs < MAX_REF_CHAIN \<longrightarrow>
          agrees E v target depth (refs + 1) = conforms E v target depth (refs + 1)"
        by (intro allI impI IH) (simp add: walk_order_def diff_less_mono2)
      note parts = combined [where A = "\<lambda>sub. agrees E v sub depth refs" and C = "\<lambda>sub. conforms E v sub depth refs", OF here]
      show ?thesis
        unfolding s agrees_object [OF d] below
          reference_step [where A = "\<lambda>t. agrees E v t depth (refs + 1)" and C = "\<lambda>t. conforms E v t depth (refs + 1)", OF next_ref]
          parts conforms.simps [of E v "JObj s"]
        using d by simp
    qed
    with x show ?case by simp
  qed
  then show ?thesis by fastforce
qed

section \<open>The validator decides conformance\<close>

lemma validate_iff_conforms:
  assumes "0 < maxIssues E"
  shows "validateJsonSchema E v = [] \<longleftrightarrow> conforms E v (JObj (root_schema E)) 0 0"
  using walk_adds [OF assms, of v "JObj (root_schema E)" 0 0 "''$''"] assms
  unfolding adds_def validateJsonSchema_def agrees_conforms by (metis append_Nil length_0_conv less_imp_le list.size(3))

lemma validate_issue_cap: "0 < maxIssues E \<Longrightarrow> length (validateJsonSchema E v) \<le> maxIssues E"
  using walk_adds [of E v "JObj (root_schema E)" 0 0 "''$''"]
  unfolding adds_def validateJsonSchema_def by (metis length_0_conv less_imp_le list.size(3))

text \<open>
  C24: the validator is right about validity. With room for at least one issue, it finds no issue exactly
  when the value conforms to the schema, as the meaning of each keyword says: types, \<open>enum\<close> and \<open>const\<close>, the
  limits of strings, numbers, arrays and objects, required and other properties, items, combinations,
  \<open>nullable\<close> and local references. Stopping early, scratch lists and the order in which issues are found make
  no difference, and it never returns more issues than allowed. Conforming includes the validator's own bounds
  on the nesting of values and on chains of references.
\<close>

theorem validator_decides_conformance:
  assumes "0 < maxIssues E"
  shows "(validateJsonSchema E v = [] \<longleftrightarrow> conforms E v (JObj (root_schema E)) 0 0) \<and>
    length (validateJsonSchema E v) \<le> maxIssues E"
  using validate_iff_conforms [OF assms] validate_issue_cap [OF assms] by blast

text \<open>An environment for examples: patterns are compared literally.\<close>

definition sample_env :: "(string \<times> jsval) list \<Rightarrow> schema_env" where
  "sample_env s = \<lparr>root_schema = s, compilePattern = (\<lambda>p. Some (\<lambda>t. t = p)), print_num = plain_number,
     decodeURIComponent = (\<lambda>x. x), maxIssues = 20\<rparr>"

definition list_schema :: "(string \<times> jsval) list" where
  "list_schema =
     [(''type'', JArr [JStr ''object'', JStr ''null'']),
      (''required'', JArr [JStr ''next'']),
      (''properties'', JObj [(''next'', JObj [(''$ref'', JStr ''#'')])])]"

lemmas schema_eval =
  sample_env_def list_schema_def ref_step_def resolveRef_def get_prop_def type_issue_def arr_of_def
  matchesType_def keyword_tasks_def value_tasks_def object_tasks_def property_tasks_def limit_def
  num_of_def str_of_def props_of_def pattern_schemas_def has_own_def subschemas_def any_of_issue_def
  one_of_issue_def issue_if_def key_suffix_def is_identifier_def is_ident_start_def is_digit_def
  report_def report_opt_def MAX_VALUE_DEPTH_def MAX_REF_CHAIN_def

theorem validator_decides_conformance_witness:
  "validateJsonSchema (sample_env list_schema) (JObj [(''next'', JNull)]) = [] \<and>
   conforms (sample_env list_schema) (JObj [(''next'', JNull)]) (JObj list_schema) 0 0"
proof -
  have "validateJsonSchema (sample_env list_schema) (JObj [(''next'', JNull)]) = []"
    by (simp add: validateJsonSchema_def walk.simps schema_eval)
  with validator_decides_conformance [of "sample_env list_schema" "JObj [(''next'', JNull)]"]
  show ?thesis by (simp add: sample_env_def)
qed

section \<open>Problems of the schema itself\<close>

definition data_keywords :: "string set" where
  "data_keywords = {''const'', ''enum'', ''default'', ''examples''}"

definition node_problems :: "schema_env \<Rightarrow> (string \<times> jsval) list \<Rightarrow> string \<Rightarrow> string list" where
  "node_problems E s loc =
     (let place = (if loc = [] then ''/'' else loc) in
      (case str_of (get_prop s ''pattern'') of
         None \<Rightarrow> []
       | Some p \<Rightarrow> if compilePattern E p = None
                   then [place @ '': pattern '' @ json_quote p @ '' is not a valid regular expression''] else []) @
      (case str_of (get_prop s ''$ref'') of
         None \<Rightarrow> []
       | Some ref \<Rightarrow> if resolveRef E ref = None
                     then [place @ '': $ref '' @ quoted ref @ '' does not resolve within the schema''] else []) @
      concat (map (\<lambda>(key, _). if compilePattern E key = None
          then [place @ '': patternProperties key '' @ json_quote key @ '' is not a valid regular expression'']
          else []) (props_of (get_prop s ''patternProperties''))))"

text \<open>A schema is a tree here, so no node is met twice.\<close>

function visit :: "schema_env \<Rightarrow> jsval \<Rightarrow> string \<Rightarrow> string list" where
  "visit E node loc =
     (case node of
        JArr vs \<Rightarrow> concat (map (\<lambda>(i, item). visit E item (loc @ ''/'' @ string_of_nat i)) (List.enumerate 0 vs))
      | JObj s \<Rightarrow>
          node_problems E s loc @
          concat (map (\<lambda>(key, v). if key \<in> data_keywords then [] else visit E v (loc @ ''/'' @ key)) s)
      | _ \<Rightarrow> [])"
  by pat_completeness auto
termination
  by (relation "measure (\<lambda>(E, node, loc). size node)")
    (auto simp: enumerate_eq_zip less_Suc_eq_le dest!: set_zip_rightD intro!: size_list_estimation')

declare visit.simps [simp del]

definition findSchemaProblems :: "schema_env \<Rightarrow> string list" where
  "findSchemaProblems E = visit E (JObj (root_schema E)) []"

definition hidden_problem :: "(string \<times> jsval) list" where
  "hidden_problem = [(''properties'', JObj [(''default'', JObj [(''$ref'', JStr ''#/nowhere'')])])]"

text \<open>
  a flaw. A property that happens to be called \<open>default\<close> (or \<open>const\<close>, \<open>enum\<close>,
  \<open>examples\<close>) hides its subschema from the check of the schema: its unresolvable reference
  is not reported, and no object with that property can ever conform.
\<close>

theorem problem_below_default_is_missed:
  "findSchemaProblems (sample_env hidden_problem) = [] \<and>
   \<not> conforms (sample_env hidden_problem) (JObj [(''default'', v)]) (JObj hidden_problem) 0 0"
proof
  show "findSchemaProblems (sample_env hidden_problem) = []"
    by (simp add: findSchemaProblems_def visit.simps hidden_problem_def node_problems_def data_keywords_def
        schema_eval)
  have "resolveRef (sample_env hidden_problem) ''#/nowhere'' = None"
    by (simp add: resolveRef_def sample_env_def hidden_problem_def pointer_segment_def)
  then have "\<not> conforms (sample_env hidden_problem) v (JObj [(''$ref'', JStr ''#/nowhere'')]) (Suc 0) 0"
    by (subst conforms.simps) (simp add: resolveRef_refers [symmetric] get_prop_def)
  moreover have "Into v (JObj [(''$ref'', JStr ''#/nowhere'')]) ''.default'' \<in>
      set (keyword_tasks (sample_env hidden_problem) hidden_problem (JObj [(''default'', v)]))"
    by (simp add: hidden_problem_def schema_eval)
  ultimately show "\<not> conforms (sample_env hidden_problem) (JObj [(''default'', v)]) (JObj hidden_problem) 0 0"
    by (subst agrees_conforms [symmetric], subst agrees.simps)
      (force simp: ref_step_def get_prop_def hidden_problem_def agrees_conforms)
qed

end
