(* ===== verification/Tool_Args.thy ===== *)
theory Tool_Args
  imports Js_Number Agent_Types
begin

text \<open>
  Validation of model-supplied tool arguments,
  \<open>packages/core/src/utils/tool-args.validator.ts\<close>. \<open>String(number)\<close> is a parameter.
\<close>

section \<open>Operations\<close>

datatype param_type = TString | TNumber | TBoolean | TObject | TArray

record ToolParamSchema =
  param_name :: string
  param_description :: "string option"
  param_type :: param_type
  required :: bool

definition type_name :: "param_type \<Rightarrow> string" where
  "type_name t =
     (case t of TString \<Rightarrow> ''string'' | TNumber \<Rightarrow> ''number'' | TBoolean \<Rightarrow> ''boolean''
      | TObject \<Rightarrow> ''object'' | TArray \<Rightarrow> ''array'')"

fun describeType :: "jsval \<Rightarrow> string" where
  "describeType JNull = ''null''"
| "describeType (JArr _) = ''array''"
| "describeType JUndef = ''undefined''"
| "describeType (JBool _) = ''boolean''"
| "describeType (JNum _) = ''number''"
| "describeType (JStr _) = ''string''"
| "describeType (JObj _) = ''object''"

fun string_of_num :: "(rat \<Rightarrow> string) \<Rightarrow> jsnum \<Rightarrow> string" where
  "string_of_num ns (Fin q) = ns q"
| "string_of_num ns NaN = ''NaN''"
| "string_of_num ns PosInf = ''Infinity''"
| "string_of_num ns NegInf = ''-Infinity''"

definition mismatch :: "ToolParamSchema \<Rightarrow> jsval \<Rightarrow> string" where
  "mismatch param v =
     ''parameter '' @ quoted (param_name param) @ '' expected '' @ type_name (param_type param) @
     '' but received '' @ describeType v"

definition coerce :: "(rat \<Rightarrow> string) \<Rightarrow> ToolParamSchema \<Rightarrow> jsval \<Rightarrow> (string, jsval) result" where
  "coerce ns param v =
     (case param_type param of
        TString \<Rightarrow>
          (case v of
             JStr _ \<Rightarrow> Inr v
           | JNum n \<Rightarrow> Inr (JStr (string_of_num ns n))
           | JBool b \<Rightarrow> Inr (JStr (if b then ''true'' else ''false''))
           | _ \<Rightarrow> Inl (mismatch param v))
      | TNumber \<Rightarrow>
          (case v of
             JNum n \<Rightarrow> if is_finite n then Inr v else Inl (mismatch param v)
           | JStr s \<Rightarrow>
               if trim s \<noteq> [] \<and> is_finite (number_of_string s) then Inr (JNum (number_of_string s))
               else Inl (mismatch param v)
           | _ \<Rightarrow> Inl (mismatch param v))
      | TBoolean \<Rightarrow>
          (case v of
             JBool _ \<Rightarrow> Inr v
           | JStr s \<Rightarrow> if s = ''true'' then Inr (JBool True)
                       else if s = ''false'' then Inr (JBool False)
                       else Inl (mismatch param v)
           | _ \<Rightarrow> Inl (mismatch param v))
      | TArray \<Rightarrow> (case v of JArr _ \<Rightarrow> Inr v | _ \<Rightarrow> Inl (mismatch param v))
      | TObject \<Rightarrow> (case v of JObj _ \<Rightarrow> Inr v | _ \<Rightarrow> Inl (mismatch param v)))"

definition hasValue :: "(string \<times> jsval) list \<Rightarrow> string \<Rightarrow> bool" where
  "hasValue provided name =
     (has_own provided name \<and> get_prop provided name \<noteq> JUndef \<and> get_prop provided name \<noteq> JNull)"

text \<open>The loop over the declared parameters, with \<open>args\<close> and \<open>issues\<close> as its state.\<close>

fun validate_params ::
    "(rat \<Rightarrow> string) \<Rightarrow> (string \<times> jsval) list \<Rightarrow> ToolParamSchema list
       \<Rightarrow> (string \<times> jsval) list \<Rightarrow> string list \<Rightarrow> (string \<times> jsval) list \<times> string list" where
  "validate_params ns provided [] args issues = (args, issues)"
| "validate_params ns provided (param # params) args issues =
     (if \<not> hasValue provided (param_name param) then
        validate_params ns provided params args
          (if required param then issues @ [''missing required parameter '' @ quoted (param_name param)] else issues)
      else
        (case coerce ns param (get_prop provided (param_name param)) of
           Inr v \<Rightarrow> validate_params ns provided params (set_prop args (param_name param) v) issues
         | Inl issue \<Rightarrow> validate_params ns provided params args (issues @ [issue])))"

record ToolArgsValidationResult =
  valid :: bool
  args :: "(string \<times> jsval) list"
  issues :: "string list"

definition validateToolArgs ::
    "(rat \<Rightarrow> string) \<Rightarrow> ToolParamSchema list \<Rightarrow> (string \<times> jsval) list option \<Rightarrow> ToolArgsValidationResult" where
  "validateToolArgs ns parameters rawArgs =
     (case validate_params ns (nullish rawArgs []) parameters [] [] of
        (a, is) \<Rightarrow> \<lparr>valid = (is = []), args = a, issues = is\<rparr>)"

section \<open>What a validated call looks like\<close>

definition has_type :: "param_type \<Rightarrow> jsval \<Rightarrow> bool" where
  "has_type t v =
     (case (t, v) of
        (TString, JStr _) \<Rightarrow> True
      | (TNumber, JNum n) \<Rightarrow> is_finite n
      | (TBoolean, JBool _) \<Rightarrow> True
      | (TArray, JArr _) \<Rightarrow> True
      | (TObject, JObj _) \<Rightarrow> True
      | _ \<Rightarrow> False)"

lemma coerce_typed: "coerce ns p v = Inr w \<Longrightarrow> has_type (param_type p) w"
  by (cases "param_type p"; cases v)
    (auto simp: coerce_def has_type_def split: if_splits)

lemma coerce_id: "has_type (param_type p) v \<Longrightarrow> coerce ns p v = Inr v"
  by (cases "param_type p"; cases v) (auto simp: coerce_def has_type_def)

lemma has_type_value: "has_type t v \<Longrightarrow> v \<noteq> JUndef \<and> v \<noteq> JNull"
  by (cases t) (auto simp: has_type_def)

text \<open>The result of the loop for parameters with different names.\<close>

definition outcome :: "(rat \<Rightarrow> string) \<Rightarrow> (string \<times> jsval) list \<Rightarrow> ToolParamSchema \<Rightarrow> jsval option" where
  "outcome ns provided p =
     (if hasValue provided (param_name p)
      then (case coerce ns p (get_prop provided (param_name p)) of Inr v \<Rightarrow> Some v | Inl _ \<Rightarrow> None)
      else None)"

definition problem :: "(rat \<Rightarrow> string) \<Rightarrow> (string \<times> jsval) list \<Rightarrow> ToolParamSchema \<Rightarrow> string option" where
  "problem ns provided p =
     (if hasValue provided (param_name p)
      then (case coerce ns p (get_prop provided (param_name p)) of Inr v \<Rightarrow> None | Inl issue \<Rightarrow> Some issue)
      else if required p then Some (''missing required parameter '' @ quoted (param_name p)) else None)"

lemma set_prop_new: "k \<notin> fst ` set ps \<Longrightarrow> set_prop ps k v = ps @ [(k, v)]"
  by (induction ps k v rule: set_prop.induct) auto

lemma validate_params_eq:
  "distinct (map param_name ps) \<Longrightarrow> fst ` set a \<inter> param_name ` set ps = {} \<Longrightarrow>
    validate_params ns provided ps a is =
      (a @ concat (map (\<lambda>p. case outcome ns provided p of None \<Rightarrow> [] | Some v \<Rightarrow> [(param_name p, v)]) ps),
       is @ concat (map (\<lambda>p. case problem ns provided p of None \<Rightarrow> [] | Some m \<Rightarrow> [m]) ps))"
proof (induction ps arbitrary: a "is")
  case (Cons p ps)
  show ?case
  proof (cases "hasValue provided (param_name p)")
    case False
    with Cons show ?thesis by (simp add: outcome_def problem_def)
  next
    case True
    show ?thesis
    proof (cases "coerce ns p (get_prop provided (param_name p))")
      case (Inl m)
      with True Cons show ?thesis by (simp add: outcome_def problem_def)
    next
      case (Inr v)
      from Cons.prems have new: "set_prop a (param_name p) v = a @ [(param_name p, v)]"
        by (intro set_prop_new) auto
      from Cons.prems have "fst ` set (a @ [(param_name p, v)]) \<inter> param_name ` set ps = {}" by auto
      with Cons.prems Cons.IH [OF _ this, of "is"] True Inr new show ?thesis
        by (simp add: outcome_def problem_def)
    qed
  qed
qed simp

definition results :: "(rat \<Rightarrow> string) \<Rightarrow> (string \<times> jsval) list \<Rightarrow> ToolParamSchema list \<Rightarrow> (string \<times> jsval) list" where
  "results ns provided ps =
     concat (map (\<lambda>p. case outcome ns provided p of None \<Rightarrow> [] | Some v \<Rightarrow> [(param_name p, v)]) ps)"

lemma results_get:
  "distinct (map param_name ps) \<Longrightarrow> p \<in> set ps \<Longrightarrow> map_of (results ns provided ps) (param_name p) = outcome ns provided p"
proof (induction ps)
  case (Cons q ps)
  have absent: "map_of (results ns provided ps) (param_name q) = None" if "param_name q \<notin> param_name ` set ps"
    using that by (auto simp: map_of_eq_None_iff results_def split: option.splits)
  show ?case
  proof (cases "p = q")
    case True
    with Cons.prems absent show ?thesis
      by (cases "outcome ns provided q") (auto simp: results_def)
  next
    case False
    with Cons.prems have p: "p \<in> set ps" by simp
    with Cons.prems(1) have "param_name p \<noteq> param_name q" by (metis image_eqI list.set_map distinct.simps(2) list.simps(9))
    with Cons p show ?thesis by (cases "outcome ns provided q") (auto simp: results_def)
  qed
qed simp

text \<open>
  C25: a tool sees only what it declared. The validated arguments hold declared parameters
  only, each with a value of its declared type; every required parameter is among them when
  the call is valid; and validating them again changes nothing and reports nothing new, so
  the coercions are stable.
\<close>

theorem validated_arguments:
  assumes "distinct (map param_name ps)"
    and "validateToolArgs ns ps raw = r"
  shows "(\<forall>(k, v) \<in> set (args r). \<exists>p \<in> set ps. param_name p = k \<and> has_type (param_type p) v) \<and>
    (valid r \<longrightarrow> (\<forall>p \<in> set ps. required p \<longrightarrow> has_own (args r) (param_name p))) \<and>
    (valid r \<longrightarrow> validateToolArgs ns ps (Some (args r)) = r)"
proof -
  let ?in = "nullish raw []"
  have r: "args r = results ns ?in ps"
    "issues r = concat (map (\<lambda>p. case problem ns ?in p of None \<Rightarrow> [] | Some m \<Rightarrow> [m]) ps)"
    "valid r = (issues r = [])"
    using assms validate_params_eq [OF assms(1), of "[]" ns ?in "[]"]
    by (auto simp: validateToolArgs_def results_def)
  have typed: "has_type (param_type p) v" if "outcome ns ?in p = Some v" for p v
    using that by (auto simp: outcome_def coerce_typed split: if_splits sum.splits)
  have ok: "problem ns ?in p = None" if "valid r" "p \<in> set ps" for p
    using that r by (auto split: option.splits)
  have req: "has_own (args r) (param_name p)" if "valid r" "p \<in> set ps" "required p" for p
    using ok [OF that(1,2)] that(3) results_get [OF assms(1) that(2), of ns ?in]
    by (auto simp: has_own_def r problem_def outcome_def split: if_splits sum.splits)
  have get: "map_of (args r) (param_name p) = outcome ns ?in p" if "p \<in> set ps" for p
    using results_get [OF assms(1) that] r(1) by simp
  have again: "outcome ns (args r) p = outcome ns ?in p" if "p \<in> set ps" for p
  proof (cases "outcome ns ?in p")
    case None
    with get [OF that] show ?thesis by (simp add: outcome_def hasValue_def has_own_def)
  next
    case (Some v)
    with get [OF that] typed [OF Some] coerce_id [OF typed [OF Some]] has_type_value [OF typed [OF Some]]
    show ?thesis by (simp add: outcome_def hasValue_def has_own_def get_prop_def)
  qed
  have quiet: "problem ns (args r) p = None" if "valid r" "p \<in> set ps" for p
  proof (cases "outcome ns ?in p")
    case None
    with ok [OF that] get [OF that(2)] req [OF that] show ?thesis
      by (auto simp: problem_def hasValue_def has_own_def)
  next
    case (Some v)
    with again [OF that(2)] show ?thesis by (auto simp: problem_def outcome_def split: if_splits sum.splits)
  qed
  have "results ns (args r) ps = results ns ?in ps"
    unfolding results_def using again by (metis (no_types, lifting) map_eq_conv)
  moreover have "concat (map (\<lambda>p. case problem ns (args r) p of None \<Rightarrow> [] | Some m \<Rightarrow> [m]) ps) = []"
    if "valid r" using quiet [OF that] by auto
  moreover have "validateToolArgs ns ps (Some (args r)) =
      \<lparr>valid = (concat (map (\<lambda>p. case problem ns (args r) p of None \<Rightarrow> [] | Some m \<Rightarrow> [m]) ps) = []),
       args = results ns (args r) ps,
       issues = concat (map (\<lambda>p. case problem ns (args r) p of None \<Rightarrow> [] | Some m \<Rightarrow> [m]) ps)\<rparr>"
    using validate_params_eq [OF assms(1), of "[]" ns "args r" "[]"]
    by (simp add: validateToolArgs_def results_def)
  ultimately have "validateToolArgs ns ps (Some (args r)) = \<lparr>valid = True, args = args r, issues = []\<rparr>"
    if "valid r"
    using that r(1) by simp
  moreover have "\<lparr>valid = True, args = args r, issues = []\<rparr> = r" if "valid r"
    using that r(3) by (intro ToolArgsValidationResult.equality) simp_all
  moreover have "\<exists>p \<in> set ps. param_name p = k \<and> has_type (param_type p) v" if "(k, v) \<in> set (args r)" for k v
    using that typed by (auto simp: r results_def split: option.splits)
  ultimately show ?thesis using req by auto
qed

definition refund_params :: "ToolParamSchema list" where
  "refund_params =
     [\<lparr>param_name = ''amount'', param_description = None, param_type = TNumber, required = True\<rparr>,
      \<lparr>param_name = ''note'', param_description = None, param_type = TString, required = False\<rparr>]"

theorem validated_arguments_witness:
  "let r = validateToolArgs (\<lambda>_. ''n'') refund_params
     (Some [(''amount'', JNum (Fin 12)), (''note'', JBool True), (''admin'', JBool True)])
   in args r = [(''amount'', JNum (Fin 12)), (''note'', JStr ''true'')] \<and> valid r \<and>
      validateToolArgs (\<lambda>_. ''n'') refund_params (Some (args r)) = r"
proof -
  let ?r = "validateToolArgs (\<lambda>_. ''n'') refund_params
     (Some [(''amount'', JNum (Fin 12)), (''note'', JBool True), (''admin'', JBool True)])"
  have "args ?r = [(''amount'', JNum (Fin 12)), (''note'', JStr ''true'')] \<and> valid ?r"
    by (simp add: validateToolArgs_def refund_params_def hasValue_def has_own_def get_prop_def coerce_def)
  moreover have "distinct (map param_name refund_params)" by (simp add: refund_params_def)
  ultimately show ?thesis using validated_arguments [OF _ refl, of refund_params] unfolding Let_def by blast
qed

end
