(* ===== verification/Transcript.thy ===== *)
theory Transcript
  imports Agent_Types Json_Text "HOL-Library.Sublist"
begin

text \<open>
  Conversation histories: \<open>packages/core/src/utils/session-history.ts\<close>,
  \<open>packages/core/src/reducers/bounded-tool-history.reducer.ts\<close> and
  \<open>packages/core/src/reducers/validate-reduction.ts\<close>. The check of a reduction is the
  program's own definition of the tool protocol; the theorems show that the two operations
  that shorten a history keep a history the check accepts acceptable.
\<close>

section \<open>Session history\<close>

definition opensCleanly :: "ModelMessage \<Rightarrow> bool" where
  "opensCleanly message =
     (case message of
        ToolMsg _ _ _ _ \<Rightarrow> False
      | AssistantMsg _ _ \<Rightarrow> calls_of message = []
      | _ \<Rightarrow> True)"

definition trimHistory :: "ModelMessage list \<Rightarrow> int \<Rightarrow> ModelMessage list" where
  "trimHistory messages maxMessages =
     (if maxMessages \<le> 0 then []
      else let recent = (if int (length messages) > maxMessages
                         then drop (length messages - nat maxMessages) messages else messages)
           in dropWhile (\<lambda>m. \<not> opensCleanly m) recent)"

definition withoutSystemMessages :: "ModelMessage list \<Rightarrow> ModelMessage list" where
  "withoutSystemMessages messages = filter (\<lambda>m. \<not> is_system m) messages"

section \<open>Fingerprints\<close>

definition shapeOf :: "ModelMessage \<Rightarrow> jsval" where
  "shapeOf message =
     (case message of
        AssistantMsg c _ \<Rightarrow>
          JArr [JStr ''a'', JStr c,
                JArr (map (\<lambda>tc. JArr [JStr (call_id tc), JStr (call_name tc), JObj (call_args tc)])
                        (calls_of message))]
      | ToolMsg i n c _ \<Rightarrow> JArr [JStr ''t'', JStr i, JStr n, JStr c]
      | SystemMsg c \<Rightarrow> JArr [JStr ''s'', JStr c]
      | UserMsg c \<Rightarrow> JArr [JStr ''u'', JStr c])"

definition fingerprintTranscript :: "(rat \<Rightarrow> string) \<Rightarrow> ModelMessage list \<Rightarrow> string" where
  "fingerprintTranscript ns messages = nullish (json_stringify ns (JArr (map shapeOf messages))) []"

section \<open>Checking a reduction\<close>

text \<open>
  The loop's variables: \<open>seenCallIds\<close>, \<open>declaredCallIds\<close>, \<open>openGroup\<close> (a \<open>Set\<close>, which keeps
  insertion order) and \<open>openGroupHoldsApproval\<close>.
\<close>

record vr_state =
  seenCallIds :: "string list"
  declaredCallIds :: "string list"
  openGroup :: "string list option"
  openGroupHoldsApproval :: bool

definition closeGroupOrThrow :: "bool \<Rightarrow> vr_state \<Rightarrow> (string, vr_state) result" where
  "closeGroupOrThrow isFinal st =
     (case openGroup st of
        Some (i # is) \<Rightarrow>
          if isFinal \<and> openGroupHoldsApproval st then Inr (st\<lparr>openGroup := None\<rparr>)
          else Inl (''assistant tool-call group is missing results for: '' @ join '', '' (i # is) @
             ''; a tool-call group must be kept or dropped whole, and its results must directly follow it.'')
      | _ \<Rightarrow> Inr (st\<lparr>openGroup := None\<rparr>))"

text \<open>The inner loop over the calls of an assistant message.\<close>

fun declare_calls :: "string option \<Rightarrow> ModelToolCall list \<Rightarrow> vr_state \<Rightarrow> (string, vr_state) result" where
  "declare_calls pnd [] st = Inr st"
| "declare_calls pnd (call # calls) st =
     (if call_id call \<in> set (seenCallIds st)
      then Inl (''tool-call id '' @ quoted (call_id call) @
                '' appears more than once; each tool call must be unique.'')
      else declare_calls pnd calls
             (st\<lparr>seenCallIds := seenCallIds st @ [call_id call],
                declaredCallIds := declaredCallIds st @ [call_id call],
                openGroup := Some (nullish (openGroup st) [] @ [call_id call]),
                openGroupHoldsApproval :=
                  openGroupHoldsApproval st \<or> Some (call_id call) = pnd\<rparr>))"

definition vr_message :: "string option \<Rightarrow> ModelMessage \<Rightarrow> vr_state \<Rightarrow> (string, vr_state) result" where
  "vr_message pnd message st =
     (if calls_of message \<noteq> [] then
        (case closeGroupOrThrow False st of
           Inl e \<Rightarrow> Inl e
         | Inr st1 \<Rightarrow> declare_calls pnd (calls_of message)
                        (st1\<lparr>openGroup := Some [], openGroupHoldsApproval := False\<rparr>))
      else (case message of
        ToolMsg i n _ _ \<Rightarrow>
          (case openGroup st of
             Some open_ids \<Rightarrow>
               if i \<in> set open_ids then Inr (st\<lparr>openGroup := Some (filter (\<lambda>j. j \<noteq> i) open_ids)\<rparr>)
               else Inl (''tool result '' @ quoted i @ '' ('' @ n @ '') does not directly follow the assistant tool-call that requested it; an orphan or out-of-order tool result is rejected by providers.'')
           | None \<Rightarrow> Inl (''tool result '' @ quoted i @ '' ('' @ n @ '') does not directly follow the assistant tool-call that requested it; an orphan or out-of-order tool result is rejected by providers.''))
      | _ \<Rightarrow> closeGroupOrThrow False st))"

fun vr_walk :: "string option \<Rightarrow> ModelMessage list \<Rightarrow> vr_state \<Rightarrow> (string, vr_state) result" where
  "vr_walk pnd [] st = Inr st"
| "vr_walk pnd (m # ms) st =
     (case vr_message pnd m st of Inl e \<Rightarrow> Inl e | Inr st' \<Rightarrow> vr_walk pnd ms st')"

definition vr_start :: vr_state where
  "vr_start = \<lparr>seenCallIds = [], declaredCallIds = [], openGroup = None, openGroupHoldsApproval = False\<rparr>"

text \<open>
  \<open>reduced === original\<close> is an identity of references: the reducer says whether it returned
  the array it was given. \<open>original\<close> is the transcript as it is after the reducer ran.
\<close>

definition validateReduction ::
    "(rat \<Rightarrow> string) \<Rightarrow> bool \<Rightarrow> ModelMessage list \<Rightarrow> ModelMessage list \<Rightarrow> string \<Rightarrow> string option
       \<Rightarrow> (string, unit) result" where
  "validateReduction ns same reduced original originalFingerprint pnd =
     (if fingerprintTranscript ns original \<noteq> originalFingerprint
      then Inl ''the reducer mutated the input transcript in place; it must return a new array and leave the messages it was given unchanged.''
      else if same then Inr ()
      else (case vr_walk pnd reduced vr_start of
        Inl e \<Rightarrow> Inl e
      | Inr st \<Rightarrow>
          (case closeGroupOrThrow True st of
             Inl e \<Rightarrow> Inl e
           | Inr st' \<Rightarrow>
               (case pnd of
                  Some (c # cs) \<Rightarrow>
                    if c # cs \<in> set (declaredCallIds st') then Inr ()
                    else Inl (''the pending-approval group '' @ quoted (c # cs) @ '' was dropped; the active approval group and its toolCallId must be preserved so the turn can resume.'')
                | _ \<Rightarrow> Inr ()))))"

section \<open>The bounded reducer\<close>

record ToolGroup =
  g_start :: nat
  g_end :: nat
  toolNames :: "string list"
  toolCallIds :: "string list"

datatype summary_role = SummaryUser | SummarySystem

record BoundedToolHistoryReducer =
  keepLast :: nat
  summaryRole :: summary_role

text \<open>The message of the \<open>TypeError\<close> is given without the rejected value at its end.\<close>

definition new_reducer ::
    "jsnum option \<Rightarrow> summary_role option \<Rightarrow> (string, BoundedToolHistoryReducer) result" where
  "new_reducer keepLastToolGroups role =
     (let keep = nullish keepLastToolGroups (Fin 1) in
      if \<not> is_integer keep \<or> js_lt keep (Fin 0)
      then Inl ''BoundedToolHistoryReducer: keepLastToolGroups must be a non-negative integer''
      else Inr \<lparr>keepLast = nat (int_of keep), summaryRole = nullish role SummaryUser\<rparr>)"

definition is_control :: "char \<Rightarrow> bool" where
  "is_control c = (let n = (of_char c :: nat) in n \<le> 0x1f \<or> n = 0x7f)"

text \<open>\<open>name.replace(/[\\u0000-\\u001f\\u007f]+/g, ' ')\<close>\<close>

fun blank_controls :: "bool \<Rightarrow> string \<Rightarrow> string" where
  "blank_controls in_run [] = []"
| "blank_controls in_run (c # cs) =
     (if is_control c then (if in_run then [] else '' '') @ blank_controls True cs
      else c # blank_controls False cs)"

text \<open>The ellipsis is not an 8-bit character; it is written as its three UTF-8 bytes.\<close>

definition safeToolName :: "string \<Rightarrow> string" where
  "safeToolName name =
     (let cleaned = trim (blank_controls False name);
          capped = (if length cleaned > 64
                    then take 64 cleaned @ [CHR 0xE2, CHR 0x80, CHR 0xA6] else cleaned)
      in json_quote capped)"

definition summarize :: "ToolGroup \<Rightarrow> string" where
  "summarize grp =
     ''[Earlier tool activity folded to bound context. Full results remain in the durable transcript.] ran '' @
     string_of_nat (length (toolCallIds grp)) @ '' tool call(s): '' @
     join '', '' (map safeToolName (toolNames grp))"

text \<open>The loop of \<open>findToolGroups\<close> from index \<open>i\<close> on, over the messages from there.\<close>

fun findToolGroups_from :: "nat \<Rightarrow> ModelMessage list \<Rightarrow> ToolGroup list" where
  "findToolGroups_from i [] = []"
| "findToolGroups_from i (message # rest) =
     (if calls_of message = [] then []
      else [\<lparr>g_start = i, g_end = i + 1 + length (takeWhile is_tool rest),
             toolNames = map call_name (calls_of message),
             toolCallIds = map call_id (calls_of message)\<rparr>])
     @ findToolGroups_from (i + 1) rest"

definition findToolGroups :: "ModelMessage list \<Rightarrow> ToolGroup list" where
  "findToolGroups messages = findToolGroups_from 0 messages"

definition summary_message :: "BoundedToolHistoryReducer \<Rightarrow> ToolGroup \<Rightarrow> ModelMessage" where
  "summary_message r grp =
     (case summaryRole r of
        SummaryUser \<Rightarrow> UserMsg (summarize grp) | SummarySystem \<Rightarrow> SystemMsg (summarize grp))"

text \<open>
  The walk that writes the result. A group found in the transcript ends after it starts, so
  the test before the jump always succeeds there; it lets the loop terminate for any table.
\<close>

function fold_walk ::
    "BoundedToolHistoryReducer \<Rightarrow> (nat \<times> ToolGroup) list \<Rightarrow> ModelMessage list \<Rightarrow> nat \<Rightarrow> ModelMessage list" where
  "fold_walk r foldStarts messages i =
     (if i < length messages then
        (case map_of foldStarts i of
           Some folded \<Rightarrow>
             summary_message r folded #
             (if i < g_end folded then fold_walk r foldStarts messages (g_end folded) else [])
         | None \<Rightarrow> messages ! i # fold_walk r foldStarts messages (i + 1))
      else [])"
  by pat_completeness auto
termination
  by (relation "measure (\<lambda>(r, fs, ms, i). length ms - i)") auto

declare fold_walk.simps [simp del]

text \<open>The messages to send, and whether they are the array that was passed in.\<close>

definition reduce ::
    "BoundedToolHistoryReducer \<Rightarrow> ModelMessage list \<Rightarrow> string option \<Rightarrow> ModelMessage list \<times> bool" where
  "reduce r messages pendingApprovalToolCallId =
     (let groups = findToolGroups messages in
      if length groups \<le> keepLast r then (messages, True)
      else let cutoff = length groups - keepLast r;
               isApprovalGroup = (\<lambda>grp. case pendingApprovalToolCallId of
                                     None \<Rightarrow> False | Some i \<Rightarrow> i \<in> set (toolCallIds grp));
               foldStarts = map (\<lambda>g. (g_start g, g)) (filter (\<lambda>g. \<not> isApprovalGroup g) (take cutoff groups))
           in if foldStarts = [] then (messages, True)
              else (fold_walk r foldStarts messages 0, False))"

section \<open>What the check accepts\<close>

text \<open>The check after the fingerprint and the identity test.\<close>

definition walk_ok :: "string option \<Rightarrow> ModelMessage list \<Rightarrow> vr_state \<Rightarrow> bool" where
  "walk_ok pnd ms st =
     (case vr_walk pnd ms st of
        Inl _ \<Rightarrow> False
      | Inr t \<Rightarrow> is_ok (closeGroupOrThrow True t) \<and>
                 (case pnd of Some (c # cs) \<Rightarrow> c # cs \<in> set (declaredCallIds t) | _ \<Rightarrow> True))"

definition resolved :: "vr_state \<Rightarrow> bool" where
  "resolved st \<longleftrightarrow> openGroup st \<in> {None, Some []}"

lemma close_False:
  "closeGroupOrThrow False st = Inr t \<longleftrightarrow> resolved st \<and> t = st\<lparr>openGroup := None\<rparr>"
  by (auto simp: closeGroupOrThrow_def resolved_def split: option.splits list.splits)

lemma close_True:
  "closeGroupOrThrow True st = Inr t \<longleftrightarrow>
     (resolved st \<or> openGroupHoldsApproval st) \<and> t = st\<lparr>openGroup := None\<rparr>"
  by (auto simp: closeGroupOrThrow_def resolved_def split: option.splits list.splits if_splits)

lemma is_ok_iff: "is_ok r \<longleftrightarrow> (\<exists>x. r = Inr x)"
  by (cases r) auto

lemma validate_iff:
  "validateReduction ns same reduced original fp pnd = Inr () \<longleftrightarrow>
     fingerprintTranscript ns original = fp \<and> (same \<or> walk_ok pnd reduced vr_start)"
proof (cases "vr_walk pnd reduced vr_start")
  case (Inr st)
  show ?thesis
  proof (cases "closeGroupOrThrow True st")
    case (Inr t)
    then have "declaredCallIds t = declaredCallIds st" by (auto simp: close_True)
    with Inr \<open>vr_walk pnd reduced vr_start = Inr st\<close> show ?thesis
      by (cases pnd; cases "the pnd") (simp_all add: validateReduction_def walk_ok_def)
  qed (use Inr in \<open>simp add: validateReduction_def walk_ok_def\<close>)
qed (simp add: validateReduction_def walk_ok_def)

lemma walk_ok_Nil:
  "walk_ok pnd [] st \<longleftrightarrow> (resolved st \<or> openGroupHoldsApproval st) \<and>
     (case pnd of Some (c # cs) \<Rightarrow> c # cs \<in> set (declaredCallIds st) | _ \<Rightarrow> True)"
  by (auto simp: walk_ok_def is_ok_iff close_True)

lemma walk_ok_Cons:
  "walk_ok pnd (m # ms) st \<longleftrightarrow> (\<exists>t. vr_message pnd m st = Inr t \<and> walk_ok pnd ms t)"
  by (auto simp: walk_ok_def split: sum.splits)

text \<open>What one message does to the state, when it is accepted.\<close>

lemma declare_calls_ok:
  "declare_calls pnd calls st = Inr t \<Longrightarrow> openGroup st = Some g \<Longrightarrow>
     set (map call_id calls) \<inter> set (seenCallIds st) = {} \<and> distinct (map call_id calls) \<and>
     t = st\<lparr>seenCallIds := seenCallIds st @ map call_id calls,
            declaredCallIds := declaredCallIds st @ map call_id calls,
            openGroup := Some (g @ map call_id calls),
            openGroupHoldsApproval := openGroupHoldsApproval st \<or> (\<exists>i \<in> set (map call_id calls). Some i = pnd)\<rparr>"
proof (induction calls arbitrary: st g)
  case (Cons call calls)
  let ?st = "st\<lparr>seenCallIds := seenCallIds st @ [call_id call],
      declaredCallIds := declaredCallIds st @ [call_id call],
      openGroup := Some (g @ [call_id call]),
      openGroupHoldsApproval := openGroupHoldsApproval st \<or> Some (call_id call) = pnd\<rparr>"
  from Cons.prems have new: "call_id call \<notin> set (seenCallIds st)"
    and "declare_calls pnd calls ?st = Inr t"
    by (simp_all split: if_splits)
  from Cons.IH [OF this(2)] new show ?case by (simp add: disj_assoc)
qed simp

lemma declare_calls_go:
  "set (map call_id calls) \<inter> set (seenCallIds st) = {} \<Longrightarrow> distinct (map call_id calls) \<Longrightarrow>
     is_ok (declare_calls pnd calls st)"
  by (induction calls arbitrary: st) auto

abbreviation group_opened :: "string option \<Rightarrow> ModelToolCall list \<Rightarrow> vr_state \<Rightarrow> vr_state" where
  "group_opened pnd calls st \<equiv>
     st\<lparr>seenCallIds := seenCallIds st @ map call_id calls,
        declaredCallIds := declaredCallIds st @ map call_id calls,
        openGroup := Some (map call_id calls),
        openGroupHoldsApproval := (\<exists>i \<in> set (map call_id calls). Some i = pnd)\<rparr>"

lemma vr_message_calls:
  assumes "calls_of m \<noteq> []"
  shows "vr_message pnd m st = Inr t \<longleftrightarrow>
    resolved st \<and> set (map call_id (calls_of m)) \<inter> set (seenCallIds st) = {} \<and>
    distinct (map call_id (calls_of m)) \<and> t = group_opened pnd (calls_of m) st"
proof -
  let ?st = "st\<lparr>openGroup := Some [], openGroupHoldsApproval := False\<rparr>"
  have "declare_calls pnd (calls_of m) ?st = Inr t \<longleftrightarrow>
      set (map call_id (calls_of m)) \<inter> set (seenCallIds st) = {} \<and>
      distinct (map call_id (calls_of m)) \<and> t = group_opened pnd (calls_of m) st" for t
    using declare_calls_ok [of pnd "calls_of m" ?st _ "[]"] declare_calls_go [of "calls_of m" ?st pnd]
    by (auto simp: is_ok_iff)
  with assms show ?thesis
    by (cases "closeGroupOrThrow False st")
      (auto simp: vr_message_def close_False, auto simp: closeGroupOrThrow_def resolved_def split: option.splits list.splits)
qed

lemma vr_message_tool:
  "vr_message pnd (ToolMsg i n c pv) st = Inr t \<longleftrightarrow>
     (\<exists>g. openGroup st = Some g \<and> i \<in> set g \<and> t = st\<lparr>openGroup := Some (filter (\<lambda>j. j \<noteq> i) g)\<rparr>)"
  by (auto simp: vr_message_def split: option.splits)

lemma vr_message_plain:
  "calls_of m = [] \<Longrightarrow> \<not> is_tool m \<Longrightarrow>
     vr_message pnd m st = Inr t \<longleftrightarrow> resolved st \<and> t = st\<lparr>openGroup := None\<rparr>"
  by (cases m) (simp_all add: vr_message_def close_False)

section \<open>Walking a shortened transcript\<close>

text \<open>
  \<open>st'\<close> is the state of the walk over the shortened transcript: it has seen no identifier
  that the original walk has not, the group it has open is the same, or both have none open
  that still waits for a result, and the pending approval was not lost.
\<close>

definition follows :: "string option \<Rightarrow> vr_state \<Rightarrow> vr_state \<Rightarrow> bool" where
  "follows pnd st st' \<longleftrightarrow>
     set (seenCallIds st') \<subseteq> set (seenCallIds st) \<and>
     (openGroup st' = openGroup st \<and> openGroupHoldsApproval st' = openGroupHoldsApproval st \<or>
      openGroup st' = None \<and> resolved st) \<and>
     (\<forall>p. pnd = Some p \<and> p \<in> set (declaredCallIds st) \<longrightarrow> p \<in> set (declaredCallIds st'))"

lemma follows_resolved: "follows pnd st st' \<Longrightarrow> resolved st \<Longrightarrow> resolved st'"
  by (auto simp: follows_def resolved_def)

lemma follows_closed:
  "follows pnd st st' \<Longrightarrow> resolved st \<Longrightarrow> follows pnd (st\<lparr>openGroup := g\<rparr>) (st'\<lparr>openGroup := None\<rparr>) \<longleftrightarrow>
     g \<in> {None, Some []}"
  by (auto simp: follows_def resolved_def)

lemma follows_step:
  assumes "follows pnd st st'" and "vr_message pnd m st = Inr t"
  obtains t' where "vr_message pnd m st' = Inr t'" "follows pnd t t'"
proof (cases "calls_of m = []")
  case False
  from assms(2) have "resolved st" and fresh: "set (map call_id (calls_of m)) \<inter> set (seenCallIds st) = {}"
    "distinct (map call_id (calls_of m))" and t: "t = group_opened pnd (calls_of m) st"
    unfolding vr_message_calls [OF False] by blast+
  have "vr_message pnd m st' = Inr (group_opened pnd (calls_of m) st')"
    unfolding vr_message_calls [OF False]
    using follows_resolved [OF assms(1) \<open>resolved st\<close>] fresh assms(1) by (auto simp: follows_def)
  moreover have "follows pnd t (group_opened pnd (calls_of m) st')"
    using assms(1) by (auto simp: t follows_def)
  ultimately show ?thesis by (rule that)
next
  case True
  show ?thesis
  proof (cases "is_tool m")
    case False
    from assms(2) have "resolved st" "t = st\<lparr>openGroup := None\<rparr>"
      unfolding vr_message_plain [OF True False] by blast+
    moreover from True False this(1) assms(1) have "vr_message pnd m st' = Inr (st'\<lparr>openGroup := None\<rparr>)"
      by (simp add: vr_message_plain follows_resolved)
    ultimately show ?thesis using that follows_closed [OF assms(1)] by blast
  next
    case True
    then obtain i n c pv where m: "m = ToolMsg i n c pv" by (cases m) auto
    with assms(2) obtain g where g: "openGroup st = Some g" "i \<in> set g"
      "t = st\<lparr>openGroup := Some (filter (\<lambda>j. j \<noteq> i) g)\<rparr>"
      by (auto simp: vr_message_tool)
    with assms(1) have "openGroup st' = Some g" by (auto simp: follows_def resolved_def)
    with g m that [of "st'\<lparr>openGroup := Some (filter (\<lambda>j. j \<noteq> i) g)\<rparr>"] assms(1) show ?thesis
      by (auto simp: vr_message_tool follows_def)
  qed
qed

lemma follows_walk:
  "walk_ok pnd ms st \<Longrightarrow> follows pnd st st' \<Longrightarrow> walk_ok pnd ms st'"
proof (induction ms arbitrary: st st')
  case Nil
  then show ?case
    using follows_resolved [OF Nil.prems(2)]
    by (cases pnd; cases "the pnd") (auto simp: walk_ok_Nil follows_def)
next
  case (Cons m ms)
  from Cons.prems(1) obtain t where t: "vr_message pnd m st = Inr t" "walk_ok pnd ms t"
    by (auto simp: walk_ok_Cons)
  obtain t' where "vr_message pnd m st' = Inr t'" "follows pnd t t'"
    using follows_step [OF Cons.prems(2) t(1)] .
  with Cons.IH [OF t(2)] show ?case by (auto simp: walk_ok_Cons)
qed

text \<open>A walk that goes on with something other than a tool result has answered its group.\<close>

lemma walk_ok_answered:
  assumes "walk_ok pnd rest st" and "\<not> openGroupHoldsApproval st"
    and "rest = [] \<or> \<not> is_tool (hd rest)"
  shows "resolved st"
proof (cases rest)
  case (Cons m ms)
  with assms(1) obtain t where "vr_message pnd m st = Inr t" by (auto simp: walk_ok_Cons)
  then show ?thesis
    using assms(3) Cons by (cases "calls_of m = []") (simp_all add: vr_message_calls vr_message_plain)
qed (use assms in \<open>simp add: walk_ok_Nil\<close>)

lemma walk_ok_tools:
  "walk_ok pnd (tools @ rest) st \<Longrightarrow> list_all is_tool tools \<Longrightarrow>
     \<exists>g. walk_ok pnd rest (st\<lparr>openGroup := g\<rparr>)"
proof (induction tools arbitrary: st)
  case Nil
  then have "walk_ok pnd rest (st\<lparr>openGroup := openGroup st\<rparr>)" by simp
  then show ?case ..
next
  case (Cons m tools)
  then obtain i n c pv where "m = ToolMsg i n c pv" by (cases m) auto
  with Cons.prems(1) obtain g where "walk_ok pnd (tools @ rest) (st\<lparr>openGroup := Some g\<rparr>)"
    by (auto simp: walk_ok_Cons vr_message_tool)
  from Cons.IH [OF this] Cons.prems(2) show ?case by simp
qed

section \<open>Trimming a history\<close>

lemma walk_ok_suffix:
  "walk_ok None (xs @ ys) st \<Longrightarrow> \<exists>t. walk_ok None ys t"
  by (induction xs arbitrary: st) (auto simp: walk_ok_Cons)

lemma opensCleanly_iff: "opensCleanly m \<longleftrightarrow> calls_of m = [] \<and> \<not> is_tool m"
  by (cases m) (auto simp: opensCleanly_def)

text \<open>A suffix that opens cleanly of an accepted transcript is accepted.\<close>

lemma walk_ok_clean_suffix:
  assumes "walk_ok None (xs @ ys) vr_start" and "ys = [] \<or> opensCleanly (hd ys)"
  shows "walk_ok None ys vr_start"
proof -
  obtain t where t: "walk_ok None ys t" using walk_ok_suffix [OF assms(1)] by blast
  show ?thesis
  proof (cases ys)
    case Nil
    then show ?thesis by (simp add: walk_ok_Nil resolved_def vr_start_def)
  next
    case (Cons m ms)
    with t assms(2) have "resolved t" by (auto simp: walk_ok_Cons opensCleanly_iff vr_message_plain)
    then have "follows None t vr_start" by (auto simp: follows_def vr_start_def resolved_def)
    with t show ?thesis by (rule follows_walk)
  qed
qed

lemma dropWhile_longest:
  assumes "suffix u xs" and "u = [] \<or> P (hd u)"
  shows "length u \<le> length (dropWhile (\<lambda>x. \<not> P x) xs)"
proof -
  from assms(1) obtain zs where xs: "xs = zs @ u" by (auto simp: suffix_def)
  have "length u \<le> length (dropWhile (\<lambda>x. \<not> P x) (zs @ u))"
    using assms(2) by (induction zs) (cases u; auto)+
  with xs show ?thesis by simp
qed

text \<open>
  C21: trimming keeps a valid conversation valid. The trimmed history is a suffix of the
  history with at most \<open>maxMessages\<close> messages that starts with a message that may open a
  request; it is the longest such suffix; and if the history follows the tool protocol, so
  does what is left of it.
\<close>

theorem trimHistory_keeps_protocol:
  assumes "validateReduction ns False ms ms (fingerprintTranscript ns ms) None = Inr ()"
    and "t = trimHistory ms n"
  shows "suffix t ms \<and> int (length t) \<le> max 0 n \<and> (t = [] \<or> opensCleanly (hd t)) \<and>
    validateReduction ns False t t (fingerprintTranscript ns t) None = Inr () \<and>
    (\<forall>u. suffix u ms \<longrightarrow> int (length u) \<le> n \<longrightarrow> u = [] \<or> opensCleanly (hd u) \<longrightarrow> length u \<le> length t)"
proof (cases "n \<le> 0")
  case True
  then have "t = []" by (simp add: assms(2) trimHistory_def)
  moreover have "u = []" if "int (length u) \<le> n" for u :: "ModelMessage list"
    using that True by (cases u) auto
  ultimately show ?thesis by (auto simp: validate_iff walk_ok_Nil resolved_def vr_start_def)
next
  case False
  define recent where "recent = drop (length ms - nat n) ms"
  have t: "t = dropWhile (\<lambda>m. \<not> opensCleanly m) recent"
    using False by (auto simp: assms(2) trimHistory_def recent_def Let_def)
  have suf: "suffix t ms" unfolding t recent_def
    by (metis suffix_dropWhile suffix_drop suffix_order.trans)
  have open': "t = [] \<or> opensCleanly (hd t)"
    using hd_dropWhile [of "\<lambda>m. \<not> opensCleanly m" recent] by (auto simp: t)
  from suf obtain xs where "ms = xs @ t" by (auto simp: suffix_def)
  with assms(1) open' have "walk_ok None t vr_start"
    by (auto simp: validate_iff intro: walk_ok_clean_suffix)
  moreover have "length t \<le> length recent" unfolding t by (rule length_dropWhile_le)
  moreover have "length u \<le> length t"
    if "suffix u ms" "int (length u) \<le> n" "u = [] \<or> opensCleanly (hd u)" for u
  proof -
    have "suffix u recent"
      by (rule suffix_length_suffix [OF that(1)])
        (use that(1,2) suffix_length_le [OF that(1)] in \<open>auto simp: recent_def suffix_drop\<close>)
    then show ?thesis unfolding t using that(3) by (rule dropWhile_longest)
  qed
  ultimately show ?thesis using suf open' False by (auto simp: validate_iff recent_def)
qed

definition sample_call :: "string \<Rightarrow> ModelToolCall" where
  "sample_call i = \<lparr>call_id = i, call_name = ''lookup'', call_args = []\<rparr>"

definition sample_group :: "string \<Rightarrow> ModelMessage list" where
  "sample_group i = [AssistantMsg [] (Some [sample_call i]), ToolMsg i ''lookup'' ''42'' None]"

definition sample_history :: "ModelMessage list" where
  "sample_history = UserMsg ''hi'' # sample_group ''c1'' @ [UserMsg ''more''] @ sample_group ''c2''"

lemmas sample_defs = sample_history_def sample_group_def sample_call_def vr_start_def

lemma sample_history_ok: "walk_ok None sample_history vr_start"
  by (simp add: sample_defs walk_ok_def vr_message_def closeGroupOrThrow_def)

theorem trimHistory_keeps_protocol_witness:
  "trimHistory sample_history 4 = UserMsg ''more'' # sample_group ''c2'' \<and>
   validateReduction plain_number False (trimHistory sample_history 4) (trimHistory sample_history 4)
     (fingerprintTranscript plain_number (trimHistory sample_history 4)) None = Inr ()"
proof -
  have "trimHistory sample_history 4 = UserMsg ''more'' # sample_group ''c2''"
    by (simp add: sample_defs trimHistory_def opensCleanly_def)
  moreover have "validateReduction plain_number False sample_history sample_history
      (fingerprintTranscript plain_number sample_history) None = Inr ()"
    by (simp add: validate_iff sample_history_ok)
  from trimHistory_keeps_protocol [OF this refl, of 4]
  have "validateReduction plain_number False (trimHistory sample_history 4) (trimHistory sample_history 4)
     (fingerprintTranscript plain_number (trimHistory sample_history 4)) None = Inr ()" by blast
  ultimately show ?thesis by blast
qed

section \<open>Folding tool groups\<close>

text \<open>
  The reducer's result by recursion over the messages instead of indices: \<open>F\<close> holds the start
  indices of the groups to fold.
\<close>

definition group_at :: "nat \<Rightarrow> ModelMessage \<Rightarrow> ModelMessage list \<Rightarrow> ToolGroup" where
  "group_at i m rest =
     \<lparr>g_start = i, g_end = i + 1 + length (takeWhile is_tool rest),
      toolNames = map call_name (calls_of m), toolCallIds = map call_id (calls_of m)\<rparr>"

function fold_from ::
    "BoundedToolHistoryReducer \<Rightarrow> nat set \<Rightarrow> nat \<Rightarrow> ModelMessage list \<Rightarrow> ModelMessage list" where
  "fold_from r F i [] = []"
| "fold_from r F i (m # ms) =
     (if i \<in> F \<and> calls_of m \<noteq> []
      then summary_message r (group_at i m ms) #
           fold_from r F (i + 1 + length (takeWhile is_tool ms)) (dropWhile is_tool ms)
      else m # fold_from r F (i + 1) ms)"
  by pat_completeness auto
termination
  by (relation "measure (\<lambda>(r, F, i, ms). length ms)") (auto simp: length_dropWhile_le less_Suc_eq_le)

lemma findToolGroups_mem:
  "g \<in> set (findToolGroups_from j ms) \<longleftrightarrow>
     (\<exists>k < length ms. calls_of (ms ! k) \<noteq> [] \<and> g = group_at (j + k) (ms ! k) (drop (k + 1) ms))"
proof (induction ms arbitrary: j)
  case (Cons m ms)
  have "(\<exists>k < length (m # ms). calls_of ((m # ms) ! k) \<noteq> [] \<and>
            g = group_at (j + k) ((m # ms) ! k) (drop (k + 1) (m # ms))) \<longleftrightarrow>
        calls_of m \<noteq> [] \<and> g = group_at j m ms \<or>
        (\<exists>k < length ms. calls_of (ms ! k) \<noteq> [] \<and> g = group_at (j + 1 + k) (ms ! k) (drop (k + 1) ms))"
    unfolding length_Cons Ex_less_Suc2 by simp
  with Cons show ?case by (auto simp: group_at_def)
qed simp

lemma group_at_simps [simp]:
  "g_start (group_at i m rest) = i"
  "g_end (group_at i m rest) = i + 1 + length (takeWhile is_tool rest)"
  "toolCallIds (group_at i m rest) = map call_id (calls_of m)"
  by (simp_all add: group_at_def)

lemma drop_length_takeWhile: "drop (length (takeWhile P xs)) xs = dropWhile P xs"
  by (metis append_eq_conv_conj takeWhile_dropWhile_id)

lemma map_of_starts:
  assumes "set gs \<subseteq> set (findToolGroups ms)" and "i < length ms"
  shows "map_of (map (\<lambda>g. (g_start g, g)) gs) i =
    (if i \<in> g_start ` set gs \<and> calls_of (ms ! i) \<noteq> [] then Some (group_at i (ms ! i) (drop (i + 1) ms)) else None)"
proof -
  have g: "g = group_at (g_start g) (ms ! g_start g) (drop (g_start g + 1) ms) \<and> calls_of (ms ! g_start g) \<noteq> []"
    if "g \<in> set gs" for g
    using that assms(1) findToolGroups_mem [of g 0 ms] by (auto simp: findToolGroups_def)
  show ?thesis
  proof (cases "i \<in> g_start ` set gs")
    case True
    then have "map_of (map (\<lambda>g. (g_start g, g)) gs) i \<noteq> None"
      by (simp add: map_of_eq_None_iff image_image)
    then obtain g where "map_of (map (\<lambda>g. (g_start g, g)) gs) i = Some g" by blast
    moreover from this have "g \<in> set gs" "g_start g = i" by (auto dest: map_of_SomeD)
    ultimately show ?thesis using g [of g] True by auto
  next
    case False
    then show ?thesis by (auto simp: map_of_eq_None_iff image_iff)
  qed
qed

lemma fold_walk_from:
  assumes "set gs \<subseteq> set (findToolGroups ms)"
  shows "i \<le> length ms \<Longrightarrow>
    fold_walk r (map (\<lambda>g. (g_start g, g)) gs) ms i = fold_from r (g_start ` set gs) i (drop i ms)"
proof (induction "length ms - i" arbitrary: i rule: less_induct)
  case less
  show ?case
  proof (cases "i < length ms")
    case True
    then have d: "drop i ms = ms ! i # drop (i + 1) ms" by (simp add: Cons_nth_drop_Suc)
    let ?j = "i + 1 + length (takeWhile is_tool (drop (i + 1) ms))"
    have j: "?j \<le> length ms" "drop ?j ms = dropWhile is_tool (drop (i + 1) ms)"
      using length_takeWhile_le [of is_tool "drop (i + 1) ms"] True
        drop_length_takeWhile [of is_tool "drop (i + 1) ms"]
      by (auto simp: add.commute)
    show ?thesis
      using True less.hyps [of ?j] less.hyps [of "i + 1"] j
      by (subst fold_walk.simps) (simp add: map_of_starts [OF assms] d del: drop_Suc)
  next
    case False
    with less.prems show ?thesis by (subst fold_walk.simps) simp
  qed
qed

lemma summary_plain [simp]:
  "calls_of (summary_message r g) = []" "\<not> is_tool (summary_message r g)"
  by (cases "summaryRole r"; simp add: summary_message_def)+

text \<open>Replacing one answered group by its summary.\<close>

lemma fold_group:
  assumes "walk_ok pnd (m # ms) st" and "calls_of m \<noteq> []" and "follows pnd st st'"
    and "pnd \<notin> Some ` set (map call_id (calls_of m))"
  obtains t t' where "vr_message pnd (summary_message r g) st' = Inr t'"
    "walk_ok pnd (dropWhile is_tool ms) t" "follows pnd t t'"
proof -
  let ?st1 = "group_opened pnd (calls_of m) st"
  from assms(1,2) have "resolved st" and ok: "walk_ok pnd ms ?st1"
    by (auto simp: walk_ok_Cons vr_message_calls)
  have "list_all is_tool (takeWhile is_tool ms)" by (auto simp: list_all_iff dest: set_takeWhileD)
  with ok walk_ok_tools [of pnd "takeWhile is_tool ms" "dropWhile is_tool ms" ?st1]
  obtain og where t: "walk_ok pnd (dropWhile is_tool ms) (?st1\<lparr>openGroup := og\<rparr>)" by auto
  have "\<not> openGroupHoldsApproval (?st1\<lparr>openGroup := og\<rparr>)" using assms(4) by auto
  moreover have "dropWhile is_tool ms = [] \<or> \<not> is_tool (hd (dropWhile is_tool ms))"
    using hd_dropWhile by blast
  ultimately have res: "resolved (?st1\<lparr>openGroup := og\<rparr>)" using t by (rule walk_ok_answered [rotated])
  from follows_resolved [OF assms(3) \<open>resolved st\<close>]
  have "vr_message pnd (summary_message r g) st' = Inr (st'\<lparr>openGroup := None\<rparr>)"
    by (simp add: vr_message_plain)
  moreover have "follows pnd (?st1\<lparr>openGroup := og\<rparr>) (st'\<lparr>openGroup := None\<rparr>)"
    using assms(3,4) res by (auto simp: follows_def)
  ultimately show ?thesis using t that by blast
qed

lemma fold_from_ok:
  "walk_ok pnd ms st \<Longrightarrow> follows pnd st st' \<Longrightarrow>
    (\<And>k. k < length ms \<Longrightarrow> i + k \<in> F \<Longrightarrow> pnd \<notin> Some ` set (map call_id (calls_of (ms ! k)))) \<Longrightarrow>
    walk_ok pnd (fold_from r F i ms) st'"
proof (induction r F i ms arbitrary: st st' rule: fold_from.induct)
  case (1 r F i)
  from follows_walk [OF 1(1,2)] show ?case by simp
next
  case (2 r F i m ms)
  show ?case
  proof (cases "i \<in> F \<and> calls_of m \<noteq> []")
    case True
    let ?k = "length (takeWhile is_tool ms)"
    from True 2(5) [of 0] have "pnd \<notin> Some ` set (map call_id (calls_of m))" by simp
    from fold_group [OF 2(3) _ 2(4) this] True obtain t t' where
      s: "vr_message pnd (summary_message r (group_at i m ms)) st' = Inr t'"
        "walk_ok pnd (dropWhile is_tool ms) t" "follows pnd t t'" by blast
    have "pnd \<notin> Some ` set (map call_id (calls_of (dropWhile is_tool ms ! k)))"
      if "k < length (dropWhile is_tool ms)" "i + 1 + ?k + k \<in> F" for k
    proof -
      have "dropWhile is_tool ms ! k = ms ! (?k + k)" "?k + k < length ms"
        using that(1) drop_length_takeWhile [of is_tool ms]
        by (metis nth_drop length_takeWhile_le, metis length_drop less_diff_conv add.commute)
      with that 2(5) [of "Suc (?k + k)"] show ?thesis by (simp add: add.assoc)
    qed
    with 2(1) [OF True s(2,3)] have "walk_ok pnd (fold_from r F (i + 1 + ?k) (dropWhile is_tool ms)) t'"
      by blast
    with True s(1) show ?thesis by (auto simp: walk_ok_Cons)
  next
    case False
    from 2(3) obtain t where t: "vr_message pnd m st = Inr t" "walk_ok pnd ms t"
      by (auto simp: walk_ok_Cons)
    obtain t' where t': "vr_message pnd m st' = Inr t'" "follows pnd t t'"
      using follows_step [OF 2(4) t(1)] .
    have "walk_ok pnd (fold_from r F (i + 1) ms) t'"
      by (rule 2(2) [OF False t(2) t'(2)]) (use 2(5) [of "Suc _"] in auto)
    with False t'(1) show ?thesis by (auto simp: walk_ok_Cons)
  qed
qed

text \<open>The groups that are folded, and the result of the reducer in terms of them.\<close>

definition folded_groups ::
    "BoundedToolHistoryReducer \<Rightarrow> ModelMessage list \<Rightarrow> string option \<Rightarrow> ToolGroup list" where
  "folded_groups r ms pnd =
     filter (\<lambda>g. pnd \<notin> Some ` set (toolCallIds g))
       (take (length (findToolGroups ms) - keepLast r) (findToolGroups ms))"

lemma fold_from_none [simp]: "fold_from r {} i ms = ms"
  by (induction ms arbitrary: i) auto

lemma folded_sub: "set (folded_groups r ms pnd) \<subseteq> set (findToolGroups ms)"
  by (auto simp: folded_groups_def dest: in_set_takeD)

lemma reduce_fold:
  "reduce r ms pnd = (fold_from r (g_start ` set (folded_groups r ms pnd)) 0 ms, folded_groups r ms pnd = [])"
proof -
  let ?gs = "folded_groups r ms pnd"
  have "reduce r ms pnd =
      (if length (findToolGroups ms) \<le> keepLast r \<or> ?gs = [] then (ms, True)
       else (fold_walk r (map (\<lambda>g. (g_start g, g)) ?gs) ms 0, False))"
    by (cases pnd) (simp_all add: reduce_def Let_def folded_groups_def inj_image_mem_iff)
  moreover have "?gs = []" if "length (findToolGroups ms) \<le> keepLast r"
    using that by (simp add: folded_groups_def)
  ultimately show ?thesis using fold_walk_from [OF folded_sub [of r ms pnd], of 0 r] by auto
qed

text \<open>
  the bounded reducer honours the contract it is checked against. On a transcript that
  follows the tool protocol (with, when an approval is pending, at most the suspended group
  open at the end), its result passes \<open>validateReduction\<close>.
\<close>

theorem reduce_passes_validation:
  assumes "validateReduction ns False ms ms (fingerprintTranscript ns ms) pnd = Inr ()"
    and "reduce r ms pnd = (reduced, same)"
  shows "validateReduction ns same reduced ms (fingerprintTranscript ns ms) pnd = Inr ()"
proof -
  let ?gs = "folded_groups r ms pnd"
  have "pnd \<notin> Some ` set (map call_id (calls_of (ms ! k)))" if k: "k < length ms" "0 + k \<in> g_start ` set ?gs" for k
  proof -
    from k obtain g where g: "g \<in> set ?gs" "g_start g = k" by auto
    then have "g = group_at k (ms ! k) (drop (k + 1) ms)"
      using folded_sub findToolGroups_mem [of g 0 ms] by (fastforce simp: findToolGroups_def)
    then have "toolCallIds g = map call_id (calls_of (ms ! k))" by (metis group_at_simps(3))
    with g(1) show ?thesis by (simp add: folded_groups_def)
  qed
  with assms(1) have "walk_ok pnd (fold_from r (g_start ` set ?gs) 0 ms) vr_start"
    by (intro fold_from_ok [where st = vr_start]) (auto simp: validate_iff follows_def)
  with assms(2) show ?thesis by (simp add: validate_iff reduce_fold)
qed

definition sample_reducer :: BoundedToolHistoryReducer where
  "sample_reducer = \<lparr>keepLast = 1, summaryRole = SummaryUser\<rparr>"

lemma sample_reduced:
  "reduce sample_reducer sample_history None =
     ([UserMsg ''hi'', UserMsg (summarize (group_at 1 (sample_group ''c1'' ! 0) (tl (sample_group ''c1'')))),
       UserMsg ''more''] @ sample_group ''c2'', False)"
  by (simp add: sample_reducer_def sample_defs reduce_def findToolGroups_def fold_walk.simps group_at_def
      summary_message_def)

theorem reduce_passes_validation_witness:
  "\<not> snd (reduce sample_reducer sample_history None) \<and>
   validateReduction plain_number False (fst (reduce sample_reducer sample_history None)) sample_history
     (fingerprintTranscript plain_number sample_history) None = Inr ()"
proof -
  have "validateReduction plain_number False sample_history sample_history
      (fingerprintTranscript plain_number sample_history) None = Inr ()"
    by (simp add: validate_iff sample_history_ok)
  from reduce_passes_validation [OF this sample_reduced] show ?thesis by (simp add: sample_reduced)
qed

section \<open>What is left after folding\<close>

lemma findToolGroups_skip_tools:
  "findToolGroups_from (i + length (takeWhile is_tool ms)) (dropWhile is_tool ms) = findToolGroups_from i ms"
proof (induction ms arbitrary: i)
  case (Cons m ms)
  have "is_tool m \<Longrightarrow> calls_of m = []" by (cases m) auto
  with Cons [of "Suc i"] show ?case by simp
qed simp

lemma findToolGroups_shift: "length (findToolGroups_from i ms) = length (findToolGroups_from j ms)"
  by (induction ms arbitrary: i j) auto

lemma fold_from_groups:
  "length (findToolGroups_from j (fold_from r F i ms)) =
     length (filter (\<lambda>g. g_start g \<notin> F) (findToolGroups_from i ms))"
proof (induction r F i ms arbitrary: j rule: fold_from.induct)
  case (2 r F i m ms)
  show ?case
  proof (cases "i \<in> F \<and> calls_of m \<noteq> []")
    case True
    with 2(1) [OF True] findToolGroups_skip_tools [of "i + 1" ms] show ?thesis by simp
  next
    case False
    with 2(2) [OF False] show ?thesis by auto
  qed
qed simp

text \<open>
  the reducer bounds the context. At most \<open>keepLastToolGroups\<close> tool groups stay in full,
  besides the group of a pending approval.
\<close>

theorem reduce_bounds_groups:
  "length (findToolGroups (fst (reduce r ms pnd))) \<le>
     keepLast r + length (filter (\<lambda>g. pnd \<in> Some ` set (toolCallIds g)) (findToolGroups ms))"
proof -
  let ?gs = "findToolGroups ms" and ?F = "g_start ` set (folded_groups r ms pnd)"
  let ?c = "length (findToolGroups ms) - keepLast r"
  have "filter (\<lambda>g. g_start g \<notin> ?F) (take ?c ?gs) =
      filter (\<lambda>g. g_start g \<notin> ?F) (filter (\<lambda>g. pnd \<in> Some ` set (toolCallIds g)) (take ?c ?gs))"
    unfolding filter_filter by (rule filter_cong) (auto simp: folded_groups_def)
  then have "length (filter (\<lambda>g. g_start g \<notin> ?F) (take ?c ?gs)) \<le>
      length (filter (\<lambda>g. pnd \<in> Some ` set (toolCallIds g)) (take ?c ?gs))"
    by (metis length_filter_le)
  moreover have "length (filter (\<lambda>g. g_start g \<notin> ?F) (drop ?c ?gs)) \<le> keepLast r"
    by (rule order_trans [OF length_filter_le]) simp
  moreover have "length (filter P ?gs) = length (filter P (take ?c ?gs)) + length (filter P (drop ?c ?gs))" for P
    by (metis append_take_drop_id filter_append length_append)
  ultimately show ?thesis
    using fold_from_groups [of 0 r ?F 0 ms] by (simp add: reduce_fold findToolGroups_def)
qed

end
