(* ===== verification/Agent_Errors.thy ===== *)
theory Agent_Errors
  imports Json_Text
begin

text \<open>
  The errors a turn ends with, \<open>packages/core/src/errors.ts\<close>: the class of the error, the
  fields the code sets and the message it builds from them. Whatever a tool, a policy, a
  store or a model throws of its own is \<open>Thrown\<close> with its message. The errors of settling
  an approval are in the theory of the approval service.
\<close>

datatype ExecutionLimitKind = Max_iterations | Max_tool_calls | Timeout | Max_total_tokens

fun limit_kind_name :: "ExecutionLimitKind \<Rightarrow> string" where
  "limit_kind_name Max_iterations = ''max_iterations''"
| "limit_kind_name Max_tool_calls = ''max_tool_calls''"
| "limit_kind_name Timeout = ''timeout''"
| "limit_kind_name Max_total_tokens = ''max_total_tokens''"

datatype agent_error =
    ToolValidation string "string list"
  | ExecutionLimitExceeded ExecutionLimitKind int
  | ExecutionCancelled "string option"
  | PolicyNotRegistered string
  | RuntimeNotConfigured
  | ApprovalToolNotFound string
  | ApprovalTranscriptMissing string
  | ApprovalCheckpointVersion string nat nat
  | InFlightCheckpointVersion string nat nat
  | CheckpointNotFound string
  | MessageReducerContract string
  | StructuredOutputFailed (so_output: string) (so_issues: "string list") (so_attempts: nat)
      (so_refusal: "string option")
  | StructuredOutputNotSupported string
  | InvalidOutputSchema "string list"
  | CascadeExhausted nat jsnum jsnum string
  | CascadeConfiguration string
  | Thrown string

text \<open>
  \<open>toFixed(2)\<close> of a number below \<open>1e21\<close>: the nearest hundredth, the larger one of two.
\<close>

definition fixed_digits :: "nat \<Rightarrow> string" where
  "fixed_digits n =
     string_of_nat (n div 100) @ CHR 0x2E # (if n mod 100 < 10 then ''0'' else []) @ string_of_nat (n mod 100)"

fun to_fixed2 :: "jsnum \<Rightarrow> string" where
  "to_fixed2 NaN = ''NaN''"
| "to_fixed2 PosInf = ''Infinity''"
| "to_fixed2 NegInf = ''-Infinity''"
| "to_fixed2 (Fin q) =
     (if q < 0 then CHR 0x2D # fixed_digits (nat \<lfloor>- q * 100 + 1 / 2\<rfloor>)
      else fixed_digits (nat \<lfloor>q * 100 + 1 / 2\<rfloor>))"

text \<open>The \<open>message\<close> of each error.\<close>

definition version_message :: "string \<Rightarrow> nat \<Rightarrow> nat \<Rightarrow> string" where
  "version_message what found supported =
     what @ string_of_nat found @ '', but this release supports version '' @
     string_of_nat supported @ ''. The ''"

fun error_message :: "agent_error \<Rightarrow> string" where
  "error_message (ToolValidation tn issues) =
     ''Invalid arguments for tool '' @ quoted tn @ '': '' @ join ''; '' issues"
| "error_message (ExecutionLimitExceeded kind limit) =
     ''Execution stopped: '' @ limit_kind_name kind @ '' limit of '' @ string_of_int limit @ '' was reached.''"
| "error_message (ExecutionCancelled reason) =
     (case nullish reason [] of
        [] \<Rightarrow> ''Execution cancelled.''
      | r \<Rightarrow> ''Execution cancelled: '' @ r)"
| "error_message (PolicyNotRegistered pn) =
     ''Policy '' @ quoted pn @ '' is not registered. Add it to AgenticModule.forFeature({ policies: ['' @
     pn @ ''] }).''"
| "error_message RuntimeNotConfigured =
     ''No runtime is configured. Register a ModelAdapter with the MODEL_ADAPTER token '' @
     ''to use the built-in agent runtime, or a RuntimeAdapter with RUNTIME_ADAPTER '' @
     ''to delegate execution to an external runtime.''"
| "error_message (ApprovalToolNotFound tn) =
     ''Tool '' @ quoted tn @ '' was not found while resuming a pending approval.''"
| "error_message (ApprovalTranscriptMissing i) =
     ''Could not resume: no suspended tool call '' @ quoted i @ '' was found in the '' @
     ''approval checkpoint or the conversation history. The session may have been cleared or trimmed.''"
| "error_message (ApprovalCheckpointVersion i found supported) =
     version_message (''Approval '' @ quoted i @ '' has a checkpoint of version '') found supported @
     ''approval cannot be resumed safely.''"
| "error_message (InFlightCheckpointVersion i found supported) =
     version_message (''Execution checkpoint '' @ quoted i @ '' has version '') found supported @
     ''checkpoint cannot be resumed safely.''"
| "error_message (CheckpointNotFound i) =
     ''Execution checkpoint '' @ quoted i @ '' was not found or has expired.''"
| "error_message (MessageReducerContract reason) =
     ''Message reducer produced an invalid projection: '' @ reason"
| "error_message (StructuredOutputFailed _ issues attempts _) =
     ''The final answer did not match the output schema after '' @ string_of_nat attempts @
     '' repair attempt(s): '' @ join ''; '' (take 3 issues)"
| "error_message (StructuredOutputNotSupported an) =
     ''Agent '' @ quoted an @ '' requests an outputSchema, which needs the built-in runtime. '' @
     ''Register a ModelAdapter, or remove the outputSchema.''"
| "error_message (InvalidOutputSchema problems) =
     ''The outputSchema is invalid: '' @ join ''; '' problems"
| "error_message (CascadeExhausted tiers confidence threshold model_name) =
     ''Model cascade exhausted: Attempted '' @ string_of_nat tiers @ '' tiers. Final model '' @
     quoted model_name @ '' achieved confidence '' @ to_fixed2 confidence @
     '', below required threshold '' @ to_fixed2 threshold @ ''.''"
| "error_message (CascadeConfiguration reason) = ''Invalid Model Cascade configuration: '' @ reason"
| "error_message (Thrown msg) = msg"

end
