(* ===== verification/Tool_Discovery.thy ===== *)
theory Tool_Discovery
  imports Agent_Errors Agent_Types Tool_Args
begin

text \<open>
  Policies, tools and idempotency records as the provider exchanges them, and the discovery
  of the decorated methods of a toolset, \<open>packages/core/src/discovery/tool-discovery.service.ts\<close>.

  A policy and a tool method are functions of their own part of the state and may throw.
  What \<open>reflect-metadata\<close> answers is data: for each metadata key the four places the code
  asks in turn. A lifetime in seconds is a rational number.
\<close>

section \<open>Policies\<close>

datatype PolicyResult =
    PAllow "string option"
  | PDeny string "int option"
  | PRequire string (ttlSeconds: "rat option") (required_by: "jsnum option")

datatype PolicyOutputResult =
    OAllow "string option"
  | ODeny string
  | OSanitize jsval

text \<open>A policy class: the identity of the constructor and its name.\<close>

record PolicyConstructor =
  con_id :: nat
  con_name :: string

type_synonym props = "(string \<times> jsval) list"

record 'p ToolPolicy =
  evaluate :: "AgentContext \<Rightarrow> string \<Rightarrow> props \<Rightarrow> 'p \<Rightarrow> (agent_error, PolicyResult) result \<times> 'p"
  evaluateOutput ::
    "(AgentContext \<Rightarrow> string \<Rightarrow> jsval \<Rightarrow> Provenance option \<Rightarrow> 'p
        \<Rightarrow> (agent_error, PolicyOutputResult) result \<times> 'p) option"

section \<open>Tools\<close>

record DiscoveredParam =
  dp_index :: nat
  dp_name :: string
  dp_description :: "string option"
  dp_type :: param_type
  dp_required :: bool

text \<open>A method receives positional arguments, one of which may be the agent context.\<close>

datatype method_arg = ArgVal jsval | ArgContext AgentContext

record 'w DiscoveredTool =
  dt_methodName :: string
  dt_toolName :: string
  dt_description :: string
  dt_params :: "DiscoveredParam list"
  contextParamIndex :: "nat option"
  policyConstructors :: "PolicyConstructor list"
  exemptFromDefaultPolicies :: bool
  dt_instance :: nat
  dt_method :: "method_arg list \<Rightarrow> 'w \<Rightarrow> (agent_error, jsval) result \<times> 'w"

record 'w DiscoveredToolSet =
  classPolicyConstructors :: "PolicyConstructor list"
  dts_tools :: "'w DiscoveredTool list"

section \<open>Idempotency records\<close>

record IdempotencyRecord =
  rec_key :: string
  rec_toolName :: "string option"
  rec_result :: ToolExecutionResult
  rec_createdAt :: int

text \<open>\<open>IdempotencyStore\<close>: \<open>get\<close> and \<open>save\<close> may reject.\<close>

record 'i idem_ops =
  idem_get :: "string \<Rightarrow> 'i \<Rightarrow> (agent_error, IdempotencyRecord option) result"
  idem_save :: "IdempotencyRecord \<Rightarrow> 'i \<Rightarrow> (agent_error, unit) result \<times> 'i"

section \<open>Resolved tools\<close>

text \<open>
  A resolved tool of a turn: what the model is shown, and the two closures over the state
  \<open>'x\<close> of everything the tools act on.
\<close>

record 'x ResolvedTool =
  rt_name :: string
  rt_description :: string
  rt_parameters :: "ToolParamSchema list"
  rt_sanitize :: "(string \<Rightarrow> props \<Rightarrow> 'x \<Rightarrow> (agent_error, string) result \<times> 'x) option"
  rt_execute :: "props \<Rightarrow> string option \<Rightarrow> 'x \<Rightarrow> (agent_error, ToolExecutionResult) result \<times> 'x"

section \<open>Discovery\<close>

text \<open>One metadata key of one method, in each of the places it may be attached to.\<close>

record 'a layered =
  on_prototype :: "'a option"
  on_function :: "'a option"
  on_instance :: "'a option"
  on_target :: "'a option"

definition getMethodMetadata :: "'a layered \<Rightarrow> 'a option" where
  "getMethodMetadata m =
     (case on_prototype m of Some v \<Rightarrow> Some v | None \<Rightarrow>
      (case on_function m of Some v \<Rightarrow> Some v | None \<Rightarrow>
       (case on_instance m of Some v \<Rightarrow> Some v | None \<Rightarrow> on_target m)))"

record ToolOptions =
  opt_name :: "string option"
  opt_description :: "string option"

record ParamMetadata =
  pm_index :: nat
  pm_name :: string
  pm_description :: "string option"
  pm_type :: "param_type option"
  pm_required :: "bool option"

text \<open>A function-valued own property of the prototype other than the constructor.\<close>

record 'w decorated_method =
  dm_name :: string
  dm_tool :: "ToolOptions layered"
  dm_params :: "ParamMetadata list layered"
  dm_context :: "nat layered"
  dm_policies :: "PolicyConstructor list layered"
  dm_exempt :: "bool layered"
  dm_body :: "method_arg list \<Rightarrow> 'w \<Rightarrow> (agent_error, jsval) result \<times> 'w"

record 'w decorated_class =
  dc_toolset :: bool
  dc_policies :: "PolicyConstructor list option"
  dc_exempt :: "bool option"
  dc_prototype :: "'w decorated_method list option"

definition discovered_param :: "ParamMetadata \<Rightarrow> DiscoveredParam" where
  "discovered_param p =
     \<lparr>dp_index = pm_index p, dp_name = pm_name p, dp_description = pm_description p,
      dp_type = nullish (pm_type p) TString, dp_required = nullish (pm_required p) True\<rparr>"

definition discover_method ::
    "nat \<Rightarrow> bool \<Rightarrow> 'w decorated_method \<Rightarrow> 'w DiscoveredTool option" where
  "discover_method instance_id classExempt m =
     (case getMethodMetadata (dm_tool m) of
        None \<Rightarrow> None
      | Some toolOptions \<Rightarrow>
          Some \<lparr>dt_methodName = dm_name m,
            dt_toolName = nullish (opt_name toolOptions) (dm_name m),
            dt_description = nullish (opt_description toolOptions) [],
            dt_params = map discovered_param
              (sort_key pm_index (nullish (getMethodMetadata (dm_params m)) [])),
            contextParamIndex = getMethodMetadata (dm_context m),
            policyConstructors = nullish (getMethodMetadata (dm_policies m)) [],
            exemptFromDefaultPolicies = nullish (getMethodMetadata (dm_exempt m)) classExempt,
            dt_instance = instance_id,
            dt_method = dm_body m\<rparr>)"

definition discover :: "nat \<Rightarrow> 'w decorated_class \<Rightarrow> 'w DiscoveredToolSet option" where
  "discover instance_id cls =
     (if \<not> dc_toolset cls then None
      else case dc_prototype cls of
             None \<Rightarrow> None
           | Some methods \<Rightarrow>
               Some \<lparr>classPolicyConstructors = nullish (dc_policies cls) [],
                 dts_tools = List.map_filter
                   (discover_method instance_id (nullish (dc_exempt cls) False)) methods\<rparr>)"

end
