(* ===== verification/Scope_Key.thy ===== *)
theory Scope_Key
  imports Json_Text
begin

text \<open>
  Composite keys of storage scopes, \<open>packages/core/src/utils/scope-key.ts\<close>. \<open>ns\<close> prints a
  finite number.
\<close>

datatype scope_part = PartStr string | PartNum jsnum | PartUndef

text \<open>\<open>p ?? null\<close>.\<close>

fun scope_value :: "scope_part \<Rightarrow> jsval" where
  "scope_value (PartStr s) = JStr s"
| "scope_value (PartNum n) = JNum n"
| "scope_value PartUndef = JNull"

definition scopeKey :: "(rat \<Rightarrow> string) \<Rightarrow> scope_part list \<Rightarrow> string" where
  "scopeKey ns parts = txt_of ns (JArr (map scope_value parts))"

fun finite_part :: "scope_part \<Rightarrow> bool" where
  "finite_part (PartNum n) = is_finite n"
| "finite_part _ = True"

lemma json_clean_scope: "list_all finite_part ps \<Longrightarrow> json_clean (JArr (map scope_value ps))"
proof -
  have "finite_part p \<Longrightarrow> json_clean (scope_value p)" for p
    by (cases p) auto
  then show "list_all finite_part ps \<Longrightarrow> json_clean (JArr (map scope_value ps))"
    by (simp add: list_all_iff)
qed

lemma scope_value_inj: "scope_value p = scope_value q \<longleftrightarrow> p = q"
  by (cases p; cases q) auto

lemma scopeKey_inj:
  assumes "num_printer ns" "list_all finite_part ps" "list_all finite_part qs"
  shows "scopeKey ns ps = scopeKey ns qs \<longleftrightarrow> ps = qs"
proof
  assume "scopeKey ns ps = scopeKey ns qs"
  with txt_of_inj [OF assms(1), of "JArr (map scope_value ps)" "JArr (map scope_value qs)" "[]" "[]"] assms
  have "map scope_value ps = map scope_value qs"
    by (simp add: scopeKey_def json_clean_scope del: json_clean.simps) (simp add: ends_value_def)
  then show "ps = qs"
    by (metis inj_map_eq_map injI scope_value_inj)
qed simp

text \<open>Without a finite number the separation fails: \<open>NaN\<close> prints as an absent segment does.\<close>

lemma scopeKey_NaN: "scopeKey ns [PartNum NaN] = scopeKey ns [PartUndef]"
  by (simp add: scopeKey_def txt_of_def)

end
