(* ===== verification/Tool_Provider.thy ===== *)
theory Tool_Provider
  imports Tool_Discovery Approval_Store Audit_Trail Scope_Key
begin

text \<open>
  Policy-guarded tools: \<open>packages/core/src/providers/local-tool.provider.ts\<close>.

  The environment \<open>penv\<close> holds the injected collaborators and what the
  dependency-injection container answers; the state \<open>pst\<close> has one part per collaborator:
  the policies, the approval store, the idempotency store and the world the tool methods
  act on, beside the events handed to the audit trail. The clock and \<open>Date\<close> values are in
  milliseconds.
\<close>

section \<open>Environment and state\<close>

text \<open>
  The audit trail is absent (\<open>None\<close>) or present, with or without sinks; the time points are
  the clock at the deadline check, at the creation of an approval or record, and in events.
  \<open>storeError\<close> is what the approval store's \<open>save\<close> rejects with; \<open>js_string\<close> is \<open>String\<close>
  on values that are not strings.
\<close>

record ('p, 's, 'i, 'w) penv =
  policyInstances :: "(PolicyConstructor \<times> 'p ToolPolicy) list"
  containerPolicies :: "(PolicyConstructor \<times> 'p ToolPolicy) list option"
  moduleRef_policy :: "PolicyConstructor \<Rightarrow> 'p ToolPolicy option"
  resolveInstance :: "nat \<Rightarrow> nat option"
  decorated :: "nat \<Rightarrow> 'w decorated_class"
  approvalStore :: "'s store_ops"
  idempotencyStore :: "'i idem_ops option"
  defaultPolicies :: "PolicyConstructor list option"
  auditTrail :: "bool option"
  aborted :: bool
  now_deadline :: int
  now_created :: int
  now_audit :: int
  randomUUID :: string
  storeError :: agent_error
  js_string :: "jsval \<Rightarrow> string"

record ('p, 's, 'i, 'w) pst =
  pst_policies :: 'p
  pst_approvals :: 's
  pst_idem :: 'i
  pst_world :: 'w
  pst_events :: "AuditEvent list"
  warnedExemptTools :: "(nat \<times> string) list"
  pst_warnings :: "string list"

definition audit_record ::
    "('p, 's, 'i, 'w) penv \<Rightarrow> AuditEvent \<Rightarrow> ('p, 's, 'i, 'w) pst \<Rightarrow> ('p, 's, 'i, 'w) pst" where
  "audit_record env e st =
     (if auditTrail env = None then st else st\<lparr>pst_events := pst_events st @ [e]\<rparr>)"

section \<open>Resolving policies\<close>

definition defaultPolicyConstructors ::
    "('p, 's, 'i, 'w) penv \<Rightarrow> bool \<Rightarrow> PolicyConstructor list" where
  "defaultPolicyConstructors env exempt =
     (if exempt then [] else nullish (defaultPolicies env) [])"

text \<open>The map has two keys per instance, its class and the name of its class; later entries win.\<close>

datatype policy_key = ByConstructor PolicyConstructor | ByName string

definition getPolicyMap :: "('p, 's, 'i, 'w) penv \<Rightarrow> policy_key \<Rightarrow> 'p ToolPolicy option" where
  "getPolicyMap env =
     (let instances = (if policyInstances env = [] then nullish (containerPolicies env) []
                       else policyInstances env)
      in fold (\<lambda>(c, p) m. m(ByConstructor c \<mapsto> p, ByName (con_name c) \<mapsto> p)) instances Map.empty)"

definition resolvePolicy ::
    "('p, 's, 'i, 'w) penv \<Rightarrow> PolicyConstructor \<Rightarrow> 'p ToolPolicy option" where
  "resolvePolicy env c =
     (let policyMap = getPolicyMap env
      in case (case policyMap (ByConstructor c) of
                 Some p \<Rightarrow> Some p
               | None \<Rightarrow> policyMap (ByName (con_name c))) of
           Some existing \<Rightarrow> Some existing
         | None \<Rightarrow> moduleRef_policy env c)"

definition warnIfExemptWithNoPolicies ::
    "'w DiscoveredTool \<Rightarrow> PolicyConstructor list \<Rightarrow> ('p, 's, 'i, 'w) pst \<Rightarrow> ('p, 's, 'i, 'w) pst" where
  "warnIfExemptWithNoPolicies tool allPolicyConstructors st =
     (if \<not> exemptFromDefaultPolicies tool \<or> length allPolicyConstructors > 0 then st
      else if (dt_instance tool, dt_methodName tool) \<in> set (warnedExemptTools st) then st
      else st\<lparr>warnedExemptTools := warnedExemptTools st @ [(dt_instance tool, dt_methodName tool)],
              pst_warnings := pst_warnings st @ [dt_toolName tool]\<rparr>)"

section \<open>Guards and idempotency keys\<close>

definition isDeadlineExceeded :: "int option \<Rightarrow> int \<Rightarrow> bool" where
  "isDeadlineExceeded dl t = (case dl of None \<Rightarrow> False | Some d \<Rightarrow> t > d)"

definition entry_guard ::
    "('p, 's, 'i, 'w) penv \<Rightarrow> AgentContext \<Rightarrow> (agent_error, unit) result" where
  "entry_guard env ctx =
     (if aborted env then Inl (ExecutionCancelled None)
      else if isDeadlineExceeded (deadline ctx) (now_deadline env)
      then Inl (ExecutionLimitExceeded Timeout 0)
      else Inr ())"

text \<open>No segment of this key is a number, so the number printer plays no role.\<close>

definition scopedIdempotencyKey :: "AgentContext \<Rightarrow> string \<Rightarrow> string" where
  "scopedIdempotencyKey ctx k =
     scopeKey plain_number
       [case tenantId (security ctx) of None \<Rightarrow> PartUndef | Some t \<Rightarrow> PartStr t, PartStr k]"

definition resolveIdempotencyKey :: "props \<Rightarrow> AgentContext \<Rightarrow> string option" where
  "resolveIdempotencyKey targs ctx =
     (let fromArgs = get_prop targs ''idempotencyKey'';
          fromContext = get_prop (nullish (ctx_data ctx) []) ''idempotencyKey'';
          raw = (case fromArgs of JStr (c # cs) \<Rightarrow> fromArgs | _ \<Rightarrow> fromContext)
      in case raw of
           JStr (c # cs) \<Rightarrow> Some (scopedIdempotencyKey ctx (c # cs))
         | _ \<Rightarrow> None)"

text \<open>The cached record for the key, if there is a key, a store and a record.\<close>

definition cached_result ::
    "('p, 's, 'i, 'w) penv \<Rightarrow> string option \<Rightarrow> ('p, 's, 'i, 'w) pst
       \<Rightarrow> (agent_error, ToolExecutionResult option) result" where
  "cached_result env key st =
     (case (key, idempotencyStore env) of
        (Some k, Some store) \<Rightarrow> map_sum id (map_option rec_result) (idem_get store k (pst_idem st))
      | _ \<Rightarrow> Inr None)"

definition save_result ::
    "('p, 's, 'i, 'w) penv \<Rightarrow> string option \<Rightarrow> string \<Rightarrow> ToolExecutionResult \<Rightarrow> ('p, 's, 'i, 'w) pst
       \<Rightarrow> (agent_error, ToolExecutionResult) result \<times> ('p, 's, 'i, 'w) pst" where
  "save_result env key tool_name finalResult st =
     (case (key, idempotencyStore env, finalResult) of
        (Some k, Some store, Success _ _) \<Rightarrow>
          (case idem_save store \<lparr>rec_key = k, rec_toolName = Some tool_name, rec_result = finalResult,
                  rec_createdAt = now_created env\<rparr> (pst_idem st) of
             (r, i') \<Rightarrow> (map_sum id (\<lambda>_. finalResult) r, st\<lparr>pst_idem := i'\<rparr>))
      | _ \<Rightarrow> (Inr finalResult, st))"

section \<open>Output rails\<close>

record pcall =
  c_context :: AgentContext
  c_agentName :: string
  c_toolName :: string
  c_args :: props

definition envelope :: "('p, 's, 'i, 'w) penv \<Rightarrow> pcall \<Rightarrow> AuditEventBase" where
  "envelope env c = auditEnvelope (now_audit env) (c_context c)"

definition output_event ::
    "('p, 's, 'i, 'w) penv \<Rightarrow> pcall \<Rightarrow> PolicyConstructor \<Rightarrow> PolicyVerdict \<Rightarrow> string option \<Rightarrow> AuditEvent" where
  "output_event env c con vd reason =
     ToolOutputPolicyDecision (envelope env c) (c_agentName c) (c_toolName c) (con_name con) vd reason
       (Some (c_args c))"

text \<open>Asking one policy about an output; a policy that is missing or has no output hook is skipped.\<close>

definition ask_output ::
    "('p, 's, 'i, 'w) penv \<Rightarrow> pcall \<Rightarrow> PolicyConstructor \<Rightarrow> jsval \<Rightarrow> Provenance option
       \<Rightarrow> ('p, 's, 'i, 'w) pst \<Rightarrow> (agent_error, PolicyOutputResult option) result \<times> ('p, 's, 'i, 'w) pst" where
  "ask_output env c con v prov st =
     (case Option.bind (resolvePolicy env con) evaluateOutput of
        None \<Rightarrow> (Inr None, st)
      | Some hook \<Rightarrow>
          (case hook (c_context c) (c_toolName c) v prov (pst_policies st) of
             (r, p') \<Rightarrow> (map_sum id Some r, st\<lparr>pst_policies := p'\<rparr>)))"

fun rails_loop ::
    "('p, 's, 'i, 'w) penv \<Rightarrow> pcall \<Rightarrow> Provenance option \<Rightarrow> PolicyConstructor list \<Rightarrow> jsval
       \<Rightarrow> ('p, 's, 'i, 'w) pst \<Rightarrow> (agent_error, ToolExecutionResult) result \<times> ('p, 's, 'i, 'w) pst" where
  "rails_loop env c prov [] v st = (Inr (Success v prov), st)"
| "rails_loop env c prov (con # cons) v st =
     and_then (ask_output env c con v prov st) (\<lambda>r st1.
       case r of
         None \<Rightarrow> rails_loop env c prov cons v st1
       | Some (ODeny reason) \<Rightarrow>
           (Inr (Denied reason prov), audit_record env (output_event env c con DeniedBy (Some reason)) st1)
       | Some (OSanitize v') \<Rightarrow>
           rails_loop env c prov cons v'
             (audit_record env (output_event env c con Sanitized (Some ''Output sanitized by policy'')) st1)
       | Some (OAllow reason) \<Rightarrow>
           rails_loop env c prov cons v (audit_record env (output_event env c con Allowed reason) st1))"

definition runOutputRails ::
    "('p, 's, 'i, 'w) penv \<Rightarrow> pcall \<Rightarrow> ToolExecutionResult \<Rightarrow> PolicyConstructor list
       \<Rightarrow> ('p, 's, 'i, 'w) pst \<Rightarrow> (agent_error, ToolExecutionResult) result \<times> ('p, 's, 'i, 'w) pst" where
  "runOutputRails env c executionResult cons st =
     (case executionResult of
        Success v prov \<Rightarrow> rails_loop env c prov cons v st
      | _ \<Rightarrow> (Inr executionResult, st))"

section \<open>Error messages\<close>

text \<open>
  \<open>String\<close> of a value; \<open>isErrorWrapper\<close> is
  \<open>'error' in value\<close> on an object.
\<close>

definition js_String :: "(jsval \<Rightarrow> string) \<Rightarrow> jsval \<Rightarrow> string" where
  "js_String str v = (case v of JStr s \<Rightarrow> s | _ \<Rightarrow> str v)"

definition sanitized_message :: "(jsval \<Rightarrow> string) \<Rightarrow> jsval \<Rightarrow> string" where
  "sanitized_message str v =
     (case v of
        JObj ps \<Rightarrow> if has_own ps ''error'' then js_String str (get_prop ps ''error'') else js_String str v
      | _ \<Rightarrow> js_String str v)"

definition tool_provenance :: "string \<Rightarrow> Provenance" where
  "tool_provenance tool_name = \<lparr>source = FromTool, origin = Some tool_name\<rparr>"

fun sanitizeErrorMessage ::
    "('p, 's, 'i, 'w) penv \<Rightarrow> pcall \<Rightarrow> PolicyConstructor list \<Rightarrow> string
       \<Rightarrow> ('p, 's, 'i, 'w) pst \<Rightarrow> (agent_error, string) result \<times> ('p, 's, 'i, 'w) pst" where
  "sanitizeErrorMessage env c [] message st = (Inr message, st)"
| "sanitizeErrorMessage env c (con # cons) message st =
     and_then (ask_output env c con (JObj [(''error'', JStr message)])
                 (Some (tool_provenance (c_toolName c))) st) (\<lambda>r st1.
       case r of
         None \<Rightarrow> sanitizeErrorMessage env c cons message st1
       | Some (ODeny reason) \<Rightarrow>
           sanitizeErrorMessage env c cons reason
             (audit_record env (output_event env c con DeniedBy (Some reason)) st1)
       | Some (OSanitize v) \<Rightarrow>
           sanitizeErrorMessage env c cons (sanitized_message (js_string env) v)
             (audit_record env (output_event env c con Sanitized
                (Some ''Tool error message sanitized by policy'')) st1)
       | Some (OAllow _) \<Rightarrow> sanitizeErrorMessage env c cons message st1)"

section \<open>Running the method\<close>

text \<open>\<open>methodArgs[i] = v\<close>: an assignment past the end leaves holes, which read as \<open>undefined\<close>.\<close>

definition assign_index :: "nat \<Rightarrow> method_arg \<Rightarrow> method_arg list \<Rightarrow> method_arg list" where
  "assign_index i v xs =
     (if i < length xs then xs[i := v] else xs @ replicate (i - length xs) (ArgVal JUndef) @ [v])"

definition method_arguments :: "'w DiscoveredTool \<Rightarrow> props \<Rightarrow> AgentContext \<Rightarrow> method_arg list" where
  "method_arguments tool targs ctx =
     (let base = fold (\<lambda>p. assign_index (dp_index p) (ArgVal (get_prop targs (dp_name p)))) (dt_params tool) []
      in case contextParamIndex tool of None \<Rightarrow> base | Some i \<Rightarrow> assign_index i (ArgContext ctx) base)"

definition invokeMethod ::
    "'w DiscoveredTool \<Rightarrow> props \<Rightarrow> AgentContext \<Rightarrow> ('p, 's, 'i, 'w) pst
       \<Rightarrow> (agent_error, ToolExecutionResult) result \<times> ('p, 's, 'i, 'w) pst" where
  "invokeMethod tool targs ctx st =
     (case dt_method tool (method_arguments tool targs ctx) (pst_world st) of
        (r, w') \<Rightarrow>
          (map_sum id (\<lambda>v. Success v (Some (tool_provenance (dt_toolName tool)))) r,
           st\<lparr>pst_world := w'\<rparr>))"

section \<open>Requesting an approval\<close>

record ApprovalRequest =
  rq_policyName :: string
  rq_reason :: string
  rq_required :: int
  rq_ttl :: "rat option"

text \<open>\<open>[...new Set(xs)]\<close>: distinct elements in the order of their first occurrence.\<close>

definition distinct_values :: "'a list \<Rightarrow> 'a list" where
  "distinct_values xs = fold (\<lambda>x acc. if x \<in> set acc then acc else acc @ [x]) xs []"

text \<open>\<open>Math.max(...xs)\<close> and \<open>Math.min(...xs)\<close> of at least one number.\<close>

definition math_max :: "int list \<Rightarrow> int" where
  "math_max xs = fold max (tl xs) (hd xs)"

definition math_min :: "rat list \<Rightarrow> rat" where
  "math_min xs = fold min (tl xs) (hd xs)"

text \<open>\<open>new Date(t)\<close> drops the fraction of \<open>t\<close>.\<close>

definition date_of :: "rat \<Rightarrow> int" where
  "date_of t = (if t < 0 then \<lceil>t\<rceil> else \<lfloor>t\<rfloor>)"

definition requesterFrom :: "AgentContext \<Rightarrow> AuditActor option" where
  "requesterFrom ctx =
     (let sc = security ctx
      in if userId sc = None \<and> tenantId sc = None \<and> roles sc = None then None
         else Some \<lparr>act_userId = userId sc, act_tenantId = tenantId sc, act_roles = roles sc,
                act_label = None\<rparr>)"

definition lifetimes :: "ApprovalRequest list \<Rightarrow> rat option \<Rightarrow> rat list" where
  "lifetimes requests defaultTtl =
     List.map_filter (\<lambda>r. case rq_ttl r of None \<Rightarrow> defaultTtl | t \<Rightarrow> t) requests"

definition policy_event ::
    "('p, 's, 'i, 'w) penv \<Rightarrow> pcall \<Rightarrow> string \<Rightarrow> PolicyVerdict \<Rightarrow> string option \<Rightarrow> string option
       \<Rightarrow> int option \<Rightarrow> AuditEvent" where
  "policy_event env c pn vd reason approvalId retryAfter =
     ToolPolicyDecision (envelope env c) (c_agentName c) (c_toolName c) pn vd reason approvalId retryAfter
       (Some (c_args c))"

definition approval_of ::
    "('p, 's, 'i, 'w) penv \<Rightarrow> pcall \<Rightarrow> string option \<Rightarrow> rat option \<Rightarrow> ApprovalRequest list \<Rightarrow> PendingApproval" where
  "approval_of env c tool_call_id defaultTtl requests =
     (let needed = math_max (map rq_required requests);
          ttls = lifetimes requests defaultTtl
      in \<lparr>ap_id = randomUUID env, ap_agentName = c_agentName c, ap_toolName = c_toolName c,
          ap_args = c_args c, ap_context = c_context c,
          ap_reason = join '' '' (distinct_values (map rq_reason requests)),
          createdAt = now_created env,
          expiresAt = (if ttls \<noteq> [] then Some (date_of (of_int (now_created env) + math_min ttls * 1000))
                       else None),
          ap_toolCallId = tool_call_id, checkpoint = None,
          requestedBy = requesterFrom (c_context c),
          requiredApprovals = (if needed > 1 then Some needed else None),
          signatures = None\<rparr>)"

definition requestApproval ::
    "('p, 's, 'i, 'w) penv \<Rightarrow> pcall \<Rightarrow> string option \<Rightarrow> rat option \<Rightarrow> ApprovalRequest list
       \<Rightarrow> ('p, 's, 'i, 'w) pst \<Rightarrow> (agent_error, ToolExecutionResult) result \<times> ('p, 's, 'i, 'w) pst" where
  "requestApproval env c tool_call_id defaultTtl requests st =
     (let p = approval_of env c tool_call_id defaultTtl requests
      in case st_save (approvalStore env) p (pst_approvals st) of
           (ok, s') \<Rightarrow>
             (let st1 = st\<lparr>pst_approvals := s'\<rparr>;
                  st2 = (if auditTrail env = Some True
                         then audit_record env
                                (ApprovalRequested (envelope env c) (ap_id p) (c_agentName c) (c_toolName c)
                                   (ap_reason p) (expiresAt p) (requiredApprovals p) (Some (c_args c)))
                                (fold (\<lambda>r. audit_record env (policy_event env c (rq_policyName r)
                                        NeedsApproval (Some (rq_reason r)) (Some (ap_id p)) None))
                                   requests st1)
                         else st1)
              in if \<not> ok then (Inl (storeError env), st1)
                 else (Inr (PendingResult (ap_reason p) (ap_id p) (requiredApprovals p)
                              (map_option (\<lambda>_. 0) (requiredApprovals p))), st2)))"

section \<open>The policy chain\<close>

datatype chain_outcome = Stopped ToolExecutionResult | Passed "ApprovalRequest list"

definition misconfiguration ::
    "('p, 's, 'i, 'w) penv \<Rightarrow> PolicyConstructor \<Rightarrow> jsnum option \<Rightarrow> string option" where
  "misconfiguration env con needed =
     (let n = nullish needed (Fin 1)
      in if \<not> (is_integer n \<and> js_le (Fin 1) n)
         then Some (con_name con @ '' requested an invalid requiredApprovals ('' @
                js_string env (case needed of None \<Rightarrow> JUndef | Some r \<Rightarrow> JNum r) @
                ''); it must be a positive integer'')
         else if js_lt (Fin 1) n \<and> st_addSignature (approvalStore env) = None
         then Some (con_name con @ '' requires '' @ js_string env (JNum n) @
                '' approvers, but the configured ApprovalStore does not implement addSignature()'')
         else None)"

fun policy_chain ::
    "('p, 's, 'i, 'w) penv \<Rightarrow> pcall \<Rightarrow> PolicyConstructor list \<Rightarrow> ApprovalRequest list
       \<Rightarrow> ('p, 's, 'i, 'w) pst \<Rightarrow> (agent_error, chain_outcome) result \<times> ('p, 's, 'i, 'w) pst" where
  "policy_chain env c [] requests st = (Inr (Passed requests), st)"
| "policy_chain env c (con # cons) requests st =
     (case resolvePolicy env con of
        None \<Rightarrow> (Inl (PolicyNotRegistered (con_name con)), st)
      | Some policy \<Rightarrow>
          (case evaluate policy (c_context c) (c_toolName c) (c_args c) (pst_policies st) of
             (Inl e, p') \<Rightarrow> (Inl e, st\<lparr>pst_policies := p'\<rparr>)
           | (Inr (PDeny reason retryAfter), p') \<Rightarrow>
               (Inr (Stopped (Denied reason None)),
                audit_record env (policy_event env c (con_name con) DeniedBy (Some reason) None retryAfter)
                  (st\<lparr>pst_policies := p'\<rparr>))
           | (Inr (PRequire reason ttl needed), p') \<Rightarrow>
               (case misconfiguration env con needed of
                  Some m \<Rightarrow>
                    (let text_of = ''Approval cannot be requested: '' @ m @ ''.''
                     in (Inr (Stopped (Denied text_of None)),
                         audit_record env (policy_event env c (con_name con) DeniedBy (Some text_of) None None)
                           (st\<lparr>pst_policies := p'\<rparr>)))
                | None \<Rightarrow>
                    policy_chain env c cons
                      (requests @ [\<lparr>rq_policyName = con_name con, rq_reason = reason,
                         rq_required = int_of (nullish needed (Fin 1)), rq_ttl = ttl\<rparr>])
                      (st\<lparr>pst_policies := p'\<rparr>))
           | (Inr (PAllow reason), p') \<Rightarrow>
               policy_chain env c cons requests
                 (audit_record env (policy_event env c (con_name con) Allowed reason None None)
                    (st\<lparr>pst_policies := p'\<rparr>))))"

section \<open>Tool calls\<close>

text \<open>The method, its output rails and the idempotency record, as both call paths end.\<close>

definition run_tool ::
    "('p, 's, 'i, 'w) penv \<Rightarrow> pcall \<Rightarrow> string option \<Rightarrow> 'w DiscoveredTool \<Rightarrow> PolicyConstructor list
       \<Rightarrow> ('p, 's, 'i, 'w) pst \<Rightarrow> (agent_error, ToolExecutionResult) result \<times> ('p, 's, 'i, 'w) pst" where
  "run_tool env c key tool cons st =
     and_then (invokeMethod tool (c_args c) (c_context c) st) (\<lambda>r st1.
     and_then (runOutputRails env c r cons st1) (\<lambda>finalResult st2.
       save_result env key (c_toolName c) finalResult st2))"

text \<open>The closure \<open>execute\<close> of a resolved tool.\<close>

definition execute_tool ::
    "('p, 's, 'i, 'w) penv \<Rightarrow> pcall \<Rightarrow> string option \<Rightarrow> rat option \<Rightarrow> 'w DiscoveredTool
       \<Rightarrow> PolicyConstructor list \<Rightarrow> ('p, 's, 'i, 'w) pst
       \<Rightarrow> (agent_error, ToolExecutionResult) result \<times> ('p, 's, 'i, 'w) pst" where
  "execute_tool env c tool_call_id defaultTtl tool cons st =
     (case entry_guard env (c_context c) of
        Inl e \<Rightarrow> (Inl e, st)
      | Inr _ \<Rightarrow>
          (let key = resolveIdempotencyKey (c_args c) (c_context c)
           in case cached_result env key st of
                Inl e \<Rightarrow> (Inl e, st)
              | Inr (Some r) \<Rightarrow> (Inr r, st)
              | Inr None \<Rightarrow>
                  and_then (policy_chain env c cons [] st) (\<lambda>outcome st1.
                    case outcome of
                      Stopped r \<Rightarrow> (Inr r, st1)
                    | Passed requests \<Rightarrow>
                        if requests \<noteq> [] then requestApproval env c tool_call_id defaultTtl requests st1
                        else run_tool env c key tool cons st1)))"

definition param_schema :: "DiscoveredParam \<Rightarrow> ToolParamSchema" where
  "param_schema p =
     \<lparr>param_name = dp_name p, param_description = dp_description p, param_type = dp_type p,
      required = dp_required p\<rparr>"

definition buildResolvedTool ::
    "('p, 's, 'i, 'w) penv \<Rightarrow> 'w DiscoveredTool \<Rightarrow> PolicyConstructor list \<Rightarrow> AgentContext \<Rightarrow> string
       \<Rightarrow> rat option \<Rightarrow> ('p, 's, 'i, 'w) pst ResolvedTool" where
  "buildResolvedTool env tool upstream ctx agent_name defaultTtl =
     (let cons = upstream @ policyConstructors tool;
          call = (\<lambda>targs. \<lparr>c_context = ctx, c_agentName = agent_name,
                            c_toolName = dt_toolName tool, c_args = targs\<rparr>)
      in \<lparr>rt_name = dt_toolName tool,
          rt_description = dt_description tool,
          rt_parameters = map param_schema (dt_params tool),
          rt_sanitize = Some (\<lambda>rawMessage targs. sanitizeErrorMessage env (call targs) cons rawMessage),
          rt_execute = (\<lambda>targs tool_call_id. execute_tool env (call targs) tool_call_id defaultTtl tool cons)\<rparr>)"

text \<open>The toolset of a token: its instance, discovered.\<close>

definition toolset_of :: "('p, 's, 'i, 'w) penv \<Rightarrow> nat \<Rightarrow> 'w DiscoveredToolSet option" where
  "toolset_of env token =
     Option.bind (resolveInstance env token) (\<lambda>i. discover i (decorated env i))"

definition build_toolset ::
    "('p, 's, 'i, 'w) penv \<Rightarrow> AgentContext \<Rightarrow> string \<Rightarrow> rat option \<Rightarrow> 'w DiscoveredToolSet
       \<Rightarrow> ('p, 's, 'i, 'w) pst \<Rightarrow> ('p, 's, 'i, 'w) pst ResolvedTool list \<times> ('p, 's, 'i, 'w) pst" where
  "build_toolset env ctx agent_name defaultTtl discovered st =
     fold (\<lambda>tool (tools, st).
       let upstream = defaultPolicyConstructors env (exemptFromDefaultPolicies tool) @
                      classPolicyConstructors discovered
       in (tools @ [buildResolvedTool env tool upstream ctx agent_name defaultTtl],
           warnIfExemptWithNoPolicies tool (upstream @ policyConstructors tool) st))
       (dts_tools discovered) ([], st)"

fun buildTools ::
    "('p, 's, 'i, 'w) penv \<Rightarrow> nat list \<Rightarrow> AgentContext \<Rightarrow> string \<Rightarrow> rat option
       \<Rightarrow> ('p, 's, 'i, 'w) pst \<Rightarrow> ('p, 's, 'i, 'w) pst ResolvedTool list \<times> ('p, 's, 'i, 'w) pst" where
  "buildTools env [] ctx agent_name defaultTtl st = ([], st)"
| "buildTools env (token # tokens) ctx agent_name defaultTtl st =
     (case toolset_of env token of
        None \<Rightarrow> buildTools env tokens ctx agent_name defaultTtl st
      | Some discovered \<Rightarrow>
          (case build_toolset env ctx agent_name defaultTtl discovered st of
             (tools, st1) \<Rightarrow>
               (case buildTools env tokens ctx agent_name defaultTtl st1 of
                  (rest, st2) \<Rightarrow> (tools @ rest, st2))))"

fun discoverToolByName ::
    "('p, 's, 'i, 'w) penv \<Rightarrow> nat list \<Rightarrow> string \<Rightarrow> ('w DiscoveredTool \<times> PolicyConstructor list) option" where
  "discoverToolByName env [] tool_name = None"
| "discoverToolByName env (token # tokens) tool_name =
     (case toolset_of env token of
        None \<Rightarrow> discoverToolByName env tokens tool_name
      | Some discovered \<Rightarrow>
          (case find (\<lambda>t. dt_toolName t = tool_name) (dts_tools discovered) of
             None \<Rightarrow> discoverToolByName env tokens tool_name
           | Some tool \<Rightarrow>
               Some (tool, defaultPolicyConstructors env (exemptFromDefaultPolicies tool) @
                     classPolicyConstructors discovered @ policyConstructors tool)))"

definition invokeApprovedTool ::
    "('p, 's, 'i, 'w) penv \<Rightarrow> nat list \<Rightarrow> pcall \<Rightarrow> ('p, 's, 'i, 'w) pst
       \<Rightarrow> (agent_error, ToolExecutionResult) result \<times> ('p, 's, 'i, 'w) pst" where
  "invokeApprovedTool env tokens c st =
     (case entry_guard env (c_context c) of
        Inl e \<Rightarrow> (Inl e, st)
      | Inr _ \<Rightarrow>
          (case discoverToolByName env tokens (c_toolName c) of
             None \<Rightarrow> (Inl (ApprovalToolNotFound (c_toolName c)), st)
           | Some (tool, cons) \<Rightarrow>
               (let key = resolveIdempotencyKey (c_args c) (c_context c);
                    st1 = warnIfExemptWithNoPolicies tool cons st
                in case cached_result env key st1 of
                     Inl e \<Rightarrow> (Inl e, st1)
                   | Inr (Some r) \<Rightarrow> (Inr r, st1)
                   | Inr None \<Rightarrow> run_tool env c key tool cons st1)))"

end
