(* ===== verification/Tool_Guarding.thy ===== *)
theory Tool_Guarding
  imports Tool_Provider
begin

text \<open>
  What the guarded tool closures guarantee: the tool method runs only when every policy
  answered \<open>allow\<close>, a denial wins over every request for approval, a withheld call carries
  the strictest terms, and no output reaches the model past the rails.
\<close>

section \<open>Specification of the chain\<close>

text \<open>
  What the policies answer when they are asked one after the other: the requests for
  approval of a chain none of whose policies is missing, throws or denies.
\<close>

fun asked ::
    "('p, 's, 'i, 'w) penv \<Rightarrow> pcall \<Rightarrow> PolicyConstructor list \<Rightarrow> 'p \<Rightarrow> (ApprovalRequest list \<times> 'p) option" where
  "asked env c [] p = Some ([], p)"
| "asked env c (con # cons) p =
     (case resolvePolicy env con of
        None \<Rightarrow> None
      | Some policy \<Rightarrow>
          (case evaluate policy (c_context c) (c_toolName c) (c_args c) p of
             (Inr (PAllow _), p') \<Rightarrow> asked env c cons p'
           | (Inr (PRequire reason ttl needed), p') \<Rightarrow>
               (if misconfiguration env con needed \<noteq> None then None
                else map_option (\<lambda>(rs, p''). (\<lparr>rq_policyName = con_name con, rq_reason = reason,
                       rq_required = int_of (nullish needed (Fin 1)), rq_ttl = ttl\<rparr> # rs, p''))
                     (asked env c cons p'))
           | _ \<Rightarrow> None))"

text \<open>The reason of the first denial, requests for approval before it notwithstanding.\<close>

fun denied_by ::
    "('p, 's, 'i, 'w) penv \<Rightarrow> pcall \<Rightarrow> PolicyConstructor list \<Rightarrow> 'p \<Rightarrow> string option" where
  "denied_by env c [] p = None"
| "denied_by env c (con # cons) p =
     (case resolvePolicy env con of
        None \<Rightarrow> None
      | Some policy \<Rightarrow>
          (case evaluate policy (c_context c) (c_toolName c) (c_args c) p of
             (Inr (PDeny reason _), p') \<Rightarrow> Some reason
           | (Inr (PRequire _ _ needed), p') \<Rightarrow>
               (case misconfiguration env con needed of
                  Some m \<Rightarrow> Some (''Approval cannot be requested: '' @ m @ ''.'')
                | None \<Rightarrow> denied_by env c cons p')
           | (Inr (PAllow _), p') \<Rightarrow> denied_by env c cons p'
           | (Inl _, _) \<Rightarrow> None))"

text \<open>What a part of the code leaves alone.\<close>

definition same_effects :: "('p, 's, 'i, 'w) pst \<Rightarrow> ('p, 's, 'i, 'w) pst \<Rightarrow> bool" where
  "same_effects st st' \<longleftrightarrow> pst_world st' = pst_world st \<and> pst_approvals st' = pst_approvals st \<and>
     pst_idem st' = pst_idem st"

lemma same_effects_refl [simp]: "same_effects st st"
  by (simp add: same_effects_def)

lemma same_effects_policies [simp]: "same_effects st (st'\<lparr>pst_policies := p\<rparr>) = same_effects st st'"
  "same_effects (st\<lparr>pst_policies := p\<rparr>) st' = same_effects st st'"
  by (auto simp: same_effects_def)

lemma audit_record_simps [simp]:
  "pst_policies (audit_record env e st) = pst_policies st"
  "pst_approvals (audit_record env e st) = pst_approvals st"
  "pst_idem (audit_record env e st) = pst_idem st"
  "pst_world (audit_record env e st) = pst_world st"
  by (simp_all add: audit_record_def)

lemma fold_audit_record [simp]:
  "pst_policies (fold (\<lambda>x. audit_record env (f x)) xs st) = pst_policies st"
  "pst_approvals (fold (\<lambda>x. audit_record env (f x)) xs st) = pst_approvals st"
  "pst_idem (fold (\<lambda>x. audit_record env (f x)) xs st) = pst_idem st"
  "pst_world (fold (\<lambda>x. audit_record env (f x)) xs st) = pst_world st"
  by (induction xs arbitrary: st) simp_all

lemma same_effects_audit [simp]:
  "same_effects st (audit_record env e st') = same_effects st st'"
  "same_effects (audit_record env e st) st' = same_effects st st'"
  by (simp_all add: same_effects_def)

lemma warn_simps [simp]:
  "pst_policies (warnIfExemptWithNoPolicies tool cons st) = pst_policies st"
  "pst_approvals (warnIfExemptWithNoPolicies tool cons st) = pst_approvals st"
  "pst_idem (warnIfExemptWithNoPolicies tool cons st) = pst_idem st"
  "pst_world (warnIfExemptWithNoPolicies tool cons st) = pst_world st"
  by (simp_all add: warnIfExemptWithNoPolicies_def)

text \<open>The ways one policy of the chain can answer.\<close>

lemma chain_cases [consumes 1, case_names missing threw denied misconfigured asks allows]:
  assumes "policy_chain env c (con # cons) rs st = (r, st')"
  obtains "resolvePolicy env con = None" "r = Inl (PolicyNotRegistered (con_name con))" "st' = st"
  | policy e p' where "resolvePolicy env con = Some policy"
      "evaluate policy (c_context c) (c_toolName c) (c_args c) (pst_policies st) = (Inl e, p')"
      "r = Inl e" "st' = st\<lparr>pst_policies := p'\<rparr>"
  | policy reason retry p' e where "resolvePolicy env con = Some policy"
      "evaluate policy (c_context c) (c_toolName c) (c_args c) (pst_policies st) = (Inr (PDeny reason retry), p')"
      "r = Inr (Stopped (Denied reason None))" "st' = audit_record env e (st\<lparr>pst_policies := p'\<rparr>)"
      "e = policy_event env c (con_name con) DeniedBy (Some reason) None retry"
  | policy reason ttl needed p' m e where "resolvePolicy env con = Some policy"
      "evaluate policy (c_context c) (c_toolName c) (c_args c) (pst_policies st) = (Inr (PRequire reason ttl needed), p')"
      "misconfiguration env con needed = Some m"
      "r = Inr (Stopped (Denied (''Approval cannot be requested: '' @ m @ ''.'') None))"
      "st' = audit_record env e (st\<lparr>pst_policies := p'\<rparr>)"
      "e = policy_event env c (con_name con) DeniedBy
             (Some (''Approval cannot be requested: '' @ m @ ''.'')) None None"
  | policy reason ttl needed p' where "resolvePolicy env con = Some policy"
      "evaluate policy (c_context c) (c_toolName c) (c_args c) (pst_policies st) = (Inr (PRequire reason ttl needed), p')"
      "misconfiguration env con needed = None"
      "policy_chain env c cons
         (rs @ [\<lparr>rq_policyName = con_name con, rq_reason = reason,
            rq_required = int_of (nullish needed (Fin 1)), rq_ttl = ttl\<rparr>])
         (st\<lparr>pst_policies := p'\<rparr>) = (r, st')"
  | policy reason p' where "resolvePolicy env con = Some policy"
      "evaluate policy (c_context c) (c_toolName c) (c_args c) (pst_policies st) = (Inr (PAllow reason), p')"
      "policy_chain env c cons rs
         (audit_record env (policy_event env c (con_name con) Allowed reason None None)
            (st\<lparr>pst_policies := p'\<rparr>)) = (r, st')"
  using assms
  by (simp add: Let_def split: option.splits prod.splits sum.splits PolicyResult.splits)

lemma chain_effects: "policy_chain env c cons rs st = (r, st') \<Longrightarrow> same_effects st st'"
proof (induction cons arbitrary: rs st)
  case (Cons con cons)
  from Cons.prems show ?case
    by (cases rule: chain_cases) (auto dest: Cons.IH)
qed simp

text \<open>The chain refines its specification, on every outcome.\<close>

lemma chain_refines:
  "policy_chain env c cons rs st = (r, st') \<Longrightarrow>
     (case asked env c cons (pst_policies st) of
        Some (new, p') \<Rightarrow> r = Inr (Passed (rs @ new)) \<and> pst_policies st' = p'
      | None \<Rightarrow>
          (case denied_by env c cons (pst_policies st) of
             Some reason \<Rightarrow> r = Inr (Stopped (Denied reason None))
           | None \<Rightarrow> \<exists>e. r = Inl e))"
proof (induction cons arbitrary: rs st)
  case (Cons con cons)
  from Cons.prems show ?case
    by (cases rule: chain_cases) (auto dest!: Cons.IH split: option.splits)
qed simp

section \<open>A call that is neither refused at the entry nor answered from the cache\<close>

definition fresh_call :: "('p, 's, 'i, 'w) penv \<Rightarrow> pcall \<Rightarrow> ('p, 's, 'i, 'w) pst \<Rightarrow> bool" where
  "fresh_call env c st \<longleftrightarrow> entry_guard env (c_context c) = Inr () \<and>
     cached_result env (resolveIdempotencyKey (c_args c) (c_context c)) st = Inr None"

lemma stale_call_effects:
  assumes "execute_tool env c i ttl tool cons st = (r, st')" and "\<not> fresh_call env c st"
  shows "st' = st"
  using assms
  by (auto simp: execute_tool_def fresh_call_def Let_def split: sum.splits option.splits)

lemma execute_refines:
  assumes "execute_tool env c i ttl tool cons st = (r, st')" and "fresh_call env c st"
  obtains
    (withheld) rs st1 where "asked env c cons (pst_policies st) = Some (rs, pst_policies st1)" "rs \<noteq> []"
      "same_effects st st1" "requestApproval env c i ttl rs st1 = (r, st')"
  | (runs) st1 where "asked env c cons (pst_policies st) = Some ([], pst_policies st1)"
      "same_effects st st1"
      "run_tool env c (resolveIdempotencyKey (c_args c) (c_context c)) tool cons st1 = (r, st')"
  | (denied) reason where "denied_by env c cons (pst_policies st) = Some reason"
      "r = Inr (Denied reason None)" "same_effects st st'"
  | (fails) e where "asked env c cons (pst_policies st) = None" "denied_by env c cons (pst_policies st) = None"
      "r = Inl e" "same_effects st st'"
proof -
  obtain r1 st1 where chain: "policy_chain env c cons [] st = (r1, st1)"
    by (cases "policy_chain env c cons [] st")
  note facts = chain_refines [OF chain] chain_effects [OF chain]
  have "and_then (r1, st1) (\<lambda>outcome st1. case outcome of
          Stopped r \<Rightarrow> (Inr r, st1)
        | Passed requests \<Rightarrow>
            if requests \<noteq> [] then requestApproval env c i ttl requests st1
            else run_tool env c (resolveIdempotencyKey (c_args c) (c_context c)) tool cons st1) = (r, st')"
    using assms by (auto simp: execute_tool_def fresh_call_def Let_def chain split: sum.splits)
  with facts that show ?thesis
    by (cases r1) (auto split: option.splits if_splits)
qed

text \<open>What a withheld call leaves behind.\<close>

lemma requestApproval_saves:
  assumes "requestApproval env c i ttl rs st = (r, st')"
  shows "pst_world st' = pst_world st" "pst_idem st' = pst_idem st"
    "pst_approvals st' = snd (st_save (approvalStore env) (approval_of env c i ttl rs) (pst_approvals st))"
    "r = (let p = approval_of env c i ttl rs
          in if fst (st_save (approvalStore env) p (pst_approvals st))
             then Inr (PendingResult (ap_reason p) (ap_id p) (requiredApprovals p)
                         (map_option (\<lambda>_. 0) (requiredApprovals p)))
             else Inl (storeError env))"
  using assms by (auto simp: requestApproval_def Let_def split: prod.splits if_splits)

section \<open>Running a tool\<close>

text \<open>
  C3: A tool call changes the world its method acts on, or the record of completed calls,
  only when it was neither cancelled nor late nor answered from the cache, and every policy
  of its chain (the module's defaults, the class's, the method's) was registered and
  answered \<open>allow\<close>.
\<close>

theorem tool_runs_only_with_consent:
  assumes "execute_tool env c i ttl tool cons st = (r, st')"
    and "pst_world st' \<noteq> pst_world st \<or> pst_idem st' \<noteq> pst_idem st"
  shows "fresh_call env c st \<and> (\<exists>p'. asked env c cons (pst_policies st) = Some ([], p'))"
proof (cases "fresh_call env c st")
  case True
  from assms(1) True show ?thesis
  proof (cases rule: execute_refines)
    case (withheld rs st1)
    with requestApproval_saves [OF withheld(4)] assms(2) show ?thesis by (simp add: same_effects_def)
  qed (use True assms(2) in \<open>auto simp: same_effects_def\<close>)
next
  case False
  with stale_call_effects [OF assms(1)] assms(2) show ?thesis by simp
qed

section \<open>Denial\<close>

lemma chain_denial:
  assumes "asked env c pre (pst_policies st) = Some (new, p1)" "resolvePolicy env con = Some policy"
    "evaluate policy (c_context c) (c_toolName c) (c_args c) p1 = (Inr (PDeny reason retry), p2)"
  shows "\<exists>st1. policy_chain env c (pre @ con # post) rs st =
      (Inr (Stopped (Denied reason None)),
       audit_record env (policy_event env c (con_name con) DeniedBy (Some reason) None retry) st1) \<and>
    pst_policies st1 = p2 \<and> same_effects st st1"
  using assms(1)
proof (induction pre arbitrary: st rs new)
  case Nil
  with assms(2,3) show ?case
    by (auto intro!: exI [of _ "st\<lparr>pst_policies := p2\<rparr>"])
next
  case (Cons k pre)
  then obtain pol where k: "resolvePolicy env k = Some pol"
    by (auto split: option.splits)
  obtain a p' where e: "evaluate pol (c_context c) (c_toolName c) (c_args c) (pst_policies st) = (a, p')"
    by (cases "evaluate pol (c_context c) (c_toolName c) (c_args c) (pst_policies st)")
  from Cons.prems k e obtain v new' where a: "a = Inr v" "asked env c pre p' = Some (new', p1)"
    by (cases a) (auto split: PolicyResult.splits if_splits)
  show ?case
  proof (cases v)
    case (PRequire r t n)
    with Cons.prems k e a have "misconfiguration env k n = None"
      by (auto split: if_splits)
    with Cons.IH [of "st\<lparr>pst_policies := p'\<rparr>"] k e a PRequire show ?thesis
      by (simp add: Let_def)
  next
    case (PAllow r)
    with Cons.IH [of "audit_record env (policy_event env c (con_name k) Allowed r None None)
        (st\<lparr>pst_policies := p'\<rparr>)"] k e a show ?thesis
      by simp
  qed (use Cons.prems k e a in auto)
qed

text \<open>
  C4: The first policy that denies decides the call: whatever approvals the policies before
  it required, the model is told the denial's reason, the denial is the last event handed to
  the audit trail, no approval is created, and neither the method nor a later policy runs.
\<close>

theorem denial_wins:
  assumes "fresh_call env c st"
    and "asked env c pre (pst_policies st) = Some (rs, p1)"
    and "resolvePolicy env con = Some policy"
    and "evaluate policy (c_context c) (c_toolName c) (c_args c) p1 = (Inr (PDeny reason retry), p2)"
  shows "\<exists>st'. execute_tool env c i ttl tool (pre @ con # post) st = (Inr (Denied reason None), st') \<and>
    pst_world st' = pst_world st \<and> pst_approvals st' = pst_approvals st \<and> pst_idem st' = pst_idem st \<and>
    pst_policies st' = p2 \<and>
    (auditTrail env \<noteq> None \<longrightarrow> last (pst_events st') =
       policy_event env c (con_name con) DeniedBy (Some reason) None retry)"
proof -
  from chain_denial [OF assms(2-4), of post "[]"] assms(1) show ?thesis
    by (auto simp: execute_tool_def fresh_call_def Let_def same_effects_def audit_record_def)
qed

section \<open>Approval terms\<close>

lemma math_max_Max: "xs \<noteq> [] \<Longrightarrow> math_max xs = Max (set xs)"
  by (cases xs) (simp_all only: math_max_def list.sel Max.set_eq_fold, simp)

lemma math_min_Min: "xs \<noteq> [] \<Longrightarrow> math_min xs = Min (set xs)"
  by (cases xs) (simp_all only: math_min_def list.sel Min.set_eq_fold, simp)

lemma distinct_values_set [simp]: "set (distinct_values xs) = set xs"
proof -
  have "set (fold (\<lambda>x acc. if x \<in> set acc then acc else acc @ [x]) xs acc) = set acc \<union> set xs" for acc
    by (induction xs arbitrary: acc) auto
  then show ?thesis by (simp add: distinct_values_def)
qed

text \<open>Every request of a chain asks for at least one approver.\<close>

lemma asked_positive: "asked env c cons p = Some (rs, p') \<Longrightarrow> \<forall>r\<in>set rs. 1 \<le> rq_required r"
proof (induction cons arbitrary: p rs)
  case (Cons con cons)
  have pos: "1 \<le> int_of (nullish needed (Fin 1))" if "misconfiguration env con needed = None" for needed
    using that by (cases "nullish needed (Fin 1)") (auto simp: misconfiguration_def Let_def split: if_splits)
  from Cons.prems show ?case
    by (auto split: option.splits prod.splits sum.splits PolicyResult.splits if_splits dest: Cons.IH)
       (use Cons.IH pos in \<open>metis, metis\<close>)
qed simp

lemma date_of_mono: "a \<le> b \<Longrightarrow> date_of a \<le> date_of b"
proof -
  assume "a \<le> b"
  moreover have "\<lceil>a\<rceil> \<le> \<lfloor>b\<rfloor>" if "a < 0" "0 \<le> b"
  proof -
    from that have "\<lceil>a\<rceil> \<le> 0" "0 \<le> \<lfloor>b\<rfloor>" by (simp_all add: ceiling_le_iff)
    then show ?thesis by (rule order_trans)
  qed
  ultimately show ?thesis
    by (auto simp: date_of_def ceiling_mono floor_mono)
qed

text \<open>The lifetime a request asks for, the module default when it names none.\<close>

definition lifetime_of :: "rat option \<Rightarrow> ApprovalRequest \<Rightarrow> rat option" where
  "lifetime_of defaultTtl r = (case rq_ttl r of None \<Rightarrow> defaultTtl | t \<Rightarrow> t)"

lemma lifetimes_set: "set (lifetimes rs d) = {t. \<exists>r\<in>set rs. lifetime_of d r = Some t}"
  by (induction rs) (auto simp: lifetimes_def lifetime_of_def map_filter_simps split: option.splits)

text \<open>The terms a request asks for, at a given time.\<close>

definition expiry_of :: "int \<Rightarrow> rat option \<Rightarrow> ApprovalRequest \<Rightarrow> int option" where
  "expiry_of t d r = map_option (\<lambda>s. date_of (of_int t + s * 1000)) (lifetime_of d r)"

definition strictest :: "PendingApproval \<Rightarrow> rat option \<Rightarrow> ApprovalRequest list \<Rightarrow> bool" where
  "strictest p d rs \<longleftrightarrow>
     (\<forall>r\<in>set rs. rq_required r \<le> requiredApprovalsOf p) \<and>
     (\<exists>r\<in>set rs. rq_required r = requiredApprovalsOf p) \<and>
     (\<forall>r\<in>set rs. \<forall>e. expiry_of (createdAt p) d r = Some e \<longrightarrow> (\<exists>e'\<le>e. expiresAt p = Some e')) \<and>
     (\<forall>e. expiresAt p = Some e \<longrightarrow> (\<exists>r\<in>set rs. expiry_of (createdAt p) d r = Some e))"

lemma approval_of_strictest:
  assumes "rs \<noteq> []" and "\<forall>r\<in>set rs. 1 \<le> rq_required r"
  shows "strictest (approval_of env c i d rs) d rs"
proof -
  let ?m = "math_max (map rq_required rs)" and ?p = "approval_of env c i d rs"
  from assms have m: "?m = Max (rq_required ` set rs)" by (simp add: math_max_Max)
  have upper: "rq_required r \<le> ?m" if "r \<in> set rs" for r using that m by simp
  have "?m \<in> rq_required ` set rs" unfolding m using assms(1) by (intro Max_in) auto
  then obtain r where r: "r \<in> set rs" "rq_required r = ?m" by auto
  with assms(2) have req: "requiredApprovalsOf ?p = ?m"
    by (auto simp: requiredApprovalsOf_def approval_of_def Let_def nullish_def)
  let ?ts = "lifetimes rs d"
  have least: "?ts \<noteq> [] \<Longrightarrow> math_min ?ts \<in> set ?ts \<and> (\<forall>t\<in>set ?ts. math_min ?ts \<le> t)"
    by (simp add: math_min_Min)
  have created: "createdAt ?p = now_created env" by (simp add: approval_of_def Let_def)
  have exp: "expiresAt ?p = (if ?ts \<noteq> [] then Some (date_of (of_int (now_created env) + math_min ?ts * 1000)) else None)"
    by (simp add: approval_of_def Let_def)
  have "\<exists>e'\<le>e. expiresAt ?p = Some e'" if "q \<in> set rs" "expiry_of (createdAt ?p) d q = Some e" for q e
  proof -
    from that(2) obtain t where t: "lifetime_of d q = Some t" "e = date_of (of_int (now_created env) + t * 1000)"
      by (auto simp: expiry_of_def created)
    with that(1) have "t \<in> set ?ts" by (auto simp: lifetimes_set)
    moreover from this have "?ts \<noteq> []" by auto
    ultimately show ?thesis using least t(2) by (auto simp: exp intro!: date_of_mono)
  qed
  moreover have "\<exists>q\<in>set rs. expiry_of (createdAt ?p) d q = Some e" if "expiresAt ?p = Some e" for e
  proof -
    from that least have "math_min ?ts \<in> set ?ts" "e = date_of (of_int (now_created env) + math_min ?ts * 1000)"
      by (auto simp: exp split: if_splits)
    then show ?thesis by (auto simp: lifetimes_set expiry_of_def created)
  qed
  ultimately show ?thesis
    unfolding strictest_def req using upper r by blast
qed

text \<open>One output rail: it is skipped, denies, replaces the value or lets it through.\<close>

lemma rails_cases [consumes 1, case_names threw skipped denies sanitizes lets]:
  assumes "rails_loop env c prov (con # cons) v st = (r, st')"
  obtains e st1 where "ask_output env c con v prov st = (Inl e, st1)" "r = Inl e"
  | st1 where "ask_output env c con v prov st = (Inr None, st1)" "rails_loop env c prov cons v st1 = (r, st')"
  | reason st1 where "ask_output env c con v prov st = (Inr (Some (ODeny reason)), st1)"
      "r = Inr (Denied reason prov)"
  | v' st1 st2 where "ask_output env c con v prov st = (Inr (Some (OSanitize v')), st1)"
      "rails_loop env c prov cons v' st2 = (r, st')"
  | a st1 st2 where "ask_output env c con v prov st = (Inr (Some (OAllow a)), st1)"
      "rails_loop env c prov cons v st2 = (r, st')"
  using assms
  by (auto elim!: and_then_elim split: option.splits PolicyOutputResult.splits)

lemma rails_outcome:
  "rails_loop env c prov cons v st = (Inr r, st') \<Longrightarrow>
     (\<exists>v'. r = Success v' prov) \<or> (\<exists>reason. r = Denied reason prov)"
proof (induction cons arbitrary: v st)
  case (Cons con cons)
  from Cons.prems show ?case
    by (cases rule: rails_cases) (auto dest: Cons.IH)
qed auto

lemma save_result_outcome: "save_result env key tn r st = (Inr r', st') \<Longrightarrow> r' = r"
  by (auto simp: save_result_def map_sum_def split: option.splits ToolExecutionResult.splits prod.splits sum.splits)

lemma run_tool_cases:
  assumes "run_tool env c key tool cons st = (Inr r, st')"
  obtains v st1 st2 where "dt_method tool (method_arguments tool (c_args c) (c_context c)) (pst_world st) =
      (Inr v, pst_world st1)"
    "rails_loop env c (Some (tool_provenance (dt_toolName tool))) cons v st1 = (Inr r, st2)"
    "save_result env key (c_toolName c) r st2 = (Inr r, st')"
proof -
  from assms obtain r1 st1 r2 st2 where
    m: "invokeMethod tool (c_args c) (c_context c) st = (Inr r1, st1)" and
    o: "runOutputRails env c r1 cons st1 = (Inr r2, st2)" and
    s: "save_result env key (c_toolName c) r2 st2 = (Inr r, st')"
    by (auto simp: run_tool_def and_then_Inr_iff)
  from m obtain v where "r1 = Success v (Some (tool_provenance (dt_toolName tool)))"
    "dt_method tool (method_arguments tool (c_args c) (c_context c)) (pst_world st) = (Inr v, pst_world st1)"
    by (auto simp: invokeMethod_def map_sum_def split: prod.splits sum.splits)
  with o s save_result_outcome [OF s] that show ?thesis
    by (auto simp: runOutputRails_def)
qed

lemma run_tool_outcome:
  "run_tool env c key tool cons st = (Inr (PendingResult reason k req sg), st') \<Longrightarrow> False"
  by (erule run_tool_cases) (auto dest: rails_outcome)

text \<open>
  C5: A call that is withheld for approval has run nothing, and the approval it leaves in the
  store is for exactly this call, on the strictest terms of the policies that asked: as many
  approvers as the most demanding of them, and no lifetime longer than the shortest, the
  module's default standing in for a policy that names none. Every reason is in the approval
  the reviewer reads.
\<close>

theorem withheld_on_strictest_terms:
  assumes "execute_tool env c i ttl tool cons st = (Inr (PendingResult reason k req sg), st')"
    and "fresh_call env c st"
  shows "\<exists>rs p' p. asked env c cons (pst_policies st) = Some (rs, p') \<and>
    pst_approvals st' = snd (st_save (approvalStore env) p (pst_approvals st)) \<and>
    ap_id p = k \<and> ap_toolName p = c_toolName c \<and> ap_args p = c_args c \<and> ap_context p = c_context c \<and>
    strictest p ttl rs \<and> pst_world st' = pst_world st \<and> pst_idem st' = pst_idem st"
  using assms
proof (cases rule: execute_refines)
  case (withheld rs st1)
  let ?p = "approval_of env c i ttl rs"
  note saves = requestApproval_saves [OF withheld(4)]
  have "strictest ?p ttl rs"
    using withheld(2) asked_positive [OF withheld(1)] by (rule approval_of_strictest)
  moreover have "ap_id ?p = k"
    using saves(4) by (auto simp: Let_def split: if_splits)
  moreover have "ap_toolName ?p = c_toolName c" "ap_args ?p = c_args c" "ap_context ?p = c_context c"
    by (simp_all add: approval_of_def Let_def)
  ultimately show ?thesis
    using withheld(1,3) saves(1-3) by (auto simp: same_effects_def)
qed (auto dest: run_tool_outcome)

section \<open>Output rails\<close>

text \<open>
  A policy establishes a property of the values it lets out, or keeps one that holds already,
  whatever its state. A policy without an output hook lets everything through.
\<close>

definition lets_out :: "PolicyOutputResult \<Rightarrow> jsval \<Rightarrow> jsval option" where
  "lets_out r v = (case r of OAllow _ \<Rightarrow> Some v | ODeny _ \<Rightarrow> None | OSanitize v' \<Rightarrow> Some v')"

definition establishes :: "('p, 's, 'i, 'w) penv \<Rightarrow> pcall \<Rightarrow> (jsval \<Rightarrow> bool) \<Rightarrow> PolicyConstructor \<Rightarrow> bool" where
  "establishes env c safe con \<longleftrightarrow>
     (\<exists>hook. Option.bind (resolvePolicy env con) evaluateOutput = Some hook \<and>
        (\<forall>v prov p r p' v'. hook (c_context c) (c_toolName c) v prov p = (Inr r, p') \<longrightarrow>
           lets_out r v = Some v' \<longrightarrow> safe v'))"

definition keeps :: "('p, 's, 'i, 'w) penv \<Rightarrow> pcall \<Rightarrow> (jsval \<Rightarrow> bool) \<Rightarrow> PolicyConstructor \<Rightarrow> bool" where
  "keeps env c safe con \<longleftrightarrow>
     (\<forall>hook v prov p r p' v'. Option.bind (resolvePolicy env con) evaluateOutput = Some hook \<longrightarrow>
        safe v \<longrightarrow> hook (c_context c) (c_toolName c) v prov p = (Inr r, p') \<longrightarrow>
        lets_out r v = Some v' \<longrightarrow> safe v')"

lemma ask_output_hook:
  assumes "ask_output env c con v prov st = (Inr (Some r), st1)"
  obtains hook where "Option.bind (resolvePolicy env con) evaluateOutput = Some hook"
    "hook (c_context c) (c_toolName c) v prov (pst_policies st) = (Inr r, pst_policies st1)"
  using assms by (auto simp: ask_output_def map_sum_def split: option.splits prod.splits sum.splits)

lemma establishes_value:
  assumes "establishes env c safe con" "ask_output env c con v prov st = (Inr r, st1)"
  shows "\<exists>q. r = Some q \<and> (\<forall>v'. lets_out q v = Some v' \<longrightarrow> safe v')"
proof (cases r)
  case None
  with assms show ?thesis
    by (auto simp: establishes_def ask_output_def map_sum_def split: prod.splits sum.splits)
next
  case (Some q)
  with assms(2) show ?thesis
    using assms(1) unfolding establishes_def by (auto elim!: ask_output_hook) blast
qed

lemma keeps_value:
  assumes "keeps env c safe con" "ask_output env c con v prov st = (Inr (Some q), st1)" "safe v"
    "lets_out q v = Some v'"
  shows "safe v'"
  using assms unfolding keeps_def by (auto elim!: ask_output_hook) blast

lemma rails_keep:
  "rails_loop env c prov cons v st = (Inr (Success v' prov'), st') \<Longrightarrow> safe v \<Longrightarrow>
     \<forall>k\<in>set cons. keeps env c safe k \<Longrightarrow> safe v'"
proof (induction cons arbitrary: v st)
  case (Cons con cons)
  note kept = keeps_value [of env c safe con v prov st] Cons.prems(2,3)
  from Cons.prems(1) show ?case
  proof (cases rule: rails_cases)
    case (sanitizes v1 st1 st2)
    with kept have "safe v1" by (auto simp: lets_out_def)
    with sanitizes Cons show ?thesis by auto
  qed (use Cons in auto)
qed simp

lemma rails_establish:
  "rails_loop env c prov (pre @ con # post) v st = (Inr (Success v' prov'), st') \<Longrightarrow>
     establishes env c safe con \<Longrightarrow> \<forall>k\<in>set post. keeps env c safe k \<Longrightarrow> safe v'"
proof (induction pre arbitrary: v st)
  case Nil
  note est = establishes_value [OF Nil.prems(2), of v prov st]
  from Nil.prems(1) have "rails_loop env c prov (con # post) v st = (Inr (Success v' prov'), st')" by simp
  then show ?case
    by (cases rule: rails_cases)
       (use est in \<open>auto simp: lets_out_def intro: rails_keep [OF _ _ Nil.prems(3)]\<close>)
next
  case (Cons k pre)
  from Cons.prems(1) have "rails_loop env c prov (k # pre @ con # post) v st = (Inr (Success v' prov'), st')"
    by simp
  then show ?case
    by (cases rule: rails_cases) (use Cons in auto)
qed

text \<open>
  C6: A value that reaches the model as the result of a fresh tool call has passed the rails
  of every policy: once a policy's output hook establishes a property (by denying, replacing
  or vouching for the value) and the later ones keep it, no result of the tool is returned
  without it.
\<close>

theorem rails_protect_output:
  assumes "execute_tool env c i ttl tool (pre @ con # post) st = (Inr (Success v prov), st')"
    and "fresh_call env c st"
    and "establishes env c safe con"
    and "\<forall>k\<in>set post. keeps env c safe k"
  shows "safe v"
  using assms(1,2)
proof (cases rule: execute_refines)
  case (withheld rs st1)
  with requestApproval_saves(4) [OF withheld(4)] show ?thesis
    by (auto simp: Let_def split: if_splits)
next
  case (runs st1)
  from runs(3) show ?thesis
    by (rule run_tool_cases) (rule rails_establish [OF _ assms(3,4)])
qed auto

section \<open>An environment to run the theorems on\<close>

text \<open>
  Policies that allow, deny, ask for approval (two approvers within a minute, or one) and
  replace the output; a tool that counts its runs in the world and returns a secret.
\<close>

definition ex_context :: AgentContext where
  "ex_context = \<lparr>security = \<lparr>userId = Some ''alice'', tenantId = Some ''acme'', roles = None, permissions = None\<rparr>,
     sessionId = ''s1'', traceId = ''t1'', parentTraceId = None, rootTraceId = None, ctx_data = None,
     deadline = Some 5000\<rparr>"

definition ex_call :: pcall where
  "ex_call = \<lparr>c_context = ex_context, c_agentName = ''agent'', c_toolName = ''pay'',
     c_args = [(''idempotencyKey'', JStr ''k1'')]\<rparr>"

definition ex_con :: "nat \<Rightarrow> PolicyConstructor" where
  "ex_con n = \<lparr>con_id = n, con_name = ''Policy'' @ string_of_nat n\<rparr>"

definition ex_answer :: "nat \<Rightarrow> PolicyResult" where
  "ex_answer n =
     (if n = 1 then PDeny ''too much'' (Some 30)
      else if n = 2 then PRequire ''large amount'' (Some 60) (Some (Fin 2))
      else if n = 3 then PRequire ''new payee'' None None
      else PAllow None)"

definition ex_policy :: "nat \<Rightarrow> nat ToolPolicy" where
  "ex_policy n = \<lparr>evaluate = (\<lambda>_ _ _ p. (Inr (ex_answer n), Suc p)),
     evaluateOutput = (if n = 4 then Some (\<lambda>_ _ v _ p. (Inr (OSanitize (JStr ''masked'')), p)) else None)\<rparr>"

definition ex_tool :: "nat DiscoveredTool" where
  "ex_tool = \<lparr>dt_methodName = ''pay'', dt_toolName = ''pay'', dt_description = [], dt_params = [],
     contextParamIndex = None, policyConstructors = [], exemptFromDefaultPolicies = False, dt_instance = 0,
     dt_method = (\<lambda>_ w. (Inr (JStr ''secret''), Suc w))\<rparr>"

definition ex_env :: "'i idem_ops option \<Rightarrow> (nat, mem_store, 'i, nat) penv" where
  "ex_env idem = \<lparr>policyInstances = [], containerPolicies = None,
     moduleRef_policy = (\<lambda>c. Some (ex_policy (con_id c))),
     resolveInstance = (\<lambda>n. Some n),
     decorated = (\<lambda>_. \<lparr>dc_toolset = False, dc_policies = None, dc_exempt = None, dc_prototype = None\<rparr>),
     approvalStore = mem_ops, idempotencyStore = idem, defaultPolicies = None, auditTrail = Some True,
     aborted = False, now_deadline = 1000, now_created = 1000, now_audit = 1000, randomUUID = ''uuid'',
     storeError = Thrown ''store'', js_string = (\<lambda>_. [])\<rparr>"

definition ex_state :: "'i \<Rightarrow> (nat, mem_store, 'i, nat) pst" where
  "ex_state i = \<lparr>pst_policies = 0, pst_approvals = Map.empty, pst_idem = i, pst_world = 0, pst_events = [],
     warnedExemptTools = [], pst_warnings = []\<rparr>"

lemmas ex_defs = ex_call_def ex_env_def ex_state_def ex_con_def ex_context_def ex_tool_def ex_policy_def
  ex_answer_def

lemma ex_resolve [simp]: "resolvePolicy (ex_env idem) (ex_con n) = Some (ex_policy n)"
  by (simp add: resolvePolicy_def getPolicyMap_def ex_env_def ex_con_def Let_def)

lemma ex_evaluate [simp]: "evaluate (ex_policy n) ctx tn targs p = (Inr (ex_answer n), Suc p)"
  by (simp add: ex_policy_def)

lemma ex_fresh [simp]: "fresh_call (ex_env None) ex_call st"
  by (simp add: fresh_call_def entry_guard_def isDeadlineExceeded_def cached_result_def ex_defs
        split: option.splits)

lemma ex_configured [simp]: "misconfiguration (ex_env idem) con (Some (Fin 2)) = None"
  "misconfiguration (ex_env idem) con None = None"
  by (simp_all add: misconfiguration_def Let_def ex_env_def mem_ops_def)

lemma ex_fields [simp]: "approvalStore (ex_env idem) = mem_ops" "idempotencyStore (ex_env idem) = idem"
  "auditTrail (ex_env idem) = Some True" "pst_policies (ex_state i) = 0" "pst_world (ex_state i) = 0"
  "pst_idem (ex_state i) = i"
  by (simp_all add: ex_env_def ex_state_def)

theorem denial_wins_witness:
  "\<exists>st'. execute_tool (ex_env None) ex_call None None ex_tool ([ex_con 2, ex_con 0] @ ex_con 1 # [ex_con 3])
      (ex_state ()) = (Inr (Denied ''too much'' None), st') \<and>
    pst_world st' = 0 \<and> pst_approvals st' = Map.empty \<and> pst_policies st' = 3"
  using denial_wins [of "ex_env None" ex_call "ex_state ()" "[ex_con 2, ex_con 0]" _ 2 "ex_con 1" "ex_policy 1"
      "''too much''" "Some 30" 3 None None ex_tool "[ex_con 3]"]
  by (auto simp: ex_answer_def ex_state_def)

lemma ex_hook [simp]: "evaluateOutput (ex_policy n) =
    (if n = 4 then Some (\<lambda>_ _ v _ p. (Inr (OSanitize (JStr ''masked'')), p)) else None)"
  by (simp add: ex_policy_def)

lemmas ex_run_simps = execute_tool_def ex_answer_def run_tool_def invokeMethod_def runOutputRails_def
  ask_output_def requestApproval_def approval_of_def Let_def mem_ops_def mem_save_def

lemma ex_guards:
  "entry_guard (ex_env idem) (c_context ex_call) = Inr ()"
  "cached_result (ex_env None) k st = Inr None"
  by (simp_all add: entry_guard_def isDeadlineExceeded_def cached_result_def ex_defs split: option.splits)

lemma save_without_store: "idempotencyStore env = None \<Longrightarrow> save_result env k tn r st = (Inr r, st)"
  by (simp add: save_result_def split: option.splits)

lemma ex_run:
  "\<exists>st'. execute_tool (ex_env None) ex_call None None ex_tool ([ex_con 0] @ ex_con 4 # [ex_con 0]) (ex_state ()) =
     (Inr (Success (JStr ''masked'') (Some (tool_provenance ''pay''))), st') \<and> pst_world st' = 1"
  by (simp add: ex_run_simps ex_guards save_without_store ex_tool_def)

theorem tool_runs_only_with_consent_witness:
  "\<exists>r st' p'. execute_tool (ex_env None) ex_call None None ex_tool ([ex_con 0] @ ex_con 4 # [ex_con 0])
       (ex_state ()) = (r, st') \<and> pst_world st' = 1 \<and>
     asked (ex_env None :: (nat, mem_store, unit, nat) penv) ex_call ([ex_con 0] @ ex_con 4 # [ex_con 0]) 0 =
       Some ([], p')"
proof -
  from ex_run obtain r st' where *: "execute_tool (ex_env None) ex_call None None ex_tool
      ([ex_con 0] @ ex_con 4 # [ex_con 0]) (ex_state ()) = (r, st')" "pst_world st' = 1"
    by blast
  then have "pst_world st' \<noteq> pst_world (ex_state ())" by simp
  with tool_runs_only_with_consent [OF *(1) disjI1 [OF this]] show ?thesis
    using * unfolding ex_fields by blast
qed

theorem rails_protect_output_witness:
  "\<exists>v prov st'. execute_tool (ex_env None) ex_call None None ex_tool ([ex_con 0] @ ex_con 4 # [ex_con 0])
      (ex_state ()) = (Inr (Success v prov), st') \<and> v = JStr ''masked''"
proof -
  from ex_run obtain v prov st' where *: "execute_tool (ex_env None) ex_call None None ex_tool
      ([ex_con 0] @ ex_con 4 # [ex_con 0]) (ex_state ()) = (Inr (Success v prov), st')"
    by blast
  have "v = JStr ''masked''"
    by (rule rails_protect_output [where safe = "\<lambda>v. v = JStr ''masked''", OF * ex_fresh])
       (auto simp: establishes_def keeps_def lets_out_def)
  with * show ?thesis by blast
qed

lemma ex_withheld:
  "\<exists>st'. execute_tool (ex_env None) ex_call None (Some 90) ex_tool [ex_con 2, ex_con 0, ex_con 3] (ex_state ()) =
     (Inr (PendingResult ''large amount new payee'' ''uuid'' (Some 2) (Some 0)), st')"
  by (simp add: ex_run_simps ex_guards math_max_def distinct_values_def split: option.splits)
     (simp add: ex_env_def)

theorem withheld_on_strictest_terms_witness:
  "\<exists>rs p' p. asked (ex_env None :: (nat, mem_store, unit, nat) penv) ex_call [ex_con 2, ex_con 0, ex_con 3] 0 = Some (rs, p') \<and>
     length rs = 2 \<and> ap_id p = ''uuid'' \<and> strictest p (Some 90) rs"
proof -
  from ex_withheld obtain st' where exec: "execute_tool (ex_env None) ex_call None (Some 90) ex_tool
      [ex_con 2, ex_con 0, ex_con 3] (ex_state ()) =
      (Inr (PendingResult ''large amount new payee'' ''uuid'' (Some 2) (Some 0)), st')"
    by blast
  from withheld_on_strictest_terms [OF exec ex_fresh] show ?thesis
    by (auto simp: ex_answer_def)
qed

end
