(* ===== verification/Idempotency.thy ===== *)
theory Idempotency
  imports Tool_Guarding
begin

text \<open>
  Replaying completed tool calls: the store
  \<open>packages/core/src/stores/in-memory/in-memory-idempotency.store.ts\<close> as an implementation
  of the interface \<open>IdempotencyStore\<close>, whose contract is the locale \<open>idempotency_store\<close>,
  and the policy \<open>packages/core/src/policies/idempotency.policy.ts\<close>.

  The in-memory store keeps JSON snapshots, so what it returns is the image of a value under
  \<open>JSON.stringify\<close> and \<open>JSON.parse\<close> (\<open>json_image\<close>). Dates are revived, and a snapshot this store has
  written always parses.
\<close>

section \<open>The in-memory store\<close>

text \<open>A member that is dropped reads as \<open>undefined\<close> again.\<close>

fun result_image :: "ToolExecutionResult \<Rightarrow> ToolExecutionResult" where
  "result_image (Success v prov) = Success (nullish (json_image v) JUndef) prov"
| "result_image r = r"

type_synonym mem_idem = "string \<Rightarrow> IdempotencyRecord option"

definition mem_idem_get :: "string \<Rightarrow> mem_idem \<Rightarrow> (agent_error, IdempotencyRecord option) result" where
  "mem_idem_get k store = Inr (store k)"

definition mem_idem_save :: "IdempotencyRecord \<Rightarrow> mem_idem \<Rightarrow> (agent_error, unit) result \<times> mem_idem" where
  "mem_idem_save r store =
     (Inr (), store(rec_key r \<mapsto> r\<lparr>rec_result := result_image (rec_result r)\<rparr>))"

definition mem_idem_delete :: "string \<Rightarrow> mem_idem \<Rightarrow> mem_idem" where
  "mem_idem_delete k store = store(k := None)"

definition mem_idem_ops :: "mem_idem idem_ops" where
  "mem_idem_ops = \<lparr>idem_get = mem_idem_get, idem_save = mem_idem_save\<rparr>"

lemma result_image_idem [simp]: "result_image (result_image r) = result_image r"
proof (cases r)
  case (Success v prov)
  then show ?thesis
    by (cases "json_image v") (auto simp: json_image_clean [OF json_image_is_clean])
qed simp_all

section \<open>The contract of an idempotency store\<close>

text \<open>
  Any number of calls of tools through the provider, one after another: each has its own tool, policies,
  arguments, caller and environment; they share the store of completed calls.
\<close>

inductive provider_calls :: "'i idem_ops \<Rightarrow> ('p, 's, 'i, 'w) pst \<Rightarrow> ('p, 's, 'i, 'w) pst \<Rightarrow> bool" for idem where
  none: "provider_calls idem st st"
| call: "\<lbrakk>provider_calls idem st st1; idempotencyStore env = Some idem;
    execute_tool env c i ttl tool cons st1 = (r, st2)\<rbrakk> \<Longrightarrow> provider_calls idem st st2"

lemma ask_output_idem: "ask_output env c con v prov st = (r, st') \<Longrightarrow> pst_idem st' = pst_idem st"
  by (auto simp: ask_output_def split: option.splits prod.splits)

lemma rails_loop_idem: "rails_loop env c prov cons v st = (r, st') \<Longrightarrow> pst_idem st' = pst_idem st"
proof (induction cons arbitrary: v st)
  case (Cons con cons)
  obtain o' st1 where ask: "ask_output env c con v prov st = (o', st1)" by fastforce
  with Cons show ?case
    by (cases o') (auto dest!: ask_output_idem split: option.splits PolicyOutputResult.splits)
qed simp

lemma runOutputRails_idem: "runOutputRails env c v cons st = (r, st') \<Longrightarrow> pst_idem st' = pst_idem st"
  by (auto simp: runOutputRails_def dest: rails_loop_idem split: ToolExecutionResult.splits)

locale idempotency_store =
  fixes idem :: "'i idem_ops"
    and image :: "ToolExecutionResult \<Rightarrow> ToolExecutionResult"
  assumes get_saved: "idem_save idem r s = (Inr (), s') \<Longrightarrow>
      \<exists>r'. idem_get idem (rec_key r) s' = Inr (Some r') \<and> rec_result r' = image (rec_result r)"
    and get_other: "idem_save idem r s = (x, s') \<Longrightarrow> k \<noteq> rec_key r \<Longrightarrow>
      idem_get idem k s' = idem_get idem k s"
begin

text \<open>A successful run leaves its result under its key.\<close>

lemma run_leaves_result:
  assumes "idempotencyStore env = Some idem"
    and "run_tool env c (Some k) tool cons st = (Inr (Success v prov), st')"
  shows "cached_result env (Some k) st' = Inr (Some (image (Success v prov)))"
proof -
  from assms(2) obtain st2 where "save_result env (Some k) (c_toolName c) (Success v prov) st2 =
      (Inr (Success v prov), st')"
    by (rule run_tool_cases) auto
  with assms(1) obtain r where "idem_save idem r (pst_idem st2) = (Inr (), pst_idem st')"
    "rec_key r = k" "rec_result r = Success v prov"
    by (auto simp: save_result_def map_sum_def split: prod.splits sum.splits)
  with get_saved [of r] assms(1) show ?thesis
    by (fastforce simp: cached_result_def map_sum_def)
qed

text \<open>A stored result is kept by every call of the provider, whatever its key, tool, policies and outcome.\<close>

lemma run_keeps_other:
  assumes "idempotencyStore env = Some idem" and "run_tool env c key tool cons st = (r, st')" and "key \<noteq> Some k"
  shows "idem_get idem k (pst_idem st') = idem_get idem k (pst_idem st)"
proof -
  obtain r1 st1 where m: "invokeMethod tool (c_args c) (c_context c) st = (r1, st1)" by fastforce
  then have i1: "pst_idem st1 = pst_idem st" by (auto simp: invokeMethod_def split: prod.splits)
  show ?thesis
  proof (cases r1)
    case (Inl e)
    with assms(2) m i1 show ?thesis by (simp add: run_tool_def)
  next
    case (Inr v)
    obtain r2 st2 where o: "runOutputRails env c v cons st1 = (r2, st2)" by fastforce
    then have i2: "pst_idem st2 = pst_idem st1" by (rule runOutputRails_idem)
    show ?thesis
    proof (cases r2)
      case (Inl e)
      with assms(2) m o \<open>r1 = Inr v\<close> i1 i2 show ?thesis by (simp add: run_tool_def)
    next
      case (Inr w)
      with assms(2) m o \<open>r1 = Inr v\<close> have "save_result env key (c_toolName c) w st2 = (r, st')" by (simp add: run_tool_def)
      with assms(1,3) i1 i2 get_other show ?thesis
        by (cases key; cases w) (auto simp: save_result_def split: prod.splits)
    qed
  qed
qed

lemma call_keeps_stored:
  assumes "idempotencyStore env = Some idem" and "execute_tool env c i ttl tool cons st = (r, st')"
    and "idem_get idem k (pst_idem st) = Inr (Some stored)"
  shows "idem_get idem k (pst_idem st') = Inr (Some stored)"
proof (cases "fresh_call env c st")
  case False
  with stale_call_effects [OF assms(2)] assms(3) show ?thesis by simp
next
  case True
  with assms(1,3) have "resolveIdempotencyKey (c_args c) (c_context c) \<noteq> Some k"
    by (auto simp: fresh_call_def cached_result_def)
  note other = run_keeps_other [OF assms(1) _ this]
  from assms(2) True show ?thesis
  proof (cases rule: execute_refines)
    case (withheld rs st1)
    with requestApproval_saves(2) [OF withheld(4)] assms(3) show ?thesis by (simp add: same_effects_def)
  next
    case (runs st1)
    with other [OF runs(3)] assms(3) show ?thesis by (simp add: same_effects_def)
  qed (use assms(3) in \<open>simp_all add: same_effects_def\<close>)
qed

lemma calls_keep_stored:
  "provider_calls idem st st' \<Longrightarrow> idem_get idem k (pst_idem st) = Inr (Some stored) \<Longrightarrow>
     idem_get idem k (pst_idem st') = Inr (Some stored)"
  by (induction rule: provider_calls.induct) (blast dest: call_keeps_stored)+

lemma replay:
  assumes "idempotencyStore env = Some idem"
    and "execute_tool env c i ttl tool cons st = (Inr (Success v prov), st')"
    and "fresh_call env c st"
    and "resolveIdempotencyKey (c_args c) (c_context c) = Some k"
    and "provider_calls idem st' st''"
    and "idempotencyStore env' = Some idem"
    and "resolveIdempotencyKey (c_args c') (c_context c') = Some k"
    and "entry_guard env' (c_context c') = Inr ()"
  shows "execute_tool env' c' i' ttl' tool' cons' st'' = (Inr (image (Success v prov)), st'')"
  using assms(2,3)
proof (cases rule: execute_refines)
  case (withheld rs st1)
  with requestApproval_saves(4) [OF withheld(4)] show ?thesis
    by (auto simp: Let_def split: if_splits)
next
  case (runs st1)
  with run_leaves_result [OF assms(1)] assms(4)
  have "cached_result env (Some k) st' = Inr (Some (image (Success v prov)))" by auto
  with assms(1) obtain stored where "idem_get idem k (pst_idem st') = Inr (Some stored)" "rec_result stored = image (Success v prov)"
    by (auto simp: cached_result_def map_sum_def split: sum.splits)
  with calls_keep_stored [OF assms(5)] assms(6)
  have "cached_result env' (Some k) st'' = Inr (Some (image (Success v prov)))" by (simp add: cached_result_def)
  with assms(7,8) show ?thesis by (simp add: execute_tool_def Let_def)
qed auto

end

interpretation mem_idem: idempotency_store mem_idem_ops result_image
  by unfold_locales (auto simp: mem_idem_ops_def mem_idem_get_def mem_idem_save_def)

section \<open>The policy\<close>

record IdempotencyPolicyOptions =
  keyGenerator :: "(AgentContext \<Rightarrow> string \<Rightarrow> props \<Rightarrow> string option) option"
  key_required :: bool

text \<open>\<open>a || b\<close> on values; the policy looks at the truth of the key only.\<close>

definition js_or :: "jsval \<Rightarrow> jsval \<Rightarrow> jsval" where
  "js_or a b = (if truthy a then a else b)"

definition idempotency_evaluate ::
    "IdempotencyPolicyOptions \<Rightarrow> AgentContext \<Rightarrow> string \<Rightarrow> props \<Rightarrow> 'p
       \<Rightarrow> (agent_error, PolicyResult) result \<times> 'p" where
  "idempotency_evaluate opts ctx tool_name targs p =
     (let k = (case keyGenerator opts of
                 Some gen \<Rightarrow> (case gen ctx tool_name targs of None \<Rightarrow> JUndef | Some s \<Rightarrow> JStr s)
               | None \<Rightarrow> js_or (get_prop targs ''idempotencyKey'')
                            (get_prop (nullish (ctx_data ctx) []) ''idempotencyKey''))
      in if key_required opts \<and> \<not> truthy k
         then (Inr (PDeny (''Idempotency key required for tool '' @ quoted tool_name @
                           '' but was not provided.'') None), p)
         else (Inr (PAllow None), p))"

definition IdempotencyPolicy :: "IdempotencyPolicyOptions \<Rightarrow> 'p ToolPolicy" where
  "IdempotencyPolicy opts = \<lparr>evaluate = idempotency_evaluate opts, evaluateOutput = None\<rparr>"

section \<open>Properties\<close>

text \<open>
  C7: Completed calls are replayed. After a tool call with an idempotency key has run and succeeded, and after any
  number of further calls through the provider, every call of the same tenant that resolves to the same key and is
  neither cancelled nor past its deadline is answered with the stored result and touches nothing: no policy is asked
  and no method runs. The key alone decides, so this holds for a call of any other tool with any other
  arguments too. The store is the one in memory, and only the provider writes to it.
\<close>

theorem completed_call_is_replayed:
  assumes "idempotencyStore env = Some mem_idem_ops"
    and "execute_tool env c i ttl tool cons st = (Inr (Success v prov), st')"
    and "fresh_call env c st"
    and "resolveIdempotencyKey (c_args c) (c_context c) = Some k"
    and "provider_calls mem_idem_ops st' st''"
    and "idempotencyStore env' = Some mem_idem_ops"
    and "resolveIdempotencyKey (c_args c') (c_context c') = Some k"
    and "entry_guard env' (c_context c') = Inr ()"
  shows "execute_tool env' c' i' ttl' tool' cons' st'' = (Inr (result_image (Success v prov)), st'') \<and>
    (json_clean v \<longrightarrow> result_image (Success v prov) = Success v prov)"
  using mem_idem.replay [OF assms] by (simp add: json_image_clean)

text \<open>Keys of different tenants are different, whatever the keys the callers choose.\<close>

lemma scoped_key_inj:
  "scopedIdempotencyKey ctx k = scopedIdempotencyKey ctx' k' \<longleftrightarrow>
     tenantId (security ctx) = tenantId (security ctx') \<and> k = k'"
proof -
  let ?parts = "\<lambda>ctx k. [case tenantId (security ctx) of None \<Rightarrow> PartUndef | Some t \<Rightarrow> PartStr t, PartStr k]"
  have "list_all finite_part (?parts ctx k)" for ctx k
    by (auto split: option.splits)
  with scopeKey_inj [OF plain_number_printer, of "?parts ctx k" "?parts ctx' k'"] show ?thesis
    unfolding scopedIdempotencyKey_def by (auto split: option.splits)
qed

lemma resolved_keys_of_tenants:
  assumes "resolveIdempotencyKey a ctx = Some k" "resolveIdempotencyKey b ctx' = Some k"
  shows "tenantId (security ctx) = tenantId (security ctx')"
  using assms
  by (auto simp: resolveIdempotencyKey_def Let_def scoped_key_inj
        split: jsval.splits list.splits)

lemma ex_replay_key:
  "resolveIdempotencyKey (c_args ex_call) (c_context ex_call) = Some (scopedIdempotencyKey ex_context ''k1'')"
  "fresh_call (ex_env (Some mem_idem_ops)) ex_call (ex_state Map.empty)"
  by (simp_all add: resolveIdempotencyKey_def ex_call_def get_prop_def Let_def fresh_call_def
        entry_guard_def isDeadlineExceeded_def cached_result_def mem_idem_ops_def mem_idem_get_def
        ex_env_def ex_state_def ex_context_def)

lemma ex_first_run:
  "\<exists>st'. execute_tool (ex_env (Some mem_idem_ops)) ex_call None None ex_tool [ex_con 0] (ex_state Map.empty) =
     (Inr (Success (JStr ''secret'') (Some (tool_provenance ''pay''))), st')"
  using ex_replay_key(2) [unfolded fresh_call_def]
  by (simp add: ex_run_simps save_result_def ex_replay_key ex_tool_def mem_idem_ops_def mem_idem_save_def)

theorem completed_call_is_replayed_witness:
  "\<exists>st'. execute_tool (ex_env (Some mem_idem_ops)) (ex_call\<lparr>c_toolName := ''refund''\<rparr>) None None ex_tool
     [ex_con 1] st' = (Inr (Success (JStr ''secret'') (Some (tool_provenance ''pay''))), st')"
proof -
  from ex_first_run obtain st' where run: "execute_tool (ex_env (Some mem_idem_ops)) ex_call None None ex_tool
      [ex_con 0] (ex_state Map.empty) = (Inr (Success (JStr ''secret'') (Some (tool_provenance ''pay''))), st')"
    by blast
  have "resolveIdempotencyKey (c_args (ex_call\<lparr>c_toolName := ''refund''\<rparr>))
      (c_context (ex_call\<lparr>c_toolName := ''refund''\<rparr>)) = Some (scopedIdempotencyKey ex_context ''k1'')"
    using ex_replay_key(1) by simp
  moreover have "entry_guard (ex_env (Some mem_idem_ops)) (c_context (ex_call\<lparr>c_toolName := ''refund''\<rparr>)) = Inr ()"
    using ex_guards(1) by simp
  moreover have idem: "idempotencyStore (ex_env (Some mem_idem_ops)) = Some mem_idem_ops" by (simp add: ex_env_def)
  moreover have "provider_calls mem_idem_ops st'
      (snd (execute_tool (ex_env (Some mem_idem_ops)) (ex_call\<lparr>c_args := []\<rparr>) None None ex_tool [ex_con 0] st'))"
    by (rule provider_calls.call [OF provider_calls.none idem]) (rule prod.collapse [symmetric])
  ultimately show ?thesis
    using completed_call_is_replayed [OF idem run ex_replay_key(2,1), of _ "ex_env (Some mem_idem_ops)"
        "ex_call\<lparr>c_toolName := ''refund''\<rparr>" None None ex_tool "[ex_con 1]"]
    by auto
qed

text \<open>
  The policy asks for a key the provider may not use: it accepts any truthy value, and the
  provider ignores a key that is not a string.
\<close>

lemma policy_accepts_ignored_key:
  assumes "key_required opts" "keyGenerator opts = None" "ctx_data ctx = None"
  shows "fst (idempotency_evaluate opts ctx tn [(''idempotencyKey'', JNum (Fin 5))] p) = Inr (PAllow None) \<and>
    resolveIdempotencyKey [(''idempotencyKey'', JNum (Fin 5))] ctx = None"
  using assms by (simp add: idempotency_evaluate_def js_or_def get_prop_def Let_def resolveIdempotencyKey_def)

end
