(* ===== verification/Structured_Output.thy ===== *)
theory Structured_Output
  imports Agent_Errors Json_Schema Hash_Chain "HOL-Library.Sublist"
begin

text \<open>
  Structured final answers: \<open>packages/core/src/utils/structured-output.ts\<close> and the types of
  \<open>packages/core/src/interfaces/structured-output.interface.ts\<close>.

  \<open>JSON.parse\<close> is the parameter \<open>parse\<close> of the environment (a message or a value), as the
  text of a number depends on the double it stands for; the schema validator is the model of
  \<open>json-schema.validator.ts\<close>, in the environment of the schema at hand.
\<close>

section \<open>Specifications\<close>

datatype validation = SValid jsval | SInvalid "string list option"

text \<open>A custom validator may throw. An options object; an absent option is not set by its layer.\<close>

record StructuredOutputOptions =
  so_name :: "string option"
  so_description :: "string option"
  so_strict :: "bool option"
  so_maxRepairAttempts :: "jsnum option"
  so_validate :: "(jsval \<Rightarrow> (agent_error, validation) result) option"

record StructuredOutputSpec = StructuredOutputOptions +
  so_schema :: "(string \<times> jsval) list"

record output_layer =
  layer_schema :: "jsval option"
  layer_options :: "StructuredOutputOptions option"

record so_env =
  parse :: "string \<Rightarrow> (string, jsval) result"
  schema_check :: "(string \<times> jsval) list \<Rightarrow> schema_env"
  so_printers :: printers

definition DEFAULT_NAME :: string where
  "DEFAULT_NAME = ''response''"

definition DEFAULT_MAX_REPAIR_ATTEMPTS :: nat where
  "DEFAULT_MAX_REPAIR_ATTEMPTS = 2"

definition no_options :: StructuredOutputOptions where
  "no_options = \<lparr>so_name = None, so_description = None, so_strict = None, so_maxRepairAttempts = None,
     so_validate = None\<rparr>"

text \<open>\<open>{ ...a, ...b }\<close>.\<close>

definition later :: "'a option \<Rightarrow> 'a option \<Rightarrow> 'a option" where
  "later a b = (case b of None \<Rightarrow> a | Some _ \<Rightarrow> b)"

definition spread :: "StructuredOutputOptions \<Rightarrow> StructuredOutputOptions \<Rightarrow> StructuredOutputOptions" where
  "spread a b =
     \<lparr>so_name = later (so_name a) (so_name b),
      so_description = later (so_description a) (so_description b),
      so_strict = later (so_strict a) (so_strict b),
      so_maxRepairAttempts = later (so_maxRepairAttempts a) (so_maxRepairAttempts b),
      so_validate = later (so_validate a) (so_validate b)\<rparr>"

fun merge_layers ::
    "output_layer option list \<Rightarrow> jsval option \<Rightarrow> StructuredOutputOptions
       \<Rightarrow> jsval option \<times> StructuredOutputOptions" where
  "merge_layers [] schema options = (schema, options)"
| "merge_layers (None # layers) schema options = merge_layers layers schema options"
| "merge_layers (Some layer # layers) schema options =
     (case (layer_schema layer, layer_options layer) of
        (Some s, opts) \<Rightarrow> merge_layers layers (Some s) (nullish opts no_options)
      | (None, Some opts) \<Rightarrow> merge_layers layers schema (spread options opts)
      | (None, None) \<Rightarrow> merge_layers layers schema options)"

text \<open>
  Schemas that have passed the check once are not checked again; the code remembers them by
  identity, the model by value.
\<close>

definition resolveStructuredOutput ::
    "so_env \<Rightarrow> output_layer option list \<Rightarrow> (string \<times> jsval) list list
       \<Rightarrow> (agent_error, StructuredOutputSpec option) result \<times> (string \<times> jsval) list list" where
  "resolveStructuredOutput E layers checked =
     (case merge_layers layers None no_options of
        (None, _) \<Rightarrow> (Inr None, checked)
      | (Some (JObj s), options) \<Rightarrow>
          (let problems = (if s \<in> set checked then [] else findSchemaProblems (schema_check E s));
               checked' = (if s \<in> set checked \<or> problems \<noteq> [] then checked else s # checked);
               attempts = nullish (so_maxRepairAttempts options) (Fin (of_nat DEFAULT_MAX_REPAIR_ATTEMPTS))
           in if problems \<noteq> [] then (Inl (InvalidOutputSchema problems), checked')
              else if \<not> (is_integer attempts \<and> js_le (Fin 0) attempts)
              then (Inl (Thrown ''structuredOutput.maxRepairAttempts must be a non-negative integer''), checked')
              else (Inr (Some \<lparr>so_name = so_name options, so_description = so_description options,
                       so_strict = so_strict options, so_maxRepairAttempts = Some attempts,
                       so_validate = so_validate options, so_schema = s\<rparr>), checked'))
      | (Some _, _) \<Rightarrow> (Inl (Thrown ''outputSchema must be a JSON Schema object.''), checked))"

definition maxRepairAttemptsOf :: "StructuredOutputSpec \<Rightarrow> jsnum" where
  "maxRepairAttemptsOf spec =
     nullish (so_maxRepairAttempts spec) (Fin (of_nat DEFAULT_MAX_REPAIR_ATTEMPTS))"

record ModelOutputFormat =
  of_name :: string
  of_schema :: "(string \<times> jsval) list"
  of_description :: "string option"
  of_strict :: bool

definition toOutputFormat :: "StructuredOutputSpec \<Rightarrow> ModelOutputFormat" where
  "toOutputFormat spec =
     \<lparr>of_name = nullish (so_name spec) DEFAULT_NAME, of_schema = so_schema spec,
      of_description = so_description spec, of_strict = nullish (so_strict spec) False\<rparr>"

section \<open>Finding the JSON text of an answer\<close>

definition MAX_EXTRACTION_ATTEMPTS :: nat where
  "MAX_EXTRACTION_ATTEMPTS = 20"

definition closer :: "char \<Rightarrow> char option" where
  "closer c = (if c = CHR 0x7B then Some (CHR 0x7D) else if c = CHR ''['' then Some (CHR '']'') else None)"

definition is_closer :: "char \<Rightarrow> bool" where
  "is_closer c \<longleftrightarrow> c = CHR 0x7D \<or> c = CHR '']''"

text \<open>The loop of \<open>balancedAt\<close>: how many characters it consumes, if the brackets close.\<close>

fun balanced_len :: "string \<Rightarrow> char list \<Rightarrow> bool \<Rightarrow> nat option" where
  "balanced_len [] stack inString = None"
| "balanced_len (c # cs) stack True =
     (if c = CHR 0x5C
      then (case cs of [] \<Rightarrow> None | _ # cs' \<Rightarrow> map_option (\<lambda>n. n + 2) (balanced_len cs' stack True))
      else map_option Suc (balanced_len cs stack (c \<noteq> CHR 0x22)))"
| "balanced_len (c # cs) stack False =
     (if c = CHR 0x22 then map_option Suc (balanced_len cs stack True)
      else case closer c of
        Some d \<Rightarrow> map_option Suc (balanced_len cs (d # stack) False)
      | None \<Rightarrow>
          if is_closer c
          then (case stack of
                  [] \<Rightarrow> None
                | d # stack' \<Rightarrow>
                    if d \<noteq> c then None
                    else if stack' = [] then Some 1
                    else map_option Suc (balanced_len cs stack' False))
          else map_option Suc (balanced_len cs stack False))"

definition balancedAt :: "string \<Rightarrow> string option" where
  "balancedAt cs = map_option (\<lambda>n. take n cs) (balanced_len cs [] False)"

text \<open>White space as \<open>trim\<close> and \<open>\s\<close> see it, among the code units of the model.\<close>

definition is_space :: "char \<Rightarrow> bool" where
  "is_space c \<longleftrightarrow> (of_char c :: nat) \<in> {9, 10, 11, 12, 13, 32, 160}"

definition trim :: "string \<Rightarrow> string" where
  "trim s = rev (dropWhile is_space (rev (dropWhile is_space s)))"

text \<open>The text before and after the first code fence.\<close>

fun split_fence :: "string \<Rightarrow> (string \<times> string) option" where
  "split_fence [] = None"
| "split_fence (c # cs) =
     (if take 3 (c # cs) = ''```'' then Some ([], drop 3 (c # cs))
      else map_option (\<lambda>(a, b). (c # a, b)) (split_fence cs))"

text \<open>
  What the regular expression for a fenced block captures: from the first fence that another
  one follows, past an optional language tag and white space, up to the next fence.
\<close>

definition fenced :: "string \<Rightarrow> string option" where
  "fenced s =
     (case split_fence s of
        None \<Rightarrow> None
      | Some (_, rest) \<Rightarrow>
          (let body = (if take 4 rest = ''json'' \<or> take 4 rest = ''JSON'' then drop 4 rest else rest)
           in map_option fst (split_fence (dropWhile is_space body))))"

text \<open>The balanced pieces at the first openings.\<close>

fun extracted :: "nat \<Rightarrow> string \<Rightarrow> string list" where
  "extracted n [] = []"
| "extracted n (c # cs) =
     (if closer c = None then extracted n cs
      else case n of
        0 \<Rightarrow> []
      | Suc m \<Rightarrow>
          (case balancedAt (c # cs) of
             None \<Rightarrow> extracted m cs
           | Some piece \<Rightarrow> piece # extracted m cs))"

definition candidates :: "string \<Rightarrow> string list" where
  "candidates content =
     (let trimmed = trim content
      in [trimmed] @ (case fenced trimmed of None \<Rightarrow> [] | Some body \<Rightarrow> [trim body]) @
         extracted MAX_EXTRACTION_ATTEMPTS trimmed)"

fun first_parsed :: "so_env \<Rightarrow> string list \<Rightarrow> string \<Rightarrow> (string, jsval) result" where
  "first_parsed E [] lastError = Inl lastError"
| "first_parsed E (c # cs) lastError =
     (if c = [] then first_parsed E cs lastError
      else case parse E c of Inr v \<Rightarrow> Inr v | Inl message \<Rightarrow> first_parsed E cs message)"

definition parseJsonAnswer :: "so_env \<Rightarrow> string \<Rightarrow> (string, jsval) result" where
  "parseJsonAnswer E content =
     (case first_parsed E (candidates content) ''the answer is empty'' of
        Inr v \<Rightarrow> Inr v
      | Inl lastError \<Rightarrow> Inl (''$: the answer is not valid JSON ('' @ lastError @ '')''))"

section \<open>Checking an answer\<close>

type_synonym checked_answer = "(string list, jsval) result"

definition custom_issues :: "string list option \<Rightarrow> string list" where
  "custom_issues issues =
     (case issues of Some (i # is) \<Rightarrow> i # is | _ \<Rightarrow> [''$: rejected by the custom validator''])"

definition checkStructuredOutput ::
    "so_env \<Rightarrow> StructuredOutputSpec \<Rightarrow> string \<Rightarrow> (agent_error, checked_answer) result" where
  "checkStructuredOutput E spec content =
     (case parseJsonAnswer E content of
        Inl issue \<Rightarrow> Inr (Inl [issue])
      | Inr value' \<Rightarrow>
          (case so_validate spec of
             Some validate \<Rightarrow>
               (case validate value' of
                  Inl e \<Rightarrow> Inl e
                | Inr (SValid v) \<Rightarrow> Inr (Inr v)
                | Inr (SInvalid issues) \<Rightarrow> Inr (Inl (custom_issues issues)))
           | None \<Rightarrow>
               (case validateJsonSchema (schema_check E (so_schema spec)) value' of
                  [] \<Rightarrow> Inr (Inr value')
                | issues \<Rightarrow> Inr (Inl issues))))"

definition newline :: string where
  "newline = [CHR 0x0A]"

definition structuredOutputInstruction :: "so_env \<Rightarrow> StructuredOutputSpec \<Rightarrow> string" where
  "structuredOutputInstruction E spec =
     join newline
       [''When you give your final answer, reply with only a JSON value that conforms to the JSON Schema below, with no other text.'',
        txt_of (num_text (so_printers E)) (JObj (so_schema spec))]"

definition MAX_REPAIR_ISSUES :: nat where
  "MAX_REPAIR_ISSUES = 10"

text \<open>The code writes an ellipsis character before the count; the model writes three dots.\<close>

definition repairPrompt :: "string list \<Rightarrow> string" where
  "repairPrompt issues =
     (let listed = map (\<lambda>issue. ''- '' @ issue) (take MAX_REPAIR_ISSUES issues) @
                   (if length issues > MAX_REPAIR_ISSUES
                    then [''- ...and '' @ string_of_nat (length issues - MAX_REPAIR_ISSUES) @ '' more''] else [])
      in join newline
           ([''Your previous answer did not match the required JSON Schema:''] @ listed @
            [''Reply again with only a JSON value that satisfies the schema, with no other text.'']))"

section \<open>Storing and restoring\<close>

text \<open>What survives storage: everything but \<open>validate\<close>.\<close>

definition toStoredStructuredOutput :: "StructuredOutputSpec option \<Rightarrow> StructuredOutputSpec option" where
  "toStoredStructuredOutput spec = map_option (\<lambda>s. s\<lparr>so_validate := None\<rparr>) spec"

fun cval_of_json :: "jsval \<Rightarrow> cval" where
  "cval_of_json JUndef = CUndef"
| "cval_of_json JNull = CNull"
| "cval_of_json (JBool b) = CBool b"
| "cval_of_json (JNum n) = CNum n"
| "cval_of_json (JStr s) = CStr s"
| "cval_of_json (JArr vs) = CArr (map cval_of_json vs)"
| "cval_of_json (JObj ps) = CObj (map (\<lambda>(k, v). (k, cval_of_json v)) ps)"

definition same_schema :: "so_env \<Rightarrow> (string \<times> jsval) list \<Rightarrow> (string \<times> jsval) list \<Rightarrow> bool" where
  "same_schema E a b \<longleftrightarrow>
     canonicalize (so_printers E) (cval_of_json (JObj a)) = canonicalize (so_printers E) (cval_of_json (JObj b))"

definition restoreStructuredOutput ::
    "so_env \<Rightarrow> StructuredOutputSpec option \<Rightarrow> StructuredOutputSpec option \<Rightarrow> StructuredOutputSpec option" where
  "restoreStructuredOutput E stored agentSpec =
     (case stored of
        None \<Rightarrow> agentSpec
      | Some st \<Rightarrow>
          (case agentSpec of
             Some a \<Rightarrow> if same_schema E (so_schema a) (so_schema st) then Some a else Some st
           | None \<Rightarrow> Some st))"

section \<open>A JSON text is found among prose\<close>

lemma hex_digit_plain:
  assumes "d < 16" shows "hex_digit d \<noteq> CHR 0x22" "hex_digit d \<noteq> CHR 0x5C"
proof -
  have "(of_char (hex_digit d) :: nat) = (if d < 10 then 48 + d else 87 + d)"
    using assms by (simp add: hex_digit_def)
  then have "(of_char (hex_digit d) :: nat) \<noteq> of_char (CHR 0x22)"
    "(of_char (hex_digit d) :: nat) \<noteq> of_char (CHR 0x5C)"
    using assms by (auto split: if_splits)
  then show "hex_digit d \<noteq> CHR 0x22" "hex_digit d \<noteq> CHR 0x5C" by auto
qed

text \<open>Inside a string literal the scan passes over one escaped character at a time.\<close>

lemma balanced_escape:
  "balanced_len (json_escape c @ r) stack True =
     map_option (\<lambda>n. length (json_escape c) + n) (balanced_len r stack True)"
proof -
  define n where "n = (of_char c :: nat)"
  have not_special: "c \<noteq> CHR 0x22" "c \<noteq> CHR 0x5C" if "n \<noteq> 0x22" "n \<noteq> 0x5C"
    using that by (auto simp: n_def)
  show ?thesis
    by (cases "balanced_len r stack True")
       (auto simp: json_escape_def Let_def n_def [symmetric] not_special hex_digit_plain)
qed

lemma balanced_body:
  "balanced_len (concat (map json_escape s) @ CHR 0x22 # r) stack True =
     map_option (\<lambda>n. length (concat (map json_escape s)) + 1 + n) (balanced_len r stack False)"
proof (induction s)
  case (Cons c s)
  then show ?case
    by (simp add: balanced_escape option.map_comp comp_def add.assoc)
qed (simp add: option.map_comp comp_def)

text \<open>A text the scan passes over when brackets are open: it consumes it and goes on with the rest.\<close>

definition passed_over :: "string \<Rightarrow> bool" where
  "passed_over t \<longleftrightarrow>
     (\<forall>r stack. stack \<noteq> [] \<longrightarrow>
        balanced_len (t @ r) stack False = map_option (\<lambda>n. length t + n) (balanced_len r stack False))"

definition plain_char :: "char \<Rightarrow> bool" where
  "plain_char c \<longleftrightarrow> c \<noteq> CHR 0x22 \<and> closer c = None \<and> \<not> is_closer c"

lemma passed_plain: "list_all plain_char t \<Longrightarrow> passed_over t"
  by (induction t) (simp_all add: passed_over_def plain_char_def option.map_comp comp_def option.map_ident)

lemma passed_append: "passed_over s \<Longrightarrow> passed_over t \<Longrightarrow> passed_over (s @ t)"
  by (simp add: passed_over_def option.map_comp comp_def add.assoc)

lemma passed_quote: "passed_over (json_quote s)"
  using balanced_body
  by (simp add: passed_over_def json_quote_def option.map_comp comp_def)

lemma passed_brackets:
  assumes "closer b = Some d" "b \<noteq> CHR 0x22" "is_closer d" "d \<noteq> CHR 0x22" "closer d = None" "passed_over t"
  shows "passed_over (b # t @ [d])"
    and "balanced_len (b # t @ d # r) [] False = Some (length t + 2)"
  using assms by (simp_all add: passed_over_def option.map_comp comp_def)

lemma passed_join:
  assumes "\<forall>t\<in>set ts. passed_over t"
  shows "passed_over (join '','' ts)"
  using assms
proof (induction "'','' :: string" ts rule: join.induct)
  case (3 x y ys)
  have "passed_over '',''" by (rule passed_plain) (simp add: plain_char_def closer_def is_closer_def)
  with 3 show ?case
    using passed_append [of x "'','' @ join '','' (y # ys)"] passed_append [of "'',''" "join '','' (y # ys)"]
    by auto
qed (simp_all add: passed_over_def option.map_ident)

lemma number_char_plain: "set t \<subseteq> number_chars \<Longrightarrow> list_all plain_char t"
  by (auto simp: list_all_iff number_chars_def plain_char_def closer_def is_closer_def)

lemma passed_member: "passed_over t \<Longrightarrow> passed_over (json_quote k @ '':'' @ t)"
proof -
  assume "passed_over t"
  moreover have "passed_over '':''"
    by (rule passed_plain) (simp add: plain_char_def closer_def is_closer_def)
  ultimately show ?thesis by (intro passed_append passed_quote)
qed

lemma passed_value:
  assumes "num_printer ns"
  shows "json_clean v \<Longrightarrow> passed_over (txt_of ns v)"
proof (induction v)
  case (JNum n)
  then obtain q where "n = Fin q" by (cases n) auto
  with assms show ?case
    by (auto simp: txt_of_simps num_printer_def intro!: passed_plain number_char_plain)
next
  case (JArr vs)
  then have "passed_over (join '','' (map (txt_of ns) vs))"
    by (intro passed_join) (auto simp: list_all_iff)
  then show ?case
    using passed_brackets(1) [of "CHR ''[''" "CHR '']''"]
    by (simp add: txt_of_simps closer_def is_closer_def)
next
  case (JObj ps)
  have "passed_over (json_quote k @ '':'' @ txt_of ns w)" if "(k, w) \<in> set ps" for k w
    using JObj that by (intro passed_member) (fastforce simp: list_all_iff)
  then have "passed_over (join '','' (map (\<lambda>(k, v). json_quote k @ '':'' @ txt_of ns v) ps))"
    by (intro passed_join) auto
  then show ?case
    using passed_brackets(1) [of "CHR 0x7B" "CHR 0x7D"] JObj.prems
    by (simp add: txt_of_obj closer_def is_closer_def)
qed (auto simp: txt_of_simps txt_of_def passed_quote plain_char_def closer_def is_closer_def intro!: passed_plain)

definition is_container :: "jsval \<Rightarrow> bool" where
  "is_container v = (case v of JArr _ \<Rightarrow> True | JObj _ \<Rightarrow> True | _ \<Rightarrow> False)"

text \<open>The text of an object or array is exactly what \<open>balancedAt\<close> cuts out where it starts.\<close>

lemma balancedAt_text:
  assumes "num_printer ns" "json_clean v" "is_container v"
  shows "balancedAt (txt_of ns v @ r) = Some (txt_of ns v)"
proof (cases v)
  case (JArr vs)
  have "passed_over (join '','' (map (txt_of ns) vs))"
    using assms JArr by (intro passed_join) (auto simp: list_all_iff intro: passed_value)
  from passed_brackets(2) [of "CHR ''[''" "CHR '']''", OF _ _ _ _ _ this]
  show ?thesis by (simp add: JArr txt_of_simps balancedAt_def closer_def is_closer_def)
next
  case (JObj ps)
  have "passed_over (json_quote k @ '':'' @ txt_of ns w)" if "(k, w) \<in> set ps" for k w
    using assms JObj that by (intro passed_member passed_value) (auto simp: list_all_iff)
  then have "passed_over (join '','' (map (\<lambda>(k, v). json_quote k @ '':'' @ txt_of ns v) ps))"
    by (intro passed_join) auto
  from passed_brackets(2) [of "CHR 0x7B" "CHR 0x7D", OF _ _ _ _ _ this] assms JObj
  show ?thesis by (simp add: txt_of_obj balancedAt_def closer_def is_closer_def)
qed (use assms in \<open>auto simp: is_container_def\<close>)

lemma extracted_plain:
  "list_all (\<lambda>c. closer c = None) l \<Longrightarrow> extracted n (l @ s) = extracted n s"
  by (induction l) auto

lemma split_fence_none: "CHR ''`'' \<notin> set s \<Longrightarrow> split_fence s = None"
  by (induction s) auto

lemma first_parsed_skip:
  assumes "\<forall>c\<in>set cs. c \<noteq> [] \<longrightarrow> (\<exists>m. parse E c = Inl m)" "t \<noteq> []" "parse E t = Inr v"
  shows "first_parsed E (cs @ t # rest) e = Inr v"
  using assms by (induction cs arbitrary: e) auto

text \<open>
  An object or array that a model puts into prose is found. When the text around the JSON
  has no bracket before it and no code fence, the whole answer is not JSON by itself, and
  \<open>JSON.parse\<close> reads back what \<open>JSON.stringify\<close> prints for this value, the answer parses to
  the value, whatever strings with brackets, quotes and escapes the value contains and
  whatever follows it.
\<close>

theorem answer_found_in_prose:
  assumes "num_printer ns" and "json_clean v" and "is_container v"
    and "parse E (txt_of ns v) = Inr v"
    and "list_all (\<lambda>c. closer c = None) before" and "CHR ''`'' \<notin> set (before @ txt_of ns v @ after)"
    and "trim content = before @ txt_of ns v @ after"
    and "before = [] \<and> after = [] \<or> (\<exists>m. parse E (trim content) = Inl m)"
  shows "parseJsonAnswer E content = Inr v"
proof -
  obtain c t d where text_of: "txt_of ns v = c # t" and "closer c = Some d"
    using assms(2,3) by (cases v) (auto simp: is_container_def txt_of_simps txt_of_obj closer_def)
  then have "extracted MAX_EXTRACTION_ATTEMPTS (trim content) =
      txt_of ns v # extracted 19 (t @ after)"
    using balancedAt_text [OF assms(1-3), of after] assms(5,7)
    by (simp add: extracted_plain MAX_EXTRACTION_ATTEMPTS_def numeral_eq_Suc)
  moreover have "fenced (trim content) = None"
    using assms(6,7) by (simp add: fenced_def split_fence_none)
  ultimately have cands: "candidates content = [trim content] @ txt_of ns v # extracted 19 (t @ after)"
    by (simp add: candidates_def Let_def)
  have "first_parsed E (candidates content) e = Inr v" for e
  proof (cases "before = [] \<and> after = []")
    case True
    with assms(4,7) text_of cands show ?thesis by simp
  next
    case False
    with assms(8) have "\<exists>m. parse E (trim content) = Inl m" by blast
    then show ?thesis unfolding cands
      by (intro first_parsed_skip) (use assms(4) text_of in auto)
  qed
  then show ?thesis by (simp add: parseJsonAnswer_def)
qed

text \<open>A parser that knows the empty list, and an environment for examples.\<close>

definition sample_so :: so_env where
  "sample_so = \<lparr>parse = (\<lambda>s. if s = ''[]'' then Inr (JArr []) else Inl ''Unexpected token''),
     schema_check = sample_env, so_printers = \<lparr>num_text = plain_number, iso_text = (\<lambda>_. [])\<rparr>\<rparr>"

lemma of_char_space [simp]:
  "is_space (CHR ''H'') = False" "is_space (CHR ''.'') = False"
  by (simp_all add: is_space_def)

theorem answer_found_in_prose_witness:
  "parseJsonAnswer sample_so ''Here: [].'' = Inr (JArr [])"
proof (rule answer_found_in_prose [OF plain_number_printer, of "JArr []" sample_so "''Here: ''" "''.''"])
  show "trim ''Here: [].'' = ''Here: '' @ txt_of plain_number (JArr []) @ ''.''"
    by (simp add: trim_def txt_of_simps)
  then show "''Here: '' = [] \<and> ''.'' = [] \<or> (\<exists>m. parse sample_so (trim ''Here: [].'') = Inl m)"
    by (simp add: sample_so_def txt_of_simps)
qed (simp_all add: is_container_def sample_so_def txt_of_simps closer_def)

section \<open>Accepted answers\<close>

lemma first_parsed_source:
  "first_parsed E cs e = Inr v \<Longrightarrow> \<exists>c\<in>set cs. parse E c = Inr v"
  by (induction E cs e rule: first_parsed.induct) (auto split: if_splits sum.splits)

lemma balancedAt_prefix: "balancedAt s = Some t \<Longrightarrow> prefix t s"
  by (auto simp: balancedAt_def take_is_prefix)

lemma extracted_sublist: "t \<in> set (extracted n s) \<Longrightarrow> sublist t s"
proof (induction n s rule: extracted.induct)
  case (2 n c cs)
  consider "t \<in> set (extracted n cs)" "closer c = None"
    | m where "closer c \<noteq> None" "n = Suc m" "t \<in> set (extracted m cs)"
    | "closer c \<noteq> None" "balancedAt (c # cs) = Some t"
    using "2.prems" by (auto split: if_splits nat.splits option.splits)
  then show ?case
  proof cases
    case 3
    then show ?thesis using balancedAt_prefix prefix_imp_sublist by blast
  qed (use "2.IH" in \<open>auto simp: sublist_Cons_right\<close>)
qed simp

lemma trim_sublist: "sublist (trim s) s"
proof -
  let ?u = "dropWhile is_space s"
  have "suffix (dropWhile is_space (rev ?u)) (rev ?u)" by (rule suffix_dropWhile)
  then have "prefix (trim s) (rev (rev ?u))"
    unfolding trim_def suffix_to_prefix by simp
  then have "sublist (trim s) ?u" by (simp add: prefix_imp_sublist)
  moreover have "sublist ?u s" by (simp add: suffix_dropWhile suffix_imp_sublist)
  ultimately show ?thesis by (rule sublist_order.order_trans)
qed

lemma split_fence_sublist: "split_fence s = Some (a, b) \<Longrightarrow> prefix a s \<and> suffix b s"
proof (induction s arbitrary: a)
  case (Cons c s)
  then show ?case
    by (auto split: if_splits simp: suffix_Cons intro: suffix_drop suffix_ConsI)
qed simp

lemma fenced_sublist: "fenced s = Some t \<Longrightarrow> sublist t s"
proof -
  assume "fenced s = Some t"
  then obtain a rest where rest: "split_fence s = Some (a, rest)"
    and "\<exists>body b. suffix body rest \<and> split_fence (dropWhile is_space body) = Some (t, b)"
    by (cases "split_fence s") (force simp: fenced_def Let_def suffix_drop split: if_splits)+
  then obtain body b where "suffix body rest" "split_fence (dropWhile is_space body) = Some (t, b)"
    by blast
  then have "prefix t (dropWhile is_space body)" "suffix (dropWhile is_space body) s"
    using rest split_fence_sublist suffix_dropWhile suffix_order.order_trans by blast+
  then show ?thesis
    by (meson sublist_order.order_trans prefix_imp_sublist suffix_imp_sublist)
qed

lemma candidates_sublist:
  assumes "t \<in> set (candidates content)" shows "sublist t content"
proof -
  consider "t = trim content" | body where "fenced (trim content) = Some body" "t = trim body"
    | "t \<in> set (extracted MAX_EXTRACTION_ATTEMPTS (trim content))"
    using assms
    by (cases "fenced (trim content)") (auto simp: candidates_def Let_def)
  then have "sublist t (trim content)"
    by cases (auto intro: extracted_sublist sublist_order.order_trans [OF trim_sublist fenced_sublist])
  then show ?thesis using trim_sublist by (rule sublist_order.order_trans)
qed

text \<open>
  An accepted answer was really given and really conforms. A value returned for the
  answer is what \<open>JSON.parse\<close> reads from a contiguous piece of the model's text, and without
  a custom validator it satisfies the schema.
\<close>

theorem accepted_answer_conforms:
  assumes "checkStructuredOutput E spec content = Inr (Inr v)"
    and "so_validate spec = None"
    and "0 < maxIssues (schema_check E (so_schema spec))"
    and "root_schema (schema_check E (so_schema spec)) = so_schema spec"
  shows "(\<exists>piece. sublist piece content \<and> parse E piece = Inr v) \<and>
    conforms (schema_check E (so_schema spec)) v (JObj (so_schema spec)) 0 0"
proof -
  from assms(1,2) have p: "parseJsonAnswer E content = Inr v"
    and valid: "validateJsonSchema (schema_check E (so_schema spec)) v = []"
    by (auto simp: checkStructuredOutput_def split: sum.splits list.splits)
  from p have "first_parsed E (candidates content) ''the answer is empty'' = Inr v"
    by (auto simp: parseJsonAnswer_def split: sum.splits)
  with first_parsed_source candidates_sublist
  have "\<exists>piece. sublist piece content \<and> parse E piece = Inr v" by blast
  with valid validate_iff_conforms [OF assms(3)] assms(4) show ?thesis by simp
qed

definition list_spec :: StructuredOutputSpec where
  "list_spec = \<lparr>so_name = None, so_description = None, so_strict = None, so_maxRepairAttempts = None,
     so_validate = None, so_schema = [(''type'', JStr ''array'')]\<rparr>"

theorem accepted_answer_conforms_witness:
  "\<exists>piece. sublist piece ''Here: [].'' \<and> parse sample_so piece = Inr (JArr [])"
proof -
  have "parseJsonAnswer sample_so ''Here: [].'' = Inr (JArr [])"
    by (simp add: parseJsonAnswer_def candidates_def trim_def is_space_def fenced_def Let_def
          balancedAt_def closer_def is_closer_def sample_so_def MAX_EXTRACTION_ATTEMPTS_def numeral_eq_Suc)
  moreover have "validateJsonSchema (schema_check sample_so (so_schema list_spec)) (JArr []) = []"
    by (simp add: list_spec_def sample_so_def validateJsonSchema_def walk.simps schema_eval array_tasks_def
          item_schemas_def)
  moreover have "so_validate list_spec = None" by (simp add: list_spec_def)
  ultimately have "checkStructuredOutput sample_so list_spec ''Here: [].'' = Inr (Inr (JArr []))"
    by (simp add: checkStructuredOutput_def)
  from accepted_answer_conforms [OF this] show ?thesis
    by (simp add: list_spec_def sample_so_def sample_env_def)
qed

section \<open>Stored specifications\<close>

text \<open>
  A turn that is resumed with the specification its agent still has is checked by the
  agent's own validator; with another schema, by the built-in one.
\<close>

lemma restored_spec:
  "restoreStructuredOutput E (toStoredStructuredOutput (Some spec)) (Some spec) = Some spec"
  "restoreStructuredOutput E (toStoredStructuredOutput (Some spec)) None = Some (spec\<lparr>so_validate := None\<rparr>)"
  by (simp_all add: restoreStructuredOutput_def toStoredStructuredOutput_def same_schema_def)

lemma resolved_spec_checked:
  assumes "resolveStructuredOutput E layers [] = (Inr (Some spec), checked)"
  shows "findSchemaProblems (schema_check E (so_schema spec)) = [] \<and> is_integer (maxRepairAttemptsOf spec) \<and>
    js_le (Fin 0) (maxRepairAttemptsOf spec)"
  using assms
  by (auto simp: resolveStructuredOutput_def maxRepairAttemptsOf_def Let_def
        split: option.splits prod.splits jsval.splits if_splits)

end
