(* ===== verification/Executor.thy ===== *)
theory Executor
  imports Tool_Discovery Transcript Structured_Output
begin

text \<open>
  The agent loop, \<open>packages/core/src/services/agent-executor.service.ts\<close>.

  The world \<open>'x\<close> is everything a turn acts on: the model adapter, the tools, the stores
  behind the callbacks, the clock and the abort signal, which the code reads at the points
  where the definitions read them. The environment \<open>xenv\<close> gathers the request context, the
  collaborators and the resolved limits of one turn. Observers are not part of it: they are
  notified and cannot influence the turn. Retries, the circuit breaker and the cascade are
  behind the adapter here.
\<close>

section \<open>Requests and responses\<close>

record ModelToolSchema =
  ts_name :: string
  ts_description :: string
  ts_parameters :: "ToolParamSchema list"

record ModelRequest =
  mr_model :: string
  mr_messages :: "ModelMessage list"
  mr_tools :: "ModelToolSchema list"
  mr_outputFormat :: "ModelOutputFormat option"
  mr_sessionId :: string
  mr_traceId :: string
  mr_executionId :: string
  mr_iteration :: nat

text \<open>\<open>refusal\<close> is a value, as the code tests its type.\<close>

record ModelResponse =
  rs_content :: string
  rs_toolCalls :: "ModelToolCall list option"
  rs_usage :: "ModelUsage option"
  rs_refusal :: jsval

datatype ModelStreamChunk = TokenChunk string | ResponseChunk ModelResponse

section \<open>Limits\<close>

record ExecutionLimits =
  maxIterations :: "int option"
  maxToolCalls :: "int option"
  timeoutMs :: "int option"
  maxTotalTokens :: "int option"

record ResolvedLimits =
  l_maxIterations :: int
  l_maxToolCalls :: int
  l_timeoutMs :: "int option"
  l_maxTotalTokens :: "int option"

definition DEFAULT_MAX_ITERATIONS :: int where
  "DEFAULT_MAX_ITERATIONS = 10"

definition DEFAULT_MAX_TOOL_CALLS :: int where
  "DEFAULT_MAX_TOOL_CALLS = 32"

definition resolveLimits :: "ExecutionLimits option \<Rightarrow> ResolvedLimits" where
  "resolveLimits limits =
     \<lparr>l_maxIterations = nullish (Option.bind limits maxIterations) DEFAULT_MAX_ITERATIONS,
      l_maxToolCalls = nullish (Option.bind limits maxToolCalls) DEFAULT_MAX_TOOL_CALLS,
      l_timeoutMs = Option.bind limits timeoutMs,
      l_maxTotalTokens = Option.bind limits maxTotalTokens\<rparr>"

datatype ToolErrorHandling = ReportErrors | ThrowErrors

section \<open>State\<close>

datatype call_outcome =
    Completed ToolExecutionResult
  | Failed (failure_text: string) (failure_tool: string)

record ToolCallRecord =
  tc_toolName :: string
  tc_args :: props
  tc_result :: call_outcome

record ExecutionState =
  executionId :: string
  messages :: "ModelMessage list"
  toolCallRecords :: "ToolCallRecord list"
  usage :: ModelUsage
  toolCallCount :: int
  iteration :: nat
  suspended :: bool
  suspendedApprovalId :: "string option"
  repair :: "ModelMessage list"
  repairAttempts :: nat
  structured :: "jsval option"

record InFlightCheckpoint =
  cv_version :: nat
  cv_executionId :: string
  cv_sessionId :: string
  cv_iteration :: nat
  cv_messages :: "ModelMessage list"
  cv_usage :: ModelUsage
  cv_toolCallCount :: int
  cv_updatedAt :: string
  cv_structuredOutput :: "StructuredOutputSpec option"
  cv_repairAttempts :: "nat option"
  cv_repair :: "ModelMessage list option"

definition INFLIGHT_CHECKPOINT_VERSION :: nat where
  "INFLIGHT_CHECKPOINT_VERSION = 1"

datatype AgentStreamEvent =
    Ev_token string
  | Ev_tool_start string string props
  | Ev_action_call string string props
  | Ev_tool_result string string ToolExecutionResult
  | Ev_action_observation string string ToolExecutionResult
  | Ev_tool_error string string string
  | Ev_approval_required string string string string
  | Ev_output_rejected nat "string list"
  | Ev_final_answer string string ModelUsage "jsval option"
  | Ev_complete string string

record AgentResult =
  ar_sessionId :: string
  ar_output :: string
  ar_toolCalls :: "ToolCallRecord list"
  ar_usage :: ModelUsage
  ar_structured :: "jsval option"

text \<open>
  What a reducer is told besides the transcript (the agent's name is the same for a whole turn, and the
  signal is a part of the world). A reducer may mutate the array it is given: it answers with its
  projection, whether that is the array itself, and what it has left in the array.
\<close>

record AgentMessageReductionContext =
  rc_executionId :: string
  rc_sessionId :: string
  rc_iteration :: nat
  rc_pendingApprovalToolCallId :: "string option"

type_synonym 'x reducer =
  "ModelMessage list \<Rightarrow> AgentMessageReductionContext \<Rightarrow> 'x
     \<Rightarrow> (agent_error, ModelMessage list \<times> bool \<times> ModelMessage list) result \<times> 'x"

record 'x xenv =
  x_sessionId :: string
  x_model :: string
  x_tools :: "'x ResolvedTool list"
  x_traceId :: "string option"
  x_pendingApprovalToolCallId :: "string option"
  x_structuredOutput :: "StructuredOutputSpec option"
  x_limits :: ResolvedLimits
  x_toolErrorHandling :: ToolErrorHandling
  x_adapterAvailable :: bool
  x_generate :: "ModelRequest \<Rightarrow> 'x \<Rightarrow> (agent_error, ModelResponse) result \<times> 'x"
  x_stream :: "(ModelRequest \<Rightarrow> 'x \<Rightarrow> (ModelStreamChunk list \<times> agent_error option) \<times> 'x) option"
  x_supportsStructuredOutput :: bool
  x_messageReducer :: "'x reducer option"
  x_onTranscript :: "(ModelMessage list \<Rightarrow> 'x \<Rightarrow> (agent_error, unit) result \<times> 'x) option"
  x_onSuspend :: "(string \<Rightarrow> ModelMessage list \<Rightarrow> StructuredOutputSpec option \<Rightarrow> 'x
     \<Rightarrow> (agent_error, unit) result \<times> 'x) option"
  x_onCheckpoint :: "(InFlightCheckpoint \<Rightarrow> 'x \<Rightarrow> (agent_error, unit) result \<times> 'x) option"
  x_aborted :: "'x \<Rightarrow> bool"
  x_timedOut :: "'x \<Rightarrow> bool"
  x_now :: "'x \<Rightarrow> string"
  x_so :: so_env
  x_number :: "rat \<Rightarrow> string"

section \<open>Creating the state of a turn\<close>

definition no_usage :: ModelUsage where
  "no_usage = \<lparr>inputTokens = None, outputTokens = None, totalTokens = None\<rparr>"

definition new_state :: "string \<Rightarrow> ModelMessage list \<Rightarrow> ToolCallRecord list \<Rightarrow> ExecutionState" where
  "new_state uuid msgs records =
     \<lparr>executionId = uuid, messages = msgs, toolCallRecords = records, usage = no_usage, toolCallCount = 0,
      iteration = 0, suspended = False, suspendedApprovalId = None, repair = [], repairAttempts = 0,
      structured = None\<rparr>"

definition system_prefix :: "string option \<Rightarrow> ModelMessage list" where
  "system_prefix instructions =
     (case instructions of Some (c # cs) \<Rightarrow> [SystemMsg (c # cs)] | _ \<Rightarrow> [])"

definition createState ::
    "string \<Rightarrow> string option \<Rightarrow> ModelMessage list option \<Rightarrow> string \<Rightarrow> ExecutionState" where
  "createState uuid instructions history message =
     new_state uuid (system_prefix instructions @ nullish history [] @ [UserMsg message]) []"

section \<open>What the model is told about a call\<close>

fun source_name :: "ProvenanceSource \<Rightarrow> string" where
  "source_name FromModel = ''model''"
| "source_name FromTool = ''tool''"
| "source_name FromExternal = ''external''"
| "source_name FromUser = ''user''"

definition opt_member :: "string \<Rightarrow> jsval option \<Rightarrow> (string \<times> jsval) list" where
  "opt_member k v = (case v of None \<Rightarrow> [] | Some w \<Rightarrow> [(k, w)])"

definition provenance_json :: "Provenance option \<Rightarrow> (string \<times> jsval) list" where
  "provenance_json p =
     opt_member ''provenance'' (map_option (\<lambda>p. JObj ((''source'', JStr (source_name (source p))) #
       opt_member ''origin'' (map_option JStr (origin p)))) p)"

fun result_json :: "ToolExecutionResult \<Rightarrow> jsval" where
  "result_json (Success v prov) =
     JObj ([(''success'', JBool True), (''data'', v)] @ provenance_json prov)"
| "result_json (Denied why prov) =
     JObj ([(''success'', JBool False), (''status'', JStr ''denied''), (''reason'', JStr why)] @
           provenance_json prov)"
| "result_json (PendingResult why approvalId req sg) =
     JObj ([(''success'', JBool False), (''status'', JStr ''pending_approval''), (''reason'', JStr why),
            (''approvalId'', JStr approvalId)] @
           opt_member ''requiredApprovals'' (map_option (\<lambda>n. JNum (Fin (of_int n))) req) @
           opt_member ''signatures'' (map_option (\<lambda>n. JNum (Fin (of_nat n))) sg))"

fun result_provenance :: "ToolExecutionResult \<Rightarrow> Provenance option" where
  "result_provenance (Success _ prov) = prov"
| "result_provenance (Denied _ prov) = prov"
| "result_provenance (PendingResult _ _ _ _) = None"

definition failure_json :: "string \<Rightarrow> string \<Rightarrow> jsval" where
  "failure_json message tool_name =
     JObj ([(''success'', JBool False), (''status'', JStr ''error''), (''error'', JStr message)] @
           provenance_json (Some \<lparr>source = FromTool, origin = Some tool_name\<rparr>))"

definition error_json :: "string \<Rightarrow> jsval" where
  "error_json message = JObj [(''error'', JStr message)]"

definition pushToolMessage ::
    "'x xenv \<Rightarrow> ModelToolCall \<Rightarrow> jsval \<Rightarrow> Provenance option \<Rightarrow> ExecutionState \<Rightarrow> ExecutionState" where
  "pushToolMessage E call payload prov st =
     st\<lparr>messages := messages st @ [ToolMsg (call_id call) (call_name call) (txt_of (x_number E) payload) prov]\<rparr>"

section \<open>Continuing a turn\<close>

text \<open>The first tool message of the call is rewritten to the outcome.\<close>

definition is_withheld :: "string \<Rightarrow> ModelMessage \<Rightarrow> bool" where
  "is_withheld i m = (case m of ToolMsg j _ _ _ \<Rightarrow> j = i | _ \<Rightarrow> False)"

fun splice_outcome ::
    "(rat \<Rightarrow> string) \<Rightarrow> string \<Rightarrow> ToolExecutionResult \<Rightarrow> ModelMessage list \<Rightarrow> ModelMessage list option" where
  "splice_outcome ns i settled [] = None"
| "splice_outcome ns i settled (m # ms) =
     (if is_withheld i m
      then Some ((case m of
                    ToolMsg j n _ _ \<Rightarrow>
                      ToolMsg j n (txt_of ns (result_json settled)) (result_provenance settled)
                  | _ \<Rightarrow> m) # ms)
      else map_option (\<lambda>rest. m # rest) (splice_outcome ns i settled ms))"

definition createResumedState ::
    "(rat \<Rightarrow> string) \<Rightarrow> string \<Rightarrow> string option \<Rightarrow> ModelMessage list \<Rightarrow> string \<Rightarrow> string \<Rightarrow> props
       \<Rightarrow> ToolExecutionResult \<Rightarrow> (agent_error, ExecutionState) result" where
  "createResumedState ns uuid instructions history tool_call_id tool_name targs settled =
     (case splice_outcome ns tool_call_id settled (system_prefix instructions @ history) of
        None \<Rightarrow> Inl (ApprovalTranscriptMissing tool_call_id)
      | Some msgs \<Rightarrow>
          Inr (new_state uuid msgs
            [\<lparr>tc_toolName = tool_name, tc_args = targs, tc_result = Completed settled\<rparr>]))"

definition createCheckpointState :: "InFlightCheckpoint \<Rightarrow> (agent_error, ExecutionState) result" where
  "createCheckpointState cp =
     (if cv_version cp \<noteq> INFLIGHT_CHECKPOINT_VERSION
      then Inl (InFlightCheckpointVersion (cv_executionId cp) (cv_version cp) INFLIGHT_CHECKPOINT_VERSION)
      else Inr \<lparr>executionId = cv_executionId cp, messages = cv_messages cp, toolCallRecords = [],
             usage = cv_usage cp, toolCallCount = cv_toolCallCount cp, iteration = cv_iteration cp,
             suspended = False, suspendedApprovalId = None, repair = nullish (cv_repair cp) [],
             repairAttempts = nullish (cv_repairAttempts cp) 0, structured = None\<rparr>)"

definition checkpoint_of :: "'x xenv \<Rightarrow> ExecutionState \<Rightarrow> string \<Rightarrow> InFlightCheckpoint" where
  "checkpoint_of E st time =
     \<lparr>cv_version = INFLIGHT_CHECKPOINT_VERSION, cv_executionId = executionId st,
      cv_sessionId = x_sessionId E, cv_iteration = iteration st, cv_messages = messages st,
      cv_usage = usage st, cv_toolCallCount = toolCallCount st, cv_updatedAt = time,
      cv_structuredOutput = toStoredStructuredOutput (x_structuredOutput E),
      cv_repairAttempts = (if repairAttempts st > 0 then Some (repairAttempts st) else None),
      cv_repair = (if repairAttempts st > 0 then Some (repair st) else None)\<rparr>"

section \<open>Callbacks\<close>

definition publishInFlightCheckpoint ::
    "'x xenv \<Rightarrow> ExecutionState \<Rightarrow> 'x \<Rightarrow> (agent_error, unit) result \<times> 'x" where
  "publishInFlightCheckpoint E st x =
     (case x_onCheckpoint E of
        None \<Rightarrow> (Inr (), x)
      | Some onCheckpoint \<Rightarrow> onCheckpoint (checkpoint_of E st (x_now E x)) x)"

definition publishCheckpoint ::
    "'x xenv \<Rightarrow> ExecutionState \<Rightarrow> 'x \<Rightarrow> (agent_error, unit) result \<times> 'x" where
  "publishCheckpoint E st x =
     (case (x_onSuspend E, suspended st, suspendedApprovalId st) of
        (Some onSuspend, True, Some (c # cs)) \<Rightarrow>
          onSuspend (c # cs) (messages st) (toStoredStructuredOutput (x_structuredOutput E)) x
      | _ \<Rightarrow> (Inr (), x))"

definition publishTranscript ::
    "'x xenv \<Rightarrow> ExecutionState \<Rightarrow> string \<Rightarrow> 'x \<Rightarrow> (agent_error, unit) result \<times> 'x" where
  "publishTranscript E st output x =
     (case x_onTranscript E of
        None \<Rightarrow> (Inr (), x)
      | Some onTranscript \<Rightarrow>
          onTranscript (messages st @ (if output = [] then [] else [AssistantMsg output None])) x)"

section \<open>Budgets and cancellation\<close>

definition assertNotAborted :: "'x xenv \<Rightarrow> 'x \<Rightarrow> (agent_error, unit) result \<times> 'x" where
  "assertNotAborted E x =
     (if \<not> x_aborted E x then (Inr (), x)
      else if x_timedOut E x
      then (Inl (ExecutionLimitExceeded Timeout (nullish (l_timeoutMs (x_limits E)) 0)), x)
      else (Inl (ExecutionCancelled None), x))"

definition assertWithinBudget :: "'x xenv \<Rightarrow> ExecutionState \<Rightarrow> 'x \<Rightarrow> (agent_error, unit) result \<times> 'x" where
  "assertWithinBudget E st x =
     and_then (assertNotAborted E x) (\<lambda>_ x.
       if int (iteration st) \<ge> l_maxIterations (x_limits E)
       then (Inl (ExecutionLimitExceeded Max_iterations (l_maxIterations (x_limits E))), x)
       else case l_maxTotalTokens (x_limits E) of
              None \<Rightarrow> (Inr (), x)
            | Some m \<Rightarrow>
                if nullish (totalTokens (usage st)) 0 \<ge> m
                then (Inl (ExecutionLimitExceeded Max_total_tokens m), x)
                else (Inr (), x))"

text \<open>\<open>add\<close> of two counters that may be missing.\<close>

definition add_count :: "int option \<Rightarrow> int option \<Rightarrow> int option" where
  "add_count current new = (case new of None \<Rightarrow> current | Some n \<Rightarrow> Some (nullish current 0 + n))"

definition accumulateUsage :: "ModelUsage option \<Rightarrow> ExecutionState \<Rightarrow> ExecutionState" where
  "accumulateUsage u st =
     (case u of
        None \<Rightarrow> st
      | Some u \<Rightarrow>
          st\<lparr>usage := \<lparr>inputTokens = add_count (inputTokens (usage st)) (inputTokens u),
             outputTokens = add_count (outputTokens (usage st)) (outputTokens u),
             totalTokens = add_count (totalTokens (usage st))
               (case totalTokens u of
                  None \<Rightarrow> add_count (inputTokens u) (outputTokens u)
                | t \<Rightarrow> t)\<rparr>\<rparr>)"

section \<open>Requests\<close>

definition toToolSchemas :: "'x ResolvedTool list \<Rightarrow> ModelToolSchema list" where
  "toToolSchemas tools =
     map (\<lambda>t. \<lparr>ts_name = rt_name t, ts_description = rt_description t, ts_parameters = rt_parameters t\<rparr>) tools"

text \<open>The projection for the model, and the transcript as the reducer has left it.\<close>

definition projectMessages ::
    "'x xenv \<Rightarrow> ExecutionState \<Rightarrow> 'x
       \<Rightarrow> (agent_error, ModelMessage list \<times> ModelMessage list) result \<times> 'x" where
  "projectMessages E st x =
     (case x_messageReducer E of
        None \<Rightarrow> (Inr (messages st, messages st), x)
      | Some reducer \<Rightarrow>
          (let canonical = messages st; fingerprint = fingerprintTranscript (x_number E) canonical;
               ctx = \<lparr>rc_executionId = executionId st, rc_sessionId = x_sessionId E, rc_iteration = iteration st,
                 rc_pendingApprovalToolCallId = x_pendingApprovalToolCallId E\<rparr>
           in and_then (reducer canonical ctx x) (\<lambda>(reduced, same, left) x.
                case validateReduction (x_number E) same reduced left fingerprint
                       (x_pendingApprovalToolCallId E) of
                  Inl broken \<Rightarrow> (Inl (MessageReducerContract broken), x)
                | Inr _ \<Rightarrow> (Inr (if same then left else reduced, left), x))))"

definition withSystemInstruction :: "ModelMessage list \<Rightarrow> string \<Rightarrow> ModelMessage list" where
  "withSystemInstruction msgs instruction =
     (case msgs of
        SystemMsg c # rest \<Rightarrow> SystemMsg (c @ newline @ newline @ instruction) # rest
      | _ \<Rightarrow> SystemMsg instruction # msgs)"

definition buildRequest ::
    "'x xenv \<Rightarrow> ExecutionState \<Rightarrow> 'x \<Rightarrow> (agent_error, ModelRequest \<times> ExecutionState) result \<times> 'x" where
  "buildRequest E st x =
     and_then (projectMessages E st x) (\<lambda>(projected, left) x.
       let msgs = projected @ repair st;
           instructed = (case x_structuredOutput E of
                           Some spec \<Rightarrow>
                             if x_supportsStructuredOutput E then msgs
                             else withSystemInstruction msgs (structuredOutputInstruction (x_so E) spec)
                         | None \<Rightarrow> msgs)
       in (Inr (\<lparr>mr_model = x_model E, mr_messages = instructed, mr_tools = toToolSchemas (x_tools E),
                 mr_outputFormat = map_option toOutputFormat (x_structuredOutput E),
                 mr_sessionId = x_sessionId E, mr_traceId = nullish (x_traceId E) (executionId st),
                 mr_executionId = executionId st, mr_iteration = iteration st\<rparr>,
                st\<lparr>messages := left\<rparr>), x))"

section \<open>Tool calls of a round\<close>

definition MAX_TOOL_ERROR_LENGTH :: nat where
  "MAX_TOOL_ERROR_LENGTH = 500"

definition TOOL_ERROR_SANITIZATION_FAILED_MESSAGE :: string where
  "TOOL_ERROR_SANITIZATION_FAILED_MESSAGE =
     ''Tool execution failed and the error could not be safely sanitized.''"

text \<open>The message reported for what a tool threw; a rail that fails hides the message.\<close>

definition toFailurePayload ::
    "'x ResolvedTool \<Rightarrow> string \<Rightarrow> props \<Rightarrow> 'x \<Rightarrow> string \<times> 'x" where
  "toFailurePayload tool raw targs x =
     (let (sanitized, x') =
            (case rt_sanitize tool of
               None \<Rightarrow> (raw, x)
             | Some sanitize \<Rightarrow>
                 (case sanitize raw targs x of
                    (Inl _, x') \<Rightarrow> (TOOL_ERROR_SANITIZATION_FAILED_MESSAGE, x')
                  | (Inr s, x') \<Rightarrow> (s, x')));
          message = (if length sanitized > MAX_TOOL_ERROR_LENGTH
                     then take MAX_TOOL_ERROR_LENGTH sanitized @ ''...'' else sanitized)
      in (if message = [] then ''Tool execution failed.'' else message, x'))"

definition unknown_tool :: "'x xenv \<Rightarrow> string \<Rightarrow> string" where
  "unknown_tool E tool_name =
     ''Unknown tool '' @ quoted tool_name @ ''. Available tools: '' @ join '', '' (map rt_name (x_tools E))"

definition push_record :: "ToolCallRecord \<Rightarrow> ExecutionState \<Rightarrow> ExecutionState" where
  "push_record r st = st\<lparr>toolCallRecords := toolCallRecords st @ [r]\<rparr>"

text \<open>
  What one call came to: the state after it, its events, and whether it suspends the turn.
\<close>

type_synonym call_result = "ExecutionState \<times> AgentStreamEvent list \<times> bool"

definition call_failed ::
    "'x xenv \<Rightarrow> 'x ResolvedTool \<Rightarrow> ModelToolCall \<Rightarrow> props \<Rightarrow> ExecutionState \<Rightarrow> AgentStreamEvent list
       \<Rightarrow> agent_error \<Rightarrow> 'x \<Rightarrow> (agent_error, call_result) result \<times> 'x" where
  "call_failed E tool call targs st events err x =
     (case err of
        Thrown raw \<Rightarrow>
          and_then (assertNotAborted E x) (\<lambda>_ x.
            if x_toolErrorHandling E = ThrowErrors then (Inl err, x)
            else case toFailurePayload tool raw targs x of
                   (message, x) \<Rightarrow>
                     (Inr (pushToolMessage E call (failure_json message (rt_name tool))
                             (Some \<lparr>source = FromTool, origin = Some (rt_name tool)\<rparr>)
                             (push_record \<lparr>tc_toolName = rt_name tool, tc_args = targs,
                                tc_result = Failed message (rt_name tool)\<rparr> st),
                           events @ [Ev_tool_error (call_id call) (rt_name tool) message], False), x))
      | _ \<Rightarrow> (Inl err, x))"

definition call_returned ::
    "'x xenv \<Rightarrow> 'x ResolvedTool \<Rightarrow> ModelToolCall \<Rightarrow> props \<Rightarrow> ExecutionState \<Rightarrow> AgentStreamEvent list
       \<Rightarrow> ToolExecutionResult \<Rightarrow> call_result" where
  "call_returned E tool call targs st events result' =
     (let st1 = pushToolMessage E call (result_json result') (result_provenance result')
                  (push_record \<lparr>tc_toolName = rt_name tool, tc_args = targs, tc_result = Completed result'\<rparr> st)
      in case result' of
           PendingResult why approvalId _ _ \<Rightarrow>
             (st1\<lparr>suspended := True, suspendedApprovalId := Some approvalId\<rparr>,
              events @ [Ev_approval_required (call_id call) (rt_name tool) approvalId why], True)
         | _ \<Rightarrow>
             (st1, events @ [Ev_tool_result (call_id call) (rt_name tool) result',
                             Ev_action_observation (call_id call) (rt_name tool) result'], False))"

definition run_call ::
    "'x xenv \<Rightarrow> ModelToolCall \<Rightarrow> ExecutionState \<Rightarrow> 'x \<Rightarrow> (agent_error, call_result) result \<times> 'x" where
  "run_call E call st x =
     and_then (assertNotAborted E x) (\<lambda>_ x.
       if toolCallCount st \<ge> l_maxToolCalls (x_limits E)
       then (Inl (ExecutionLimitExceeded Max_tool_calls (l_maxToolCalls (x_limits E))), x)
       else
         let st1 = st\<lparr>toolCallCount := toolCallCount st + 1\<rparr>
         in case find (\<lambda>t. rt_name t = call_name call) (x_tools E) of
              None \<Rightarrow>
                (Inr (pushToolMessage E call (error_json (unknown_tool E (call_name call))) None st1, [], False), x)
            | Some tool \<Rightarrow>
                (let validation = validateToolArgs (x_number E) (rt_parameters tool) (Some (call_args call))
                 in if \<not> valid validation
                    then (Inr (pushToolMessage E call
                                 (error_json (error_message (ToolValidation (rt_name tool) (issues validation))))
                                 None st1, [], False), x)
                    else
                      let targs = args validation;
                          started = [Ev_tool_start (call_id call) (rt_name tool) targs,
                                     Ev_action_call (call_id call) (rt_name tool) targs]
                      in case rt_execute tool targs (Some (call_id call)) x of
                           (Inl err, x) \<Rightarrow> call_failed E tool call targs st1 started err x
                         | (Inr result', x) \<Rightarrow>
                             (Inr (call_returned E tool call targs st1 started result'), x)))"

fun run_calls ::
    "'x xenv \<Rightarrow> ModelToolCall list \<Rightarrow> ExecutionState \<Rightarrow> 'x \<Rightarrow> (agent_error, call_result) result \<times> 'x" where
  "run_calls E [] st x = (Inr (st, [], False), x)"
| "run_calls E (call # calls) st x =
     and_then (run_call E call st x) (\<lambda>(st1, events1, stop) x.
       if stop then (Inr (st1, events1, True), x)
       else and_then (run_calls E calls st1 x) (\<lambda>(st2, events2, stop) x.
              (Inr (st2, events1 @ events2, stop), x)))"

text \<open>One model round; the flag says that the turn is complete.\<close>

definition applyModelRound ::
    "'x xenv \<Rightarrow> ExecutionState \<Rightarrow> ModelResponse \<Rightarrow> 'x \<Rightarrow> (agent_error, call_result) result \<times> 'x" where
  "applyModelRound E st response x =
     (let st1 = accumulateUsage (rs_usage response) (st\<lparr>iteration := Suc (iteration st)\<rparr>);
          requestedCalls = nullish (rs_toolCalls response) []
      in if requestedCalls = [] then (Inr (st1, [], True), x)
         else run_calls E requestedCalls
                (st1\<lparr>messages := messages st1 @ repair st1 @
                        [AssistantMsg (rs_content response) (Some requestedCalls)],
                      repair := []\<rparr>) x)"

section \<open>The final answer\<close>

definition refusal_text :: "ModelResponse \<Rightarrow> string option" where
  "refusal_text response = (case rs_refusal response of JStr (c # cs) \<Rightarrow> Some (c # cs) | _ \<Rightarrow> None)"

text \<open>The issues of a rejected answer, and the state with its repair round queued.\<close>

definition queue_repair :: "string \<Rightarrow> string list \<Rightarrow> ExecutionState \<Rightarrow> ExecutionState" where
  "queue_repair answer issues' st =
     st\<lparr>repairAttempts := Suc (repairAttempts st),
        repair := repair st @ (if trim answer = [] then [] else [AssistantMsg answer None]) @
                  [UserMsg (repairPrompt issues')]\<rparr>"

definition rejectOutput ::
    "'x xenv \<Rightarrow> ExecutionState \<Rightarrow> ModelResponse \<Rightarrow> 'x
       \<Rightarrow> (agent_error, string list option \<times> ExecutionState) result \<times> 'x" where
  "rejectOutput E st response x =
     (case x_structuredOutput E of
        None \<Rightarrow> (Inr (None, st), x)
      | Some spec \<Rightarrow>
          if suspended st then (Inr (None, st), x)
          else
            let answer = rs_content response;
                refusal = refusal_text response
            in case (case refusal of
                       Some r \<Rightarrow> Inr (Inl [''$: the model refused to answer: '' @ r])
                     | None \<Rightarrow> checkStructuredOutput (x_so E) spec answer) of
                 Inl e \<Rightarrow> (Inl e, x)
               | Inr (Inr v) \<Rightarrow> (Inr (None, st\<lparr>structured := Some v\<rparr>), x)
               | Inr (Inl issues') \<Rightarrow>
                   if refusal \<noteq> None \<or> js_le (maxRepairAttemptsOf spec) (Fin (of_nat (repairAttempts st)))
                   then and_then (publishTranscript E st answer x) (\<lambda>_ x.
                          (Inl (StructuredOutputFailed answer issues' (repairAttempts st) refusal), x))
                   else (Inr (Some issues', queue_repair answer issues' st), x))"

definition resolveOutput :: "ExecutionState \<Rightarrow> string \<Rightarrow> string" where
  "resolveOutput st answer =
     (if \<not> suspended st \<or> answer \<noteq> [] then answer
      else if toolCallRecords st = [] then answer
      else case tc_result (last (toolCallRecords st)) of
             Completed (PendingResult why approvalId _ _) \<Rightarrow>
               ''Tool '' @ quoted (tc_toolName (last (toolCallRecords st))) @ '' requires approval ('' @
               approvalId @ ''): '' @ why
           | _ \<Rightarrow> answer)"

definition toResult :: "string \<Rightarrow> ExecutionState \<Rightarrow> string \<Rightarrow> AgentResult" where
  "toResult session_id st answer =
     \<lparr>ar_sessionId = session_id, ar_output = resolveOutput st answer, ar_toolCalls = toolCallRecords st,
      ar_usage = usage st, ar_structured = structured st\<rparr>"

section \<open>The loop\<close>

datatype 'r round_end = Again ExecutionState | Done 'r

definition finish_round ::
    "'x xenv \<Rightarrow> ExecutionState \<Rightarrow> ModelResponse \<Rightarrow> bool \<Rightarrow> 'x
       \<Rightarrow> (agent_error, AgentResult round_end) result \<times> 'x" where
  "finish_round E st response finished x =
     (if \<not> finished
      then and_then (publishInFlightCheckpoint E st x) (\<lambda>_ x. (Inr (Again st), x))
      else and_then (rejectOutput E st response x) (\<lambda>(rejected, st) x.
        if rejected \<noteq> None
        then and_then (publishInFlightCheckpoint E st x) (\<lambda>_ x. (Inr (Again st), x))
        else
          and_then (publishCheckpoint E st x) (\<lambda>_ x.
          and_then (publishTranscript E st (rs_content response) x) (\<lambda>_ x.
            (Inr (Done (toResult (x_sessionId E) st (rs_content response))), x)))))"

definition run_round ::
    "'x xenv \<Rightarrow> ExecutionState \<Rightarrow> 'x \<Rightarrow> (agent_error, AgentResult round_end) result \<times> 'x" where
  "run_round E st x =
     and_then (assertWithinBudget E st x) (\<lambda>_ x.
     and_then (buildRequest E st x) (\<lambda>(request, st) x.
     and_then (x_generate E request x) (\<lambda>response x.
     and_then (applyModelRound E st response x) (\<lambda>(st, _, finished) x.
       finish_round E st response finished x))))"

lemma pushToolMessage_simps [simp]:
  "iteration (pushToolMessage E call payload prov st) = iteration st"
  "toolCallCount (pushToolMessage E call payload prov st) = toolCallCount st"
  "repair (pushToolMessage E call payload prov st) = repair st"
  "repairAttempts (pushToolMessage E call payload prov st) = repairAttempts st"
  "suspended (pushToolMessage E call payload prov st) = suspended st"
  "structured (pushToolMessage E call payload prov st) = structured st"
  "toolCallRecords (pushToolMessage E call payload prov st) = toolCallRecords st"
  by (simp_all add: pushToolMessage_def)

lemma push_record_simps [simp]:
  "iteration (push_record r st) = iteration st"
  "toolCallCount (push_record r st) = toolCallCount st"
  "repair (push_record r st) = repair st"
  "repairAttempts (push_record r st) = repairAttempts st"
  "suspended (push_record r st) = suspended st"
  "structured (push_record r st) = structured st"
  "messages (push_record r st) = messages st"
  "toolCallRecords (push_record r st) = toolCallRecords st @ [r]"
  by (simp_all add: push_record_def)

text \<open>What every completed call does to the state: the cases of \<open>run_call\<close>.\<close>

lemma run_call_cases [consumes 1, case_names reported failed returned]:
  assumes "run_call E call st x = (Inr (st', events, stop), x')"
  obtains
    (reported) message where "st' = pushToolMessage E call (error_json message) None
        (st\<lparr>toolCallCount := toolCallCount st + 1\<rparr>)" "\<not> stop" "events = []" "x' = x"
  | (failed) tool targs raw message x1 where "tool \<in> set (x_tools E)" "rt_name tool = call_name call"
      "rt_execute tool targs (Some (call_id call)) x = (Inl (Thrown raw), x1)"
      "toFailurePayload tool raw targs x1 = (message, x')" "\<not> stop"
      "st' = pushToolMessage E call (failure_json message (rt_name tool))
         (Some \<lparr>source = FromTool, origin = Some (rt_name tool)\<rparr>)
         (push_record \<lparr>tc_toolName = rt_name tool, tc_args = targs, tc_result = Failed message (rt_name tool)\<rparr>
           (st\<lparr>toolCallCount := toolCallCount st + 1\<rparr>))"
  | (returned) tool targs result' started where "tool \<in> set (x_tools E)" "rt_name tool = call_name call"
      "rt_execute tool targs (Some (call_id call)) x = (Inr result', x')"
      "call_returned E tool call targs (st\<lparr>toolCallCount := toolCallCount st + 1\<rparr>) started result' =
         (st', events, stop)"
proof -
  let ?st = "st\<lparr>toolCallCount := toolCallCount st + 1\<rparr>"
  from assms have no_abort: "assertNotAborted E x = (Inr (), x)"
    by (auto simp: run_call_def assertNotAborted_def split: if_splits)
  show ?thesis
  proof (cases "find (\<lambda>t. rt_name t = call_name call) (x_tools E)")
    case None
    with assms no_abort reported show ?thesis
      by (auto simp: run_call_def Let_def split: if_splits)
  next
    case (Some tool)
    then have tool: "tool \<in> set (x_tools E)" "rt_name tool = call_name call"
      by (auto simp: find_Some_iff)
    let ?v = "validateToolArgs (x_number E) (rt_parameters tool) (Some (call_args call))"
    show ?thesis
    proof (cases "valid ?v")
      case False
      with assms Some no_abort reported show ?thesis
        by (auto simp: run_call_def Let_def split: if_splits)
    next
      case True
      obtain r x1 where exec: "rt_execute tool (args ?v) (Some (call_id call)) x = (r, x1)"
        by (cases "rt_execute tool (args ?v) (Some (call_id call)) x")
      show ?thesis
      proof (cases r)
        case (Inl err)
        with assms Some no_abort True exec failed tool show ?thesis
          by (auto simp: run_call_def Let_def call_failed_def assertNotAborted_def
                split: if_splits agent_error.splits prod.splits)
      next
        case (Inr result')
        with assms Some no_abort True exec returned tool show ?thesis
          by (auto simp: run_call_def Let_def split: if_splits)
      qed
    qed
  qed
qed

lemma call_returned_simps [simp]:
  "call_returned E tool call targs st events r = (st', events', stop) \<Longrightarrow> iteration st' = iteration st"
  "call_returned E tool call targs st events r = (st', events', stop) \<Longrightarrow> toolCallCount st' = toolCallCount st"
  by (auto simp: call_returned_def Let_def split: ToolExecutionResult.splits)

lemma run_call_iteration: "run_call E call st x = (Inr (st', events, stop), x') \<Longrightarrow> iteration st' = iteration st"
  by (erule run_call_cases) (auto dest: sym)

lemma run_calls_iteration:
  "run_calls E calls st x = (Inr (st', events, stop), x') \<Longrightarrow> iteration st' = iteration st"
proof (induction calls arbitrary: st x events stop)
  case (Cons call calls)
  from Cons.prems obtain st1 e1 stop1 x1 where "run_call E call st x = (Inr (st1, e1, stop1), x1)"
    and "stop1 \<and> st' = st1 \<or> (\<exists>e2 s2. run_calls E calls st1 x1 = (Inr (st', e2, s2), x'))"
    by (auto simp: and_then_Inr_iff split: if_splits)
  with Cons.IH run_call_iteration show ?case by metis
qed simp

lemma accumulateUsage_simps [simp]:
  "iteration (accumulateUsage u st) = iteration st" "messages (accumulateUsage u st) = messages st"
  "repair (accumulateUsage u st) = repair st" "repairAttempts (accumulateUsage u st) = repairAttempts st"
  "toolCallCount (accumulateUsage u st) = toolCallCount st" "suspended (accumulateUsage u st) = suspended st"
  "structured (accumulateUsage u st) = structured st" "toolCallRecords (accumulateUsage u st) = toolCallRecords st"
  by (simp_all add: accumulateUsage_def split: option.splits)

lemma applyModelRound_iteration:
  "applyModelRound E st response x = (Inr (st', events, finished), x') \<Longrightarrow> iteration st' = Suc (iteration st)"
  by (auto simp: applyModelRound_def Let_def split: if_splits dest!: run_calls_iteration)

lemma rejectOutput_state:
  assumes "rejectOutput E st response x = (Inr (rejected, st'), x')"
  shows "(rejected = None \<and> (st' = st \<or> (\<exists>v. st' = st\<lparr>structured := Some v\<rparr>))) \<or>
    (\<exists>is. rejected = Some is \<and> st' = queue_repair (rs_content response) is st)"
  using assms
  by (auto simp: rejectOutput_def Let_def and_then_Inr_iff split: option.splits if_splits sum.splits)

lemma rejectOutput_iteration:
  "rejectOutput E st response x = (Inr (rejected, st'), x') \<Longrightarrow> iteration st' = iteration st"
  by (drule rejectOutput_state) (auto simp: queue_repair_def)

lemma assertWithinBudget_iteration:
  "assertWithinBudget E st x = (Inr u, x') \<Longrightarrow> x' = x \<and> int (iteration st) < l_maxIterations (x_limits E)"
  by (auto simp: assertWithinBudget_def assertNotAborted_def split: if_splits option.splits)

lemma buildRequest_state:
  "buildRequest E st x = (Inr (request, st'), x') \<Longrightarrow> \<exists>ms. st' = st\<lparr>messages := ms\<rparr>"
  by (auto simp: buildRequest_def and_then_Inr_iff Let_def)

lemma finish_round_again:
  "finish_round E st response finished x = (Inr (Again st'), x') \<Longrightarrow> iteration st' = iteration st"
  by (auto simp: finish_round_def and_then_Inr_iff split: if_splits dest: rejectOutput_iteration)

text \<open>Every round that goes on spends one iteration of the budget.\<close>

lemma run_round_iteration:
  "run_round E st x = (Inr (Again st'), x') \<Longrightarrow>
     iteration st' = Suc (iteration st) \<and> int (iteration st) < l_maxIterations (x_limits E)"
  by (auto simp: run_round_def and_then_Inr_iff
        dest!: assertWithinBudget_iteration buildRequest_state applyModelRound_iteration finish_round_again)

function run_loop :: "'x xenv \<Rightarrow> ExecutionState \<Rightarrow> 'x \<Rightarrow> (agent_error, AgentResult) result \<times> 'x" where
  "run_loop E st x =
     and_then (run_round E st x) (\<lambda>out x.
       case out of Done r \<Rightarrow> (Inr r, x) | Again st' \<Rightarrow> run_loop E st' x)"
  by pat_completeness auto
termination
  by (relation "measure (\<lambda>(E, st, x). nat (l_maxIterations (x_limits E) - int (iteration st)))")
     (auto dest!: run_round_iteration)

declare run_loop.simps [simp del]

section \<open>Streaming\<close>

text \<open>A generator: the events it has yielded, and how it ended.\<close>

type_synonym ('a, 'x) stream = "AgentStreamEvent list \<times> (agent_error, 'a) result \<times> 'x"

definition yield_then ::
    "('a, 'x) stream \<Rightarrow> ('a \<Rightarrow> 'x \<Rightarrow> ('b, 'x) stream) \<Rightarrow> ('b, 'x) stream" where
  "yield_then s k =
     (case s of
        (evs, (Inl e, x)) \<Rightarrow> (evs, (Inl e, x))
      | (evs, (Inr a, x)) \<Rightarrow> (case k a x of (evs', out) \<Rightarrow> (evs @ evs', out)))"

lemma yield_then_simps [simp]:
  "yield_then (evs, (Inl e, x)) k = (evs, (Inl e, x))"
  "yield_then (evs, (Inr a, x)) k = (evs @ fst (k a x), snd (k a x))"
  by (simp_all add: yield_then_def split: prod.splits)

lemma yield_then_cong [fundef_cong]:
  "s = s' \<Longrightarrow> (\<And>evs a x. s' = (evs, (Inr a, x)) \<Longrightarrow> k a x = k' a x) \<Longrightarrow> yield_then s k = yield_then s' k'"
  by (cases s'; cases "fst (snd s')"; cases "snd s'") auto

definition no_answer :: string where
  "no_answer = ''ModelAdapter.stream() completed without emitting a final \"response\" chunk.''"

definition tokens_of :: "ModelStreamChunk list \<Rightarrow> AgentStreamEvent list" where
  "tokens_of chunks =
     concat (map (\<lambda>c. case c of TokenChunk (t # ts) \<Rightarrow> [Ev_token (t # ts)] | _ \<Rightarrow> []) chunks)"

fun last_response :: "ModelStreamChunk list \<Rightarrow> ModelResponse option \<Rightarrow> ModelResponse option" where
  "last_response [] r = r"
| "last_response (TokenChunk _ # cs) r = last_response cs r"
| "last_response (ResponseChunk q # cs) r = last_response cs (Some q)"

definition stream_model :: "'x xenv \<Rightarrow> ModelRequest \<Rightarrow> 'x \<Rightarrow> (ModelResponse, 'x) stream" where
  "stream_model E request x =
     (case x_stream E of
        Some adapter_stream \<Rightarrow>
          (case adapter_stream request x of
             ((chunks, Some e), x) \<Rightarrow> (tokens_of chunks, (Inl e, x))
           | ((chunks, None), x) \<Rightarrow>
               (tokens_of chunks,
                (case last_response chunks None of
                   None \<Rightarrow> (Inl (Thrown no_answer), x)
                 | Some response \<Rightarrow> (Inr response, x))))
      | None \<Rightarrow>
          (case x_generate E request x of
             (Inl e, x) \<Rightarrow> ([], (Inl e, x))
           | (Inr response, x) \<Rightarrow>
               (if rs_content response = [] then [] else [Ev_token (rs_content response)], (Inr response, x))))"

definition stream_finish ::
    "'x xenv \<Rightarrow> ExecutionState \<Rightarrow> ModelResponse \<Rightarrow> bool \<Rightarrow> 'x \<Rightarrow> (unit round_end, 'x) stream" where
  "stream_finish E st response finished x =
     (if \<not> finished
      then ([], and_then (publishInFlightCheckpoint E st x) (\<lambda>_ x. (Inr (Again st), x)))
      else yield_then ([], rejectOutput E st response x) (\<lambda>(rejected, st) x.
        case rejected of
          Some issues' \<Rightarrow>
            yield_then ([], publishInFlightCheckpoint E st x) (\<lambda>_ x.
              ([Ev_output_rejected (repairAttempts st) issues'], (Inr (Again st), x)))
        | None \<Rightarrow>
            (let output = resolveOutput st (rs_content response)
             in yield_then ([], publishCheckpoint E st x) (\<lambda>_ x.
                yield_then ([], publishTranscript E st output x) (\<lambda>_ x.
                  ([Ev_final_answer (x_sessionId E) output (usage st) (structured st),
                    Ev_complete (x_sessionId E) output], (Inr (Done ()), x)))))))"

definition stream_round :: "'x xenv \<Rightarrow> ExecutionState \<Rightarrow> 'x \<Rightarrow> (unit round_end, 'x) stream" where
  "stream_round E st x =
     yield_then ([], assertWithinBudget E st x) (\<lambda>_ x.
     yield_then ([], buildRequest E st x) (\<lambda>(request, st) x.
     yield_then (stream_model E request x) (\<lambda>response x.
     yield_then ([], applyModelRound E st response x) (\<lambda>(st, events, finished) x.
     yield_then (events, (Inr (), x)) (\<lambda>_ x.
       stream_finish E st response finished x)))))"

lemma yield_then_Inr_iff:
  "snd (yield_then s k) = (Inr b, x') \<longleftrightarrow> (\<exists>evs a x. s = (evs, (Inr a, x)) \<and> snd (k a x) = (Inr b, x'))"
  by (cases s; cases "fst (snd s)"; cases "snd s") auto

lemma stream_finish_again:
  "snd (stream_finish E st response finished x) = (Inr (Again st'), x') \<Longrightarrow> iteration st' = iteration st"
  by (auto simp: stream_finish_def and_then_Inr_iff yield_then_Inr_iff Let_def
        split: if_splits option.splits dest: rejectOutput_iteration)

lemma stream_round_iteration:
  "snd (stream_round E st x) = (Inr (Again st'), x') \<Longrightarrow>
     iteration st' = Suc (iteration st) \<and> int (iteration st) < l_maxIterations (x_limits E)"
  by (auto simp: stream_round_def yield_then_Inr_iff
        dest!: assertWithinBudget_iteration buildRequest_state applyModelRound_iteration stream_finish_again)

lemma stream_round_again:
  "stream_round E st x = (evs, (Inr (Again st'), x')) \<Longrightarrow>
     iteration st' = Suc (iteration st) \<and> int (iteration st) < l_maxIterations (x_limits E)"
  using stream_round_iteration [of E st x st' x'] by simp

function stream_loop :: "'x xenv \<Rightarrow> ExecutionState \<Rightarrow> 'x \<Rightarrow> (unit, 'x) stream" where
  "stream_loop E st x =
     yield_then (stream_round E st x) (\<lambda>out x.
       case out of Done r \<Rightarrow> ([], (Inr r, x)) | Again st' \<Rightarrow> stream_loop E st' x)"
  by pat_completeness auto
termination
  by (relation "measure (\<lambda>(E, st, x). nat (l_maxIterations (x_limits E) - int (iteration st)))")
     (auto dest!: stream_round_again)

declare stream_loop.simps [simp del]

section \<open>Entry points\<close>

definition configured ::
    "'x xenv \<Rightarrow> ExecutionLimits option \<Rightarrow> ToolErrorHandling option \<Rightarrow> 'x xenv" where
  "configured E limits handling =
     E\<lparr>x_limits := resolveLimits limits, x_toolErrorHandling := nullish handling ReportErrors\<rparr>"

definition requireAdapter :: "'x xenv \<Rightarrow> (agent_error, unit) result" where
  "requireAdapter E = (if x_adapterAvailable E then Inr () else Inl RuntimeNotConfigured)"

text \<open>Running a prepared state, without and with streaming.\<close>

definition run_turn ::
    "'x xenv \<Rightarrow> (agent_error, ExecutionState) result \<Rightarrow> 'x \<Rightarrow> (agent_error, AgentResult) result \<times> 'x" where
  "run_turn E prepared x =
     and_then (prepared, x) (\<lambda>st x. and_then (requireAdapter E, x) (\<lambda>_ x. run_loop E st x))"

definition stream_turn :: "'x xenv \<Rightarrow> (agent_error, ExecutionState) result \<Rightarrow> 'x \<Rightarrow> (unit, 'x) stream" where
  "stream_turn E prepared x =
     yield_then ([], (prepared, x)) (\<lambda>st x.
     yield_then ([], (requireAdapter E, x)) (\<lambda>_ x. stream_loop E st x))"

definition execute_turn ::
    "'x xenv \<Rightarrow> ExecutionLimits option \<Rightarrow> ToolErrorHandling option \<Rightarrow> string \<Rightarrow> string option
       \<Rightarrow> ModelMessage list option \<Rightarrow> string \<Rightarrow> 'x \<Rightarrow> (agent_error, AgentResult) result \<times> 'x" where
  "execute_turn E limits handling uuid instructions history message x =
     run_turn (configured E limits handling) (Inr (createState uuid instructions history message)) x"

definition execute_stream ::
    "'x xenv \<Rightarrow> ExecutionLimits option \<Rightarrow> ToolErrorHandling option \<Rightarrow> string \<Rightarrow> string option
       \<Rightarrow> ModelMessage list option \<Rightarrow> string \<Rightarrow> 'x \<Rightarrow> (unit, 'x) stream" where
  "execute_stream E limits handling uuid instructions history message x =
     stream_turn (configured E limits handling) (Inr (createState uuid instructions history message)) x"

definition resume_turn ::
    "'x xenv \<Rightarrow> ExecutionLimits option \<Rightarrow> ToolErrorHandling option \<Rightarrow> string \<Rightarrow> string option
       \<Rightarrow> ModelMessage list \<Rightarrow> string \<Rightarrow> string \<Rightarrow> props \<Rightarrow> ToolExecutionResult \<Rightarrow> 'x
       \<Rightarrow> (agent_error, AgentResult) result \<times> 'x" where
  "resume_turn E limits handling uuid instructions history tool_call_id tool_name targs settled x =
     run_turn (configured E limits handling \<lparr>x_pendingApprovalToolCallId := Some tool_call_id\<rparr>)
       (createResumedState (x_number E) uuid instructions history tool_call_id tool_name targs settled) x"

definition resume_stream ::
    "'x xenv \<Rightarrow> ExecutionLimits option \<Rightarrow> ToolErrorHandling option \<Rightarrow> string \<Rightarrow> string option
       \<Rightarrow> ModelMessage list \<Rightarrow> string \<Rightarrow> string \<Rightarrow> props \<Rightarrow> ToolExecutionResult \<Rightarrow> 'x
       \<Rightarrow> (unit, 'x) stream" where
  "resume_stream E limits handling uuid instructions history tool_call_id tool_name targs settled x =
     stream_turn (configured E limits handling \<lparr>x_pendingApprovalToolCallId := Some tool_call_id\<rparr>)
       (createResumedState (x_number E) uuid instructions history tool_call_id tool_name targs settled) x"

definition resume_checkpoint ::
    "'x xenv \<Rightarrow> ExecutionLimits option \<Rightarrow> ToolErrorHandling option \<Rightarrow> InFlightCheckpoint \<Rightarrow> 'x
       \<Rightarrow> (agent_error, AgentResult) result \<times> 'x" where
  "resume_checkpoint E limits handling cp x =
     run_turn (configured E limits handling) (createCheckpointState cp) x"

definition resume_checkpoint_stream ::
    "'x xenv \<Rightarrow> ExecutionLimits option \<Rightarrow> ToolErrorHandling option \<Rightarrow> InFlightCheckpoint \<Rightarrow> 'x
       \<Rightarrow> (unit, 'x) stream" where
  "resume_checkpoint_stream E limits handling cp x =
     stream_turn (configured E limits handling) (createCheckpointState cp) x"

end
