(* ===== verification/Turn_Budget.thy ===== *)
theory Turn_Budget
  imports Executor
begin

text \<open>
  What the execution limits bound: the model rounds and tool executions of a whole turn,
  however the model, the tools, the rails and the callbacks behave, and however the turn ends.
\<close>

section \<open>Loops of rounds\<close>

text \<open>A turn ends with the round that finishes it or fails, reached by rounds that go on.\<close>

lemma run_loop_ends:
  assumes "run_loop E st x = (out, x')" and "P st x"
    and "\<And>st x st' x'. P st x \<Longrightarrow> run_round E st x = (Inr (Again st'), x') \<Longrightarrow> P st' x'"
  obtains (finished) st0 x0 r where "P st0 x0" "run_round E st0 x0 = (Inr (Done r), x')" "out = Inr r"
    | (failed) st0 x0 e where "P st0 x0" "run_round E st0 x0 = (Inl e, x')" "out = Inl e"
proof -
  have "(\<exists>st0 x0 r. P st0 x0 \<and> run_round E st0 x0 = (Inr (Done r), x') \<and> out = Inr r) \<or>
    (\<exists>st0 x0 e. P st0 x0 \<and> run_round E st0 x0 = (Inl e, x') \<and> out = Inl e)"
    using assms
  proof (induction E st x rule: run_loop.induct)
    case (1 E st x)
    obtain res x1 where round: "run_round E st x = (res, x1)" by (cases "run_round E st x")
    then show ?case
    proof (cases res)
      case (Inl e)
      with 1 round show ?thesis by (auto simp: run_loop.simps [of E st x])
    next
      case (Inr step)
      show ?thesis
      proof (cases step)
        case (Again st1)
        with 1 round Inr have "P st1 x1" "run_loop E st1 x1 = (out, x')"
          by (auto simp: run_loop.simps [of E st x])
        with "1.IH" [of step x1 st1] "1.prems"(3) round Inr Again show ?thesis by blast
      next
        case (Done r)
        with 1 round Inr show ?thesis by (auto simp: run_loop.simps [of E st x])
      qed
    qed
  qed
  with that show ?thesis by blast
qed

section \<open>Instrumented turns\<close>

text \<open>
  The same turn with a probe in the world, which sees what the turn does to the model, the
  tools and the callbacks and changes none of it.
\<close>

record 'l probe =
  on_generate :: "ModelRequest \<Rightarrow> 'l \<Rightarrow> 'l"
  on_execute :: "string \<Rightarrow> props \<Rightarrow> 'l \<Rightarrow> 'l"
  on_transcript :: "ModelMessage list \<Rightarrow> 'l \<Rightarrow> 'l"
  on_suspend :: "string \<Rightarrow> ModelMessage list \<Rightarrow> 'l \<Rightarrow> 'l"
  on_checkpoint :: "InFlightCheckpoint \<Rightarrow> 'l \<Rightarrow> 'l"

definition probed :: "('l \<Rightarrow> 'l) \<Rightarrow> ('x \<Rightarrow> 'a \<times> 'x) \<Rightarrow> 'x \<times> 'l \<Rightarrow> 'a \<times> 'x \<times> 'l" where
  "probed u f = (\<lambda>(x, l). case f x of (r, x') \<Rightarrow> (r, (x', u l)))"

definition probed_tool :: "'l probe \<Rightarrow> 'x ResolvedTool \<Rightarrow> ('x \<times> 'l) ResolvedTool" where
  "probed_tool p tool =
     \<lparr>rt_name = rt_name tool, rt_description = rt_description tool, rt_parameters = rt_parameters tool,
      rt_sanitize = map_option (\<lambda>f raw targs. probed id (f raw targs)) (rt_sanitize tool),
      rt_execute = (\<lambda>targs i. probed (on_execute p (rt_name tool) targs) (rt_execute tool targs i))\<rparr>"

definition instrument :: "'l probe \<Rightarrow> 'x xenv \<Rightarrow> ('x \<times> 'l) xenv" where
  "instrument p E =
     \<lparr>x_sessionId = x_sessionId E, x_model = x_model E, x_tools = map (probed_tool p) (x_tools E),
      x_traceId = x_traceId E, x_pendingApprovalToolCallId = x_pendingApprovalToolCallId E,
      x_structuredOutput = x_structuredOutput E, x_limits = x_limits E,
      x_toolErrorHandling = x_toolErrorHandling E, x_adapterAvailable = x_adapterAvailable E,
      x_generate = (\<lambda>req. probed (on_generate p req) (x_generate E req)),
      x_stream = map_option (\<lambda>f req. probed (on_generate p req) (f req)) (x_stream E),
      x_supportsStructuredOutput = x_supportsStructuredOutput E,
      x_messageReducer = map_option (\<lambda>f ms c. probed id (f ms c)) (x_messageReducer E),
      x_onTranscript = map_option (\<lambda>f ms. probed (on_transcript p ms) (f ms)) (x_onTranscript E),
      x_onSuspend = map_option (\<lambda>f i ms so. probed (on_suspend p i ms) (f i ms so)) (x_onSuspend E),
      x_onCheckpoint = map_option (\<lambda>f cp. probed (on_checkpoint p cp) (f cp)) (x_onCheckpoint E),
      x_aborted = (\<lambda>(x, _). x_aborted E x), x_timedOut = (\<lambda>(x, _). x_timedOut E x),
      x_now = (\<lambda>(x, _). x_now E x), x_so = x_so E, x_number = x_number E\<rparr>"

lemma instrument_fields [simp]:
  "x_limits (instrument p E) = x_limits E" "x_tools (instrument p E) = map (probed_tool p) (x_tools E)"
  "x_generate (instrument p E) = (\<lambda>req. probed (on_generate p req) (x_generate E req))"
  "x_messageReducer (instrument p E) = map_option (\<lambda>f ms c. probed id (f ms c)) (x_messageReducer E)"
  "x_onTranscript (instrument p E) = map_option (\<lambda>f ms. probed (on_transcript p ms) (f ms)) (x_onTranscript E)"
  "x_onSuspend (instrument p E) = map_option (\<lambda>f i ms so. probed (on_suspend p i ms) (f i ms so)) (x_onSuspend E)"
  "x_onCheckpoint (instrument p E) = map_option (\<lambda>f cp. probed (on_checkpoint p cp) (f cp)) (x_onCheckpoint E)"
  "x_structuredOutput (instrument p E) = x_structuredOutput E"
  "x_supportsStructuredOutput (instrument p E) = x_supportsStructuredOutput E"
  by (simp_all add: instrument_def)

lemma probed_eq: "probed u f x = (r, x') \<Longrightarrow> snd x' = u (snd x)"
  by (auto simp: probed_def split: prod.splits)

section \<open>A metered turn\<close>

text \<open>Counting the calls of the model and the executions of tools.\<close>

type_synonym 'x metered = "'x \<times> nat \<times> nat"

definition counts :: "(nat \<times> nat) probe" where
  "counts = \<lparr>on_generate = (\<lambda>_ (m, n). (Suc m, n)), on_execute = (\<lambda>_ _ (m, n). (m, Suc n)),
     on_transcript = (\<lambda>_ c. c), on_suspend = (\<lambda>_ _ c. c), on_checkpoint = (\<lambda>_ c. c)\<rparr>"

definition meter :: "nat \<Rightarrow> nat \<Rightarrow> ('x \<Rightarrow> 'a \<times> 'x) \<Rightarrow> 'x metered \<Rightarrow> 'a \<times> 'x metered" where
  "meter g t f = probed (\<lambda>(m, n). (m + g, n + t)) f"

abbreviation metered_tool :: "'x ResolvedTool \<Rightarrow> 'x metered ResolvedTool" where
  "metered_tool \<equiv> probed_tool counts"

definition metered :: "'x xenv \<Rightarrow> 'x metered xenv" where
  "metered E = instrument counts E"

lemma probed_meter:
  "probed id f = meter 0 0 f" "probed (\<lambda>c. c) f = meter 0 0 f"
  "probed (\<lambda>(m, n). (Suc m, n)) f = meter 1 0 f" "probed (\<lambda>(m, n). (m, Suc n)) f = meter 0 1 f"
  by (simp_all add: meter_def id_def case_prod_unfold)

lemma meter_eq: "meter g t f x = (r, x') \<Longrightarrow> snd x' = (fst (snd x) + g, snd (snd x) + t)"
  by (auto simp: meter_def case_prod_unfold dest!: probed_eq)

lemma metered_execute [simp]:
  "rt_execute (metered_tool tool) targs i = meter 0 1 (rt_execute tool targs i)"
  by (simp add: probed_tool_def counts_def probed_meter)

lemma metered_fields [simp]:
  "x_limits (metered E) = x_limits E" "x_tools (metered E) = map metered_tool (x_tools E)"
  "x_generate (metered E) = (\<lambda>req. meter 1 0 (x_generate E req))"
  "x_messageReducer (metered E) = map_option (\<lambda>f ms c. meter 0 0 (f ms c)) (x_messageReducer E)"
  "x_onTranscript (metered E) = map_option (\<lambda>f ms. meter 0 0 (f ms)) (x_onTranscript E)"
  "x_onSuspend (metered E) = map_option (\<lambda>f i ms so. meter 0 0 (f i ms so)) (x_onSuspend E)"
  "x_onCheckpoint (metered E) = map_option (\<lambda>f cp. meter 0 0 (f cp)) (x_onCheckpoint E)"
  by (simp_all add: metered_def counts_def probed_meter)

text \<open>What leaves the meter alone.\<close>

lemma publish_meter:
  "publishTranscript (metered E) st output x = (r, x') \<Longrightarrow> snd x' = snd x"
  "publishCheckpoint (metered E) st x = (r, x') \<Longrightarrow> snd x' = snd x"
  "publishInFlightCheckpoint (metered E) st x = (r, x') \<Longrightarrow> snd x' = snd x"
  by (auto simp: publishTranscript_def publishCheckpoint_def publishInFlightCheckpoint_def
        dest!: meter_eq split: option.splits bool.splits list.splits)+

lemma assertNotAborted_world: "assertNotAborted E x = (r, x') \<Longrightarrow> x' = x"
  by (auto simp: assertNotAborted_def split: if_splits)

lemma assertWithinBudget_world: "assertWithinBudget E st x = (r, x') \<Longrightarrow> x' = x"
  by (auto simp: assertWithinBudget_def split: if_splits option.splits
        dest: assertNotAborted_world elim!: and_then_elim)

lemma buildRequest_meter: "buildRequest (metered E) st x = (r, x') \<Longrightarrow> snd x' = snd x"
  by (auto simp: buildRequest_def projectMessages_def Let_def
        split: option.splits sum.splits dest!: meter_eq elim!: and_then_elim)

lemma rejectOutput_meter: "rejectOutput (metered E) st response x = (r, x') \<Longrightarrow> snd x' = snd x"
  by (auto simp: rejectOutput_def Let_def split: option.splits sum.splits if_splits
        dest: publish_meter elim!: and_then_elim)

lemma finish_meter: "finish_round (metered E) st response finished x = (r, x') \<Longrightarrow> snd x' = snd x"
  by (auto simp: finish_round_def split: if_splits
        dest!: publish_meter rejectOutput_meter elim!: and_then_elim)

section \<open>Tool executions of a round\<close>

text \<open>The executions a state may still pay for.\<close>

definition calls_left :: "'x xenv \<Rightarrow> ExecutionState \<Rightarrow> nat" where
  "calls_left E st = nat (l_maxToolCalls (x_limits E) - toolCallCount st)"

definition spends :: "'x metered \<Rightarrow> 'x metered \<Rightarrow> nat \<Rightarrow> bool" where
  "spends x x' n \<longleftrightarrow> fst (snd x') = fst (snd x) \<and> snd (snd x') \<le> snd (snd x) + n"

lemma spends_same: "snd x' = snd x \<Longrightarrow> spends x x' n"
  by (simp add: spends_def)

lemma sanitize_meter: "toFailurePayload (metered_tool tool) raw targs x = (message, x') \<Longrightarrow> snd x' = snd x"
  by (auto simp: toFailurePayload_def probed_tool_def probed_meter Let_def
        split: option.splits prod.splits sum.splits dest!: meter_eq)

lemma call_failed_meter:
  "call_failed E (metered_tool tool) call targs st events err x = (r, x') \<Longrightarrow> snd x' = snd x"
  by (auto simp: call_failed_def split: agent_error.splits if_splits prod.splits
        dest!: sanitize_meter assertNotAborted_world elim!: and_then_elim)

lemma run_call_count:
  "run_call E call st x = (Inr (st', events, stop), x') \<Longrightarrow>
     toolCallCount st' = toolCallCount st + 1 \<and> toolCallCount st < l_maxToolCalls (x_limits E)"
  by (frule run_call_cases)
     (auto simp: run_call_def and_then_Inr_iff split: if_splits elim!: run_call_cases)

text \<open>A call either touches nothing, or its tool is executed within the budget.\<close>

lemma run_call_executes:
  assumes "run_call E call st x = (r, x')"
  obtains (untouched) "x' = x"
  | (executed) tool targs res x1 st1 started where "tool \<in> set (x_tools E)"
      "toolCallCount st < l_maxToolCalls (x_limits E)"
      "rt_execute tool targs (Some (call_id call)) x = (res, x1)"
      "x' = x1 \<or> (\<exists>err. call_failed E tool call targs st1 started err x1 = (r, x'))"
proof (cases "find (\<lambda>t. rt_name t = call_name call) (x_tools E)")
  case None
  with assms untouched show ?thesis
    by (auto simp: run_call_def Let_def split: if_splits dest!: assertNotAborted_world elim!: and_then_elim)
next
  case (Some tool)
  let ?targs = "args (validateToolArgs (x_number E) (rt_parameters tool) (Some (call_args call)))"
  obtain res x1 where exec: "rt_execute tool ?targs (Some (call_id call)) x = (res, x1)"
    by (cases "rt_execute tool ?targs (Some (call_id call)) x")
  have "tool \<in> set (x_tools E)" using Some by (auto simp: find_Some_iff)
  moreover have "x' = x \<or> toolCallCount st < l_maxToolCalls (x_limits E) \<and>
      (x' = x1 \<or> (\<exists>err st1 started. call_failed E tool call ?targs st1 started err x1 = (r, x')))"
    using assms Some exec
    by (cases res)
       (auto simp: run_call_def Let_def split: if_splits dest!: assertNotAborted_world elim!: and_then_elim)
  ultimately show ?thesis using untouched executed exec by blast
qed

lemma run_call_spends:
  assumes "run_call (metered E) call st x = (r, x')"
  shows "spends x x' (if toolCallCount st < l_maxToolCalls (x_limits E) then 1 else 0)"
  using assms
proof (cases rule: run_call_executes)
  case (executed tool targs res x1 st1 started)
  then obtain t where t: "tool = metered_tool t" by auto
  with executed(3) have "snd x1 = (fst (snd x), snd (snd x) + 1)" by (auto dest!: meter_eq)
  moreover from executed(4) t have "snd x' = snd x1" by (auto dest: call_failed_meter)
  moreover note executed(2)
  ultimately show ?thesis by (simp add: spends_def)
qed (simp add: spends_same)

lemma run_calls_spends:
  "run_calls (metered E) calls st x = (r, x') \<Longrightarrow>
     spends x x' (calls_left E st) \<and>
     (\<forall>st' events stop. r = Inr (st', events, stop) \<longrightarrow>
        toolCallCount st \<le> toolCallCount st' \<and>
        spends x x' (calls_left E st - calls_left E st'))"
proof (induction calls arbitrary: st x r x')
  case Nil
  then show ?case by (auto simp: spends_same)
next
  case (Cons call calls)
  obtain r1 x1 where call: "run_call (metered E) call st x = (r1, x1)"
    by (cases "run_call (metered E) call st x")
  note first = run_call_spends [OF call]
  show ?case
  proof (cases r1)
    case (Inl e)
    with Cons.prems call first show ?thesis
      by (auto simp: spends_def calls_left_def split: if_splits)
  next
    case (Inr res)
    obtain st1 events1 stop1 where res: "res = (st1, events1, stop1)" by (cases res)
    note counted = run_call_count [OF call [unfolded Inr res]]
    obtain r2 x2 where rest: "run_calls (metered E) calls st1 x1 = (r2, x2)"
      by (cases "run_calls (metered E) calls st1 x1")
    from Cons.IH [OF rest] Cons.prems call first counted Inr res rest show ?thesis
      by (cases r2) (auto simp: spends_def calls_left_def split: if_splits)
  qed
qed

section \<open>Rounds and turns\<close>

lemma round_spends:
  assumes "applyModelRound (metered E) st response x = (r, x')"
  shows "spends x x' (calls_left E st)"
    and "r = Inr (st', events, finished) \<Longrightarrow> spends x x' (calls_left E st - calls_left E st') \<and>
      calls_left E st' \<le> calls_left E st"
  using assms
  by (auto simp: applyModelRound_def Let_def calls_left_def spends_same
        split: if_splits dest!: run_calls_spends)

lemma calls_left_simps [simp]:
  "calls_left E (st\<lparr>messages := ms\<rparr>) = calls_left E st"
  "calls_left E (st\<lparr>structured := v\<rparr>) = calls_left E st"
  "calls_left E (queue_repair answer is st) = calls_left E st"
  by (simp_all add: calls_left_def queue_repair_def)

lemma finish_calls_left:
  "finish_round E st response finished x = (Inr (Again st'), x') \<Longrightarrow> calls_left E' st' = calls_left E' st"
  by (auto simp: finish_round_def and_then_Inr_iff split: if_splits dest!: rejectOutput_state)

lemma run_round_spends:
  assumes "run_round (metered E) st x = (r, x')"
  shows "fst (snd x') \<le> fst (snd x) + (if int (iteration st) < l_maxIterations (x_limits E) then 1 else 0)"
    and "snd (snd x') \<le> snd (snd x) + calls_left E st"
    and "r = Inr (Again st') \<Longrightarrow> snd (snd x') + calls_left E st' \<le> snd (snd x) + calls_left E st"
proof -
  have *: "fst (snd x') \<le> fst (snd x) + (if int (iteration st) < l_maxIterations (x_limits E) then 1 else 0) \<and>
      snd (snd x') \<le> snd (snd x) + calls_left E st \<and>
      (r = Inr (Again st') \<longrightarrow> snd (snd x') + calls_left E st' \<le> snd (snd x) + calls_left E st)"
  proof -
    obtain b x0 where Pair: "assertWithinBudget (metered E) st x = (b, x0)"
      by (cases "assertWithinBudget (metered E) st x")
    then have x0: "x0 = x" by (rule assertWithinBudget_world)
    show ?thesis
    proof (cases b)
      case (Inl e)
      with assms Pair x0 show ?thesis by (auto simp: run_round_def)
    next
      case (Inr u)
      with Pair assertWithinBudget_iteration have within: "int (iteration st) < l_maxIterations (x_limits E)"
        by fastforce
      obtain q x1 where build: "buildRequest (metered E) st x = (q, x1)" by (cases "buildRequest (metered E) st x")
      note b = buildRequest_meter [OF build]
      show ?thesis
      proof (cases q)
        case (Inl e)
        with assms Pair x0 \<open>b = Inr u\<close> build b within show ?thesis by (auto simp: run_round_def)
      next
        case (Inr req_st)
        obtain req st1 where req_st: "req_st = (req, st1)" by (cases req_st)
        with Inr have q: "q = Inr (req, st1)" by simp
        from buildRequest_state [OF build [unfolded q]] obtain ms where st1: "st1 = st\<lparr>messages := ms\<rparr>" ..
        obtain g x2 where gen: "x_generate (metered E) req x1 = (g, x2)" by (cases "x_generate (metered E) req x1")
        then have g: "snd x2 = (fst (snd x1) + 1, snd (snd x1))" by (auto dest!: meter_eq)
        show ?thesis
        proof (cases g)
          case (Inl e)
          with assms Pair x0 \<open>b = Inr u\<close> build b q st1 gen g within show ?thesis by (auto simp: run_round_def)
        next
          case (Inr response)
          obtain a x3 where round: "applyModelRound (metered E) st1 response x2 = (a, x3)"
            by (cases "applyModelRound (metered E) st1 response x2")
          note rs = round_spends [OF round]
          note known = assms Pair x0 \<open>b = Inr u\<close> build b q st1 gen g Inr round within
          show ?thesis
          proof (cases a)
            case (Inl e)
            with known rs(1) show ?thesis by (auto simp: run_round_def spends_def)
          next
            case (Inr out)
            obtain st2 events finished where out: "out = (st2, events, finished)" by (cases out)
            with known \<open>a = Inr out\<close> have finish: "finish_round (metered E) st2 response finished x3 = (r, x')"
              by (simp add: run_round_def)
            have "r = Inr (Again st') \<Longrightarrow> calls_left E st' = calls_left E st2"
              using finish by (auto intro: finish_calls_left)
            with finish_meter [OF finish] rs(1) rs(2) [of st2 events finished] \<open>a = Inr out\<close> out known
            show ?thesis by (auto simp: spends_def)
          qed
        qed
      qed
    qed
  qed
  from * show "fst (snd x') \<le> fst (snd x) + (if int (iteration st) < l_maxIterations (x_limits E) then 1 else 0)"
    "snd (snd x') \<le> snd (snd x) + calls_left E st" by blast+
  from * show "r = Inr (Again st') \<Longrightarrow> snd (snd x') + calls_left E st' \<le> snd (snd x) + calls_left E st" by blast
qed

text \<open>
  C8: A turn stays within its budgets. However the model, the tools, the rails, the reducer and
  the callbacks behave, and whether the turn answers, suspends or fails, it calls the model
  at most as often as iterations are left, and executes tools at most as often as tool calls
  are left. (The loop is a total function: no turn goes on for ever.)
\<close>

theorem turn_within_budget:
  assumes "run_loop (metered E) st (x, 0, 0) = (out, (x', model_calls, tool_runs))"
  shows "model_calls \<le> nat (l_maxIterations (x_limits E) - int (iteration st)) \<and>
    tool_runs \<le> nat (l_maxToolCalls (x_limits E) - toolCallCount st)"
proof -
  define P where "P st1 y \<longleftrightarrow> iteration st + fst (snd y) \<le> iteration st1 \<and>
    (fst (snd y) = 0 \<or> int (iteration st1) \<le> l_maxIterations (x_limits E)) \<and>
    snd (snd y) + calls_left E st1 \<le> calls_left E st" for st1 and y :: "'a metered"
  have start: "P st (x, 0, 0)" by (simp add: P_def)
  have preserved: "P st2 y2" if "P st1 y1" "run_round (metered E) st1 y1 = (Inr (Again st2), y2)" for st1 y1 st2 y2
  proof -
    from run_round_iteration [OF that(2)] have "iteration st2 = Suc (iteration st1)"
      "int (iteration st1) < l_maxIterations (x_limits E)" by simp_all
    with that(1) run_round_spends(1) [OF that(2)] run_round_spends(3) [OF that(2) refl]
    show ?thesis by (simp add: P_def)
  qed
  have last: ?thesis if "P st1 y1" "run_round (metered E) st1 y1 = (r, (x', model_calls, tool_runs))" for st1 y1 r
    using that(1) run_round_spends(1,2) [OF that(2)]
    by (auto simp: P_def calls_left_def split: if_splits)
  from assms start show ?thesis
    by (rule run_loop_ends [where P = P]) (erule (1) preserved, (erule (1) last)+)
qed

text \<open>A tool that always works, a model that never stops asking for it.\<close>

definition busy_tool :: "unit ResolvedTool" where
  "busy_tool = \<lparr>rt_name = ''t'', rt_description = [], rt_parameters = [], rt_sanitize = None,
     rt_execute = (\<lambda>_ _ x. (Inr (Success JNull None), x))\<rparr>"

definition sample_turn :: "unit xenv" where
  "sample_turn = \<lparr>x_sessionId = ''s'', x_model = ''m'', x_tools = [busy_tool], x_traceId = None,
     x_pendingApprovalToolCallId = None, x_structuredOutput = None,
     x_limits = resolveLimits (Some \<lparr>maxIterations = Some 2, maxToolCalls = None, timeoutMs = None,
       maxTotalTokens = None\<rparr>),
     x_toolErrorHandling = ReportErrors, x_adapterAvailable = True,
     x_generate = (\<lambda>req x. (Inr \<lparr>rs_content = ''on it'',
       rs_toolCalls = Some [\<lparr>call_id = ''c'', call_name = ''t'', call_args = []\<rparr>], rs_usage = None,
       rs_refusal = JUndef\<rparr>, x)),
     x_stream = None, x_supportsStructuredOutput = True, x_messageReducer = None, x_onTranscript = None,
     x_onSuspend = None, x_onCheckpoint = None, x_aborted = (\<lambda>_. False), x_timedOut = (\<lambda>_. False),
     x_now = (\<lambda>_. []), x_so = sample_so, x_number = plain_number\<rparr>"

theorem turn_within_budget_witness:
  "\<exists>out x' m t. run_loop (metered sample_turn) (createState ''e'' None None ''hello'') ((), 0, 0) = (out, (x', m, t)) \<and>
     m \<le> 2 \<and> t \<le> 32"
proof -
  let ?st = "createState ''e'' None None ''hello''"
  obtain out x' m t where run: "run_loop (metered sample_turn) ?st ((), 0, 0) = (out, (x', m, t))"
    by (metis prod.collapse)
  have "iteration ?st = 0" "toolCallCount ?st = 0" by (simp_all add: createState_def new_state_def)
  with turn_within_budget [OF run] run show ?thesis
    by (auto simp: sample_turn_def resolveLimits_def DEFAULT_MAX_TOOL_CALLS_def)
qed

end
