(* ===== verification/Turn_Transcript.thy ===== *)
theory Turn_Transcript
  imports Turn_Budget
begin

text \<open>
  The conversation of a turn: every tool call an assistant message makes is answered by tool
  messages right after it, in order, in everything the turn sends to the model, checkpoints
  or persists; a turn that suspends stops inside the group of the call it withholds.
\<close>

section \<open>Answered conversations\<close>

definition reply_to :: "ModelMessage \<Rightarrow> string option" where
  "reply_to m = (case m of ToolMsg i _ _ _ \<Rightarrow> Some i | _ \<Rightarrow> None)"

definition answered :: "ModelToolCall list \<Rightarrow> ModelMessage list \<Rightarrow> bool" where
  "answered calls tms \<longleftrightarrow> map reply_to tms = map (\<lambda>c. Some (call_id c)) calls"

function complete :: "ModelMessage list \<Rightarrow> bool" where
  "complete [] = True"
| "complete (m # ms) =
     (\<not> is_tool m \<and> answered (calls_of m) (take (length (calls_of m)) ms) \<and>
      complete (drop (length (calls_of m)) ms))"
  by pat_completeness auto
termination by (relation "measure length") auto

lemma answered_length: "answered calls tms \<Longrightarrow> length tms = length calls"
  by (auto simp: answered_def dest: map_eq_imp_length_eq)

lemma answered_Nil [simp]: "answered [] tms \<longleftrightarrow> tms = []" "answered calls [] \<longleftrightarrow> calls = []"
  by (auto simp: answered_def)

lemma complete_append: "complete a \<Longrightarrow> complete b \<Longrightarrow> complete (a @ b)"
proof (induction a rule: complete.induct)
  case (2 m ms)
  let ?n = "length (calls_of m)"
  from 2 have "length (take ?n ms) = ?n" by (auto dest: answered_length)
  then have "?n \<le> length ms" by simp
  with 2 show ?case by simp
qed simp

lemma complete_group: "answered calls tms \<Longrightarrow> complete (AssistantMsg c (Some calls) # tms)"
  by (frule answered_length) simp

lemma complete_plain: "\<not> is_tool m \<Longrightarrow> calls_of m = [] \<Longrightarrow> complete ms \<Longrightarrow> complete (m # ms)"
  by simp

text \<open>A suspended conversation ends inside the group of the withheld call.\<close>

definition withheld_at :: "ModelMessage list \<Rightarrow> bool" where
  "withheld_at ms \<longleftrightarrow>
     (\<exists>pre c calls tms. ms = pre @ AssistantMsg c (Some calls) # tms \<and> complete pre \<and> tms \<noteq> [] \<and>
        length tms \<le> length calls \<and> answered (take (length tms) calls) tms)"

section \<open>Tool calls of a round\<close>

lemma pushToolMessage_messages:
  "messages (pushToolMessage E call payload prov st) =
     messages st @ [ToolMsg (call_id call) (call_name call) (txt_of (x_number E) payload) prov]"
  by (simp add: pushToolMessage_def)

lemma call_returned_state:
  assumes "call_returned E tool call targs st events r = (st', events', stop)"
  shows "\<exists>t. messages st' = messages st @ [t] \<and> reply_to t = Some (call_id call)"
    and "suspended st' = (stop \<or> suspended st)" and "repair st' = repair st"
    and "repairAttempts st' = repairAttempts st" and "structured st' = structured st"
  using assms
  by (auto simp: call_returned_def Let_def pushToolMessage_messages reply_to_def
        split: ToolExecutionResult.splits)

lemma run_call_answers:
  assumes "run_call E call st x = (Inr (st', events, stop), x')"
  shows "(\<exists>t. messages st' = messages st @ [t] \<and> reply_to t = Some (call_id call)) \<and>
    suspended st' = (stop \<or> suspended st) \<and> repair st' = repair st"
  using assms
proof (cases rule: run_call_cases)
  case (returned tool targs result' started)
  from call_returned_state [OF returned(4)] show ?thesis by simp
qed (auto simp: pushToolMessage_messages reply_to_def)

lemma run_calls_answer:
  "run_calls E calls st x = (Inr (st', events, stop), x') \<Longrightarrow>
     \<exists>tms. messages st' = messages st @ tms \<and> answered (take (length tms) calls) tms \<and>
       length tms \<le> length calls \<and> (\<not> stop \<longrightarrow> length tms = length calls) \<and> (stop \<longrightarrow> tms \<noteq> []) \<and>
       suspended st' = (stop \<or> suspended st) \<and> repair st' = repair st"
proof (induction calls arbitrary: st x events stop)
  case Nil
  then show ?case by (auto simp: answered_def)
next
  case (Cons call calls)
  from Cons.prems obtain st1 e1 stop1 x1 where call: "run_call E call st x = (Inr (st1, e1, stop1), x1)"
    and rest: "stop1 \<and> st' = st1 \<and> stop \<or>
      \<not> stop1 \<and> (\<exists>e2. run_calls E calls st1 x1 = (Inr (st', e2, stop), x'))"
    by (auto simp: and_then_Inr_iff split: if_splits)
  from run_call_answers [OF call] obtain t where t: "messages st1 = messages st @ [t]"
    "reply_to t = Some (call_id call)" "suspended st1 = (stop1 \<or> suspended st)" "repair st1 = repair st"
    by blast
  show ?case
  proof (cases stop1)
    case True
    with rest t show ?thesis by (intro exI [of _ "[t]"]) (auto simp: answered_def)
  next
    case False
    with rest obtain e2 where "run_calls E calls st1 x1 = (Inr (st', e2, stop), x')" by blast
    from Cons.IH [OF this] obtain tms where tms: "messages st' = messages st1 @ tms"
      "answered (take (length tms) calls) tms" "length tms \<le> length calls"
      "\<not> stop \<longrightarrow> length tms = length calls" "stop \<longrightarrow> tms \<noteq> []"
      "suspended st' = (stop \<or> suspended st1)" "repair st' = repair st1" by blast
    with t False show ?thesis
      by (intro exI [of _ "t # tms"]) (auto simp: answered_def)
  qed
qed

text \<open>What a model round leaves in the conversation.\<close>

lemma round_conversation:
  assumes "applyModelRound E st response x = (Inr (st', events, finished), x')"
    and "complete (messages st)" and "complete (repair st)" and "\<not> suspended st"
  shows "if suspended st' then finished \<and> withheld_at (messages st')
    else complete (messages st') \<and> complete (repair st')"
proof (cases "nullish (rs_toolCalls response) [] = []")
  case True
  with assms show ?thesis by (auto simp: applyModelRound_def Let_def)
next
  case False
  let ?calls = "nullish (rs_toolCalls response) []"
  let ?pre = "messages st @ repair st"
  define st1 where "st1 = accumulateUsage (rs_usage response) (st\<lparr>iteration := Suc (iteration st)\<rparr>)
    \<lparr>messages := ?pre @ [AssistantMsg (rs_content response) (Some ?calls)], repair := []\<rparr>"
  have st1: "messages st1 = ?pre @ [AssistantMsg (rs_content response) (Some ?calls)]"
    "suspended st1 = suspended st" "repair st1 = []"
    by (simp_all add: st1_def)
  have run: "run_calls E ?calls st1 x = (Inr (st', events, finished), x')"
    using False assms(1) by (simp add: applyModelRound_def Let_def st1_def)
  from run_calls_answer [OF run] st1 obtain tms where tms:
    "messages st' = ?pre @ AssistantMsg (rs_content response) (Some ?calls) # tms"
    "answered (take (length tms) ?calls) tms" "length tms \<le> length ?calls"
    "\<not> finished \<longrightarrow> length tms = length ?calls" "finished \<longrightarrow> tms \<noteq> []"
    "suspended st' = (finished \<or> suspended st)" "repair st' = []" by auto
  have pre: "complete ?pre" using assms(2,3) by (rule complete_append)
  show ?thesis
  proof (cases finished)
    case True
    have "withheld_at (messages st')"
      unfolding withheld_at_def using tms pre True by blast
    with tms True show ?thesis by simp
  next
    case False
    with tms have "answered ?calls tms" by simp
    with tms pre False assms(4) show ?thesis
      using complete_append [OF pre complete_group] by simp
  qed
qed

section \<open>A logged turn\<close>

datatype seen =
    Sent "ModelMessage list"
  | Published "ModelMessage list"
  | Withheld "ModelMessage list"
  | Saved "ModelMessage list"

definition logger :: "seen list probe" where
  "logger = \<lparr>on_generate = (\<lambda>req l. l @ [Sent (mr_messages req)]), on_execute = (\<lambda>_ _ l. l),
     on_transcript = (\<lambda>ms l. l @ [Published ms]), on_suspend = (\<lambda>_ ms l. l @ [Withheld ms]),
     on_checkpoint = (\<lambda>cp l. l @ [Saved (cv_messages cp @ nullish (cv_repair cp) [])])\<rparr>"

definition logged :: "'x xenv \<Rightarrow> ('x \<times> seen list) xenv" where
  "logged E = instrument logger E"

lemma logger_simps [simp]:
  "on_generate logger req l = l @ [Sent (mr_messages req)]" "on_execute logger n a l = l"
  "on_transcript logger ms l = l @ [Published ms]" "on_suspend logger i ms l = l @ [Withheld ms]"
  "on_checkpoint logger cp l = l @ [Saved (cv_messages cp @ nullish (cv_repair cp) [])]"
  by (simp_all add: logger_def)

lemma logged_fields [simp]:
  "x_limits (logged E) = x_limits E" "x_tools (logged E) = map (probed_tool logger) (x_tools E)"
  "x_generate (logged E) = (\<lambda>req. probed (on_generate logger req) (x_generate E req))"
  "x_messageReducer (logged E) = map_option (\<lambda>f ms c. probed id (f ms c)) (x_messageReducer E)"
  "x_onTranscript (logged E) = map_option (\<lambda>f ms. probed (on_transcript logger ms) (f ms)) (x_onTranscript E)"
  "x_onSuspend (logged E) = map_option (\<lambda>f i ms so. probed (on_suspend logger i ms) (f i ms so)) (x_onSuspend E)"
  "x_onCheckpoint (logged E) = map_option (\<lambda>f cp. probed (on_checkpoint logger cp) (f cp)) (x_onCheckpoint E)"
  "x_structuredOutput (logged E) = x_structuredOutput E"
  "x_supportsStructuredOutput (logged E) = x_supportsStructuredOutput E"
  by (simp_all add: logged_def)

lemma sanitize_log: "toFailurePayload (probed_tool logger tool) raw targs x = (message, x') \<Longrightarrow> snd x' = snd x"
  by (auto simp: toFailurePayload_def probed_tool_def Let_def
        split: option.splits prod.splits sum.splits dest!: probed_eq)

lemma call_failed_log:
  "call_failed E (probed_tool logger tool) call targs st events err x = (r, x') \<Longrightarrow> snd x' = snd x"
  by (auto simp: call_failed_def split: agent_error.splits if_splits prod.splits
        dest!: sanitize_log assertNotAborted_world elim!: and_then_elim)

lemma run_call_log: "run_call (logged E) call st x = (r, x') \<Longrightarrow> snd x' = snd x"
proof (erule run_call_executes)
  fix tool targs res x1 st1 started
  assume "tool \<in> set (x_tools (logged E))"
    and exec: "rt_execute tool targs (Some (call_id call)) x = (res, x1)"
    and after: "x' = x1 \<or> (\<exists>err. call_failed (logged E) tool call targs st1 started err x1 = (r, x'))"
  then obtain t where t: "tool = probed_tool logger t" by auto
  with exec have "snd x1 = snd x" by (auto simp: probed_tool_def dest!: probed_eq)
  moreover from after t have "snd x' = snd x1" by (auto dest: call_failed_log)
  ultimately show "snd x' = snd x" by simp
qed simp

lemma run_calls_log: "run_calls (logged E) calls st x = (r, x') \<Longrightarrow> snd x' = snd x"
proof (induction calls arbitrary: st x r x')
  case (Cons call calls)
  from Cons.prems show ?case
    by (auto split: if_splits dest!: run_call_log Cons.IH elim!: and_then_elim)
qed simp

lemma round_log: "applyModelRound (logged E) st response x = (r, x') \<Longrightarrow> snd x' = snd x"
  by (auto simp: applyModelRound_def Let_def split: if_splits dest: run_calls_log)

section \<open>What the outside sees\<close>

definition closes_withheld :: "ModelMessage list \<Rightarrow> bool" where
  "closes_withheld ms \<longleftrightarrow>
     (\<exists>w. withheld_at w \<and> (ms = w \<or> (\<exists>answer. ms = w @ [AssistantMsg answer None])))"

fun fine :: "seen \<Rightarrow> bool" where
  "fine (Sent ms) = complete ms"
| "fine (Saved ms) = complete ms"
| "fine (Withheld ms) = withheld_at ms"
| "fine (Published ms) = (complete ms \<or> closes_withheld ms)"

definition good_state :: "ExecutionState \<Rightarrow> bool" where
  "good_state st \<longleftrightarrow> (if suspended st then withheld_at (messages st)
     else complete (messages st) \<and> complete (repair st))"

lemma complete_answered: "complete ms \<Longrightarrow> complete (ms @ (if answer = [] then [] else [AssistantMsg answer None]))"
  by (auto intro!: complete_append)

lemma complete_repair_round: "complete (repair st) \<Longrightarrow> complete (repair (queue_repair answer is st))"
  by (auto simp: queue_repair_def intro!: complete_append)

lemma publishTranscript_log:
  assumes "publishTranscript (logged E) st answer x = (r, x')" and "good_state st" and "list_all fine (snd x)"
  shows "list_all fine (snd x')"
proof -
  have "fine (Published (messages st @ (if answer = [] then [] else [AssistantMsg answer None])))"
  proof (cases "suspended st")
    case True
    with assms(2) show ?thesis by (auto simp: good_state_def closes_withheld_def)
  next
    case False
    with assms(2) show ?thesis by (simp add: good_state_def complete_answered del: complete.simps)
  qed
  with assms(1,3) show ?thesis
    by (auto simp: publishTranscript_def split: option.splits dest!: probed_eq)
qed

lemma publishCheckpoint_log:
  assumes "publishCheckpoint (logged E) st x = (r, x')" and "good_state st" and "list_all fine (snd x)"
  shows "list_all fine (snd x')"
  using assms
  by (auto simp: publishCheckpoint_def good_state_def
        split: option.splits bool.splits list.splits dest!: probed_eq)

lemma publishInFlight_log:
  assumes "publishInFlightCheckpoint (logged E) st x = (r, x')" and "good_state st" and "\<not> suspended st"
    and "list_all fine (snd x)"
  shows "list_all fine (snd x')"
  using assms
  by (auto simp: publishInFlightCheckpoint_def checkpoint_of_def good_state_def intro: complete_append
        split: option.splits dest!: probed_eq)

lemma rejectOutput_log:
  assumes "rejectOutput (logged E) st response x = (r, x')" and "good_state st" and "list_all fine (snd x)"
  shows "list_all fine (snd x')" and "r = Inr (rejected, st') \<Longrightarrow> good_state st' \<and> suspended st' = suspended st \<and>
    (rejected \<noteq> None \<longrightarrow> \<not> suspended st')"
proof -
  show "list_all fine (snd x')"
    using assms
    by (auto simp: rejectOutput_def Let_def split: option.splits sum.splits if_splits
          dest: publishTranscript_log elim!: and_then_elim)
  assume "r = Inr (rejected, st')"
  with assms(1) have "rejectOutput (logged E) st response x = (Inr (rejected, st'), x')" by simp
  from rejectOutput_state [OF this]
  have "rejected = None \<and> (st' = st \<or> (\<exists>v. st' = st\<lparr>structured := Some v\<rparr>)) \<or>
    (\<exists>is. rejected = Some is \<and> st' = queue_repair (rs_content response) is st \<and> \<not> suspended st)"
    using assms(1) \<open>r = Inr (rejected, st')\<close>
    by (auto simp: rejectOutput_def Let_def split: option.splits sum.splits if_splits elim!: and_then_elim)
  with assms(2) show "good_state st' \<and> suspended st' = suspended st \<and> (rejected \<noteq> None \<longrightarrow> \<not> suspended st')"
    by (auto simp: good_state_def complete_repair_round)
      (auto simp: queue_repair_def)
qed

lemma finish_log:
  assumes "finish_round (logged E) st response finished x = (r, x')" and "good_state st"
    and "suspended st \<longrightarrow> finished" and "list_all fine (snd x)"
  shows "list_all fine (snd x') \<and> (\<forall>st'. r = Inr (Again st') \<longrightarrow> good_state st' \<and> \<not> suspended st')"
proof (cases finished)
  case False
  with assms show ?thesis
    by (auto simp: finish_round_def dest: publishInFlight_log elim!: and_then_elim)
next
  case True
  obtain q x1 where rej: "rejectOutput (logged E) st response x = (q, x1)"
    by (cases "rejectOutput (logged E) st response x")
  note log1 = rejectOutput_log(1) [OF rej assms(2,4)]
  show ?thesis
  proof (cases q)
    case (Inl e)
    with assms(1) True rej log1 show ?thesis by (auto simp: finish_round_def)
  next
    case (Inr p)
    obtain rejected st1 where p: "p = (rejected, st1)" by (cases p)
    from rejectOutput_log(2) [OF rej assms(2,4)] Inr p
    have st1: "good_state st1" "rejected \<noteq> None \<longrightarrow> \<not> suspended st1" by auto
    from assms(1) True rej Inr p log1 st1 show ?thesis
      by (auto simp: finish_round_def split: if_splits
            dest: publishInFlight_log publishCheckpoint_log publishTranscript_log elim!: and_then_elim)
  qed
qed

lemma complete_instructed: "complete ms \<Longrightarrow> complete (withSystemInstruction ms instruction)"
  by (auto simp: withSystemInstruction_def split: list.splits ModelMessage.splits)

lemma request_complete:
  assumes "buildRequest (logged E) st x = (Inr (request, st'), x')" and "x_messageReducer E = None"
    and "complete (messages st)" "complete (repair st)"
  shows "st' = st \<and> x' = x \<and> complete (mr_messages request)"
proof -
  have "complete (messages st @ repair st)" using assms(3,4) by (rule complete_append)
  with assms(1,2) show ?thesis
    by (auto simp: buildRequest_def projectMessages_def Let_def complete_instructed
          split: option.splits)
qed

lemma run_round_log:
  assumes "run_round (logged E) st x = (r, x')" and "x_messageReducer E = None"
    and "good_state st" and "\<not> suspended st" and "list_all fine (snd x)"
  shows "list_all fine (snd x') \<and> (\<forall>st'. r = Inr (Again st') \<longrightarrow> good_state st' \<and> \<not> suspended st')"
proof -
  note run = assms(1) [unfolded run_round_def]
  have parts: "complete (messages st)" "complete (repair st)" using assms(3,4) by (simp_all add: good_state_def)
  obtain b where budget: "assertWithinBudget (logged E) st x = (b, x)"
    using assertWithinBudget_world by (cases "assertWithinBudget (logged E) st x") fastforce
  show ?thesis
  proof (cases b)
    case (Inl e)
    with run budget assms(5) show ?thesis by auto
  next
    case (Inr u)
    obtain q x1 where build: "buildRequest (logged E) st x = (q, x1)" by (cases "buildRequest (logged E) st x")
    obtain request where q: "q = Inr (request, st)" "x1 = x" "complete (mr_messages request)"
    proof (cases q)
      case (Inl e)
      with build assms(2) show ?thesis
        by (auto simp: buildRequest_def projectMessages_def Let_def)
    next
      case (Inr p)
      with build request_complete [OF _ assms(2) parts] that show ?thesis by (cases p) blast
    qed
    obtain g x2 where gen: "x_generate (logged E) request x = (g, x2)"
      by (cases "x_generate (logged E) request x")
    with q assms(5) have log2: "list_all fine (snd x2)" by (auto dest!: probed_eq)
    show ?thesis
    proof (cases g)
      case (Inl e)
      with run budget \<open>b = Inr u\<close> build q gen log2 show ?thesis by auto
    next
      case (Inr response)
      obtain a x3 where round: "applyModelRound (logged E) st response x2 = (a, x3)"
        by (cases "applyModelRound (logged E) st response x2")
      note log3 = round_log [OF round]
      show ?thesis
      proof (cases a)
        case (Inl e)
        with run budget \<open>b = Inr u\<close> build q gen Inr round log2 log3 show ?thesis by auto
      next
        case (Inr out)
        obtain st3 events finished where out: "out = (st3, events, finished)" by (cases out)
        from round_conversation [OF round [unfolded Inr out] parts assms(4)]
        have "good_state st3" "suspended st3 \<longrightarrow> finished" by (auto simp: good_state_def split: if_splits)
        moreover have "finish_round (logged E) st3 response finished x3 = (r, x')"
          using run budget \<open>b = Inr u\<close> build q gen \<open>g = Inr response\<close> round Inr out by simp
        moreover have "list_all fine (snd x3)" using log2 log3 by simp
        ultimately show ?thesis using finish_log by blast
      qed
    qed
  qed
qed



end
