(* ===== verification/Turn_Outcome.thy ===== *)
theory Turn_Outcome
  imports Turn_Budget
begin

text \<open>
  How a turn ends: the answer of a turn with an output schema, a turn recovered from an
  in-flight checkpoint, and the streaming loop against the plain one.
\<close>

section \<open>Suspension\<close>

definition pending_last :: "ToolCallRecord list \<Rightarrow> bool" where
  "pending_last rs \<longleftrightarrow>
     rs \<noteq> [] \<and> (\<exists>why i req sg. tc_result (last rs) = Completed (PendingResult why i req sg))"

lemma run_call_suspends:
  assumes "run_call E call st x = (Inr (st', events, stop), x')"
  shows "suspended st' = (stop \<or> suspended st) \<and> (stop \<longrightarrow> pending_last (toolCallRecords st')) \<and>
    (\<exists>new. toolCallRecords st' = toolCallRecords st @ new \<and> (stop \<longrightarrow> new \<noteq> []))"
  using assms
proof (cases rule: run_call_cases)
  case (returned tool targs result' started)
  from returned(4) show ?thesis
    by (auto simp: call_returned_def Let_def pending_last_def split: ToolExecutionResult.splits)
qed auto

lemma run_calls_suspend:
  "run_calls E calls st x = (Inr (st', events, stop), x') \<Longrightarrow>
     suspended st' = (stop \<or> suspended st) \<and> (stop \<longrightarrow> pending_last (toolCallRecords st')) \<and>
     (\<exists>new. toolCallRecords st' = toolCallRecords st @ new \<and> (stop \<longrightarrow> new \<noteq> []))"
proof (induction calls arbitrary: st x events stop)
  case (Cons call calls)
  from Cons.prems obtain st1 e1 stop1 x1 where call: "run_call E call st x = (Inr (st1, e1, stop1), x1)"
    and rest: "stop1 \<and> st' = st1 \<and> stop \<or>
      \<not> stop1 \<and> (\<exists>e2. run_calls E calls st1 x1 = (Inr (st', e2, stop), x'))"
    by (auto simp: and_then_Inr_iff split: if_splits)
  with run_call_suspends [OF call] show ?case
    by (fastforce dest: Cons.IH)
qed simp

lemma round_suspends:
  assumes "applyModelRound E st response x = (Inr (st', events, finished), x')" and "\<not> suspended st"
  shows "(suspended st' \<longrightarrow> finished \<and> pending_last (toolCallRecords st')) \<and>
    (\<exists>new. toolCallRecords st' = toolCallRecords st @ new \<and> (suspended st' \<longrightarrow> new \<noteq> []))"
  using assms
  by (auto simp: applyModelRound_def Let_def split: if_splits dest!: run_calls_suspend)

lemma rejectOutput_suspended:
  assumes "rejectOutput E st response x = (Inr (rejected, st'), x')"
  shows "suspended st' = suspended st \<and> (rejected \<noteq> None \<longrightarrow> \<not> suspended st)"
  using assms
  by (auto simp: rejectOutput_def Let_def queue_repair_def
        split: option.splits sum.splits if_splits elim!: and_then_elim)

lemma finish_unsuspended:
  assumes "finish_round E st response finished x = (Inr (Again st'), x')" and "suspended st \<longrightarrow> finished"
  shows "\<not> suspended st'"
  using assms
  by (auto simp: finish_round_def and_then_Inr_iff split: if_splits dest: rejectOutput_suspended)

lemma run_round_steps:
  assumes "run_round E st x = (Inr out, x')"
  obtains request st1 x1 response x2 st2 events finished x3 where
    "assertWithinBudget E st x = (Inr (), x)" "buildRequest E st x = (Inr (request, st1), x1)"
    "x_generate E request x1 = (Inr response, x2)"
    "applyModelRound E st1 response x2 = (Inr (st2, events, finished), x3)"
    "finish_round E st2 response finished x3 = (Inr out, x')"
proof -
  from assms obtain x0 where "assertWithinBudget E st x = (Inr (), x0)"
    by (auto simp: run_round_def and_then_Inr_iff)
  moreover from assertWithinBudget_world [OF this] have "x0 = x" .
  ultimately show ?thesis using assms that
    by (fastforce simp: run_round_def and_then_Inr_iff)
qed

lemma run_round_unsuspended:
  assumes "run_round E st x = (Inr (Again st'), x')" and "\<not> suspended st"
  shows "\<not> suspended st'"
proof -
  from assms(1) obtain request st1 x1 response x2 st2 events finished x3 where
    build: "buildRequest E st x = (Inr (request, st1), x1)" and
    model: "applyModelRound E st1 response x2 = (Inr (st2, events, finished), x3)" and
    finish: "finish_round E st2 response finished x3 = (Inr (Again st'), x')"
    by (rule run_round_steps)
  from build assms(2) have "\<not> suspended st1" by (auto dest!: buildRequest_state)
  from round_suspends [OF model this] finish_unsuspended [OF finish] show ?thesis by blast
qed

section \<open>Validated answers\<close>

lemma finish_checked:
  assumes "finish_round E st response finished x = (Inr (Done r), x')"
    and "x_structuredOutput E = Some spec" and "\<not> suspended st"
  shows "\<exists>v. ar_structured r = Some v \<and> checkStructuredOutput (x_so E) spec (ar_output r) = Inr (Inr v)"
  using assms
  by (auto simp: finish_round_def and_then_Inr_iff rejectOutput_def Let_def toResult_def resolveOutput_def
        split: if_splits option.splits sum.splits)

lemma finish_records:
  assumes "finish_round E st response finished x = (Inr (Done r), x')"
  shows "ar_toolCalls r = toolCallRecords st"
proof -
  have "toolCallRecords st' = toolCallRecords st"
    if "rejectOutput E st response x = (Inr (rejected, st'), x1)" for rejected st' x1
    using rejectOutput_state [OF that] by (auto simp: queue_repair_def)
  with assms show ?thesis
    by (auto simp: finish_round_def and_then_Inr_iff toResult_def split: if_splits)
qed

text \<open>
  C10: A turn with an output schema never hands out an answer that does not conform. Whatever it
  returns has been accepted by the check of the schema, with the value it parsed to, unless
  the turn is suspended on a tool call that awaits approval.
\<close>

theorem returned_answer_is_checked:
  assumes "run_loop E st x = (Inr r, x')" and "x_structuredOutput E = Some spec" and "\<not> suspended st"
  shows "pending_last (ar_toolCalls r) \<or>
    (\<exists>v. ar_structured r = Some v \<and> checkStructuredOutput (x_so E) spec (ar_output r) = Inr (Inr v))"
proof -
  have final: ?thesis if not: "\<not> suspended st1" and round: "run_round E st1 x1 = (Inr (Done r), x')" for st1 x1
  proof -
    from round obtain request st2 x1' response x2 st3 events finished x3 where
      build: "buildRequest E st1 x1 = (Inr (request, st2), x1')" and
      model: "applyModelRound E st2 response x2 = (Inr (st3, events, finished), x3)" and
      finish: "finish_round E st3 response finished x3 = (Inr (Done r), x')"
      by (rule run_round_steps)
    from build not have "\<not> suspended st2" by (auto dest!: buildRequest_state)
    from round_suspends [OF model this] finish_records [OF finish] finish_checked [OF finish assms(2)]
    show ?thesis by auto
  qed
  from assms(1,3) show ?thesis
  proof (rule run_loop_ends [where P = "\<lambda>st _. \<not> suspended st"])
    fix st0 x0 r0
    assume "\<not> suspended st0" "run_round E st0 x0 = (Inr (Done r0), x')" "Inr r = Inr r0"
    then show ?thesis using final by simp
  qed (auto dest: run_round_unsuspended)
qed

section \<open>Recovered turns\<close>

text \<open>
  A state that has further tool call records in front behaves the same: the records are only
  reported, and only the last one is ever read.
\<close>

definition recorded :: "ToolCallRecord list \<Rightarrow> ExecutionState \<Rightarrow> ExecutionState" where
  "recorded rs st = st\<lparr>toolCallRecords := rs @ toolCallRecords st\<rparr>"

lemma recorded_simps [simp]:
  "messages (recorded rs st) = messages st" "iteration (recorded rs st) = iteration st"
  "usage (recorded rs st) = usage st" "toolCallCount (recorded rs st) = toolCallCount st"
  "suspended (recorded rs st) = suspended st" "repair (recorded rs st) = repair st"
  "suspendedApprovalId (recorded rs st) = suspendedApprovalId st" "executionId (recorded rs st) = executionId st"
  "repairAttempts (recorded rs st) = repairAttempts st" "structured (recorded rs st) = structured st"
  "toolCallRecords (recorded rs st) = rs @ toolCallRecords st"
  by (simp_all add: recorded_def)

lemma recorded_commutes:
  "(recorded rs st)\<lparr>messages := ms\<rparr> = recorded rs (st\<lparr>messages := ms\<rparr>)"
  "(recorded rs st)\<lparr>toolCallCount := n\<rparr> = recorded rs (st\<lparr>toolCallCount := n\<rparr>)"
  "(recorded rs st)\<lparr>iteration := k\<rparr> = recorded rs (st\<lparr>iteration := k\<rparr>)"
  "(recorded rs st)\<lparr>repair := ms\<rparr> = recorded rs (st\<lparr>repair := ms\<rparr>)"
  "(recorded rs st)\<lparr>structured := v\<rparr> = recorded rs (st\<lparr>structured := v\<rparr>)"
  "(recorded rs st)\<lparr>suspended := b\<rparr> = recorded rs (st\<lparr>suspended := b\<rparr>)"
  "(recorded rs st)\<lparr>suspendedApprovalId := i\<rparr> = recorded rs (st\<lparr>suspendedApprovalId := i\<rparr>)"
  "pushToolMessage E call payload prov (recorded rs st) = recorded rs (pushToolMessage E call payload prov st)"
  "push_record r (recorded rs st) = recorded rs (push_record r st)"
  "accumulateUsage u (recorded rs st) = recorded rs (accumulateUsage u st)"
  "queue_repair answer is (recorded rs st) = recorded rs (queue_repair answer is st)"
  by (simp_all add: recorded_def pushToolMessage_def push_record_def accumulateUsage_def queue_repair_def
        split: option.splits)

fun recorded_call :: "ToolCallRecord list \<Rightarrow> call_result \<Rightarrow> call_result" where
  "recorded_call rs (st, events, stop) = (recorded rs st, events, stop)"

definition mapped :: "('a \<Rightarrow> 'b) \<Rightarrow> ('e, 'a) result \<times> 'x \<Rightarrow> ('e, 'b) result \<times> 'x" where
  "mapped f r = (case r of (Inl e, x) \<Rightarrow> (Inl e, x) | (Inr a, x) \<Rightarrow> (Inr (f a), x))"

lemma mapped_simps [simp]: "mapped f (Inl e, x) = (Inl e, x)" "mapped f (Inr a, x) = (Inr (f a), x)"
  by (simp_all add: mapped_def)

lemma mapped_and_then: "mapped f (and_then r k) = and_then r (\<lambda>a x. mapped f (k a x))"
  by (cases r; cases "fst r") auto

lemma and_then_mapped: "and_then (mapped f r) k = and_then r (\<lambda>a x. k (f a) x)"
  by (cases r; cases "fst r") auto

lemma mapped_if: "mapped f (if b then r else r') = (if b then mapped f r else mapped f r')"
  by simp

lemma call_returned_recorded:
  "call_returned E tool call targs (recorded rs st) events r =
     recorded_call rs (call_returned E tool call targs st events r)"
  by (simp add: call_returned_def Let_def recorded_commutes split: ToolExecutionResult.splits)

lemma call_failed_recorded:
  "call_failed E tool call targs (recorded rs st) events err x =
     mapped (recorded_call rs) (call_failed E tool call targs st events err x)"
  by (cases err) (auto simp: call_failed_def recorded_commutes assertNotAborted_def split: prod.splits)

lemma run_call_recorded:
  "run_call E call (recorded rs st) x = mapped (recorded_call rs) (run_call E call st x)"
  by (auto simp: run_call_def Let_def recorded_commutes call_returned_recorded call_failed_recorded
        assertNotAborted_def split: option.splits prod.splits sum.splits)

lemma run_calls_recorded:
  "run_calls E calls (recorded rs st) x = mapped (recorded_call rs) (run_calls E calls st x)"
proof (induction calls arbitrary: st x)
  case (Cons call calls)
  obtain r1 x1 where call: "run_call E call st x = (r1, x1)" by (cases "run_call E call st x")
  show ?case
  proof (cases r1)
    case (Inl e)
    with call show ?thesis by (simp add: run_call_recorded)
  next
    case (Inr out)
    obtain st1 events1 stop1 where out: "out = (st1, events1, stop1)" by (cases out)
    obtain r2 x2 where rest: "run_calls E calls st1 x1 = (r2, x2)" by (cases "run_calls E calls st1 x1")
    with call Inr out show ?thesis
      by (cases r2) (auto simp: run_call_recorded Cons.IH)
  qed
qed simp

lemma applyModelRound_recorded:
  "applyModelRound E (recorded rs st) response x = mapped (recorded_call rs) (applyModelRound E st response x)"
  by (simp add: applyModelRound_def Let_def recorded_commutes run_calls_recorded)

definition with_records :: "ToolCallRecord list \<Rightarrow> AgentResult \<Rightarrow> AgentResult" where
  "with_records rs r = r\<lparr>ar_toolCalls := rs @ ar_toolCalls r\<rparr>"

fun recorded_end :: "ToolCallRecord list \<Rightarrow> AgentResult round_end \<Rightarrow> AgentResult round_end" where
  "recorded_end rs (Again st) = Again (recorded rs st)"
| "recorded_end rs (Done r) = Done (with_records rs r)"

fun recorded_reject :: "ToolCallRecord list \<Rightarrow> string list option \<times> ExecutionState
    \<Rightarrow> string list option \<times> ExecutionState" where
  "recorded_reject rs (rejected, st) = (rejected, recorded rs st)"

lemma publish_recorded [simp]:
  "publishTranscript E (recorded rs st) answer x = publishTranscript E st answer x"
  "publishCheckpoint E (recorded rs st) x = publishCheckpoint E st x"
  "publishInFlightCheckpoint E (recorded rs st) x = publishInFlightCheckpoint E st x"
  by (auto simp: publishTranscript_def publishCheckpoint_def publishInFlightCheckpoint_def checkpoint_of_def
        split: option.splits bool.splits list.splits)

lemma mapped_error [simp]:
  "mapped g (and_then p (\<lambda>_ x. (Inl e, x))) = and_then p (\<lambda>_ x. (Inl e, x))"
  by (cases p; cases "fst p") auto

lemma rejectOutput_recorded:
  "rejectOutput E (recorded rs st) response x = mapped (recorded_reject rs) (rejectOutput E st response x)"
proof (cases "x_structuredOutput E")
  case (Some spec)
  let ?check = "case refusal_text response of
      Some r \<Rightarrow> Inr (Inl [''$: the model refused to answer: '' @ r])
    | None \<Rightarrow> checkStructuredOutput (x_so E) spec (rs_content response)"
  show ?thesis
  proof (cases ?check)
    case (Inl e)
    with Some show ?thesis by (simp add: rejectOutput_def)
  next
    case (Inr verdict)
    with Some show ?thesis by (cases verdict) (simp_all add: rejectOutput_def Let_def recorded_commutes)
  qed
qed (simp add: rejectOutput_def)

lemma toResult_recorded:
  assumes "suspended st \<longrightarrow> toolCallRecords st \<noteq> []"
  shows "toResult sid (recorded rs st) answer = with_records rs (toResult sid st answer)"
  using assms
  by (auto simp: toResult_def with_records_def resolveOutput_def
        split: call_outcome.splits ToolExecutionResult.splits)

lemma finish_recorded:
  assumes "suspended st \<longrightarrow> toolCallRecords st \<noteq> []"
  shows "finish_round E (recorded rs st) response finished x =
    mapped (recorded_end rs) (finish_round E st response finished x)"
proof (cases finished)
  case False
  then show ?thesis
    by (cases "publishInFlightCheckpoint E st x"; cases "fst (publishInFlightCheckpoint E st x)")
       (auto simp: finish_round_def)
next
  case True
  obtain q x1 where rej: "rejectOutput E st response x = (q, x1)" by (cases "rejectOutput E st response x")
  show ?thesis
  proof (cases q)
    case (Inl e)
    with True rej show ?thesis by (simp add: finish_round_def rejectOutput_recorded)
  next
    case (Inr p)
    obtain rejected st1 where p: "p = (rejected, st1)" by (cases p)
    from rejectOutput_state [OF rej [unfolded Inr p]] assms
    have records: "suspended st1 \<longrightarrow> toolCallRecords st1 \<noteq> []" by (auto simp: queue_repair_def)
    show ?thesis
    proof (cases rejected)
      case None
      obtain c x2 where cp: "publishCheckpoint E st1 x1 = (c, x2)" by (cases "publishCheckpoint E st1 x1")
      obtain d x3 where tr: "publishTranscript E st1 (rs_content response) x2 = (d, x3)"
        by (cases "publishTranscript E st1 (rs_content response) x2")
      from True rej Inr p None cp tr records show ?thesis
        by (cases c; cases d) (auto simp: finish_round_def rejectOutput_recorded toResult_recorded)
    next
      case (Some problems)
      obtain c x2 where "publishInFlightCheckpoint E st1 x1 = (c, x2)"
        by (cases "publishInFlightCheckpoint E st1 x1")
      with True rej Inr p Some show ?thesis
        by (cases c) (auto simp: finish_round_def rejectOutput_recorded)
    qed
  qed
qed

lemma projectMessages_recorded: "projectMessages E (recorded rs st) x = projectMessages E st x"
  by (cases "x_messageReducer E") (simp_all add: projectMessages_def Let_def)

lemma buildRequest_recorded:
  "buildRequest E (recorded rs st) x =
     mapped (\<lambda>(req, st). (req, recorded rs st)) (buildRequest E st x)"
proof (cases "projectMessages E st x")
  case (Pair p x1)
  then show ?thesis
    by (cases p) (auto simp: buildRequest_def Let_def recorded_commutes projectMessages_recorded)
qed

lemma run_round_recorded:
  assumes "\<not> suspended st"
  shows "run_round E (recorded rs st) x = mapped (recorded_end rs) (run_round E st x)"
proof -
  obtain b where budget: "assertWithinBudget E st x = (b, x)"
    using assertWithinBudget_world by (cases "assertWithinBudget E st x") fastforce
  then have budget': "assertWithinBudget E (recorded rs st) x = (b, x)"
    by (auto simp: assertWithinBudget_def assertNotAborted_def split: if_splits option.splits)
  show ?thesis
  proof (cases b)
    case (Inl e)
    with budget budget' show ?thesis by (simp add: run_round_def)
  next
    case (Inr u)
    note known = budget budget' Inr buildRequest_recorded [of E rs st x]
    obtain q x1 where build: "buildRequest E st x = (q, x1)" by (cases "buildRequest E st x")
    show ?thesis
    proof (cases q)
      case (Inl e)
      with known build show ?thesis by (simp add: run_round_def)
    next
      case (Inr p)
      obtain req st1 where p: "p = (req, st1)" by (cases p)
      with build Inr buildRequest_state assms have "\<not> suspended st1" by fastforce
      obtain g x2 where gen: "x_generate E req x1 = (g, x2)" by (cases "x_generate E req x1")
      show ?thesis
      proof (cases g)
        case (Inl e)
        with known build \<open>q = Inr p\<close> p gen show ?thesis by (simp add: run_round_def)
      next
        case (Inr response)
        obtain a x3 where model: "applyModelRound E st1 response x2 = (a, x3)"
          by (cases "applyModelRound E st1 response x2")
        show ?thesis
        proof (cases a)
          case (Inl e)
          with known build \<open>q = Inr p\<close> p gen Inr model applyModelRound_recorded [of E rs st1 response x2] show ?thesis
            by (simp add: run_round_def)
        next
          case (Inr out)
          obtain st2 events finished where out: "out = (st2, events, finished)" by (cases out)
          from round_suspends [OF model [unfolded Inr out] \<open>\<not> suspended st1\<close>]
          have "suspended st2 \<longrightarrow> toolCallRecords st2 \<noteq> []" by (auto simp: pending_last_def)
          from finish_recorded [OF this, of E rs response finished x3]
            applyModelRound_recorded [of E rs st1 response x2]
            known build \<open>q = Inr p\<close> p gen \<open>g = Inr response\<close> model Inr out show ?thesis
            by (simp add: run_round_def)
        qed
      qed
    qed
  qed
qed

lemma run_loop_recorded:
  "\<not> suspended st \<Longrightarrow> run_loop E (recorded rs st) x = mapped (with_records rs) (run_loop E st x)"
proof (induction E st x rule: run_loop.induct)
  case (1 E st x)
  obtain res x1 where round: "run_round E st x = (res, x1)" by (cases "run_round E st x")
  note same = run_round_recorded [OF "1.prems", of E rs x]
  show ?case
  proof (cases res)
    case (Inl e)
    with round same show ?thesis
      by (simp add: run_loop.simps [of E st x] run_loop.simps [of E "recorded rs st" x])
  next
    case (Inr step)
    show ?thesis
    proof (cases step)
      case (Done r)
      with round Inr same show ?thesis
        by (simp add: run_loop.simps [of E st x] run_loop.simps [of E "recorded rs st" x])
    next
      case (Again st1)
      with round Inr run_round_unsuspended "1.prems" have "\<not> suspended st1" by metis
      with "1.IH" [OF round [unfolded Inr] Again] round Inr Again same
      show ?thesis
        by (simp add: run_loop.simps [of E st x] run_loop.simps [of E "recorded rs st" x])
    qed
  qed
qed

text \<open>
  C11: A recovered turn goes on as the interrupted one would have. Restoring the in-flight
  checkpoint of a round gives a state from which the turn does exactly what it would have done
  from the state itself: the same requests, tool calls and callbacks in the same world, the
  same budgets and the same outcome. Only the records of the tool calls before the checkpoint
  are missing from its result.
\<close>

theorem recovered_turn_continues:
  assumes "\<not> suspended st" "structured st = None" "suspendedApprovalId st = None"
    and "repairAttempts st = 0 \<longrightarrow> repair st = []"
  shows "\<exists>st0. createCheckpointState (checkpoint_of E st time) = Inr st0 \<and>
    run_loop E st x = mapped (with_records (toolCallRecords st)) (run_loop E st0 x)"
proof -
  let ?st0 = "st\<lparr>toolCallRecords := []\<rparr>"
  have "createCheckpointState (checkpoint_of E st time) = Inr ?st0"
    using assms by (auto simp: createCheckpointState_def checkpoint_of_def nullish_def)
  moreover have "recorded (toolCallRecords st) ?st0 = st"
    by (simp add: recorded_def)
  with run_loop_recorded [of ?st0 E "toolCallRecords st" x] assms(1)
  have "run_loop E st x = mapped (with_records (toolCallRecords st)) (run_loop E ?st0 x)" by simp
  ultimately show ?thesis by blast
qed

definition answering :: "string \<Rightarrow> unit xenv" where
  "answering answer = sample_turn\<lparr>x_structuredOutput := Some list_spec,
     x_generate := (\<lambda>req x. (Inr \<lparr>rs_content = answer, rs_toolCalls = None, rs_usage = None,
       rs_refusal = JUndef\<rparr>, x))\<rparr>"

lemma list_answer: "checkStructuredOutput sample_so list_spec ''[]'' = Inr (Inr (JArr []))"
proof -
  have "parseJsonAnswer sample_so ''[]'' = Inr (JArr [])"
    by (simp add: parseJsonAnswer_def candidates_def trim_def is_space_def sample_so_def Let_def)
  moreover have "validateJsonSchema (schema_check sample_so (so_schema list_spec)) (JArr []) = []"
    by (simp add: list_spec_def sample_so_def validateJsonSchema_def walk.simps schema_eval array_tasks_def
          item_schemas_def)
  moreover have "so_validate list_spec = None" by (simp add: list_spec_def)
  ultimately show ?thesis by (simp add: checkStructuredOutput_def)
qed

lemma answering_fields:
  "x_structuredOutput (answering a) = Some list_spec" "x_so (answering a) = sample_so"
  "x_messageReducer (answering a) = None" "x_supportsStructuredOutput (answering a) = True"
  "x_aborted (answering a) x = False" "x_onTranscript (answering a) = None" "x_onSuspend (answering a) = None"
  "l_maxIterations (x_limits (answering a)) = 2" "l_maxTotalTokens (x_limits (answering a)) = None"
  "x_generate (answering a) = (\<lambda>req x. (Inr \<lparr>rs_content = a, rs_toolCalls = None, rs_usage = None,
       rs_refusal = JUndef\<rparr>, x))"
  by (simp_all add: answering_def sample_turn_def resolveLimits_def)

lemma answering_run:
  "\<exists>r x'. run_loop (answering ''[]'') (createState ''e'' None None ''hello'') () = (Inr r, x') \<and> ar_toolCalls r = []"
  by (simp add: run_loop.simps run_round_def assertWithinBudget_def assertNotAborted_def buildRequest_def
        projectMessages_def Let_def answering_fields applyModelRound_def finish_round_def rejectOutput_def
        refusal_text_def list_answer publishCheckpoint_def publishTranscript_def toResult_def
        createState_def new_state_def accumulateUsage_def)

theorem returned_answer_is_checked_witness:
  "\<exists>r x' v. run_loop (answering ''[]'') (createState ''e'' None None ''hello'') () = (Inr r, x') \<and>
     checkStructuredOutput sample_so list_spec (ar_output r) = Inr (Inr v)"
proof -
  from answering_run obtain r x' where run: "run_loop (answering ''[]'') (createState ''e'' None None ''hello'') () =
      (Inr r, x')" "ar_toolCalls r = []" by blast
  from returned_answer_is_checked [OF run(1) answering_fields(1)] run(2) show ?thesis
    using run(1) by (auto simp: pending_last_def answering_fields createState_def new_state_def)
qed

theorem recovered_turn_continues_witness:
  "\<exists>st0. createCheckpointState (checkpoint_of sample_turn (createState ''e'' None None ''hello'') ''now'') = Inr st0"
proof -
  have "\<not> suspended (createState ''e'' None None ''hello'')" "structured (createState ''e'' None None ''hello'') = None"
    "suspendedApprovalId (createState ''e'' None None ''hello'') = None"
    "repairAttempts (createState ''e'' None None ''hello'') = 0 \<longrightarrow> repair (createState ''e'' None None ''hello'') = []"
    by (simp_all add: createState_def new_state_def)
  from recovered_turn_continues [OF this, of sample_turn "''now''" "()"] show ?thesis by blast
qed

section \<open>The streaming loop\<close>

text \<open>The two loops agree on everything but what they return and what a suspended turn persists.\<close>

fun streamed_end :: "AgentResult round_end \<Rightarrow> unit round_end" where
  "streamed_end (Again st) = Again st"
| "streamed_end (Done _) = Done ()"

definition announces :: "AgentStreamEvent list \<Rightarrow> string \<Rightarrow> AgentResult \<Rightarrow> bool" where
  "announces events sid r \<longleftrightarrow>
     (\<exists>pre. events = pre @ [Ev_final_answer sid (ar_output r) (ar_usage r) (ar_structured r),
                           Ev_complete sid (ar_output r)])"

lemma announces_append: "announces e sid r \<Longrightarrow> announces (pre @ e) sid r"
  by (auto simp: announces_def)

lemma stream_finish_agrees:
  assumes "x_onTranscript E = None"
  shows "snd (stream_finish E st response finished x) = mapped streamed_end (finish_round E st response finished x) \<and>
    (\<forall>r x'. finish_round E st response finished x = (Inr (Done r), x') \<longrightarrow>
      announces (fst (stream_finish E st response finished x)) (x_sessionId E) r)"
proof (cases finished)
  case False
  then show ?thesis
    by (cases "publishInFlightCheckpoint E st x"; cases "fst (publishInFlightCheckpoint E st x)")
       (auto simp: finish_round_def stream_finish_def)
next
  case True
  have silent: "publishTranscript E st1 answer x1 = (Inr (), x1)" for st1 answer x1
    using assms by (simp add: publishTranscript_def)
  obtain q x1 where rej: "rejectOutput E st response x = (q, x1)" by (cases "rejectOutput E st response x")
  show ?thesis
  proof (cases q)
    case (Inl e)
    with True rej show ?thesis by (simp add: finish_round_def stream_finish_def)
  next
    case (Inr p)
    obtain rejected st1 where p: "p = (rejected, st1)" by (cases p)
    show ?thesis
    proof (cases rejected)
      case None
      obtain c x2 where "publishCheckpoint E st1 x1 = (c, x2)" by (cases "publishCheckpoint E st1 x1")
      with True rej Inr p None silent show ?thesis
        by (cases c) (auto simp: finish_round_def stream_finish_def Let_def toResult_def announces_def)
    next
      case (Some problems)
      obtain c x2 where "publishInFlightCheckpoint E st1 x1 = (c, x2)"
        by (cases "publishInFlightCheckpoint E st1 x1")
      with True rej Inr p Some show ?thesis
        by (cases c) (auto simp: finish_round_def stream_finish_def)
    qed
  qed
qed

lemma stream_model_plain:
  assumes "x_stream E = None"
  shows "snd (stream_model E request x) = x_generate E request x"
  using assms by (auto simp: stream_model_def split: prod.splits sum.splits)

lemma yield_then_silent: "yield_then ([], (r, x)) k = (case r of Inl e \<Rightarrow> ([], (Inl e, x)) | Inr a \<Rightarrow> k a x)"
  by (cases r) (auto simp: yield_then_def split: prod.splits)

lemma yield_then_snd: "snd (yield_then s k) = and_then (snd s) (\<lambda>a x. snd (k a x))"
  by (cases s; cases "fst (snd s)"; cases "snd s") auto

lemma stream_round_agrees:
  assumes "x_stream E = None" "x_onTranscript E = None"
  shows "snd (stream_round E st x) = mapped streamed_end (run_round E st x)"
proof -
  have finish: "snd (stream_finish E st response finished x) = mapped streamed_end (finish_round E st response finished x)"
    for st response finished x using stream_finish_agrees [OF assms(2)] by blast
  show ?thesis
    unfolding stream_round_def run_round_def yield_then_snd mapped_and_then
    by (simp add: stream_model_plain [OF assms(1)] yield_then_snd finish case_prod_unfold mapped_and_then
          cong: and_then_cong)
qed

lemma yield_then_fst:
  "s = (evs, (Inr a, x)) \<Longrightarrow> fst (yield_then s k) = evs @ fst (k a x)"
  by simp

lemma stream_round_announces:
  assumes "x_stream E = None" "x_onTranscript E = None" "run_round E st x = (Inr (Done r), x')"
  shows "announces (fst (stream_round E st x)) (x_sessionId E) r"
proof -
  from assms(3) obtain request st1 x1 response x2 st2 events finished x3 where steps:
    "assertWithinBudget E st x = (Inr (), x)" "buildRequest E st x = (Inr (request, st1), x1)"
    "x_generate E request x1 = (Inr response, x2)"
    "applyModelRound E st1 response x2 = (Inr (st2, events, finished), x3)"
    "finish_round E st2 response finished x3 = (Inr (Done r), x')"
    by (rule run_round_steps)
  obtain toks where "stream_model E request x1 = (toks, (Inr response, x2))"
    using stream_model_plain [OF assms(1), of request x1] steps(3)
    by (cases "stream_model E request x1") auto
  moreover have "announces (fst (stream_finish E st2 response finished x3)) (x_sessionId E) r"
    using stream_finish_agrees [OF assms(2)] steps(5) by blast
  ultimately show ?thesis
    using steps by (auto simp: stream_round_def intro!: announces_append)
qed

text \<open>
  C12: Streaming a turn is running it. With an adapter that does not stream, and nothing persisted,
  the streaming loop does to the world what the plain loop does, fails exactly when it fails
  and with the same error, and when the plain loop returns a result the stream ends by
  announcing that result's output, usage and structured value.
\<close>

theorem streaming_agrees:
  assumes "x_stream E = None" and "x_onTranscript E = None" and "run_loop E st x = (out, x')"
  shows "snd (stream_loop E st x) = (map_sum id (\<lambda>_. ()) out, x') \<and>
    (\<forall>r. out = Inr r \<longrightarrow> announces (fst (stream_loop E st x)) (x_sessionId E) r)"
  using assms
proof (induction E st x rule: run_loop.induct)
  case (1 E st x)
  obtain res x1 where round: "run_round E st x = (res, x1)" by (cases "run_round E st x")
  note same = stream_round_agrees [OF "1.prems"(1,2), of st x]
  obtain evs where stream: "stream_round E st x = (evs, mapped streamed_end (res, x1))"
    using same round by (cases "stream_round E st x") simp
  show ?case
  proof (cases res)
    case (Inl e)
    with round stream "1.prems" show ?thesis
      by (auto simp: run_loop.simps [of E st x] stream_loop.simps [of E st x])
  next
    case (Inr step)
    show ?thesis
    proof (cases step)
      case (Done r)
      with stream_round_announces [OF "1.prems"(1,2)] round stream Inr "1.prems"(3) show ?thesis
        by (fastforce simp: run_loop.simps [of E st x] stream_loop.simps [of E st x])
    next
      case (Again st1)
      with round Inr "1.prems"(3) have "run_loop E st1 x1 = (out, x')"
        by (simp add: run_loop.simps [of E st x])
      from "1.IH" [OF round [unfolded Inr] Again "1.prems"(1,2) this] stream Inr Again show ?thesis
        by (auto simp: stream_loop.simps [of E st x] intro: announces_append)
    qed
  qed
qed

theorem streaming_agrees_witness:
  "\<exists>r x'. run_loop (answering ''[]'') (createState ''e'' None None ''hello'') () = (Inr r, x') \<and>
     announces (fst (stream_loop (answering ''[]'') (createState ''e'' None None ''hello'') ())) ''s'' r"
proof -
  from answering_run obtain r x' where run: "run_loop (answering ''[]'') (createState ''e'' None None ''hello'') () =
      (Inr r, x')" by blast
  have "x_stream (answering ''[]'') = None" "x_sessionId (answering ''[]'') = ''s''"
    by (simp_all add: answering_def sample_turn_def)
  with streaming_agrees [OF _ answering_fields(6) run] run show ?thesis by auto
qed

text \<open>
  What they persist differs when a turn suspends without text: the plain loop stores the
  conversation as it is, the streaming loop appends an assistant message with the sentence it
  has made up for the caller, although the plain loop's comment excludes exactly that.
\<close>

lemma streamed_suspension_stores_made_up_text:
  assumes "suspended st" "rs_content response = []" "x_onSuspend E = None" "x_onTranscript E = Some persist"
    and "toolCallRecords st \<noteq> []"
    and "tc_result (last (toolCallRecords st)) = Completed (PendingResult why i req sg)"
  shows "\<exists>k. finish_round E st response True x = and_then (persist (messages st) x) k"
    and "\<exists>k. stream_finish E st response True x =
      yield_then ([], persist (messages st @ [AssistantMsg (''Tool '' @
        quoted (tc_toolName (last (toolCallRecords st))) @ '' requires approval ('' @ i @ ''): '' @ why) None]) x) k"
proof -
  have reject: "rejectOutput E st response x = (Inr (None, st), x)"
    using assms(1) by (simp add: rejectOutput_def split: option.splits)
  have cp: "publishCheckpoint E st x = (Inr (), x)"
    using assms(3) by (simp add: publishCheckpoint_def)
  show "\<exists>k. finish_round E st response True x = and_then (persist (messages st) x) k"
    using assms reject cp by (auto simp: finish_round_def publishTranscript_def)
  show "\<exists>k. stream_finish E st response True x =
      yield_then ([], persist (messages st @ [AssistantMsg (''Tool '' @
        quoted (tc_toolName (last (toolCallRecords st))) @ '' requires approval ('' @ i @ ''): '' @ why) None]) x) k"
    using assms reject cp
    by (auto simp: stream_finish_def publishTranscript_def resolveOutput_def Let_def)
qed

end
