(* ===== verification/Cascade.thy ===== *)
theory Cascade
  imports Executor
begin

text \<open>
  Model cascades: \<open>packages/core/src/cascading/model-cascade.adapter.ts\<close> and
  \<open>model-cascade.router.ts\<close>. A cascade asks its tiers in turn, from the cheapest model on,
  until the confidence in an answer reaches the threshold of its tier.

  The underlying adapter, the confidence extractors and the escalation callback act on a
  world \<open>'x\<close>; a timeout of a tier is an argument of the adapter, which observes it through
  its signal. A model configuration is its model name. The default extractor is a parameter
  of the environment.
\<close>

section \<open>Configuration\<close>

type_synonym 'x extractor = "string \<Rightarrow> ModelResponse \<Rightarrow> ModelRequest \<Rightarrow> 'x \<Rightarrow> (agent_error, jsnum) result \<times> 'x"

record 'x CascadeTier =
  tier_model :: string
  confidenceThreshold :: "jsnum option"
  extractorFn :: "'x extractor option"
  tier_timeoutMs :: "int option"

record CascadeEscalationEvent =
  fromTier :: nat
  toTier :: nat
  fromModel :: string
  toModel :: string
  ce_confidence :: jsnum
  ce_threshold :: jsnum
  ce_reason :: string

record CascadeMetadata =
  tiersAttempted :: nat
  finalTierIndex :: nat
  finalModel :: string
  confidenceScore :: jsnum
  cumulativeUsage :: ModelUsage
  escalated :: bool

type_synonym 'x escalation = "CascadeEscalationEvent \<Rightarrow> 'x \<Rightarrow> (agent_error, unit) result \<times> 'x"

text \<open>
  The two configuration types of the constructor in one: a property that may be missing from
  the object is an option, and the two default thresholds differ in whether the property is
  present with the value \<open>undefined\<close>.
\<close>

record 'x CascadeConfig =
  cfg_tiers :: "'x CascadeTier list option"
  cfg_fastModel :: "string option"
  cfg_reasoningModel :: "string option"
  cfg_confidenceThreshold :: "jsnum option"
  cfg_defaultConfidenceThreshold :: "jsnum option option"
  cfg_extractorFn :: "'x extractor option"
  cfg_throws :: "bool option"
  cfg_onEscalate :: "'x escalation option"

record 'x cascade =
  tiers :: "'x CascadeTier list"
  defaultThreshold :: jsnum
  fallback_throws :: bool
  onEscalate :: "'x escalation option"

definition DEFAULT_THRESHOLD :: jsnum where
  "DEFAULT_THRESHOLD = Fin (85 / 100)"

definition configuration_missing :: string where
  "configuration_missing =
     ''Must provide either a non-empty \"tiers\" array or both \"fastModel\" and \"reasoningModel\".''"

definition make_cascade :: "'x CascadeConfig \<Rightarrow> (agent_error, 'x cascade) result" where
  "make_cascade config =
     (case (cfg_tiers config, cfg_fastModel config, cfg_reasoningModel config) of
        (Some (t # ts), _, _) \<Rightarrow>
          Inr \<lparr>tiers = t # ts,
            defaultThreshold =
              nullish (case cfg_defaultConfidenceThreshold config of
                         Some present \<Rightarrow> present
                       | None \<Rightarrow> cfg_confidenceThreshold config) DEFAULT_THRESHOLD,
            fallback_throws = nullish (cfg_throws config) False,
            onEscalate = cfg_onEscalate config\<rparr>
      | (_, Some fast, Some reasoning) \<Rightarrow>
          Inr \<lparr>tiers =
              [\<lparr>tier_model = fast,
                confidenceThreshold = Some (nullish (cfg_confidenceThreshold config) DEFAULT_THRESHOLD),
                extractorFn = cfg_extractorFn config, tier_timeoutMs = None\<rparr>,
               \<lparr>tier_model = reasoning, confidenceThreshold = Some (Fin 0),
                extractorFn = cfg_extractorFn config, tier_timeoutMs = None\<rparr>],
            defaultThreshold = nullish (cfg_confidenceThreshold config) DEFAULT_THRESHOLD,
            fallback_throws = nullish (cfg_throws config) False,
            onEscalate = cfg_onEscalate config\<rparr>
      | _ \<Rightarrow> Inl (CascadeConfiguration configuration_missing))"

lemma make_cascade_tiers: "make_cascade config = Inr c \<Longrightarrow> tiers c \<noteq> []"
  by (auto simp: make_cascade_def split: option.splits list.splits)

section \<open>Asking a tier\<close>

text \<open>
  The underlying adapter. \<open>ca_aborted\<close> reads the signal of the request: \<open>Some reason\<close> when it
  is aborted, with the reason when it carries one.
\<close>

record 'x cascade_env =
  ca_generate :: "int option \<Rightarrow> ModelRequest \<Rightarrow> 'x \<Rightarrow> (agent_error, ModelResponse) result \<times> 'x"
  ca_stream :: "(ModelRequest \<Rightarrow> 'x \<Rightarrow> (ModelStreamChunk list \<times> agent_error option) \<times> 'x) option"
  ca_aborted :: "'x \<Rightarrow> agent_error option option"
  ca_defaultExtractor :: "'x extractor"

definition aborted_error :: agent_error where
  "aborted_error = Thrown ''Execution aborted.''"

definition check_signal :: "'x cascade_env \<Rightarrow> 'x \<Rightarrow> (agent_error, unit) result \<times> 'x" where
  "check_signal E x =
     (case ca_aborted E x of
        None \<Rightarrow> (Inr (), x)
      | Some why \<Rightarrow> (Inl (nullish why aborted_error), x))"

definition executeWithTimeout ::
    "'x cascade_env \<Rightarrow> ModelRequest \<Rightarrow> int \<Rightarrow> 'x \<Rightarrow> (agent_error, ModelResponse) result \<times> 'x" where
  "executeWithTimeout E request ms x =
     and_then (check_signal E x) (\<lambda>_ x. ca_generate E (Some ms) request x)"

definition ask_tier ::
    "'x cascade_env \<Rightarrow> 'x CascadeTier \<Rightarrow> ModelRequest \<Rightarrow> 'x \<Rightarrow> (agent_error, ModelResponse) result \<times> 'x" where
  "ask_tier E tier request x =
     (case tier_timeoutMs tier of
        Some ms \<Rightarrow> if ms > 0 then executeWithTimeout E request ms x else ca_generate E None request x
      | None \<Rightarrow> ca_generate E None request x)"

definition zero_usage :: ModelUsage where
  "zero_usage = \<lparr>inputTokens = Some 0, outputTokens = Some 0, totalTokens = Some 0\<rparr>"

definition accumulate :: "ModelUsage option \<Rightarrow> ModelUsage \<Rightarrow> ModelUsage" where
  "accumulate u acc =
     (case u of
        None \<Rightarrow> acc
      | Some v \<Rightarrow>
          \<lparr>inputTokens = Some (nullish (inputTokens acc) 0 + nullish (inputTokens v) 0),
           outputTokens = Some (nullish (outputTokens acc) 0 + nullish (outputTokens v) 0),
           totalTokens = Some (nullish (totalTokens acc) 0 + nullish (totalTokens v) 0)\<rparr>)"

definition escalate ::
    "'x cascade \<Rightarrow> nat \<Rightarrow> 'x CascadeTier \<Rightarrow> 'x CascadeTier \<Rightarrow> jsnum \<Rightarrow> jsnum \<Rightarrow> string \<Rightarrow> 'x
       \<Rightarrow> (agent_error, unit) result \<times> 'x" where
  "escalate C i tier following confidence threshold why x =
     (case onEscalate C of
        None \<Rightarrow> (Inr (), x)
      | Some callback \<Rightarrow>
          callback \<lparr>fromTier = i, toTier = i + 1, fromModel = tier_model tier,
            toModel = tier_model following, ce_confidence = confidence, ce_threshold = threshold,
            ce_reason = why\<rparr> x)"

definition tier_threshold :: "'x cascade \<Rightarrow> 'x CascadeTier \<Rightarrow> bool \<Rightarrow> jsnum" where
  "tier_threshold C tier final =
     nullish (confidenceThreshold tier) (if final then Fin 0 else defaultThreshold C)"

definition accept ::
    "nat \<Rightarrow> 'x CascadeTier \<Rightarrow> jsnum \<Rightarrow> ModelUsage \<Rightarrow> ModelResponse \<Rightarrow> ModelResponse \<times> CascadeMetadata" where
  "accept i tier confidence spent response =
     (response\<lparr>rs_usage := Some spent\<rparr>,
      \<lparr>tiersAttempted = i + 1, finalTierIndex = i, finalModel = tier_model tier,
       confidenceScore = confidence, cumulativeUsage = spent, escalated = (i > 0)\<rparr>)"

definition unresolved :: agent_error where
  "unresolved = CascadeConfiguration ''Cascade execution completed without resolving a model tier.''"

text \<open>
  The tiers from the one of index \<open>i\<close> on; \<open>spent\<close> is the usage accumulated so far. The last
  tier of the cascade is the last of the list.
\<close>

fun cascade_loop ::
    "'x cascade_env \<Rightarrow> 'x cascade \<Rightarrow> ModelRequest \<Rightarrow> nat \<Rightarrow> 'x CascadeTier list \<Rightarrow> ModelUsage \<Rightarrow> 'x
       \<Rightarrow> (agent_error, ModelResponse \<times> CascadeMetadata) result \<times> 'x" where
  "cascade_loop E C request i [] spent x = (Inl unresolved, x)"
| "cascade_loop E C request i (tier # rest) spent x =
     and_then (check_signal E x) (\<lambda>_ x.
       let threshold = tier_threshold C tier (rest = []);
           tierRequest = request\<lparr>mr_model := tier_model tier\<rparr>
       in case ask_tier E tier tierRequest x of
            (Inl err, x) \<Rightarrow>
              (case (ca_aborted E x, rest) of
                 (Some why, _) \<Rightarrow> (Inl (nullish why err), x)
               | (None, []) \<Rightarrow> (Inl err, x)
               | (None, following # _) \<Rightarrow>
                   and_then (escalate C i tier following (Fin 0) threshold
                               (''Tier execution failed: '' @ error_message err) x)
                     (\<lambda>_ x. cascade_loop E C request (i + 1) rest spent x))
          | (Inr response, x) \<Rightarrow>
              (let spent2 = accumulate (rs_usage response) spent in
               and_then (nullish (extractorFn tier) (ca_defaultExtractor E) (rs_content response) response
                           tierRequest x)
                 (\<lambda>confidence x.
                    if js_le threshold confidence
                    then (Inr (accept i tier confidence spent2 response), x)
                    else case rest of
                           [] \<Rightarrow>
                             if fallback_throws C
                             then (Inl (CascadeExhausted (i + 1) confidence threshold (tier_model tier)), x)
                             else (Inr (accept i tier confidence spent2 response), x)
                         | following # _ \<Rightarrow>
                             and_then (escalate C i tier following confidence threshold
                                         (''Confidence '' @ to_fixed2 confidence @ '' < threshold '' @
                                          to_fixed2 threshold) x)
                               (\<lambda>_ x. cascade_loop E C request (i + 1) rest spent2 x))))"

definition cascade_generate ::
    "'x cascade_env \<Rightarrow> 'x cascade \<Rightarrow> ModelRequest \<Rightarrow> 'x
       \<Rightarrow> (agent_error, ModelResponse \<times> CascadeMetadata) result \<times> 'x" where
  "cascade_generate E C request x =
     and_then (check_signal E x) (\<lambda>_ x. cascade_loop E C request 0 (tiers C) zero_usage x)"

section \<open>Streaming\<close>

text \<open>
  The chunks a consumer receives: the tokens before the first response, then that response
  with the usage of the cascade; without one, the answer the cascade gave. A failure of
  the adapter's stream after its first response is not reached.
\<close>

fun relay :: "ModelResponse \<Rightarrow> ModelStreamChunk list \<Rightarrow> agent_error option \<Rightarrow> ModelStreamChunk list \<times> agent_error option" where
  "relay answer [] (Some e) = ([], Some e)"
| "relay answer [] None = ([ResponseChunk answer], None)"
| "relay answer (TokenChunk t # cs) e = (case relay answer cs e of (out, f) \<Rightarrow> (TokenChunk t # out, f))"
| "relay answer (ResponseChunk r # cs) e = ([ResponseChunk (r\<lparr>rs_usage := rs_usage answer\<rparr>)], None)"

definition cascade_stream ::
    "'x cascade_env \<Rightarrow> 'x cascade \<Rightarrow> ModelRequest \<Rightarrow> 'x \<Rightarrow> (ModelStreamChunk list \<times> agent_error option) \<times> 'x" where
  "cascade_stream E C request x =
     (case cascade_generate E C request x of
        (Inl e, x) \<Rightarrow> (([], Some e), x)
      | (Inr (answer, meta), x) \<Rightarrow>
          (case ca_stream E of
             None \<Rightarrow> (([ResponseChunk answer], None), x)
           | Some underlying \<Rightarrow>
               (case underlying (request\<lparr>mr_model := finalModel meta\<rparr>) x of
                  ((chunks, e), x) \<Rightarrow> (relay answer chunks e, x))))"

section \<open>The router\<close>

definition route ::
    "'x cascade_env \<Rightarrow> 'x CascadeConfig option \<Rightarrow> ModelRequest \<Rightarrow> 'x CascadeConfig option \<Rightarrow> 'x
       \<Rightarrow> (agent_error, ModelResponse \<times> CascadeMetadata) result \<times> 'x" where
  "route E defaults request custom x =
     (case (case custom of Some c \<Rightarrow> Some c | None \<Rightarrow> defaults) of
        None \<Rightarrow> (Inl (Thrown ''No cascade configuration provided to ModelCascadeRouter.''), x)
      | Some config \<Rightarrow>
          (case make_cascade config of
             Inl e \<Rightarrow> (Inl e, x)
           | Inr C \<Rightarrow> cascade_generate E C request x))"

datatype complexity = Simple | Moderate | Complex

definition contains :: "string \<Rightarrow> string \<Rightarrow> bool" where
  "contains needle s \<longleftrightarrow> list_ex (\<lambda>n. take (length needle) (drop n s) = needle) [0..<length s + 1]"

definition estimateComplexity :: "(string \<Rightarrow> complexity) option \<Rightarrow> string \<Rightarrow> complexity" where
  "estimateComplexity classifier prompt =
     (case classifier of
        Some f \<Rightarrow> f prompt
      | None \<Rightarrow>
          (let len = length prompt in
           if contains (replicate 3 (CHR 0x60)) prompt \<or>
              (contains ''{'' prompt \<and> contains ''}'' prompt \<and> len > 300)
           then (if len > 800 then Complex else Moderate)
           else if len > 1200 then Complex
           else if len > 250 then Moderate
           else Simple))"

section \<open>What a cascade returns\<close>

text \<open>
  An observer in the world of the cascade writes down what the underlying adapter answered, to which model, and
  every confidence an extractor gave. Observing changes nothing else.
\<close>

datatype tier_event = Asked string "(agent_error, ModelResponse) result" | Judged jsnum

definition watched_extractor :: "'x extractor \<Rightarrow> ('x \<times> tier_event list) extractor" where
  "watched_extractor f answer response request w =
     (case f answer response request (fst w) of
        (Inl e, y) \<Rightarrow> (Inl e, (y, snd w))
      | (Inr c, y) \<Rightarrow> (Inr c, (y, snd w @ [Judged c])))"

definition watched :: "'x cascade_env \<Rightarrow> ('x \<times> tier_event list) cascade_env" where
  "watched E =
     \<lparr>ca_generate = (\<lambda>ms request w. case ca_generate E ms request (fst w) of
        (r, y) \<Rightarrow> (r, (y, snd w @ [Asked (mr_model request) r]))),
      ca_stream = map_option (\<lambda>f request w. case f request (fst w) of (r, y) \<Rightarrow> (r, (y, snd w))) (ca_stream E),
      ca_aborted = (\<lambda>w. ca_aborted E (fst w)),
      ca_defaultExtractor = watched_extractor (ca_defaultExtractor E)\<rparr>"

definition watched_tier :: "'x CascadeTier \<Rightarrow> ('x \<times> tier_event list) CascadeTier" where
  "watched_tier t =
     \<lparr>tier_model = tier_model t, confidenceThreshold = confidenceThreshold t,
      extractorFn = map_option watched_extractor (extractorFn t), tier_timeoutMs = tier_timeoutMs t\<rparr>"

definition watched_cascade :: "'x cascade \<Rightarrow> ('x \<times> tier_event list) cascade" where
  "watched_cascade C =
     \<lparr>tiers = map watched_tier (tiers C), defaultThreshold = defaultThreshold C, fallback_throws = fallback_throws C,
      onEscalate = map_option (\<lambda>f e w. case f e (fst w) of (r, y) \<Rightarrow> (r, (y, snd w))) (onEscalate C)\<rparr>"

text \<open>What became of a tier: its call failed, or it answered and the answer was judged.\<close>

type_synonym tier_outcome = "(agent_error, ModelResponse \<times> jsnum) result"

fun outcome_events :: "'x CascadeTier \<times> tier_outcome \<Rightarrow> tier_event list" where
  "outcome_events (t, Inl e) = [Asked (tier_model t) (Inl e)]"
| "outcome_events (t, Inr (r, c)) = [Asked (tier_model t) (Inr r), Judged c]"

definition too_unsure :: "'x cascade \<Rightarrow> 'x CascadeTier \<times> tier_outcome \<Rightarrow> bool" where
  "too_unsure C t \<longleftrightarrow> (case snd t of Inl _ \<Rightarrow> True | Inr (_, c) \<Rightarrow> \<not> js_le (tier_threshold C (fst t) False) c)"

definition sure_enough :: "'x cascade \<Rightarrow> 'x CascadeTier \<Rightarrow> bool \<Rightarrow> jsnum \<Rightarrow> bool" where
  "sure_enough C t final c \<longleftrightarrow> js_le (tier_threshold C t final) c \<or> final \<and> \<not> fallback_throws C"

text \<open>The tokens of one kind over some answers.\<close>

fun answer_of :: "tier_outcome \<Rightarrow> ModelResponse list" where
  "answer_of (Inl e) = []"
| "answer_of (Inr (r, c)) = [r]"

definition used :: "(ModelUsage \<Rightarrow> int option) \<Rightarrow> ModelResponse \<Rightarrow> int" where
  "used f r = (case rs_usage r of None \<Rightarrow> 0 | Some u \<Rightarrow> nullish (f u) 0)"

definition total_used :: "ModelResponse list \<Rightarrow> ModelUsage" where
  "total_used rs =
     \<lparr>inputTokens = Some (sum_list (map (used inputTokens) rs)), outputTokens = Some (sum_list (map (used outputTokens) rs)),
      totalTokens = Some (sum_list (map (used totalTokens) rs))\<rparr>"

lemma accumulate_total: "accumulate (rs_usage r) (total_used rs) = total_used (rs @ [r])"
  by (auto simp: accumulate_def total_used_def used_def split: option.splits)

lemma zero_usage_total: "zero_usage = total_used []"
  by (simp add: zero_usage_def total_used_def)

lemma watched_simps:
  "check_signal (watched E) (x, l) = (case check_signal E x of (r, y) \<Rightarrow> (r, (y, l)))"
  "tier_threshold (watched_cascade C) (watched_tier t) final = tier_threshold C t final"
  "tier_model (watched_tier t) = tier_model t"
  "fallback_throws (watched_cascade C) = fallback_throws C"
  "ca_aborted (watched E) (x, l) = ca_aborted E x"
  by (auto simp: check_signal_def watched_def tier_threshold_def watched_tier_def watched_cascade_def split: option.splits)

lemma escalate_watched:
  "escalate (watched_cascade C) i (watched_tier t) (watched_tier t') c th why (x, l) =
     (case escalate C i t t' c th why x of (r, y) \<Rightarrow> (r, (y, l)))"
  by (auto simp: escalate_def watched_cascade_def watched_tier_def split: option.splits)

lemma timeout_watched:
  assumes "check_signal E x = (Inr (), x)"
  shows "executeWithTimeout (watched E) request ms (x, l) =
    (case executeWithTimeout E request ms x of (r, y) \<Rightarrow> (r, (y, l @ [Asked (mr_model request) r])))"
  using assms by (simp add: executeWithTimeout_def watched_simps) (simp add: watched_def)

lemma ask_watched:
  assumes "check_signal E x = (Inr (), x)"
  shows "ask_tier (watched E) (watched_tier t) request (x, l) =
    (case ask_tier E t request x of (r, y) \<Rightarrow> (r, (y, l @ [Asked (mr_model request) r])))"
proof (cases "tier_timeoutMs t")
  case (Some ms)
  have "tier_timeoutMs (watched_tier t) = Some ms" using Some by (simp add: watched_tier_def)
  with Some timeout_watched [OF assms] show ?thesis
    by (cases "0 < ms") (simp_all add: ask_tier_def, simp add: watched_def)
qed (simp add: ask_tier_def watched_tier_def, simp add: watched_def)

lemma extractor_watched:
  "nullish (extractorFn (watched_tier t)) (ca_defaultExtractor (watched E)) answer response request (x, l) =
     (case nullish (extractorFn t) (ca_defaultExtractor E) answer response request x of
        (Inl e, y) \<Rightarrow> (Inl e, (y, l)) | (Inr c, y) \<Rightarrow> (Inr c, (y, l @ [Judged c])))"
  by (cases "extractorFn t") (auto simp: watched_tier_def watched_def watched_extractor_def split: prod.splits sum.splits)

text \<open>What a run of the loop over some tiers leaves in the log when it returns.\<close>

definition loop_logged ::
    "'x cascade \<Rightarrow> nat \<Rightarrow> 'x CascadeTier list \<Rightarrow> ModelResponse list \<Rightarrow> ModelResponse \<times> CascadeMetadata \<Rightarrow> tier_event list \<Rightarrow> bool" where
  "loop_logged C i ts before out added \<longleftrightarrow>
     (\<exists>outs r c. length outs < length ts \<and> list_all (too_unsure C) (zip ts outs) \<and>
        sure_enough C (ts ! length outs) (Suc (length outs) = length ts) c \<and>
        added = concat (map outcome_events (zip ts outs)) @ outcome_events (ts ! length outs, Inr (r, c)) \<and>
        out = accept (i + length outs) (ts ! length outs) c (total_used (before @ concat (map answer_of outs) @ [r])) r)"

lemma loop_logged_here:
  assumes "sure_enough C t (rest = []) c"
  shows "loop_logged C i (t # rest) before (accept i t c (total_used (before @ [r])) r) [Asked (tier_model t) (Inr r), Judged c]"
  unfolding loop_logged_def using assms
  by (intro exI [of _ "[]"] exI [of _ r] exI [of _ c]) auto

lemma loop_logged_later:
  assumes "loop_logged C (Suc i) rest (before @ answer_of o') out added" and "too_unsure C (t, o')"
  shows "loop_logged C i (t # rest) before out (outcome_events (t, o') @ added)"
proof -
  from assms(1) obtain outs r c where "length outs < length rest" "list_all (too_unsure C) (zip rest outs)"
    "sure_enough C (rest ! length outs) (Suc (length outs) = length rest) c"
    "added = concat (map outcome_events (zip rest outs)) @ outcome_events (rest ! length outs, Inr (r, c))"
    "out = accept (Suc i + length outs) (rest ! length outs) c
       (total_used ((before @ answer_of o') @ concat (map answer_of outs) @ [r])) r"
    unfolding loop_logged_def by blast
  with assms(2) show ?thesis unfolding loop_logged_def
    by (intro exI [of _ "o' # outs"] exI [of _ r] exI [of _ c]) simp
qed

lemma check_signal_same: "check_signal E x = (Inr u, y) \<Longrightarrow> y = x"
  by (auto simp: check_signal_def split: option.splits)

lemma watched_loop_same:
  "\<exists>l'. cascade_loop (watched E) (watched_cascade C) request i (map watched_tier ts) spent (x, l) =
     (case cascade_loop E C request i ts spent x of (r, y) \<Rightarrow> (r, (y, l')))"
proof (induction ts arbitrary: i spent x l)
  case (Cons tier rest)
  let ?req = "request\<lparr>mr_model := tier_model tier\<rparr>"
  show ?case
  proof (cases "\<exists>u y. check_signal E x = (Inr u, y)")
    case True
    then have quiet: "check_signal E x = (Inr (), x)" by (auto dest: check_signal_same)
    note step = ask_watched [OF quiet] extractor_watched escalate_watched watched_simps quiet
    obtain answer x1 where ask: "ask_tier E tier ?req x = (answer, x1)" by fastforce
    show ?thesis
    proof (cases answer)
      case (Inl err)
      show ?thesis
      proof (cases rest)
        case Nil
        with ask Inl show ?thesis by (auto simp: step Let_def split: option.splits)
      next
        case (Cons following rest')
        let ?why = "''Tier execution failed: '' @ error_message err"
        obtain e x2 where "escalate C i tier following (Fin 0) (tier_threshold C tier False) ?why x1 = (e, x2)" by fastforce
        with ask Inl Cons Cons.IH [of "i + 1" spent x2] show ?thesis
          by (cases e; cases "ca_aborted E x1") (auto simp: step Let_def)
      qed
    next
      case (Inr r)
      let ?spent = "accumulate (rs_usage r) spent"
      obtain conf x2 where ext: "nullish (extractorFn tier) (ca_defaultExtractor E) (rs_content r) r ?req x1 = (conf, x2)"
        by fastforce
      show ?thesis
      proof (cases conf)
        case failed: (Inl e)
        with ask Inr ext show ?thesis by (auto simp: step Let_def)
      next
        case judged: (Inr c)
        show ?thesis
        proof (cases "js_le (tier_threshold C tier (rest = [])) c \<or> rest = []")
          case True
          with ask Inr ext judged show ?thesis by (auto simp: step Let_def accept_def)
        next
          case False
          then obtain following rest' where rest: "rest = following # rest'" by (cases rest) auto
          let ?th = "tier_threshold C tier False"
          let ?why = "''Confidence '' @ to_fixed2 c @ '' < threshold '' @ to_fixed2 ?th"
          obtain e x3 where "escalate C i tier following c ?th ?why x2 = (e, x3)" by fastforce
          with False ask Inr ext judged rest Cons.IH [of "i + 1" ?spent x3] show ?thesis
            by (cases e) (auto simp: step Let_def)
        qed
      qed
    qed
  next
    case False
    then obtain e y where "check_signal E x = (Inl e, y)" by (cases "check_signal E x"; cases "fst (check_signal E x)") auto
    then show ?thesis by (simp add: watched_simps)
  qed
qed simp

text \<open>The three ways a successful run goes on after a tier.\<close>

lemma cascade_loop_returned:
  assumes "cascade_loop E C request i (tier # rest) spent x = (Inr out, x')"
  obtains (failed) err x1 x2 where "check_signal E x = (Inr (), x)" "rest \<noteq> []"
      "ask_tier E tier (request\<lparr>mr_model := tier_model tier\<rparr>) x = (Inl err, x1)"
      "\<exists>t' th why. escalate C i tier t' (Fin 0) th why x1 = (Inr (), x2) \<and> t' \<in> set rest"
      "cascade_loop E C request (i + 1) rest spent x2 = (Inr out, x')"
  | (unsure) r x1 c x2 x3 where "check_signal E x = (Inr (), x)" "rest \<noteq> []"
      "ask_tier E tier (request\<lparr>mr_model := tier_model tier\<rparr>) x = (Inr r, x1)"
      "nullish (extractorFn tier) (ca_defaultExtractor E) (rs_content r) r (request\<lparr>mr_model := tier_model tier\<rparr>) x1 = (Inr c, x2)"
      "\<not> js_le (tier_threshold C tier False) c"
      "\<exists>t' th why. escalate C i tier t' c th why x2 = (Inr (), x3) \<and> t' \<in> set rest"
      "cascade_loop E C request (i + 1) rest (accumulate (rs_usage r) spent) x3 = (Inr out, x')"
  | (accepted) r x1 c where "check_signal E x = (Inr (), x)"
      "ask_tier E tier (request\<lparr>mr_model := tier_model tier\<rparr>) x = (Inr r, x1)"
      "nullish (extractorFn tier) (ca_defaultExtractor E) (rs_content r) r (request\<lparr>mr_model := tier_model tier\<rparr>) x1 = (Inr c, x')"
      "sure_enough C tier (rest = []) c" "out = accept i tier c (accumulate (rs_usage r) spent) r"
proof -
  let ?req = "request\<lparr>mr_model := tier_model tier\<rparr>"
  from assms have quiet: "check_signal E x = (Inr (), x)"
    by (auto simp: and_then_Inr_iff dest: check_signal_same)
  obtain answer x1 where ask: "ask_tier E tier ?req x = (answer, x1)" by fastforce
  show thesis
  proof (cases answer)
    case (Inl err)
    with assms quiet ask obtain following rest' x2 where "rest = following # rest'"
      "escalate C i tier following (Fin 0) (tier_threshold C tier (rest = [])) (''Tier execution failed: '' @ error_message err) x1 = (Inr (), x2)"
      "cascade_loop E C request (i + 1) rest spent x2 = (Inr out, x')"
      by (auto simp: Let_def and_then_Inr_iff split: option.splits list.splits)
    then show thesis using failed quiet ask Inl by (metis list.set_intros(1) list.distinct(1))
  next
    case (Inr r)
    from assms quiet ask Inr obtain c x2 where
      conf: "nullish (extractorFn tier) (ca_defaultExtractor E) (rs_content r) r ?req x1 = (Inr c, x2)"
      by (auto simp: Let_def and_then_Inr_iff)
    show thesis
    proof (cases "js_le (tier_threshold C tier (rest = [])) c \<or> rest = []")
      case True
      with assms quiet ask Inr conf have "sure_enough C tier (rest = []) c \<and> x2 = x' \<and>
          out = accept i tier c (accumulate (rs_usage r) spent) r"
        by (auto simp: Let_def and_then_Inr_iff sure_enough_def split: if_splits list.splits)
      with accepted quiet ask Inr conf show thesis by blast
    next
      case False
      then obtain following rest' where rest: "rest = following # rest'" by (cases rest) auto
      with False assms quiet ask Inr conf obtain x3 where
        "escalate C i tier following c (tier_threshold C tier False)
           (''Confidence '' @ to_fixed2 c @ '' < threshold '' @ to_fixed2 (tier_threshold C tier False)) x2 = (Inr (), x3)"
        "cascade_loop E C request (i + 1) rest (accumulate (rs_usage r) spent) x3 = (Inr out, x')"
        by (auto simp: Let_def and_then_Inr_iff)
      moreover from False rest have "\<not> js_le (tier_threshold C tier False) c" by simp
      ultimately show thesis using unsure quiet ask Inr conf rest by (metis list.set_intros(1) list.distinct(1))
    qed
  qed
qed

lemma watched_loop_log:
  "cascade_loop (watched E) (watched_cascade C) request i (map watched_tier ts) (total_used before) (x, l) = (Inr out, w) \<Longrightarrow>
     \<exists>added. snd w = l @ added \<and> loop_logged C i ts before out added"
proof (induction ts arbitrary: i before x l)
  case (Cons tier rest)
  from Cons.prems [unfolded list.map] show ?case
  proof (cases rule: cascade_loop_returned)
    case (failed err x1 x2)
    from failed(1) have quiet: "check_signal E x = (Inr (), x)" by (auto simp: watched_simps dest: check_signal_same split: prod.splits)
    from failed(3) have x1: "snd x1 = l @ [Asked (tier_model tier) (Inl err)]"
      by (auto simp: ask_watched [OF quiet] watched_simps split: prod.splits)
    from failed(4) have "snd x2 = snd x1"
      by (cases x1) (auto simp: escalate_watched split: prod.splits)
    with x1 have x2: "x2 = (fst x2, l @ [Asked (tier_model tier) (Inl err)])" by (cases x2) simp
    from failed(5) have "cascade_loop (watched E) (watched_cascade C) request (Suc i) (map watched_tier rest) (total_used before)
        (fst x2, l @ [Asked (tier_model tier) (Inl err)]) = (Inr out, w)" by (subst (asm) x2) simp
    from Cons.IH [OF this] loop_logged_later [of C i rest before "Inl err" out _ tier] show ?thesis
      by (fastforce simp: too_unsure_def)
  next
    case (unsure r x1 c x2 x3)
    from unsure(1) have quiet: "check_signal E x = (Inr (), x)" by (auto simp: watched_simps dest: check_signal_same split: prod.splits)
    from unsure(3) have x1: "snd x1 = l @ [Asked (tier_model tier) (Inr r)]"
      by (auto simp: ask_watched [OF quiet] watched_simps split: prod.splits)
    from unsure(4) have "snd x2 = snd x1 @ [Judged c]"
      by (cases x1) (auto simp: extractor_watched watched_simps split: prod.splits sum.splits)
    moreover from unsure(6) have "snd x3 = snd x2"
      by (cases x2) (auto simp: escalate_watched split: prod.splits)
    ultimately have x3: "x3 = (fst x3, l @ [Asked (tier_model tier) (Inr r), Judged c])" using x1 by (cases x3) simp
    from unsure(7) have "cascade_loop (watched E) (watched_cascade C) request (Suc i) (map watched_tier rest)
        (total_used (before @ [r])) (fst x3, l @ [Asked (tier_model tier) (Inr r), Judged c]) = (Inr out, w)"
      by (subst (asm) x3) (simp add: accumulate_total)
    from Cons.IH [OF this] loop_logged_later [of C i rest before "Inr (r, c)" out _ tier] unsure(5) show ?thesis
      by (fastforce simp: too_unsure_def watched_simps)
  next
    case (accepted r x1 c)
    from accepted(1) have quiet: "check_signal E x = (Inr (), x)" by (auto simp: watched_simps dest: check_signal_same split: prod.splits)
    from accepted(2) have x1: "snd x1 = l @ [Asked (tier_model tier) (Inr r)]"
      by (auto simp: ask_watched [OF quiet] watched_simps split: prod.splits)
    from accepted(3) have "snd w = snd x1 @ [Judged c]"
      by (cases x1) (auto simp: extractor_watched watched_simps split: prod.splits sum.splits)
    moreover have "sure_enough C tier (rest = []) c" "out = accept i tier c (total_used (before @ [r])) r"
      using accepted(4,5) by (simp_all add: sure_enough_def watched_simps accept_def accumulate_total)
    ultimately show ?thesis using x1 loop_logged_here [of C tier rest c i before r] by auto
  qed
qed simp

text \<open>
  C16: a cascade accounts for every call it made. Let an observer write down what the underlying adapter and the
  extractors return during the run: for each tier before the accepted one, in order, there is exactly one call, which
  failed or whose answer was judged below the tier's threshold; then the accepted tier's answer, judged to reach its
  threshold, or of the last tier under a fallback that accepts it. That answer is returned, the metadata names its
  tier and confidence, and the usage reported, of each kind of token, is the sum over all the answers observed.
\<close>

theorem cascade_answer_accounted:
  assumes "cascade_generate E C request x = (Inr (answer, meta), x')"
    and "cascade_generate (watched E) (watched_cascade C) request (x, []) = (res, (y, seen))"
  shows "res = Inr (answer, meta) \<and> y = x' \<and> (\<exists>outs r c. let k = length outs; t = tiers C ! k in
    k < length (tiers C) \<and> list_all (too_unsure C) (zip (tiers C) outs) \<and> sure_enough C t (k + 1 = length (tiers C)) c \<and>
    seen = concat (map outcome_events (zip (tiers C) outs)) @ [Asked (tier_model t) (Inr r), Judged c] \<and>
    answer = r\<lparr>rs_usage := Some (total_used (concat (map answer_of outs) @ [r]))\<rparr> \<and>
    finalTierIndex meta = k \<and> tiersAttempted meta = k + 1 \<and> finalModel meta = tier_model t \<and> confidenceScore meta = c \<and>
    Some (cumulativeUsage meta) = rs_usage answer)"
proof -
  from assms(1) have quiet: "check_signal E x = (Inr (), x)"
    and loop: "cascade_loop E C request 0 (tiers C) (total_used []) x = (Inr (answer, meta), x')"
    by (auto simp: cascade_generate_def zero_usage_total and_then_Inr_iff check_signal_def split: option.splits)
  from assms(2) quiet have "cascade_loop (watched E) (watched_cascade C) request 0 (map watched_tier (tiers C))
      (total_used []) (x, []) = (res, (y, seen))"
    by (simp add: cascade_generate_def zero_usage_total watched_simps) (simp add: watched_cascade_def)
  moreover from this loop watched_loop_same [of E C request 0 "tiers C" "total_used []" x "[]"]
  have "res = Inr (answer, meta) \<and> y = x'" by auto
  ultimately have "res = Inr (answer, meta)" "y = x'" "loop_logged C 0 (tiers C) [] (answer, meta) seen"
    using watched_loop_log [of E C request 0 "tiers C" "[]" x "[]" "(answer, meta)" "(y, seen)"] by auto
  then show ?thesis by (auto simp: loop_logged_def accept_def Let_def)
qed

text \<open>
  A cascade of two models with a stateless adapter: the cheap model is unsure and the second
  one is asked.
\<close>

definition two_models :: "unit cascade_env" where
  "two_models =
     \<lparr>ca_generate = (\<lambda>_ request x.
        (Inr (if mr_model request = ''fast''
              then \<lparr>rs_content = ''maybe'', rs_toolCalls = None,
                     rs_usage = Some \<lparr>inputTokens = None, outputTokens = None, totalTokens = Some 7\<rparr>,
                     rs_refusal = JUndef\<rparr>
              else \<lparr>rs_content = ''42'', rs_toolCalls = None,
                     rs_usage = Some \<lparr>inputTokens = None, outputTokens = None, totalTokens = Some 50\<rparr>,
                     rs_refusal = JUndef\<rparr>), x)),
      ca_stream = None, ca_aborted = (\<lambda>_. None),
      ca_defaultExtractor = (\<lambda>answer _ _ x. (Inr (if answer = ''42'' then Fin 1 else Fin (1 / 2)), x))\<rparr>"

definition fast_then_slow :: "unit cascade" where
  "fast_then_slow =
     \<lparr>tiers = [\<lparr>tier_model = ''fast'', confidenceThreshold = Some (Fin (85 / 100)), extractorFn = None,
                tier_timeoutMs = None\<rparr>,
              \<lparr>tier_model = ''slow'', confidenceThreshold = Some (Fin 0), extractorFn = None,
                tier_timeoutMs = None\<rparr>],
      defaultThreshold = DEFAULT_THRESHOLD, fallback_throws = False, onEscalate = None\<rparr>"

definition a_request :: ModelRequest where
  "a_request =
     \<lparr>mr_model = ''slow'', mr_messages = [UserMsg ''?''], mr_tools = [], mr_outputFormat = None,
      mr_sessionId = ''s'', mr_traceId = ''t'', mr_executionId = ''e'', mr_iteration = 0\<rparr>"

lemma escalated_once:
  "cascade_generate two_models fast_then_slow a_request () =
     (Inr (\<lparr>rs_content = ''42'', rs_toolCalls = None,
             rs_usage = Some \<lparr>inputTokens = Some 0, outputTokens = Some 0, totalTokens = Some 57\<rparr>,
             rs_refusal = JUndef\<rparr>,
           \<lparr>tiersAttempted = 2, finalTierIndex = 1, finalModel = ''slow'', confidenceScore = Fin 1,
             cumulativeUsage = \<lparr>inputTokens = Some 0, outputTokens = Some 0, totalTokens = Some 57\<rparr>,
             escalated = True\<rparr>), ())"
  by (simp add: cascade_generate_def two_models_def fast_then_slow_def a_request_def check_signal_def
        ask_tier_def tier_threshold_def accept_def accumulate_def zero_usage_def escalate_def Let_def)

theorem cascade_answer_accounted_witness:
  "\<exists>seen outs r c. snd (snd (cascade_generate (watched two_models) (watched_cascade fast_then_slow) a_request ((), []))) = seen \<and>
     seen = concat (map outcome_events (zip (tiers fast_then_slow) outs)) @ [Asked ''slow'' (Inr r), Judged c] \<and>
     totalTokens (total_used (concat (map answer_of outs) @ [r])) = Some 57"
proof -
  obtain res y seen where w: "cascade_generate (watched two_models) (watched_cascade fast_then_slow) a_request ((), []) =
      (res, (y, seen))" by (metis prod.collapse)
  let ?u = "\<lparr>inputTokens = Some 0, outputTokens = Some 0, totalTokens = Some 57\<rparr>"
  from cascade_answer_accounted [OF escalated_once w] obtain outs r c where
    seen: "seen = concat (map outcome_events (zip (tiers fast_then_slow) outs)) @
         [Asked (tier_model (tiers fast_then_slow ! length outs)) (Inr r), Judged c]" and n: "length outs = 1"
    and answer: "\<lparr>rs_content = ''42'', rs_toolCalls = None, rs_usage = Some ?u, rs_refusal = JUndef\<rparr> =
         r\<lparr>rs_usage := Some (total_used (concat (map answer_of outs) @ [r]))\<rparr>"
    unfolding Let_def by (metis CascadeMetadata.select_convs(2))
  from arg_cong [OF answer, of rs_usage] have "total_used (concat (map answer_of outs) @ [r]) = ?u" by simp
  moreover have "tier_model (tiers fast_then_slow ! 1) = ''slow''" by (simp add: fast_then_slow_def)
  ultimately show ?thesis using w seen n by (intro exI [of _ seen] exI [of _ outs] exI [of _ r] exI [of _ c]) simp
qed

text \<open>
  With a streaming adapter the accepted model is asked a second time, and what is delivered
  is that second answer: no extractor has judged it, and its tokens are not in the usage.
\<close>

lemma streamed_answer_is_unjudged:
  assumes "cascade_generate E C request x = (Inr (answer, meta), x1)"
    and "ca_stream E = Some underlying"
    and "underlying (request\<lparr>mr_model := finalModel meta\<rparr>) x1 = (([ResponseChunk second], e), x2)"
  shows "cascade_stream E C request x = (([ResponseChunk (second\<lparr>rs_usage := rs_usage answer\<rparr>)], None), x2)"
  using assms by (simp add: cascade_stream_def)

end
