(* ===== verification/Write_Queue.thy ===== *)
theory Write_Queue
  imports Prelude
begin

text \<open>
  Deferred persistence writes: \<open>DeferredWriteQueue\<close> of
  \<open>packages/core/src/utils/deferred-write-queue.ts\<close> and the coordination of queues per
  session in \<open>AgentRunner\<close> (\<open>openWriteQueue\<close>, \<open>persist\<close>, \<open>awaitPendingWrites\<close> of
  \<open>agent-runner.service.ts\<close>).

  A write is a job, and a promise is represented by the job whose settlement settles it
  (\<open>None\<close> for one that was resolved from the start). The operations are the calls of the
  turns; the event loop settles a job once the promise it is chained to has settled, in any
  interleaving with the calls.
\<close>

section \<open>State\<close>

record job =
  j_queue :: nat
  j_after :: "nat option"

text \<open>
  A queue with the session key of the turn that opened it, its tail and its first failure.
\<close>

record 'e queue =
  q_key :: string
  tail :: "nat option"
  failure :: "'e option"

text \<open>
  The jobs by number, those that have settled, in the order in which they did, the queues by
  number, and \<open>pendingWrites\<close>.
\<close>

record 'e writes =
  jobs :: "job list"
  settled_log :: "nat list"
  queues :: "'e queue list"
  pendingWrites :: "string \<Rightarrow> nat option"

definition no_writes :: "'e writes" where
  "no_writes = \<lparr>jobs = [], settled_log = [], queues = [], pendingWrites = Map.empty\<rparr>"

definition has_settled :: "'e writes \<Rightarrow> nat option \<Rightarrow> bool" where
  "has_settled s p = (case p of None \<Rightarrow> True | Some n \<Rightarrow> n \<in> set (settled_log s))"

section \<open>Operations\<close>

definition openWriteQueue :: "string \<Rightarrow> 'e writes \<Rightarrow> 'e writes" where
  "openWriteQueue k s =
     s\<lparr>queues := queues s @ [\<lparr>q_key = k, tail = pendingWrites s k, failure = None\<rparr>]\<rparr>"

definition enqueue :: "nat \<Rightarrow> 'e writes \<Rightarrow> 'e writes" where
  "enqueue q s =
     s\<lparr>jobs := jobs s @ [\<lparr>j_queue = q, j_after = tail (queues s ! q)\<rparr>],
       queues := (queues s)[q := (queues s ! q)\<lparr>tail := Some (length (jobs s))\<rparr>]\<rparr>"

definition persist :: "nat \<Rightarrow> 'e writes \<Rightarrow> 'e writes" where
  "persist q s =
     (let s1 = enqueue q s;
          k = q_key (queues s1 ! q)
      in s1\<lparr>pendingWrites := (pendingWrites s1)(k := tail (queues s1 ! q))\<rparr>)"

text \<open>A job runs its write and settles; only the first failure of a queue is kept.\<close>

definition settle_job :: "nat \<Rightarrow> 'e option \<Rightarrow> 'e writes \<Rightarrow> 'e writes" where
  "settle_job n err s =
     (let q = j_queue (jobs s ! n);
          queue = queues s ! q
      in s\<lparr>settled_log := settled_log s @ [n],
           queues := (queues s)[q := queue\<lparr>failure := (if failure queue = None then err else failure queue)\<rparr>]\<rparr>)"

text \<open>The callback of \<open>persist\<close> on the settled tail.\<close>

definition forget_tail :: "nat \<Rightarrow> 'e writes \<Rightarrow> 'e writes" where
  "forget_tail n s =
     (let k = q_key (queues s ! j_queue (jobs s ! n))
      in if pendingWrites s k = Some n then s\<lparr>pendingWrites := (pendingWrites s)(k := None)\<rparr> else s)"

text \<open>\<open>flush\<close> after its wait: the failure it throws.\<close>

definition flush :: "nat \<Rightarrow> 'e writes \<Rightarrow> 'e option \<times> 'e writes" where
  "flush q s = (failure (queues s ! q), s\<lparr>queues := (queues s)[q := (queues s ! q)\<lparr>failure := None\<rparr>]\<rparr>)"

datatype 'e write_op =
    OpenQueue string
  | Persist nat
  | Settle nat "'e option"
  | ForgetTail nat
  | Flush nat
  | AwaitPending string

fun enabled :: "'e write_op \<Rightarrow> 'e writes \<Rightarrow> bool" where
  "enabled (OpenQueue k) s = True"
| "enabled (Persist q) s = (q < length (queues s))"
| "enabled (Settle n err) s =
     (n < length (jobs s) \<and> n \<notin> set (settled_log s) \<and> has_settled s (j_after (jobs s ! n)))"
| "enabled (ForgetTail n) s = (n \<in> set (settled_log s))"
| "enabled (Flush q) s = (q < length (queues s) \<and> has_settled s (tail (queues s ! q)))"
| "enabled (AwaitPending k) s = has_settled s (pendingWrites s k)"

fun perform :: "'e write_op \<Rightarrow> 'e writes \<Rightarrow> 'e writes" where
  "perform (OpenQueue k) s = openWriteQueue k s"
| "perform (Persist q) s = persist q s"
| "perform (Settle n err) s = settle_job n err s"
| "perform (ForgetTail n) s = forget_tail n s"
| "perform (Flush q) s = snd (flush q s)"
| "perform (AwaitPending k) s = s"

text \<open>
  The turns of a session follow one another when a turn queues nothing once the next turn of
  its session has opened its queue.
\<close>

definition latest_of_session :: "nat \<Rightarrow> 'e writes \<Rightarrow> bool" where
  "latest_of_session q s \<longleftrightarrow>
     (\<forall>r < length (queues s). q < r \<longrightarrow> q_key (queues s ! r) \<noteq> q_key (queues s ! q))"

fun sequential :: "'e write_op \<Rightarrow> 'e writes \<Rightarrow> bool" where
  "sequential (Persist q) s = latest_of_session q s"
| "sequential _ s = True"

inductive runs :: "('e write_op \<Rightarrow> 'e writes \<Rightarrow> bool) \<Rightarrow> 'e writes \<Rightarrow> bool"
  for discipline :: "'e write_op \<Rightarrow> 'e writes \<Rightarrow> bool" where
  start: "runs discipline no_writes"
| step: "runs discipline s \<Longrightarrow> enabled op s \<Longrightarrow> discipline op s \<Longrightarrow> runs discipline (perform op s)"

abbreviation any_interleaving :: "'e write_op \<Rightarrow> 'e writes \<Rightarrow> bool" where
  "any_interleaving op s \<equiv> True"

section \<open>Order within a queue\<close>

lemma nth_update_field: "f y = f (xs ! q) \<Longrightarrow> f (xs[q := y] ! r) = f (xs ! r)"
  by (cases "q < length xs"; cases "r = q") (auto simp: list_update_beyond)

definition queue_of :: "'e writes \<Rightarrow> nat \<Rightarrow> nat" where
  "queue_of s n = j_queue (jobs s ! n)"

definition key_of_job :: "'e writes \<Rightarrow> nat \<Rightarrow> string" where
  "key_of_job s n = q_key (queues s ! queue_of s n)"

text \<open>
  \<open>chained\<close> with a class of jobs \<open>c\<close> (those of a queue or of a session): a job is settled
  after all earlier jobs of its class, because each is chained to the one before it unless
  all earlier ones have settled.
\<close>

definition chained :: "(nat \<Rightarrow> 'k) \<Rightarrow> 'e writes \<Rightarrow> bool" where
  "chained c s \<longleftrightarrow>
     (\<forall>n < length (jobs s). (\<forall>m < n. c m = c n \<longrightarrow> m \<in> set (settled_log s)) \<or>
        (\<exists>p. j_after (jobs s ! n) = Some p \<and> p < n \<and> c p = c n \<and> (\<forall>m. p < m \<and> m < n \<longrightarrow> c m \<noteq> c n)))"

definition settled_in_order :: "(nat \<Rightarrow> 'k) \<Rightarrow> 'e writes \<Rightarrow> bool" where
  "settled_in_order c s \<longleftrightarrow>
     (\<forall>n \<in> set (settled_log s). n < length (jobs s) \<and> (\<forall>m < n. c m = c n \<longrightarrow> m \<in> set (settled_log s))) \<and>
     (\<forall>k. sorted_wrt (<) (filter (\<lambda>n. c n = k) (settled_log s)))"

lemma settle_keeps_order:
  assumes order: "settled_in_order c s" and chain: "chained c s" and can: "enabled (Settle n err) s"
  shows "settled_in_order c (settle_job n err s)"
proof -
  have earlier: "m \<in> set (settled_log s)" if "m < n" "c m = c n" for m
  proof (rule ccontr)
    assume not: "m \<notin> set (settled_log s)"
    with chain can that obtain p where p: "j_after (jobs s ! n) = Some p" "p < n" "c p = c n"
      "\<forall>m. p < m \<and> m < n \<longrightarrow> c m \<noteq> c n"
      by (auto simp: chained_def)
    from p(1) can have "p \<in> set (settled_log s)" by (simp add: has_settled_def)
    with order p(3) that not have "\<not> m \<le> p" by (auto simp: settled_in_order_def le_less)
    with p(4) that show False by auto
  qed
  have later: "m < n" if "m \<in> set (settled_log s)" "c m = c n" for m
    using order can that by (metis enabled.simps(3) linorder_neqE_nat settled_in_order_def)
  have "sorted_wrt (<) (filter (\<lambda>m. c m = k) (settled_log s @ [n]))" for k
    using order later by (auto simp: settled_in_order_def sorted_wrt_append)
  then show ?thesis
    using order earlier can by (auto simp: settled_in_order_def settle_job_def Let_def)
qed

lemma settle_keeps_chain: "chained c s \<Longrightarrow> chained c (settle_job n err s)"
  unfolding chained_def by (auto simp: settle_job_def Let_def)

text \<open>Operations that settle nothing and add no job keep both facts.\<close>

lemma order_cong:
  "jobs s' = jobs s \<Longrightarrow> settled_log s' = settled_log s \<Longrightarrow>
     settled_in_order c s' = settled_in_order c s \<and> chained c s' = chained c s"
  by (simp add: settled_in_order_def chained_def)

lemma class_cong:
  assumes "\<And>n. n < length (jobs s) \<Longrightarrow> c n = c' n"
  shows "chained c s \<longleftrightarrow> chained c' s" "settled_in_order c s \<Longrightarrow> settled_in_order c' s"
proof -
  show "chained c s \<longleftrightarrow> chained c' s"
    unfolding chained_def
  proof (intro all_cong1 imp_cong refl)
    fix n assume n: "n < length (jobs s)"
    have "c m = c' m" if "m \<le> n" for m using assms n that by auto
    then show "((\<forall>m<n. c m = c n \<longrightarrow> m \<in> set (settled_log s)) \<or>
         (\<exists>p. j_after (jobs s ! n) = Some p \<and> p < n \<and> c p = c n \<and> (\<forall>m. p < m \<and> m < n \<longrightarrow> c m \<noteq> c n))) =
       ((\<forall>m<n. c' m = c' n \<longrightarrow> m \<in> set (settled_log s)) \<or>
         (\<exists>p. j_after (jobs s ! n) = Some p \<and> p < n \<and> c' p = c' n \<and> (\<forall>m. p < m \<and> m < n \<longrightarrow> c' m \<noteq> c' n)))"
      by (auto simp: less_imp_le)
  qed
next
  assume ord: "settled_in_order c s"
  have same: "c m = c' m" if "m \<le> n" "n \<in> set (settled_log s)" for m n
    using assms ord that by (auto simp: settled_in_order_def)
  then have filters: "filter (\<lambda>n. c' n = k) (settled_log s) = filter (\<lambda>n. c n = k) (settled_log s)" for k
    by (intro filter_cong) (auto dest: same [OF order_refl])
  show "settled_in_order c' s"
    unfolding settled_in_order_def
  proof (intro conjI ballI allI impI)
    fix n assume n: "n \<in> set (settled_log s)"
    with ord show "n < length (jobs s)" by (simp add: settled_in_order_def)
    fix m assume "m < n" "c' m = c' n"
    with n same [of n n] same [of m n] have "c m = c n" by simp
    with ord n \<open>m < n\<close> show "m \<in> set (settled_log s)" by (simp add: settled_in_order_def)
  next
    fix k
    from ord show "sorted_wrt (<) (filter (\<lambda>n. c' n = k) (settled_log s))"
      by (simp add: filters settled_in_order_def)
  qed
qed

text \<open>The last job of a class, or none of the class.\<close>

definition is_last :: "(nat \<Rightarrow> 'k) \<Rightarrow> 'e writes \<Rightarrow> 'k \<Rightarrow> nat option \<Rightarrow> bool" where
  "is_last c s k t \<longleftrightarrow>
     (\<exists>p. t = Some p \<and> p < length (jobs s) \<and> c p = k \<and> (\<forall>m. p < m \<and> m < length (jobs s) \<longrightarrow> c m \<noteq> k))"

definition all_settled :: "(nat \<Rightarrow> 'k) \<Rightarrow> 'e writes \<Rightarrow> 'k \<Rightarrow> bool" where
  "all_settled c s k \<longleftrightarrow> (\<forall>n < length (jobs s). c n = k \<longrightarrow> n \<in> set (settled_log s))"

lemma last_cong:
  assumes "\<And>n. n < length (jobs s) \<Longrightarrow> c n = c' n"
  shows "is_last c s k t \<longleftrightarrow> is_last c' s k t" "all_settled c s k \<longleftrightarrow> all_settled c' s k"
proof -
  show "is_last c s k t \<longleftrightarrow> is_last c' s k t"
    unfolding is_last_def by (intro ex_cong1 conj_cong refl all_cong1 imp_cong) (auto simp: assms)
  show "all_settled c s k \<longleftrightarrow> all_settled c' s k"
    by (simp add: all_settled_def assms)
qed

lemma last_settled_all:
  assumes "settled_in_order c s" "is_last c s k t" "has_settled s t"
  shows "all_settled c s k"
  using assms
  by (auto simp: settled_in_order_def is_last_def has_settled_def all_settled_def)
     (metis linorder_neqE_nat)

text \<open>Adding a job whose predecessor is the last of its class.\<close>

lemma add_job_keeps:
  assumes "settled_in_order c s" "chained c s"
    and "is_last c s k t \<or> all_settled c s k"
    and "jobs s' = jobs s @ [\<lparr>j_queue = q, j_after = t\<rparr>]" "settled_log s' = settled_log s"
    and "c (length (jobs s)) = k"
  shows "settled_in_order c s'" "chained c s'" "is_last c s' k (Some (length (jobs s)))"
proof -
  show "settled_in_order c s'" using assms by (auto simp: settled_in_order_def less_Suc_eq)
  show "chained c s'"
    unfolding chained_def
  proof (intro allI impI)
    fix n assume "n < length (jobs s')"
    then consider "n < length (jobs s)" | "n = length (jobs s)" using assms(4) by fastforce
    then show "(\<forall>m<n. c m = c n \<longrightarrow> m \<in> set (settled_log s')) \<or>
        (\<exists>p. j_after (jobs s' ! n) = Some p \<and> p < n \<and> c p = c n \<and> (\<forall>m. p < m \<and> m < n \<longrightarrow> c m \<noteq> c n))"
    proof cases
      case 1
      with assms(2,4,5) show ?thesis by (auto simp: chained_def nth_append)
    next
      case 2
      with assms(3-6) show ?thesis by (auto simp: is_last_def all_settled_def)
    qed
  qed
  show "is_last c s' k (Some (length (jobs s)))" using assms(4,6) by (auto simp: is_last_def)
qed

section \<open>Every queue writes in order\<close>

definition queue_inv :: "'e writes \<Rightarrow> bool" where
  "queue_inv s \<longleftrightarrow>
     settled_in_order (queue_of s) s \<and> chained (queue_of s) s \<and>
     (\<forall>n < length (jobs s). queue_of s n < length (queues s)) \<and>
     (\<forall>q < length (queues s). is_last (queue_of s) s q (tail (queues s ! q)) \<or>
        (\<forall>n < length (jobs s). queue_of s n \<noteq> q))"

lemma queue_inv_persist:
  assumes "queue_inv s" "q < length (queues s)"
  shows "queue_inv (persist q s)"
proof -
  let ?s = "persist q s" and ?t = "tail (queues s ! q)" and ?n = "length (jobs s)"
  have sh: "jobs ?s = jobs s @ [\<lparr>j_queue = q, j_after = ?t\<rparr>]" "settled_log ?s = settled_log s"
    "queues ?s = (queues s)[q := (queues s ! q)\<lparr>tail := Some ?n\<rparr>]"
    by (simp_all add: persist_def enqueue_def Let_def)
  have old: "queue_of s n = queue_of ?s n" if "n < ?n" for n
    using that sh(1) by (simp add: queue_of_def nth_append)
  have new: "queue_of ?s ?n = q" using sh(1) by (simp add: queue_of_def)
  have ord: "settled_in_order (queue_of ?s) s" "chained (queue_of ?s) s"
    using assms(1) old class_cong [of s "queue_of s" "queue_of ?s"] by (auto simp: queue_inv_def)
  have tl: "is_last (queue_of ?s) s q ?t \<or> all_settled (queue_of ?s) s q"
  proof -
    from assms have "is_last (queue_of s) s q ?t \<or> all_settled (queue_of s) s q"
      unfolding queue_inv_def all_settled_def by metis
    with old last_cong [of s "queue_of s" "queue_of ?s"] show ?thesis by simp
  qed
  note keep = add_job_keeps [OF ord tl sh(1,2) new]
  have "is_last (queue_of ?s) ?s r (tail (queues ?s ! r)) \<or> (\<forall>n < length (jobs ?s). queue_of ?s n \<noteq> r)"
    if "r < length (queues ?s)" for r
  proof (cases "r = q")
    case True
    with keep(3) sh(3) assms(2) show ?thesis by simp
  next
    case False
    with that assms(1) sh(3) have "is_last (queue_of s) s r (tail (queues ?s ! r)) \<or> (\<forall>n < ?n. queue_of s n \<noteq> r)"
      by (simp add: queue_inv_def)
    then show ?thesis
    proof
      assume l: "is_last (queue_of s) s r (tail (queues ?s ! r))"
      then obtain p where p: "tail (queues ?s ! r) = Some p" "p < ?n" "queue_of s p = r"
        "\<And>m. p < m \<Longrightarrow> m < ?n \<Longrightarrow> queue_of s m \<noteq> r"
        by (auto simp: is_last_def)
      have "queue_of ?s m \<noteq> r" if "p < m" "m < length (jobs ?s)" for m
        using p(4) [of m] old [of m] new False that sh(1) by (cases "m = ?n") auto
      with p old sh(1) show ?thesis by (simp add: is_last_def)
    next
      assume "\<forall>n < ?n. queue_of s n \<noteq> r"
      with old new False sh(1) have "queue_of ?s m \<noteq> r" if "m < length (jobs ?s)" for m
        using that by (cases "m = ?n") auto
      then show ?thesis by simp
    qed
  qed
  moreover have "\<forall>n < length (jobs ?s). queue_of ?s n < length (queues ?s)"
    using assms old new sh by (auto simp: queue_inv_def less_Suc_eq)
  ultimately show ?thesis using keep by (simp add: queue_inv_def)
qed

lemma queue_inv_perform:
  assumes "queue_inv s" "enabled op s"
  shows "queue_inv (perform op s)"
proof (cases op)
  case (Persist q)
  with assms show ?thesis using queue_inv_persist [of s q] by simp
next
  case (OpenQueue k)
  let ?s = "openWriteQueue k s"
  have sh: "jobs ?s = jobs s" "settled_log ?s = settled_log s" "queue_of ?s = queue_of s"
    by (auto simp: openWriteQueue_def queue_of_def)
  have "is_last (queue_of s) ?s r (tail (queues ?s ! r)) \<or> (\<forall>n < length (jobs ?s). queue_of s n \<noteq> r)"
    if "r < length (queues ?s)" for r
    using assms that by (auto simp: queue_inv_def openWriteQueue_def nth_append is_last_def less_Suc_eq)
  with assms sh OpenQueue order_cong [of ?s s "queue_of s"] show ?thesis
    by (auto simp: queue_inv_def openWriteQueue_def)
next
  case (Settle n err)
  let ?s = "settle_job n err s"
  have sh: "jobs ?s = jobs s" "queue_of ?s = queue_of s" "length (queues ?s) = length (queues s)"
    by (auto simp: settle_job_def queue_of_def Let_def)
  have "tail (queues ?s ! r) = tail (queues s ! r)" if "r < length (queues s)" for r
    using that by (cases "r = j_queue (jobs s ! n)") (auto simp: settle_job_def Let_def)
  with assms sh Settle settle_keeps_order [of "queue_of s" s n err] settle_keeps_chain [of "queue_of s" s n err]
  show ?thesis by (auto simp: queue_inv_def is_last_def)
next
  case (ForgetTail n)
  have "jobs (forget_tail n s) = jobs s" "settled_log (forget_tail n s) = settled_log s"
    "queues (forget_tail n s) = queues s" "queue_of (forget_tail n s) = queue_of s"
    by (auto simp: forget_tail_def queue_of_def Let_def)
  with assms ForgetTail order_cong [of "forget_tail n s" s "queue_of s"] show ?thesis
    by (simp add: queue_inv_def is_last_def)
next
  case (Flush q)
  let ?s = "snd (flush q s)"
  have sh: "jobs ?s = jobs s" "settled_log ?s = settled_log s" "queue_of ?s = queue_of s"
    "length (queues ?s) = length (queues s)"
    by (auto simp: flush_def queue_of_def)
  have "tail (queues ?s ! r) = tail (queues s ! r)" if "r < length (queues s)" for r
    using that by (cases "r = q") (auto simp: flush_def)
  with assms sh Flush order_cong [of ?s s "queue_of s"] show ?thesis
    by (simp add: queue_inv_def is_last_def)
next
  case (AwaitPending k)
  with assms show ?thesis by simp
qed

lemma queue_inv_runs: "runs discipline s \<Longrightarrow> queue_inv s"
proof (induction rule: runs.induct)
  case start
  show ?case by (simp add: queue_inv_def settled_in_order_def chained_def no_writes_def)
qed (rule queue_inv_perform)

text \<open>
  The writes of a queue settle in the order in which they were queued, with nothing skipped,
  and a flush returns only when all of them have settled.
\<close>

lemma queue_writes_in_order:
  assumes "runs any_interleaving s"
  shows "settled_in_order (queue_of s) s"
    and "enabled (Flush q) s \<Longrightarrow> all_settled (queue_of s) s q"
proof -
  from queue_inv_runs [OF assms] have inv: "queue_inv s" .
  then show ord: "settled_in_order (queue_of s) s" by (simp add: queue_inv_def)
  assume "enabled (Flush q) s"
  with inv last_settled_all [OF ord, of q "tail (queues s ! q)"] show "all_settled (queue_of s) s q"
    by (auto simp: queue_inv_def all_settled_def)
qed

section \<open>Order within a session\<close>

text \<open>The tail a new turn of a session would be chained to stands for all its jobs.\<close>

definition covers :: "(nat \<Rightarrow> 'k) \<Rightarrow> 'e writes \<Rightarrow> 'k \<Rightarrow> nat option \<Rightarrow> bool" where
  "covers c s k t = (case t of None \<Rightarrow> all_settled c s k | Some n \<Rightarrow> is_last c s k (Some n))"

lemma covers_simps [simp]:
  "covers c s k None = all_settled c s k" "covers c s k (Some n) = is_last c s k (Some n)"
  by (simp_all add: covers_def)

lemma covers_cases: "covers c s k t \<Longrightarrow> is_last c s k t \<or> all_settled c s k"
  by (cases t) auto

definition session_inv :: "'e writes \<Rightarrow> bool" where
  "session_inv s \<longleftrightarrow>
     settled_in_order (key_of_job s) s \<and> chained (key_of_job s) s \<and>
     (\<forall>k. covers (key_of_job s) s k (pendingWrites s k)) \<and>
     (\<forall>q < length (queues s). latest_of_session q s \<longrightarrow>
        is_last (key_of_job s) s (q_key (queues s ! q)) (tail (queues s ! q)) \<or>
        all_settled (key_of_job s) s (q_key (queues s ! q)))"

lemma session_inv_persist:
  assumes "session_inv s" "queue_inv s" "q < length (queues s)" "latest_of_session q s"
  shows "session_inv (persist q s)"
proof -
  let ?s = "persist q s" and ?t = "tail (queues s ! q)" and ?n = "length (jobs s)" and ?k = "q_key (queues s ! q)"
  have sh: "jobs ?s = jobs s @ [\<lparr>j_queue = q, j_after = ?t\<rparr>]" "settled_log ?s = settled_log s"
    "queues ?s = (queues s)[q := (queues s ! q)\<lparr>tail := Some ?n\<rparr>]"
    "pendingWrites ?s = (pendingWrites s)(?k := Some ?n)"
    using assms(3) by (simp_all add: persist_def enqueue_def Let_def)
  have keys: "q_key (queues ?s ! r) = q_key (queues s ! r)" for r
    using assms(3) sh(3) by (cases "r = q") simp_all
  have old: "key_of_job s n = key_of_job ?s n" if "n < ?n" for n
    using that sh(1) by (simp add: key_of_job_def queue_of_def keys nth_append)
  have new: "key_of_job ?s ?n = ?k" using sh(1) by (simp add: key_of_job_def queue_of_def keys)
  have ord: "settled_in_order (key_of_job ?s) s" "chained (key_of_job ?s) s"
    using assms(1) old class_cong [of s "key_of_job s" "key_of_job ?s"] by (auto simp: session_inv_def)
  have tl: "is_last (key_of_job ?s) s ?k ?t \<or> all_settled (key_of_job ?s) s ?k"
    using assms old last_cong [of s "key_of_job s" "key_of_job ?s"] by (simp add: session_inv_def)
  note keep = add_job_keeps [OF ord tl sh(1,2) new]
  have other: "is_last (key_of_job s) s k t \<Longrightarrow> is_last (key_of_job ?s) ?s k t"
    "all_settled (key_of_job s) s k \<Longrightarrow> all_settled (key_of_job ?s) ?s k" if "k \<noteq> ?k" for k t
  proof -
    show "all_settled (key_of_job s) s k \<Longrightarrow> all_settled (key_of_job ?s) ?s k"
      using that old new sh(1,2) by (auto simp: all_settled_def less_Suc_eq)
    assume "is_last (key_of_job s) s k t"
    then obtain p where p: "t = Some p" "p < ?n" "key_of_job s p = k"
      "\<And>m. p < m \<Longrightarrow> m < ?n \<Longrightarrow> key_of_job s m \<noteq> k" by (auto simp: is_last_def)
    have "key_of_job ?s m \<noteq> k" if m: "p < m" "m < length (jobs ?s)" for m
      using p(4) [of m] old [of m] new \<open>k \<noteq> ?k\<close> m sh(1) by (cases "m = ?n") auto
    with p old sh(1) show "is_last (key_of_job ?s) ?s k t" by (simp add: is_last_def)
  qed
  have "covers (key_of_job ?s) ?s k (pendingWrites ?s k)" for k
  proof (cases "k = ?k")
    case True
    with keep(3) sh(4) show ?thesis by simp
  next
    case False
    then have "pendingWrites ?s k = pendingWrites s k" using sh(4) by simp
    moreover from assms(1) have "covers (key_of_job s) s k (pendingWrites s k)" by (simp add: session_inv_def)
    ultimately show ?thesis using other [OF False] by (cases "pendingWrites s k") auto
  qed
  moreover have "is_last (key_of_job ?s) ?s (q_key (queues ?s ! r)) (tail (queues ?s ! r)) \<or>
      all_settled (key_of_job ?s) ?s (q_key (queues ?s ! r))"
    if r: "r < length (queues ?s)" "latest_of_session r ?s" for r
  proof (cases "r = q")
    case True
    with keep(3) sh(3) assms(3) keys show ?thesis by simp
  next
    case False
    from r sh(3) keys have r': "r < length (queues s)" "latest_of_session r s"
      by (simp_all add: latest_of_session_def)
    have "q_key (queues s ! r) \<noteq> ?k"
      using False r' assms(3,4) by (metis latest_of_session_def linorder_neqE_nat)
    moreover from False sh(3) have "tail (queues ?s ! r) = tail (queues s ! r)" by simp
    ultimately show ?thesis using assms(1) r' other keys by (simp add: session_inv_def) blast
  qed
  ultimately show ?thesis using keep by (simp add: session_inv_def)
qed

lemma session_inv_open:
  assumes "session_inv s" "queue_inv s"
  shows "session_inv (openWriteQueue k s)"
proof -
  let ?s = "openWriteQueue k s" and ?q = "length (queues s)"
  have sh: "jobs ?s = jobs s" "settled_log ?s = settled_log s" "pendingWrites ?s = pendingWrites s"
    "queues ?s = queues s @ [\<lparr>q_key = k, tail = pendingWrites s k, failure = None\<rparr>]"
    by (simp_all add: openWriteQueue_def)
  have old: "key_of_job s n = key_of_job ?s n" if "n < length (jobs s)" for n
    using that assms(2) sh by (simp add: queue_inv_def key_of_job_def queue_of_def nth_append)
  note same = class_cong [of s "key_of_job s" "key_of_job ?s", OF old]
    last_cong [of s "key_of_job s" "key_of_job ?s", OF old]
  have lift: "is_last c ?s = is_last c s" "all_settled c ?s = all_settled c s" for c :: "nat \<Rightarrow> string"
    using sh by (simp_all add: is_last_def all_settled_def fun_eq_iff)
  have "is_last (key_of_job ?s) ?s (q_key (queues ?s ! r)) (tail (queues ?s ! r)) \<or>
      all_settled (key_of_job ?s) ?s (q_key (queues ?s ! r))"
    if r: "r < length (queues ?s)" "latest_of_session r ?s" for r
  proof (cases "r = ?q")
    case True
    from assms(1) have "covers (key_of_job s) s k (pendingWrites s k)" by (simp add: session_inv_def)
    with True sh same lift show ?thesis by (auto dest: covers_cases)
  next
    case False
    with r sh have r': "r < ?q" by simp
    have "latest_of_session r s"
      unfolding latest_of_session_def
    proof (intro allI impI)
      fix t assume "t < length (queues s)" "r < t"
      with r(2) r' sh show "q_key (queues s ! t) \<noteq> q_key (queues s ! r)"
        by (fastforce simp: latest_of_session_def nth_append dest: spec [of _ t])
    qed
    with assms(1) r' sh same lift show ?thesis by (auto simp: session_inv_def nth_append)
  qed
  moreover have "covers (key_of_job ?s) ?s k' t = covers (key_of_job s) s k' t" for k' t
    by (cases t) (simp_all add: same lift)
  ultimately show ?thesis
    using assms(1) sh same order_cong [of ?s s "key_of_job ?s"] by (simp add: session_inv_def)
qed

lemma session_inv_perform:
  assumes "session_inv s" "queue_inv s" "enabled op s" "sequential op s"
  shows "session_inv (perform op s)"
proof (cases op)
  case (Persist q)
  with assms session_inv_persist [of s q] show ?thesis by simp
next
  case (OpenQueue k)
  with assms session_inv_open [of s k] show ?thesis by simp
next
  case (Settle n err)
  let ?s = "settle_job n err s"
  have sh: "jobs ?s = jobs s" "length (queues ?s) = length (queues s)" "pendingWrites ?s = pendingWrites s"
    "settled_log ?s = settled_log s @ [n]"
    by (auto simp: settle_job_def Let_def)
  have qs: "q_key (queues ?s ! r) = q_key (queues s ! r)" "tail (queues ?s ! r) = tail (queues s ! r)"
    for r
    by (simp_all add: settle_job_def Let_def nth_update_field)
  have keys: "key_of_job s m = key_of_job ?s m" if "m < length (jobs s)" for m
    using that assms(2) qs sh(1) by (simp add: queue_inv_def key_of_job_def queue_of_def)
  have ord: "settled_in_order (key_of_job s) ?s" "chained (key_of_job s) ?s"
    using assms Settle settle_keeps_order [of "key_of_job s" s n err] settle_keeps_chain [of "key_of_job s" s n err]
    by (auto simp: session_inv_def)
  have lift: "is_last (key_of_job s) s k t \<Longrightarrow> is_last (key_of_job ?s) ?s k t"
    "all_settled (key_of_job s) s k \<Longrightarrow> all_settled (key_of_job ?s) ?s k" for k t
    using keys sh last_cong [of ?s "key_of_job s" "key_of_job ?s"]
    by (auto simp: is_last_def all_settled_def)
  have "settled_in_order (key_of_job ?s) ?s" "chained (key_of_job ?s) ?s"
    using ord keys sh class_cong [of ?s "key_of_job s" "key_of_job ?s"] by auto
  moreover have "latest_of_session q ?s \<longleftrightarrow> latest_of_session q s" if "q < length (queues s)" for q
    using that sh qs by (auto simp: latest_of_session_def)
  moreover have "covers (key_of_job ?s) ?s k (pendingWrites ?s k)" for k
    using assms(1) lift sh(3) by (cases "pendingWrites s k") (auto simp: session_inv_def dest: spec [of _ k])
  ultimately show ?thesis
    using assms(1) Settle sh(2) qs lift by (simp add: session_inv_def) blast
next
  case (ForgetTail n)
  let ?s = "forget_tail n s" and ?k = "q_key (queues s ! j_queue (jobs s ! n))"
  have sh: "jobs ?s = jobs s" "settled_log ?s = settled_log s" "queues ?s = queues s"
    "key_of_job ?s = key_of_job s" "latest_of_session q ?s = latest_of_session q s" for q
    by (auto simp: forget_tail_def key_of_job_def queue_of_def latest_of_session_def Let_def)
  have lift: "is_last (key_of_job s) ?s = is_last (key_of_job s) s"
    "all_settled (key_of_job s) ?s = all_settled (key_of_job s) s"
    "covers (key_of_job s) ?s = covers (key_of_job s) s"
    using sh by (simp_all add: covers_def is_last_def all_settled_def fun_eq_iff split: option.splits)
  have gone: "all_settled (key_of_job s) s ?k" if "pendingWrites s ?k = Some n"
  proof -
    from assms(1) have "covers (key_of_job s) s ?k (pendingWrites s ?k)" by (simp add: session_inv_def)
    with that have "is_last (key_of_job s) s ?k (Some n)" by simp
    with assms ForgetTail last_settled_all [of "key_of_job s" s ?k "Some n"] show ?thesis
      by (simp add: session_inv_def has_settled_def)
  qed
  have "covers (key_of_job s) s k (pendingWrites ?s k)" for k
  proof (cases "k = ?k \<and> pendingWrites s ?k = Some n")
    case True
    with gone show ?thesis by (simp add: forget_tail_def)
  next
    case False
    then have "pendingWrites ?s k = pendingWrites s k" by (auto simp: forget_tail_def Let_def)
    with assms(1) show ?thesis by (simp add: session_inv_def)
  qed
  with assms(1) ForgetTail sh lift order_cong [of ?s s "key_of_job s"] show ?thesis
    by (simp add: session_inv_def)
next
  case (Flush q)
  let ?s = "snd (flush q s)"
  have sh: "jobs ?s = jobs s" "settled_log ?s = settled_log s" "pendingWrites ?s = pendingWrites s"
    "length (queues ?s) = length (queues s)"
    by (auto simp: flush_def)
  have qs: "q_key (queues ?s ! r) = q_key (queues s ! r)" "tail (queues ?s ! r) = tail (queues s ! r)" for r
    by (simp_all add: flush_def nth_update_field)
  have kj: "key_of_job ?s = key_of_job s" using sh qs by (auto simp: key_of_job_def queue_of_def)
  have "latest_of_session r ?s = latest_of_session r s" for r
    using sh qs by (simp add: latest_of_session_def)
  moreover have "is_last c ?s = is_last c s" "all_settled c ?s = all_settled c s" for c :: "nat \<Rightarrow> string"
    using sh by (simp_all add: is_last_def all_settled_def fun_eq_iff)
  moreover from this have "covers c ?s = covers c s" for c :: "nat \<Rightarrow> string"
    by (simp add: covers_def fun_eq_iff split: option.splits)
  ultimately show ?thesis
    using assms(1) Flush sh qs kj order_cong [of ?s s "key_of_job s"] by (simp add: session_inv_def)
next
  case (AwaitPending k)
  with assms show ?thesis by simp
qed

lemma session_inv_runs: "runs sequential s \<Longrightarrow> session_inv s"
proof (induction rule: runs.induct)
  case start
  show ?case
    by (simp add: session_inv_def settled_in_order_def chained_def no_writes_def all_settled_def)
next
  case (step s op)
  with session_inv_perform [of s op] queue_inv_runs [of sequential s] show ?case by simp
qed

text \<open>A queue that may be flushed has settled all its writes.\<close>

lemma flushed_queue_settled:
  assumes "runs d s" and "enabled (Flush q) s"
  shows "all_settled (queue_of s) s q"
proof -
  from queue_inv_runs [OF assms(1)] have inv: "queue_inv s" .
  with assms(2) consider "is_last (queue_of s) s q (tail (queues s ! q))" | "\<forall>n < length (jobs s). queue_of s n \<noteq> q"
    by (auto simp: queue_inv_def)
  then show ?thesis
  proof cases
    case 1
    with inv assms(2) show ?thesis by (auto simp: queue_inv_def intro: last_settled_all)
  qed (simp add: all_settled_def)
qed

text \<open>
  C17: When the turns of a session follow one another (no turn queues a write once the next turn of its session
  has opened its queue), all writes queued for the session, by whatever turn, settle in the order in which they
  were queued and none is skipped; a turn that waits for the pending writes before it reads its history goes on only
  when every write of earlier turns has settled, and a turn whose \<open>flush\<close> goes on has settled all its own. Jobs of
  other sessions, failures and the points where tails are forgotten may interleave in any way.
\<close>

theorem session_writes_in_order:
  assumes "runs sequential s"
  shows "settled_in_order (key_of_job s) s \<and>
    (\<forall>k. enabled (AwaitPending k) s \<longrightarrow> all_settled (key_of_job s) s k) \<and>
    (\<forall>q. enabled (Flush q) s \<longrightarrow> all_settled (queue_of s) s q)"
proof -
  from session_inv_runs [OF assms] have inv: "session_inv s" .
  then have ord: "settled_in_order (key_of_job s) s" by (simp add: session_inv_def)
  have "all_settled (key_of_job s) s k" if "enabled (AwaitPending k) s" for k
  proof -
    from inv have "covers (key_of_job s) s k (pendingWrites s k)" by (simp add: session_inv_def)
    from covers_cases [OF this] last_settled_all [OF ord, of k] that show ?thesis by auto
  qed
  with ord flushed_queue_settled [OF assms] show ?thesis by blast
qed

text \<open>Operations one after another, each enabled and allowed where it happens.\<close>

fun trace :: "('e write_op \<Rightarrow> 'e writes \<Rightarrow> bool) \<Rightarrow> 'e write_op list \<Rightarrow> 'e writes \<Rightarrow> 'e writes option" where
  "trace d [] s = Some s"
| "trace d (op # ops) s = (if enabled op s \<and> d op s then trace d ops (perform op s) else None)"

lemma trace_runs: "trace d ops s = Some s' \<Longrightarrow> runs d s \<Longrightarrow> runs d s'"
  by (induction ops arbitrary: s) (auto split: if_splits intro: runs.step)

lemmas trace_runs_from_start = trace_runs [OF _ runs.start]

lemmas write_op_defs = no_writes_def openWriteQueue_def persist_def enqueue_def settle_job_def
  forget_tail_def flush_def has_settled_def latest_of_session_def Let_def

definition two_turns :: "string write_op list" where
  "two_turns =
     [OpenQueue ''s'', Persist 0, Persist 0, OpenQueue ''s'', Settle 0 (Some ''disk''), Settle 1 None,
      ForgetTail 1, AwaitPending ''s'', Persist 1, Settle 2 None]"

lemma two_turns_run: "runs sequential (the (trace sequential two_turns no_writes))"
  by (rule trace_runs_from_start [of _ two_turns]) (simp add: two_turns_def write_op_defs)

theorem session_writes_in_order_witness:
  "settled_in_order (key_of_job (the (trace sequential two_turns no_writes)))
     (the (trace sequential two_turns no_writes))"
  using session_writes_in_order [OF two_turns_run] by blast

text \<open>
  Turns of one session that overlap break this: the second turn opens its queue before the
  first has queued anything and so does not wait for it, its tail replaces the other in
  \<open>pendingWrites\<close>, and the next turn reads the history while a write is still outstanding.
\<close>

definition overlapping_turns :: "string write_op list" where
  "overlapping_turns =
     [OpenQueue ''s'', OpenQueue ''s'', Persist 0, Persist 1, Settle 1 None, AwaitPending ''s'']"

lemma overlapping_turns_escape:
  "\<exists>s. trace any_interleaving overlapping_turns no_writes = Some s \<and> enabled (AwaitPending ''s'') s \<and>
     \<not> all_settled (key_of_job s) s ''s''"
  by (simp add: overlapping_turns_def write_op_defs all_settled_def key_of_job_def queue_of_def exI [of _ 0])

end
