(* ===== verification/State_Store.thy ===== *)
theory State_Store
  imports Json_Text
begin

text \<open>
  The unified key-value store and the session store: the interface \<open>StateStore\<close> of
  \<open>packages/core/src/interfaces/state-store.interface.ts\<close> as a locale, its in-memory
  implementation \<open>stores/in-memory/in-memory-state.store.ts\<close> and
  \<open>stores/in-memory/in-memory-session.store.ts\<close>. The clock is in milliseconds; a lifetime
  in seconds is a number that may be fractional.
\<close>

section \<open>The in-memory state store\<close>

record 'v state_entry =
  e_value :: 'v
  e_expiresAt :: "rat option"

type_synonym 'v state_store = "string \<Rightarrow> 'v state_entry option"

text \<open>\<open>entry.expiresAt && now > entry.expiresAt\<close>: a lifetime that ends at 0 counts as none.\<close>

definition entry_expired :: "int \<Rightarrow> 'v state_entry \<Rightarrow> bool" where
  "entry_expired now e = (case e_expiresAt e of None \<Rightarrow> False | Some t \<Rightarrow> t \<noteq> 0 \<and> of_int now > t)"

text \<open>\<open>ttlSeconds ? Date.now() + ttlSeconds * 1000 : undefined\<close>.\<close>

definition expiry :: "int \<Rightarrow> rat option \<Rightarrow> rat option" where
  "expiry now ttl =
     (case ttl of None \<Rightarrow> None | Some t \<Rightarrow> if t = 0 then None else Some (of_int now + t * 1000))"

definition state_get :: "int \<Rightarrow> string \<Rightarrow> 'v state_store \<Rightarrow> 'v option \<times> 'v state_store" where
  "state_get now k s =
     (case s k of
        None \<Rightarrow> (None, s)
      | Some entry \<Rightarrow>
          if entry_expired now entry then (None, s(k := None)) else (Some (e_value entry), s))"

definition state_set :: "int \<Rightarrow> string \<Rightarrow> 'v \<Rightarrow> rat option \<Rightarrow> 'v state_store \<Rightarrow> 'v state_store" where
  "state_set now k v ttl s = s(k \<mapsto> \<lparr>e_value = v, e_expiresAt = expiry now ttl\<rparr>)"

definition setIfNotExists ::
    "int \<Rightarrow> string \<Rightarrow> 'v \<Rightarrow> rat option \<Rightarrow> 'v state_store \<Rightarrow> bool \<times> 'v state_store" where
  "setIfNotExists now k v ttl s =
     (case s k of
        Some entry \<Rightarrow>
          if e_expiresAt entry = None \<or> e_expiresAt entry = Some 0 \<or> \<not> entry_expired now entry
          then (False, s)
          else (True, s(k \<mapsto> \<lparr>e_value = v, e_expiresAt = expiry now ttl\<rparr>))
      | None \<Rightarrow> (True, s(k \<mapsto> \<lparr>e_value = v, e_expiresAt = expiry now ttl\<rparr>)))"

definition state_delete :: "string \<Rightarrow> 'v state_store \<Rightarrow> 'v state_store" where
  "state_delete k s = s(k := None)"

definition state_clear :: "string option \<Rightarrow> 'v state_store \<Rightarrow> 'v state_store" where
  "state_clear prefix s =
     (case prefix of
        Some (c # cs) \<Rightarrow> (\<lambda>k. if take (Suc (length cs)) k = c # cs then None else s k)
      | _ \<Rightarrow> Map.empty)"

section \<open>The contract\<close>

text \<open>
  What the callers rely on, over the entries a state still holds at a time: a value is read
  back until it is overwritten, deleted or expired, and setting it only where there is none
  succeeds exactly then.
\<close>

locale state_store =
  fixes get :: "int \<Rightarrow> string \<Rightarrow> 's \<Rightarrow> 'v option \<times> 's"
    and set_value :: "int \<Rightarrow> string \<Rightarrow> 'v \<Rightarrow> rat option \<Rightarrow> 's \<Rightarrow> 's"
    and set_new :: "int \<Rightarrow> string \<Rightarrow> 'v \<Rightarrow> rat option \<Rightarrow> 's \<Rightarrow> bool \<times> 's"
    and delete :: "string \<Rightarrow> 's \<Rightarrow> 's"
    and live :: "int \<Rightarrow> 's \<Rightarrow> string \<Rightarrow> 'v option"
  assumes get_value: "fst (get now k s) = live now s k"
    and get_keeps: "now \<le> later \<Longrightarrow> live later (snd (get now k s)) = live later s"
    and set_live: "live later (set_value now k v ttl s) k' =
       (if k' = k then (if (case expiry now ttl of None \<Rightarrow> True | Some t \<Rightarrow> t = 0 \<or> of_int later \<le> t)
                        then Some v else None)
        else live later s k')"
    and set_new_result: "fst (set_new now k v ttl s) \<longleftrightarrow> live now s k = None"
    and set_new_fresh: "live now s k = None \<Longrightarrow> snd (set_new now k v ttl s) = set_value now k v ttl s"
    and set_new_taken: "live now s k \<noteq> None \<Longrightarrow> snd (set_new now k v ttl s) = s"
    and delete_live: "live now (delete k s) = (live now s)(k := None)"
    and live_antimono: "now \<le> later \<Longrightarrow> live now s k = None \<Longrightarrow> live later s k = None"
begin

lemma read_back:
  assumes "case expiry now ttl of None \<Rightarrow> True | Some t \<Rightarrow> t = 0 \<or> of_int later \<le> t"
  shows "fst (get later k (set_value now k v ttl s)) = Some v"
  using assms by (simp add: get_value set_live)

text \<open>Attempts to take a lock at given times, all under one key: the times that succeeded.\<close>

fun attempts :: "string \<Rightarrow> 'v \<Rightarrow> rat \<Rightarrow> int list \<Rightarrow> 's \<Rightarrow> int list" where
  "attempts k v ttl [] s = []"
| "attempts k v ttl (t # ts) s =
     (case set_new t k v (Some ttl) s of
        (ok, s') \<Rightarrow> (if ok then [t] else []) @ attempts k v ttl ts s')"

definition held_until :: "string \<Rightarrow> rat \<Rightarrow> 's \<Rightarrow> bool" where
  "held_until k e s \<longleftrightarrow> (\<forall>t. of_int t \<le> e \<longrightarrow> live t s k \<noteq> None)"

lemma attempts_after:
  assumes "held_until k e s" "sorted ts" "ttl > 0"
  shows "(\<forall>t \<in> set (attempts k v ttl ts s). of_int t > e) \<and>
    sorted_wrt (\<lambda>a b. of_int b > of_int a + ttl * 1000) (attempts k v ttl ts s)"
  using assms
proof (induction ts arbitrary: s e)
  case (Cons t ts)
  show ?case
  proof (cases "live t s k = None")
    case False
    then have "attempts k v ttl (t # ts) s = attempts k v ttl ts s"
      using set_new_result [of t k v "Some ttl" s] set_new_taken [of t s k v "Some ttl"]
      by (cases "set_new t k v (Some ttl) s") auto
    with Cons show ?thesis by simp
  next
    case True
    let ?s = "set_value t k v (Some ttl) s"
    from True have eq: "attempts k v ttl (t # ts) s = t # attempts k v ttl ts ?s"
      using set_new_result [of t k v "Some ttl" s] set_new_fresh [OF True, of v "Some ttl"]
      by (cases "set_new t k v (Some ttl) s") auto
    have "held_until k (of_int t + ttl * 1000) ?s"
      using Cons.prems(3) by (simp add: held_until_def set_live expiry_def)
    from Cons.IH [OF this] Cons.prems
    have rest: "\<forall>u \<in> set (attempts k v ttl ts ?s). of_int u > of_int t + ttl * 1000"
      "sorted_wrt (\<lambda>a b. of_int b > of_int a + ttl * 1000) (attempts k v ttl ts ?s)"
      by auto
    have gt: "e < of_int t"
    proof (rule ccontr)
      assume "\<not> e < of_int t"
      then have "of_int t \<le> e" by simp
      with Cons.prems(1) have "live t s k \<noteq> None" unfolding held_until_def by blast
      with True show False by simp
    qed
    have "e < of_int u" if "u \<in> set (attempts k v ttl ts ?s)" for u
    proof -
      from rest(1) that have "of_int t + ttl * 1000 < of_int u" by blast
      with gt Cons.prems(3) show ?thesis by linarith
    qed
    with gt rest eq show ?thesis by simp
  qed
qed simp

lemma lock_spacing:
  assumes "sorted ts" "ttl > 0"
  shows "sorted_wrt (\<lambda>a b. of_int b > of_int a + ttl * 1000) (attempts k v ttl ts s)"
  using assms(1)
proof (induction ts arbitrary: s)
  case (Cons t ts)
  show ?case
  proof (cases "live t s k = None")
    case False
    then have "attempts k v ttl (t # ts) s = attempts k v ttl ts s"
      using set_new_result [of t k v "Some ttl" s] set_new_taken [of t s k v "Some ttl"]
      by (cases "set_new t k v (Some ttl) s") auto
    with Cons show ?thesis by simp
  next
    case True
    let ?s = "set_value t k v (Some ttl) s"
    from True have eq: "attempts k v ttl (t # ts) s = t # attempts k v ttl ts ?s"
      using set_new_result [of t k v "Some ttl" s] set_new_fresh [OF True, of v "Some ttl"]
      by (cases "set_new t k v (Some ttl) s") auto
    have "held_until k (of_int t + ttl * 1000) ?s"
      using assms(2) by (simp add: held_until_def set_live expiry_def)
    from attempts_after [OF this, of ts ttl v] Cons.prems assms(2) eq show ?thesis by simp
  qed
qed simp

end

text \<open>The entries of the in-memory store that have not expired.\<close>

definition state_live :: "int \<Rightarrow> 'v state_store \<Rightarrow> string \<Rightarrow> 'v option" where
  "state_live now s k =
     (case s k of None \<Rightarrow> None | Some e \<Rightarrow> if entry_expired now e then None else Some (e_value e))"

lemma entry_expired_mono: "now \<le> later \<Longrightarrow> entry_expired now e \<Longrightarrow> entry_expired later e"
proof -
  assume le: "now \<le> later" and ex: "entry_expired now e"
  have "(of_int now :: rat) \<le> of_int later" using le by simp
  with ex show ?thesis by (auto simp: entry_expired_def split: option.splits)
qed

interpretation mem_state: state_store state_get state_set setIfNotExists state_delete state_live
proof unfold_locales
  fix now later :: int and k k' and s :: "'v state_store" and v ttl
  show "fst (state_get now k s) = state_live now s k"
    by (simp add: state_get_def state_live_def split: option.splits)
  show "state_live later (snd (state_get now k s)) = state_live later s" if "now \<le> later"
    using entry_expired_mono [OF that]
    by (auto simp: state_get_def state_live_def fun_eq_iff split: option.splits)
  show "state_live later (state_set now k v ttl s) k' =
     (if k' = k then (if (case expiry now ttl of None \<Rightarrow> True | Some t \<Rightarrow> t = 0 \<or> of_int later \<le> t)
                      then Some v else None)
      else state_live later s k')"
    by (auto simp: state_set_def state_live_def entry_expired_def split: option.splits)
  show "fst (setIfNotExists now k v ttl s) \<longleftrightarrow> state_live now s k = None"
    by (auto simp: setIfNotExists_def state_live_def entry_expired_def split: option.splits)
  show "snd (setIfNotExists now k v ttl s) = state_set now k v ttl s" if "state_live now s k = None"
    using that by (auto simp: setIfNotExists_def state_set_def state_live_def entry_expired_def split: option.splits if_splits)
  show "snd (setIfNotExists now k v ttl s) = s" if "state_live now s k \<noteq> None"
    using that by (auto simp: setIfNotExists_def state_live_def split: option.splits if_splits)
  show "state_live now (state_delete k s) = (state_live now s)(k := None)"
    by (auto simp: state_delete_def state_live_def)
  show "state_live later s k = None" if "now \<le> later" "state_live now s k = None"
    using that entry_expired_mono [OF that(1)] by (auto simp: state_live_def split: option.splits if_splits)
qed

text \<open>Everything that can be done to the store, and what leaves the entry of a key to its owner.\<close>

datatype 'v store_op =
    Get_op string
  | Set_op string 'v "rat option"
  | New_op string 'v "rat option"
  | Delete_op string
  | Clear_op "string option"

fun op_step :: "int \<Rightarrow> 'v store_op \<Rightarrow> 'v state_store \<Rightarrow> 'v state_store" where
  "op_step t (Get_op k) s = snd (state_get t k s)"
| "op_step t (Set_op k v ttl) s = state_set t k v ttl s"
| "op_step t (New_op k v ttl) s = snd (setIfNotExists t k v ttl s)"
| "op_step t (Delete_op k) s = state_delete k s"
| "op_step t (Clear_op prefix) s = state_clear prefix s"

fun store_run :: "(int \<times> 'v store_op) list \<Rightarrow> 'v state_store \<Rightarrow> 'v state_store" where
  "store_run [] s = s"
| "store_run ((t, op) # ops) s = store_run ops (op_step t op s)"

fun spares :: "string \<Rightarrow> 'v store_op \<Rightarrow> bool" where
  "spares k (Set_op k' v ttl) \<longleftrightarrow> k' \<noteq> k"
| "spares k (Delete_op k') \<longleftrightarrow> k' \<noteq> k"
| "spares k (Clear_op prefix) \<longleftrightarrow> (\<exists>c cs. prefix = Some (c # cs) \<and> take (Suc (length cs)) k \<noteq> c # cs)"
| "spares k _ \<longleftrightarrow> True"

fun attempts_on :: "string \<Rightarrow> 'v store_op \<Rightarrow> bool" where
  "attempts_on k (New_op k' v ttl) \<longleftrightarrow> k' = k"
| "attempts_on k _ \<longleftrightarrow> False"

lemma held_step:
  assumes "mem_state.held_until k e s" "of_int t \<le> e" "spares k op"
  shows "mem_state.held_until k e (op_step t op s)"
proof -
  have live: "state_live t s k \<noteq> None" using assms(1,2) by (simp add: mem_state.held_until_def)
  have "op_step t op s k = s k"
  proof (cases op)
    case (Get_op k')
    with live show ?thesis by (auto simp: state_get_def state_live_def split: option.splits if_splits)
  next
    case (New_op k' v ttl)
    show ?thesis
    proof (cases "k' = k")
      case True
      with New_op live mem_state.set_new_taken [OF live] show ?thesis by simp
    next
      case False
      with New_op show ?thesis by (auto simp: setIfNotExists_def split: option.splits)
    qed
  qed (use assms(3) in \<open>auto simp: state_set_def state_delete_def state_clear_def\<close>)
  with assms(1) show ?thesis by (simp add: mem_state.held_until_def state_live_def)
qed

definition lapses :: "string \<Rightarrow> rat \<Rightarrow> 'v state_store \<Rightarrow> bool" where
  "lapses k e s \<longleftrightarrow> (\<forall>t. e < of_int t \<longrightarrow> state_live t s k = None)"

lemma lapses_step:
  assumes "lapses k e s" "spares k op" "\<not> attempts_on k op"
  shows "lapses k e (op_step t op s)"
proof -
  have "op_step t op s k = s k \<or> op_step t op s k = None"
    using assms(2,3)
    by (cases op) (auto simp: state_get_def state_set_def setIfNotExists_def state_delete_def state_clear_def
        split: option.splits)
  with assms(1) show ?thesis by (auto simp: lapses_def state_live_def)
qed

lemma held_run:
  assumes "mem_state.held_until k e s" "\<forall>(u, op) \<in> set ops. spares k op" "sorted (map fst ops @ [t'])" "of_int t' \<le> e"
  shows "mem_state.held_until k e (store_run ops s)"
  using assms
proof (induction ops arbitrary: s)
  case (Cons o' ops)
  obtain u op where o': "o' = (u, op)" by (cases o')
  from Cons.prems(3) o' have "u \<le> t'" by simp
  with Cons.prems(4) have "of_int u \<le> e" by (metis of_int_le_iff order_trans)
  with Cons o' held_step [of k e s u op] show ?case by simp
qed simp

lemma lapses_run:
  assumes "lapses k e s" "\<forall>(u, op) \<in> set ops. spares k op \<and> \<not> attempts_on k op"
  shows "lapses k e (store_run ops s)"
  using assms
proof (induction ops arbitrary: s)
  case (Cons o' ops)
  obtain u op where o': "o' = (u, op)" by (cases o')
  with Cons lapses_step [of k e s op u] show ?case by simp
qed simp

text \<open>
  C18: A lock taken with \<open>setIfNotExists\<close> excludes everyone else for its lifetime. After a successful attempt,
  as long as nobody overwrites, deletes or clears its key, whatever else is done to the store, any number of
  attempts on the same key included, another attempt succeeds only when more than the lifetime has passed; and
  when the lifetime has passed and nobody else has tried for the key, it does succeed. Times do not run
  backwards and start at 0.
\<close>

theorem lock_excludes:
  assumes "fst (setIfNotExists t k v (Some ttl) s)" "0 \<le> t" "0 < ttl" "sorted (t # map fst ops @ [t'])"
    and "\<forall>(u, op) \<in> set ops. spares k op"
    and "taken = fst (setIfNotExists t' k v' ttl' (store_run ops (snd (setIfNotExists t k v (Some ttl) s))))"
  shows "(taken \<longrightarrow> of_int t + ttl * 1000 < of_int t') \<and>
    (of_int t + ttl * 1000 < of_int t' \<and> (\<forall>(u, op) \<in> set ops. \<not> attempts_on k op) \<longrightarrow> taken)"
proof -
  let ?e = "of_int t + ttl * 1000"
  let ?s = "state_set t k v (Some ttl) s"
  from assms(1) have free: "state_live t s k = None" by (simp add: mem_state.set_new_result)
  note taken = assms(6) [unfolded mem_state.set_new_fresh [OF free] mem_state.set_new_result]
  have held: "mem_state.held_until k ?e ?s"
    using assms(3) by (simp add: mem_state.held_until_def mem_state.set_live expiry_def)
  have "of_int t' > ?e" if "taken"
  proof (rule ccontr)
    assume "\<not> ?e < of_int t'"
    then have early: "of_int t' \<le> ?e" by simp
    from held_run [OF held assms(5) _ this] assms(4) have "mem_state.held_until k ?e (store_run ops ?s)" by simp
    then have "state_live t' (store_run ops ?s) k \<noteq> None" using early unfolding mem_state.held_until_def by blast
    with that taken show False by simp
  qed
  moreover have "taken" if "?e < of_int t'" "\<forall>(u, op) \<in> set ops. \<not> attempts_on k op"
  proof -
    from assms(2,3) have "?e \<noteq> 0" using of_int_0_le_iff [of t, where 'a = rat] by linarith
    then have "lapses k ?e ?s"
      using assms(3) by (auto simp: lapses_def state_live_def state_set_def entry_expired_def expiry_def)
    from lapses_run [OF this, of ops] assms(5) that have "lapses k ?e (store_run ops ?s)" by fastforce
    with that(1) taken show ?thesis by (simp add: lapses_def)
  qed
  ultimately show ?thesis by blast
qed

theorem lock_excludes_witness:
  "(let s = snd (setIfNotExists 0 ''lock'' () (Some 1) Map.empty);
        ops = [(10, Set_op ''other'' () None), (20, Get_op ''lock''), (30, Clear_op (Some ''x''))];
        others = ops @ [(500, New_op ''lock'' () None)]
    in fst (setIfNotExists 0 ''lock'' () (Some 1) Map.empty) \<and>
       \<not> fst (setIfNotExists 1000 ''lock'' () (Some 1) (store_run others s)) \<and>
       fst (setIfNotExists 1001 ''lock'' () (Some 1) (store_run ops s)))"
proof -
  let ?s = "snd (setIfNotExists 0 ''lock'' () (Some 1) Map.empty)"
  let ?ops = "[(10, Set_op ''other'' () None), (20, Get_op ''lock''), (30, Clear_op (Some ''x''))]"
  let ?others = "?ops @ [(500, New_op ''lock'' () None)]"
  have first: "fst (setIfNotExists 0 ''lock'' () (Some 1) Map.empty)" by (simp add: setIfNotExists_def)
  have "\<not> fst (setIfNotExists 1000 ''lock'' () (Some 1) (store_run ?others ?s))"
    using lock_excludes [OF first, of ?others 1000 _ "()" "Some 1", OF _ _ _ _ refl] by simp
  moreover have "fst (setIfNotExists 1001 ''lock'' () (Some 1) (store_run ?ops ?s))"
    using lock_excludes [OF first, of ?ops 1001 _ "()" "Some 1", OF _ _ _ _ refl] by simp
  ultimately show ?thesis using first by (simp add: Let_def del: store_run.simps)
qed

section \<open>The session store\<close>

text \<open>
  Values are kept as text: a string as it is, anything else as its JSON text, of which
  \<open>undefined\<close> has none. A text that does not parse is returned as it is.
\<close>

type_synonym session_texts = "string \<Rightarrow> string option"

definition session_set :: "(rat \<Rightarrow> string) \<Rightarrow> string \<Rightarrow> jsval \<Rightarrow> session_texts \<Rightarrow> session_texts" where
  "session_set ns k v s = s(k := (case v of JStr t \<Rightarrow> Some t | _ \<Rightarrow> json_stringify ns v))"

definition session_get :: "(string \<Rightarrow> (string, jsval) result) \<Rightarrow> string \<Rightarrow> session_texts \<Rightarrow> jsval option" where
  "session_get parse k s =
     (case s k of
        None \<Rightarrow> None
      | Some raw \<Rightarrow>
          if raw = [] then None
          else case parse raw of Inl _ \<Rightarrow> Some (JStr raw) | Inr v \<Rightarrow> Some v)"

definition session_delete :: "string \<Rightarrow> session_texts \<Rightarrow> session_texts" where
  "session_delete k s = s(k := None)"

text \<open>A structured value is read back as it was written; a string may come back as another value.\<close>

lemma session_read_back:
  assumes "json_clean v" "\<not> (\<exists>t. v = JStr t)" "parse (txt_of ns v) = Inr v" "txt_of ns v \<noteq> []"
  shows "session_get parse k (session_set ns k v s) = Some v"
    and "k' \<noteq> k \<Longrightarrow> session_get parse k' (session_set ns k v s) = session_get parse k' s"
proof -
  have kept: "session_set ns k v s = s(k \<mapsto> txt_of ns v)"
    using stringify_clean [OF assms(1), of ns] assms(2) by (cases v) (simp_all add: session_set_def)
  with assms(3,4) show "session_get parse k (session_set ns k v s) = Some v" by (simp add: session_get_def)
  from kept show "session_get parse k' (session_set ns k v s) = session_get parse k' s" if "k' \<noteq> k"
    using that by (simp add: session_get_def)
qed

lemma string_payload_changes:
  assumes "parse t = Inr v" "t \<noteq> []"
  shows "session_get parse k (session_set ns k (JStr t) s) = Some v"
  using assms by (simp add: session_get_def session_set_def)

end
