(* ===== verification/Agent_Runner.thy ===== *)
theory Agent_Runner
  imports Cascade State_Store Approval_Store Scope_Key
begin

text \<open>
  The agent runner, \<open>packages/core/src/services/agent-runner.service.ts\<close>: resolving the
  registered agent and its tools, running and streaming a turn, conversation history,
  settling approvals, and recovering from in-flight checkpoints.

  The world \<open>'x\<close> is everything a turn acts on, as in the executor. Writes are made in place
  (\<open>durability: 'sync'\<close>); how queued writes are ordered is the subject of the theory of the
  write queue. Observers cannot influence a turn and are left out, and so is the measured
  duration of a result.
\<close>

lemma map_sum_Inr_iff: "map_sum f g r = Inr b \<longleftrightarrow> (\<exists>a. r = Inr a \<and> b = g a)"
  by (cases r) auto

section \<open>Collaborators\<close>

text \<open>
  A token of an agent's \<open>tools\<close> is a tool provider itself, a class or symbol the container
  may know, or any other object; \<open>isToolProvider\<close> holds exactly of what is a provider here.
\<close>

datatype tool_token = ProviderToken nat | ContainerToken nat | ObjectToken nat

fun token_id :: "tool_token \<Rightarrow> nat" where
  "token_id (ProviderToken n) = n"
| "token_id (ContainerToken n) = n"
| "token_id (ObjectToken n) = n"

record 'x ToolProvider =
  tp_getTools :: "AgentContext \<Rightarrow> string \<Rightarrow> 'x \<Rightarrow> (agent_error, 'x ResolvedTool list) result \<times> 'x"
  tp_invokeApprovedTool ::
    "(string \<Rightarrow> props \<Rightarrow> AgentContext \<Rightarrow> 'x \<Rightarrow> (agent_error, ToolExecutionResult) result \<times> 'x) option"

record 'x AgentConfig =
  ag_instructions :: string
  ag_tools :: "tool_token list"
  ag_model :: "string option"
  ag_cascade :: "'x cascade option"
  ag_limits :: "ExecutionLimits option"
  ag_toolErrorHandling :: "ToolErrorHandling option"
  ag_messageReducer :: "'x reducer option"
  ag_output :: output_layer

text \<open>A registered agent with the metadata of its decorator.\<close>

record 'x AgentProvider =
  rg_name :: "string option"
  rg_model :: "string option"
  rg_cascade :: "'x cascade option"
  rg_define :: "'x AgentConfig"

record 'x ModelAdapter =
  ma_generate :: "int option \<Rightarrow> ModelRequest \<Rightarrow> 'x \<Rightarrow> (agent_error, ModelResponse) result \<times> 'x"
  ma_stream :: "(ModelRequest \<Rightarrow> 'x \<Rightarrow> (ModelStreamChunk list \<times> agent_error option) \<times> 'x) option"
  ma_supportsStructuredOutput :: bool

text \<open>An agent runtime of another kind, which runs whole turns.\<close>

record 'x AgentRunInput =
  in_sessionId :: string
  in_message :: string
  in_tools :: "'x ResolvedTool list"
  in_model :: string
  in_instructions :: string

datatype runtime_outcome = GovernedOutcome ToolExecutionResult | RawOutcome jsval

record RuntimeResult =
  rr_sessionId :: string
  rr_output :: string
  rr_toolCalls :: "(string \<times> props \<times> runtime_outcome) list"
  rr_usage :: ModelUsage

record 'x RuntimeAdapter =
  ra_execute :: "'x AgentRunInput \<Rightarrow> 'x \<Rightarrow> (agent_error, RuntimeResult) result \<times> 'x"
  ra_stream :: "('x AgentRunInput \<Rightarrow> 'x \<Rightarrow> (unit, 'x) stream) option"

text \<open>What a session store holds under a key: a usable record, or some other value.\<close>

record SessionRecord =
  sr_sessionId :: string
  sr_messages :: "ModelMessage list"
  sr_updatedAt :: string

datatype session_value = Usable SessionRecord | Unusable

fun isSessionRecord :: "session_value option \<Rightarrow> bool" where
  "isSessionRecord (Some (Usable _)) = True"
| "isSessionRecord _ = False"

record 'x SessionStore =
  ss_get :: "string \<Rightarrow> 'x \<Rightarrow> (agent_error, session_value option) result \<times> 'x"
  ss_set :: "string \<Rightarrow> SessionRecord \<Rightarrow> 'x \<Rightarrow> (agent_error, unit) result \<times> 'x"

record 'x ApprovalRecords =
  as_get :: "string \<Rightarrow> 'x \<Rightarrow> (agent_error, PendingApproval option) result \<times> 'x"
  as_save :: "PendingApproval \<Rightarrow> 'x \<Rightarrow> (agent_error, unit) result \<times> 'x"

record 'x CheckpointStore =
  ck_get :: "string \<Rightarrow> 'x \<Rightarrow> (agent_error, InFlightCheckpoint option) result \<times> 'x"
  ck_set :: "string \<Rightarrow> InFlightCheckpoint \<Rightarrow> rat \<Rightarrow> 'x \<Rightarrow> (agent_error, unit) result \<times> 'x"

text \<open>The module options and injected collaborators of the runner and its executor.\<close>

record 'x runner_env =
  re_agentProviders :: "'x AgentProvider list"
  re_containerAgents :: "'x AgentProvider list option"
  re_defaultModel :: string
  re_limits :: "ExecutionLimits option"
  re_toolErrorHandling :: "ToolErrorHandling option"
  re_messageReducer :: "'x reducer option"
  re_sessionEnabled :: "bool option"
  re_sessionMaxMessages :: "int option"
  re_approvalTtlSeconds :: "rat option"
  re_checkpointTtlSeconds :: "rat option"
  re_providerObject :: "nat \<Rightarrow> 'x ToolProvider"
  re_containerProvider :: "nat \<Rightarrow> 'x ToolProvider option"
  re_buildLocal :: "nat list \<Rightarrow> AgentContext \<Rightarrow> string \<Rightarrow> rat option \<Rightarrow> 'x \<Rightarrow> 'x ResolvedTool list \<times> 'x"
  re_invokeLocal :: "nat list \<Rightarrow> string \<Rightarrow> props \<Rightarrow> AgentContext \<Rightarrow> string \<Rightarrow> 'x
     \<Rightarrow> (agent_error, ToolExecutionResult) result \<times> 'x"
  re_modelAdapter :: "'x ModelAdapter option"
  re_runtimeAdapter :: "'x RuntimeAdapter option"
  re_optionsSessionStore :: "'x SessionStore option"
  re_sessionStore :: "'x SessionStore option"
  re_approvalStore :: "'x ApprovalRecords option"
  re_optionsStateStore :: "'x CheckpointStore option"
  re_stateStore :: "'x CheckpointStore option"
  re_callerAborted :: "'x \<Rightarrow> bool"
  re_abortReason :: "int option \<Rightarrow> 'x \<Rightarrow> agent_error option option"
  re_timedOut :: "int option \<Rightarrow> 'x \<Rightarrow> bool"
  re_now :: "'x \<Rightarrow> int"
  re_isoNow :: "'x \<Rightarrow> string"
  re_uuid :: "'x \<Rightarrow> string \<times> 'x"
  re_extractor :: "'x extractor"
  re_so :: so_env
  re_number :: "rat \<Rightarrow> string"

section \<open>Agents and tools\<close>

definition getAgentMap :: "'x runner_env \<Rightarrow> string \<Rightarrow> 'x AgentProvider option" where
  "getAgentMap E =
     fold (\<lambda>agent m. case rg_name agent of
                        Some (c # cs) \<Rightarrow> m(c # cs \<mapsto> agent)
                      | _ \<Rightarrow> m)
       (if re_agentProviders E = [] then nullish (re_containerAgents E) [] else re_agentProviders E)
       Map.empty"

fun resolveProviderInstance :: "'x runner_env \<Rightarrow> tool_token \<Rightarrow> 'x ToolProvider option" where
  "resolveProviderInstance E (ProviderToken n) = Some (re_providerObject E n)"
| "resolveProviderInstance E (ContainerToken n) = re_containerProvider E n"
| "resolveProviderInstance E (ObjectToken n) = None"

fun collect_tools ::
    "'x runner_env \<Rightarrow> tool_token list \<Rightarrow> AgentContext \<Rightarrow> string \<Rightarrow> 'x
       \<Rightarrow> (agent_error, 'x ResolvedTool list \<times> nat list) result \<times> 'x" where
  "collect_tools E [] ctx agent_name x = (Inr ([], []), x)"
| "collect_tools E (token # tokens) ctx agent_name x =
     (case resolveProviderInstance E token of
        Some provider \<Rightarrow>
          and_then (tp_getTools provider ctx agent_name x) (\<lambda>found x.
          and_then (collect_tools E tokens ctx agent_name x) (\<lambda>(tools, locals) x.
            (Inr (found @ tools, locals), x)))
      | None \<Rightarrow>
          and_then (collect_tools E tokens ctx agent_name x) (\<lambda>(tools, locals) x.
            (Inr (tools, token_id token # locals), x)))"

definition buildAgentTools ::
    "'x runner_env \<Rightarrow> tool_token list \<Rightarrow> AgentContext \<Rightarrow> string \<Rightarrow> 'x
       \<Rightarrow> (agent_error, 'x ResolvedTool list) result \<times> 'x" where
  "buildAgentTools E tokens ctx agent_name x =
     and_then (collect_tools E tokens ctx agent_name x) (\<lambda>(tools, locals) x.
       if locals = [] then (Inr tools, x)
       else case re_buildLocal E locals ctx agent_name (re_approvalTtlSeconds E) x of
              (found, x) \<Rightarrow> (Inr (tools @ found), x))"

text \<open>
  The providers are asked in order for an approved tool, until one of them has it; classes
  without a provider are asked last, all together.
\<close>

fun ask_providers ::
    "'x runner_env \<Rightarrow> tool_token list \<Rightarrow> string \<Rightarrow> props \<Rightarrow> AgentContext \<Rightarrow> nat list \<Rightarrow> 'x
       \<Rightarrow> (agent_error, ToolExecutionResult + nat list) result \<times> 'x" where
  "ask_providers E [] tool_name targs ctx locals x = (Inr (Inr locals), x)"
| "ask_providers E (token # tokens) tool_name targs ctx locals x =
     (case resolveProviderInstance E token of
        Some provider \<Rightarrow>
          (case tp_invokeApprovedTool provider of
             Some invoke \<Rightarrow>
               (case invoke tool_name targs ctx x of
                  (Inr r, x) \<Rightarrow> (Inr (Inl r), x)
                | (Inl (ApprovalToolNotFound _), x) \<Rightarrow> ask_providers E tokens tool_name targs ctx locals x
                | (Inl e, x) \<Rightarrow> (Inl e, x))
           | None \<Rightarrow> ask_providers E tokens tool_name targs ctx locals x)
      | None \<Rightarrow> ask_providers E tokens tool_name targs ctx (locals @ [token_id token]) x)"

definition invokeApprovedToolFromConfig ::
    "'x runner_env \<Rightarrow> tool_token list \<Rightarrow> string \<Rightarrow> props \<Rightarrow> AgentContext \<Rightarrow> string \<Rightarrow> 'x
       \<Rightarrow> (agent_error, ToolExecutionResult) result \<times> 'x" where
  "invokeApprovedToolFromConfig E tokens tool_name targs ctx agent_name x =
     and_then (ask_providers E tokens tool_name targs ctx [] x) (\<lambda>found x.
       case found of
         Inl r \<Rightarrow> (Inr r, x)
       | Inr locals \<Rightarrow>
           if locals \<noteq> [] then re_invokeLocal E locals tool_name targs ctx agent_name x
           else (Inl (ApprovalToolNotFound tool_name), x))"

section \<open>History\<close>

definition DEFAULT_SESSION_MAX_MESSAGES :: int where
  "DEFAULT_SESSION_MAX_MESSAGES = 40"

text \<open>A tenant that is missing or empty leaves the session identifier alone as the key.\<close>

definition sessionKey :: "AgentContext \<Rightarrow> string" where
  "sessionKey ctx =
     (case tenantId (security ctx) of
        Some (c # cs) \<Rightarrow> scopeKey plain_number [PartStr (c # cs), PartStr (sessionId ctx)]
      | _ \<Rightarrow> sessionId ctx)"

definition resolveSessionStore :: "'x runner_env \<Rightarrow> 'x SessionStore option" where
  "resolveSessionStore E =
     (case re_optionsSessionStore E of Some s \<Rightarrow> Some s | None \<Rightarrow> re_sessionStore E)"

definition kept_history :: "'x runner_env \<Rightarrow> ModelMessage list \<Rightarrow> ModelMessage list" where
  "kept_history E msgs =
     trimHistory (withoutSystemMessages msgs)
       (nullish (re_sessionMaxMessages E) DEFAULT_SESSION_MAX_MESSAGES)"

definition loadRawHistory :: "'x runner_env \<Rightarrow> AgentContext \<Rightarrow> 'x \<Rightarrow> ModelMessage list option \<times> 'x" where
  "loadRawHistory E ctx x =
     (case resolveSessionStore E of
        None \<Rightarrow> (None, x)
      | Some store \<Rightarrow>
          (case ss_get store (sessionKey ctx) x of
             (Inr (Some (Usable r)), x) \<Rightarrow> (Some (sr_messages r), x)
           | (_, x) \<Rightarrow> (None, x)))"

definition loadHistory :: "'x runner_env \<Rightarrow> AgentContext \<Rightarrow> 'x \<Rightarrow> ModelMessage list \<times> 'x" where
  "loadHistory E ctx x =
     (case resolveSessionStore E of
        None \<Rightarrow> ([], x)
      | Some store \<Rightarrow>
          (case ss_get store (sessionKey ctx) x of
             (Inr (Some (Usable r)), x) \<Rightarrow> (kept_history E (sr_messages r), x)
           | (_, x) \<Rightarrow> ([], x)))"

definition saveHistory ::
    "'x runner_env \<Rightarrow> AgentContext \<Rightarrow> ModelMessage list \<Rightarrow> 'x \<Rightarrow> (agent_error, unit) result \<times> 'x" where
  "saveHistory E ctx msgs x =
     (case resolveSessionStore E of
        None \<Rightarrow> (Inr (), x)
      | Some store \<Rightarrow>
          ss_set store (sessionKey ctx)
            \<lparr>sr_sessionId = sessionId ctx, sr_messages = kept_history E msgs, sr_updatedAt = re_isoNow E x\<rparr> x)"

section \<open>Checkpoints\<close>

text \<open>The stored form of an output specification, and reading it back.\<close>

definition stored_json :: "StructuredOutputSpec \<Rightarrow> jsval" where
  "stored_json s =
     JObj ([(''schema'', JObj (so_schema s))] @ opt_member ''name'' (map_option JStr (so_name s)) @
           opt_member ''description'' (map_option JStr (so_description s)) @
           opt_member ''strict'' (map_option JBool (so_strict s)) @
           opt_member ''maxRepairAttempts'' (map_option JNum (so_maxRepairAttempts s)))"

definition stored_of_json :: "jsval \<Rightarrow> StructuredOutputSpec option" where
  "stored_of_json v =
     (case v of
        JObj ps \<Rightarrow>
          (case get_prop ps ''schema'' of
             JObj schema \<Rightarrow>
               Some \<lparr>so_name = (case get_prop ps ''name'' of JStr s \<Rightarrow> Some s | _ \<Rightarrow> None),
                 so_description = (case get_prop ps ''description'' of JStr s \<Rightarrow> Some s | _ \<Rightarrow> None),
                 so_strict = (case get_prop ps ''strict'' of JBool b \<Rightarrow> Some b | _ \<Rightarrow> None),
                 so_maxRepairAttempts = (case get_prop ps ''maxRepairAttempts'' of JNum n \<Rightarrow> Some n | _ \<Rightarrow> None),
                 so_validate = None, so_schema = schema\<rparr>
           | _ \<Rightarrow> None)
      | _ \<Rightarrow> None)"

lemma stored_of_json_inverse: "so_validate s = None \<Longrightarrow> stored_of_json (stored_json s) = Some s"
  by (cases s; cases "so_name s"; cases "so_description s"; cases "so_strict s"; cases "so_maxRepairAttempts s")
     (simp_all add: stored_json_def stored_of_json_def opt_member_def get_prop_def)

definition saveCheckpoint ::
    "'x runner_env \<Rightarrow> string \<Rightarrow> ModelMessage list \<Rightarrow> StructuredOutputSpec option \<Rightarrow> 'x
       \<Rightarrow> (agent_error, unit) result \<times> 'x" where
  "saveCheckpoint E approval_id msgs spec x =
     (case re_approvalStore E of
        None \<Rightarrow> (Inr (), x)
      | Some store \<Rightarrow>
          (case as_get store approval_id x of
             (Inr (Some p), x) \<Rightarrow>
               (Inr (), snd (as_save store
                  (p\<lparr>checkpoint := Some \<lparr>cp_version = APPROVAL_CHECKPOINT_VERSION,
                       cp_messages = withoutSystemMessages msgs,
                       cp_structuredOutput = map_option stored_json spec\<rparr>\<rparr>) x))
           | (_, x) \<Rightarrow> (Inr (), x)))"

definition resolveResumeHistory ::
    "'x runner_env \<Rightarrow> PendingApproval \<Rightarrow> 'x \<Rightarrow> (agent_error, ModelMessage list) result \<times> 'x" where
  "resolveResumeHistory E pnd x =
     (case checkpoint pnd of
        Some cp \<Rightarrow>
          if cp_version cp \<noteq> APPROVAL_CHECKPOINT_VERSION
          then (Inl (ApprovalCheckpointVersion (ap_id pnd) (cp_version cp) APPROVAL_CHECKPOINT_VERSION), x)
          else (Inr (cp_messages cp), x)
      | None \<Rightarrow>
          (case loadRawHistory E (ap_context pnd) x of
             (None, x) \<Rightarrow> (Inl (ApprovalTranscriptMissing (nullish (ap_toolCallId pnd) [])), x)
           | (Some history, x) \<Rightarrow> (Inr history, x)))"

definition DEFAULT_CHECKPOINT_TTL_SECONDS :: rat where
  "DEFAULT_CHECKPOINT_TTL_SECONDS = 86400"

definition resolveStateStore :: "'x runner_env \<Rightarrow> 'x CheckpointStore option" where
  "resolveStateStore E = (case re_optionsStateStore E of Some s \<Rightarrow> Some s | None \<Rightarrow> re_stateStore E)"

definition execution_key :: "AgentContext \<Rightarrow> InFlightCheckpoint \<Rightarrow> string" where
  "execution_key ctx cp = ''checkpoint:'' @ sessionKey ctx @ '':'' @ cv_executionId cp"

definition latest_key :: "AgentContext \<Rightarrow> string" where
  "latest_key ctx = ''checkpoint:latest:'' @ sessionKey ctx"

definition saveInFlightCheckpoint ::
    "'x runner_env \<Rightarrow> AgentContext \<Rightarrow> InFlightCheckpoint \<Rightarrow> 'x \<Rightarrow> (agent_error, unit) result \<times> 'x" where
  "saveInFlightCheckpoint E ctx cp x =
     (case resolveStateStore E of
        None \<Rightarrow> (Inr (), x)
      | Some store \<Rightarrow>
          (let ttl = nullish (re_checkpointTtlSeconds E) DEFAULT_CHECKPOINT_TTL_SECONDS in
           case ck_set store (execution_key ctx cp) cp ttl x of
             (Inl _, x) \<Rightarrow> (Inr (), x)
           | (Inr _, x) \<Rightarrow> (Inr (), snd (ck_set store (latest_key ctx) cp ttl x))))"

section \<open>Preparing a turn\<close>

record RunContext =
  rc_userId :: "string option"
  rc_tenantId :: "string option"
  rc_roles :: "string list option"
  rc_permissions :: "string list option"
  rc_data :: "(string \<times> jsval) list option"
  rc_traceId :: "string option"
  rc_parentTraceId :: "string option"
  rc_rootTraceId :: "string option"

definition no_context :: RunContext where
  "no_context = \<lparr>rc_userId = None, rc_tenantId = None, rc_roles = None, rc_permissions = None,
     rc_data = None, rc_traceId = None, rc_parentTraceId = None, rc_rootTraceId = None\<rparr>"

record 'x RunInput =
  ri_sessionId :: string
  ri_message :: string
  ri_context :: "RunContext option"
  ri_limits :: "ExecutionLimits option"
  ri_toolErrorHandling :: "ToolErrorHandling option"
  ri_messageReducer :: "'x reducer option"
  ri_cascade :: "'x cascade option"
  ri_history :: "bool option"
  ri_output :: output_layer

record 'x PreparedRun =
  pr_config :: "'x AgentConfig"
  pr_model :: string
  pr_cascade :: "'x cascade option"
  pr_context :: AgentContext
  pr_tools :: "'x ResolvedTool list"
  pr_limits :: "ExecutionLimits option"
  pr_toolErrorHandling :: "ToolErrorHandling option"
  pr_messageReducer :: "'x reducer option"
  pr_structuredOutput :: "StructuredOutputSpec option"

text \<open>\<open>a ?? b\<close> of two values that may both be missing.\<close>

definition or_else :: "'a option \<Rightarrow> 'a option \<Rightarrow> 'a option" where
  "or_else a b = (case a of None \<Rightarrow> b | Some x \<Rightarrow> Some x)"

lemma or_else_simps [simp]: "or_else None b = b" "or_else (Some x) b = Some x"
  by (simp_all add: or_else_def)

definition resolve_spec ::
    "'x runner_env \<Rightarrow> output_layer list \<Rightarrow> (agent_error, StructuredOutputSpec option) result" where
  "resolve_spec E layers = fst (resolveStructuredOutput (re_so E) (map Some layers) [])"

definition security_of :: "RunContext \<Rightarrow> AgentSecurityContext" where
  "security_of c =
     \<lparr>userId = rc_userId c, tenantId = rc_tenantId c, roles = rc_roles c, permissions = rc_permissions c\<rparr>"

definition deadline_of :: "'x runner_env \<Rightarrow> ExecutionLimits option \<Rightarrow> 'x \<Rightarrow> int option" where
  "deadline_of E limits x = map_option (\<lambda>ms. re_now E x + ms) (Option.bind limits timeoutMs)"

definition unregistered :: "string \<Rightarrow> string" where
  "unregistered agent_name = ''Agent '' @ quoted agent_name @ '' is not registered. ''"

definition fresh_uuid :: "'x runner_env \<Rightarrow> string option \<Rightarrow> 'x \<Rightarrow> string \<times> 'x" where
  "fresh_uuid E given x = (case given of Some t \<Rightarrow> (t, x) | None \<Rightarrow> re_uuid E x)"

definition prepareRun ::
    "'x runner_env \<Rightarrow> string \<Rightarrow> 'x RunInput \<Rightarrow> 'x \<Rightarrow> (agent_error, 'x PreparedRun) result \<times> 'x" where
  "prepareRun E agent_name input x =
     (case getAgentMap E agent_name of
        None \<Rightarrow>
          (Inl (Thrown (unregistered agent_name @ ''Add it to AgenticModule.forFeature({ agents: [...] }).'')), x)
      | Some agent \<Rightarrow>
          (let config = rg_define agent;
               limits = or_else (ri_limits input) (or_else (ag_limits config) (re_limits E));
               until = deadline_of E limits x;
               c = nullish (ri_context input) no_context
           in case fresh_uuid E (rc_traceId c) x of
                (trace, x) \<Rightarrow>
                  (let ctx = \<lparr>security = security_of c, sessionId = ri_sessionId input, traceId = trace,
                         parentTraceId = rc_parentTraceId c,
                         rootTraceId = or_else (rc_rootTraceId c)
                           (if nullish (rc_parentTraceId c) [] \<noteq> [] then None else Some trace),
                         ctx_data = rc_data c, deadline = until\<rparr>
                   in and_then (buildAgentTools E (ag_tools config) ctx agent_name x) (\<lambda>tools x.
                        (map_sum id (\<lambda>spec.
                           \<lparr>pr_config = config,
                            pr_model = nullish (or_else (ag_model config) (rg_model agent)) (re_defaultModel E),
                            pr_cascade = or_else (ri_cascade input) (or_else (ag_cascade config) (rg_cascade agent)),
                            pr_context = ctx, pr_tools = tools, pr_limits = limits,
                            pr_toolErrorHandling = or_else (ri_toolErrorHandling input)
                              (or_else (ag_toolErrorHandling config) (re_toolErrorHandling E)),
                            pr_messageReducer = or_else (ri_messageReducer input)
                              (or_else (ag_messageReducer config) (re_messageReducer E)),
                            pr_structuredOutput = spec\<rparr>)
                          (resolve_spec E [ag_output config, ri_output input]), x)))))"

section \<open>Handing a turn to the executor\<close>

definition useBuiltInRuntime :: "'x runner_env \<Rightarrow> bool" where
  "useBuiltInRuntime E = (re_modelAdapter E \<noteq> None)"

text \<open>\<open>resolveEffectiveAdapter\<close>: the model adapter, behind the cascade when there is one.\<close>

definition cascade_env_of :: "'x runner_env \<Rightarrow> 'x ModelAdapter \<Rightarrow> int option \<Rightarrow> 'x cascade_env" where
  "cascade_env_of E adapter ms =
     \<lparr>ca_generate = ma_generate adapter, ca_stream = ma_stream adapter, ca_aborted = re_abortReason E ms,
      ca_defaultExtractor = re_extractor E\<rparr>"

definition resolveEffectiveAdapter ::
    "'x runner_env \<Rightarrow> 'x ModelAdapter \<Rightarrow> 'x cascade option \<Rightarrow> int option \<Rightarrow> 'x ModelAdapter" where
  "resolveEffectiveAdapter E adapter spec ms =
     (case spec of
        None \<Rightarrow> adapter
      | Some C \<Rightarrow>
          (let CE = cascade_env_of E adapter ms in
           \<lparr>ma_generate = (\<lambda>_ request x.
              case cascade_generate CE C request x of (r, x) \<Rightarrow> (map_sum id fst r, x)),
            ma_stream = Some (cascade_stream CE C),
            ma_supportsStructuredOutput = False\<rparr>))"

definition no_adapter :: "'x ModelAdapter" where
  "no_adapter = \<lparr>ma_generate = (\<lambda>_ _ x. (Inl RuntimeNotConfigured, x)), ma_stream = None,
     ma_supportsStructuredOutput = False\<rparr>"

record 'x turn_request =
  tr_sessionId :: string
  tr_model :: string
  tr_cascade :: "'x cascade option"
  tr_tools :: "'x ResolvedTool list"
  tr_traceId :: string
  tr_limits :: "ExecutionLimits option"
  tr_messageReducer :: "'x reducer option"
  tr_structuredOutput :: "StructuredOutputSpec option"
  tr_onTranscript :: "(ModelMessage list \<Rightarrow> 'x \<Rightarrow> (agent_error, unit) result \<times> 'x) option"
  tr_context :: AgentContext

text \<open>
  The environment the executor builds for a request; the callbacks for checkpoints and
  suspension are the same for every kind of turn.
\<close>

definition turn_env :: "'x runner_env \<Rightarrow> 'x turn_request \<Rightarrow> 'x xenv" where
  "turn_env E r =
     (let ms = Option.bind (tr_limits r) timeoutMs;
          base = nullish (re_modelAdapter E) no_adapter;
          adapter = resolveEffectiveAdapter E base (tr_cascade r) ms
      in \<lparr>x_sessionId = tr_sessionId r, x_model = tr_model r, x_tools = tr_tools r,
          x_traceId = Some (tr_traceId r), x_pendingApprovalToolCallId = None,
          x_structuredOutput = tr_structuredOutput r, x_limits = resolveLimits (tr_limits r),
          x_toolErrorHandling = ReportErrors, x_adapterAvailable = useBuiltInRuntime E,
          x_generate = ma_generate adapter None, x_stream = ma_stream adapter,
          x_supportsStructuredOutput = ma_supportsStructuredOutput base,
          x_messageReducer = tr_messageReducer r, x_onTranscript = tr_onTranscript r,
          x_onSuspend = Some (saveCheckpoint E),
          x_onCheckpoint = Some (saveInFlightCheckpoint E (tr_context r)),
          x_aborted = (\<lambda>x. re_abortReason E ms x \<noteq> None), x_timedOut = re_timedOut E ms,
          x_now = re_isoNow E, x_so = re_so E, x_number = re_number E\<rparr>)"

section \<open>Running a turn\<close>

definition historyEnabled :: "'x runner_env \<Rightarrow> 'x RunInput \<Rightarrow> bool" where
  "historyEnabled E input \<longleftrightarrow>
     nullish (ri_history input) (nullish (re_sessionEnabled E) True) \<and> resolveSessionStore E \<noteq> None"

definition run_request :: "'x runner_env \<Rightarrow> 'x RunInput \<Rightarrow> 'x PreparedRun \<Rightarrow> 'x turn_request" where
  "run_request E input p =
     \<lparr>tr_sessionId = ri_sessionId input, tr_model = pr_model p, tr_cascade = pr_cascade p,
      tr_tools = pr_tools p, tr_traceId = traceId (pr_context p), tr_limits = pr_limits p,
      tr_messageReducer = pr_messageReducer p, tr_structuredOutput = pr_structuredOutput p,
      tr_onTranscript = (if historyEnabled E input then Some (saveHistory E (pr_context p)) else None),
      tr_context = pr_context p\<rparr>"

definition history_for :: "'x runner_env \<Rightarrow> 'x RunInput \<Rightarrow> AgentContext \<Rightarrow> 'x \<Rightarrow> ModelMessage list option \<times> 'x" where
  "history_for E input ctx x =
     (if historyEnabled E input then (case loadHistory E ctx x of (h, x) \<Rightarrow> (Some h, x)) else (None, x))"

definition runtime_input :: "'x RunInput \<Rightarrow> 'x PreparedRun \<Rightarrow> 'x AgentRunInput" where
  "runtime_input input p =
     \<lparr>in_sessionId = ri_sessionId input, in_message = ri_message input, in_tools = pr_tools p,
      in_model = pr_model p, in_instructions = ag_instructions (pr_config p)\<rparr>"

definition requireRuntimeAdapter :: "'x runner_env \<Rightarrow> (agent_error, 'x RuntimeAdapter) result" where
  "requireRuntimeAdapter E =
     (case re_runtimeAdapter E of None \<Rightarrow> Inl RuntimeNotConfigured | Some a \<Rightarrow> Inr a)"

datatype run_result = BuiltIn AgentResult | Delegated RuntimeResult

definition run ::
    "'x runner_env \<Rightarrow> string \<Rightarrow> 'x RunInput \<Rightarrow> 'x \<Rightarrow> (agent_error, run_result) result \<times> 'x" where
  "run E agent_name input x =
     and_then (prepareRun E agent_name input x) (\<lambda>p x.
       if useBuiltInRuntime E
       then case history_for E input (pr_context p) x of
              (history, x) \<Rightarrow>
                (case re_uuid E x of
                   (uuid, x) \<Rightarrow>
                     (case execute_turn (turn_env E (run_request E input p)) (pr_limits p)
                             (pr_toolErrorHandling p) uuid (Some (ag_instructions (pr_config p))) history
                             (ri_message input) x of
                        (r, x) \<Rightarrow> (map_sum id BuiltIn r, x)))
       else if pr_structuredOutput p \<noteq> None then (Inl (StructuredOutputNotSupported agent_name), x)
       else case requireRuntimeAdapter E of
              Inl e \<Rightarrow> (Inl e, x)
            | Inr adapter \<Rightarrow>
                (case ra_execute adapter (runtime_input input p) x of
                   (r, x) \<Rightarrow> (map_sum id Delegated r, x)))"

text \<open>The events made up for a turn of a runtime that does not stream.\<close>

fun outcome_of :: "runtime_outcome \<Rightarrow> ToolExecutionResult" where
  "outcome_of (GovernedOutcome r) = r"
| "outcome_of (RawOutcome v) = Success v None"

fun runtime_calls ::
    "'x runner_env \<Rightarrow> (string \<times> props \<times> runtime_outcome) list \<Rightarrow> 'x \<Rightarrow> AgentStreamEvent list \<times> 'x" where
  "runtime_calls E [] x = ([], x)"
| "runtime_calls E ((tool_name, targs, r) # calls) x =
     (case re_uuid E x of
        (uuid, x) \<Rightarrow>
          (let i = ''call_'' @ take 8 uuid in
           case runtime_calls E calls x of
             (events, x) \<Rightarrow>
               ([Ev_tool_start i tool_name targs, Ev_action_call i tool_name targs,
                 Ev_tool_result i tool_name (outcome_of r), Ev_action_observation i tool_name (outcome_of r)] @
                events, x)))"

definition runStream :: "'x runner_env \<Rightarrow> string \<Rightarrow> 'x RunInput \<Rightarrow> 'x \<Rightarrow> (unit, 'x) stream" where
  "runStream E agent_name input x =
     yield_then ([], prepareRun E agent_name input x) (\<lambda>p x.
       if useBuiltInRuntime E
       then case history_for E input (pr_context p) x of
              (history, x) \<Rightarrow>
                (case re_uuid E x of
                   (uuid, x) \<Rightarrow>
                     execute_stream (turn_env E (run_request E input p)) (pr_limits p)
                       (pr_toolErrorHandling p) uuid (Some (ag_instructions (pr_config p))) history
                       (ri_message input) x)
       else if pr_structuredOutput p \<noteq> None then ([], (Inl (StructuredOutputNotSupported agent_name), x))
       else yield_then ([], (requireRuntimeAdapter E, x)) (\<lambda>adapter x.
         case ra_stream adapter of
           Some adapter_stream \<Rightarrow> adapter_stream (runtime_input input p) x
         | None \<Rightarrow>
             yield_then ([], ra_execute adapter (runtime_input input p) x) (\<lambda>res x.
               case runtime_calls E (rr_toolCalls res) x of
                 (events, x) \<Rightarrow>
                   (events @ [Ev_token (rr_output res),
                      Ev_final_answer (rr_sessionId res) (rr_output res) (rr_usage res) None,
                      Ev_complete (rr_sessionId res) (rr_output res)], (Inr (), x)))))"

section \<open>Settling an approval\<close>

definition resumedStructuredOutput ::
    "'x runner_env \<Rightarrow> StructuredOutputSpec option \<Rightarrow> 'x AgentConfig
       \<Rightarrow> (agent_error, StructuredOutputSpec option) result" where
  "resumedStructuredOutput E stored config =
     (case stored of
        None \<Rightarrow> resolve_spec E [ag_output config]
      | Some s \<Rightarrow>
          Inr (restoreStructuredOutput (re_so E) (Some s)
                 (case resolve_spec E [ag_output config] of Inl _ \<Rightarrow> None | Inr spec \<Rightarrow> spec)))"

datatype settled_result = TurnResult AgentResult | ToolOutcome ToolExecutionResult

definition resumable_call :: "PendingApproval \<Rightarrow> string option" where
  "resumable_call pnd = (case ap_toolCallId pnd of Some (c # cs) \<Rightarrow> Some (c # cs) | _ \<Rightarrow> None)"

definition transcript_sink ::
    "'x runner_env \<Rightarrow> AgentContext \<Rightarrow> (ModelMessage list \<Rightarrow> 'x \<Rightarrow> (agent_error, unit) result \<times> 'x) option" where
  "transcript_sink E ctx = (if resolveSessionStore E = None then None else Some (saveHistory E ctx))"

definition resume_request ::
    "'x runner_env \<Rightarrow> 'x AgentProvider \<Rightarrow> AgentContext \<Rightarrow> ExecutionLimits option \<Rightarrow> 'x ResolvedTool list
       \<Rightarrow> StructuredOutputSpec option \<Rightarrow> 'x turn_request" where
  "resume_request E agent ctx limits tools spec =
     (let config = rg_define agent in
      \<lparr>tr_sessionId = sessionId ctx,
       tr_model = nullish (or_else (ag_model config) (rg_model agent)) (re_defaultModel E),
       tr_cascade = or_else (ag_cascade config) (rg_cascade agent), tr_tools = tools,
       tr_traceId = traceId ctx, tr_limits = limits,
       tr_messageReducer = or_else (ag_messageReducer config) (re_messageReducer E),
       tr_structuredOutput = spec, tr_onTranscript = transcript_sink E ctx, tr_context = ctx\<rparr>)"

definition decided_outcome ::
    "'x runner_env \<Rightarrow> 'x AgentConfig \<Rightarrow> PendingApproval \<Rightarrow> ApprovalDecision \<Rightarrow> 'x
       \<Rightarrow> (agent_error, ToolExecutionResult) result \<times> 'x" where
  "decided_outcome E config pnd decision x =
     (case decision of
        Approve \<Rightarrow>
          invokeApprovedToolFromConfig E (ag_tools config) (ap_toolName pnd) (ap_args pnd)
            (ap_context pnd) (ap_agentName pnd) x
      | Reject why \<Rightarrow> (Inr (Denied (nullish why (ap_reason pnd)) None), x))"

definition settleApproval ::
    "'x runner_env \<Rightarrow> PendingApproval \<Rightarrow> ApprovalDecision \<Rightarrow> 'x
       \<Rightarrow> (agent_error, settled_result) result \<times> 'x" where
  "settleApproval E pnd decision x =
     (if re_callerAborted E x then (Inl (ExecutionCancelled None), x)
      else case getAgentMap E (ap_agentName pnd) of
        None \<Rightarrow>
          (Inl (Thrown (unregistered (ap_agentName pnd) @
             ''It may have been renamed or removed since this approval was created.'')), x)
      | Some agent \<Rightarrow>
          (let config = rg_define agent;
               ctx = ap_context pnd;
               call = (if useBuiltInRuntime E then resumable_call pnd else None)
           in and_then
                ((case call of
                    None \<Rightarrow> Inr None
                  | Some _ \<Rightarrow> resumedStructuredOutput E
                      (Option.bind (Option.bind (checkpoint pnd) cp_structuredOutput) stored_of_json) config), x)
                (\<lambda>spec x.
              and_then (decided_outcome E config pnd decision x) (\<lambda>settled x.
                case call of
                  None \<Rightarrow> (Inr (ToolOutcome settled), x)
                | Some tool_call_id \<Rightarrow>
                    and_then (resolveResumeHistory E pnd x) (\<lambda>history x.
                    and_then (buildAgentTools E (ag_tools config) ctx (ap_agentName pnd) x) (\<lambda>tools x.
                      let limits = or_else (ag_limits config) (re_limits E) in
                      case re_uuid E x of
                        (uuid, x) \<Rightarrow>
                          (case resume_turn (turn_env E (resume_request E agent ctx limits tools spec))
                                  limits (or_else (ag_toolErrorHandling config) (re_toolErrorHandling E)) uuid
                                  (Some (ag_instructions config)) history tool_call_id (ap_toolName pnd)
                                  (ap_args pnd) settled x of
                             (r, x) \<Rightarrow> (map_sum id TurnResult r, x))))))))"

section \<open>Recovering from a checkpoint\<close>

record RecoverOptions =
  ro_limits :: "ExecutionLimits option"
  ro_context :: "RunContext option"

definition resumeCheckpoint ::
    "'x runner_env \<Rightarrow> string \<Rightarrow> InFlightCheckpoint \<Rightarrow> RecoverOptions \<Rightarrow> 'x
       \<Rightarrow> (agent_error, AgentResult) result \<times> 'x" where
  "resumeCheckpoint E agent_name cp options x =
     (case getAgentMap E agent_name of
        None \<Rightarrow> (Inl (Thrown (''Agent '' @ quoted agent_name @ '' is not registered.'')), x)
      | Some agent \<Rightarrow>
          if \<not> useBuiltInRuntime E then (Inl RuntimeNotConfigured, x)
          else
            (let config = rg_define agent;
                 limits = or_else (ro_limits options) (or_else (ag_limits config) (re_limits E));
                 until = deadline_of E limits x;
                 c = nullish (ro_context options) no_context
             in case re_uuid E x of
                  (trace, x) \<Rightarrow>
                    (let ctx = \<lparr>security = security_of c, sessionId = cv_sessionId cp, traceId = trace,
                           parentTraceId = None, rootTraceId = None, ctx_data = rc_data c, deadline = until\<rparr>
                     in and_then (buildAgentTools E (ag_tools config) ctx agent_name x) (\<lambda>tools x.
                        and_then (resumedStructuredOutput E (cv_structuredOutput cp) config, x) (\<lambda>spec x.
                          resume_checkpoint (turn_env E (resume_request E agent ctx limits tools spec)) limits
                            (or_else (ag_toolErrorHandling config) (re_toolErrorHandling E)) cp x)))))"

definition recovery_context :: "string \<Rightarrow> RecoverOptions \<Rightarrow> AgentContext" where
  "recovery_context session_id options =
     (let c = nullish (ro_context options) no_context in
      \<lparr>security = security_of c, sessionId = session_id, traceId = ''recovery'', parentTraceId = None,
       rootTraceId = None, ctx_data = rc_data c, deadline = None\<rparr>)"

definition recoverLatestCheckpoint ::
    "'x runner_env \<Rightarrow> string \<Rightarrow> string \<Rightarrow> RecoverOptions \<Rightarrow> 'x
       \<Rightarrow> (agent_error, AgentResult) result \<times> 'x" where
  "recoverLatestCheckpoint E agent_name session_id options x =
     (case resolveStateStore E of
        None \<Rightarrow> (Inl (CheckpointNotFound (''latest:'' @ session_id @ '' (no StateStore configured)'')), x)
      | Some store \<Rightarrow>
          (let key = latest_key (recovery_context session_id options) in
           and_then (ck_get store key x) (\<lambda>found x.
             case found of
               None \<Rightarrow> (Inl (CheckpointNotFound key), x)
             | Some cp \<Rightarrow> resumeCheckpoint E agent_name cp options x)))"

end
