(* ===== verification/Turn_Conversation.thy ===== *)
theory Turn_Conversation
  imports Agent_Runner Turn_Transcript Turn_Outcome
begin

text \<open>
  What a turn adds to its conversation: one block for every answer of the model that calls tools, with the
  answer itself and what the model was told about its calls, in step with the tool calls the turn reports.
\<close>

section \<open>Rounds\<close>

text \<open>
  A round as the conversation keeps it: the talk about rejected answers that came before it, the answer of
  the model, and for each call it has settled the tool message and the record of the call, if there is one.
\<close>

record told_round =
  to_repair :: "ModelMessage list"
  to_response :: ModelResponse
  to_replies :: "(ModelMessage \<times> ToolCallRecord list) list"

definition round_calls :: "told_round \<Rightarrow> ModelToolCall list" where
  "round_calls t = nullish (rs_toolCalls (to_response t)) []"

definition round_messages :: "told_round \<Rightarrow> ModelMessage list" where
  "round_messages t =
     to_repair t @ [AssistantMsg (rs_content (to_response t)) (Some (round_calls t))] @ map fst (to_replies t)"

definition round_records :: "told_round \<Rightarrow> ToolCallRecord list" where
  "round_records t = concat (map snd (to_replies t))"

definition told_messages :: "told_round list \<Rightarrow> ModelMessage list" where
  "told_messages rounds = concat (map round_messages rounds)"

definition told_records :: "told_round list \<Rightarrow> ToolCallRecord list" where
  "told_records rounds = concat (map round_records rounds)"

text \<open>
  What the model is told about one call: an error for a call that was not made; the failure, or the result
  with its provenance, for a call that a tool of the turn was executed for, with the record that says the same.
\<close>

inductive reply_about :: "'x xenv \<Rightarrow> ModelToolCall \<Rightarrow> ModelMessage \<times> ToolCallRecord list \<Rightarrow> bool" for E call where
  not_made: "reply_about E call
     (ToolMsg (call_id call) (call_name call) (txt_of (x_number E) (error_json message)) None, [])"
| failed: "\<lbrakk>tool \<in> set (x_tools E); rt_name tool = call_name call;
     rt_execute tool targs (Some (call_id call)) y = (Inl (Thrown raw), y')\<rbrakk> \<Longrightarrow>
   reply_about E call
     (ToolMsg (call_id call) (call_name call) (txt_of (x_number E) (failure_json message (call_name call)))
        (Some \<lparr>source = FromTool, origin = Some (call_name call)\<rparr>),
      [\<lparr>tc_toolName = call_name call, tc_args = targs, tc_result = Failed message (call_name call)\<rparr>])"
| returned: "\<lbrakk>tool \<in> set (x_tools E); rt_name tool = call_name call;
     rt_execute tool targs (Some (call_id call)) y = (Inr result', y')\<rbrakk> \<Longrightarrow>
   reply_about E call
     (ToolMsg (call_id call) (call_name call) (txt_of (x_number E) (result_json result')) (result_provenance result'),
      [\<lparr>tc_toolName = call_name call, tc_args = targs, tc_result = Completed result'\<rparr>])"

definition repair_talk :: "ModelMessage list \<Rightarrow> bool" where
  "repair_talk ms \<longleftrightarrow> (\<forall>m \<in> set ms. (\<exists>a. m = AssistantMsg a None) \<or> (\<exists>is. m = UserMsg (repairPrompt is)))"

definition round_ok :: "'x xenv \<Rightarrow> told_round \<Rightarrow> bool" where
  "round_ok E t \<longleftrightarrow>
     (\<exists>request y y'. x_generate E request y = (Inr (to_response t), y')) \<and> round_calls t \<noteq> [] \<and>
     repair_talk (to_repair t) \<and> length (to_replies t) \<le> length (round_calls t) \<and>
     list_all2 (reply_about E) (take (length (to_replies t)) (round_calls t)) (to_replies t)"

definition round_full :: "told_round \<Rightarrow> bool" where
  "round_full t \<longleftrightarrow> length (to_replies t) = length (round_calls t)"

text \<open>All rounds are the turn's, and only the last may have calls that are not settled.\<close>

definition rounds_of :: "'x xenv \<Rightarrow> told_round list \<Rightarrow> bool" where
  "rounds_of E rounds \<longleftrightarrow> (\<forall>t \<in> set rounds. round_ok E t) \<and> (\<forall>t \<in> set (butlast rounds). round_full t)"

definition told :: "'x xenv \<Rightarrow> ExecutionState \<Rightarrow> told_round list \<Rightarrow> ExecutionState \<Rightarrow> bool" where
  "told E st0 rounds st \<longleftrightarrow>
     messages st = messages st0 @ told_messages rounds \<and>
     toolCallRecords st = toolCallRecords st0 @ told_records rounds \<and>
     rounds_of E rounds \<and> repair_talk (repair st)"

lemma told_append [simp]:
  "told_messages (rounds @ [t]) = told_messages rounds @ round_messages t"
  "told_records (rounds @ [t]) = told_records rounds @ round_records t"
  "told_messages [] = []" "told_records [] = []"
  by (simp_all add: told_messages_def told_records_def)

lemma rounds_append:
  "rounds_of E (rounds @ [t]) \<longleftrightarrow> (\<forall>t \<in> set rounds. round_ok E t \<and> round_full t) \<and> round_ok E t"
  by (auto simp: rounds_of_def)

section \<open>One round\<close>

lemma run_call_reply:
  assumes "run_call E call st x = (Inr (st', events, stop), x')"
  shows "\<exists>reply. messages st' = messages st @ [fst reply] \<and> toolCallRecords st' = toolCallRecords st @ snd reply \<and>
    reply_about E call reply \<and> repair st' = repair st"
  using assms
proof (cases rule: run_call_cases)
  case (reported message)
  with reply_about.not_made [of E call message] show ?thesis
    by (intro exI [of _ "(_, [])"]) (auto simp: pushToolMessage_messages)
next
  case (failed tool targs raw message x1)
  let ?prov = "Some \<lparr>source = FromTool, origin = Some (rt_name tool)\<rparr>"
  let ?r = "\<lparr>tc_toolName = rt_name tool, tc_args = targs, tc_result = Failed message (rt_name tool)\<rparr>"
  let ?reply = "(ToolMsg (call_id call) (call_name call) (txt_of (x_number E) (failure_json message (rt_name tool))) ?prov, [?r])"
  have "reply_about E call ?reply" using reply_about.failed [OF failed(1-3), of message] failed(2) by simp
  with failed(6) show ?thesis by (intro exI [of _ ?reply]) (simp add: pushToolMessage_messages)
next
  case (returned tool targs result' started)
  let ?r = "\<lparr>tc_toolName = rt_name tool, tc_args = targs, tc_result = Completed result'\<rparr>"
  let ?reply = "(ToolMsg (call_id call) (call_name call) (txt_of (x_number E) (result_json result')) (result_provenance result'), [?r])"
  have "reply_about E call ?reply" using reply_about.returned [OF returned(1-3)] returned(2) by simp
  with returned(4) show ?thesis
    by (intro exI [of _ ?reply])
      (auto simp: call_returned_def Let_def pushToolMessage_messages split: ToolExecutionResult.splits)
qed

lemma run_calls_replies:
  "run_calls E calls st x = (Inr (st', events, stop), x') \<Longrightarrow>
     \<exists>replies. messages st' = messages st @ map fst replies \<and>
       toolCallRecords st' = toolCallRecords st @ concat (map snd replies) \<and>
       length replies \<le> length calls \<and> list_all2 (reply_about E) (take (length replies) calls) replies \<and>
       (\<not> stop \<longrightarrow> length replies = length calls) \<and> repair st' = repair st"
proof (induction calls arbitrary: st x events stop)
  case (Cons call calls)
  from Cons.prems obtain st1 e1 stop1 x1 where call: "run_call E call st x = (Inr (st1, e1, stop1), x1)"
    and rest: "stop1 \<and> st' = st1 \<and> stop \<or>
      \<not> stop1 \<and> (\<exists>e2. run_calls E calls st1 x1 = (Inr (st', e2, stop), x'))"
    by (auto simp: and_then_Inr_iff split: if_splits)
  from run_call_reply [OF call] obtain reply where one: "messages st1 = messages st @ [fst reply]"
    "toolCallRecords st1 = toolCallRecords st @ snd reply" "reply_about E call reply" "repair st1 = repair st" by blast
  show ?case
  proof (cases stop1)
    case True
    with rest one show ?thesis by (intro exI [of _ "[reply]"]) auto
  next
    case False
    with rest Cons.IH obtain replies where "messages st' = messages st1 @ map fst replies"
      "toolCallRecords st' = toolCallRecords st1 @ concat (map snd replies)" "length replies \<le> length calls"
      "list_all2 (reply_about E) (take (length replies) calls) replies"
      "\<not> stop \<longrightarrow> length replies = length calls" "repair st' = repair st1" by blast
    with one show ?thesis by (intro exI [of _ "reply # replies"]) auto
  qed
qed simp

text \<open>An answer of the model without calls adds nothing, one with calls adds a round.\<close>

lemma round_told:
  assumes "applyModelRound E st response x = (Inr (st', events, finished), x')"
    and "x_generate E request y = (Inr response, y')"
    and "told E st0 rounds st" "\<forall>t \<in> set rounds. round_full t"
  shows "\<exists>rounds'. told E st0 rounds' st' \<and> (\<not> finished \<longrightarrow> (\<forall>t \<in> set rounds'. round_full t)) \<and>
    (rounds' = rounds \<or> (\<exists>t. rounds' = rounds @ [t]))"
proof (cases "nullish (rs_toolCalls response) [] = []")
  case True
  with assms(1,3,4) have "told E st0 rounds st'" by (auto simp: applyModelRound_def Let_def told_def)
  with assms(4) show ?thesis by blast
next
  case False
  let ?calls = "nullish (rs_toolCalls response) []"
  define st1 where "st1 = accumulateUsage (rs_usage response) (st\<lparr>iteration := Suc (iteration st)\<rparr>)
    \<lparr>messages := messages st @ repair st @ [AssistantMsg (rs_content response) (Some ?calls)], repair := []\<rparr>"
  have st1: "messages st1 = messages st @ repair st @ [AssistantMsg (rs_content response) (Some ?calls)]"
    "toolCallRecords st1 = toolCallRecords st" "repair st1 = []"
    by (simp_all add: st1_def)
  have "run_calls E ?calls st1 x = (Inr (st', events, finished), x')"
    using False assms(1) by (simp add: applyModelRound_def Let_def st1_def)
  from run_calls_replies [OF this] obtain replies where r: "messages st' = messages st1 @ map fst replies"
    "toolCallRecords st' = toolCallRecords st1 @ concat (map snd replies)" "length replies \<le> length ?calls"
    "list_all2 (reply_about E) (take (length replies) ?calls) replies"
    "\<not> finished \<longrightarrow> length replies = length ?calls" "repair st' = repair st1" by blast
  let ?t = "\<lparr>to_repair = repair st, to_response = response, to_replies = replies\<rparr>"
  have "round_ok E ?t" using assms(2,3) False r(3,4) by (auto simp: round_ok_def round_calls_def told_def)
  moreover have "\<forall>t \<in> set rounds. round_ok E t" using assms(3) by (simp add: told_def rounds_of_def)
  ultimately have "told E st0 (rounds @ [?t]) st'"
    using assms(3,4) r st1
    by (simp add: told_def rounds_append round_messages_def round_records_def round_calls_def repair_talk_def)
  moreover have "\<not> finished \<longrightarrow> round_full ?t" using r(5) by (simp add: round_full_def round_calls_def)
  ultimately show ?thesis using assms(4) by (intro exI [of _ "rounds @ [?t]"]) auto
qed

lemma repair_talk_queue: "repair_talk (repair st) \<Longrightarrow> repair_talk (repair (queue_repair answer is st))"
  by (auto simp: repair_talk_def queue_repair_def)

lemma reject_told:
  assumes "rejectOutput E st response x = (Inr (rejected, st'), x')" "told E st0 rounds st"
  shows "told E st0 rounds st' \<and> suspended st' = suspended st"
proof -
  have "told E st0 rounds (queue_repair answer is st)" for answer "is"
    using assms(2) repair_talk_queue [of st answer "is"] by (simp add: told_def) (simp add: queue_repair_def)
  with rejectOutput_state [OF assms(1)] assms(2) show ?thesis by (auto simp: told_def queue_repair_def)
qed

section \<open>A turn\<close>

text \<open>
  Without a reducer, from any state on: while the turn goes on all its rounds are complete; when it is done
  it has published the conversation with all its rounds, and the result reports their records.
\<close>

lemma plain_request:
  "buildRequest E st x = (Inr (request, st'), x') \<Longrightarrow> x_messageReducer E = None \<Longrightarrow> st' = st \<and> x' = x"
  by (auto simp: buildRequest_def projectMessages_def Let_def)

lemma again_told:
  assumes "run_round E st x = (Inr (Again st'), x')" "x_messageReducer E = None" "\<not> suspended st"
    and "told E st0 rounds st" "\<forall>t \<in> set rounds. round_full t"
  shows "\<exists>rounds'. told E st0 rounds' st' \<and> (\<forall>t \<in> set rounds'. round_full t)"
proof -
  from assms(1) obtain request st1 x1 response x2 st2 events finished x3 where
    build: "buildRequest E st x = (Inr (request, st1), x1)" and gen: "x_generate E request x1 = (Inr response, x2)" and
    model: "applyModelRound E st1 response x2 = (Inr (st2, events, finished), x3)" and
    fin: "finish_round E st2 response finished x3 = (Inr (Again st'), x')"
    by (rule run_round_steps)
  from plain_request [OF build assms(2)] assms(4) have "told E st0 rounds st1" by simp
  from round_told [OF model gen this assms(5)] obtain rounds' where
    t: "told E st0 rounds' st2" "\<not> finished \<longrightarrow> (\<forall>t \<in> set rounds'. round_full t)"
    "rounds' = rounds \<or> (\<exists>t. rounds' = rounds @ [t])" by blast
  show ?thesis
  proof (cases finished)
    case False
    with fin have "st' = st2" by (auto simp: finish_round_def and_then_Inr_iff)
    with t False show ?thesis by blast
  next
    case True
    with fin obtain rejected x4 where rej: "rejectOutput E st2 response x3 = (Inr (rejected, st'), x4)" "rejected \<noteq> None"
      by (auto simp: finish_round_def and_then_Inr_iff split: if_splits)
    from rejectOutput_suspended [OF rej(1)] rej(2) have "\<not> suspended st2" by blast
    with model True plain_request [OF build assms(2)] have "nullish (rs_toolCalls response) [] = []"
      by (auto simp: applyModelRound_def Let_def split: if_splits dest!: run_calls_suspend)
    with model plain_request [OF build assms(2)] assms(4) have "told E st0 rounds st2"
      by (auto simp: applyModelRound_def Let_def told_def)
    with reject_told [OF rej(1)] assms(5) show ?thesis by blast
  qed
qed

lemma done_told:
  assumes "run_round E st x = (Inr (Done r), x')" "x_messageReducer E = None" "\<not> suspended st"
    and "told E st0 rounds st" "\<forall>t \<in> set rounds. round_full t"
  shows "\<exists>rounds' st2 st3 response events x2 x3 x4 x5. told E st0 rounds' st3 \<and>
    (\<not> suspended st3 \<longrightarrow> (\<forall>t \<in> set rounds'. round_full t)) \<and>
    finish_round E st2 response True x4 = (Inr (Done r), x') \<and>
    rejectOutput E st2 response x4 = (Inr (None, st3), x3) \<and>
    applyModelRound E st response x2 = (Inr (st2, events, True), x4) \<and>
    publishCheckpoint E st3 x3 = (Inr (), x5) \<and> publishTranscript E st3 (rs_content response) x5 = (Inr (), x') \<and>
    r = toResult (x_sessionId E) st3 (rs_content response)"
proof -
  from assms(1) obtain request st1 x1 response x2 st2 events finished x4 where
    build: "buildRequest E st x = (Inr (request, st1), x1)" and gen: "x_generate E request x1 = (Inr response, x2)" and
    model: "applyModelRound E st1 response x2 = (Inr (st2, events, finished), x4)" and
    fin: "finish_round E st2 response finished x4 = (Inr (Done r), x')"
    by (rule run_round_steps)
  have st1: "st1 = st" using plain_request [OF build assms(2)] by simp
  from round_told [OF model gen _ assms(5)] assms(4) st1 obtain rounds' where
    t: "told E st0 rounds' st2" "rounds' = rounds \<or> (\<exists>t. rounds' = rounds @ [t])" by blast
  from fin obtain st3 x3 x5 where "finished" and rej: "rejectOutput E st2 response x4 = (Inr (None, st3), x3)"
    and pub: "publishCheckpoint E st3 x3 = (Inr (), x5)" "publishTranscript E st3 (rs_content response) x5 = (Inr (), x')"
    and r: "r = toResult (x_sessionId E) st3 (rs_content response)"
    by (auto simp: finish_round_def and_then_Inr_iff split: if_splits)
  from reject_told [OF rej t(1)] have t3: "told E st0 rounds' st3" "suspended st3 = suspended st2" by auto
  have "\<forall>t \<in> set rounds'. round_full t" if "\<not> suspended st3"
  proof -
    from that t3(2) model \<open>finished\<close> st1 have none: "nullish (rs_toolCalls response) [] = []"
      by (auto simp: applyModelRound_def Let_def split: if_splits dest!: run_calls_suspend)
    with model st1 have "toolCallRecords st2 = toolCallRecords st" "messages st2 = messages st"
      by (auto simp: applyModelRound_def Let_def)
    with t assms(4) have "rounds' = rounds" by (auto simp: told_def round_messages_def)
    with assms(5) show ?thesis by simp
  qed
  with t3 fin rej model st1 pub r \<open>finished\<close> show ?thesis
    by (intro exI [of _ rounds'] exI [of _ st2] exI [of _ st3] exI [of _ response] exI [of _ events] exI [of _ x2]
        exI [of _ x3] exI [of _ x4] exI [of _ x5]) simp
qed

lemma loop_told:
  assumes "run_loop E st x = (Inr r, x')" "x_messageReducer E = None" "\<not> suspended st" "repair st = []"
  shows "\<exists>st1 x1 rounds. run_round E st1 x1 = (Inr (Done r), x') \<and> \<not> suspended st1 \<and> told E st rounds st1 \<and>
    (\<forall>t \<in> set rounds. round_full t)"
proof -
  define P where "P st1 (y :: 'a) \<longleftrightarrow> \<not> suspended st1 \<and> (\<exists>rounds. told E st rounds st1 \<and> (\<forall>t \<in> set rounds. round_full t))"
    for st1 y
  have start: "P st x"
    using assms(3,4) by (auto simp: P_def told_def rounds_of_def repair_talk_def intro!: exI [of _ "[]"])
  have step: "P st2 y2" if "P st1 y1" "run_round E st1 y1 = (Inr (Again st2), y2)" for st1 y1 st2 y2
    using that(1) again_told [OF that(2) assms(2)] run_round_unsuspended [OF that(2)] unfolding P_def by blast
  have "\<exists>st1 y1. P st1 y1 \<and> run_round E st1 y1 = (Inr (Done r), x')"
    using assms(1) start by (rule run_loop_ends) (erule (1) step, auto)
  then show ?thesis by (auto simp: P_def)
qed

text \<open>No round says anything as the system.\<close>

lemma told_no_system:
  assumes "rounds_of E rounds" "m \<in> set (told_messages rounds)"
  shows "\<not> is_system m"
proof -
  from assms(2) obtain t where t: "t \<in> set rounds" "m \<in> set (round_messages t)"
    by (auto simp: told_messages_def)
  with assms(1) have ok: "round_ok E t" by (simp add: rounds_of_def)
  show ?thesis
  proof (cases "m \<in> set (map fst (to_replies t))")
    case True
    then obtain i where i: "i < length (to_replies t)" "m = fst (to_replies t ! i)"
      by (auto simp: in_set_conv_nth)
    with ok have "reply_about E (round_calls t ! i) (to_replies t ! i)"
      by (auto simp: round_ok_def list_all2_conv_all_nth)
    then show ?thesis using i(2) by cases simp_all
  next
    case False
    with t ok show ?thesis by (auto simp: round_messages_def round_ok_def repair_talk_def)
  qed
qed

section \<open>The turn of a run\<close>

definition run_env :: "'x runner_env \<Rightarrow> 'x RunInput \<Rightarrow> 'x PreparedRun \<Rightarrow> 'x xenv" where
  "run_env R input p = configured (turn_env R (run_request R input p)) (pr_limits p) (pr_toolErrorHandling p)"

lemma run_env_simps:
  "x_messageReducer (run_env R input p) = pr_messageReducer p" "x_tools (run_env R input p) = pr_tools p"
  "x_onSuspend (run_env R input p) = Some (saveCheckpoint R)"
  "x_onTranscript (run_env R input p) = (if historyEnabled R input then Some (saveHistory R (pr_context p)) else None)"
  by (simp_all add: run_env_def configured_def turn_env_def run_request_def Let_def)

lemma run_is_loop:
  assumes "run R agent_name input x = (Inr (BuiltIn r), x')" "prepareRun R agent_name input x = (Inr p, x1)"
    and "history_for R input (pr_context p) x1 = (h, x2)"
  shows "\<exists>uuid x3. run_loop (run_env R input p)
    (createState uuid (Some (ag_instructions (pr_config p))) h (ri_message input)) x3 = (Inr r, x')"
proof -
  obtain uuid x3 where "re_uuid R x2 = (uuid, x3)" by fastforce
  with assms show ?thesis
    by (auto simp: run_def run_env_def execute_turn_def run_turn_def and_then_Inr_iff requireAdapter_def
          map_sum_Inr_iff split: if_splits sum.splits prod.splits)
qed

end
