(* ===== verification/Suspension.thy ===== *)
theory Suspension
  imports Turn_Conversation Tool_Guarding
begin

text \<open>
  Turns that wait for an approval: from the tool call that is withheld, over the approval
  record and its checkpoint, to the resumed turn. The runner, the executor, the tool provider
  and the approval store work together here.
\<close>

section \<open>What the runner relies on\<close>

text \<open>
  The store of approval records as the runner sees it: reading changes nothing, and a saved
  record replaces the one of its identifier. Other effects on the world may keep the records
  (\<open>preserves\<close>).
\<close>

locale approval_records =
  fixes A :: "'x ApprovalRecords"
    and pending :: "'x \<Rightarrow> string \<Rightarrow> PendingApproval option"
  assumes get: "as_get A i x = (Inr (pending x i), x)"
    and save: "as_save A p x = (r, x') \<Longrightarrow> pending x' = (pending x)(ap_id p \<mapsto> p)"
begin

lemma checkpoint_attached:
  assumes "re_approvalStore E = Some A" "pending x i = Some p" "ap_id p = i"
    and "saveCheckpoint E i msgs spec x = (r, x')"
  shows "r = Inr () \<and> pending x' i = Some (p\<lparr>checkpoint := Some \<lparr>cp_version = APPROVAL_CHECKPOINT_VERSION,
     cp_messages = withoutSystemMessages msgs, cp_structuredOutput = map_option stored_json spec\<rparr>\<rparr>)"
proof -
  let ?p = "p\<lparr>checkpoint := Some \<lparr>cp_version = APPROVAL_CHECKPOINT_VERSION,
     cp_messages = withoutSystemMessages msgs, cp_structuredOutput = map_option stored_json spec\<rparr>\<rparr>"
  obtain r' x1 where "as_save A ?p x = (r', x1)" by fastforce
  moreover from save [OF this] assms(3) have "pending x1 i = Some ?p" by simp
  ultimately show ?thesis using assms by (simp add: saveCheckpoint_def get)
qed

end

definition preserves :: "('x \<Rightarrow> 'v) \<Rightarrow> ('x \<Rightarrow> 'a \<times> 'x) \<Rightarrow> bool" where
  "preserves view f \<longleftrightarrow> (\<forall>x r x'. f x = (r, x') \<longrightarrow> view x' = view x)"

text \<open>A tool that reports a pending approval has stored it, for the call it was asked to run.\<close>

definition registers :: "('x \<Rightarrow> string \<Rightarrow> PendingApproval option) \<Rightarrow> 'x ResolvedTool \<Rightarrow> bool" where
  "registers pending tool \<longleftrightarrow>
     (\<forall>targs i x why a req sg x'. rt_execute tool targs (Some i) x = (Inr (PendingResult why a req sg), x') \<longrightarrow>
        a \<noteq> [] \<and> (\<exists>p. pending x' a = Some p \<and> ap_id p = a \<and> ap_toolCallId p = Some i))"

section \<open>The withheld call of a round\<close>

definition pending_record :: "ToolCallRecord \<Rightarrow> bool" where
  "pending_record r \<longleftrightarrow> (\<exists>why a req sg. tc_result r = Completed (PendingResult why a req sg))"

text \<open>
  What a suspended state says: the approval it waits for, the call withheld at the end of its
  conversation, and the record of that call.
\<close>

definition waits_for :: "'x xenv \<Rightarrow> ('x \<Rightarrow> string \<Rightarrow> PendingApproval option) \<Rightarrow> ExecutionState \<Rightarrow> 'x \<Rightarrow> bool" where
  "waits_for E pending st x \<longleftrightarrow>
     (\<exists>a p i ms tn why req sg rs targs.
        suspendedApprovalId st = Some a \<and> a \<noteq> [] \<and> pending x a = Some p \<and> ap_id p = a \<and>
        ap_toolCallId p = Some i \<and>
        messages st = ms @ [ToolMsg i tn (txt_of (x_number E) (result_json (PendingResult why a req sg))) None] \<and>
        toolCallRecords st =
          rs @ [\<lparr>tc_toolName = tn, tc_args = targs, tc_result = Completed (PendingResult why a req sg)\<rparr>])"

lemma run_call_waits:
  assumes "run_call E call st x = (Inr (st', events, stop), x')"
    and "\<forall>tool \<in> set (x_tools E). registers pending tool"
  shows "(stop \<longrightarrow> suspended st' \<and> waits_for E pending st' x') \<and>
    (\<not> stop \<longrightarrow> suspended st' = suspended st \<and>
       (list_ex pending_record (toolCallRecords st') \<longrightarrow> list_ex pending_record (toolCallRecords st)))"
  using assms(1)
proof (cases rule: run_call_cases)
  case (returned tool targs result' started)
  show ?thesis
  proof (cases result')
    case (PendingResult why a req sg)
    let ?call = "ToolMsg (call_id call) (call_name call) (txt_of (x_number E) (result_json result')) None"
    from assms(2) returned(1,3) PendingResult obtain p where p: "a \<noteq> []" "pending x' a = Some p"
      "ap_id p = a" "ap_toolCallId p = Some (call_id call)"
      unfolding registers_def by blast
    from returned(4) PendingResult returned(2) have st': "stop" "suspended st'" "suspendedApprovalId st' = Some a"
      "messages st' = messages st @ [?call]"
      "toolCallRecords st' = toolCallRecords st @
         [\<lparr>tc_toolName = call_name call, tc_args = targs, tc_result = Completed result'\<rparr>]"
      by (auto simp: call_returned_def Let_def pushToolMessage_def push_record_def)
    have "waits_for E pending st' x'"
      unfolding waits_for_def
      by (intro exI [of _ a] exI [of _ p] exI [of _ "call_id call"] exI [of _ "messages st"]
            exI [of _ "call_name call"] exI [of _ why] exI [of _ req] exI [of _ sg]
            exI [of _ "toolCallRecords st"] exI [of _ targs]) (simp add: st' p PendingResult)
    with st' show ?thesis by simp
  qed (use returned(4) in \<open>auto simp: call_returned_def Let_def pushToolMessage_def push_record_def pending_record_def\<close>)
qed (auto simp: pushToolMessage_def push_record_def pending_record_def)

lemma run_calls_waits:
  "run_calls E calls st x = (Inr (st', events, stop), x') \<Longrightarrow> \<forall>tool \<in> set (x_tools E). registers pending tool \<Longrightarrow>
     (stop \<longrightarrow> suspended st' \<and> waits_for E pending st' x') \<and>
     (\<not> stop \<longrightarrow> suspended st' = suspended st \<and>
        (list_ex pending_record (toolCallRecords st') \<longrightarrow> list_ex pending_record (toolCallRecords st)))"
proof (induction calls arbitrary: st x events stop)
  case (Cons call calls)
  from Cons.prems obtain st1 e1 stop1 x1 where call: "run_call E call st x = (Inr (st1, e1, stop1), x1)"
    and rest: "stop1 \<and> st' = st1 \<and> stop \<and> x' = x1 \<or>
      \<not> stop1 \<and> (\<exists>e2. run_calls E calls st1 x1 = (Inr (st', e2, stop), x'))"
    by (auto simp: and_then_Inr_iff split: if_splits)
  with run_call_waits [OF call Cons.prems(2)] Cons.IH Cons.prems(2) show ?case by blast
qed simp

lemma round_waits:
  assumes "applyModelRound E st response x = (Inr (st', events, finished), x')"
    and "\<forall>tool \<in> set (x_tools E). registers pending tool" and "\<not> suspended st"
    and "\<not> list_ex pending_record (toolCallRecords st)"
  shows "(suspended st' \<and> finished \<and> waits_for E pending st' x') \<or>
    (\<not> suspended st' \<and> \<not> list_ex pending_record (toolCallRecords st'))"
proof (cases "nullish (rs_toolCalls response) [] = []")
  case True
  with assms show ?thesis by (auto simp: applyModelRound_def Let_def)
next
  case False
  with assms(1) obtain st1 where "run_calls E (nullish (rs_toolCalls response) []) st1 x = (Inr (st', events, finished), x')"
    "suspended st1 = suspended st" "toolCallRecords st1 = toolCallRecords st"
    by (auto simp: applyModelRound_def Let_def)
  with run_calls_waits [OF this(1) assms(2)] assms(3,4) show ?thesis by auto
qed

section \<open>The end of a suspended turn\<close>

text \<open>
  The record that a suspended turn leaves behind can be resumed from on its own: its checkpoint holds the
  conversation, with the withheld call at its end.
\<close>

definition resumable_record :: "PendingApproval \<Rightarrow> ModelMessage list \<Rightarrow> bool" where
  "resumable_record p conv \<longleftrightarrow>
     (\<exists>i cp ms tn withheld. ap_toolCallId p = Some i \<and> checkpoint p = Some cp \<and>
        cp_version cp = APPROVAL_CHECKPOINT_VERSION \<and> cp_messages cp = conv \<and>
        conv = ms @ [ToolMsg i tn withheld None])"

lemma withoutSystem_snoc_tool:
  "withoutSystemMessages (ms @ [ToolMsg i tn c prov]) = withoutSystemMessages ms @ [ToolMsg i tn c prov]"
  by (simp add: withoutSystemMessages_def)

lemma finish_suspended:
  assumes rec: "approval_records A pending" "re_approvalStore R = Some A"
    and E: "x_onSuspend E = Some (saveCheckpoint R)"
    and quiet: "\<forall>f msgs. x_onTranscript E = Some f \<longrightarrow> preserves pending (f msgs)"
    and fin: "finish_round E st response True x = (Inr (Done r), x')"
    and waits: "suspended st" "waits_for E pending st x"
  shows "\<exists>rs tn targs why a req sg p.
    ar_toolCalls r = rs @ [\<lparr>tc_toolName = tn, tc_args = targs, tc_result = Completed (PendingResult why a req sg)\<rparr>] \<and>
    pending x' a = Some p \<and> resumable_record p (withoutSystemMessages (messages st))"
proof -
  from waits(2) obtain a p i ms tn why req sg rs targs where w: "suspendedApprovalId st = Some a" "a \<noteq> []"
    "pending x a = Some p" "ap_id p = a" "ap_toolCallId p = Some i"
    "messages st = ms @ [ToolMsg i tn (txt_of (x_number E) (result_json (PendingResult why a req sg))) None]"
    "toolCallRecords st = rs @ [\<lparr>tc_toolName = tn, tc_args = targs, tc_result = Completed (PendingResult why a req sg)\<rparr>]"
    unfolding waits_for_def by blast
  let ?spec = "toStoredStructuredOutput (x_structuredOutput E)"
  have "rejectOutput E st response x = (Inr (None, st), x)"
    using waits(1) by (simp add: rejectOutput_def split: option.splits)
  with fin obtain x1 where susp: "publishCheckpoint E st x = (Inr (), x1)"
    and trans: "publishTranscript E st (rs_content response) x1 = (Inr (), x')"
    and r: "r = toResult (x_sessionId E) st (rs_content response)"
    by (auto simp: finish_round_def and_then_Inr_iff)
  obtain c cs where a: "a = c # cs" using w(2) by (cases a) auto
  from susp E w(1) waits(1) a have "saveCheckpoint R a (messages st) ?spec x = (Inr (), x1)"
    by (simp add: publishCheckpoint_def)
  from approval_records.checkpoint_attached [OF rec(1) rec(2) w(3,4) this] obtain p' where
    p': "pending x1 a = Some p'" "p' = p\<lparr>checkpoint := Some \<lparr>cp_version = APPROVAL_CHECKPOINT_VERSION,
       cp_messages = withoutSystemMessages (messages st), cp_structuredOutput = map_option stored_json ?spec\<rparr>\<rparr>"
    by blast
  have "pending x' = pending x1"
  proof (cases "x_onTranscript E")
    case None
    with trans show ?thesis by (simp add: publishTranscript_def)
  next
    case (Some f)
    with quiet have "preserves pending (f msgs)" for msgs by simp
    with trans Some show ?thesis by (auto simp: publishTranscript_def preserves_def)
  qed
  with p' have stored: "pending x' a = Some p'" by simp
  have "resumable_record p' (withoutSystemMessages (messages st))"
    unfolding resumable_record_def using w(5,6) p'(2) by (simp add: withoutSystem_snoc_tool)
  with stored r w(7) show ?thesis
    by (intro exI [of _ rs] exI [of _ tn] exI [of _ targs] exI [of _ why] exI [of _ a] exI [of _ req]
          exI [of _ sg] exI [of _ p']) (simp add: toResult_def)
qed

lemma buildRequest_records:
  "buildRequest E st x = (Inr (request, st'), x') \<Longrightarrow>
     suspended st' = suspended st \<and> toolCallRecords st' = toolCallRecords st"
  by (auto dest!: buildRequest_state)

lemma loop_suspended:
  assumes rec: "approval_records A pending" "re_approvalStore R = Some A"
    and E: "x_onSuspend E = Some (saveCheckpoint R)"
    and quiet: "\<forall>f msgs. x_onTranscript E = Some f \<longrightarrow> preserves pending (f msgs)"
    and tools: "\<forall>tool \<in> set (x_tools E). registers pending tool"
    and run: "run_loop E st x = (Inr r, x')" and fresh: "\<not> suspended st" "\<not> list_ex pending_record (toolCallRecords st)"
      "repair st = []"
    and ends: "pending_last (ar_toolCalls r)"
  shows "\<exists>rs tn targs why a req sg p st'.
    ar_toolCalls r = rs @ [\<lparr>tc_toolName = tn, tc_args = targs, tc_result = Completed (PendingResult why a req sg)\<rparr>] \<and>
    pending x' a = Some p \<and> resumable_record p (withoutSystemMessages (messages st')) \<and>
    ar_toolCalls r = toolCallRecords st' \<and> (x_messageReducer E = None \<longrightarrow> (\<exists>rounds. told E st rounds st'))"
proof -
  let ?P = "\<lambda>(st :: ExecutionState) (x :: 'a). \<not> suspended st \<and> \<not> list_ex pending_record (toolCallRecords st)"
  have keep: "?P st2 x2" if "?P st1 x1" and "run_round E st1 x1 = (Inr (Again st2), x2)" for st1 x1 st2 x2
  proof -
    from that(2) obtain request st3 x3 response x4 st4 events finished x5 where
      build: "buildRequest E st1 x1 = (Inr (request, st3), x3)" and
      model: "applyModelRound E st3 response x4 = (Inr (st4, events, finished), x5)" and
      fin: "finish_round E st4 response finished x5 = (Inr (Again st2), x2)"
      by (rule run_round_steps)
    from buildRequest_records [OF build] that(1) have "?P st3 x3" by simp
    with round_waits [OF model tools] have w: "suspended st4 \<longrightarrow> finished"
      "\<not> suspended st4 \<longrightarrow> \<not> list_ex pending_record (toolCallRecords st4)" by auto
    from finish_unsuspended [OF fin w(1)] have "\<not> suspended st2" .
    moreover from fin this w have "toolCallRecords st2 = toolCallRecords st4 \<and> suspended st2 = suspended st4"
      by (auto simp: finish_round_def and_then_Inr_iff queue_repair_def split: if_splits
            dest!: rejectOutput_state)
    ultimately show ?thesis using w(2) by simp
  qed
  let ?Q = "\<lambda>st1. x_messageReducer E = None \<longrightarrow> (\<exists>rounds. told E st rounds st1 \<and> (\<forall>t \<in> set rounds. round_full t))"
  define P where "P st1 x1 \<longleftrightarrow> ?P st1 x1 \<and> ?Q st1" for st1 x1
  have start: "P st x"
    using fresh by (auto simp: P_def told_def rounds_of_def repair_talk_def intro!: exI [of _ "[]"])
  have step: "P st2 x2" if "P st1 x1" "run_round E st1 x1 = (Inr (Again st2), x2)" for st1 x1 st2 x2
  proof -
    from that(1) have "?P st1 x1" "?Q st1" by (simp_all add: P_def)
    with keep [OF _ that(2)] again_told [OF that(2)] show ?thesis unfolding P_def by blast
  qed
  have "\<exists>st1 x1. P st1 x1 \<and> run_round E st1 x1 = (Inr (Done r), x')"
    using run start by (rule run_loop_ends) (erule (1) step, auto)
  then obtain st1 x1 where at_end: "P st1 x1" and ran: "run_round E st1 x1 = (Inr (Done r), x')" by blast
  then have before: "?P st1 x1" "run_round E st1 x1 = (Inr (Done r), x')" "?Q st1" by (simp_all add: P_def)
  from before(2) obtain request st2 x2 response x3 st3 events finished x4 where
    build: "buildRequest E st1 x1 = (Inr (request, st2), x2)" and gen: "x_generate E request x2 = (Inr response, x3)" and
    model: "applyModelRound E st2 response x3 = (Inr (st3, events, finished), x4)" and
    fin: "finish_round E st3 response finished x4 = (Inr (Done r), x')"
    by (rule run_round_steps)
  from buildRequest_records [OF build] before(1) round_waits [OF model tools]
  have w: "suspended st3 \<and> finished \<and> waits_for E pending st3 x4 \<or>
    \<not> suspended st3 \<and> \<not> list_ex pending_record (toolCallRecords st3)" by auto
  from ends finish_records [OF fin] have "list_ex pending_record (toolCallRecords st3)"
    by (auto simp: pending_last_def pending_record_def list_ex_iff intro!: bexI [of _ "last (toolCallRecords st3)"])
  with w have "suspended st3" "finished" "waits_for E pending st3 x4" by auto
  with finish_suspended [OF rec E quiet, of st3 response x4 r x'] fin obtain rs tn targs why a req sg p where
    "ar_toolCalls r = rs @ [\<lparr>tc_toolName = tn, tc_args = targs, tc_result = Completed (PendingResult why a req sg)\<rparr>]"
    "pending x' a = Some p" "resumable_record p (withoutSystemMessages (messages st3))" by auto
  moreover have "\<exists>rounds. told E st rounds st3" if "x_messageReducer E = None"
    using before(3) that plain_request [OF build that] round_told [OF model gen] by blast
  ultimately show ?thesis
    using finish_records [OF fin]
    by (intro exI [of _ rs] exI [of _ tn] exI [of _ targs] exI [of _ why] exI [of _ a] exI [of _ req] exI [of _ sg]
        exI [of _ p] exI [of _ st3]) simp
qed

section \<open>Resuming from the record\<close>

lemma splice_last:
  assumes "\<forall>m \<in> set ms. \<not> is_withheld i m"
  shows "splice_outcome ns i settled (ms @ [ToolMsg i tn c prov]) =
    Some (ms @ [ToolMsg i tn (txt_of ns (result_json settled)) (result_provenance settled)])"
  using assms by (induction ms) (auto simp: is_withheld_def)

lemma splice_found:
  "\<exists>ms'. splice_outcome ns i settled (ms @ [ToolMsg i tn c prov]) = Some ms'"
  by (induction ms) (auto simp: is_withheld_def)

lemma system_prefix_not_withheld: "m \<in> set (system_prefix ins) \<Longrightarrow> \<not> is_withheld i m"
  by (auto simp: system_prefix_def is_withheld_def split: option.splits list.splits)

text \<open>
  A resumable record is resumed from its checkpoint, whatever has become of the session, and
  the outcome of the call takes the place of the message that withheld it, unless an earlier
  message of the conversation carries the same call identifier.
\<close>

definition resumes_from :: "'x runner_env \<Rightarrow> PendingApproval \<Rightarrow> ModelMessage list \<Rightarrow> bool" where
  "resumes_from R p conv \<longleftrightarrow>
     (\<exists>i ms tn withheld. ap_toolCallId p = Some i \<and> conv = ms @ [ToolMsg i tn withheld None] \<and>
        (\<forall>y. resolveResumeHistory R p y = (Inr conv, y)) \<and>
        (\<forall>ns uuid ins tool_name targs settled. \<exists>st.
           createResumedState ns uuid ins conv i tool_name targs settled = Inr st \<and>
           ((\<forall>m \<in> set ms. \<not> is_withheld i m) \<longrightarrow>
              messages st = system_prefix ins @ ms @
                [ToolMsg i tn (txt_of ns (result_json settled)) (result_provenance settled)])))"

lemma resumable_resumes:
  assumes "resumable_record p conv"
  shows "resumes_from R p conv"
proof -
  from assms obtain i cp ms tn withheld where p: "ap_toolCallId p = Some i" "checkpoint p = Some cp"
    "cp_version cp = APPROVAL_CHECKPOINT_VERSION" "cp_messages cp = conv" and conv: "conv = ms @ [ToolMsg i tn withheld None]"
    unfolding resumable_record_def by blast
  let ?h = "ms @ [ToolMsg i tn withheld None]"
  have "\<exists>st. createResumedState ns uuid ins ?h i tool_name targs settled = Inr st \<and>
      ((\<forall>m \<in> set ms. \<not> is_withheld i m) \<longrightarrow>
         messages st = system_prefix ins @ ms @
           [ToolMsg i tn (txt_of ns (result_json settled)) (result_provenance settled)])"
    for ns uuid ins tool_name targs settled
  proof -
    from splice_found [of ns i settled "system_prefix ins @ ms" tn withheld None]
    obtain ms' where sp: "splice_outcome ns i settled (system_prefix ins @ ?h) = Some ms'" by auto
    moreover have "ms' = system_prefix ins @ ms @
        [ToolMsg i tn (txt_of ns (result_json settled)) (result_provenance settled)]"
      if "\<forall>m \<in> set ms. \<not> is_withheld i m"
      using sp splice_last [of "system_prefix ins @ ms" i ns settled tn withheld None] that
        system_prefix_not_withheld [of _ ins i] by auto
    ultimately show ?thesis by (simp add: createResumedState_def new_state_def)
  qed
  moreover have "resolveResumeHistory R p y = (Inr ?h, y)" for y
    using p conv by (simp add: resolveResumeHistory_def)
  ultimately show ?thesis unfolding resumes_from_def conv using p(1) by blast
qed


section \<open>The tools of the local provider\<close>

text \<open>
  The runner with \<open>LocalToolProvider\<close>: the world is the state of the provider, whose approval
  store is the in-memory one.
\<close>

type_synonym ('p, 'i, 'w) provider_world = "('p, mem_store, 'i, 'w) pst"

definition provider_records :: "('p, 'i, 'w) provider_world ApprovalRecords" where
  "provider_records =
     \<lparr>as_get = (\<lambda>i x. (Inr (mem_get i (pst_approvals x)), x)),
      as_save = (\<lambda>p x. (Inr (), x\<lparr>pst_approvals := snd (mem_save p (pst_approvals x))\<rparr>))\<rparr>"

definition local_runner ::
    "('p, mem_store, 'i, 'w) penv \<Rightarrow> ('p, 'i, 'w) provider_world runner_env \<Rightarrow> ('p, 'i, 'w) provider_world runner_env" where
  "local_runner env R =
     R\<lparr>re_buildLocal := Tool_Provider.buildTools env,
       re_invokeLocal := (\<lambda>tokens tool_name targs ctx agent_name.
         invokeApprovedTool env tokens \<lparr>c_context = ctx, c_agentName = agent_name, c_toolName = tool_name,
           c_args = targs\<rparr>),
       re_approvalStore := Some provider_records\<rparr>"

interpretation provider_approvals: approval_records provider_records pst_approvals
  by unfold_locales (auto simp: provider_records_def mem_get_def mem_save_def)

lemma rails_loop_settles:
  "rails_loop env c prov cons v st = (Inr r, st') \<Longrightarrow> \<not> (\<exists>why a req sg. r = PendingResult why a req sg)"
proof (induction cons arbitrary: v st)
  case (Cons con cons)
  from Cons.prems obtain a s where ask: "ask_output env c con v prov st = (Inr a, s)"
    by (auto simp: and_then_Inr_iff)
  show ?case
  proof (cases a)
    case None
    with Cons ask show ?thesis by simp
  next
    case (Some o_result)
    with Cons ask show ?thesis by (cases o_result) auto
  qed
qed auto

lemma save_result_same: "save_result env key tn r st = (Inr r', st') \<Longrightarrow> r' = r"
  by (cases key; cases "idempotencyStore env"; cases r)
     (auto simp: save_result_def map_sum_Inr_iff split: prod.splits)

lemma run_tool_settles:
  assumes "run_tool env c key tool cons st = (Inr (PendingResult why a req sg), st')"
  shows False
proof -
  from assms obtain r st1 st2 where inv: "invokeMethod tool (c_args c) (c_context c) st = (Inr r, st1)"
    and rails: "runOutputRails env c r cons st1 = (Inr (PendingResult why a req sg), st2)"
    by (auto simp: run_tool_def and_then_Inr_iff dest!: save_result_same)
  from inv obtain v prov where "r = Success v prov"
    by (auto simp: invokeMethod_def map_sum_Inr_iff split: prod.splits)
  with rails have "rails_loop env c prov cons v st1 = (Inr (PendingResult why a req sg), st2)"
    by (simp add: runOutputRails_def)
  from rails_loop_settles [OF this] show False by simp
qed

text \<open>No stored result of the idempotency store is a pending one.\<close>

definition no_pending_cache :: "('p, 's, 'i, 'w) penv \<Rightarrow> bool" where
  "no_pending_cache env \<longleftrightarrow>
     (\<forall>key st why a req sg. cached_result env key st \<noteq> Inr (Some (PendingResult why a req sg)))"

lemma policy_chain_not_pending:
  "policy_chain env c cons requests st = (Inr (Stopped r), st') \<Longrightarrow>
     \<not> (\<exists>why a req sg. r = PendingResult why a req sg)"
proof (induction cons arbitrary: requests st)
  case (Cons con cons)
  then show ?case
    by (auto simp: Let_def split: option.splits prod.splits sum.splits PolicyResult.splits)
qed simp

lemma execute_tool_registers:
  assumes "execute_tool env c (Some i) ttl tool cons st = (Inr (PendingResult why a req sg), st')"
    and "no_pending_cache env" "approvalStore env = mem_ops" "randomUUID env \<noteq> []"
  shows "a \<noteq> [] \<and> (\<exists>p. pst_approvals st' a = Some p \<and> ap_id p = a \<and> ap_toolCallId p = Some i)"
proof -
  let ?key = "resolveIdempotencyKey (c_args c) (c_context c)"
  from assms(1,2) obtain outcome st1 where chain: "policy_chain env c cons [] st = (Inr outcome, st1)"
    and out: "(case outcome of
       Stopped r \<Rightarrow> (Inr r, st1)
     | Passed requests \<Rightarrow>
         if requests \<noteq> [] then requestApproval env c (Some i) ttl requests st1
         else run_tool env c ?key tool cons st1) = (Inr (PendingResult why a req sg), st')"
    by (auto simp: execute_tool_def Let_def and_then_Inr_iff no_pending_cache_def
          split: sum.splits option.splits)
  from chain out obtain requests where
    "requestApproval env c (Some i) ttl requests st1 = (Inr (PendingResult why a req sg), st')"
    by (cases outcome) (auto dest: run_tool_settles policy_chain_not_pending split: if_splits)
  then have "a = ap_id (approval_of env c (Some i) ttl requests)"
    "pst_approvals st' = (pst_approvals st1)(a \<mapsto> approval_of env c (Some i) ttl requests)"
    using assms(3) by (auto simp: requestApproval_def Let_def mem_ops_def mem_save_def split: if_splits)
  with assms(4) show ?thesis by (simp add: approval_of_def Let_def)
qed

lemma local_tools_register:
  assumes "no_pending_cache env" "approvalStore env = mem_ops" "randomUUID env \<noteq> []"
  shows "tool \<in> set (fst (Tool_Provider.buildTools env tokens ctx agent_name ttl st)) \<Longrightarrow>
    registers pst_approvals tool"
proof (induction tokens arbitrary: st)
  case (Cons token tokens)
  have one: "registers pst_approvals tool"
    if "tool \<in> set (fst (build_toolset env ctx agent_name ttl discovered st))" for discovered st tool
  proof -
    have sub: "set (fst (fold (\<lambda>t (tools, st). (tools @ [f t], g t st)) ts (acc, st))) \<subseteq> set acc \<union> f ` set ts"
      for f :: "'c DiscoveredTool \<Rightarrow> ('a, 'b, 'c) provider_world ResolvedTool" and g ts acc st
      by (induction ts arbitrary: acc st) (auto split: prod.splits, fastforce)
    let ?up = "\<lambda>t. defaultPolicyConstructors env (exemptFromDefaultPolicies t) @ classPolicyConstructors discovered"
    have "tool \<in> set (fst (fold (\<lambda>t (tools, st). (tools @ [buildResolvedTool env t (?up t) ctx agent_name ttl],
        warnIfExemptWithNoPolicies t (?up t @ policyConstructors t) st)) (dts_tools discovered) ([], st)))"
      using that by (simp add: build_toolset_def Let_def)
    from subsetD [OF sub this] have "\<exists>t up. tool = buildResolvedTool env t up ctx agent_name ttl" by auto
    then show ?thesis
      using execute_tool_registers [OF _ assms]
      by (fastforce simp: registers_def buildResolvedTool_def Let_def)
  qed
  show ?case
  proof (cases "toolset_of env token")
    case None
    with Cons show ?thesis by simp
  next
    case (Some discovered)
    obtain tools st1 where b: "build_toolset env ctx agent_name ttl discovered st = (tools, st1)" by fastforce
    obtain rest st2 where r: "Tool_Provider.buildTools env tokens ctx agent_name ttl st1 = (rest, st2)" by fastforce
    from Cons.prems Some b r have "tool \<in> set tools \<or> tool \<in> set rest" by simp
    then show ?thesis using one [of tool discovered st] Cons.IH [of st1] b r by auto
  qed
qed simp

text \<open>So the runner has registering tools only, when those of other providers register too.\<close>

definition providers_register ::
    "'x runner_env \<Rightarrow> ('x \<Rightarrow> string \<Rightarrow> PendingApproval option) \<Rightarrow> bool" where
  "providers_register R pending \<longleftrightarrow>
     (\<forall>token provider ctx agent_name y tools y'. resolveProviderInstance R token = Some provider \<longrightarrow>
        tp_getTools provider ctx agent_name y = (Inr tools, y') \<longrightarrow> (\<forall>tool \<in> set tools. registers pending tool))"

lemma collect_registers:
  "providers_register R pending \<Longrightarrow> collect_tools R tokens ctx agent_name y = (Inr (tools, locals), y') \<Longrightarrow>
     tool \<in> set tools \<Longrightarrow> registers pending tool"
proof (induction tokens arbitrary: y tools locals)
  case (Cons token tokens)
  then show ?case
    by (auto simp: and_then_Inr_iff providers_register_def split: option.splits) blast+
qed simp

lemma local_runner_registers:
  assumes "no_pending_cache env" "approvalStore env = mem_ops" "randomUUID env \<noteq> []"
    and "providers_register R pst_approvals"
    and "buildAgentTools (local_runner env R) tokens ctx agent_name y = (Inr tools, y')" "tool \<in> set tools"
  shows "registers pst_approvals tool"
proof -
  have same: "resolveProviderInstance (local_runner env R) token = resolveProviderInstance R token" for token
    by (cases token) (simp_all add: local_runner_def)
  with assms(4) have providers: "providers_register (local_runner env R) pst_approvals"
    by (simp add: providers_register_def)
  from assms(5) obtain found locals y1 where c: "collect_tools (local_runner env R) tokens ctx agent_name y =
      (Inr (found, locals), y1)"
    and t: "tools = found \<or> tools = found @
      fst (Tool_Provider.buildTools env locals ctx agent_name (re_approvalTtlSeconds R) y1)"
    by (auto simp: buildAgentTools_def local_runner_def and_then_Inr_iff split: if_splits prod.splits)
  from t assms(6) show ?thesis
    using collect_registers [OF providers c] local_tools_register [OF assms(1-3)] by auto
qed

section \<open>An example\<close>

text \<open>
  A shop whose only tool is guarded by a policy that asks for approval, and a model that
  wants to pay.
\<close>

definition pay_class :: "nat decorated_class" where
  "pay_class =
     \<lparr>dc_toolset = True, dc_policies = Some [ex_con 3], dc_exempt = None,
      dc_prototype = Some [\<lparr>dm_name = ''pay'',
        dm_tool = \<lparr>on_prototype = Some \<lparr>opt_name = None, opt_description = None\<rparr>, on_function = None,
          on_instance = None, on_target = None\<rparr>,
        dm_params = \<lparr>on_prototype = None, on_function = None, on_instance = None, on_target = None\<rparr>,
        dm_context = \<lparr>on_prototype = None, on_function = None, on_instance = None, on_target = None\<rparr>,
        dm_policies = \<lparr>on_prototype = None, on_function = None, on_instance = None, on_target = None\<rparr>,
        dm_exempt = \<lparr>on_prototype = None, on_function = None, on_instance = None, on_target = None\<rparr>,
        dm_body = (\<lambda>_ w. (Inr (JStr ''paid''), Suc w))\<rparr>]\<rparr>"

definition pay_env :: "(nat, mem_store, unit, nat) penv" where
  "pay_env = (ex_env None)\<lparr>decorated := (\<lambda>_. pay_class)\<rparr>"

definition no_layer :: output_layer where
  "no_layer = \<lparr>layer_schema = None, layer_options = None\<rparr>"

definition shop_agent :: "'x AgentProvider" where
  "shop_agent =
     \<lparr>rg_name = Some ''shop'', rg_model = None, rg_cascade = None,
      rg_define = \<lparr>ag_instructions = ''Sell.'', ag_tools = [ObjectToken 0], ag_model = None, ag_cascade = None,
        ag_limits = None, ag_toolErrorHandling = None, ag_messageReducer = None, ag_output = no_layer\<rparr>\<rparr>"

definition paying_model :: "'x ModelAdapter" where
  "paying_model =
     \<lparr>ma_generate = (\<lambda>_ _ x. (Inr \<lparr>rs_content = [],
        rs_toolCalls = Some [\<lparr>call_id = ''c1'', call_name = ''pay'', call_args = []\<rparr>], rs_usage = None,
        rs_refusal = JUndef\<rparr>, x)),
      ma_stream = None, ma_supportsStructuredOutput = False\<rparr>"

definition shop_base :: "(nat, unit, nat) provider_world runner_env" where
  "shop_base =
     \<lparr>re_agentProviders = [shop_agent], re_containerAgents = None, re_defaultModel = ''m'', re_limits = None,
      re_toolErrorHandling = None, re_messageReducer = None, re_sessionEnabled = None,
      re_sessionMaxMessages = None, re_approvalTtlSeconds = None, re_checkpointTtlSeconds = None,
      re_providerObject = (\<lambda>_. \<lparr>tp_getTools = (\<lambda>_ _ x. (Inr [], x)), tp_invokeApprovedTool = None\<rparr>),
      re_containerProvider = (\<lambda>_. None), re_buildLocal = (\<lambda>_ _ _ _ x. ([], x)),
      re_invokeLocal = (\<lambda>_ tool_name _ _ _ x. (Inl (ApprovalToolNotFound tool_name), x)),
      re_modelAdapter = Some paying_model, re_runtimeAdapter = None, re_optionsSessionStore = None,
      re_sessionStore = None, re_approvalStore = None, re_optionsStateStore = None, re_stateStore = None,
      re_callerAborted = (\<lambda>_. False), re_abortReason = (\<lambda>_ _. None), re_timedOut = (\<lambda>_ _. False),
      re_now = (\<lambda>_. 0), re_isoNow = (\<lambda>_. []), re_uuid = (\<lambda>x. (''u'', x)),
      re_extractor = (\<lambda>_ _ _ x. (Inr (Fin 0), x)), re_so = sample_so, re_number = plain_number\<rparr>"

abbreviation shop :: "(nat, unit, nat) provider_world runner_env" where
  "shop \<equiv> local_runner pay_env shop_base"

definition order :: "'x RunInput" where
  "order = \<lparr>ri_sessionId = ''s'', ri_message = ''pay'', ri_context = None, ri_limits = None,
     ri_toolErrorHandling = None, ri_messageReducer = None, ri_cascade = None, ri_history = None,
     ri_output = no_layer\<rparr>"

lemmas shop_defs = local_runner_def shop_base_def shop_agent_def order_def no_context_def no_layer_def
  pay_env_def pay_class_def paying_model_def

lemmas prepare_simps = prepareRun_def getAgentMap_def Let_def fresh_uuid_def buildAgentTools_def
  toolset_of_def discover_def discover_method_def getMethodMetadata_def build_toolset_def
  warnIfExemptWithNoPolicies_def resolve_spec_def resolveStructuredOutput_def List.map_filter_def
  deadline_of_def security_of_def

lemmas round_simps = run_loop.simps run_round_def assertWithinBudget_def assertNotAborted_def
  buildRequest_def projectMessages_def applyModelRound_def finish_round_def rejectOutput_def
  publishCheckpoint_def publishTranscript_def toResult_def createState_def new_state_def
  accumulateUsage_def run_call_def call_returned_def pushToolMessage_def push_record_def

definition pay_tool :: "nat DiscoveredTool" where
  "pay_tool = \<lparr>dt_methodName = ''pay'', dt_toolName = ''pay'', dt_description = [], dt_params = [],
     contextParamIndex = None, policyConstructors = [], exemptFromDefaultPolicies = False, dt_instance = 0,
     dt_method = (\<lambda>_ w. (Inr (JStr ''paid''), Suc w))\<rparr>"

definition shop_tool :: "AgentContext \<Rightarrow> (nat, unit, nat) provider_world ResolvedTool" where
  "shop_tool ctx = buildResolvedTool pay_env pay_tool [ex_con 3] ctx ''shop'' None"

lemma pay_env_fields [simp]:
  "approvalStore pay_env = mem_ops" "cached_result pay_env key st = Inr None" "randomUUID pay_env = ''uuid''"
  "resolvePolicy pay_env (ex_con n) = Some (ex_policy n)" "aborted pay_env = False"
  "misconfiguration pay_env con None = None" "defaultPolicies pay_env = None"
  by (simp_all add: pay_env_def ex_env_def cached_result_def resolvePolicy_def getPolicyMap_def ex_con_def
        misconfiguration_def Let_def split: option.splits)

lemma pay_withheld:
  assumes "deadline (c_context c) = None"
  shows "\<exists>st'. execute_tool pay_env c i None tool [ex_con 3] st =
    (Inr (PendingResult ''new payee'' ''uuid'' None None), st')"
  using assms
  by (simp add: ex_run_simps entry_guard_def isDeadlineExceeded_def math_max_def distinct_values_def lifetimes_def)

lemma shop_prepared:
  "\<exists>p. prepareRun shop ''shop'' order (ex_state ()) = (Inr p, ex_state ()) \<and> pr_limits p = None \<and>
     pr_tools p = [shop_tool (pr_context p)] \<and> deadline (pr_context p) = None \<and> pr_cascade p = None \<and>
     pr_messageReducer p = None \<and> pr_structuredOutput p = None \<and> ag_instructions (pr_config p) = ''Sell.''"
  by (simp add: prepare_simps shop_defs shop_tool_def pay_tool_def ex_env_def defaultPolicyConstructors_def)

lemma shop_env:
  assumes "pr_limits p = None" "pr_tools p = [shop_tool ctx]" "pr_cascade p = None"
    "pr_messageReducer p = None" "pr_structuredOutput p = None"
    and E: "E = configured (turn_env shop (run_request shop order p)) None handling"
  shows "x_tools E = [shop_tool ctx]" "x_messageReducer E = None" "x_structuredOutput E = None"
    "l_maxIterations (x_limits E) = 10" "l_maxToolCalls (x_limits E) = 32" "l_maxTotalTokens (x_limits E) = None"
    "x_aborted E x = False" "x_onTranscript E = None" "x_onSuspend E = Some (saveCheckpoint shop)"
    "x_adapterAvailable E" "x_number E = plain_number"
    "x_generate E req x = (Inr \<lparr>rs_content = [],
        rs_toolCalls = Some [\<lparr>call_id = ''c1'', call_name = ''pay'', call_args = []\<rparr>], rs_usage = None,
        rs_refusal = JUndef\<rparr>, x)"
  using assms
  by (simp_all add: configured_def turn_env_def run_request_def Let_def resolveEffectiveAdapter_def
        resolveLimits_def DEFAULT_MAX_ITERATIONS_def DEFAULT_MAX_TOOL_CALLS_def historyEnabled_def
        resolveSessionStore_def shop_defs useBuiltInRuntime_def)

lemma saveCheckpoint_shop: "\<exists>x'. saveCheckpoint shop a msgs spec x = (Inr (), x')"
  by (auto simp: saveCheckpoint_def local_runner_def provider_records_def split: option.splits)

lemma shop_round:
  assumes "pr_limits p = None" "pr_tools p = [shop_tool ctx]" "pr_cascade p = None"
    "pr_messageReducer p = None" "pr_structuredOutput p = None" "deadline ctx = None"
  shows "\<exists>r x'. run_round (configured (turn_env shop (run_request shop order p)) None handling)
      (createState u ins None msg) x = (Inr (Done r), x') \<and> pending_last (ar_toolCalls r)"
proof -
  define E where "E = configured (turn_env shop (run_request shop order p)) None handling"
  note env = shop_env [OF assms(1-5) E_def]
  have tool: "rt_name (shop_tool ctx) = ''pay''" "rt_parameters (shop_tool ctx) = []"
    by (simp_all add: shop_tool_def buildResolvedTool_def Let_def pay_tool_def)
  obtain st' where exec: "rt_execute (shop_tool ctx) [] (Some ''c1'') x =
      (Inr (PendingResult ''new payee'' ''uuid'' None None), st')"
    using pay_withheld [of "\<lparr>c_context = ctx, c_agentName = ''shop'', c_toolName = ''pay'', c_args = []\<rparr>"
        "Some ''c1''" pay_tool x] assms(6)
    by (auto simp: shop_tool_def buildResolvedTool_def Let_def pay_tool_def)
  have args: "validateToolArgs ns [] (Some []) = \<lparr>valid = True, args = [], issues = []\<rparr>" for ns
    by (simp add: validateToolArgs_def)
  define saved where "saved a msgs spec y = snd (saveCheckpoint shop a msgs spec y)" for a msgs spec y
  have save: "saveCheckpoint shop a msgs spec y = (Inr (), saved a msgs spec y)" for a msgs spec y
    using saveCheckpoint_shop [of a msgs spec y] by (auto simp: saved_def)
  show ?thesis
    unfolding E_def [symmetric]
    by (simp add: run_round_def assertWithinBudget_def assertNotAborted_def buildRequest_def projectMessages_def
          applyModelRound_def env tool exec args run_call_def call_returned_def pushToolMessage_def push_record_def
          save createState_def new_state_def accumulateUsage_def finish_round_def rejectOutput_def publishCheckpoint_def
          publishTranscript_def toResult_def pending_last_def Let_def toStoredStructuredOutput_def)
qed

lemma shop_waits:
  "\<exists>r x'. run shop ''shop'' order (ex_state ()) = (Inr (BuiltIn r), x') \<and> pending_last (ar_toolCalls r)"
proof -
  from shop_prepared obtain p where p: "prepareRun shop ''shop'' order (ex_state ()) = (Inr p, ex_state ())"
    "pr_limits p = None" "pr_tools p = [shop_tool (pr_context p)]" "deadline (pr_context p) = None"
    "pr_cascade p = None" "pr_messageReducer p = None" "pr_structuredOutput p = None"
    "ag_instructions (pr_config p) = ''Sell.''" by blast
  let ?E = "configured (turn_env shop (run_request shop order p)) None (pr_toolErrorHandling p)"
  let ?st = "createState ''u'' (Some ''Sell.'') None ''pay''"
  from shop_round [OF p(2,3,5,6,7,4), of "pr_toolErrorHandling p" "''u''" "Some ''Sell.''" "''pay''" "ex_state ()"]
  obtain r x' where "run_round ?E ?st (ex_state ()) = (Inr (Done r), x')" and last: "pending_last (ar_toolCalls r)"
    by blast
  then have loop: "run_loop ?E ?st (ex_state ()) = (Inr r, x')" by (simp add: run_loop.simps)
  have fields: "useBuiltInRuntime shop" "re_uuid shop y = (''u'', y)" "historyEnabled shop order = False"
    "ri_message (order :: (nat, unit, nat) provider_world RunInput) = ''pay''" for y
    by (simp_all add: shop_defs useBuiltInRuntime_def historyEnabled_def resolveSessionStore_def)
  have "x_adapterAvailable ?E" by (rule shop_env(10) [OF p(2,3,5,6,7) refl])
  with loop p fields
  have "run shop ''shop'' order (ex_state ()) = (Inr (BuiltIn r), x')"
    by (simp add: run_def history_for_def execute_turn_def run_turn_def requireAdapter_def)
  with last show ?thesis by blast
qed


end
