(* ===== verification/Runner_State.thy ===== *)
theory Runner_State
  imports Turn_Conversation
begin

text \<open>
  What the runner keeps between turns: the conversation of a session, scoped by tenant, in a session store
  such as \<open>packages/core/src/stores/in-memory/in-memory-session.store.ts\<close>.
\<close>

section \<open>Session keys\<close>

text \<open>
  Conversations and checkpoints of different tenants never share a key: for contexts
  with a tenant, two session keys are equal exactly when tenant and session are.
\<close>

theorem tenants_are_isolated:
  assumes "tenantId (security c1) = Some t1" "t1 \<noteq> []" "tenantId (security c2) = Some t2" "t2 \<noteq> []"
  shows "sessionKey c1 = sessionKey c2 \<longleftrightarrow> t1 = t2 \<and> sessionId c1 = sessionId c2"
proof -
  have "sessionKey c = scopeKey plain_number [PartStr t, PartStr (sessionId c)]"
    if "tenantId (security c) = Some t" "t \<noteq> []" for c t
    using that by (cases t) (simp_all add: sessionKey_def)
  with assms scopeKey_inj [OF plain_number_printer, of "[PartStr t1, PartStr (sessionId c1)]"
      "[PartStr t2, PartStr (sessionId c2)]"]
  show ?thesis by simp
qed

definition context_of :: "string option \<Rightarrow> string \<Rightarrow> AgentContext" where
  "context_of tenant session =
     \<lparr>security = \<lparr>userId = None, tenantId = tenant, roles = None, permissions = None\<rparr>, sessionId = session,
      traceId = ''t'', parentTraceId = None, rootTraceId = None, ctx_data = None, deadline = None\<rparr>"

theorem tenants_are_isolated_witness:
  "sessionKey (context_of (Some ''a:b'') ''c'') \<noteq> sessionKey (context_of (Some ''a'') ''b:c'')"
  using tenants_are_isolated [of "context_of (Some ''a:b'') ''c''" "''a:b''" "context_of (Some ''a'') ''b:c''" "''a''"]
  by (simp add: context_of_def)

text \<open>
  A caller without a tenant can name a session by the key of a tenant's session, and then
  shares it.
\<close>

lemma tenantless_session_collides:
  assumes "t \<noteq> []"
  shows "sessionKey (context_of None (sessionKey (context_of (Some t) s))) = sessionKey (context_of (Some t) s)"
  using assms by (cases t) (simp_all add: sessionKey_def context_of_def)

section \<open>Conversation history\<close>

text \<open>
  The session store as the runner relies on it: what is read is the last record set for the key, with its
  messages as the store has kept them.
\<close>

locale session_records =
  fixes S :: "'x SessionStore"
    and sessions :: "'x \<Rightarrow> string \<Rightarrow> session_value option"
    and snapshot :: "ModelMessage \<Rightarrow> ModelMessage"
  assumes get: "ss_get S k x = (Inr (sessions x k), x)"
    and set_ok: "ss_set S k r x = (res, x') \<Longrightarrow>
      res = Inr () \<and> sessions x' = (sessions x)(k \<mapsto> Usable (r\<lparr>sr_messages := map snapshot (sr_messages r)\<rparr>))"
    and snapshot_kind: "is_system (snapshot m) = is_system m" "opensCleanly (snapshot m) = opensCleanly m"
begin

lemma load_stored:
  assumes "resolveSessionStore E = Some S" "sessions x (sessionKey ctx) = Some (Usable r)"
  shows "loadHistory E ctx x = (kept_history E (sr_messages r), x)"
  using assms by (simp add: loadHistory_def get)

lemma save_stores:
  assumes "resolveSessionStore E = Some S" "saveHistory E ctx msgs x = (res, x')"
  shows "res = Inr () \<and> (\<exists>r. sessions x' = (sessions x)(sessionKey ctx \<mapsto> Usable r) \<and>
    sr_messages r = map snapshot (kept_history E msgs) \<and> sr_sessionId r = sessionId ctx)"
proof -
  let ?r = "\<lparr>sr_sessionId = sessionId ctx, sr_messages = kept_history E msgs, sr_updatedAt = re_isoNow E x\<rparr>"
  from assms have "ss_set S (sessionKey ctx) ?r x = (res, x')" by (simp add: saveHistory_def)
  from set_ok [OF this] show ?thesis
    by (auto intro!: exI [of _ "?r\<lparr>sr_messages := map snapshot (sr_messages ?r)\<rparr>"])
qed

lemma kept_history_snapshot: "kept_history E (map snapshot ms) = map snapshot (kept_history E ms)"
  by (simp add: kept_history_def withoutSystemMessages_def trimHistory_def Let_def filter_map dropWhile_map drop_map
      comp_def snapshot_kind)

end

text \<open>
  The store in memory keeps the JSON text of a record and parses it when it is read: values in the arguments
  of tool calls come back as their JSON images; the other parts of a message are texts and come back as they
  were.
\<close>

definition args_image :: "props \<Rightarrow> props" where
  "args_image ps = concat (map (\<lambda>(k, v). case json_image v of None \<Rightarrow> [] | Some w \<Rightarrow> [(k, w)]) ps)"

definition call_image :: "ModelToolCall \<Rightarrow> ModelToolCall" where
  "call_image c = c\<lparr>call_args := args_image (call_args c)\<rparr>"

fun message_image :: "ModelMessage \<Rightarrow> ModelMessage" where
  "message_image (AssistantMsg c (Some calls)) = AssistantMsg c (Some (map call_image calls))"
| "message_image m = m"

definition record_image :: "SessionRecord \<Rightarrow> SessionRecord" where
  "record_image r = r\<lparr>sr_messages := map message_image (sr_messages r)\<rparr>"

type_synonym mem_sessions = "string \<Rightarrow> SessionRecord option"

definition mem_session_get :: "string \<Rightarrow> mem_sessions \<Rightarrow> session_value option" where
  "mem_session_get k store = map_option Usable (store k)"

definition mem_session_set :: "string \<Rightarrow> SessionRecord \<Rightarrow> mem_sessions \<Rightarrow> mem_sessions" where
  "mem_session_set k r store = store(k \<mapsto> record_image r)"

definition mem_session_delete :: "string \<Rightarrow> mem_sessions \<Rightarrow> mem_sessions" where
  "mem_session_delete k store = store(k := None)"

definition mem_session_store :: "mem_sessions SessionStore" where
  "mem_session_store =
     \<lparr>ss_get = (\<lambda>k x. (Inr (mem_session_get k x), x)), ss_set = (\<lambda>k r x. (Inr (), mem_session_set k r x))\<rparr>"

lemma message_image_kind: "is_system (message_image m) = is_system m" "opensCleanly (message_image m) = opensCleanly m"
  by (cases m rule: message_image.cases; simp add: opensCleanly_def)+

interpretation mem_history: session_records mem_session_store "\<lambda>x k. mem_session_get k x" message_image
  by unfold_locales
    (auto simp: mem_session_store_def mem_session_get_def mem_session_set_def record_image_def message_image_kind)

text \<open>Trimming what has been trimmed changes nothing.\<close>

lemma dropWhile_idem: "dropWhile P (dropWhile P xs) = dropWhile P xs"
  by (induction xs) auto

lemma dropWhile_length: "length (dropWhile P xs) \<le> length xs"
  by (induction xs) auto

lemma trim_short:
  assumes "\<not> n \<le> 0" "int (length ms) \<le> n"
  shows "trimHistory ms n = dropWhile (\<lambda>m. \<not> opensCleanly m) ms"
  using assms by (simp add: trimHistory_def)

lemma kept_history_idem: "kept_history E (kept_history E ms) = kept_history E ms"
proof -
  let ?n = "nullish (re_sessionMaxMessages E) DEFAULT_SESSION_MAX_MESSAGES"
  let ?t = "trimHistory (withoutSystemMessages ms) ?n"
  have sub: "set ?t \<subseteq> set (withoutSystemMessages ms)"
    by (auto simp: trimHistory_def Let_def dest!: set_dropWhileD in_set_dropD split: if_splits)
  then have "withoutSystemMessages ?t = ?t"
    by (auto simp: withoutSystemMessages_def intro!: filter_True)
  moreover have "trimHistory ?t ?n = ?t"
  proof (cases "?n \<le> 0")
    case True
    then show ?thesis by (simp add: trimHistory_def)
  next
    case False
    let ?recent = "if int (length (withoutSystemMessages ms)) > ?n
      then drop (length (withoutSystemMessages ms) - nat ?n) (withoutSystemMessages ms) else withoutSystemMessages ms"
    have t: "?t = dropWhile (\<lambda>m. \<not> opensCleanly m) ?recent"
      using False by (simp add: trimHistory_def Let_def)
    have "int (length ?recent) \<le> ?n" using False by auto
    with dropWhile_length [of "\<lambda>m. \<not> opensCleanly m" ?recent] have "int (length ?t) \<le> ?n"
      unfolding t by linarith
    with False have "trimHistory ?t ?n = dropWhile (\<lambda>m. \<not> opensCleanly m) ?t"
      by (rule trim_short)
    then show ?thesis by (simp only: t dropWhile_idem)
  qed
  ultimately show ?thesis by (simp add: kept_history_def)
qed

lemma kept_history_system: "kept_history E (system_prefix ins @ ms) = kept_history E ms"
  by (simp add: kept_history_def withoutSystemMessages_def system_prefix_def split: option.splits list.splits)

text \<open>The end of a turn that is not suspended.\<close>

lemma done_publishes:
  assumes "run_round E st x = (Inr (Done r), x')" "x_messageReducer E = None" "\<not> suspended st"
    and "told E st0 rounds st" "\<forall>t \<in> set rounds. round_full t"
    and "x_onTranscript E = Some save" "\<not> pending_last (ar_toolCalls r)"
  shows "\<exists>rounds x1. rounds_of E rounds \<and> (\<forall>t \<in> set rounds. round_full t) \<and>
    ar_toolCalls r = toolCallRecords st0 @ told_records rounds \<and>
    save (messages st0 @ told_messages rounds @
      (if ar_output r = [] then [] else [AssistantMsg (ar_output r) None])) x1 = (Inr (), x')"
proof -
  from done_told [OF assms(1-5)] obtain rounds' st2 st3 response events x2 x3 x4 x5 where
    t: "told E st0 rounds' st3" "\<not> suspended st3 \<longrightarrow> (\<forall>t \<in> set rounds'. round_full t)" and
    fin: "finish_round E st2 response True x4 = (Inr (Done r), x')" and
    rej: "rejectOutput E st2 response x4 = (Inr (None, st3), x3)" and
    model: "applyModelRound E st response x2 = (Inr (st2, events, True), x4)" and
    pub: "publishTranscript E st3 (rs_content response) x5 = (Inr (), x')" and
    r: "r = toResult (x_sessionId E) st3 (rs_content response)" by blast
  from round_suspends [OF model assms(3)] finish_records [OF fin] assms(7) rejectOutput_suspended [OF rej]
  have s: "\<not> suspended st3" by auto
  with pub r assms(6) t show ?thesis
    by (intro exI [of _ rounds'] exI [of _ x5])
      (auto simp: publishTranscript_def toResult_def resolveOutput_def told_def)
qed

text \<open>
  C14: A finished turn hands its conversation to the next turn of its session. When the agent has no message
  reducer and the session store keeps records as the in-memory store does, the next turn of the same tenant
  and session loads, trimmed and as the store keeps messages: what this turn itself had loaded, the user's
  message, every round in which the model called tools, with what it was told about each of its calls, and
  the final answer. The rounds are those of the calls the turn reports.
\<close>

theorem conversation_carries_over:
  assumes "run R agent_name input x = (Inr (BuiltIn r), x')" and "\<not> pending_last (ar_toolCalls r)"
    and "prepareRun R agent_name input x = (Inr p, x1)" and "loadHistory R (pr_context p) x1 = (h, x2)"
    and "historyEnabled R input" "pr_messageReducer p = None"
    and "resolveSessionStore R = Some S" "session_records S sessions snapshot"
    and "sessionKey next_context = sessionKey (pr_context p)"
  shows "\<exists>rounds. rounds_of (run_env R input p) rounds \<and> (\<forall>t \<in> set rounds. round_full t) \<and>
    told_records rounds = ar_toolCalls r \<and>
    loadHistory R next_context x' =
      (map snapshot (kept_history R (h @ [UserMsg (ri_message input)] @ told_messages rounds @
         (if ar_output r = [] then [] else [AssistantMsg (ar_output r) None]))), x')"
proof -
  let ?E = "run_env R input p"
  have hist: "history_for R input (pr_context p) x1 = (Some h, x2)" using assms(4,5) by (simp add: history_for_def)
  from run_is_loop [OF assms(1,3) hist] obtain uuid x3 where
    loop: "run_loop ?E (createState uuid (Some (ag_instructions (pr_config p))) (Some h) (ri_message input)) x3 = (Inr r, x')"
    (is "run_loop _ ?st _ = _") by blast
  have E: "x_messageReducer ?E = None" "x_onTranscript ?E = Some (saveHistory R (pr_context p))"
    using assms(5,6) by (simp_all add: run_env_simps)
  have st: "\<not> suspended ?st" "repair ?st = []" "toolCallRecords ?st = []"
    "messages ?st = system_prefix (Some (ag_instructions (pr_config p))) @ h @ [UserMsg (ri_message input)]"
    by (simp_all add: createState_def new_state_def nullish_def)
  from loop_told [OF loop E(1) st(1,2)] obtain st1 y1 rounds1 where before:
    "run_round ?E st1 y1 = (Inr (Done r), x')" "\<not> suspended st1" "told ?E ?st rounds1 st1"
    "\<forall>t \<in> set rounds1. round_full t" by blast
  let ?answer = "if ar_output r = [] then [] else [AssistantMsg (ar_output r) None]"
  from done_publishes [OF before(1) E(1) before(2-4) E(2) assms(2)] obtain rounds y2 where
    rounds: "rounds_of ?E rounds" "\<forall>t \<in> set rounds. round_full t" "ar_toolCalls r = told_records rounds" and
    save: "saveHistory R (pr_context p) (messages ?st @ told_messages rounds @ ?answer) y2 = (Inr (), x')"
    using st(3) by auto
  from session_records.save_stores [OF assms(8,7) save] obtain stored_record where
    stored: "sessions x' (sessionKey (pr_context p)) = Some (Usable stored_record)"
    and msgs: "sr_messages stored_record = map snapshot (kept_history R (messages ?st @ told_messages rounds @ ?answer))"
    by auto
  from session_records.load_stored [OF assms(8,7), of x' next_context stored_record] stored assms(9) msgs
  have "loadHistory R next_context x' = (map snapshot (kept_history R (messages ?st @ told_messages rounds @ ?answer)), x')"
    by (simp add: session_records.kept_history_snapshot [OF assms(8)] kept_history_idem)
  then have "loadHistory R next_context x' =
      (map snapshot (kept_history R (h @ [UserMsg (ri_message input)] @ told_messages rounds @ ?answer)), x')"
    by (simp add: st(4) kept_history_system)
  with rounds show ?thesis by auto
qed

text \<open>An agent that answers at once, with its history in memory.\<close>

definition answering_model :: "'x ModelAdapter" where
  "answering_model =
     \<lparr>ma_generate = (\<lambda>_ _ x. (Inr \<lparr>rs_content = ''Hi!'', rs_toolCalls = None, rs_usage = None,
        rs_refusal = JUndef\<rparr>, x)), ma_stream = None, ma_supportsStructuredOutput = False\<rparr>"

definition no_output :: output_layer where
  "no_output = \<lparr>layer_schema = None, layer_options = None\<rparr>"

definition greeter :: "'x AgentProvider" where
  "greeter =
     \<lparr>rg_name = Some ''greeter'', rg_model = None, rg_cascade = None,
      rg_define = \<lparr>ag_instructions = ''Greet.'', ag_tools = [], ag_model = None, ag_cascade = None,
        ag_limits = None, ag_toolErrorHandling = None, ag_messageReducer = None, ag_output = no_output\<rparr>\<rparr>"

definition hello :: "mem_sessions RunInput" where
  "hello = \<lparr>ri_sessionId = ''s'', ri_message = ''Hello'', ri_context = None, ri_limits = None,
     ri_toolErrorHandling = None, ri_messageReducer = None, ri_cascade = None, ri_history = None,
     ri_output = no_output\<rparr>"

definition bare_runner :: "'x runner_env" where
  "bare_runner =
     \<lparr>re_agentProviders = [greeter], re_containerAgents = None, re_defaultModel = ''m'', re_limits = None,
      re_toolErrorHandling = None, re_messageReducer = None, re_sessionEnabled = None,
      re_sessionMaxMessages = None, re_approvalTtlSeconds = None, re_checkpointTtlSeconds = None,
      re_providerObject = (\<lambda>_. \<lparr>tp_getTools = (\<lambda>_ _ x. (Inr [], x)), tp_invokeApprovedTool = None\<rparr>),
      re_containerProvider = (\<lambda>_. None), re_buildLocal = (\<lambda>_ _ _ _ x. ([], x)),
      re_invokeLocal = (\<lambda>_ tool_name _ _ _ x. (Inl (ApprovalToolNotFound tool_name), x)),
      re_modelAdapter = Some answering_model, re_runtimeAdapter = None, re_optionsSessionStore = None,
      re_sessionStore = None, re_approvalStore = None, re_optionsStateStore = None,
      re_stateStore = None, re_callerAborted = (\<lambda>_. False), re_abortReason = (\<lambda>_ _. None),
      re_timedOut = (\<lambda>_ _. False), re_now = (\<lambda>_. 0), re_isoNow = (\<lambda>_. []), re_uuid = (\<lambda>x. (''u'', x)),
      re_extractor = (\<lambda>_ _ _ x. (Inr (Fin 0), x)), re_so = sample_so, re_number = plain_number\<rparr>"

definition greeting_runner :: "mem_sessions runner_env" where
  "greeting_runner = bare_runner\<lparr>re_sessionStore := Some mem_session_store\<rparr>"

lemmas greeting_defs = greeting_runner_def bare_runner_def greeter_def hello_def no_output_def no_context_def answering_model_def

lemma greeting_prepared:
  "\<exists>p. prepareRun greeting_runner ''greeter'' hello x = (Inr p, x) \<and> pr_messageReducer p = None \<and>
     pr_limits p = None \<and> pr_structuredOutput p = None \<and> pr_cascade p = None \<and>
     sessionKey (pr_context p) = ''s''"
  by (simp add: prepareRun_def getAgentMap_def Let_def fresh_uuid_def buildAgentTools_def resolve_spec_def
        resolveStructuredOutput_def deadline_of_def security_of_def greeting_defs sessionKey_def)

lemma greeting_run:
  "\<exists>r x'. run greeting_runner ''greeter'' hello Map.empty = (Inr (BuiltIn r), x') \<and> ar_toolCalls r = [] \<and>
     ar_output r = ''Hi!''"
proof -
  from greeting_prepared [of Map.empty] obtain p where p:
    "prepareRun greeting_runner ''greeter'' hello Map.empty = (Inr p, Map.empty)"
    "pr_limits p = None" "pr_structuredOutput p = None" "pr_cascade p = None" "pr_messageReducer p = None"
    by blast
  have fields: "resolveSessionStore greeting_runner = Some mem_session_store" "historyEnabled greeting_runner hello"
    "useBuiltInRuntime greeting_runner" "re_uuid greeting_runner y = (''u'', y)"
    "nullish (re_modelAdapter greeting_runner) no_adapter = answering_model"
    "re_abortReason greeting_runner ms y = None" for y ms
    by (simp_all add: resolveSessionStore_def historyEnabled_def useBuiltInRuntime_def greeting_defs)
  have load: "loadHistory greeting_runner ctx Map.empty = ([], Map.empty)" for ctx
    by (simp add: loadHistory_def fields mem_session_store_def mem_session_get_def)
  have save: "saveHistory greeting_runner ctx ms y = (Inr (), mem_session_set (sessionKey ctx)
      \<lparr>sr_sessionId = sessionId ctx, sr_messages = kept_history greeting_runner ms,
       sr_updatedAt = re_isoNow greeting_runner y\<rparr> y)" for ctx ms y
    by (simp add: saveHistory_def fields mem_session_store_def)
  show ?thesis
    by (simp add: run_def p fields history_for_def load execute_turn_def run_turn_def requireAdapter_def
          configured_def turn_env_def run_request_def Let_def resolveEffectiveAdapter_def answering_model_def
          run_loop.simps run_round_def assertWithinBudget_def assertNotAborted_def buildRequest_def
          projectMessages_def applyModelRound_def finish_round_def rejectOutput_def publishCheckpoint_def
          publishTranscript_def toResult_def resolveOutput_def createState_def new_state_def
          accumulateUsage_def resolveLimits_def DEFAULT_MAX_ITERATIONS_def save)
qed

theorem conversation_carries_over_witness:
  "\<exists>x'. fst (loadHistory greeting_runner (context_of None ''s'') x') =
     map message_image (kept_history greeting_runner [UserMsg ''Hello'', AssistantMsg ''Hi!'' None])"
proof -
  from greeting_run obtain r x' where run: "run greeting_runner ''greeter'' hello Map.empty = (Inr (BuiltIn r), x')"
    "ar_toolCalls r = []" "ar_output r = ''Hi!''" by blast
  then have last: "\<not> pending_last (ar_toolCalls r)" by (simp add: pending_last_def)
  from greeting_prepared [of Map.empty] obtain p where p:
    "prepareRun greeting_runner ''greeter'' hello Map.empty = (Inr p, Map.empty)"
    "pr_messageReducer p = None" "sessionKey (pr_context p) = ''s''" "pr_cascade p = None" by blast
  have store: "resolveSessionStore greeting_runner = Some mem_session_store"
    by (simp add: resolveSessionStore_def greeting_defs)
  then have load: "loadHistory greeting_runner (pr_context p) Map.empty = ([], Map.empty)"
    by (simp add: loadHistory_def mem_session_store_def mem_session_get_def)
  from store have on: "historyEnabled greeting_runner hello" by (simp add: historyEnabled_def greeting_defs)
  have key: "sessionKey (context_of None ''s'') = sessionKey (pr_context p)"
    using p(3) by (simp add: sessionKey_def context_of_def)
  from conversation_carries_over [OF run(1) last p(1) load on p(2) store mem_history.session_records_axioms key]
  obtain rounds where rounds: "rounds_of (run_env greeting_runner hello p) rounds" "\<forall>t \<in> set rounds. round_full t"
    "told_records rounds = ar_toolCalls r"
    and loaded: "loadHistory greeting_runner (context_of None ''s'') x' =
      (map message_image (kept_history greeting_runner ([] @ [UserMsg (ri_message hello)] @ told_messages rounds @
         (if ar_output r = [] then [] else [AssistantMsg (ar_output r) None]))), x')" by blast
  have "x_generate (run_env greeting_runner hello p) request y = (Inr \<lparr>rs_content = ''Hi!'', rs_toolCalls = None,
      rs_usage = None, rs_refusal = JUndef\<rparr>, y)" for request y
    by (simp add: run_env_def configured_def turn_env_def run_request_def Let_def resolveEffectiveAdapter_def
        greeting_defs p(4))
  then have "\<not> round_ok (run_env greeting_runner hello p) t" for t
    by (auto simp: round_ok_def round_calls_def dest!: arg_cong [where f = rs_toolCalls])
  with rounds(1) have "rounds = []" by (cases rounds) (auto simp: rounds_of_def)
  with loaded run(3) show ?thesis by (intro exI [of _ x']) (simp add: hello_def)
qed

end
