(* ===== verification/Recovery.thy ===== *)
theory Recovery
  imports Runner_State
begin

text \<open>
  Recovering a turn that was interrupted: the in-flight checkpoint each round leaves in the
  state store, and the state the runner goes on from.
\<close>

section \<open>The checkpoints of a round\<close>

text \<open>A state a turn can be interrupted in: not suspended, no result yet, repairs counted.\<close>

definition in_flight :: "ExecutionState \<Rightarrow> bool" where
  "in_flight st \<longleftrightarrow> \<not> suspended st \<and> structured st = None \<and> suspendedApprovalId st = None \<and>
     (repairAttempts st = 0 \<longrightarrow> repair st = [])"

lemma createState_in_flight: "in_flight (createState uuid ins h msg)"
  by (simp add: in_flight_def createState_def new_state_def)

lemma suspendedApprovalId_simps [simp]:
  "suspendedApprovalId (pushToolMessage E call payload prov st) = suspendedApprovalId st"
  "suspendedApprovalId (push_record r st) = suspendedApprovalId st"
  "suspendedApprovalId (accumulateUsage u st) = suspendedApprovalId st"
  by (simp_all add: pushToolMessage_def push_record_def accumulateUsage_def split: option.splits)

lemma run_call_in_flight:
  assumes "run_call E call st x = (Inr (st', events, False), x')" "in_flight st"
  shows "in_flight st'"
  using assms
proof (cases rule: run_call_cases)
  case (returned tool targs result' started)
  from returned(4) assms(2) show ?thesis
    by (auto simp: call_returned_def Let_def in_flight_def split: ToolExecutionResult.splits)
qed (auto simp: in_flight_def)

lemma run_calls_in_flight:
  "run_calls E calls st x = (Inr (st', events, False), x') \<Longrightarrow> in_flight st \<Longrightarrow> in_flight st'"
proof (induction calls arbitrary: st x events)
  case (Cons call calls)
  from Cons.prems(1) obtain st1 e1 x1 e2 where first: "run_call E call st x = (Inr (st1, e1, False), x1)"
    and rest: "run_calls E calls st1 x1 = (Inr (st', e2, False), x')"
    by (auto simp: and_then_Inr_iff split: if_splits)
  show ?case by (rule Cons.IH [OF rest run_call_in_flight [OF first Cons.prems(2)]])
qed simp

lemma round_in_flight:
  assumes "run_round E st x = (Inr (Again st'), x')" "in_flight st"
  shows "in_flight st'"
proof -
  from assms(1) obtain request st1 x1 response x2 st2 events finished x3 where
    build: "buildRequest E st x = (Inr (request, st1), x1)" and
    model: "applyModelRound E st1 response x2 = (Inr (st2, events, finished), x3)" and
    fin: "finish_round E st2 response finished x3 = (Inr (Again st'), x')"
    by (rule run_round_steps)
  from build assms(2) have st1: "in_flight st1"
    by (auto simp: in_flight_def dest!: buildRequest_state)
  from run_round_unsuspended [OF assms(1)] assms(2) have unsuspended: "\<not> suspended st'"
    by (simp add: in_flight_def)
  from fin show ?thesis
  proof (cases finished)
    case False
    with fin have "st' = st2" by (auto simp: finish_round_def and_then_Inr_iff)
    moreover from st1 model False have "in_flight st2"
      by (auto simp: applyModelRound_def Let_def in_flight_def split: if_splits
            dest!: run_calls_in_flight)
    ultimately show ?thesis by simp
  next
    case True
    with fin obtain issues x4 where rej: "rejectOutput E st2 response x3 = (Inr (Some issues, st'), x4)"
      by (auto simp: finish_round_def and_then_Inr_iff split: if_splits)
    from rejectOutput_state [OF rej] have st': "st' = queue_repair (rs_content response) issues st2" by auto
    with unsuspended have "\<not> suspended st2" by (simp add: queue_repair_def)
    with model st1 True have "in_flight st2"
      by (auto simp: applyModelRound_def Let_def in_flight_def split: if_splits
            dest!: run_calls_suspend)
    with st' show ?thesis by (simp add: in_flight_def queue_repair_def)
  qed
qed

text \<open>A round that goes on ends with publishing its checkpoint.\<close>

lemma round_publishes:
  assumes "run_round E st x = (Inr (Again st'), x')"
  shows "\<exists>x0. publishInFlightCheckpoint E st' x0 = (Inr (), x')"
  using assms by (auto simp: run_round_def finish_round_def and_then_Inr_iff split: if_splits)

section \<open>The store of checkpoints\<close>

locale checkpoint_records =
  fixes S :: "'x CheckpointStore"
    and view :: "'x \<Rightarrow> string \<Rightarrow> InFlightCheckpoint option"
  assumes get: "\<exists>x'. ck_get S k x = (Inr (view x k), x') \<and> view x' = view x"
    and set_ok: "0 \<le> ttl \<Longrightarrow> ck_set S k cp ttl x = (res, x') \<Longrightarrow> res = Inr () \<and> view x' = (view x)(k \<mapsto> cp)"
begin

lemma save_stores:
  assumes "resolveStateStore R = Some S" "0 \<le> nullish (re_checkpointTtlSeconds R) DEFAULT_CHECKPOINT_TTL_SECONDS"
    and "saveInFlightCheckpoint R ctx cp x = (res, x')"
  shows "view x' (latest_key ctx) = Some cp"
proof -
  let ?ttl = "nullish (re_checkpointTtlSeconds R) DEFAULT_CHECKPOINT_TTL_SECONDS"
  obtain r1 x1 where one: "ck_set S (execution_key ctx cp) cp ?ttl x = (r1, x1)" by fastforce
  obtain r2 x2 where two: "ck_set S (latest_key ctx) cp ?ttl x1 = (r2, x2)" by fastforce
  from set_ok [OF assms(2) one] set_ok [OF assms(2) two] assms(1,3) one two show ?thesis
    by (simp add: saveInFlightCheckpoint_def Let_def)
qed

lemma recovers:
  assumes "resolveStateStore R = Some S" "view x (latest_key (recovery_context sid options)) = Some cp"
  shows "\<exists>x'. recoverLatestCheckpoint R agent_name sid options x = resumeCheckpoint R agent_name cp options x'"
proof -
  from get [of "latest_key (recovery_context sid options)" x] assms obtain x' where
    "ck_get S (latest_key (recovery_context sid options)) x = (Inr (Some cp), x')" by auto
  with assms(1) show ?thesis by (auto simp: recoverLatestCheckpoint_def Let_def)
qed

end

text \<open>Checkpoints in the in-memory state store, at one time.\<close>

definition mem_checkpoints :: "int \<Rightarrow> InFlightCheckpoint state_store CheckpointStore" where
  "mem_checkpoints now =
     \<lparr>ck_get = (\<lambda>k x. case state_get now k x of (v, x) \<Rightarrow> (Inr v, x)),
      ck_set = (\<lambda>k cp ttl x. (Inr (), state_set now k cp (Some ttl) x))\<rparr>"

interpretation mem_recovery: checkpoint_records "mem_checkpoints now" "state_live now" for now
proof unfold_locales
  fix k and x :: "InFlightCheckpoint state_store"
  obtain v x' where g: "state_get now k x = (v, x')" by fastforce
  with mem_state.get_value [of now k x] mem_state.get_keeps [of now now k x]
  show "\<exists>x'. ck_get (mem_checkpoints now) k x = (Inr (state_live now x k), x') \<and>
      state_live now x' = state_live now x"
    by (simp add: mem_checkpoints_def)
next
  fix ttl :: rat and k cp res and x x' :: "InFlightCheckpoint state_store"
  assume "0 \<le> ttl" "ck_set (mem_checkpoints now) k cp ttl x = (res, x')"
  then have "res = Inr ()" "x' = state_set now k cp (Some ttl) x" "0 \<le> ttl"
    by (simp_all add: mem_checkpoints_def)
  then show "res = Inr () \<and> state_live now x' = (state_live now x)(k \<mapsto> cp)"
    using mem_state.set_live [of now now k cp "Some ttl" x]
    by (intro conjI ext) (simp_all add: expiry_def)
qed

section \<open>Crash recovery\<close>

text \<open>
  C15: A crash between two rounds loses nothing but the records of tool calls. After any round
  that goes on, the newest checkpoint of the session is the one of that round: recovering the
  session resumes from it, and it restores the state of the turn, with its conversation, its
  counters and its queued repairs, without the records of the calls made.
\<close>

theorem crash_recovery:
  assumes "run_round E st x = (Inr (Again st'), x')" "in_flight st"
    and "x_onCheckpoint E = Some (saveInFlightCheckpoint R ctx)"
    and "resolveStateStore R = Some S" "checkpoint_records S view"
    and "0 \<le> nullish (re_checkpointTtlSeconds R) DEFAULT_CHECKPOINT_TTL_SECONDS"
    and "sessionKey (recovery_context sid options) = sessionKey ctx"
  shows "\<exists>time x''.
    recoverLatestCheckpoint R agent_name sid options x' =
      resumeCheckpoint R agent_name (checkpoint_of E st' time) options x'' \<and>
    createCheckpointState (checkpoint_of E st' time) = Inr (st'\<lparr>toolCallRecords := []\<rparr>)"
proof -
  from round_publishes [OF assms(1)] assms(3) obtain x0 where
    "saveInFlightCheckpoint R ctx (checkpoint_of E st' (x_now E x0)) x0 = (Inr (), x')"
    by (auto simp: publishInFlightCheckpoint_def)
  from checkpoint_records.save_stores [OF assms(5,4,6) this] assms(7)
  have "view x' (latest_key (recovery_context sid options)) = Some (checkpoint_of E st' (x_now E x0))"
    by (simp add: latest_key_def)
  from checkpoint_records.recovers [OF assms(5,4) this] obtain x'' where
    "recoverLatestCheckpoint R agent_name sid options x' =
      resumeCheckpoint R agent_name (checkpoint_of E st' (x_now E x0)) options x''" by blast
  moreover from round_in_flight [OF assms(1,2)]
  have "createCheckpointState (checkpoint_of E st' (x_now E x0)) = Inr (st'\<lparr>toolCallRecords := []\<rparr>)"
    by (auto simp: in_flight_def createCheckpointState_def checkpoint_of_def nullish_def)
  ultimately show ?thesis by blast
qed

text \<open>A turn whose model asks for a tool there is not: the round reports it and goes on.\<close>

definition recovering_runner :: "InFlightCheckpoint state_store runner_env" where
  "recovering_runner = bare_runner\<lparr>re_stateStore := Some (mem_checkpoints 0)\<rparr>"

definition asking_turn :: "InFlightCheckpoint state_store xenv" where
  "asking_turn = \<lparr>x_sessionId = ''s'', x_model = ''m'', x_tools = [], x_traceId = None,
     x_pendingApprovalToolCallId = None, x_structuredOutput = None, x_limits = resolveLimits None,
     x_toolErrorHandling = ReportErrors, x_adapterAvailable = True,
     x_generate = (\<lambda>req x. (Inr \<lparr>rs_content = ''on it'',
       rs_toolCalls = Some [\<lparr>call_id = ''c'', call_name = ''t'', call_args = []\<rparr>], rs_usage = None,
       rs_refusal = JUndef\<rparr>, x)),
     x_stream = None, x_supportsStructuredOutput = True, x_messageReducer = None, x_onTranscript = None,
     x_onSuspend = None, x_onCheckpoint = Some (saveInFlightCheckpoint recovering_runner (context_of None ''s'')),
     x_aborted = (\<lambda>_. False), x_timedOut = (\<lambda>_. False),
     x_now = (\<lambda>_. []), x_so = sample_so, x_number = plain_number\<rparr>"

lemma asking_round:
  "\<exists>st' x'. run_round asking_turn (createState ''e'' None None ''hello'') Map.empty = (Inr (Again st'), x')"
  by (simp add: run_round_def assertWithinBudget_def assertNotAborted_def buildRequest_def projectMessages_def
        Let_def asking_turn_def applyModelRound_def finish_round_def publishInFlightCheckpoint_def
        createState_def new_state_def resolveLimits_def DEFAULT_MAX_ITERATIONS_def DEFAULT_MAX_TOOL_CALLS_def
        run_call_def saveInFlightCheckpoint_def recovering_runner_def bare_runner_def resolveStateStore_def
        mem_checkpoints_def)

theorem crash_recovery_witness:
  "\<exists>st' x' time x''.
    recoverLatestCheckpoint recovering_runner ''greeter'' ''s'' \<lparr>ro_limits = None, ro_context = None\<rparr> x' =
      resumeCheckpoint recovering_runner ''greeter'' (checkpoint_of asking_turn st' time)
        \<lparr>ro_limits = None, ro_context = None\<rparr> x''"
proof -
  let ?st = "createState ''e'' None None ''hello''" and ?o = "\<lparr>ro_limits = None, ro_context = None\<rparr>"
  from asking_round obtain st' x' where round: "run_round asking_turn ?st Map.empty = (Inr (Again st'), x')" by blast
  have cb: "x_onCheckpoint asking_turn = Some (saveInFlightCheckpoint recovering_runner (context_of None ''s''))"
    by (simp add: asking_turn_def)
  have store: "resolveStateStore recovering_runner = Some (mem_checkpoints 0)"
    "0 \<le> nullish (re_checkpointTtlSeconds recovering_runner) DEFAULT_CHECKPOINT_TTL_SECONDS"
    by (simp_all add: recovering_runner_def bare_runner_def resolveStateStore_def DEFAULT_CHECKPOINT_TTL_SECONDS_def)
  have same_key: "sessionKey (recovery_context ''s'' ?o) = sessionKey (context_of None ''s'')"
    by (simp add: sessionKey_def recovery_context_def context_of_def security_of_def no_context_def)
  from crash_recovery [OF round createState_in_flight cb store(1) mem_recovery.checkpoint_records_axioms store(2)
      same_key, of "''greeter''"]
  show ?thesis by blast
qed

end
