(* ===== verification/Rate_Limits.thy ===== *)
theory Rate_Limits
  imports Tool_Discovery Scope_Key
begin

text \<open>
  Sliding-window rate limits per tenant, user and tool: the process-local policy of
  \<open>packages/core/src/policies/rate-limit.policy.ts\<close>. Times are milliseconds; the history and
  the time of the last sweep are static, so all instances of the policy share them.
  \<open>ns\<close> prints a finite number.
\<close>

section \<open>The policy\<close>

record RateLimitOptions =
  maxCallsPerMinute :: "jsnum option"
  sweepIntervalMs :: "jsnum option"

record rate_history =
  history :: "string \<Rightarrow> int list option"
  lastSweepAt :: int

definition windowMs :: int where
  "windowMs = 60 * 1000"

definition max_calls :: "RateLimitOptions \<Rightarrow> jsnum" where
  "max_calls options = nullish (maxCallsPerMinute options) (Fin 10)"

definition sweep_interval :: "RateLimitOptions \<Rightarrow> jsnum" where
  "sweep_interval options = nullish (sweepIntervalMs options) (Fin (5 * 60 * 1000))"

definition js_number_text :: "(rat \<Rightarrow> string) \<Rightarrow> jsnum \<Rightarrow> string" where
  "js_number_text ns n =
     (case n of Fin q \<Rightarrow> ns q | NaN \<Rightarrow> ''NaN'' | PosInf \<Rightarrow> ''Infinity'' | NegInf \<Rightarrow> ''-Infinity'')"

definition fresh :: "int \<Rightarrow> int list \<Rightarrow> int list" where
  "fresh now timestamps = filter (\<lambda>t. now - t < windowMs) timestamps"

definition sweepExpiredEntries :: "RateLimitOptions \<Rightarrow> int \<Rightarrow> rate_history \<Rightarrow> rate_history" where
  "sweepExpiredEntries options now st =
     (if js_lt (Fin (of_int (now - lastSweepAt st))) (sweep_interval options) then st
      else \<lparr>history = (\<lambda>k. case history st k of
               None \<Rightarrow> None
             | Some ts \<Rightarrow>
                 if fresh now ts = [] then None
                 else if length (fresh now ts) \<noteq> length ts then Some (fresh now ts) else Some ts),
            lastSweepAt = now\<rparr>)"

definition retry_seconds :: "int \<Rightarrow> int" where
  "retry_seconds ms = max 1 \<lceil>of_int ms / (1000 :: rat)\<rceil>"

definition seconds_text :: "(rat \<Rightarrow> string) \<Rightarrow> int \<Rightarrow> string" where
  "seconds_text ns n = ns (of_int n) @ ''s.''"

definition optional_part :: "string option \<Rightarrow> scope_part" where
  "optional_part v = (case v of None \<Rightarrow> PartUndef | Some s \<Rightarrow> PartStr s)"

definition rate_key :: "(rat \<Rightarrow> string) \<Rightarrow> AgentContext \<Rightarrow> string \<Rightarrow> string" where
  "rate_key ns ctx tool_name =
     scopeKey ns [optional_part (tenantId (security ctx)), optional_part (userId (security ctx)), PartStr tool_name]"

definition rate_limit_evaluate ::
    "(rat \<Rightarrow> string) \<Rightarrow> RateLimitOptions \<Rightarrow> int \<Rightarrow> AgentContext \<Rightarrow> string \<Rightarrow> rate_history
       \<Rightarrow> PolicyResult \<times> rate_history" where
  "rate_limit_evaluate ns options now ctx tool_name st0 =
     (let key = rate_key ns ctx tool_name;
          st = sweepExpiredEntries options now st0;
          timestamps = fresh now (nullish (history st key) [])
      in if js_le (max_calls options) (Fin (of_nat (length timestamps)))
         then let oldest = (case timestamps of [] \<Rightarrow> now | t # _ \<Rightarrow> t);
                  retryAfterSeconds = retry_seconds (oldest + windowMs - now)
              in (PDeny (''Rate limit exceeded for tool '' @ quoted tool_name @ ''. Max allowed: '' @
                    js_number_text ns (max_calls options) @ '' calls per minute. Retry after '' @
                    seconds_text ns retryAfterSeconds) (Some retryAfterSeconds),
                  st\<lparr>history := (history st)(key \<mapsto> timestamps)\<rparr>)
         else (PAllow None, st\<lparr>history := (history st)(key \<mapsto> timestamps @ [now])\<rparr>))"

section \<open>The window against a log of every call\<close>

text \<open>
  A run of evaluations at given times. The reference keeps every admitted call forever and
  admits a call when fewer than the maximum were admitted in the window before it.
\<close>

type_synonym rate_call = "int \<times> AgentContext \<times> string"

definition admitted :: "PolicyResult \<Rightarrow> bool" where
  "admitted r = (case r of PAllow _ \<Rightarrow> True | _ \<Rightarrow> False)"

fun limiter_run :: "(rat \<Rightarrow> string) \<Rightarrow> RateLimitOptions \<Rightarrow> rate_call list \<Rightarrow> rate_history \<Rightarrow> bool list" where
  "limiter_run ns options [] st = []"
| "limiter_run ns options ((now, ctx, tool_name) # calls) st =
     (case rate_limit_evaluate ns options now ctx tool_name st of
        (r, st') \<Rightarrow> admitted r # limiter_run ns options calls st')"

definition in_window :: "string \<Rightarrow> int \<Rightarrow> (int \<times> string) list \<Rightarrow> nat" where
  "in_window k now seen = length (filter (\<lambda>(t, k'). k' = k \<and> now - t < windowMs) seen)"

fun log_run :: "(rat \<Rightarrow> string) \<Rightarrow> jsnum \<Rightarrow> rate_call list \<Rightarrow> (int \<times> string) list \<Rightarrow> bool list" where
  "log_run ns limit [] seen = []"
| "log_run ns limit ((now, ctx, tool_name) # calls) seen =
     (let k = rate_key ns ctx tool_name;
          ok = (\<not> js_le limit (Fin (of_nat (in_window k now seen))))
      in ok # log_run ns limit calls (if ok then seen @ [(now, k)] else seen))"

text \<open>The history represents a log at a time when it has lost expired calls only.\<close>

definition represents :: "int \<Rightarrow> rate_history \<Rightarrow> (int \<times> string) list \<Rightarrow> bool" where
  "represents now st seen \<longleftrightarrow>
     (\<forall>k. fresh now (nullish (history st k) []) = fresh now (map fst (filter (\<lambda>(t, k'). k' = k) seen)))"

lemma fresh_fresh: "now \<le> later \<Longrightarrow> fresh later (fresh now ts) = fresh later ts"
  by (auto simp: fresh_def intro: filter_cong)

lemma fresh_Nil [simp]: "fresh now [] = []"
  by (simp add: fresh_def)

lemma fresh_append: "fresh now (ts @ us) = fresh now ts @ fresh now us"
  by (simp add: fresh_def)

lemma represents_later:
  assumes "represents now st seen" "now \<le> later"
  shows "represents later st seen"
  unfolding represents_def
proof
  fix k
  from assms(1) have "fresh later (fresh now (nullish (history st k) [])) =
      fresh later (fresh now (map fst (filter (\<lambda>(t, k'). k' = k) seen)))"
    by (simp add: represents_def)
  then show "fresh later (nullish (history st k) []) = fresh later (map fst (filter (\<lambda>(t, k'). k' = k) seen))"
    by (simp add: fresh_fresh [OF assms(2)])
qed

lemma sweep_represents:
  assumes "represents now st seen"
  shows "represents now (sweepExpiredEntries options now st) seen"
proof -
  have "fresh now (nullish (history (sweepExpiredEntries options now st) k) []) =
      fresh now (nullish (history st k) [])" for k
    by (auto simp: sweepExpiredEntries_def fresh_fresh split: option.splits)
  with assms show ?thesis by (simp add: represents_def)
qed

lemma length_filter_conj: "length (filter (\<lambda>x. P x \<and> Q x) xs) \<le> length (filter P xs)"
  by (induction xs) auto

lemma in_window_fresh: "in_window k now seen = length (fresh now (map fst (filter (\<lambda>(t, k'). k' = k) seen)))"
  by (induction seen) (auto simp: in_window_def fresh_def)

lemma evaluate_represents:
  assumes "represents now st seen" "rate_limit_evaluate ns options now ctx tool_name st = (r, st')"
  defines "k \<equiv> rate_key ns ctx tool_name"
  shows "admitted r = (\<not> js_le (max_calls options) (Fin (of_nat (in_window k now seen)))) \<and>
    represents now st' (if admitted r then seen @ [(now, k)] else seen)"
proof -
  let ?st = "sweepExpiredEntries options now st"
  let ?ts = "fresh now (nullish (history ?st k) [])"
  from sweep_represents [OF assms(1)] have rep: "represents now ?st seen" .
  then have ts: "?ts = fresh now (map fst (filter (\<lambda>(t, k'). k' = k) seen))"
    by (simp add: represents_def)
  then have n: "length ?ts = in_window k now seen" by (simp add: in_window_fresh)
  show ?thesis
  proof (cases "js_le (max_calls options) (Fin (of_nat (in_window k now seen)))")
    case True
    with assms(2) n have "\<not> admitted r" "st' = ?st\<lparr>history := (history ?st)(k \<mapsto> ?ts)\<rparr>"
      by (auto simp: rate_limit_evaluate_def Let_def k_def admitted_def)
    with True rep show ?thesis by (simp add: represents_def fresh_fresh)
  next
    case False
    with assms(2) n have "admitted r" "st' = ?st\<lparr>history := (history ?st)(k \<mapsto> ?ts @ [now])\<rparr>"
      by (auto simp: rate_limit_evaluate_def Let_def k_def admitted_def)
    with False rep ts show ?thesis by (simp add: represents_def fresh_fresh fresh_append)
  qed
qed

lemma limiter_represents:
  assumes "sorted (map fst calls)" "represents now st seen" "\<forall>(t, c) \<in> set calls. now \<le> t"
  shows "limiter_run ns options calls st = log_run ns (max_calls options) calls seen"
  using assms
proof (induction calls arbitrary: st seen now)
  case (Cons call calls)
  obtain t ctx tool_name where call: "call = (t, ctx, tool_name)" by (cases call)
  obtain r st' where ev: "rate_limit_evaluate ns options t ctx tool_name st = (r, st')" by fastforce
  let ?k = "rate_key ns ctx tool_name"
  from Cons.prems(2,3) call have "represents t st seen" by (auto intro: represents_later)
  from evaluate_represents [OF this ev] have
    ok: "admitted r = (\<not> js_le (max_calls options) (Fin (of_nat (in_window ?k t seen))))" and
    rep: "represents t st' (if admitted r then seen @ [(t, ?k)] else seen)" by auto
  from Cons.prems(1) call have "sorted (map fst calls)" "\<forall>(u, c) \<in> set calls. t \<le> u" by auto
  from Cons.IH [OF this(1) rep this(2)] show ?case by (simp add: call ev Let_def ok)
qed simp

definition no_calls :: "int \<Rightarrow> rate_history" where
  "no_calls swept = \<lparr>history = Map.empty, lastSweepAt = swept\<rparr>"

text \<open>
  C28: Pruning and sweeping lose nothing. For calls in the order of their times, whatever the
  sweep interval, the policy decides each call exactly as a limiter that remembers every
  call it ever admitted and counts those of the same tenant, user and tool in the last
  minute.
\<close>

theorem rate_limit_is_sliding_window:
  assumes "sorted (map fst calls)"
  shows "limiter_run ns options calls (no_calls swept) = log_run ns (max_calls options) calls []"
proof (cases calls)
  case (Cons call rest)
  have "represents (fst call) (no_calls swept) []" by (simp add: represents_def no_calls_def)
  moreover from assms Cons have "\<forall>(t, c) \<in> set calls. fst call \<le> t" by auto
  ultimately show ?thesis using limiter_represents assms by blast
qed simp

section \<open>The bound\<close>

text \<open>The times of the admitted calls of a key that lie in a minute ending at a time.\<close>

fun admitted_in :: "(rat \<Rightarrow> string) \<Rightarrow> string \<Rightarrow> int \<Rightarrow> rate_call list \<Rightarrow> bool list \<Rightarrow> int list" where
  "admitted_in ns k until ((t, ctx, tool_name) # calls) (ok # oks) =
     (if ok \<and> rate_key ns ctx tool_name = k \<and> t \<le> until \<and> until - t < windowMs then [t] else []) @
     admitted_in ns k until calls oks"
| "admitted_in ns k until _ _ = []"

lemma log_bound:
  assumes "sorted (map fst calls)" "\<forall>(t, k') \<in> set seen. \<forall>(u, c) \<in> set calls. t \<le> u" "limit = Fin (of_nat n)"
    and "length (filter (\<lambda>(t, k'). k' = k \<and> t \<le> until \<and> until - t < windowMs) seen) \<le> n"
  shows "length (filter (\<lambda>(t, k'). k' = k \<and> t \<le> until \<and> until - t < windowMs) seen) +
    length (admitted_in ns k until calls (log_run ns limit calls seen)) \<le> n"
  using assms
proof (induction calls arbitrary: seen)
  case (Cons call calls)
  obtain t ctx tool_name where call: "call = (t, ctx, tool_name)" by (cases call)
  let ?k = "rate_key ns ctx tool_name"
  let ?ok = "\<not> js_le limit (Fin (of_nat (in_window ?k t seen)))"
  let ?seen = "if ?ok then seen @ [(t, ?k)] else seen"
  let ?in = "\<lambda>seen. filter (\<lambda>(t, k'). k' = k \<and> t \<le> until \<and> until - t < windowMs) seen"
  have old: "t' \<le> t" if "(t', k') \<in> set seen" for t' k' using Cons.prems(2) that call by auto
  have room: "length (?in ?seen) \<le> n"
  proof (cases "?ok \<and> ?k = k \<and> t \<le> until \<and> until - t < windowMs")
    case True
    have "?in seen = ?in (filter (\<lambda>(t', k'). k' = ?k \<and> t - t' < windowMs) seen)"
      using True old by (auto simp: intro!: filter_cong)
    then have "length (?in seen) \<le> in_window ?k t seen"
      by (simp add: in_window_def length_filter_conj)
    moreover from True Cons.prems(3) have "in_window ?k t seen < n" by auto
    ultimately show ?thesis by simp
  next
    case False
    with Cons.prems(4) show ?thesis by auto
  qed
  have "\<forall>(t', k') \<in> set ?seen. \<forall>(u, c) \<in> set calls. t' \<le> u"
    using Cons.prems(1,2) call by auto
  moreover have "sorted (map fst calls)" using Cons.prems(1) by simp
  ultimately have "length (?in ?seen) + length (admitted_in ns k until calls (log_run ns limit calls ?seen)) \<le> n"
    using Cons.IH Cons.prems(3) room by blast
  then show ?case by (auto simp: call Let_def split: if_splits)
qed auto

text \<open>
  No minute holds more than the configured number of calls. For calls in the order of
  their times and a limit of \<open>n\<close>, whatever minute one looks at, at most \<open>n\<close> calls of one
  tenant, user and tool were allowed in it.
\<close>

theorem rate_limit_bounds_every_minute:
  assumes "sorted (map fst calls)" "max_calls options = Fin (of_nat n)"
  shows "length (admitted_in ns k until calls (limiter_run ns options calls (no_calls swept))) \<le> n"
proof -
  have "represents (case calls of [] \<Rightarrow> 0 | c # _ \<Rightarrow> fst c) (no_calls swept) []"
    by (simp add: represents_def no_calls_def)
  moreover from assms(1) have "\<forall>(t, c) \<in> set calls. (case calls of [] \<Rightarrow> 0 | c # _ \<Rightarrow> fst c) \<le> t"
    by (cases calls) auto
  ultimately have "limiter_run ns options calls (no_calls swept) = log_run ns (max_calls options) calls []"
    using limiter_represents assms(1) by blast
  with log_bound [OF assms(1) _ assms(2), of "[]" k until ns] show ?thesis by simp
qed

definition caller :: "string \<Rightarrow> AgentContext" where
  "caller user =
     \<lparr>security = \<lparr>userId = Some user, tenantId = None, roles = None, permissions = None\<rparr>, sessionId = ''s'',
      traceId = ''t'', parentTraceId = None, rootTraceId = None, ctx_data = None, deadline = None\<rparr>"

definition two_a_minute :: RateLimitOptions where
  "two_a_minute = \<lparr>maxCallsPerMinute = Some (Fin 2), sweepIntervalMs = Some (Fin 0)\<rparr>"

definition busy_hour :: "rate_call list" where
  "busy_hour =
     [(0, caller ''ann'', ''pay''), (1000, caller ''ann'', ''pay''), (2000, caller ''ann'', ''pay''),
      (2000, caller ''bob'', ''pay''), (60000, caller ''ann'', ''pay''), (60500, caller ''ann'', ''pay'')]"

lemma busy_hour_decisions:
  "log_run plain_number (max_calls two_a_minute) busy_hour [] = [True, True, False, True, True, False]"
  by code_simp

theorem rate_limit_is_sliding_window_witness:
  "limiter_run plain_number two_a_minute busy_hour (no_calls 0) = [True, True, False, True, True, False]"
proof -
  have "sorted (map fst busy_hour)" by (simp add: busy_hour_def)
  from rate_limit_is_sliding_window [OF this, of plain_number two_a_minute 0] busy_hour_decisions
  show ?thesis by simp
qed

theorem rate_limit_bounds_every_minute_witness:
  "length (admitted_in plain_number (rate_key plain_number (caller ''ann'') ''pay'') 2000 busy_hour
     (limiter_run plain_number two_a_minute busy_hour (no_calls 0))) \<le> 2"
proof -
  have "sorted (map fst busy_hour)" "max_calls two_a_minute = Fin (of_nat 2)"
    by (simp_all add: busy_hour_def two_a_minute_def max_calls_def)
  from rate_limit_bounds_every_minute [OF this] show ?thesis by blast
qed

text \<open>
  The window belongs to the tool, not to the policy: when two instances guard one tool, each
  records the call, and a call is counted twice.
\<close>

lemma two_instances_count_twice:
  "fst (rate_limit_evaluate plain_number two_a_minute 1 (caller ''ann'') ''pay''
     (snd (rate_limit_evaluate plain_number two_a_minute 0 (caller ''ann'') ''pay''
       (snd (rate_limit_evaluate plain_number two_a_minute 0 (caller ''ann'') ''pay'' (no_calls 0)))))) \<noteq>
   PAllow None"
  by (simp add: rate_limit_evaluate_def Let_def no_calls_def sweepExpiredEntries_def fresh_def windowMs_def
        two_a_minute_def max_calls_def sweep_interval_def)

end
