(* ===== verification/Simple_Policies.thy ===== *)
theory Simple_Policies
  imports Rate_Limits
begin

text \<open>
  The built-in policies that read the arguments of a call: the cost limit
  (\<open>policies/cost-limit.policy.ts\<close>), the logging policy (\<open>policies/logging.policy.ts\<close>) and the
  check for an idempotency key (\<open>policies/idempotency.policy.ts\<close>). \<open>ns\<close> prints a finite number.
\<close>

section \<open>Converting a value to a number\<close>

text \<open>
  \<open>String(v)\<close>; \<open>None\<close> when an own \<open>toString\<close>, which cannot be a function in a JSON value,
  makes the conversion throw.
\<close>

fun to_text :: "(rat \<Rightarrow> string) \<Rightarrow> jsval \<Rightarrow> string option" where
  "to_text ns JUndef = Some ''undefined''"
| "to_text ns JNull = Some ''null''"
| "to_text ns (JBool b) = Some (if b then ''true'' else ''false'')"
| "to_text ns (JNum n) = Some (js_number_text ns n)"
| "to_text ns (JStr s) = Some s"
| "to_text ns (JArr vs) =
     (let texts = map (\<lambda>v. case v of JUndef \<Rightarrow> Some [] | JNull \<Rightarrow> Some [] | _ \<Rightarrow> to_text ns v) vs
      in if None \<in> set texts then None else Some (join '','' (map the texts)))"
| "to_text ns (JObj ps) = (if has_own ps ''toString'' then None else Some ''[object Object]'')"

text \<open>\<open>Number(v)\<close>.\<close>

fun js_number :: "(rat \<Rightarrow> string) \<Rightarrow> jsval \<Rightarrow> jsnum option" where
  "js_number ns JUndef = Some NaN"
| "js_number ns JNull = Some (Fin 0)"
| "js_number ns (JBool b) = Some (Fin (if b then 1 else 0))"
| "js_number ns (JNum n) = Some n"
| "js_number ns (JStr s) = Some (number_of_string s)"
| "js_number ns v = map_option number_of_string (to_text ns v)"

section \<open>Cost limits\<close>

record CostLimitOptions =
  paramName :: "string option"
  autoAllowLimit :: "jsnum option"
  approvalLimit :: "jsnum option"

definition param_name :: "CostLimitOptions \<Rightarrow> string" where
  "param_name options = nullish (paramName options) ''amount''"

definition auto_limit :: "CostLimitOptions \<Rightarrow> jsnum" where
  "auto_limit options = nullish (autoAllowLimit options) (Fin 1000)"

definition approval_limit :: "CostLimitOptions \<Rightarrow> jsnum" where
  "approval_limit options = nullish (approvalLimit options) (Fin 10000)"

text \<open>\<open>typeof rawVal === 'number' ? rawVal : Number(rawVal) || 0\<close>.\<close>

definition amount_of :: "(rat \<Rightarrow> string) \<Rightarrow> jsval \<Rightarrow> jsnum option" where
  "amount_of ns raw =
     (case raw of
        JNum n \<Rightarrow> Some n
      | _ \<Rightarrow> map_option (\<lambda>n. if truthy (JNum n) then n else Fin 0) (js_number ns raw))"

definition cost_decision :: "(rat \<Rightarrow> string) \<Rightarrow> CostLimitOptions \<Rightarrow> string \<Rightarrow> jsnum \<Rightarrow> PolicyResult" where
  "cost_decision ns options tool_name amount =
     (let spent = ''Transaction amount $'' @ js_number_text ns amount @ '' on tool '' @ quoted tool_name
      in if js_le amount (auto_limit options) then PAllow None
         else if js_le amount (approval_limit options)
         then PRequire (spent @ '' exceeds auto-allow limit ($'' @ js_number_text ns (auto_limit options) @
                '') and requires human approval.'') None None
         else PDeny (spent @ '' exceeds maximum safety limit ($'' @ js_number_text ns (approval_limit options) @
                '').'') None)"

definition cost_limit_evaluate ::
    "(rat \<Rightarrow> string) \<Rightarrow> CostLimitOptions \<Rightarrow> string \<Rightarrow> props \<Rightarrow> (agent_error, PolicyResult) result" where
  "cost_limit_evaluate ns options tool_name given =
     (case amount_of ns (get_prop given (param_name options)) of
        None \<Rightarrow> Inl (Thrown ''Cannot convert object to primitive value'')
      | Some amount \<Rightarrow> Inr (cost_decision ns options tool_name amount))"

fun severity :: "PolicyResult \<Rightarrow> nat" where
  "severity (PAllow _) = 0"
| "severity (PRequire _ _ _) = 1"
| "severity (PDeny _ _) = 2"

text \<open>
  The cost limit is monotone and tight: a call that spends more is never decided more
  mildly, a call is let through only with an amount within the automatic limit, and withheld
  only with one within the approval limit.
\<close>

theorem cost_limit_monotone:
  assumes "cost_limit_evaluate ns options tool_name args1 = Inr d1"
    and "cost_limit_evaluate ns options tool_name args2 = Inr d2"
    and "amount_of ns (get_prop args1 (param_name options)) = Some a1"
    and "amount_of ns (get_prop args2 (param_name options)) = Some a2" "js_le a1 a2"
  shows "severity d1 \<le> severity d2 \<and>
    (severity d2 = 0 \<longrightarrow> js_le a2 (auto_limit options)) \<and>
    (severity d2 = 1 \<longrightarrow> js_le a2 (approval_limit options) \<and> \<not> js_le a2 (auto_limit options))"
proof -
  have trans: "js_le a1 limit" if "js_le a2 limit" for limit
    using assms(5) that by (cases a1; cases a2; cases limit) auto
  from assms(1-4) have "d1 = cost_decision ns options tool_name a1" "d2 = cost_decision ns options tool_name a2"
    by (simp_all add: cost_limit_evaluate_def)
  with trans show ?thesis by (auto simp: cost_decision_def Let_def)
qed

theorem cost_limit_monotone_witness:
  "severity (cost_decision plain_number \<lparr>paramName = None, autoAllowLimit = None, approvalLimit = None\<rparr> ''pay'' (Fin 20)) \<le>
   severity (cost_decision plain_number \<lparr>paramName = None, autoAllowLimit = None, approvalLimit = None\<rparr> ''pay'' (Fin 5000))"
proof -
  let ?o = "\<lparr>paramName = None, autoAllowLimit = None, approvalLimit = None\<rparr>"
  let ?given = "\<lambda>q. [(''amount'', JNum (Fin q))]"
  have given: "amount_of plain_number (get_prop (?given q) (param_name ?o)) = Some (Fin q)"
    "cost_limit_evaluate plain_number ?o ''pay'' (?given q) = Inr (cost_decision plain_number ?o ''pay'' (Fin q))" for q
    by (simp_all add: amount_of_def param_name_def get_prop_def cost_limit_evaluate_def)
  have "js_le (Fin 20) (Fin 5000)" by simp
  from cost_limit_monotone [OF given(2) given(2) given(1) given(1) this] show ?thesis by blast
qed

text \<open>
  An amount that is not a number counts as \<open>0\<close>: a price printed with a separator, or a missing
  amount, is allowed.
\<close>

lemma unreadable_amount_is_allowed:
  assumes "js_number ns raw = Some NaN" "\<forall>n. raw \<noteq> JNum n" "js_le (Fin 0) (auto_limit options)"
    and "get_prop given (param_name options) = raw"
  shows "cost_limit_evaluate ns options tool_name given = Inr (PAllow None)"
proof -
  have "amount_of ns raw = Some (Fin 0)"
    using assms(1,2) by (cases raw) (simp_all add: amount_of_def del: js_number.simps)
  with assms(3,4) show ?thesis by (simp add: cost_limit_evaluate_def cost_decision_def Let_def)
qed

lemma grouped_digits_are_unreadable: "js_number ns (JStr ''50,000'') = Some NaN"
  by code_simp

section \<open>Logging\<close>

record LoggingPolicyOptions =
  includeArgs :: "bool option"
  includeContext :: "bool option"
  log_sensitiveFields :: "string list option"

definition MASKED :: string where
  "MASKED = ''***REDACTED***''"

text \<open>
  \<open>sanitizeArgs\<close> of a value; an assignment to \<open>__proto__\<close> sets the prototype and adds no
  property.
\<close>

fun masked_value :: "string set \<Rightarrow> jsval \<Rightarrow> jsval" where
  "masked_value sensitive (JObj ps) =
     JObj (filter (\<lambda>(k, v). k \<noteq> ''__proto__'')
       (map (\<lambda>(k, v). (k, if k \<in> sensitive then JStr MASKED else masked_value sensitive v)) ps))"
| "masked_value sensitive v = v"

definition sanitizeArgs :: "string list \<Rightarrow> props \<Rightarrow> props" where
  "sanitizeArgs sensitive given =
     (if sensitive = [] then given
      else filter (\<lambda>(k, v). k \<noteq> ''__proto__'')
        (map (\<lambda>(k, v). (k, if k \<in> set sensitive then JStr MASKED else masked_value (set sensitive) v)) given))"

definition optional_string :: "string option \<Rightarrow> jsval" where
  "optional_string v = (case v of None \<Rightarrow> JUndef | Some s \<Rightarrow> JStr s)"

definition optional_strings :: "string list option \<Rightarrow> jsval" where
  "optional_strings v = (case v of None \<Rightarrow> JUndef | Some ss \<Rightarrow> JArr (map JStr ss))"

text \<open>What the logger is called with, and the decision.\<close>

definition logging_evaluate ::
    "LoggingPolicyOptions \<Rightarrow> string \<Rightarrow> AgentContext \<Rightarrow> string \<Rightarrow> props \<Rightarrow> (string \<times> props) \<times> PolicyResult" where
  "logging_evaluate options time ctx tool_name given =
     ((''[Tool Execution] '' @ tool_name,
       [(''type'', JStr ''tool_execution''), (''toolName'', JStr tool_name), (''sessionId'', JStr (sessionId ctx)),
        (''traceId'', JStr (traceId ctx)), (''timestamp'', JStr time)] @
       (if nullish (includeContext options) True
        then [(''userId'', optional_string (userId (security ctx))),
              (''tenantId'', optional_string (tenantId (security ctx))),
              (''roles'', optional_strings (roles (security ctx)))] else []) @
       (if nullish (includeArgs options) True
        then [(''args'', JObj (sanitizeArgs (nullish (log_sensitiveFields options) []) given))] else [])),
      PAllow None)"

text \<open>A sensitive field with a value of its own, in the object or in an object nested in objects.\<close>

inductive shows_field :: "string set \<Rightarrow> props \<Rightarrow> bool" for S where
  here: "(k, v) \<in> set ps \<Longrightarrow> k \<in> S \<Longrightarrow> v \<noteq> JStr MASKED \<Longrightarrow> shows_field S ps"
| nested: "(k, JObj qs) \<in> set ps \<Longrightarrow> shows_field S qs \<Longrightarrow> shows_field S ps"

lemma masked_hides:
  "shows_field S ps \<Longrightarrow>
     ps = filter (\<lambda>(k, v). k \<noteq> ''__proto__'') (map (\<lambda>(k, v). (k, if k \<in> S then JStr MASKED else masked_value S v)) qs)
     \<Longrightarrow> False"
proof (induction ps arbitrary: qs rule: shows_field.induct)
  case (here k v ps)
  then show ?case by (auto split: if_splits)
next
  case (nested k rs ps)
  then obtain v where "JObj rs = masked_value S v" by (auto split: if_splits)
  then obtain us where "rs = filter (\<lambda>(k, v). k \<noteq> ''__proto__'')
      (map (\<lambda>(k, v). (k, if k \<in> S then JStr MASKED else masked_value S v)) us)"
    by (cases v) auto
  with nested.IH show ?case by blast
qed

lemma logged_args_are_masked:
  assumes "log_sensitiveFields options = Some sensitive" "sensitive \<noteq> []"
    and "logging_evaluate options time ctx tool_name given = ((msg, data), d)"
    and "map_of data ''args'' = Some (JObj shown)"
  shows "\<not> shows_field (set sensitive) shown \<and> d = PAllow None"
proof -
  from assms(1,3,4) have "shown = sanitizeArgs sensitive given" "d = PAllow None"
    by (auto simp: logging_evaluate_def split: if_splits)
  with masked_hides [of "set sensitive" shown given] assms(2) show ?thesis by (auto simp: sanitizeArgs_def)
qed

section \<open>Idempotency keys\<close>

text \<open>What the key generator or the two places of the key give; a falsy value is no key.\<close>

definition idempotency_key_found ::
    "(AgentContext \<Rightarrow> string \<Rightarrow> props \<Rightarrow> string option) option \<Rightarrow> AgentContext \<Rightarrow> string \<Rightarrow> props \<Rightarrow> jsval" where
  "idempotency_key_found generator ctx tool_name given =
     (case generator of
        Some g \<Rightarrow> optional_string (g ctx tool_name given)
      | None \<Rightarrow>
          if truthy (get_prop given ''idempotencyKey'') then get_prop given ''idempotencyKey''
          else (case ctx_data ctx of None \<Rightarrow> JUndef | Some data \<Rightarrow> get_prop data ''idempotencyKey''))"

definition idempotency_evaluate ::
    "(AgentContext \<Rightarrow> string \<Rightarrow> props \<Rightarrow> string option) option \<Rightarrow> bool option \<Rightarrow> AgentContext \<Rightarrow> string
       \<Rightarrow> props option \<Rightarrow> PolicyResult" where
  "idempotency_evaluate generator must_have ctx tool_name given =
     (if nullish must_have True \<and> \<not> truthy (idempotency_key_found generator ctx tool_name (nullish given []))
      then PDeny (''Idempotency key required for tool '' @ quoted tool_name @ '' but was not provided.'') None
      else PAllow None)"

end
