(* ===== verification/Shared_Rate_Limit.thy ===== *)
theory Shared_Rate_Limit
  imports Rate_Limits "HOL-Library.Finite_Map"
begin

text \<open>
  The rate limit every process shares, \<open>policies/distributed-rate-limit.policy.ts\<close>: the script
  run by the server as one step, and the policy around it. The commands of the server are a
  parameter; \<open>sorted_set_server\<close> states what their documentation says of the ones used here.
  Scores and times are whole milliseconds.
\<close>

section \<open>The server\<close>

record 'r redis =
  clock_time :: "'r \<Rightarrow> int \<times> int"
  zremrangebyscore :: "string \<Rightarrow> int \<Rightarrow> int \<Rightarrow> 'r \<Rightarrow> 'r"
  zcard :: "string \<Rightarrow> 'r \<Rightarrow> nat"
  zrange_first :: "string \<Rightarrow> 'r \<Rightarrow> int option"
  zadd :: "string \<Rightarrow> int \<Rightarrow> string \<Rightarrow> 'r \<Rightarrow> 'r"
  pexpire :: "string \<Rightarrow> int \<Rightarrow> 'r \<Rightarrow> 'r"

definition now_ms :: "'r redis \<Rightarrow> 'r \<Rightarrow> int" where
  "now_ms R r = (case clock_time R r of (seconds, micros) \<Rightarrow> seconds * 1000 + micros div 1000)"

text \<open>\<open>SLIDING_WINDOW_SCRIPT\<close>: the pair it returns, and the state it leaves.\<close>

definition sliding_window_script ::
    "'r redis \<Rightarrow> string \<Rightarrow> int \<Rightarrow> int \<Rightarrow> string \<Rightarrow> 'r \<Rightarrow> (int \<times> int) \<times> 'r" where
  "sliding_window_script R key window_ms limit member r =
     (let now = now_ms R r;
          r = zremrangebyscore R key 0 (now - window_ms) r
      in if int (zcard R key r) \<ge> limit
         then ((0, case zrange_first R key r of
                     None \<Rightarrow> window_ms
                   | Some score \<Rightarrow> max 0 (score + window_ms - now)), r)
         else ((1, 0), pexpire R key window_ms (zadd R key now member r)))"

section \<open>The policy\<close>

record DistributedRateLimitOptions =
  maxCallsPerWindow :: "jsnum option"
  opt_windowMs :: "jsnum option"
  keyPrefix :: "string option"

record shared_limit =
  sl_maxCalls :: int
  sl_windowMs :: int
  sl_keyPrefix :: string

definition positive_integer :: "jsnum \<Rightarrow> bool" where
  "positive_integer n \<longleftrightarrow> is_integer n \<and> \<not> js_lt n (Fin 1)"

text \<open>The constructor, given that there is a way to run a script.\<close>

definition make_shared_limit ::
    "(rat \<Rightarrow> string) \<Rightarrow> DistributedRateLimitOptions \<Rightarrow> (string, shared_limit) result" where
  "make_shared_limit ns options =
     (let limit = nullish (maxCallsPerWindow options) (Fin 10);
          window = nullish (opt_windowMs options) (Fin 60000)
      in if \<not> positive_integer limit
         then Inl (''DistributedRateLimitPolicy: maxCallsPerWindow must be a positive integer, received '' @
                   js_number_text ns limit @ ''.'')
         else if \<not> positive_integer window
         then Inl (''DistributedRateLimitPolicy: windowMs must be a positive integer, received '' @
                   js_number_text ns window @ ''.'')
         else Inr \<lparr>sl_maxCalls = int_of limit, sl_windowMs = int_of window,
                sl_keyPrefix = nullish (keyPrefix options) ''agentic:ratelimit:''\<rparr>)"

text \<open>
  \<open>normalizeScriptResult\<close> on what a client may return for the script: numbers, or their texts.
\<close>

datatype script_reply = ReplyNumber jsnum | ReplyText string

definition reply_number :: "script_reply \<Rightarrow> jsnum" where
  "reply_number v = (case v of ReplyNumber n \<Rightarrow> n | ReplyText s \<Rightarrow> number_of_string s)"

definition normalizeScriptResult :: "script_reply list option \<Rightarrow> (string, bool \<times> rat) result" where
  "normalizeScriptResult raw =
     (case raw of
        None \<Rightarrow> Inl ''DistributedRateLimitPolicy: expected the rate-limit script to return an array''
      | Some reply \<Rightarrow>
          Inr (case reply of v # _ \<Rightarrow> js_num_eq (reply_number v) (Fin 1) | [] \<Rightarrow> False,
               case reply of _ # w # _ \<Rightarrow> (case reply_number w of Fin q \<Rightarrow> q | _ \<Rightarrow> 0) | _ \<Rightarrow> 0))"

definition shared_key :: "(rat \<Rightarrow> string) \<Rightarrow> shared_limit \<Rightarrow> AgentContext \<Rightarrow> string \<Rightarrow> string" where
  "shared_key ns L ctx tool_name = sl_keyPrefix L @ rate_key ns ctx tool_name"

definition per_seconds :: "int \<Rightarrow> int" where
  "per_seconds ms = \<lfloor>of_int ms / 1000 + 1 / (2 :: rat)\<rfloor>"

definition shared_evaluate ::
    "(rat \<Rightarrow> string) \<Rightarrow> shared_limit \<Rightarrow> (int \<times> int \<Rightarrow> script_reply list option) \<Rightarrow> 'r redis
       \<Rightarrow> string \<Rightarrow> AgentContext \<Rightarrow> string \<Rightarrow> 'r \<Rightarrow> (string, PolicyResult) result \<times> 'r" where
  "shared_evaluate ns L client R uuid ctx tool_name r =
     (case sliding_window_script R (shared_key ns L ctx tool_name) (sl_windowMs L) (sl_maxCalls L) uuid r of
        (pair, r) \<Rightarrow>
          (map_sum id (\<lambda>(allowed, retryAfterMs).
             if allowed then PAllow None
             else let retryAfterSeconds = max 1 \<lceil>retryAfterMs / 1000\<rceil>
                  in PDeny (''Rate limit exceeded for tool '' @ quoted tool_name @ ''. Max allowed: '' @
                       ns (of_int (sl_maxCalls L)) @ '' calls per '' @ ns (of_int (per_seconds (sl_windowMs L))) @
                       ''s. Retry after '' @ seconds_text ns retryAfterSeconds) (Some retryAfterSeconds))
             (normalizeScriptResult (client pair)), r))"

section \<open>What the server promises\<close>

text \<open>
  Over the members with their scores a key holds, the time a key expires, and the clock:
  each command changes the key it names only, a key whose members are all gone is gone, and
  as time passes a key keeps its members unless its expiry has come.
\<close>

definition sorted_set_server ::
    "'r redis \<Rightarrow> ('r \<Rightarrow> string \<Rightarrow> string \<Rightarrow> int option) \<Rightarrow> ('r \<Rightarrow> string \<Rightarrow> int option) \<Rightarrow> bool" where
  "sorted_set_server R zset expires \<longleftrightarrow>
     (\<forall>r k. finite (dom (zset r k)) \<and> zcard R k r = card (dom (zset r k))) \<and>
     (\<forall>r k lo hi. let r' = zremrangebyscore R k lo hi r in
        now_ms R r' = now_ms R r \<and>
        zset r' = (zset r)(k := (\<lambda>m. case zset r k m of None \<Rightarrow> None | Some s \<Rightarrow> if lo \<le> s \<and> s \<le> hi then None else Some s)) \<and>
        (\<forall>k'. zset r' k' \<noteq> Map.empty \<longrightarrow> expires r' k' = expires r k')) \<and>
     (\<forall>r k s m. let r' = zadd R k s m r in
        now_ms R r' = now_ms R r \<and> zset r' = (zset r)(k := (zset r k)(m \<mapsto> s)) \<and>
        (\<forall>k'. k' \<noteq> k \<longrightarrow> expires r' k' = expires r k')) \<and>
     (\<forall>r k ms. let r' = pexpire R k ms r in
        now_ms R r' = now_ms R r \<and> zset r' = zset r \<and>
        (\<forall>k'. k' \<noteq> k \<longrightarrow> expires r' k' = expires r k') \<and>
        (zset r k \<noteq> Map.empty \<longrightarrow> expires r' k = Some (now_ms R r + ms)))"

text \<open>Time passes on the server.\<close>

definition passes ::
    "'r redis \<Rightarrow> ('r \<Rightarrow> string \<Rightarrow> string \<Rightarrow> int option) \<Rightarrow> ('r \<Rightarrow> string \<Rightarrow> int option) \<Rightarrow> 'r \<Rightarrow> 'r \<Rightarrow> bool" where
  "passes R zset expires r r' \<longleftrightarrow>
     now_ms R r \<le> now_ms R r' \<and>
     (\<forall>k. (zset r' k = zset r k \<and> (zset r k \<noteq> Map.empty \<longrightarrow> expires r' k = expires r k)) \<or>
       (zset r' k = Map.empty \<and> (\<exists>d. expires r k = Some d \<and> d \<le> now_ms R r')))"

section \<open>Calls of every process\<close>

text \<open>
  The scripts of all processes in the order the server runs them, with time passing between;
  each call is recorded with its time, its key, its member and whether it was admitted.
\<close>

record shared_call =
  sc_time :: int
  sc_key :: string
  sc_member :: string
  sc_admitted :: bool

inductive served ::
    "'r redis \<Rightarrow> ('r \<Rightarrow> string \<Rightarrow> string \<Rightarrow> int option) \<Rightarrow> ('r \<Rightarrow> string \<Rightarrow> int option) \<Rightarrow> int \<Rightarrow> int
       \<Rightarrow> 'r \<Rightarrow> shared_call list \<Rightarrow> bool"
  for R zset expires window limit where
  empty: "(\<And>k. zset r k = Map.empty) \<Longrightarrow> served R zset expires window limit r []"
| time: "served R zset expires window limit r calls \<Longrightarrow> passes R zset expires r r' \<Longrightarrow>
    served R zset expires window limit r' calls"
| call: "served R zset expires window limit r calls \<Longrightarrow> m \<notin> sc_member ` set calls \<Longrightarrow>
    sliding_window_script R k window limit m r = ((ok, retry), r') \<Longrightarrow>
    served R zset expires window limit r'
      (calls @ [\<lparr>sc_time = now_ms R r, sc_key = k, sc_member = m, sc_admitted = (ok = 1)\<rparr>])"

definition admitted_between :: "string \<Rightarrow> int \<Rightarrow> int \<Rightarrow> shared_call list \<Rightarrow> shared_call list" where
  "admitted_between k lo hi calls =
     filter (\<lambda>c. sc_admitted c \<and> sc_key c = k \<and> lo < sc_time c \<and> sc_time c \<le> hi) calls"

text \<open>
  The invariant: the members are distinct, the clock is past every call, every admitted call
  of the last window is a member of its key, and the keys expire a window after their last
  member was added at the earliest.
\<close>

definition served_inv ::
    "'r redis \<Rightarrow> ('r \<Rightarrow> string \<Rightarrow> string \<Rightarrow> int option) \<Rightarrow> ('r \<Rightarrow> string \<Rightarrow> int option) \<Rightarrow> int \<Rightarrow> 'r \<Rightarrow> shared_call list \<Rightarrow> bool" where
  "served_inv R zset expires window r calls \<longleftrightarrow>
     distinct (map sc_member calls) \<and> (\<forall>c \<in> set calls. sc_time c \<le> now_ms R r) \<and>
     (\<forall>c \<in> set calls. sc_admitted c \<longrightarrow> now_ms R r < sc_time c + window \<longrightarrow>
        zset r (sc_key c) (sc_member c) = Some (sc_time c) \<and>
        (\<exists>d. expires r (sc_key c) = Some d \<and> sc_time c + window \<le> d))"

lemma inv_passes:
  assumes "served_inv R zset expires window r calls" "passes R zset expires r r'"
  shows "served_inv R zset expires window r' calls"
  unfolding served_inv_def
proof (intro conjI ballI impI)
  show "distinct (map sc_member calls)" using assms(1) by (simp add: served_inv_def)
  have le: "now_ms R r \<le> now_ms R r'" using assms(2) by (simp add: passes_def)
  show "sc_time c \<le> now_ms R r'" if "c \<in> set calls" for c
    using assms(1) that le by (auto simp: served_inv_def)
  fix c assume c: "c \<in> set calls" "sc_admitted c" "now_ms R r' < sc_time c + window"
  with assms(1) le obtain d where
    held: "zset r (sc_key c) (sc_member c) = Some (sc_time c)" "expires r (sc_key c) = Some d"
    "sc_time c + window \<le> d" by (auto simp: served_inv_def)
  from assms(2) have "(zset r' (sc_key c) = zset r (sc_key c) \<and>
        (zset r (sc_key c) \<noteq> Map.empty \<longrightarrow> expires r' (sc_key c) = expires r (sc_key c))) \<or>
      (\<exists>d. expires r (sc_key c) = Some d \<and> d \<le> now_ms R r')"
    by (auto simp: passes_def)
  with held c(3) have kept: "zset r' (sc_key c) = zset r (sc_key c)"
    "expires r' (sc_key c) = expires r (sc_key c)" by auto
  with held show "zset r' (sc_key c) (sc_member c) = Some (sc_time c)"
    "\<exists>d. expires r' (sc_key c) = Some d \<and> sc_time c + window \<le> d" by auto
qed

text \<open>What the script does, on the view of the server.\<close>

lemma script_denied:
  assumes "sorted_set_server R zset expires" "sliding_window_script R k window limit m r = ((ok, retry), r')" "ok \<noteq> 1"
  shows "r' = zremrangebyscore R k 0 (now_ms R r - window) r"
  using assms(2,3) by (auto simp: sliding_window_script_def Let_def split: if_splits)

lemma script_admitted:
  assumes "sliding_window_script R k window limit m r = ((1, retry), r')"
  defines "r1 \<equiv> zremrangebyscore R k 0 (now_ms R r - window) r"
  shows "r' = pexpire R k window (zadd R k (now_ms R r) m r1)" "int (zcard R k r1) < limit"
  using assms(1) by (auto simp: sliding_window_script_def Let_def r1_def split: if_splits)

lemma evict_keeps:
  assumes server: "sorted_set_server R zset expires" and inv: "served_inv R zset expires window r calls"
    and c: "c \<in> set calls" "sc_admitted c" "now_ms R r < sc_time c + window"
    and r1: "r1 = zremrangebyscore R k 0 (now_ms R r - window) r"
  shows "zset r1 (sc_key c) (sc_member c) = Some (sc_time c)"
    "\<exists>d. expires r1 (sc_key c) = Some d \<and> sc_time c + window \<le> d"
proof -
  from inv c obtain d where held: "zset r (sc_key c) (sc_member c) = Some (sc_time c)"
    "expires r (sc_key c) = Some d" "sc_time c + window \<le> d" by (auto simp: served_inv_def)
  from server have zset: "zset r1 = (zset r)(k := (\<lambda>m. case zset r k m of None \<Rightarrow> None
        | Some s \<Rightarrow> if 0 \<le> s \<and> s \<le> now_ms R r - window then None else Some s))"
    and expires: "\<forall>k'. zset r1 k' \<noteq> Map.empty \<longrightarrow> expires r1 k' = expires r k'"
    unfolding sorted_set_server_def Let_def r1 by blast+
  from zset held(1) c(3) show kept: "zset r1 (sc_key c) (sc_member c) = Some (sc_time c)" by auto
  then have "zset r1 (sc_key c) \<noteq> Map.empty" by auto
  with expires held(2,3) show "\<exists>d. expires r1 (sc_key c) = Some d \<and> sc_time c + window \<le> d" by auto
qed

lemma evict_clock:
  "sorted_set_server R zset expires \<Longrightarrow> now_ms R (zremrangebyscore R k lo hi r) = now_ms R r"
  by (simp add: sorted_set_server_def Let_def)

lemma inv_denied:
  assumes "sorted_set_server R zset expires" "served_inv R zset expires window r calls" "m \<notin> sc_member ` set calls"
    and "r' = zremrangebyscore R k 0 (now_ms R r - window) r"
  shows "served_inv R zset expires window r'
    (calls @ [\<lparr>sc_time = now_ms R r, sc_key = k, sc_member = m, sc_admitted = False\<rparr>])"
  using assms evict_clock [OF assms(1)] evict_keeps [OF assms(1,2) _ _ _ assms(4)]
  by (auto simp: served_inv_def)

lemma inv_admitted:
  assumes server: "sorted_set_server R zset expires" and inv: "served_inv R zset expires window r calls"
    and m: "m \<notin> sc_member ` set calls" and window: "0 \<le> window"
    and r': "r' = pexpire R k window (zadd R k (now_ms R r) m (zremrangebyscore R k 0 (now_ms R r - window) r))"
  shows "served_inv R zset expires window r'
    (calls @ [\<lparr>sc_time = now_ms R r, sc_key = k, sc_member = m, sc_admitted = True\<rparr>])"
proof -
  let ?r1 = "zremrangebyscore R k 0 (now_ms R r - window) r"
  let ?r2 = "zadd R k (now_ms R r) m ?r1"
  from server have z2: "zset ?r2 = (zset ?r1)(k := (zset ?r1 k)(m \<mapsto> now_ms R r))" "now_ms R ?r2 = now_ms R ?r1"
    "\<forall>k'. k' \<noteq> k \<longrightarrow> expires ?r2 k' = expires ?r1 k'"
    unfolding sorted_set_server_def Let_def by blast+
  from server have z3: "zset r' = zset ?r2" "now_ms R r' = now_ms R ?r2"
    "\<forall>k'. k' \<noteq> k \<longrightarrow> expires r' k' = expires ?r2 k'"
    "zset ?r2 k \<noteq> Map.empty \<longrightarrow> expires r' k = Some (now_ms R ?r2 + window)"
    unfolding sorted_set_server_def Let_def r' by blast+
  have now: "now_ms R r' = now_ms R r" using z2(2) z3(2) evict_clock [OF server] by simp
  have zset: "zset r' = (zset ?r1)(k := (zset ?r1 k)(m \<mapsto> now_ms R r))" using z2(1) z3(1) by simp
  from z2(1) have "zset ?r2 k m = Some (now_ms R r)" by simp
  then have "zset ?r2 k \<noteq> Map.empty" by (metis option.distinct(1))
  with z2(2) z3(4) have expires: "expires r' k = Some (now_ms R r + window)"
    by (simp add: evict_clock [OF server])
  have other: "expires r' k' = expires ?r1 k'" if "k' \<noteq> k" for k' using that z2(3) z3(3) by simp
  have "zset r' (sc_key c) (sc_member c) = Some (sc_time c) \<and> (\<exists>d. expires r' (sc_key c) = Some d \<and> sc_time c + window \<le> d)"
    if c: "c \<in> set calls" "sc_admitted c" "now_ms R r < sc_time c + window" for c
  proof -
    note kept = evict_keeps [OF server inv c refl, of k]
    from m c(1) have "sc_member c \<noteq> m" by auto
    moreover from inv c(1) have "sc_time c \<le> now_ms R r" by (simp add: served_inv_def)
    ultimately show ?thesis using kept zset expires other by (cases "sc_key c = k") auto
  qed
  moreover have "zset r' k m = Some (now_ms R r)" using zset by simp
  ultimately show ?thesis using inv m now expires by (auto simp: served_inv_def)
qed

lemma inv_served:
  assumes "sorted_set_server R zset expires" "served R zset expires window limit r calls" "0 \<le> window"
  shows "served_inv R zset expires window r calls"
  using assms(2)
proof induction
  case (empty r)
  then show ?case by (simp add: served_inv_def)
next
  case (time r calls r')
  show ?case by (rule inv_passes [OF time.IH time.hyps(2)])
next
  case (call r calls m k ok retry r')
  show ?case
  proof (cases "ok = 1")
    case True
    with call.hyps(3) have "sliding_window_script R k window limit m r = ((1, retry), r')" by simp
    from inv_admitted [OF assms(1) call.IH call.hyps(2) assms(3) script_admitted(1) [OF this]] True
    show ?thesis by simp
  next
    case False
    from inv_denied [OF assms(1) call.IH call.hyps(2) script_denied [OF assms(1) call.hyps(3) False]] False
    show ?thesis by simp
  qed
qed

text \<open>A call is admitted only while its window has room.\<close>

lemma window_has_room:
  assumes server: "sorted_set_server R zset expires" and inv: "served_inv R zset expires window r calls"
    and script: "sliding_window_script R k window limit m r = ((1, retry), r')"
    and until: "now_ms R r \<le> until"
  shows "int (length (admitted_between k (until - window) until calls)) < limit"
proof -
  let ?r1 = "zremrangebyscore R k 0 (now_ms R r - window) r"
  let ?held = "admitted_between k (until - window) until calls"
  from server have dom: "finite (dom (zset ?r1 k))" "zcard R k ?r1 = card (dom (zset ?r1 k))"
    unfolding sorted_set_server_def by blast+
  have "sc_member c \<in> dom (zset ?r1 k)" if "c \<in> set ?held" for c
  proof -
    from that until have c: "c \<in> set calls" "sc_admitted c" "now_ms R r < sc_time c + window" "sc_key c = k"
      by (auto simp: admitted_between_def)
    from evict_keeps(1) [OF server inv c(1-3) refl, of k] c(4) show ?thesis by auto
  qed
  then have sub: "set (map sc_member ?held) \<subseteq> dom (zset ?r1 k)" by auto
  have "distinct (map sc_member ?held)"
    using inv by (auto simp: admitted_between_def served_inv_def distinct_map intro: inj_on_subset)
  from distinct_card [OF this] card_mono [OF dom(1) sub]
  have "length ?held \<le> card (dom (zset ?r1 k))" by (simp only: length_map)
  with script_admitted(2) [OF script] dom(2) show ?thesis by simp
qed

text \<open>
  C29: Processes that share a server share one limit. However the scripts of any number of
  processes interleave and whenever keys expire, no window of the configured length holds
  more admitted calls of one tenant, user and tool than the limit, as long as no two calls
  use one member.
\<close>

theorem shared_limit_bounds_every_window:
  assumes "sorted_set_server R zset expires" "served R zset expires window limit r calls" "0 \<le> window"
  shows "length (admitted_between k (until - window) until calls) \<le> nat limit"
  using assms(2)
proof induction
  case (empty r)
  show ?case by (simp add: admitted_between_def)
next
  case (time r calls r')
  then show ?case by simp
next
  case (call r calls m k' ok retry r')
  have inv: "served_inv R zset expires window r calls" by (rule inv_served [OF assms(1) call.hyps(1) assms(3)])
  show ?case
  proof (cases "ok = 1 \<and> k' = k \<and> now_ms R r \<le> until")
    case True
    with window_has_room [OF assms(1) inv, of k limit m retry r' until] call.hyps(3)
    have "int (length (admitted_between k (until - window) until calls)) < limit" by auto
    then have "Suc (length (admitted_between k (until - window) until calls)) \<le> nat limit" by linarith
    then show ?thesis by (simp add: admitted_between_def)
  next
    case False
    then have "admitted_between k (until - window) until
        (calls @ [\<lparr>sc_time = now_ms R r, sc_key = k', sc_member = m, sc_admitted = (ok = 1)\<rparr>]) =
      admitted_between k (until - window) until calls"
      by (auto simp: admitted_between_def)
    with call.IH show ?thesis by simp
  qed
qed

text \<open>A server in memory whose time a test sets.\<close>

record mem_redis =
  mr_clock :: int
  mr_sets :: "string \<Rightarrow> (string, int) fmap"
  mr_expires :: "string \<Rightarrow> int option"

definition mem_server :: "mem_redis redis" where
  "mem_server =
     \<lparr>clock_time = (\<lambda>r. (mr_clock r div 1000, (mr_clock r mod 1000) * 1000)),
      zremrangebyscore = (\<lambda>k lo hi r. r\<lparr>mr_sets := (mr_sets r)(k :=
        fmfilter (\<lambda>m. case fmlookup (mr_sets r k) m of None \<Rightarrow> True | Some s \<Rightarrow> \<not> (lo \<le> s \<and> s \<le> hi)) (mr_sets r k))\<rparr>),
      zcard = (\<lambda>k r. fcard (fmdom (mr_sets r k))),
      zrange_first = (\<lambda>k r. if fmran (mr_sets r k) = {||} then None else Some (fMin (fmran (mr_sets r k)))),
      zadd = (\<lambda>k s m r. r\<lparr>mr_sets := (mr_sets r)(k := fmupd m s (mr_sets r k))\<rparr>),
      pexpire = (\<lambda>k ms r. r\<lparr>mr_expires := (mr_expires r)(k \<mapsto> mr_clock r + ms)\<rparr>)\<rparr>"

lemma mem_server_now: "now_ms mem_server r = mr_clock r"
  by (simp add: now_ms_def mem_server_def)

lemma mem_server_steps:
  "zcard mem_server k r = fcard (fmdom (mr_sets r k))"
  "mr_clock (zremrangebyscore mem_server k lo hi r) = mr_clock r"
  "mr_sets (zremrangebyscore mem_server k lo hi r) k =
     fmfilter (\<lambda>m. case fmlookup (mr_sets r k) m of None \<Rightarrow> True | Some s \<Rightarrow> \<not> (lo \<le> s \<and> s \<le> hi)) (mr_sets r k)"
  "mr_clock (zadd mem_server k s m r) = mr_clock r"
  "mr_sets (zadd mem_server k s m r) k = fmupd m s (mr_sets r k)"
  "mr_clock (pexpire mem_server k ms r) = mr_clock r"
  "mr_sets (pexpire mem_server k ms r) = mr_sets r"
  by (simp_all add: mem_server_def)

lemma mem_server_ok: "sorted_set_server mem_server (\<lambda>r k. fmlookup (mr_sets r k)) mr_expires"
  unfolding sorted_set_server_def Let_def mem_server_now
  by (auto simp: mem_server_def fun_eq_iff fcard_def fmdom.rep_eq split: option.splits)

definition empty_server :: mem_redis where
  "empty_server = \<lparr>mr_clock = 1000, mr_sets = (\<lambda>_. fmempty), mr_expires = Map.empty\<rparr>"

lemma two_calls_served:
  "\<exists>r. served mem_server (\<lambda>r k. fmlookup (mr_sets r k)) mr_expires 60000 1 r
     [\<lparr>sc_time = 1000, sc_key = ''k'', sc_member = ''a'', sc_admitted = True\<rparr>,
      \<lparr>sc_time = 1000, sc_key = ''k'', sc_member = ''b'', sc_admitted = False\<rparr>]"
proof -
  let ?z = "\<lambda>r k. fmlookup (mr_sets r k)"
  obtain ok retry r1 where one: "sliding_window_script mem_server ''k'' 60000 1 ''a'' empty_server = ((ok, retry), r1)"
    by (metis prod.exhaust)
  then have r1: "ok = 1" "mr_clock r1 = 1000" "mr_sets r1 ''k'' = fmupd ''a'' 1000 fmempty"
    by (auto simp: sliding_window_script_def Let_def mem_server_now mem_server_steps fcard_fempty fcard_finsert_if empty_server_def)
  obtain ok2 retry2 r2 where two: "sliding_window_script mem_server ''k'' 60000 1 ''b'' r1 = ((ok2, retry2), r2)"
    by (metis prod.exhaust)
  have "ffilter (\<lambda>_. True) A = A" for A :: "string fset" by auto
  with two r1 have ok2: "ok2 = 0"
    by (auto simp: sliding_window_script_def Let_def mem_server_now mem_server_steps fcard_fempty fcard_finsert_if split: if_splits)
  have "served mem_server ?z mr_expires 60000 1 empty_server []"
    by (rule served.empty) (simp add: empty_server_def fun_eq_iff)
  from served.call [OF this _ one] have "served mem_server ?z mr_expires 60000 1 r1
      [\<lparr>sc_time = 1000, sc_key = ''k'', sc_member = ''a'', sc_admitted = True\<rparr>]"
    using r1(1) by (simp add: mem_server_now empty_server_def)
  from served.call [OF this _ two] have "served mem_server ?z mr_expires 60000 1 r2
      [\<lparr>sc_time = 1000, sc_key = ''k'', sc_member = ''a'', sc_admitted = True\<rparr>,
       \<lparr>sc_time = 1000, sc_key = ''k'', sc_member = ''b'', sc_admitted = False\<rparr>]"
    using r1(2) ok2 by (simp add: mem_server_now)
  then show ?thesis by blast
qed

theorem shared_limit_bounds_every_window_witness:
  "length (admitted_between ''k'' (- 50000) 10000
     [\<lparr>sc_time = 1000, sc_key = ''k'', sc_member = ''a'', sc_admitted = True\<rparr>,
      \<lparr>sc_time = 1000, sc_key = ''k'', sc_member = ''b'', sc_admitted = False\<rparr>]) \<le> 1"
proof -
  from two_calls_served obtain r where "served mem_server (\<lambda>r k. fmlookup (mr_sets r k)) mr_expires 60000 1 r
     [\<lparr>sc_time = 1000, sc_key = ''k'', sc_member = ''a'', sc_admitted = True\<rparr>,
      \<lparr>sc_time = 1000, sc_key = ''k'', sc_member = ''b'', sc_admitted = False\<rparr>]" ..
  from shared_limit_bounds_every_window [OF mem_server_ok this, of "''k''" 10000] show ?thesis by simp
qed

end
