(* ===== verification/Redaction.thy ===== *)
theory Redaction
  imports Js_Number
begin

text \<open>
  Redaction of tool outputs: the traversal of \<open>packages/core/src/utils/redaction-traversal.ts\<close>
  and the two output rails built on it, \<open>policies/secret-redaction.policy.ts\<close> and
  \<open>policies/pii-redaction.policy.ts\<close>. The replacement of the patterns inside one string is a
  parameter. Values are trees: nothing is shared and nothing is cyclic.
\<close>

section \<open>Values\<close>

text \<open>
  Strings, other primitives and functions, \<open>Date\<close> and \<open>RegExp\<close>, arrays, \<open>Map\<close>s, \<open>Set\<close>s, plain
  records, and any other object: what its \<open>toJSON\<close> returns, if it has one, and the values of
  its own data properties.
\<close>

datatype rv =
    RStr string
  | RAtom jsval
  | ROpaque nat
  | RArr "rv list"
  | RMap "(rv \<times> rv) list"
  | RSet "rv list"
  | RRec "(string \<times> rv) list"
  | RInst nat "rv option" "rv list"

text \<open>\<open>SameValueZero\<close> of two members of a \<open>Map\<close> or \<open>Set\<close>: objects are never the same.\<close>

fun same_member :: "rv \<Rightarrow> rv \<Rightarrow> bool" where
  "same_member (RStr s) (RStr t) = (s = t)"
| "same_member (RAtom a) (RAtom b) = (a = b)"
| "same_member _ _ = False"

section \<open>Options and flags\<close>

record RedactionTraversalOptions =
  maxDepth :: int
  transformString :: "string \<Rightarrow> string"
  handleKey :: "string \<Rightarrow> rv \<Rightarrow> rv option"
  denyDepthExceeded :: bool
  skipForbiddenKeys :: bool

record redaction_flags =
  modified :: bool
  depthExceeded :: bool
  keyCollision :: bool
  unredactable :: bool

definition no_flags :: redaction_flags where
  "no_flags = \<lparr>modified = False, depthExceeded = False, keyCollision = False, unredactable = False\<rparr>"

definition FORBIDDEN_KEYS :: "string set" where
  "FORBIDDEN_KEYS = {''__proto__'', ''prototype'', ''constructor''}"

definition too_deep :: "RedactionTraversalOptions \<Rightarrow> redaction_flags \<Rightarrow> redaction_flags" where
  "too_deep T fl = (if denyDepthExceeded T then fl\<lparr>depthExceeded := True\<rparr> else fl)"

section \<open>Inspection without rewriting\<close>

function (sequential) containsSensitive :: "RedactionTraversalOptions \<Rightarrow> rv \<Rightarrow> int \<Rightarrow> redaction_flags \<Rightarrow> bool \<times> redaction_flags"
and any_sensitive :: "RedactionTraversalOptions \<Rightarrow> rv list \<Rightarrow> int \<Rightarrow> redaction_flags \<Rightarrow> bool \<times> redaction_flags"
and entry_sensitive :: "RedactionTraversalOptions \<Rightarrow> (rv \<times> rv) list \<Rightarrow> int \<Rightarrow> redaction_flags \<Rightarrow> bool \<times> redaction_flags"
and field_sensitive :: "RedactionTraversalOptions \<Rightarrow> (string \<times> rv) list \<Rightarrow> int \<Rightarrow> redaction_flags \<Rightarrow> bool \<times> redaction_flags"
where
  "containsSensitive T v d fl =
     (if d > maxDepth T then (False, too_deep T fl)
      else case v of
        RStr s \<Rightarrow> (transformString T s \<noteq> s, fl)
      | RAtom a \<Rightarrow> (False, fl)
      | ROpaque n \<Rightarrow> (False, fl)
      | RArr vs \<Rightarrow> any_sensitive T vs (d + 1) fl
      | RSet vs \<Rightarrow> any_sensitive T vs (d + 1) fl
      | RMap kvs \<Rightarrow> entry_sensitive T kvs (d + 1) fl
      | RRec ps \<Rightarrow> field_sensitive T ps (d + 1) fl
      | RInst n None ps \<Rightarrow> any_sensitive T ps (d + 1) fl
      | RInst n (Some j) ps \<Rightarrow>
          (case containsSensitive T j (d + 1) fl of
             (found, fl) \<Rightarrow> if found then (True, fl) else any_sensitive T ps (d + 1) fl))"
| "any_sensitive T [] d fl = (False, fl)"
| "any_sensitive T (v # vs) d fl =
     (case containsSensitive T v d fl of
        (found, fl) \<Rightarrow> if found then (True, fl) else any_sensitive T vs d fl)"
| "entry_sensitive T [] d fl = (False, fl)"
| "entry_sensitive T ((k, v) # kvs) d fl =
     (case containsSensitive T k d fl of
        (found, fl) \<Rightarrow>
          if found then (True, fl)
          else case containsSensitive T v d fl of
            (found, fl) \<Rightarrow> if found then (True, fl) else entry_sensitive T kvs d fl)"
| "field_sensitive T [] d fl = (False, fl)"
| "field_sensitive T ((k, v) # ps) d fl =
     (case containsSensitive T v d fl of
        (found, fl) \<Rightarrow> if found then (True, fl) else field_sensitive T ps d fl)"

  by pat_completeness auto

termination
  by (relation "measure (case_sum
       (case_sum (\<lambda>(T, v, d, fl). size v) (\<lambda>(T, vs, d, fl). size_list size vs))
       (case_sum (\<lambda>(T, kvs, d, fl). size_list (size_prod size size) kvs)
         (\<lambda>(T, ps, d, fl). size_list (size_prod (\<lambda>_. 0) size) ps)))") auto

declare containsSensitive.simps [simp del]

section \<open>The traversal\<close>

text \<open>\<open>Map.set\<close> and \<open>Set.add\<close> on the entries so far.\<close>

fun map_put :: "rv \<Rightarrow> rv \<Rightarrow> (rv \<times> rv) list \<Rightarrow> (rv \<times> rv) list" where
  "map_put k v [] = [(k, v)]"
| "map_put k v ((k', v') # kvs) = (if same_member k k' then (k', v) # kvs else (k', v') # map_put k v kvs)"

definition has_member :: "rv \<Rightarrow> rv list \<Rightarrow> bool" where
  "has_member v vs \<longleftrightarrow> (\<exists>w \<in> set vs. same_member v w)"

definition set_add :: "rv \<Rightarrow> rv list \<Rightarrow> rv list" where
  "set_add v vs = (if has_member v vs then vs else vs @ [v])"

definition redact_text :: "RedactionTraversalOptions \<Rightarrow> string \<Rightarrow> redaction_flags \<Rightarrow> string \<times> redaction_flags" where
  "redact_text T s fl =
     (transformString T s, if transformString T s \<noteq> s then fl\<lparr>modified := True\<rparr> else fl)"

text \<open>A \<open>Map\<close> key: a string is redacted, another key is kept and inspected.\<close>

definition redact_key :: "RedactionTraversalOptions \<Rightarrow> rv \<Rightarrow> int \<Rightarrow> redaction_flags \<Rightarrow> rv \<times> redaction_flags" where
  "redact_key T k d fl =
     (case k of
        RStr s \<Rightarrow> (case redact_text T s fl of (t, fl) \<Rightarrow> (RStr t, fl))
      | _ \<Rightarrow>
          (case containsSensitive T k d fl of
             (found, fl) \<Rightarrow> (k, if found then fl\<lparr>unredactable := True\<rparr> else fl)))"

definition collides :: "bool \<Rightarrow> redaction_flags \<Rightarrow> redaction_flags" where
  "collides b fl = (if b then fl\<lparr>keyCollision := True\<rparr> else fl)"

function (sequential) walk :: "RedactionTraversalOptions \<Rightarrow> rv \<Rightarrow> int \<Rightarrow> redaction_flags \<Rightarrow> rv \<times> redaction_flags"
and walk_items :: "RedactionTraversalOptions \<Rightarrow> rv list \<Rightarrow> int \<Rightarrow> rv list \<Rightarrow> redaction_flags \<Rightarrow> rv list \<times> redaction_flags"
and walk_entries :: "RedactionTraversalOptions \<Rightarrow> (rv \<times> rv) list \<Rightarrow> int \<Rightarrow> (rv \<times> rv) list \<Rightarrow> redaction_flags
    \<Rightarrow> (rv \<times> rv) list \<times> redaction_flags"
and walk_members :: "RedactionTraversalOptions \<Rightarrow> rv list \<Rightarrow> int \<Rightarrow> rv list \<Rightarrow> redaction_flags \<Rightarrow> rv list \<times> redaction_flags"
and walk_fields :: "RedactionTraversalOptions \<Rightarrow> (string \<times> rv) list \<Rightarrow> int \<Rightarrow> (string \<times> rv) list \<Rightarrow> redaction_flags
    \<Rightarrow> (string \<times> rv) list \<times> redaction_flags"
where
  "walk T v d fl =
     (if d > maxDepth T then (v, too_deep T fl)
      else case v of
        RStr s \<Rightarrow> (case redact_text T s fl of (t, fl) \<Rightarrow> (RStr t, fl))
      | RAtom a \<Rightarrow> (v, fl)
      | ROpaque n \<Rightarrow> (v, fl)
      | RArr vs \<Rightarrow> (case walk_items T vs (d + 1) [] fl of (ws, fl) \<Rightarrow> (RArr ws, fl))
      | RMap kvs \<Rightarrow> (case walk_entries T kvs (d + 1) [] fl of (ws, fl) \<Rightarrow> (RMap ws, fl))
      | RSet vs \<Rightarrow> (case walk_members T vs (d + 1) [] fl of (ws, fl) \<Rightarrow> (RSet ws, fl))
      | RInst n j ps \<Rightarrow>
          (case containsSensitive T v d fl of
             (found, fl) \<Rightarrow> (v, if found then fl\<lparr>unredactable := True\<rparr> else fl))
      | RRec ps \<Rightarrow> (case walk_fields T ps (d + 1) [] fl of (ws, fl) \<Rightarrow> (RRec ws, fl)))"
| "walk_items T [] d acc fl = (acc, fl)"
| "walk_items T (v # vs) d acc fl =
     (case walk T v d fl of (w, fl) \<Rightarrow> walk_items T vs d (acc @ [w]) fl)"
| "walk_entries T [] d acc fl = (acc, fl)"
| "walk_entries T ((k, v) # kvs) d acc fl =
     (case redact_key T k d fl of
        (k', fl) \<Rightarrow>
          (case walk T v d (collides (has_member k' (map fst acc)) fl) of
             (w, fl) \<Rightarrow> walk_entries T kvs d (map_put k' w acc) fl))"
| "walk_members T [] d acc fl = (acc, fl)"
| "walk_members T (v # vs) d acc fl =
     (case walk T v d fl of
        (w, fl) \<Rightarrow> walk_members T vs d (set_add w acc) (collides (has_member w acc) fl))"
| "walk_fields T [] d acc fl = (acc, fl)"
| "walk_fields T ((k, v) # ps) d acc fl =
     (if skipForbiddenKeys T \<and> k \<in> FORBIDDEN_KEYS
      then walk_fields T ps d acc (fl\<lparr>modified := True\<rparr>)
      else case handleKey T k v of
        Some w \<Rightarrow> walk_fields T ps d (acc @ [(k, w)]) (if w \<noteq> v then fl\<lparr>modified := True\<rparr> else fl)
      | None \<Rightarrow> (case walk T v d fl of (w, fl) \<Rightarrow> walk_fields T ps d (acc @ [(k, w)]) fl))"

  by pat_completeness auto

termination
  by (relation "measure (case_sum
       (case_sum (\<lambda>(T, v, d, fl). size v) (\<lambda>(T, vs, d, acc, fl). size_list size vs))
       (case_sum (\<lambda>(T, kvs, d, acc, fl). size_list (size_prod size size) kvs)
         (case_sum (\<lambda>(T, vs, d, acc, fl). size_list size vs)
           (\<lambda>(T, ps, d, acc, fl). size_list (size_prod (\<lambda>_. 0) size) ps))))") auto

declare walk.simps [simp del]

definition traverseAndRedact :: "RedactionTraversalOptions \<Rightarrow> rv \<Rightarrow> rv \<times> redaction_flags" where
  "traverseAndRedact T v = walk T v 0 no_flags"

section \<open>The two rails\<close>

datatype rail = RailAllow | RailDeny string | RailSanitize rv

definition pii_traversal :: "int \<Rightarrow> (string \<Rightarrow> string) \<Rightarrow> string set \<Rightarrow> string \<Rightarrow> RedactionTraversalOptions" where
  "pii_traversal depth redactString sensitiveKeys placeholder =
     \<lparr>maxDepth = depth, transformString = redactString,
      handleKey = (\<lambda>k v. if k \<in> sensitiveKeys then Some (RStr placeholder) else None),
      denyDepthExceeded = True, skipForbiddenKeys = True\<rparr>"

definition is_missing :: "rv \<Rightarrow> bool" where
  "is_missing v \<longleftrightarrow> v = RAtom JUndef \<or> v = RAtom JNull"

definition pii_evaluateOutput ::
    "(int \<Rightarrow> string) \<Rightarrow> int \<Rightarrow> (string \<Rightarrow> string) \<Rightarrow> string set \<Rightarrow> string \<Rightarrow> rv \<Rightarrow> rail" where
  "pii_evaluateOutput num depth redactString sensitiveKeys placeholder v =
     (if is_missing v then RailAllow
      else case traverseAndRedact (pii_traversal depth redactString sensitiveKeys placeholder) v of
        (w, fl) \<Rightarrow>
          if depthExceeded fl
          then RailDeny (''Tool output exceeds maximum PII-scanning depth ('' @ num depth @
                 ''); unable to fully inspect for personal data.'')
          else if keyCollision fl
          then RailDeny (''Redacting PII produced a Map key / Set member collision; refusing to return output '' @
                 ''that would silently drop an entry.'')
          else if unredactable fl
          then RailDeny (''Personal data was found inside a class instance or built-in object that cannot be '' @
                 ''safely redacted; refusing to return it. Return plain JSON-compatible data from this tool to '' @
                 ''allow redaction.'')
          else if modified fl then RailSanitize w
          else RailAllow)"

definition secret_traversal :: "int \<Rightarrow> (string \<Rightarrow> string) \<Rightarrow> string set \<Rightarrow> string \<Rightarrow> RedactionTraversalOptions" where
  "secret_traversal depth redactString sensitiveKeys placeholder =
     \<lparr>maxDepth = depth, transformString = redactString,
      handleKey = (\<lambda>k v. case v of RStr _ \<Rightarrow> if k \<in> sensitiveKeys then Some (RStr placeholder) else None | _ \<Rightarrow> None),
      denyDepthExceeded = False, skipForbiddenKeys = True\<rparr>"

definition secret_evaluateOutput ::
    "int \<Rightarrow> (string \<Rightarrow> string) \<Rightarrow> string set \<Rightarrow> string \<Rightarrow> rv \<Rightarrow> rail" where
  "secret_evaluateOutput depth redactString sensitiveKeys placeholder v =
     (if is_missing v then RailAllow
      else case traverseAndRedact (secret_traversal depth redactString sensitiveKeys placeholder) v of
        (w, fl) \<Rightarrow>
          if keyCollision fl
          then RailDeny (''Redacting secrets produced a Map key / Set member collision; refusing to return output '' @
                 ''that would silently drop an entry.'')
          else if unredactable fl
          then RailDeny (''A secret was found inside a class instance or built-in object that cannot be safely '' @
                 ''redacted; refusing to return it. Return plain JSON-compatible data from this tool to allow redaction.'')
          else if modified fl then RailSanitize w
          else RailAllow)"

section \<open>What has been inspected\<close>

text \<open>Every string in a value is one the replacement leaves alone.\<close>

inductive intact :: "(string \<Rightarrow> string) \<Rightarrow> rv \<Rightarrow> bool" for f where
  "f s = s \<Longrightarrow> intact f (RStr s)"
| "intact f (RAtom a)"
| "intact f (ROpaque n)"
| "\<forall>v \<in> set vs. intact f v \<Longrightarrow> intact f (RArr vs)"
| "\<forall>v \<in> set vs. intact f v \<Longrightarrow> intact f (RSet vs)"
| "\<forall>(k, v) \<in> set kvs. intact f k \<and> intact f v \<Longrightarrow> intact f (RMap kvs)"
| "\<forall>(k, v) \<in> set ps. intact f v \<Longrightarrow> intact f (RRec ps)"
| "\<forall>j' \<in> set_option j. intact f j' \<Longrightarrow> \<forall>v \<in> set ps. intact f v \<Longrightarrow> intact f (RInst n j ps)"

text \<open>The cases of one inspection within the depth.\<close>

lemma inspect_simps:
  assumes "\<not> d > maxDepth T"
  shows "containsSensitive T (RStr s) d fl = (transformString T s \<noteq> s, fl)"
    "containsSensitive T (RAtom a) d fl = (False, fl)"
    "containsSensitive T (ROpaque n) d fl = (False, fl)"
    "containsSensitive T (RArr vs) d fl = any_sensitive T vs (d + 1) fl"
    "containsSensitive T (RSet vs) d fl = any_sensitive T vs (d + 1) fl"
    "containsSensitive T (RMap kvs) d fl = entry_sensitive T kvs (d + 1) fl"
    "containsSensitive T (RRec ps) d fl = field_sensitive T ps (d + 1) fl"
    "containsSensitive T (RInst n None us) d fl = any_sensitive T us (d + 1) fl"
    "containsSensitive T (RInst n (Some j) us) d fl =
       (case containsSensitive T j (d + 1) fl of
          (found, fl) \<Rightarrow> if found then (True, fl) else any_sensitive T us (d + 1) fl)"
  using assms by (subst containsSensitive.simps, simp)+

lemma inspect_deep: "d > maxDepth T \<Longrightarrow> containsSensitive T v d fl = (False, too_deep T fl)"
  by (subst containsSensitive.simps) simp

definition deepened :: "redaction_flags \<Rightarrow> redaction_flags \<Rightarrow> bool" where
  "deepened fl fl' \<longleftrightarrow> fl' = fl \<or> fl' = fl\<lparr>depthExceeded := True\<rparr>"

lemma deepened_simps [simp]: "deepened fl fl" "deepened fl (too_deep T fl)"
  by (simp_all add: deepened_def too_deep_def)

lemma deepened_trans: "deepened a b \<Longrightarrow> deepened b c \<Longrightarrow> deepened a c"
  by (auto simp: deepened_def)

lemma deepened_depth: "deepened a b \<Longrightarrow> \<not> depthExceeded b \<Longrightarrow> \<not> depthExceeded a"
  by (auto simp: deepened_def)

lemma inspection:
  "containsSensitive T v d fl = (b, fl') \<Longrightarrow> deepened fl fl' \<and>
     (\<not> b \<and> denyDepthExceeded T \<and> \<not> depthExceeded fl' \<longrightarrow> intact (transformString T) v)"
  "any_sensitive T vs d fl = (b, fl') \<Longrightarrow> deepened fl fl' \<and>
     (\<not> b \<and> denyDepthExceeded T \<and> \<not> depthExceeded fl' \<longrightarrow> (\<forall>v \<in> set vs. intact (transformString T) v))"
  "entry_sensitive T kvs d fl = (b, fl') \<Longrightarrow> deepened fl fl' \<and>
     (\<not> b \<and> denyDepthExceeded T \<and> \<not> depthExceeded fl' \<longrightarrow>
        (\<forall>(k, v) \<in> set kvs. intact (transformString T) k \<and> intact (transformString T) v))"
  "field_sensitive T ps d fl = (b, fl') \<Longrightarrow> deepened fl fl' \<and>
     (\<not> b \<and> denyDepthExceeded T \<and> \<not> depthExceeded fl' \<longrightarrow> (\<forall>(k, v) \<in> set ps. intact (transformString T) v))"
proof (induction T v d fl and T vs d fl and T kvs d fl and T ps d fl arbitrary: b fl' and b fl' and b fl' and b fl'
    rule: containsSensitive_any_sensitive_entry_sensitive_field_sensitive.induct)
  case (1 T v d fl)
  show ?case
  proof (cases "d > maxDepth T")
    case True
    with "1.prems" show ?thesis by (auto simp: inspect_deep too_deep_def deepened_def)
  next
    case False
    show ?thesis
    proof (cases v)
      case (RMap kvs)
      with "1.prems" False have "entry_sensitive T kvs (d + 1) fl = (b, fl')" by (simp add: inspect_simps)
      with "1.IH"(2) [OF False RMap this] RMap show ?thesis by (auto intro: intact.intros(6))
    next
      case (RRec ps)
      with "1.prems" False have "field_sensitive T ps (d + 1) fl = (b, fl')" by (simp add: inspect_simps)
      with "1.IH"(4) [OF False RRec this] RRec show ?thesis by (auto intro: intact.intros(7))
    next
      case (RInst n j ps)
      show ?thesis
      proof (cases j)
        case (Some j')
        obtain b1 fl1 where first: "containsSensitive T j' (d + 1) fl = (b1, fl1)" by fastforce
        note IH1 = "1.IH"(6) [OF False RInst Some first]
        show ?thesis
        proof (cases b1)
          case True
          with "1.prems" False RInst Some first IH1 show ?thesis by (simp add: inspect_simps)
        next
          case F: False
          with "1.prems" False RInst Some first have "any_sensitive T ps (d + 1) fl1 = (b, fl')"
            by (simp add: inspect_simps)
          with "1.IH"(7) [OF False RInst Some first [symmetric] F this] IH1 F RInst Some show ?thesis
            by (auto intro: intact.intros deepened_trans simp: deepened_def)
        qed
      next
        case None
        with "1.prems" "1.IH"(5) [OF False RInst] False RInst show ?thesis
          by (auto simp: inspect_simps intro: intact.intros)
      qed
    qed (use "1.prems" "1.IH"(1-4) False in \<open>auto simp: inspect_simps intro!: intact.intros\<close>)
  qed
next
  case (3 T v vs d fl)
  obtain b1 fl1 where first: "containsSensitive T v d fl = (b1, fl1)" by fastforce
  show ?case
  proof (cases b1)
    case True
    with "3.prems" first "3.IH"(1) [OF first] show ?thesis by auto
  next
    case False
    with "3.prems" first have rest: "any_sensitive T vs d fl1 = (b, fl')" by simp
    from "3.IH"(1) [OF first] "3.IH"(2) [OF first [symmetric] False rest] False show ?thesis
      by (auto intro: deepened_trans dest: deepened_depth)
  qed
next
  case (5 T k v kvs d fl)
  obtain b1 fl1 where key: "containsSensitive T k d fl = (b1, fl1)" by fastforce
  obtain b2 fl2 where val: "containsSensitive T v d fl1 = (b2, fl2)" by fastforce
  consider "b1" | "\<not> b1" "b2" | "\<not> b1" "\<not> b2" by blast
  then show ?case
  proof cases
    case 1
    with "5.prems" key "5.IH"(1) [OF key] show ?thesis by auto
  next
    case 2
    with "5.prems" key val "5.IH"(1) [OF key] "5.IH"(2) [OF key [symmetric] 2(1) val] show ?thesis
      by (auto intro: deepened_trans)
  next
    case 3
    with "5.prems" key val have rest: "entry_sensitive T kvs d fl2 = (b, fl')" by simp
    from "5.IH"(1) [OF key] "5.IH"(2) [OF key [symmetric] 3(1) val]
      "5.IH"(3) [OF key [symmetric] 3(1) val [symmetric] 3(2) rest] 3 show ?thesis
      by (auto intro: deepened_trans dest: deepened_depth)
  qed
next
  case (7 T k v ps d fl)
  obtain b1 fl1 where first: "containsSensitive T v d fl = (b1, fl1)" by fastforce
  show ?case
  proof (cases b1)
    case True
    with "7.prems" first "7.IH"(1) [OF first] show ?thesis by auto
  next
    case False
    with "7.prems" first have rest: "field_sensitive T ps d fl1 = (b, fl')" by simp
    from "7.IH"(1) [OF first] "7.IH"(2) [OF first [symmetric] False rest] False show ?thesis
      by (auto intro: deepened_trans dest: deepened_depth)
  qed
qed simp_all

section \<open>What the traversal returns\<close>

text \<open>
  The cases of one step of the walk within the depth.
\<close>

lemma walk_simps:
  assumes "\<not> d > maxDepth T"
  shows "walk T (RStr s) d fl = (case redact_text T s fl of (t, fl) \<Rightarrow> (RStr t, fl))"
    "walk T (RAtom a) d fl = (RAtom a, fl)"
    "walk T (ROpaque n) d fl = (ROpaque n, fl)"
    "walk T (RArr vs) d fl = (case walk_items T vs (d + 1) [] fl of (ws, fl) \<Rightarrow> (RArr ws, fl))"
    "walk T (RMap kvs) d fl = (case walk_entries T kvs (d + 1) [] fl of (ws, fl) \<Rightarrow> (RMap ws, fl))"
    "walk T (RSet vs) d fl = (case walk_members T vs (d + 1) [] fl of (ws, fl) \<Rightarrow> (RSet ws, fl))"
    "walk T (RRec ps) d fl = (case walk_fields T ps (d + 1) [] fl of (ws, fl) \<Rightarrow> (RRec ws, fl))"
    "walk T (RInst n j us) d fl =
       (case containsSensitive T (RInst n j us) d fl of
          (found, fl) \<Rightarrow> (RInst n j us, if found then fl\<lparr>unredactable := True\<rparr> else fl))"
  using assms by (subst walk.simps, simp)+

lemma walk_deep: "d > maxDepth T \<Longrightarrow> walk T v d fl = (v, too_deep T fl)"
  by (subst walk.simps) simp

text \<open>
  Unless it reports a modification or a collision the walk returns the value it was given.
\<close>

definition unchanged :: "redaction_flags \<Rightarrow> bool" where
  "unchanged fl \<longleftrightarrow> \<not> modified fl \<and> \<not> keyCollision fl"

lemma unchanged_simps [simp]:
  "unchanged (too_deep T fl) = unchanged fl" "unchanged (fl\<lparr>unredactable := b\<rparr>) = unchanged fl"
  "unchanged (fl\<lparr>depthExceeded := b\<rparr>) = unchanged fl" "\<not> unchanged (fl\<lparr>modified := True\<rparr>)"
  "unchanged (collides c fl) = (\<not> c \<and> unchanged fl)"
  by (simp_all add: unchanged_def too_deep_def collides_def)

lemma inspection_unchanged: "containsSensitive T v d fl = (b, fl') \<Longrightarrow> unchanged fl' = unchanged fl"
  using inspection(1) [of T v d fl b fl'] by (auto simp: deepened_def)

lemma redact_text_unchanged:
  "redact_text T s fl = (t, fl') \<Longrightarrow> unchanged fl' \<Longrightarrow> t = s \<and> unchanged fl"
  by (auto simp: redact_text_def split: if_splits)

lemma redact_key_unchanged:
  "redact_key T k d fl = (k', fl') \<Longrightarrow> unchanged fl' \<Longrightarrow> k' = k \<and> unchanged fl"
  by (cases k)
     (auto simp: redact_key_def split: prod.splits if_splits
        dest!: redact_text_unchanged dest: inspection_unchanged)

lemma map_put_new: "\<not> has_member k (map fst acc) \<Longrightarrow> map_put k v acc = acc @ [(k, v)]"
  by (induction acc) (auto simp: has_member_def)

lemma walk_unchanged:
  "walk T v d fl = (w, fl') \<Longrightarrow> unchanged fl' \<Longrightarrow> w = v \<and> unchanged fl"
  "walk_items T vs d acc fl = (ws, fl') \<Longrightarrow> unchanged fl' \<Longrightarrow> ws = acc @ vs \<and> unchanged fl"
  "walk_entries T kvs d macc fl = (es, fl') \<Longrightarrow> unchanged fl' \<Longrightarrow> es = macc @ kvs \<and> unchanged fl"
  "walk_members T vs d acc fl = (ws, fl') \<Longrightarrow> unchanged fl' \<Longrightarrow> ws = acc @ vs \<and> unchanged fl"
  "walk_fields T ps d pacc fl = (us, fl') \<Longrightarrow> unchanged fl' \<Longrightarrow> us = pacc @ ps \<and> unchanged fl"
proof (induction T v d fl and T vs d acc fl and T kvs d macc fl and T vs d acc fl and T ps d pacc fl
    arbitrary: w fl' and ws fl' and es fl' and ws fl' and us fl'
    rule: walk_walk_items_walk_entries_walk_members_walk_fields.induct)
  case (1 T v d fl)
  show ?case
  proof (cases "d > maxDepth T")
    case True
    with "1.prems" show ?thesis by (auto simp: walk_deep)
  next
    case False
    show ?thesis
      using "1.prems" "1.IH" False
      by (cases v) (auto simp: walk_simps split: prod.splits if_splits
            dest!: redact_text_unchanged dest: inspection_unchanged)
  qed
next
  case (5 T k v kvs d acc fl)
  obtain k' fl1 where key: "redact_key T k d fl = (k', fl1)" by fastforce
  let ?fl = "collides (has_member k' (map fst acc)) fl1"
  obtain w fl2 where val: "walk T v d ?fl = (w, fl2)" by fastforce
  from "5.prems" key val have rest: "walk_entries T kvs d (map_put k' w acc) fl2 = (es, fl')" by simp
  from "5.IH"(2) [OF key [symmetric] val [symmetric] rest "5.prems"(2)]
  have es: "es = map_put k' w acc @ kvs" "unchanged fl2" by auto
  from "5.IH"(1) [OF key [symmetric] val es(2)] have "w = v" "\<not> has_member k' (map fst acc)" "unchanged fl1" by auto
  with redact_key_unchanged [OF key] es(1) show ?case by (simp add: map_put_new)
next
  case (7 T v vs d acc fl)
  obtain w fl1 where val: "walk T v d fl = (w, fl1)" by fastforce
  with "7.prems" have rest: "walk_members T vs d (set_add w acc) (collides (has_member w acc) fl1) = (ws, fl')" by simp
  from "7.IH"(2) [OF val [symmetric] rest "7.prems"(2)] "7.IH"(1) [OF val] show ?case
    by (auto simp: set_add_def)
next
  case (9 T k v ps d acc fl)
  show ?case
  proof (cases "skipForbiddenKeys T \<and> k \<in> FORBIDDEN_KEYS")
    case True
    with "9.prems" "9.IH"(1) [OF True] show ?thesis by simp
  next
    case keep: False
    show ?thesis
    proof (cases "handleKey T k v")
      case None
      obtain w fl1 where val: "walk T v d fl = (w, fl1)" by fastforce
      with "9.prems" keep None have rest: "walk_fields T ps d (acc @ [(k, w)]) fl1 = (us, fl')"
        by (simp del: de_Morgan_conj)
      from "9.IH"(3) [OF keep None val [symmetric] rest "9.prems"(2)] "9.IH"(2) [OF keep None val]
      show ?thesis by simp
    next
      case (Some w)
      with "9.prems" keep have "walk_fields T ps d (acc @ [(k, w)]) (if w \<noteq> v then fl\<lparr>modified := True\<rparr> else fl) = (us, fl')"
        by (simp del: de_Morgan_conj)
      from "9.IH"(4) [OF keep Some this "9.prems"(2)] show ?thesis by (simp split: if_splits)
    qed
  qed
qed (auto split: prod.splits)

section \<open>What the personal-data rail lets through\<close>

text \<open>
  A value and its redaction, without depths, flags and accumulators: strings are replaced wherever they
  stand, also as keys of a \<open>Map\<close>, a field with a sensitive key becomes the placeholder, fields whose key
  could reach a prototype are left out, everything else keeps its place; what cannot be rewritten is kept
  and holds only strings the replacement leaves alone.
\<close>

inductive redacts :: "string set \<Rightarrow> string \<Rightarrow> (string \<Rightarrow> string) \<Rightarrow> rv \<Rightarrow> rv \<Rightarrow> bool" for S placeholder f where
  "redacts S placeholder f (RStr s) (RStr (f s))"
| "redacts S placeholder f (RAtom a) (RAtom a)"
| "redacts S placeholder f (ROpaque n) (ROpaque n)"
| "list_all2 (redacts S placeholder f) vs ws \<Longrightarrow> redacts S placeholder f (RArr vs) (RArr ws)"
| "list_all2 (redacts S placeholder f) vs ws \<Longrightarrow> redacts S placeholder f (RSet vs) (RSet ws)"
| "list_all2 (\<lambda>e e'. ((\<exists>s. fst e = RStr s \<and> fst e' = RStr (f s)) \<or>
        ((\<forall>s. fst e \<noteq> RStr s) \<and> fst e' = fst e \<and> intact f (fst e))) \<and>
      redacts S placeholder f (snd e) (snd e')) kvs es \<Longrightarrow>
   redacts S placeholder f (RMap kvs) (RMap es)"
| "list_all2 (\<lambda>p q. fst q = fst p \<and>
        ((fst p \<in> S \<and> snd q = RStr placeholder) \<or> (fst p \<notin> S \<and> redacts S placeholder f (snd p) (snd q))))
      (filter (\<lambda>p. fst p \<notin> FORBIDDEN_KEYS) ps) qs \<Longrightarrow>
   redacts S placeholder f (RRec ps) (RRec qs)"
| "intact f (RInst n j us) \<Longrightarrow> redacts S placeholder f (RInst n j us) (RInst n j us)"

abbreviation key_redacted :: "(string \<Rightarrow> string) \<Rightarrow> rv \<Rightarrow> rv \<Rightarrow> bool" where
  "key_redacted f k k' \<equiv> (\<exists>s. k = RStr s \<and> k' = RStr (f s)) \<or> ((\<forall>s. k \<noteq> RStr s) \<and> k' = k \<and> intact f k)"

abbreviation entry_redacted ::
    "string set \<Rightarrow> string \<Rightarrow> (string \<Rightarrow> string) \<Rightarrow> rv \<times> rv \<Rightarrow> rv \<times> rv \<Rightarrow> bool" where
  "entry_redacted S placeholder f e e' \<equiv>
     key_redacted f (fst e) (fst e') \<and> redacts S placeholder f (snd e) (snd e')"

abbreviation field_redacted ::
    "string set \<Rightarrow> string \<Rightarrow> (string \<Rightarrow> string) \<Rightarrow> string \<times> rv \<Rightarrow> string \<times> rv \<Rightarrow> bool" where
  "field_redacted S placeholder f p q \<equiv> fst q = fst p \<and>
     ((fst p \<in> S \<and> snd q = RStr placeholder) \<or> (fst p \<notin> S \<and> redacts S placeholder f (snd p) (snd q)))"

text \<open>
  Every string of a value, keys of a \<open>Map\<close> included, has the property \<open>P\<close>, every field with a sensitive
  key holds the placeholder, no forbidden key is left, and what is not rewritten holds only strings the
  replacement leaves alone.
\<close>

inductive covered :: "string set \<Rightarrow> string \<Rightarrow> (string \<Rightarrow> string) \<Rightarrow> (string \<Rightarrow> bool) \<Rightarrow> rv \<Rightarrow> bool"
    for S placeholder f P where
  "P t \<Longrightarrow> covered S placeholder f P (RStr t)"
| "covered S placeholder f P (RAtom a)"
| "covered S placeholder f P (ROpaque n)"
| "\<forall>v \<in> set vs. covered S placeholder f P v \<Longrightarrow> covered S placeholder f P (RArr vs)"
| "\<forall>v \<in> set vs. covered S placeholder f P v \<Longrightarrow> covered S placeholder f P (RSet vs)"
| "\<forall>(k, v) \<in> set kvs. (case k of RStr t \<Rightarrow> P t | _ \<Rightarrow> intact f k) \<and> covered S placeholder f P v \<Longrightarrow>
   covered S placeholder f P (RMap kvs)"
| "\<forall>(k, v) \<in> set ps. k \<notin> FORBIDDEN_KEYS \<and>
     (k \<in> S \<and> v = RStr placeholder \<or> k \<notin> S \<and> covered S placeholder f P v) \<Longrightarrow>
   covered S placeholder f P (RRec ps)"
| "intact f (RInst n j us) \<Longrightarrow> covered S placeholder f P (RInst n j us)"

lemma all2_right: "list_all2 R xs ys \<Longrightarrow> \<forall>y \<in> set ys. \<exists>x \<in> set xs. R x y"
  by (induction rule: list_all2_induct) auto

lemma redacts_covers:
  assumes "redacts S ph f v w" "\<And>s. P (f s)"
  shows "covered S ph f P w"
  using assms(1)
proof induction
  case (6 kvs es)
  then have "\<forall>e \<in> set es. (case fst e of RStr t \<Rightarrow> P t | _ \<Rightarrow> intact f (fst e)) \<and> covered S ph f P (snd e)"
    by (auto dest!: all2_right dest!: bspec simp: assms(2) split: rv.splits)
  then show ?case by (intro covered.intros(6)) (simp add: case_prod_unfold)
next
  case (7 ps qs)
  then have "\<forall>q \<in> set qs. fst q \<notin> FORBIDDEN_KEYS \<and>
      (fst q \<in> S \<and> snd q = RStr ph \<or> fst q \<notin> S \<and> covered S ph f P (snd q))"
    by (auto dest!: all2_right dest!: bspec)
  then show ?case by (intro covered.intros(7)) auto
qed (auto intro!: covered.intros assms(2) dest!: all2_right)

lemma redacts_itself:
  assumes "redacts S ph f v w"
  shows "w = v \<Longrightarrow> covered S ph f (\<lambda>t. f t = t) v"
  using assms
proof induction
  case (6 kvs es)
  then have "\<forall>e \<in> set kvs. (case fst e of RStr t \<Rightarrow> f t = t | _ \<Rightarrow> intact f (fst e)) \<and>
      covered S ph f (\<lambda>t. f t = t) (snd e)"
    by (auto simp: list_all2_same split: rv.splits)
  then show ?case by (intro covered.intros(6)) (simp add: case_prod_unfold)
next
  case (7 ps qs)
  from 7(2) have "qs = ps" by simp
  with 7(1) have kept: "filter (\<lambda>p. fst p \<notin> FORBIDDEN_KEYS) ps = ps"
    by (metis (no_types, lifting) filter_id_conv length_filter_less list_all2_lengthD nat_neq_iff)
  with 7 \<open>qs = ps\<close> have "\<forall>q \<in> set ps. fst q \<notin> FORBIDDEN_KEYS \<and>
      (fst q \<in> S \<and> snd q = RStr ph \<or> fst q \<notin> S \<and> covered S ph f (\<lambda>t. f t = t) (snd q))"
    by (auto simp: list_all2_same filter_id_conv)
  then show ?case by (intro covered.intros(7)) auto
qed (auto intro!: covered.intros simp: list_all2_same)

text \<open>The flags of a walk whose result is passed on.\<close>

definition calm :: "redaction_flags \<Rightarrow> bool" where
  "calm fl \<longleftrightarrow> \<not> depthExceeded fl \<and> \<not> unredactable fl \<and> \<not> keyCollision fl"

lemma calm_simps [simp]:
  "calm (collides c fl) = (\<not> c \<and> calm fl)" "calm (fl\<lparr>modified := b\<rparr>) = calm fl"
  by (auto simp: calm_def collides_def)

lemma redact_text_calm: "redact_text T s fl = (t, fl') \<Longrightarrow> t = transformString T s \<and> calm fl' = calm fl"
  by (auto simp: redact_text_def split: if_splits)

lemma inspection_calm:
  assumes "containsSensitive T v d fl = (found, fl1)" "denyDepthExceeded T"
    and "calm (if found then fl1\<lparr>unredactable := True\<rparr> else fl1)"
  shows "calm fl \<and> intact (transformString T) v"
  using inspection(1) [OF assms(1)] assms(2,3) by (auto simp: calm_def deepened_def split: if_splits)

lemma redact_key_calm:
  assumes "redact_key T k d fl = (k', fl')" "denyDepthExceeded T" "calm fl'"
  shows "calm fl \<and> key_redacted (transformString T) k k'"
proof (cases "\<exists>s. k = RStr s")
  case True
  with assms show ?thesis by (auto simp: redact_key_def dest!: redact_text_calm split: prod.splits)
next
  case False
  obtain found fl1 where f: "containsSensitive T k d fl = (found, fl1)" by fastforce
  from False f assms(1) have "k' = k" "fl' = (if found then fl1\<lparr>unredactable := True\<rparr> else fl1)"
    by (auto simp: redact_key_def split: rv.splits)
  with inspection_calm [OF f assms(2)] assms(3) False show ?thesis by auto
qed

lemma walk_redacts:
  fixes dp f S ph
  defines "T0 \<equiv> pii_traversal dp f S ph"
  shows
  "walk T v d fl = (w, fl') \<Longrightarrow> T = T0 \<Longrightarrow> calm fl' \<Longrightarrow> redacts S ph f v w \<and> calm fl"
  "walk_items T vs d acc fl = (ws, fl') \<Longrightarrow> T = T0 \<Longrightarrow> calm fl' \<Longrightarrow>
     (\<exists>us. ws = acc @ us \<and> list_all2 (redacts S ph f) vs us) \<and> calm fl"
  "walk_entries T kvs d macc fl = (es, fl') \<Longrightarrow> T = T0 \<Longrightarrow> calm fl' \<Longrightarrow>
     (\<exists>us. es = macc @ us \<and> list_all2 (entry_redacted S ph f) kvs us) \<and> calm fl"
  "walk_members T vs d acc fl = (ws, fl') \<Longrightarrow> T = T0 \<Longrightarrow> calm fl' \<Longrightarrow>
     (\<exists>us. ws = acc @ us \<and> list_all2 (redacts S ph f) vs us) \<and> calm fl"
  "walk_fields T ps d pacc fl = (qs, fl') \<Longrightarrow> T = T0 \<Longrightarrow> calm fl' \<Longrightarrow>
     (\<exists>us. qs = pacc @ us \<and> list_all2 (field_redacted S ph f) (filter (\<lambda>p. fst p \<notin> FORBIDDEN_KEYS) ps) us) \<and> calm fl"
proof (induction T v d fl and T vs d acc fl and T kvs d macc fl and T vs d acc fl and T ps d pacc fl
    arbitrary: w fl' and ws fl' and es fl' and ws fl' and qs fl'
    rule: walk_walk_items_walk_entries_walk_members_walk_fields.induct)
  case (1 T v d fl)
  have T: "transformString T = f" "denyDepthExceeded T" using "1.prems"(2) by (simp_all add: T0_def pii_traversal_def)
  show ?case
  proof (cases "d > maxDepth T")
    case True
    with "1.prems" T show ?thesis by (auto simp: walk_deep too_deep_def calm_def)
  next
    case False
    show ?thesis
    proof (cases v)
      case (RInst n j us)
      obtain found fl1 where "containsSensitive T v d fl = (found, fl1)" by fastforce
      with "1.prems" False RInst inspection_calm [OF this T(2)] T(1) show ?thesis
        by (auto simp: walk_simps intro: redacts.intros)
    next
      case (RStr s)
      with "1.prems" False T show ?thesis
        by (auto simp: walk_simps split: prod.splits dest!: redact_text_calm intro: redacts.intros)
    next
      case (RMap kvs)
      obtain es fl1 where "walk_entries T kvs (d + 1) [] fl = (es, fl1)" by fastforce
      with "1.IH"(2) [OF False RMap this "1.prems"(2)] "1.prems" False RMap show ?thesis
        by (auto simp: walk_simps intro: redacts.intros(6))
    next
      case (RRec ps)
      obtain us fl1 where "walk_fields T ps (d + 1) [] fl = (us, fl1)" by fastforce
      with "1.IH"(4) [OF False RRec this "1.prems"(2)] "1.prems" False RRec show ?thesis
        by (auto simp: walk_simps intro: redacts.intros(7))
    next
      case (RArr vs)
      obtain ws fl1 where "walk_items T vs (d + 1) [] fl = (ws, fl1)" by fastforce
      with "1.IH"(1) [OF False RArr this "1.prems"(2)] "1.prems" False RArr show ?thesis
        by (auto simp: walk_simps intro: redacts.intros)
    next
      case (RSet vs)
      obtain ws fl1 where "walk_members T vs (d + 1) [] fl = (ws, fl1)" by fastforce
      with "1.IH"(3) [OF False RSet this "1.prems"(2)] "1.prems" False RSet show ?thesis
        by (auto simp: walk_simps intro: redacts.intros)
    qed (use "1.prems" False in \<open>auto simp: walk_simps intro: redacts.intros\<close>)
  qed
next
  case (3 T v vs d acc fl)
  obtain w fl1 where val: "walk T v d fl = (w, fl1)" by fastforce
  with "3.prems" have rest: "walk_items T vs d (acc @ [w]) fl1 = (ws, fl')" by simp
  note IH = "3.IH"(2) [OF val [symmetric] rest "3.prems"(2,3)]
  then obtain us where us: "ws = acc @ w # us" "list_all2 (redacts S ph f) vs us" by auto
  from "3.IH"(1) [OF val "3.prems"(2)] IH have "redacts S ph f v w" "calm fl" by simp_all
  with us show ?case by (intro conjI exI [of _ "w # us"]) simp_all
next
  case (5 T k v kvs d acc fl)
  have T: "transformString T = f" "denyDepthExceeded T" using "5.prems"(2) by (simp_all add: T0_def pii_traversal_def)
  obtain k' fl1 where key: "redact_key T k d fl = (k', fl1)" by fastforce
  let ?fl = "collides (has_member k' (map fst acc)) fl1"
  obtain w fl2 where val: "walk T v d ?fl = (w, fl2)" by fastforce
  from "5.prems" key val have rest: "walk_entries T kvs d (map_put k' w acc) fl2 = (es, fl')" by simp
  note IH = "5.IH"(2) [OF key [symmetric] val [symmetric] rest "5.prems"(2,3)]
  then have w: "redacts S ph f v w" "calm fl1" "\<not> has_member k' (map fst acc)"
    using "5.IH"(1) [OF key [symmetric] val "5.prems"(2)] by auto
  from IH w(3) obtain us where us: "es = acc @ (k', w) # us" "list_all2 (entry_redacted S ph f) kvs us"
    by (auto simp: map_put_new)
  from redact_key_calm [OF key T(2) w(2)] T(1) have k': "calm fl" "key_redacted f k k'" by auto
  have "list_all2 (entry_redacted S ph f) ((k, v) # kvs) ((k', w) # us)" using us(2) w(1) k'(2) by simp
  with us(1) k'(1) show ?case by blast
next
  case (7 T v vs d acc fl)
  obtain w fl1 where val: "walk T v d fl = (w, fl1)" by fastforce
  with "7.prems" have rest: "walk_members T vs d (set_add w acc) (collides (has_member w acc) fl1) = (ws, fl')" by simp
  note IH = "7.IH"(2) [OF val [symmetric] rest "7.prems"(2,3)]
  then have new: "calm fl1" "\<not> has_member w acc" by simp_all
  with IH obtain us where us: "ws = acc @ w # us" "list_all2 (redacts S ph f) vs us" by (auto simp: set_add_def)
  from "7.IH"(1) [OF val "7.prems"(2) new(1)] have "redacts S ph f v w" "calm fl" by simp_all
  with us show ?case by (intro conjI exI [of _ "w # us"]) simp_all
next
  case (9 T k v ps d acc fl)
  have T: "handleKey T k v = (if k \<in> S then Some (RStr ph) else None)" "skipForbiddenKeys T"
    using "9.prems"(2) by (simp_all add: T0_def pii_traversal_def)
  show ?case
  proof (cases "skipForbiddenKeys T \<and> k \<in> FORBIDDEN_KEYS")
    case True
    with "9.prems" "9.IH"(1) [OF True] show ?thesis by simp
  next
    case keep: False
    then have allowed: "k \<notin> FORBIDDEN_KEYS" using T(2) by simp
    have extend: ?thesis if "(\<exists>us. qs = (acc @ [(k, w)]) @ us \<and> list_all2 (field_redacted S ph f) (filter (\<lambda>p. fst p \<notin> FORBIDDEN_KEYS) ps) us)"
      "field_redacted S ph f (k, v) (k, w)" "calm fl" for w
      using that allowed by auto
    show ?thesis
    proof (cases "handleKey T k v")
      case None
      obtain w fl1 where val: "walk T v d fl = (w, fl1)" by fastforce
      with "9.prems" keep None have rest: "walk_fields T ps d (acc @ [(k, w)]) fl1 = (qs, fl')"
        by (simp del: de_Morgan_conj)
      note IH = "9.IH"(3) [OF keep None val [symmetric] rest "9.prems"(2,3)]
      then have "redacts S ph f v w" "calm fl" using "9.IH"(2) [OF keep None val "9.prems"(2)] by simp_all
      with IH None T(1) show ?thesis by (intro extend [of w]) (auto split: if_splits)
    next
      case (Some w)
      with "9.prems" keep have "walk_fields T ps d (acc @ [(k, w)]) (if w \<noteq> v then fl\<lparr>modified := True\<rparr> else fl) = (qs, fl')"
        by (simp del: de_Morgan_conj)
      from "9.IH"(4) [OF keep Some this "9.prems"(2,3)] Some T(1) show ?thesis
        by (intro extend [of w]) (auto split: if_splits)
    qed
  qed
qed auto

text \<open>
  C26: the personal-data rail passes on the redaction of the tool's output and nothing else. When it lets
  an output through, rewritten or as it is, what the caller gets is the output with every string replaced
  by its redaction, the placeholder in every field with a sensitive key, the fields whose key could reach
  a prototype left out, and class instances only when the redaction would leave all their strings alone;
  output that is too deep to inspect never passes. So in an output passed on as it is every string is one
  the redaction leaves alone, and in a rewritten one every string is a result of the redaction, hence also
  left alone by it when redacting twice is redacting once.
\<close>

theorem pii_rail_covers_output:
  assumes "pii_evaluateOutput num dp redactString S ph v = r"
    and "r = RailAllow \<and> w = v \<or> r = RailSanitize w"
  shows "redacts S ph redactString v w \<and>
    covered S ph redactString (\<lambda>t. \<exists>s. t = redactString s) w \<and>
    (r = RailAllow \<or> (\<forall>s. redactString (redactString s) = redactString s) \<longrightarrow>
      covered S ph redactString (\<lambda>t. redactString t = t) w)"
proof -
  obtain w' fl where run: "walk (pii_traversal dp redactString S ph) v 0 no_flags = (w', fl)" by fastforce
  from walk_redacts(1) [OF this refl] have red: "calm fl \<longrightarrow> redacts S ph redactString v w'" by blast
  from walk_unchanged(1) [OF run] have same: "unchanged fl \<longrightarrow> w' = v" by blast
  have "redacts S ph redactString v w"
  proof (cases "is_missing v")
    case True
    with assms show ?thesis by (auto simp: pii_evaluateOutput_def is_missing_def intro: redacts.intros)
  next
    case False
    with assms run red same show ?thesis
      by (auto simp: pii_evaluateOutput_def traverseAndRedact_def calm_def unchanged_def split: if_splits)
  qed
  note red = this
  from red have "covered S ph redactString (\<lambda>t. \<exists>s. t = redactString s) w" by (rule redacts_covers) blast
  moreover from redacts_itself [OF red] assms(2) have "r = RailAllow \<longrightarrow> covered S ph redactString (\<lambda>t. redactString t = t) w"
    by auto
  ultimately show ?thesis using red redacts_covers [OF red, of "\<lambda>t. redactString t = t"] by blast
qed

definition hide_mail :: "string \<Rightarrow> string" where
  "hide_mail s = (if CHR ''@'' \<in> set s then ''[REDACTED_EMAIL]'' else s)"

lemma hide_mail_twice: "hide_mail (hide_mail s) = hide_mail s"
  by (simp add: hide_mail_def)

definition customer :: rv where
  "customer = RRec [(''mail'', RStr ''ann@example.org''), (''address'', RRec [(''city'', RStr ''Oslo'')]),
     (''tags'', RArr [RStr ''vip''])]"

lemma customer_redacted:
  "pii_evaluateOutput (\<lambda>_. ''50'') 50 hide_mail {''address''} ''[REDACTED_PII]'' customer =
     RailSanitize (RRec [(''mail'', RStr ''[REDACTED_EMAIL]''), (''address'', RStr ''[REDACTED_PII]''),
       (''tags'', RArr [RStr ''vip''])])"
  by (simp add: pii_evaluateOutput_def customer_def traverseAndRedact_def walk_simps pii_traversal_def is_missing_def
        FORBIDDEN_KEYS_def redact_text_def hide_mail_def no_flags_def)

theorem pii_rail_covers_output_witness:
  "covered {''address''} ''[REDACTED_PII]'' hide_mail (\<lambda>t. hide_mail t = t)
     (RRec [(''mail'', RStr ''[REDACTED_EMAIL]''), (''address'', RStr ''[REDACTED_PII]''), (''tags'', RArr [RStr ''vip''])])"
  using pii_rail_covers_output [OF customer_redacted disjI2 [OF refl]] hide_mail_twice by blast

text \<open>
  A sensitive key is looked at in plain records only: in a class instance the value of the
  field is inspected for patterns and passes when it has none.
\<close>

lemma sensitive_key_of_instance_passes:
  "pii_evaluateOutput num 50 hide_mail {''address''} placeholder (RInst n None [RStr ''Elm Street 1'']) = RailAllow"
  by (simp add: pii_evaluateOutput_def traverseAndRedact_def walk_simps pii_traversal_def is_missing_def
        inspect_simps hide_mail_def no_flags_def)

text \<open>The rail for secrets lets through what lies deeper than it looks.\<close>

lemma deep_secret_passes:
  "secret_evaluateOutput 1 hide_mail {} placeholder (RArr [RArr [RStr ''ann@example.org'']]) = RailAllow"
  by (simp add: secret_evaluateOutput_def traverseAndRedact_def walk_simps walk_deep secret_traversal_def is_missing_def
        too_deep_def no_flags_def)

section \<open>Card numbers\<close>

text \<open>\<open>isValidLuhn\<close>: the loop from the last digit, doubling every other one.\<close>

definition luhn_digit :: "bool \<Rightarrow> char \<Rightarrow> int" where
  "luhn_digit twice c =
     (let n = of_char c - 48 in if twice then (if n * 2 > 9 then n * 2 - 9 else n * 2) else n)"

fun luhn_loop :: "string \<Rightarrow> bool \<Rightarrow> int \<Rightarrow> int" where
  "luhn_loop [] twice acc = acc"
| "luhn_loop (c # cs) twice acc = luhn_loop cs (\<not> twice) (acc + luhn_digit twice c)"

definition isValidLuhn :: "string \<Rightarrow> bool" where
  "isValidLuhn digits \<longleftrightarrow> luhn_loop (rev digits) False 0 mod 10 = 0"

fun luhn_total :: "string \<Rightarrow> bool \<Rightarrow> int" where
  "luhn_total [] twice = 0"
| "luhn_total (c # cs) twice = luhn_digit twice c + luhn_total cs (\<not> twice)"

lemma luhn_loop_total: "luhn_loop cs twice acc = acc + luhn_total cs twice"
  by (induction cs arbitrary: twice acc) auto

lemma luhn_total_append:
  "luhn_total (xs @ ys) twice = luhn_total xs twice + luhn_total ys (if even (length xs) then twice else \<not> twice)"
  by (induction xs arbitrary: twice) auto

lemma digit_code:
  assumes "is_digit c"
  shows "48 \<le> (of_char c :: int)" "(of_char c :: int) \<le> 57"
proof -
  have "(of_char c :: int) = int (of_char c)" by (simp only: of_nat_of_char)
  with assms show "48 \<le> (of_char c :: int)" "(of_char c :: int) \<le> 57" by (simp_all add: is_digit_def Let_def)
qed

lemma luhn_digit_bounds:
  assumes "is_digit c"
  shows "0 \<le> luhn_digit twice c" "luhn_digit twice c \<le> 9"
  using digit_code [OF assms] by (simp_all add: luhn_digit_def Let_def)

lemma luhn_digit_inj:
  assumes "is_digit c" "is_digit d" "luhn_digit twice c = luhn_digit twice d"
  shows "c = d"
proof -
  obtain n m :: int where nm: "n = of_char c - 48" "m = of_char d - 48" by blast
  have "0 \<le> n" "n \<le> 9" "0 \<le> m" "m \<le> 9"
    using digit_code [OF assms(1)] digit_code [OF assms(2)] nm by simp_all
  moreover have "(if twice then (if n * 2 > 9 then n * 2 - 9 else n * 2) else n) =
      (if twice then (if m * 2 > 9 then m * 2 - 9 else m * 2) else m)"
    using assms(3) nm by (simp only: luhn_digit_def Let_def)
  moreover have "2 * n = 2 * m - 9 \<Longrightarrow> False" "2 * n - 9 = 2 * m \<Longrightarrow> False" by presburger+
  ultimately have "n = m" by (simp split: if_splits)
  then have "(of_char c :: int) = of_char d" using nm by simp
  then show ?thesis by (simp add: of_char_eq_iff)
qed

lemma mod_10_digits:
  fixes a b :: int
  assumes "0 \<le> a" "a \<le> 9" "0 \<le> b" "b \<le> 9" "(n + a) mod 10 = 0" "(n + b) mod 10 = 0"
  shows "a = b"
proof -
  from assms(5,6) have "10 dvd (n + a) - (n + b)" by (intro dvd_diff) (simp_all add: dvd_eq_mod_eq_0)
  then obtain k where "a - b = 10 * k" by auto
  with assms(1-4) show ?thesis by arith
qed

text \<open>
  The checksum that narrows card-number candidates recognises every misread digit: if a
  number is valid and exactly one of its digits is replaced by another, the result is not.
\<close>

theorem luhn_detects_misread_digit:
  assumes "isValidLuhn (xs @ a # ys)" "is_digit a" "is_digit b" "a \<noteq> b"
  shows "\<not> isValidLuhn (xs @ b # ys)"
proof
  let ?tw = "odd (length ys)"
  let ?n = "luhn_total (rev ys) False + luhn_total (rev xs) (\<not> ?tw)"
  have total: "luhn_loop (rev (xs @ c # ys)) False 0 = ?n + luhn_digit ?tw c" for c
    by (simp add: luhn_loop_total luhn_total_append)
  assume "isValidLuhn (xs @ b # ys)"
  with assms(1) have "(?n + luhn_digit ?tw a) mod 10 = 0" "(?n + luhn_digit ?tw b) mod 10 = 0"
    by (simp_all only: isValidLuhn_def total)
  from mod_10_digits [OF luhn_digit_bounds [OF assms(2)] luhn_digit_bounds [OF assms(3)] this]
  have "luhn_digit ?tw a = luhn_digit ?tw b" .
  from luhn_digit_inj [OF assms(2,3) this] assms(4) show False by contradiction
qed

theorem luhn_detects_misread_digit_witness:
  "isValidLuhn ''4111111111111111'' \<and> \<not> isValidLuhn ''4111111117111111''"
proof
  show valid: "isValidLuhn ''4111111111111111''" by code_simp
  have "is_digit CHR ''1''" "is_digit CHR ''7''" by (simp_all add: is_digit_def)
  with luhn_detects_misread_digit [of "''411111111''" "CHR ''1''" "''111111''" "CHR ''7''"] valid
  show "\<not> isValidLuhn ''4111111117111111''" by simp
qed

end
