(* ===== verification/U_Curve.thy ===== *)
theory U_Curve
  imports Js_Number "HOL-Library.Multiset"
begin

text \<open>
  Prompts in the order of the attention curve: \<open>packages/core/src/utils/u-curve-context.formatter.ts\<close>.
  Scores are finite numbers, so that the comparison of the sort is consistent.
\<close>

section \<open>Sections of a prompt\<close>

datatype UCurvePriority = Critical_primacy | High | Medium_reference | Critical_recency

record UCurvePromptSection =
  us_title :: "string option"
  us_content :: string
  us_priority :: UCurvePriority
  us_order :: "rat option"

record UCurveFormatOptions =
  uf_separator :: "string option"
  uf_renderTitles :: "bool option"
  uf_header :: "string option"
  uf_footer :: "string option"

definition section_order :: "UCurvePromptSection \<Rightarrow> rat" where
  "section_order s = nullish (us_order s) 0"

definition tier :: "UCurvePriority \<Rightarrow> UCurvePromptSection list \<Rightarrow> UCurvePromptSection list" where
  "tier p ss = sort_key section_order (filter (\<lambda>s. us_priority s = p) ss)"

definition ordered_sections :: "UCurvePromptSection list \<Rightarrow> UCurvePromptSection list" where
  "ordered_sections ss =
     (let valid = filter (\<lambda>s. trim (us_content s) \<noteq> []) ss
      in tier Critical_primacy valid @ tier High valid @ tier Medium_reference valid @ tier Critical_recency valid)"

definition render_section :: "bool \<Rightarrow> UCurvePromptSection \<Rightarrow> string" where
  "render_section titles s =
     (case us_title s of
        Some (c # cs) \<Rightarrow> if titles then ''### '' @ trim (c # cs) @ [CHR 0x0A] @ trim (us_content s) else trim (us_content s)
      | _ \<Rightarrow> trim (us_content s))"

fun joined :: "string \<Rightarrow> string list \<Rightarrow> string" where
  "joined sep [] = []"
| "joined sep [s] = s"
| "joined sep (s # t # ss) = s @ sep @ joined sep (t # ss)"

definition border :: "string option \<Rightarrow> string list" where
  "border s = (case s of Some (c # cs) \<Rightarrow> [trim (c # cs)] | _ \<Rightarrow> [])"

definition assemblePrompt :: "UCurvePromptSection list \<Rightarrow> UCurveFormatOptions \<Rightarrow> string" where
  "assemblePrompt ss f =
     (if ss = [] then []
      else joined (nullish (uf_separator f) [CHR 0x0A, CHR 0x0A])
        (border (uf_header f) @ map (render_section (nullish (uf_renderTitles f) True)) (ordered_sections ss) @
         border (uf_footer f)))"

section \<open>Distributing items\<close>

datatype placement = Primacy_first | Recency_first

text \<open>
  The loop over the sorted items: item \<open>i\<close> goes to the next free place on the left or on the right of the
  array.
\<close>

fun place :: "bool \<Rightarrow> 'a list \<Rightarrow> nat \<Rightarrow> nat \<Rightarrow> int \<Rightarrow> 'a option list \<Rightarrow> 'a option list" where
  "place left_first [] i left right res = res"
| "place left_first (x # xs) i left right res =
     (if (i mod 2 = 0) = left_first
      then place left_first xs (i + 1) (left + 1) right (res[left := Some x])
      else place left_first xs (i + 1) left (right - 1) (res[nat right := Some x]))"

definition by_score :: "('a \<Rightarrow> rat) \<Rightarrow> 'a list \<Rightarrow> 'a list" where
  "by_score score items = sort_key (\<lambda>x. - score x) items"

definition reorderToUCurve :: "placement \<Rightarrow> ('a \<Rightarrow> rat) \<Rightarrow> 'a list \<Rightarrow> 'a option list" where
  "reorderToUCurve strategy score items =
     (if length items \<le> 1 then map Some items
      else place (strategy = Primacy_first) (by_score score items) 0 0 (int (length items) - 1)
        (replicate (length items) None))"

section \<open>Reference\<close>

text \<open>The items at the even and at the odd places.\<close>

fun every_other :: "'a list \<Rightarrow> 'a list" where
  "every_other [] = []"
| "every_other [x] = [x]"
| "every_other (x # y # xs) = x # every_other xs"

definition u_shape :: "placement \<Rightarrow> 'a list \<Rightarrow> 'a list" where
  "u_shape strategy xs =
     (case strategy of
        Primacy_first \<Rightarrow> every_other xs @ rev (every_other (tl xs))
      | Recency_first \<Rightarrow> every_other (tl xs) @ rev (every_other xs))"

lemma every_other_Cons: "every_other (x # xs) = x # every_other (tl xs)"
  by (cases xs) auto

lemma place_fills:
  assumes "right = int left + int (length xs) - 1" "length res = left + length xs + k"
  shows "place b xs i left right res =
    take left res @ map Some (if (i mod 2 = 0) = b then every_other xs @ rev (every_other (tl xs))
      else every_other (tl xs) @ rev (every_other xs)) @ drop (left + length xs) res"
  using assms
proof (induction xs arbitrary: i left right res k)
  case Nil
  then show ?case by simp
next
  case (Cons x xs)
  have other: "((i + 1) mod 2 = 0) \<longleftrightarrow> \<not> (i mod 2 = 0)" by presburger
  show ?case
  proof (cases "(i mod 2 = 0) = b")
    case True
    have len: "left < length res" using Cons.prems by simp
    have "place b (x # xs) i left right res = place b xs (i + 1) (left + 1) right (res[left := Some x])"
      using True by simp
    also have "\<dots> = take (left + 1) (res[left := Some x]) @
        map Some (every_other (tl xs) @ rev (every_other xs)) @ drop (left + 1 + length xs) (res[left := Some x])"
      using Cons.IH [of right "left + 1" "res[left := Some x]" k "i + 1"] Cons.prems other True by auto
    also have "take (left + 1) (res[left := Some x]) = take left res @ [Some x]"
      using len by (simp add: take_Suc_conv_app_nth)
    finally show ?thesis using True by (simp add: every_other_Cons)
  next
    case False
    let ?r = "left + length xs"
    have r: "nat right = ?r" "?r < length res" using Cons.prems by simp_all
    have "place b (x # xs) i left right res = place b xs (i + 1) left (right - 1) (res[?r := Some x])"
      using False r by simp
    also have "\<dots> = take left (res[?r := Some x]) @
        map Some (every_other xs @ rev (every_other (tl xs))) @ drop ?r (res[?r := Some x])"
      using Cons.IH [of "right - 1" left "res[?r := Some x]" "k + 1" "i + 1"] Cons.prems other False by auto
    also have "drop ?r (res[?r := Some x]) = Some x # drop (?r + 1) res"
      using r(2) by (simp add: Cons_nth_drop_Suc [symmetric])
    finally show ?thesis using False by (simp add: every_other_Cons)
  qed
qed

lemma reorder_shape: "reorderToUCurve strategy score items = map Some (u_shape strategy (by_score score items))"
proof (cases "length items \<le> 1")
  case True
  then obtain x where "items = [] \<or> items = [x]" by (cases items) auto
  with True show ?thesis by (auto simp: reorderToUCurve_def by_score_def u_shape_def split: placement.splits)
next
  case False
  have "length (by_score score items) = length items" by (simp add: by_score_def)
  with False place_fills [of "int (length items) - 1" 0 "by_score score items" "replicate (length items) None" 0
      "strategy = Primacy_first" 0]
  show ?thesis by (cases strategy) (simp_all add: reorderToUCurve_def u_shape_def)
qed

lemma every_other_mset: "mset (every_other xs) + mset (every_other (tl xs)) = mset xs"
  by (induction xs) (auto simp: every_other_Cons union_commute)

lemma every_other_subset: "set (every_other xs) \<subseteq> set xs"
  by (induction xs rule: every_other.induct) auto

lemma every_other_sorted: "sorted_wrt R xs \<Longrightarrow> sorted_wrt R (every_other xs)"
  using every_other_subset by (induction xs rule: every_other.induct) fastforce+

text \<open>
  the distribution is a permutation with a valley. No item is lost or doubled; the scores fall over the
  first part and rise over the second, and for the primacy strategy the first item, for the recency
  strategy the last, has the highest score.
\<close>

theorem u_curve_valley:
  "\<exists>falling rising. reorderToUCurve strategy score items = map Some (falling @ rising) \<and>
     mset (falling @ rising) = mset items \<and>
     sorted_wrt (\<lambda>a b. score a \<ge> score b) falling \<and> sorted_wrt (\<lambda>a b. score a \<le> score b) rising \<and>
     (items \<noteq> [] \<longrightarrow>
        (let best = (case strategy of Primacy_first \<Rightarrow> hd (falling @ rising) | Recency_first \<Rightarrow> last (falling @ rising))
         in \<forall>a \<in> set items. score a \<le> score best))"
proof -
  let ?xs = "by_score score items"
  have m: "mset ?xs = mset items" by (simp add: by_score_def)
  have "sorted_wrt (\<lambda>a b. - score a \<le> - score b) ?xs"
    unfolding by_score_def by (metis sorted_sort_key sorted_map)
  then have s: "sorted_wrt (\<lambda>a b. score a \<ge> score b) ?xs" by simp
  then have t: "sorted_wrt (\<lambda>a b. score a \<ge> score b) (tl ?xs)" by (cases ?xs) auto
  have falls: "sorted_wrt (\<lambda>a b. score a \<ge> score b) (every_other ?xs)"
    "sorted_wrt (\<lambda>a b. score a \<ge> score b) (every_other (tl ?xs))"
    using s t by (simp_all add: every_other_sorted)
  have rises: "sorted_wrt (\<lambda>a b. score a \<le> score b) (rev (every_other ?xs))"
    "sorted_wrt (\<lambda>a b. score a \<le> score b) (rev (every_other (tl ?xs)))"
    using falls by (simp_all add: sorted_wrt_rev)
  have best: "\<forall>a \<in> set items. score a \<le> score (hd ?xs)" if "items \<noteq> []"
  proof -
    from m have "set items = set ?xs" by (metis set_mset_mset)
    moreover from m that have "?xs \<noteq> []" by auto
    ultimately show ?thesis using s by (cases ?xs) auto
  qed
  have heads: "?xs = x # ys \<Longrightarrow> every_other ?xs = x # every_other (tl ys)" for x ys by (simp add: every_other_Cons)
  have nonempty: "items \<noteq> [] \<Longrightarrow> \<exists>x ys. ?xs = x # ys" using m by (cases ?xs) auto
  show ?thesis
  proof (cases strategy)
    case Primacy_first
    have "items \<noteq> [] \<longrightarrow> (\<forall>a \<in> set items. score a \<le> score (hd (every_other ?xs @ rev (every_other (tl ?xs)))))"
      using best nonempty heads by fastforce
    then show ?thesis
      using falls(1) rises(2) every_other_mset [of ?xs] m Primacy_first
      by (intro exI [of _ "every_other ?xs"] exI [of _ "rev (every_other (tl ?xs))"])
        (simp add: reorder_shape u_shape_def)
  next
    case Recency_first
    have "items \<noteq> [] \<longrightarrow> (\<forall>a \<in> set items. score a \<le> score (last (every_other (tl ?xs) @ rev (every_other ?xs))))"
      using best nonempty heads by fastforce
    then show ?thesis
      using falls(2) rises(1) every_other_mset [of ?xs] m Recency_first
      by (intro exI [of _ "every_other (tl ?xs)"] exI [of _ "rev (every_other ?xs)"])
        (simp add: reorder_shape u_shape_def union_commute)
  qed
qed

lemma u_curve_example:
  "reorderToUCurve Primacy_first (\<lambda>x :: rat. x) [1, 5, 3, 4, 2] = map Some [5, 3, 1, 2, 4]"
  by (simp add: reorder_shape u_shape_def by_score_def)

end
