(* ===== verification/Delegation.thy ===== *)
theory Delegation
  imports Runner_State
begin

text \<open>
  Delegating a task to another agent: \<open>packages/orchestration/src/delegator/sub-agent.delegator.ts\<close>
  and \<open>capability-narrowing.policy.ts\<close>, with the errors of \<open>packages/orchestration/src/errors.ts\<close> and the
  records of \<open>interfaces/orchestration.interface.ts\<close>. The runner that runs the sub-agent is the
  environment's; \<open>child_context\<close> ties it to the context the modelled runner prepares.
\<close>

section \<open>Errors\<close>

datatype capability = Permissions | Roles

fun capability_name :: "capability \<Rightarrow> string" where
  "capability_name Permissions = ''permissions''"
| "capability_name Roles = ''roles''"

datatype budget_kind = Tokens | Duration

datatype orchestration_error =
    MaxDelegationDepthExceeded jsnum jsnum string
  | CapabilityEscalation "string list" "string list" capability
  | CapabilityDenied string string
  | RefinementBudgetExceeded budget_kind int int
  | RefinementLoopAlreadyRunning string string
  | MissingFeedbackProvider string
  | RefinementCheckpointNotFound string
  | RefinementCheckpointVersion nat nat
  | RefinementCheckpointConflict string int int
  | SopPhaseExecution string string string
  | SopGuardFailed string string
  | SopMaxTransitionsExceeded nat nat
  | Raised string

fun orchestration_message :: "(jsnum \<Rightarrow> string) \<Rightarrow> orchestration_error \<Rightarrow> string" where
  "orchestration_message num (MaxDelegationDepthExceeded current maximum agent) =
     ''Max delegation depth exceeded: Delegation to sub-agent '' @ quoted agent @ '' reached depth '' @
     num current @ '' (max allowed: '' @ num maximum @ '').''"
| "orchestration_message num (CapabilityEscalation requested held what) =
     ''Capability escalation forbidden: Sub-agent requested '' @ capability_name what @ '' ['' @
     join '', '' requested @ ''] which are not held by parent context ['' @ join '', '' held @ ''].''"
| "orchestration_message num (CapabilityDenied tool why) =
     ''Capability denied for tool '' @ quoted tool @ '': '' @ why"
| "orchestration_message num (RefinementBudgetExceeded kind current maximum) =
     ''Refinement loop budget exceeded: '' @ (case kind of Tokens \<Rightarrow> ''tokens'' | Duration \<Rightarrow> ''duration'') @
     '' consumption ('' @ string_of_int current @ '') exceeded limit ('' @ string_of_int maximum @ '').''"
| "orchestration_message num (RefinementLoopAlreadyRunning session agent) =
     ''Refinement loop for session '' @ quoted session @ '' and agent '' @ quoted agent @
     '' is currently locked and active in another process.''"
| "orchestration_message num (MissingFeedbackProvider msg) = msg"
| "orchestration_message num (RefinementCheckpointNotFound key) =
     ''Refinement loop checkpoint not found for key: '' @ quoted key @ ''.''"
| "orchestration_message num (RefinementCheckpointVersion found supported) =
     ''Unsupported refinement loop checkpoint schema version: '' @ string_of_nat found @
     '' (expected: '' @ string_of_nat supported @ '').''"
| "orchestration_message num (RefinementCheckpointConflict key attempted existing) =
     ''Refinement checkpoint conflict for '' @ quoted key @ '': Cannot write checkpoint sequence '' @
     string_of_int attempted @ '' when existing sequence is already '' @ string_of_int existing @ ''.''"
| "orchestration_message num (SopPhaseExecution phase agent cause) =
     ''SOP phase '' @ quoted phase @ '' failed: Sub-agent '' @ quoted agent @
     '' exhausted all retries. Cause: '' @ cause"
| "orchestration_message num (SopGuardFailed phase agent) =
     ''SOP phase '' @ quoted phase @ '' guard check failed for agent '' @ quoted agent @
     ''. Workflow halted '' @ [CHR 0xE2, CHR 0x80, CHR 0x94] @ '' requires human review.''"
| "orchestration_message num (SopMaxTransitionsExceeded visited maximum) =
     ''SOP workflow exceeded the maximum allowed phase transitions ('' @ string_of_nat visited @ '' > '' @
     string_of_nat maximum @ ''). Possible cycle detected in phase definitions.''"
| "orchestration_message num (Raised msg) = msg"

section \<open>Tasks, results and narrowing\<close>

record CapabilityNarrowing =
  allowedTools :: "string list option"
  deniedTools :: "string list option"
  allowedPermissions :: "string list option"
  allowedRoles :: "string list option"
  narrowed_limits :: "ExecutionLimits option"

record SubAgentTask =
  st_agentName :: string
  st_message :: string
  st_narrowing :: "CapabilityNarrowing option"
  st_data :: "(string \<times> jsval) list option"
  st_signal :: "nat option"

datatype sub_status = Success | Failed | Denied

record TokenUse =
  tu_input :: int
  tu_output :: int
  tu_total :: int

record SubAgentResult =
  sr_agentName :: string
  sr_status :: sub_status
  sr_response :: string
  sr_toolCount :: nat
  sr_error :: "string option"
  sr_score :: "jsnum option"
  sr_tokens :: "TokenUse option"
  sr_durationMs :: "int option"

definition failed_result :: "string \<Rightarrow> string \<Rightarrow> SubAgentResult" where
  "failed_result agent err =
     \<lparr>sr_agentName = agent, sr_status = Failed, sr_response = [], sr_toolCount = 0, sr_error = Some err,
      sr_score = None, sr_tokens = None, sr_durationMs = None\<rparr>"

text \<open>What the delegator reads of the result of a run.\<close>

record AgentReply =
  rp_output :: "string option"
  rp_toolCalls :: "nat option"
  rp_score :: "jsnum option"
  rp_usage :: "ModelUsage option"

text \<open>The runner, the clock and the abort signals, on a state \<open>'x\<close> of the world.\<close>

record 'x orch_env =
  oe_run :: "string \<Rightarrow> 'x RunInput \<Rightarrow> 'x \<Rightarrow> (agent_error, AgentReply) result \<times> 'x"
  oe_now :: "'x \<Rightarrow> int"
  oe_aborted :: "nat \<Rightarrow> 'x \<Rightarrow> bool"

definition is_aborted :: "'x orch_env \<Rightarrow> nat option \<Rightarrow> 'x \<Rightarrow> bool" where
  "is_aborted D signal x = (case signal of None \<Rightarrow> False | Some s \<Rightarrow> oe_aborted D s x)"

subsection \<open>Narrowing as context data\<close>

text \<open>
  The context carries the narrowing as plain data. Lists are read by \<open>includes\<close>, so a member that
  is not a string is as good as absent; an optional field that is \<open>undefined\<close> counts as absent.
\<close>

definition string_member :: "jsval \<Rightarrow> string list" where
  "string_member v = (case v of JStr s \<Rightarrow> [s] | _ \<Rightarrow> [])"

definition strings_of :: "jsval \<Rightarrow> string list option" where
  "strings_of v = (case v of JArr vs \<Rightarrow> Some (concat (map string_member vs)) | _ \<Rightarrow> None)"

definition strings_value :: "string list option \<Rightarrow> jsval" where
  "strings_value ss = (case ss of None \<Rightarrow> JUndef | Some ss \<Rightarrow> JArr (map JStr ss))"

definition int_field :: "jsval \<Rightarrow> int option" where
  "int_field v = (case v of JNum (Fin q) \<Rightarrow> Some \<lfloor>q\<rfloor> | _ \<Rightarrow> None)"

definition int_value :: "int option \<Rightarrow> jsval" where
  "int_value n = (case n of None \<Rightarrow> JUndef | Some n \<Rightarrow> JNum (Fin (of_int n)))"

definition limits_of :: "jsval \<Rightarrow> ExecutionLimits option" where
  "limits_of v =
     (case v of
        JObj ps \<Rightarrow> Some \<lparr>maxIterations = int_field (get_prop ps ''maxIterations''),
          maxToolCalls = int_field (get_prop ps ''maxToolCalls''), timeoutMs = int_field (get_prop ps ''timeoutMs''),
          maxTotalTokens = int_field (get_prop ps ''maxTotalTokens'')\<rparr>
      | _ \<Rightarrow> None)"

definition limits_value :: "ExecutionLimits option \<Rightarrow> jsval" where
  "limits_value l =
     (case l of
        None \<Rightarrow> JUndef
      | Some l \<Rightarrow> JObj [(''maxIterations'', int_value (maxIterations l)), (''maxToolCalls'', int_value (maxToolCalls l)),
          (''timeoutMs'', int_value (timeoutMs l)), (''maxTotalTokens'', int_value (maxTotalTokens l))])"

definition narrowing_of :: "jsval \<Rightarrow> CapabilityNarrowing option" where
  "narrowing_of v =
     (case v of
        JObj ps \<Rightarrow> Some \<lparr>allowedTools = strings_of (get_prop ps ''allowedTools''),
          deniedTools = strings_of (get_prop ps ''deniedTools''),
          allowedPermissions = strings_of (get_prop ps ''allowedPermissions''),
          allowedRoles = strings_of (get_prop ps ''allowedRoles''),
          narrowed_limits = limits_of (get_prop ps ''limits'')\<rparr>
      | _ \<Rightarrow> None)"

definition narrowing_value :: "CapabilityNarrowing option \<Rightarrow> jsval" where
  "narrowing_value n =
     (case n of
        None \<Rightarrow> JUndef
      | Some n \<Rightarrow> JObj [(''allowedTools'', strings_value (allowedTools n)), (''deniedTools'', strings_value (deniedTools n)),
          (''allowedPermissions'', strings_value (allowedPermissions n)), (''allowedRoles'', strings_value (allowedRoles n)),
          (''limits'', limits_value (narrowed_limits n))])"

lemma strings_roundtrip [simp]: "strings_of (strings_value ss) = ss"
proof (cases ss)
  case (Some s)
  have "concat (map (string_member \<circ> JStr) s) = s" by (induction s) (auto simp: string_member_def)
  with Some show ?thesis by (simp add: strings_of_def strings_value_def)
qed (simp add: strings_of_def strings_value_def)

lemma int_roundtrip [simp]: "int_field (int_value n) = n"
  by (cases n) (simp_all add: int_field_def int_value_def)

lemma limits_roundtrip [simp]: "limits_of (limits_value l) = l"
  by (cases l) (simp_all add: limits_of_def limits_value_def get_prop_def)

lemma narrowing_roundtrip [simp]: "narrowing_of (narrowing_value n) = n"
  by (cases n) (simp_all add: narrowing_of_def narrowing_value_def get_prop_def)

text \<open>\<open>context.data\<close> and the internal entry \<open>agentic\<close> in it.\<close>

definition data_of :: "AgentContext \<Rightarrow> (string \<times> jsval) list" where
  "data_of ctx = nullish (ctx_data ctx) []"

definition agentic_of :: "AgentContext \<Rightarrow> (string \<times> jsval) list" where
  "agentic_of ctx = (case get_prop (data_of ctx) ''agentic'' of JObj ps \<Rightarrow> ps | _ \<Rightarrow> [])"

definition narrowing_in :: "AgentContext \<Rightarrow> CapabilityNarrowing option" where
  "narrowing_in ctx =
     or_else (narrowing_of (get_prop (agentic_of ctx) ''capabilityNarrowing''))
       (narrowing_of (get_prop (data_of ctx) ''__capabilityNarrowing''))"

definition number_of :: "jsval \<Rightarrow> jsnum option" where
  "number_of v = (case v of JNum n \<Rightarrow> Some n | _ \<Rightarrow> None)"

definition depth_in :: "AgentContext \<Rightarrow> jsnum" where
  "depth_in ctx =
     nullish (or_else (number_of (get_prop (agentic_of ctx) ''delegationDepth''))
       (number_of (get_prop (data_of ctx) ''__delegationDepth''))) (Fin 0)"

fun js_succ :: "jsnum \<Rightarrow> jsnum" where
  "js_succ (Fin q) = Fin (q + 1)"
| "js_succ n = n"

section \<open>The narrowing policy\<close>

definition narrowing_evaluate :: "AgentContext \<Rightarrow> string \<Rightarrow> string option" where
  "narrowing_evaluate ctx tool =
     (case narrowing_in ctx of
        None \<Rightarrow> None
      | Some n \<Rightarrow>
          if (case deniedTools n of None \<Rightarrow> False | Some ds \<Rightarrow> tool \<in> set ds)
          then Some (''Tool '' @ quoted tool @ '' is prohibited by the delegated deniedTools capability blacklist.'')
          else if (case allowedTools n of None \<Rightarrow> False | Some ts \<Rightarrow> tool \<notin> set ts)
          then Some (''Tool '' @ quoted tool @ '' is not permitted under the delegated allowedTools capability whitelist.'')
          else None)"

abbreviation tool_allowed :: "AgentContext \<Rightarrow> string \<Rightarrow> bool" where
  "tool_allowed ctx tool \<equiv> narrowing_evaluate ctx tool = None"

section \<open>The delegator\<close>

definition narrow_held ::
    "capability \<Rightarrow> string list option \<Rightarrow> string list option \<Rightarrow> (orchestration_error, string list option) result" where
  "narrow_held what wanted held =
     (case wanted of
        None \<Rightarrow> Inr held
      | Some ws \<Rightarrow>
          (let hs = nullish held []; bad = filter (\<lambda>w. w \<notin> set hs) ws
           in if bad \<noteq> [] then Inl (CapabilityEscalation bad hs what)
              else Inr (Some (filter (\<lambda>h. h \<in> set ws) hs))))"

text \<open>\<open>Array.from(new Set(xs))\<close>: the first occurrence of each member.\<close>

definition distinct_first :: "string list \<Rightarrow> string list" where
  "distinct_first xs = rev (remdups (rev xs))"

definition effective_allowed :: "CapabilityNarrowing option \<Rightarrow> CapabilityNarrowing option \<Rightarrow> string list option" where
  "effective_allowed parent task =
     (case Option.bind parent allowedTools of
        None \<Rightarrow> Option.bind task allowedTools
      | Some ps \<Rightarrow>
          (case Option.bind task allowedTools of
             None \<Rightarrow> Some ps
           | Some ts \<Rightarrow> Some (filter (\<lambda>t. t \<in> set ps) ts)))"

definition effective_denied :: "CapabilityNarrowing option \<Rightarrow> CapabilityNarrowing option \<Rightarrow> string list" where
  "effective_denied parent task =
     nullish (Option.bind parent deniedTools) [] @ nullish (Option.bind task deniedTools) []"

definition effective_narrowing ::
    "CapabilityNarrowing option \<Rightarrow> CapabilityNarrowing option \<Rightarrow> CapabilityNarrowing option" where
  "effective_narrowing parent task =
     (if parent = None \<and> task = None then None
      else let denied = effective_denied parent task
           in Some \<lparr>allowedTools = effective_allowed parent task,
                deniedTools = (if denied \<noteq> [] then Some (distinct_first denied) else None),
                allowedPermissions = or_else (Option.bind task allowedPermissions) (Option.bind parent allowedPermissions),
                allowedRoles = or_else (Option.bind task allowedRoles) (Option.bind parent allowedRoles),
                narrowed_limits = or_else (Option.bind task narrowed_limits) (Option.bind parent narrowed_limits)\<rparr>)"

definition spread :: "(string \<times> jsval) list \<Rightarrow> (string \<times> jsval) list \<Rightarrow> (string \<times> jsval) list" where
  "spread ps qs = foldl (\<lambda>acc (k, v). set_prop acc k v) ps qs"

definition child_data ::
    "AgentContext \<Rightarrow> SubAgentTask \<Rightarrow> CapabilityNarrowing option \<Rightarrow> jsnum \<Rightarrow> (string \<times> jsval) list" where
  "child_data parent task n depth =
     set_prop (spread (data_of parent) (nullish (st_data task) [])) ''agentic''
       (JObj (set_prop (set_prop (agentic_of parent) ''capabilityNarrowing'' (narrowing_value n))
          ''delegationDepth'' (JNum depth)))"

definition sub_session :: "AgentContext \<Rightarrow> SubAgentTask \<Rightarrow> nat option \<Rightarrow> string" where
  "sub_session parent task iter =
     scopeKey plain_number [PartStr (sessionId parent), PartStr (st_agentName task),
       (case iter of None \<Rightarrow> PartUndef | Some n \<Rightarrow> PartNum (Fin (of_nat n)))]"

text \<open>The depth a delegator allows when it is not configured.\<close>

definition DEFAULT_MAX_DEPTH :: jsnum where
  "DEFAULT_MAX_DEPTH = Fin 3"

text \<open>The checks of \<open>delegate\<close> and the input it hands to the runner.\<close>

definition delegation_request ::
    "jsnum \<Rightarrow> AgentContext \<Rightarrow> SubAgentTask \<Rightarrow> nat option \<Rightarrow> (orchestration_error, 'x RunInput) result" where
  "delegation_request max_depth parent task iter =
     (let depth = js_succ (depth_in parent); n = st_narrowing task; held = security parent
      in if js_lt max_depth depth then Inl (MaxDelegationDepthExceeded depth max_depth (st_agentName task))
         else case narrow_held Permissions (Option.bind n allowedPermissions) (permissions held) of
           Inl e \<Rightarrow> Inl e
         | Inr perms \<Rightarrow>
             (case narrow_held Roles (Option.bind n allowedRoles) (roles held) of
                Inl e \<Rightarrow> Inl e
              | Inr rs \<Rightarrow>
                  Inr \<lparr>ri_sessionId = sub_session parent task iter, ri_message = st_message task,
                    ri_context = Some \<lparr>rc_userId = userId held, rc_tenantId = tenantId held, rc_roles = rs,
                      rc_permissions = perms,
                      rc_data = Some (child_data parent task (effective_narrowing (narrowing_in parent) n) depth),
                      rc_traceId = None, rc_parentTraceId = Some (traceId parent),
                      rc_rootTraceId = Some (nullish (rootTraceId parent) (traceId parent))\<rparr>,
                    ri_limits = Option.bind n narrowed_limits, ri_toolErrorHandling = None,
                    ri_messageReducer = None, ri_cascade = None, ri_history = None, ri_output = no_output\<rparr>))"

definition tokens_of :: "ModelUsage \<Rightarrow> TokenUse" where
  "tokens_of u = \<lparr>tu_input = nullish (inputTokens u) 0, tu_output = nullish (outputTokens u) 0,
     tu_total = nullish (totalTokens u) 0\<rparr>"

definition delegate ::
    "'x orch_env \<Rightarrow> jsnum \<Rightarrow> AgentContext \<Rightarrow> nat option \<Rightarrow> SubAgentTask \<Rightarrow> nat option \<Rightarrow> nat option \<Rightarrow> 'x
       \<Rightarrow> (orchestration_error, SubAgentResult) result \<times> 'x" where
  "delegate D max_depth parent parent_signal task iter signal x =
     (let active = or_else (st_signal task) (or_else signal parent_signal); agent = st_agentName task
      in if is_aborted D active x then (Inr (failed_result agent ''Sub-agent run was aborted''), x)
         else case delegation_request max_depth parent task iter of
           Inl e \<Rightarrow> (Inl e, x)
         | Inr input \<Rightarrow>
             (let start = oe_now D x
              in case oe_run D agent input x of
                   (Inr reply, y) \<Rightarrow>
                     (Inr \<lparr>sr_agentName = agent, sr_status = Success, sr_response = nullish (rp_output reply) [],
                        sr_toolCount = nullish (rp_toolCalls reply) 0, sr_error = None, sr_score = rp_score reply,
                        sr_tokens = map_option tokens_of (rp_usage reply),
                        sr_durationMs = Some (oe_now D y - start)\<rparr>, y)
                 | (Inl e, y) \<Rightarrow>
                     (Inr (failed_result agent (if error_message e = [] then ''Sub-agent execution error''
                        else error_message e)\<lparr>sr_durationMs := Some (oe_now D y - start)\<rparr>), y)))"

section \<open>Authority along delegation\<close>

text \<open>One delegation, from the delegating context to the context the runner prepares for the sub-agent.\<close>

inductive delegates :: "'x runner_env \<Rightarrow> jsnum \<Rightarrow> AgentContext \<Rightarrow> AgentContext \<Rightarrow> bool" for E max_depth where
  "delegation_request max_depth parent task iter = Inr input \<Longrightarrow>
   prepareRun E (st_agentName task) input x = (Inr P, y) \<Longrightarrow> delegates E max_depth parent (pr_context P)"

definition held :: "string list option \<Rightarrow> string set" where
  "held xs = set (nullish xs [])"

lemma get_set_prop [simp]: "get_prop (set_prop ps k v) k' = (if k' = k then v else get_prop ps k')"
  by (simp add: get_prop_def)

lemma prepared_context:
  assumes "prepareRun E agent input x = (Inr P, y)"
  shows "security (pr_context P) = security_of (nullish (ri_context input) no_context)"
    "ctx_data (pr_context P) = rc_data (nullish (ri_context input) no_context)"
  using assms
  by (auto simp: prepareRun_def Let_def and_then_Inr_iff map_sum_Inr_iff split: option.splits prod.splits)

lemma narrow_held_subset: "narrow_held what wanted hs = Inr hs' \<Longrightarrow> held hs' \<subseteq> held hs"
  by (auto simp: narrow_held_def held_def Let_def split: option.splits if_splits)

lemma narrow_held_wanted: "narrow_held what (Some ws) hs = Inr hs' \<Longrightarrow> held hs' = set ws"
  by (auto simp: narrow_held_def held_def Let_def filter_empty_conv split: if_splits)

lemma request_parts:
  assumes "delegation_request max_depth parent task iter = Inr input"
  obtains perms rs where
    "\<not> js_lt max_depth (js_succ (depth_in parent))"
    "narrow_held Permissions (Option.bind (st_narrowing task) allowedPermissions) (permissions (security parent)) = Inr perms"
    "narrow_held Roles (Option.bind (st_narrowing task) allowedRoles) (roles (security parent)) = Inr rs"
    "ri_context input = Some \<lparr>rc_userId = userId (security parent), rc_tenantId = tenantId (security parent),
       rc_roles = rs, rc_permissions = perms,
       rc_data = Some (child_data parent task (effective_narrowing (narrowing_in parent) (st_narrowing task))
         (js_succ (depth_in parent))),
       rc_traceId = None, rc_parentTraceId = Some (traceId parent),
       rc_rootTraceId = Some (nullish (rootTraceId parent) (traceId parent))\<rparr>"
proof (cases "js_lt max_depth (js_succ (depth_in parent))")
  case True
  with assms show thesis by (simp add: delegation_request_def Let_def)
next
  case False
  with assms that show thesis
    by (auto simp: delegation_request_def Let_def split: sum.splits)
qed

lemma child_data_parts:
  assumes "ctx_data child = Some (child_data parent task n depth)"
  shows "narrowing_in child = or_else n (narrowing_of (get_prop (data_of child) ''__capabilityNarrowing''))"
    "depth_in child = depth"
proof -
  have a: "get_prop (agentic_of child) ''capabilityNarrowing'' = narrowing_value n"
    "get_prop (agentic_of child) ''delegationDepth'' = JNum depth"
    using assms by (simp_all add: agentic_of_def data_of_def child_data_def)
  show "narrowing_in child = or_else n (narrowing_of (get_prop (data_of child) ''__capabilityNarrowing''))"
    by (simp add: narrowing_in_def a)
  show "depth_in child = depth" by (simp add: depth_in_def a number_of_def or_else_def)
qed

definition narrowing_permits :: "CapabilityNarrowing option \<Rightarrow> string \<Rightarrow> bool" where
  "narrowing_permits n tool \<longleftrightarrow>
     tool \<notin> held (Option.bind n deniedTools) \<and>
     (case Option.bind n allowedTools of None \<Rightarrow> True | Some ts \<Rightarrow> tool \<in> set ts)"

lemma policy_permits: "tool_allowed ctx tool \<longleftrightarrow> narrowing_permits (narrowing_in ctx) tool"
  by (auto simp: narrowing_evaluate_def narrowing_permits_def held_def split: option.splits)

lemma set_distinct_first [simp]: "set (distinct_first xs) = set xs"
  by (simp add: distinct_first_def)

lemma effective_permits:
  assumes "effective_narrowing parent task = Some n" "narrowing_permits (Some n) tool"
  shows "narrowing_permits parent tool" "narrowing_permits task tool"
proof -
  from assms have d: "tool \<notin> set (effective_denied parent task)"
    and a: "case effective_allowed parent task of None \<Rightarrow> True | Some ts \<Rightarrow> tool \<in> set ts"
    by (auto simp: effective_narrowing_def narrowing_permits_def held_def Let_def split: if_splits option.splits)
  from d a show "narrowing_permits parent tool" "narrowing_permits task tool"
    by (auto simp: effective_denied_def effective_allowed_def narrowing_permits_def held_def split: option.splits)
qed

lemma no_narrowing [simp]: "narrowing_permits None tool"
  by (simp add: narrowing_permits_def held_def)

lemma effective_none: "effective_narrowing parent task = None \<longleftrightarrow> parent = None \<and> task = None"
  by (simp add: effective_narrowing_def Let_def)

lemma delegates_once:
  assumes "delegates E max_depth parent child"
  shows "tenantId (security child) = tenantId (security parent)" "userId (security child) = userId (security parent)"
    "held (permissions (security child)) \<subseteq> held (permissions (security parent))"
    "held (roles (security child)) \<subseteq> held (roles (security parent))"
    "tool_allowed child tool \<Longrightarrow> tool_allowed parent tool"
    "depth_in child = js_succ (depth_in parent)" "\<not> js_lt max_depth (depth_in child)"
proof -
  from assms obtain task iter input x P y where
    request: "delegation_request max_depth parent task iter = Inr input" and
    prepared: "prepareRun E (st_agentName task) input x = (Inr P, y)" and child: "child = pr_context P"
    by (auto elim: delegates.cases)
  from request_parts [OF request] obtain perms rs where
    depth: "\<not> js_lt max_depth (js_succ (depth_in parent))" and
    p: "narrow_held Permissions (Option.bind (st_narrowing task) allowedPermissions) (permissions (security parent)) = Inr perms" and
    r: "narrow_held Roles (Option.bind (st_narrowing task) allowedRoles) (roles (security parent)) = Inr rs" and
    c: "ri_context input = Some \<lparr>rc_userId = userId (security parent), rc_tenantId = tenantId (security parent),
       rc_roles = rs, rc_permissions = perms,
       rc_data = Some (child_data parent task (effective_narrowing (narrowing_in parent) (st_narrowing task))
         (js_succ (depth_in parent))),
       rc_traceId = None, rc_parentTraceId = Some (traceId parent),
       rc_rootTraceId = Some (nullish (rootTraceId parent) (traceId parent))\<rparr>" .
  note ctx = prepared_context [OF prepared, folded child]
  from ctx(1) c show "tenantId (security child) = tenantId (security parent)"
    "userId (security child) = userId (security parent)" by (simp_all add: security_of_def)
  from ctx(1) c narrow_held_subset [OF p] narrow_held_subset [OF r]
  show "held (permissions (security child)) \<subseteq> held (permissions (security parent))"
    "held (roles (security child)) \<subseteq> held (roles (security parent))" by (simp_all add: security_of_def)
  from ctx(2) c have data: "ctx_data child = Some (child_data parent task
      (effective_narrowing (narrowing_in parent) (st_narrowing task)) (js_succ (depth_in parent)))" by simp
  from child_data_parts(2) [OF data] depth
  show "depth_in child = js_succ (depth_in parent)" "\<not> js_lt max_depth (depth_in child)" by simp_all
  assume "tool_allowed child tool"
  then have child_ok: "narrowing_permits (narrowing_in child) tool" by (simp add: policy_permits)
  show "tool_allowed parent tool"
  proof (cases "effective_narrowing (narrowing_in parent) (st_narrowing task)")
    case None
    then have "narrowing_in parent = None" by (simp add: effective_none)
    then show ?thesis by (simp add: policy_permits)
  next
    case (Some n)
    with child_data_parts(1) [OF data] child_ok have "narrowing_permits (Some n) tool" by (simp add: or_else_def)
    from effective_permits(1) [OF Some this] show ?thesis by (simp add: policy_permits)
  qed
qed

text \<open>
  The limits of a delegated run are those of the task alone: the limits an agent was itself delegated
  under are carried along as data and bind no further delegation.
\<close>

lemma limits_not_inherited:
  "delegation_request max_depth parent task iter = Inr input \<Longrightarrow>
     ri_limits input = Option.bind (st_narrowing task) narrowed_limits"
  by (auto simp: delegation_request_def Let_def split: if_splits sum.splits)

text \<open>
  C30: authority never grows along delegation. However many times agents delegate on, with any tasks, the
  context the runner prepares for the last one has the tenant and the user of the first, no permission and
  no role the first does not hold, and the narrowing policy allows it no tool it does not allow the first.
\<close>

theorem authority_never_grows:
  assumes "(delegates E max_depth)\<^sup>*\<^sup>* ctx ctx'"
  shows "tenantId (security ctx') = tenantId (security ctx) \<and> userId (security ctx') = userId (security ctx) \<and>
    held (permissions (security ctx')) \<subseteq> held (permissions (security ctx)) \<and>
    held (roles (security ctx')) \<subseteq> held (roles (security ctx)) \<and>
    {tool. tool_allowed ctx' tool} \<subseteq> {tool. tool_allowed ctx tool}"
  using assms
proof induction
  case (step mid ctx')
  note d = delegates_once [OF step.hyps(2)]
  have "{tool. tool_allowed ctx' tool} \<subseteq> {tool. tool_allowed mid tool}" using d(5) by blast
  then have tools: "{tool. tool_allowed ctx' tool} \<subseteq> {tool. tool_allowed ctx tool}"
    by (rule subset_trans) (simp add: step.IH)
  have "held (permissions (security ctx')) \<subseteq> held (permissions (security ctx))"
    "held (roles (security ctx')) \<subseteq> held (roles (security ctx))"
    by (rule subset_trans [OF d(3)], simp add: step.IH) (rule subset_trans [OF d(4)], simp add: step.IH)
  with tools d(1,2) step.IH show ?case by simp
qed simp

text \<open>
  C31: delegation ends. Starting at depth \<open>d\<close>, no chain of delegations is longer than the configured
  depth leaves room for, whatever depth the tasks' own data claim.
\<close>

theorem delegation_depth_bounded:
  assumes "(delegates E (Fin max_depth) ^^ n) ctx ctx'" "depth_in ctx = Fin d"
  shows "n = 0 \<or> d + of_nat n \<le> max_depth"
proof -
  have "depth_in ctx' = Fin (d + of_nat n) \<and> (n = 0 \<or> d + of_nat n \<le> max_depth)"
    using assms(1)
  proof (induction n arbitrary: ctx')
    case 0
    with assms(2) show ?case by simp
  next
    case (Suc n)
    then obtain mid where mid: "(delegates E (Fin max_depth) ^^ n) ctx mid" "delegates E (Fin max_depth) mid ctx'"
      by auto
    from Suc.IH [OF mid(1)] delegates_once(6,7) [OF mid(2)] show ?case by (simp add: add.commute add.left_commute)
  qed
  then show ?thesis by simp
qed

text \<open>
  a task that asks for a permission or a role its parent does not hold never runs: unless the call is
  refused for its depth or already aborted, \<open>delegate\<close> throws the escalation error that lists exactly what
  is not held, and the runner is not called.
\<close>

theorem escalation_never_runs:
  assumes "st_narrowing task = Some n" "allowedPermissions n = Some wanted" "\<not> set wanted \<subseteq> held (permissions (security parent))"
    and "\<not> is_aborted D (or_else (st_signal task) (or_else signal parent_signal)) x"
    and "\<not> js_lt max_depth (js_succ (depth_in parent))"
  shows "delegate D max_depth parent parent_signal task iter signal x =
    (Inl (CapabilityEscalation (filter (\<lambda>p. p \<notin> held (permissions (security parent))) wanted)
      (nullish (permissions (security parent)) []) Permissions), x)"
proof -
  from assms(3) have "filter (\<lambda>p. p \<notin> held (permissions (security parent))) wanted \<noteq> []"
    by (auto simp: filter_empty_conv)
  with assms show ?thesis
    by (simp add: delegate_def Let_def delegation_request_def narrow_held_def held_def)
qed

section \<open>A delegation\<close>

definition manager :: AgentContext where
  "manager =
     \<lparr>security = \<lparr>userId = Some ''ann'', tenantId = Some ''acme'', roles = None,
        permissions = Some [''read'', ''write'']\<rparr>,
      sessionId = ''s'', traceId = ''t'', parentTraceId = None, rootTraceId = None, ctx_data = None, deadline = None\<rparr>"

definition errand :: "string list \<Rightarrow> SubAgentTask" where
  "errand perms =
     \<lparr>st_agentName = ''greeter'', st_message = ''Hello'',
      st_narrowing = Some \<lparr>allowedTools = None, deniedTools = Some [''rm''], allowedPermissions = Some perms,
        allowedRoles = None, narrowed_limits = None\<rparr>,
      st_data = None, st_signal = None\<rparr>"

definition worker :: AgentContext where
  "worker =
     \<lparr>security = \<lparr>userId = Some ''ann'', tenantId = Some ''acme'', roles = None, permissions = Some [''read'']\<rparr>,
      sessionId = sub_session manager (errand [''read'']) None, traceId = ''u'', parentTraceId = Some ''t'',
      rootTraceId = Some ''t'',
      ctx_data = Some (child_data manager (errand [''read''])
        (effective_narrowing (narrowing_in manager) (st_narrowing (errand [''read'']))) (js_succ (depth_in manager))),
      deadline = None\<rparr>"

lemma manager_delegates: "delegates (bare_runner :: unit runner_env) (Fin 3) manager worker"
proof -
  obtain input :: "unit RunInput" where i: "delegation_request (Fin 3) manager (errand [''read'']) None = Inr input"
    "ri_context input = Some \<lparr>rc_userId = Some ''ann'', rc_tenantId = Some ''acme'', rc_roles = None,
       rc_permissions = Some [''read''],
       rc_data = ctx_data worker, rc_traceId = None, rc_parentTraceId = Some ''t'', rc_rootTraceId = Some ''t''\<rparr>"
    "ri_sessionId input = sessionId worker" "ri_limits input = None" "ri_output input = no_output"
    by (simp add: delegation_request_def Let_def narrow_held_def manager_def errand_def worker_def
        depth_in_def agentic_of_def data_of_def get_prop_def number_of_def or_else_def)
  have "\<exists>P. prepareRun bare_runner ''greeter'' input () = (Inr P, ()) \<and> pr_context P = worker"
    by (simp add: prepareRun_def getAgentMap_def Let_def fresh_uuid_def buildAgentTools_def resolve_spec_def
        resolveStructuredOutput_def deadline_of_def security_of_def i or_else_def greeting_defs)
      (simp add: worker_def)
  then obtain P where P: "prepareRun bare_runner (st_agentName (errand [''read''])) input () = (Inr P, ())"
    "pr_context P = worker" by (auto simp: errand_def)
  from delegates.intros [OF i(1) P(1)] P(2) show ?thesis by simp
qed

theorem authority_never_grows_witness:
  "tenantId (security worker) = Some ''acme'' \<and> {tool. tool_allowed worker tool} \<subseteq> {tool. tool_allowed manager tool}"
  using authority_never_grows [OF r_into_rtranclp [of "delegates (bare_runner :: unit runner_env) (Fin 3)", OF manager_delegates]]
  by (simp add: manager_def)

theorem delegation_depth_bounded_witness:
  "(1 :: nat) = 0 \<or> (0 :: rat) + of_nat 1 \<le> 3"
proof -
  have "(delegates (bare_runner :: unit runner_env) (Fin 3) ^^ 1) manager worker"
    using manager_delegates by (auto simp: OO_def)
  moreover have "depth_in manager = Fin 0"
    by (simp add: depth_in_def agentic_of_def data_of_def manager_def get_prop_def number_of_def or_else_def)
  ultimately show ?thesis by (rule delegation_depth_bounded)
qed

definition no_runner :: "unit orch_env" where
  "no_runner = \<lparr>oe_run = (\<lambda>_ _ x. (Inl (Thrown ''not called''), x)), oe_now = (\<lambda>_. 0), oe_aborted = (\<lambda>_ _. False)\<rparr>"

theorem escalation_never_runs_witness:
  "delegate no_runner (Fin 3) manager None (errand [''read'', ''admin'']) None None () =
     (Inl (CapabilityEscalation [''admin''] [''read'', ''write''] Permissions), ())"
proof -
  have "\<exists>n. st_narrowing (errand [''read'', ''admin'']) = Some n \<and> allowedPermissions n = Some [''read'', ''admin'']"
    by (simp add: errand_def)
  then obtain n where n: "st_narrowing (errand [''read'', ''admin'']) = Some n"
    "allowedPermissions n = Some [''read'', ''admin'']" by blast
  have "\<not> set [''read'', ''admin''] \<subseteq> held (permissions (security manager))"
    "\<not> is_aborted no_runner (or_else (st_signal (errand [''read'', ''admin''])) (or_else None None)) ()"
    "\<not> js_lt (Fin 3) (js_succ (depth_in manager))"
    by (simp_all add: held_def manager_def errand_def is_aborted_def or_else_def depth_in_def agentic_of_def
        data_of_def get_prop_def number_of_def)
  from escalation_never_runs [OF n this] show ?thesis
    by (simp add: held_def manager_def)
qed

end
