(* ===== verification/Refinement_Loop.thy ===== *)
theory Refinement_Loop
  imports Delegation
begin

text \<open>
  The refinement loop, \<open>packages/orchestration/src/runners/refinement-loop.runner.ts\<close>: an agent is asked
  again, with feedback, until its answer satisfies, the rounds or the budget run out, or a run fails;
  with the lock of the session and the checkpoints of the loop. The state store and the callbacks are
  the environment's; every one of their calls may throw.
\<close>

section \<open>Records\<close>

type_synonym ('x, 'a) orch_call = "'x \<Rightarrow> (orchestration_error, 'a) result \<times> 'x"

datatype feedback_source = FromProvider | FromEvaluator | FromDefault

datatype stop_reason = Satisfied | Max_rounds | Budget_exceeded | Aborted | Run_failed

record SatisfactionResult =
  sf_satisfied :: bool
  sf_score :: "jsnum option"
  sf_feedback :: "string option"

text \<open>What a satisfaction function returns: a truth value, a judgement, or anything else.\<close>

datatype satisfaction = Verdict bool | Judged SatisfactionResult | NoVerdict

record RefinementLoopBudget =
  bu_maxTotalTokens :: "int option"
  bu_maxTotalTimeMs :: "int option"

record RefinementLoopCheckpoint =
  cp_version :: nat
  cp_sequence :: "int option"
  cp_parentSessionId :: string
  cp_tenantId :: "string option"
  cp_agentName :: string
  cp_iteration :: nat
  cp_maxIterations :: nat
  cp_history :: "SubAgentResult list"
  cp_totalTokens :: int
  cp_totalDurationMs :: int
  cp_currentMessage :: string
  cp_feedbackSource :: feedback_source
  cp_savedAt :: string

text \<open>The state store as the loop uses it: lock entries and checkpoints.\<close>

record 'x loop_store =
  ls_setIfNotExists :: "(string \<Rightarrow> string \<Rightarrow> int \<Rightarrow> ('x, bool) orch_call) option"
  ls_getLock :: "string \<Rightarrow> ('x, string option) orch_call"
  ls_setLock :: "string \<Rightarrow> string \<Rightarrow> int \<Rightarrow> ('x, unit) orch_call"
  ls_delete :: "string \<Rightarrow> ('x, unit) orch_call"
  ls_getCheckpoint :: "string \<Rightarrow> ('x, RefinementLoopCheckpoint option) orch_call"
  ls_setCheckpoint :: "string \<Rightarrow> RefinementLoopCheckpoint \<Rightarrow> int \<Rightarrow> ('x, unit) orch_call"

type_synonym 'x feedback_provider = "SubAgentResult \<Rightarrow> nat \<Rightarrow> ('x, string) orch_call"

record 'x RefinementLoopOptions =
  rl_maxIterations :: nat
  rl_qualityThreshold :: jsnum
  rl_signal :: "nat option"
  rl_satisfactionFn :: "(SubAgentResult \<Rightarrow> nat \<Rightarrow> ('x, satisfaction) orch_call) option"
  rl_budget :: "RefinementLoopBudget option"
  rl_stateStore :: "'x loop_store option"
  rl_checkpointTtl :: int
  rl_errorCheckpointTtl :: int
  rl_lockTtl :: int

text \<open>The environment of a loop: the delegator's, fresh lock identifiers and the time of day as text.\<close>

record 'x loop_env =
  le_orch :: "'x orch_env"
  le_lockId :: "'x \<Rightarrow> string \<times> 'x"
  le_isoNow :: "'x \<Rightarrow> string"
  le_options :: "'x RefinementLoopOptions"
  le_parent :: AgentContext
  le_parentSignal :: "nat option"

section \<open>Keys and the lock\<close>

definition scope_of :: "AgentContext \<Rightarrow> string \<Rightarrow> string" where
  "scope_of ctx agent =
     scopeKey plain_number [(case tenantId (security ctx) of None \<Rightarrow> PartUndef | Some t \<Rightarrow> PartStr t),
       PartStr (sessionId ctx), PartStr agent]"

definition getCheckpointKey :: "AgentContext \<Rightarrow> string \<Rightarrow> string" where
  "getCheckpointKey ctx agent = ''agentic:refinement:checkpoint:'' @ scope_of ctx agent"

definition getLockKey :: "AgentContext \<Rightarrow> string \<Rightarrow> string" where
  "getLockKey ctx agent = ''agentic:refinement:lock:'' @ scope_of ctx agent"

definition acquireLock :: "'x loop_env \<Rightarrow> string \<Rightarrow> ('x, string option) orch_call" where
  "acquireLock L agent x =
     (case rl_stateStore (le_options L) of
        None \<Rightarrow> (Inr None, x)
      | Some store \<Rightarrow>
          (let key = getLockKey (le_parent L) agent; ttl = rl_lockTtl (le_options L);
               refused = RefinementLoopAlreadyRunning (sessionId (le_parent L)) agent
           in case le_lockId L x of
                (lock_id, x) \<Rightarrow>
                  (case ls_setIfNotExists store of
                     Some attempt \<Rightarrow>
                       and_then (attempt key lock_id ttl x) (\<lambda>acquired x.
                         if acquired then (Inr (Some lock_id), x) else (Inl refused, x))
                   | None \<Rightarrow>
                       and_then (ls_getLock store key x) (\<lambda>existing x.
                         if nullish existing [] \<noteq> [] then (Inl refused, x)
                         else and_then (ls_setLock store key lock_id ttl x) (\<lambda>_ x. (Inr (Some lock_id), x))))))"

text \<open>Errors of the store while releasing are swallowed.\<close>

definition releaseLock :: "'x loop_env \<Rightarrow> string \<Rightarrow> string option \<Rightarrow> 'x \<Rightarrow> 'x" where
  "releaseLock L agent lock_id x =
     (case (rl_stateStore (le_options L), nullish lock_id []) of
        (Some store, c # cs) \<Rightarrow>
          (let key = getLockKey (le_parent L) agent
           in snd (and_then (ls_getLock store key x) (\<lambda>current x.
                if current = Some (c # cs) then ls_delete store key x else (Inr (), x))))
      | _ \<Rightarrow> x)"

section \<open>One round\<close>

record loop_state =
  s_history :: "SubAgentResult list"
  s_message :: string
  s_tokens :: int
  s_duration :: int
  s_sequence :: int
  s_iteration :: nat

text \<open>A limit of the budget counts when it is given and not zero.\<close>

definition budget_limit :: "'x loop_env \<Rightarrow> (RefinementLoopBudget \<Rightarrow> int option) \<Rightarrow> int option" where
  "budget_limit L sel =
     (case Option.bind (rl_budget (le_options L)) sel of Some n \<Rightarrow> if n = 0 then None else Some n | None \<Rightarrow> None)"

definition over_budget :: "'x loop_env \<Rightarrow> loop_state \<Rightarrow> bool" where
  "over_budget L s \<longleftrightarrow>
     (case budget_limit L bu_maxTotalTokens of None \<Rightarrow> False | Some n \<Rightarrow> n \<le> s_tokens s) \<or>
     (case budget_limit L bu_maxTotalTimeMs of None \<Rightarrow> False | Some n \<Rightarrow> n \<le> s_duration s)"

text \<open>\<open>limit ? Math.min(limit, remaining) : remaining\<close>.\<close>

definition tightened :: "int option \<Rightarrow> int \<Rightarrow> int option" where
  "tightened given remaining =
     Some (if nullish given 0 \<noteq> 0 then min (nullish given 0) remaining else remaining)"

definition no_limits :: ExecutionLimits where
  "no_limits = \<lparr>maxIterations = None, maxToolCalls = None, timeoutMs = None, maxTotalTokens = None\<rparr>"

definition round_limits :: "'x loop_env \<Rightarrow> SubAgentTask \<Rightarrow> loop_state \<Rightarrow> ExecutionLimits option" where
  "round_limits L task s =
     (let given = Option.bind (st_narrowing task) narrowed_limits;
          given = (case budget_limit L bu_maxTotalTokens of
              None \<Rightarrow> given
            | Some n \<Rightarrow> (let l = nullish given no_limits
                in Some (l\<lparr>maxTotalTokens := tightened (maxTotalTokens l) (max 0 (n - s_tokens s))\<rparr>)))
      in case budget_limit L bu_maxTotalTimeMs of
           None \<Rightarrow> given
         | Some n \<Rightarrow> (let l = nullish given no_limits
             in Some (l\<lparr>timeoutMs := tightened (timeoutMs l) (max 0 (n - s_duration s))\<rparr>)))"

definition no_narrowing_set :: CapabilityNarrowing where
  "no_narrowing_set = \<lparr>allowedTools = None, deniedTools = None, allowedPermissions = None, allowedRoles = None,
     narrowed_limits = None\<rparr>"

definition round_task :: "'x loop_env \<Rightarrow> SubAgentTask \<Rightarrow> loop_state \<Rightarrow> SubAgentTask" where
  "round_task L task s =
     task\<lparr>st_message := s_message s,
          st_narrowing := Some ((nullish (st_narrowing task) no_narrowing_set)
            \<lparr>narrowed_limits := round_limits L task s\<rparr>)\<rparr>"

definition loop_checkpoint ::
    "'x loop_env \<Rightarrow> string \<Rightarrow> feedback_source \<Rightarrow> loop_state \<Rightarrow> 'x \<Rightarrow> RefinementLoopCheckpoint" where
  "loop_checkpoint L agent fs s x =
     \<lparr>cp_version = 1, cp_sequence = Some (s_sequence s), cp_parentSessionId = sessionId (le_parent L),
      cp_tenantId = tenantId (security (le_parent L)), cp_agentName = agent, cp_iteration = s_iteration s,
      cp_maxIterations = rl_maxIterations (le_options L), cp_history = s_history s, cp_totalTokens = s_tokens s,
      cp_totalDurationMs = s_duration s, cp_currentMessage = s_message s, cp_feedbackSource = fs,
      cp_savedAt = le_isoNow L x\<rparr>"

definition saveCheckpoint ::
    "'x loop_env \<Rightarrow> string \<Rightarrow> feedback_source \<Rightarrow> int \<Rightarrow> loop_state \<Rightarrow> ('x, unit) orch_call" where
  "saveCheckpoint L agent fs ttl s x =
     (case rl_stateStore (le_options L) of
        None \<Rightarrow> (Inr (), x)
      | Some store \<Rightarrow>
          (let key = getCheckpointKey (le_parent L) agent
           in and_then (ls_getCheckpoint store key x) (\<lambda>existing x.
                case Option.bind existing cp_sequence of
                  Some seq \<Rightarrow>
                    if s_sequence s \<le> seq then (Inl (RefinementCheckpointConflict key (s_sequence s) seq), x)
                    else ls_setCheckpoint store key (loop_checkpoint L agent fs s x) ttl x
                | None \<Rightarrow> ls_setCheckpoint store key (loop_checkpoint L agent fs s x) ttl x)))"

text \<open>\<open>(p * 100).toFixed(1)\<close>.\<close>

definition tenths :: "nat \<Rightarrow> string" where
  "tenths n = string_of_nat (n div 10) @ CHR 0x2E # string_of_nat (n mod 10)"

fun percent :: "jsnum \<Rightarrow> string" where
  "percent NaN = ''NaN''"
| "percent PosInf = ''Infinity''"
| "percent NegInf = ''-Infinity''"
| "percent (Fin q) =
     (if q < 0 then CHR 0x2D # tenths (nat \<lfloor>- q * 1000 + 1 / 2\<rfloor>) else tenths (nat \<lfloor>q * 1000 + 1 / 2\<rfloor>))"

definition default_feedback :: "'x loop_env \<Rightarrow> SubAgentResult \<Rightarrow> nat \<Rightarrow> string" where
  "default_feedback L r n =
     (let nl = [CHR 0x0A]; quotes = replicate 3 (CHR 0x22);
          info = (case sr_score r of
              None \<Rightarrow> []
            | Some sc \<Rightarrow> '' (Score: '' @ percent sc @ ''% / Threshold: '' @
                percent (rl_qualityThreshold (le_options L)) @ ''%)'');
          snippet = (if length (sr_response r) > 300 then take 300 (sr_response r) @ ''...'' else sr_response r)
      in ''Refinement Feedback (Iteration '' @ string_of_nat n @ ''/'' @
         string_of_nat (rl_maxIterations (le_options L)) @ ''):'' @ nl @
         ''Your previous output did not meet the required quality criteria'' @ info @ ''.'' @ nl @
         ''Please revise and improve the response by addressing:'' @ nl @
         ''1. Accuracy, completeness, and adherence to domain standards.'' @ nl @
         ''2. Structural clarity and actionable details.'' @ nl @ nl @
         ''Previous output to improve:'' @ nl @ quotes @ nl @ snippet @ nl @ quotes)"

text \<open>
  The verdict on a result: whether it satisfies, the result with the score of a judgement, and the
  feedback of the judgement.
\<close>

definition judged :: "SubAgentResult \<Rightarrow> satisfaction \<Rightarrow> bool \<times> SubAgentResult \<times> string option" where
  "judged r v =
     (case v of
        Verdict b \<Rightarrow> (b, r, None)
      | Judged j \<Rightarrow>
          (sf_satisfied j, (case sf_score j of None \<Rightarrow> r | Some sc \<Rightarrow> r\<lparr>sr_score := Some sc\<rparr>),
           (if \<not> sf_satisfied j \<and> nullish (sf_feedback j) [] \<noteq> [] then sf_feedback j else None))
      | NoVerdict \<Rightarrow> (False, r, None))"

definition evaluate_round ::
    "'x loop_env \<Rightarrow> SubAgentResult \<Rightarrow> nat \<Rightarrow> ('x, bool \<times> SubAgentResult \<times> string option) orch_call" where
  "evaluate_round L r n x =
     (case rl_satisfactionFn (le_options L) of
        Some f \<Rightarrow> and_then (f r n x) (\<lambda>v x. (Inr (judged r v), x))
      | None \<Rightarrow>
          (case sr_score r of
             Some sc \<Rightarrow> (Inr (js_le (rl_qualityThreshold (le_options L)) sc, r, None), x)
           | None \<Rightarrow> (Inr (True, r, None), x)))"

definition next_message ::
    "'x loop_env \<Rightarrow> 'x feedback_provider option \<Rightarrow> string option \<Rightarrow> SubAgentResult \<Rightarrow> nat
       \<Rightarrow> ('x, string \<times> feedback_source) orch_call" where
  "next_message L provider feedback r n x =
     (case feedback of
        Some m \<Rightarrow> (Inr (m, FromEvaluator), x)
      | None \<Rightarrow>
          (case provider of
             Some f \<Rightarrow> and_then (f r n x) (\<lambda>m x. (Inr (m, FromProvider), x))
           | None \<Rightarrow> (Inr (default_feedback L r n, FromDefault), x)))"

text \<open>How a round ends: the loop stops, or it goes on with a new state.\<close>

datatype round_result = Stop stop_reason loop_state | Again loop_state

definition active_signal :: "'x loop_env \<Rightarrow> SubAgentTask \<Rightarrow> nat option" where
  "active_signal L task = or_else (st_signal task) (or_else (rl_signal (le_options L)) (le_parentSignal L))"

definition delete_checkpoint :: "'x loop_env \<Rightarrow> string \<Rightarrow> ('x, unit) orch_call" where
  "delete_checkpoint L agent x =
     (case rl_stateStore (le_options L) of
        None \<Rightarrow> (Inr (), x)
      | Some store \<Rightarrow> ls_delete store (getCheckpointKey (le_parent L) agent) x)"

text \<open>What follows a successful run: the evaluation, then the end of the loop or the next message.\<close>

definition after_success ::
    "'x loop_env \<Rightarrow> SubAgentTask \<Rightarrow> 'x feedback_provider option \<Rightarrow> loop_state \<Rightarrow> SubAgentResult
       \<Rightarrow> ('x, round_result) orch_call" where
  "after_success L task provider s r x =
     (let n = s_iteration s; agent = st_agentName task
      in and_then (evaluate_round L r n x) (\<lambda>(satisfied, r, feedback) x.
           let s = s\<lparr>s_history := butlast (s_history s) @ [r]\<rparr>
           in if satisfied then and_then (delete_checkpoint L agent x) (\<lambda>_ x. (Inr (Stop Satisfied s), x))
              else if over_budget L s then (Inr (Stop Budget_exceeded s), x)
              else if n < rl_maxIterations (le_options L)
              then and_then (next_message L provider feedback r n x) (\<lambda>(m, fs) x.
                     let s = s\<lparr>s_message := m, s_sequence := s_sequence s + 1\<rparr>
                     in and_then (saveCheckpoint L agent fs (rl_checkpointTtl (le_options L)) s x)
                          (\<lambda>_ x. (Inr (Again s), x)))
              else (Inr (Again s), x)))"

definition loop_round ::
    "'x loop_env \<Rightarrow> SubAgentTask \<Rightarrow> 'x feedback_provider option \<Rightarrow> loop_state \<Rightarrow> ('x, round_result) orch_call" where
  "loop_round L task provider s x =
     (if is_aborted (le_orch L) (active_signal L task) x then (Inr (Stop Aborted s), x)
      else if over_budget L s then (Inr (Stop Budget_exceeded s), x)
      else let n = s_iteration s + 1
           in and_then (delegate (le_orch L) DEFAULT_MAX_DEPTH (le_parent L) (le_parentSignal L)
                (round_task L task s) (Some n) (active_signal L task) x) (\<lambda>r x.
                let s = s\<lparr>s_iteration := n, s_history := s_history s @ [r],
                     s_tokens := s_tokens s + (case sr_tokens r of None \<Rightarrow> 0 | Some t \<Rightarrow> tu_total t),
                     s_duration := s_duration s + nullish (sr_durationMs r) 0\<rparr>
                in if sr_status r \<noteq> Success
                   then let s = s\<lparr>s_sequence := s_sequence s + 1\<rparr>
                        in and_then (saveCheckpoint L (st_agentName task) FromDefault
                             (rl_errorCheckpointTtl (le_options L)) s x) (\<lambda>_ x. (Inr (Stop Run_failed s), x))
                   else after_success L task provider s r x))"

section \<open>The loop\<close>

record RefinementLoopResult =
  rr_finalResponse :: string
  rr_iterations :: nat
  rr_satisfied :: bool
  rr_history :: "SubAgentResult list"
  rr_terminationReason :: stop_reason
  rr_totalTokens :: int
  rr_totalDurationMs :: int

definition last_success :: "SubAgentResult list \<Rightarrow> SubAgentResult option" where
  "last_success rs = List.find (\<lambda>r. sr_status r = Success) (rev rs)"

definition final_response :: "SubAgentResult list \<Rightarrow> string" where
  "final_response rs =
     (case last_success rs of
        Some r \<Rightarrow> sr_response r
      | None \<Rightarrow> (if rs = [] then [] else nullish (sr_error (last rs)) []))"

definition loop_result :: "stop_reason \<Rightarrow> loop_state \<Rightarrow> RefinementLoopResult" where
  "loop_result why s =
     \<lparr>rr_finalResponse = final_response (s_history s), rr_iterations = length (s_history s),
      rr_satisfied = (why = Satisfied), rr_history = s_history s, rr_terminationReason = why,
      rr_totalTokens = s_tokens s, rr_totalDurationMs = s_duration s\<rparr>"

text \<open>\<open>rounds\<close> is the number of rounds left, \<open>maxIter - iteration\<close>.\<close>

fun loop_rounds ::
    "nat \<Rightarrow> 'x loop_env \<Rightarrow> SubAgentTask \<Rightarrow> 'x feedback_provider option \<Rightarrow> loop_state
       \<Rightarrow> ('x, RefinementLoopResult) orch_call" where
  "loop_rounds 0 L task provider s x = (Inr (loop_result Max_rounds s), x)"
| "loop_rounds (Suc n) L task provider s x =
     and_then (loop_round L task provider s x) (\<lambda>next_state x.
       case next_state of
         Stop why s \<Rightarrow> (Inr (loop_result why s), x)
       | Again s \<Rightarrow> loop_rounds n L task provider s x)"

definition execute_loop ::
    "'x loop_env \<Rightarrow> SubAgentTask \<Rightarrow> 'x feedback_provider option \<Rightarrow> loop_state
       \<Rightarrow> ('x, RefinementLoopResult) orch_call" where
  "execute_loop L task provider s =
     loop_rounds (rl_maxIterations (le_options L) - s_iteration s) L task provider s"

definition with_lock ::
    "'x loop_env \<Rightarrow> string \<Rightarrow> ('x, RefinementLoopResult) orch_call \<Rightarrow> ('x, RefinementLoopResult) orch_call" where
  "with_lock L agent body x =
     and_then (acquireLock L agent x) (\<lambda>lock_id x. case body x of (r, x) \<Rightarrow> (r, releaseLock L agent lock_id x))"

definition run_loop_of ::
    "'x loop_env \<Rightarrow> SubAgentTask \<Rightarrow> 'x feedback_provider option \<Rightarrow> ('x, RefinementLoopResult) orch_call" where
  "run_loop_of L task provider =
     with_lock L (st_agentName task) (execute_loop L task provider
       \<lparr>s_history = [], s_message = st_message task, s_tokens = 0, s_duration = 0, s_sequence = 0, s_iteration = 0\<rparr>)"

definition resumed_task :: "RefinementLoopCheckpoint \<Rightarrow> SubAgentTask" where
  "resumed_task c =
     \<lparr>st_agentName = cp_agentName c, st_message = cp_currentMessage c, st_narrowing = None, st_data = None,
      st_signal = None\<rparr>"

definition resumed_state :: "RefinementLoopCheckpoint \<Rightarrow> loop_state" where
  "resumed_state c =
     \<lparr>s_history = cp_history c, s_message = cp_currentMessage c, s_tokens = cp_totalTokens c,
      s_duration = cp_totalDurationMs c, s_sequence = nullish (cp_sequence c) 0, s_iteration = cp_iteration c\<rparr>"

definition resume_loop ::
    "'x loop_env \<Rightarrow> RefinementLoopCheckpoint \<Rightarrow> 'x feedback_provider option \<Rightarrow> ('x, RefinementLoopResult) orch_call" where
  "resume_loop L c provider x =
     (if cp_version c \<noteq> 1 then (Inl (RefinementCheckpointVersion (cp_version c) 1), x)
      else if cp_feedbackSource c = FromProvider \<and> provider = None
      then (Inl (MissingFeedbackProvider (''Refinement loop checkpoint for session '' @
             quoted (sessionId (le_parent L)) @ '' was created with a custom feedbackProviderFn. '' @
             ''You must provide a feedbackProviderFn when resuming this loop.'')), x)
      else with_lock L (cp_agentName c) (execute_loop L (resumed_task c) provider (resumed_state c)) x)"

definition getCheckpoint :: "'x loop_env \<Rightarrow> string \<Rightarrow> ('x, RefinementLoopCheckpoint option) orch_call" where
  "getCheckpoint L agent x =
     (case rl_stateStore (le_options L) of
        None \<Rightarrow> (Inr None, x)
      | Some store \<Rightarrow> ls_getCheckpoint store (getCheckpointKey (le_parent L) agent) x)"

section \<open>What a loop has spent\<close>

definition tokens_used :: "SubAgentResult \<Rightarrow> int" where
  "tokens_used r = (case sr_tokens r of None \<Rightarrow> 0 | Some t \<Rightarrow> tu_total t)"

definition time_used :: "SubAgentResult \<Rightarrow> int" where
  "time_used r = nullish (sr_durationMs r) 0"

definition spent :: "SubAgentResult list \<Rightarrow> int \<times> int" where
  "spent rs = (sum_list (map tokens_used rs), sum_list (map time_used rs))"

fun exhausted :: "'x loop_env \<Rightarrow> int \<times> int \<Rightarrow> bool" where
  "exhausted L (t, d) \<longleftrightarrow>
     (\<exists>n. budget_limit L bu_maxTotalTokens = Some n \<and> n \<le> t) \<or>
     (\<exists>n. budget_limit L bu_maxTotalTimeMs = Some n \<and> n \<le> d)"

text \<open>The budget was not exhausted before any of the runs.\<close>

definition within_budget :: "'x loop_env \<Rightarrow> SubAgentResult list \<Rightarrow> bool" where
  "within_budget L rs \<longleftrightarrow> (\<forall>i < length rs. \<not> exhausted L (spent (take i rs)))"

definition accounted :: "'x loop_env \<Rightarrow> loop_state \<Rightarrow> bool" where
  "accounted L s \<longleftrightarrow>
     s_iteration s = length (s_history s) \<and> (s_tokens s, s_duration s) = spent (s_history s) \<and>
     within_budget L (s_history s)"

text \<open>
  What the criterion of the loop said of the result of round \<open>n\<close>: the satisfaction function, asked for that
  round, answered so and its score, if it gave one, is the result's; without a function the score is
  compared with the threshold, and a result without a score is good enough.
\<close>

fun accepts :: "satisfaction \<Rightarrow> bool" where
  "accepts (Verdict b) = b"
| "accepts (Judged j) = sf_satisfied j"
| "accepts NoVerdict = False"

fun score_given :: "satisfaction \<Rightarrow> jsnum option" where
  "score_given (Judged j) = sf_score j"
| "score_given _ = None"

definition verdict_on :: "'x loop_env \<Rightarrow> nat \<Rightarrow> SubAgentResult \<Rightarrow> bool \<Rightarrow> bool" where
  "verdict_on L n r good \<longleftrightarrow>
     (case rl_satisfactionFn (le_options L) of
        Some f \<Rightarrow> \<exists>raw v x y. f raw n x = (Inr v, y) \<and> good = accepts v \<and>
          r = raw\<lparr>sr_score := (if score_given v = None then sr_score raw else score_given v)\<rparr>
      | None \<Rightarrow> good = (\<forall>sc. sr_score r = Some sc \<longrightarrow> js_le (rl_qualityThreshold (le_options L)) sc))"

text \<open>Every run succeeded and its result was found wanting.\<close>

definition turned_down :: "'x loop_env \<Rightarrow> SubAgentResult list \<Rightarrow> bool" where
  "turned_down L rs \<longleftrightarrow> (\<forall>i < length rs. sr_status (rs ! i) = Success \<and> verdict_on L (Suc i) (rs ! i) False)"

text \<open>Why a loop with this history may stop.\<close>

definition stopped_for :: "'x loop_env \<Rightarrow> SubAgentTask \<Rightarrow> stop_reason \<Rightarrow> SubAgentResult list \<Rightarrow> bool" where
  "stopped_for L task why rs \<longleftrightarrow>
     (case why of
        Satisfied \<Rightarrow> rs \<noteq> [] \<and> turned_down L (butlast rs) \<and> sr_status (last rs) = Success \<and>
          verdict_on L (length rs) (last rs) True
      | Run_failed \<Rightarrow> rs \<noteq> [] \<and> turned_down L (butlast rs) \<and> sr_status (last rs) \<noteq> Success
      | Budget_exceeded \<Rightarrow> turned_down L rs \<and> exhausted L (spent rs)
      | Aborted \<Rightarrow> turned_down L rs \<and> (\<exists>x. is_aborted (le_orch L) (active_signal L task) x)
      | Max_rounds \<Rightarrow> turned_down L rs \<and> (rs \<noteq> [] \<longrightarrow> \<not> exhausted L (spent rs)))"

text \<open>A loop that goes on: the accounts are right, nothing satisfied so far, and the budget is not used up.\<close>

definition going :: "'x loop_env \<Rightarrow> loop_state \<Rightarrow> bool" where
  "going L s \<longleftrightarrow> accounted L s \<and> turned_down L (s_history s) \<and>
     (s_history s \<noteq> [] \<longrightarrow> \<not> exhausted L (spent (s_history s)))"

lemma turned_down_append:
  "turned_down L (rs @ [r]) \<longleftrightarrow>
     turned_down L rs \<and> sr_status r = Success \<and> verdict_on L (Suc (length rs)) r False"
  by (auto simp: turned_down_def less_Suc_eq nth_append)

lemma over_budget_exhausted: "over_budget L s = exhausted L (s_tokens s, s_duration s)"
  by (auto simp: over_budget_def split: option.splits)

lemma spent_append: "spent (rs @ [r]) = (fst (spent rs) + tokens_used r, snd (spent rs) + time_used r)"
  by (simp add: spent_def)

lemma within_budget_append:
  "within_budget L rs \<Longrightarrow> \<not> exhausted L (spent rs) \<Longrightarrow> within_budget L (rs @ [r])"
  by (auto simp: within_budget_def less_Suc_eq)

lemma within_budget_same:
  assumes "map tokens_used rs = map tokens_used rs'" "map time_used rs = map time_used rs'"
  shows "within_budget L rs = within_budget L rs'" "spent rs = spent rs'"
proof -
  have "spent (take i rs) = spent (take i rs')" for i
    using assms by (simp add: spent_def take_map [symmetric])
  moreover have "length rs = length rs'" using assms(1) by (metis length_map)
  ultimately show "within_budget L rs = within_budget L rs'" by (simp add: within_budget_def)
  show "spent rs = spent rs'" using assms by (simp add: spent_def)
qed

lemma judged_same:
  assumes "judged r v = (b, r', f)"
  shows "sr_status r' = sr_status r" "tokens_used r' = tokens_used r" "time_used r' = time_used r"
  using assms by (auto simp: judged_def tokens_used_def time_used_def split: satisfaction.splits option.splits)

lemma evaluated_same:
  assumes "evaluate_round L r n x = (Inr (b, r', f), y)"
  shows "sr_status r' = sr_status r" "tokens_used r' = tokens_used r" "time_used r' = time_used r"
  using assms judged_same
  by (auto simp: evaluate_round_def and_then_Inr_iff split: option.splits)

lemma evaluated_verdict:
  assumes "evaluate_round L r n x = (Inr (b, r', f), y)"
  shows "verdict_on L n r' b"
proof (cases "rl_satisfactionFn (le_options L)")
  case None
  with assms show ?thesis by (auto simp: evaluate_round_def verdict_on_def split: option.splits)
next
  case (Some g)
  with assms obtain v where v: "g r n x = (Inr v, y)" "judged r v = (b, r', f)"
    by (auto simp: evaluate_round_def and_then_Inr_iff)
  from v(2) have "b = accepts v" "r' = r\<lparr>sr_score := (if score_given v = None then sr_score r else score_given v)\<rparr>"
    by (cases v; auto simp: judged_def split: option.splits)+
  with v(1) have "\<exists>raw v x y. g raw n x = (Inr v, y) \<and> b = accepts v \<and>
      r' = raw\<lparr>sr_score := (if score_given v = None then sr_score raw else score_given v)\<rparr>" by blast
  with Some show ?thesis by (simp add: verdict_on_def)
qed

lemma accounted_rescored:
  assumes "accounted L s" "s_history s = h @ [r]" "tokens_used r' = tokens_used r" "time_used r' = time_used r"
  shows "accounted L (s\<lparr>s_history := h @ [r']\<rparr>)"
proof -
  have "map tokens_used (h @ [r']) = map tokens_used (h @ [r])" "map time_used (h @ [r']) = map time_used (h @ [r])"
    using assms(3,4) by simp_all
  note same = within_budget_same(1) [where L = L, OF this] within_budget_same(2) [OF this]
  from assms(1,2) have "within_budget L (h @ [r])" "spent (h @ [r]) = (s_tokens s, s_duration s)"
    "s_iteration s = length (h @ [r])" by (auto simp: accounted_def)
  with same show ?thesis by (simp add: accounted_def)
qed

section \<open>One round keeps the accounts\<close>

definition keeps :: "'x loop_env \<Rightarrow> SubAgentTask \<Rightarrow> nat \<Rightarrow> round_result \<Rightarrow> bool" where
  "keeps L task n res \<longleftrightarrow>
     (case res of
        Stop why s \<Rightarrow> accounted L s \<and> stopped_for L task why (s_history s) \<and> why \<noteq> Max_rounds \<and> s_iteration s \<le> n
      | Again s \<Rightarrow> going L s \<and> s_iteration s = n)"

lemma after_success_keeps:
  assumes "after_success L task provider s r x = (Inr res, y)" "accounted L s" "s_history s = h @ [r]"
    and "turned_down L h" "sr_status r = Success"
  shows "keeps L task (s_iteration s) res"
proof -
  from assms(1) obtain b r' f z where
    e: "evaluate_round L r (s_iteration s) x = (Inr (b, r', f), z)"
    by (auto simp: after_success_def Let_def and_then_Inr_iff)
  let ?s = "s\<lparr>s_history := h @ [r']\<rparr>"
  have a: "accounted L ?s" by (rule accounted_rescored [OF assms(2,3) evaluated_same(2,3) [OF e]])
  have ok: "sr_status r' = Success" using assms(5) evaluated_same(1) [OF e] by simp
  have "s_iteration s = Suc (length h)" using assms(2,3) by (simp add: accounted_def)
  with evaluated_verdict [OF e] have v: "verdict_on L (Suc (length h)) r' b" by simp
  have down: "turned_down L (h @ [r'])" if "\<not> b" using v that ok assms(4) by (simp add: turned_down_append)
  have over: "over_budget L ?s = exhausted L (spent (h @ [r']))"
    using a by (simp add: over_budget_exhausted accounted_def)
  have more: "accounted L (?s\<lparr>s_message := m, s_sequence := k\<rparr>)" for m k using a by (simp add: accounted_def)
  from assms(1) e assms(3) show ?thesis
    using a ok more over v down assms(4)
    by (auto simp: after_success_def Let_def and_then_Inr_iff keeps_def stopped_for_def going_def split: if_splits)
qed

lemma loop_round_keeps:
  assumes "loop_round L task provider s x = (Inr res, y)" "going L s"
  shows "keeps L task (Suc (s_iteration s)) res"
proof (cases "is_aborted (le_orch L) (active_signal L task) x \<or> over_budget L s")
  case True
  with assms show ?thesis
    by (auto simp: loop_round_def keeps_def stopped_for_def going_def accounted_def over_budget_exhausted split: if_splits)
next
  case False
  have acc: "accounted L s" "turned_down L (s_history s)" using assms(2) by (simp_all add: going_def)
  from assms(1) False obtain r z where
    d: "delegate (le_orch L) DEFAULT_MAX_DEPTH (le_parent L) (le_parentSignal L) (round_task L task s)
      (Some (s_iteration s + 1)) (active_signal L task) x = (Inr r, z)"
    by (auto simp: loop_round_def Let_def and_then_Inr_iff)
  let ?s = "s\<lparr>s_iteration := s_iteration s + 1, s_history := s_history s @ [r],
    s_tokens := s_tokens s + (case sr_tokens r of None \<Rightarrow> 0 | Some t \<Rightarrow> tu_total t),
    s_duration := s_duration s + nullish (sr_durationMs r) 0\<rparr>"
  have e: "fst (spent (s_history s)) = s_tokens s" "snd (spent (s_history s)) = s_duration s"
    "\<not> exhausted L (spent (s_history s))" "within_budget L (s_history s)"
    using acc(1) False by (simp_all add: accounted_def over_budget_exhausted) (metis fst_conv, metis snd_conv)
  have a: "accounted L ?s"
    using acc(1) e within_budget_append [OF e(4,3)]
    by (simp add: accounted_def spent_append tokens_used_def time_used_def)
  show ?thesis
  proof (cases "sr_status r = Success")
    case True
    with assms(1) False d have "after_success L task provider ?s r z = (Inr res, y)"
      by (simp add: loop_round_def Let_def)
    from after_success_keeps [OF this a, of "s_history s"] acc(2) True show ?thesis by simp
  next
    case failed: False
    have a': "accounted L (?s\<lparr>s_sequence := k\<rparr>)" for k using a by (simp add: accounted_def)
    from assms(1) False d failed obtain k where "res = Stop Run_failed (?s\<lparr>s_sequence := k\<rparr>)"
      by (auto simp: loop_round_def Let_def and_then_Inr_iff)
    with a' [of k] failed acc(2) show ?thesis by (simp add: keeps_def stopped_for_def)
  qed
qed

text \<open>
  The answer of a history in which all runs but possibly the last succeeded: the last successful one's, and
  the error when the first run failed.
\<close>

fun best_answer :: "SubAgentResult list \<Rightarrow> string" where
  "best_answer [] = []"
| "best_answer [r] = (if sr_status r = Success then sr_response r else nullish (sr_error r) [])"
| "best_answer (q # r # rs) =
     (if rs = [] \<and> sr_status r \<noteq> Success then sr_response q else best_answer (r # rs))"

lemma last_success_append:
  "last_success (rs @ [r]) = (if sr_status r = Success then Some r else last_success rs)"
  by (simp add: last_success_def)

lemma best_answer_append:
  "best_answer (rs @ [r]) =
     (if sr_status r = Success then sr_response r else if rs = [] then nullish (sr_error r) [] else sr_response (last rs))"
proof (induction rs rule: best_answer.induct)
  case (3 q r' rs)
  then show ?case by (cases rs) auto
qed simp_all

lemma final_response_answer:
  assumes "\<forall>r \<in> set (butlast rs). sr_status r = Success"
  shows "final_response rs = best_answer rs"
proof (cases rs rule: rev_cases)
  case Nil
  then show ?thesis by (simp add: final_response_def last_success_def)
next
  case (snoc us r)
  have "last_success us = Some (last us)" if "us \<noteq> []"
    using that assms snoc by (cases us rule: rev_cases) (simp_all add: last_success_append butlast_append)
  with snoc show ?thesis
    by (cases "us = []") (simp_all add: final_response_def last_success_append best_answer_append last_success_def)
qed

definition settled :: "'x loop_env \<Rightarrow> SubAgentTask \<Rightarrow> nat \<Rightarrow> RefinementLoopResult \<Rightarrow> bool" where
  "settled L task n r \<longleftrightarrow>
     rr_iterations r = length (rr_history r) \<and> rr_iterations r \<le> n \<and>
     (rr_totalTokens r, rr_totalDurationMs r) = spent (rr_history r) \<and>
     within_budget L (rr_history r) \<and>
     stopped_for L task (rr_terminationReason r) (rr_history r) \<and>
     (rr_terminationReason r = Max_rounds \<longrightarrow> rr_iterations r = n) \<and>
     rr_finalResponse r = best_answer (rr_history r) \<and>
     (rr_satisfied r \<longleftrightarrow> rr_terminationReason r = Satisfied)"

lemma turned_down_succeeded: "turned_down L rs \<Longrightarrow> r \<in> set rs \<Longrightarrow> sr_status r = Success"
  by (auto simp: turned_down_def in_set_conv_nth)

lemma stopped_runs: "stopped_for L task why rs \<Longrightarrow> \<forall>r \<in> set (butlast rs). sr_status r = Success"
  by (auto simp: stopped_for_def split: stop_reason.splits dest: turned_down_succeeded in_set_butlastD)

lemma loop_rounds_settled:
  assumes "loop_rounds n L task provider s x = (Inr r, y)" "going L s"
  shows "settled L task (s_iteration s + n) r"
  using assms
proof (induction n arbitrary: s x)
  case 0
  then have "stopped_for L task Max_rounds (s_history s)" by (simp add: going_def stopped_for_def)
  with 0 final_response_answer [OF stopped_runs [OF this]] show ?case
    by (auto simp: loop_result_def settled_def going_def accounted_def)
next
  case (Suc n)
  from Suc.prems(1) obtain res z where round: "loop_round L task provider s x = (Inr res, z)"
    and rest: "(case res of Stop why s \<Rightarrow> (Inr (loop_result why s), z) | Again s \<Rightarrow> loop_rounds n L task provider s z) = (Inr r, y)"
    by (auto simp: and_then_Inr_iff)
  note k = loop_round_keeps [OF round Suc.prems(2)]
  show ?case
  proof (cases res)
    case (Stop why s')
    with k have "stopped_for L task why (s_history s')" by (simp add: keeps_def)
    from final_response_answer [OF stopped_runs [OF this]] Stop k rest show ?thesis
      by (auto simp: keeps_def loop_result_def settled_def accounted_def)
  next
    case (Again s')
    with k rest Suc.IH [of s' z] show ?thesis by (simp add: keeps_def)
  qed
qed

lemma with_lock_result: "with_lock L agent body x = (Inr r, y) \<Longrightarrow> \<exists>z z'. body z = (Inr r, z')"
proof -
  assume "with_lock L agent body x = (Inr r, y)"
  then obtain lock_id z where "(case body z of (r, x) \<Rightarrow> (r, releaseLock L agent lock_id x)) = (Inr r, y)"
    by (auto simp: with_lock_def and_then_Inr_iff)
  then show ?thesis by (cases "body z") auto
qed

text \<open>
  C32: the result of a refinement loop accounts for it. It ran at most the configured number of rounds; its
  totals are the sums over the history; before every run the budget was not exhausted; its answer is that of
  the last successful run. And the reason it gives is the reason it stopped for: every result before the last
  was turned down by the loop's criterion, a satisfied loop's last result was accepted by it, a failed one's
  last run failed, a loop out of budget has spent it and nothing it got was accepted, an aborted one saw its
  signal aborted, and one that ran out of rounds ran all of them, turned all of them down and had budget left.
\<close>

theorem refinement_accounts:
  assumes "run_loop_of L task provider x = (Inr r, y)"
  shows "settled L task (rl_maxIterations (le_options L)) r"
proof -
  let ?s = "\<lparr>s_history = [], s_message = st_message task, s_tokens = 0, s_duration = 0, s_sequence = 0, s_iteration = 0\<rparr>"
  from with_lock_result [OF assms [unfolded run_loop_of_def execute_loop_def]] obtain z z' where
    "loop_rounds (rl_maxIterations (le_options L) - s_iteration ?s) L task provider ?s z = (Inr r, z')"
    by blast
  from loop_rounds_settled [OF this] show ?thesis
    by (simp add: going_def accounted_def spent_def within_budget_def turned_down_def)
qed

section \<open>Checkpoints\<close>

lemma next_source:
  "next_message L provider f r n z = (Inr (m, fs), z') \<Longrightarrow> fs = FromProvider \<longrightarrow> provider \<noteq> None"
  by (auto simp: next_message_def and_then_Inr_iff split: option.splits)

lemma success_saved:
  assumes "after_success L task provider s r x = (Inr (Again s'), y)" "s_iteration s < rl_maxIterations (le_options L)"
  shows "\<exists>fs z. saveCheckpoint L (st_agentName task) fs (rl_checkpointTtl (le_options L)) s' z = (Inr (), y) \<and>
    (fs = FromProvider \<longrightarrow> provider \<noteq> None) \<and> s_sequence s' = s_sequence s + 1"
proof -
  from assms obtain r' f z m fs z' where
    n: "next_message L provider f r' (s_iteration s) z = (Inr (m, fs), z')" and
    e: "s' = s\<lparr>s_history := butlast (s_history s) @ [r'], s_message := m, s_sequence := s_sequence s + 1\<rparr>"
      "saveCheckpoint L (st_agentName task) fs (rl_checkpointTtl (le_options L)) s' z' = (Inr (), y)"
    by (auto simp: after_success_def Let_def and_then_Inr_iff split: if_splits)
  from e next_source [OF n] show ?thesis by (intro exI [of _ fs] exI [of _ z']) simp
qed

lemma success_iteration: "after_success L task provider s r x = (Inr (Again s'), y) \<Longrightarrow> s_iteration s' = s_iteration s"
  by (auto simp: after_success_def Let_def and_then_Inr_iff split: if_splits)

lemma again_saved:
  assumes "loop_round L task provider s x = (Inr (Again s'), y)" "s_iteration s' < rl_maxIterations (le_options L)"
  shows "\<exists>fs z. saveCheckpoint L (st_agentName task) fs (rl_checkpointTtl (le_options L)) s' z = (Inr (), y) \<and>
    (fs = FromProvider \<longrightarrow> provider \<noteq> None) \<and> s_sequence s' = s_sequence s + 1"
proof -
  from assms(1) obtain s1 r z where s1: "after_success L task provider s1 r z = (Inr (Again s'), y)"
    "s_sequence s1 = s_sequence s"
    by (auto simp: loop_round_def Let_def and_then_Inr_iff split: if_splits)
  with success_saved [OF s1(1)] success_iteration [OF s1(1)] assms(2) show ?thesis by simp
qed

lemma failed_saved:
  assumes "loop_round L task provider s x = (Inr (Stop Run_failed s'), y)"
  shows "\<exists>fs ttl z. saveCheckpoint L (st_agentName task) fs ttl s' z = (Inr (), y) \<and> s_sequence s' = s_sequence s + 1"
proof -
  have "after_success L task provider s1 r z \<noteq> (Inr (Stop Run_failed s'), y)" for s1 r z
    by (auto simp: after_success_def Let_def and_then_Inr_iff split: if_splits)
  with assms show ?thesis
    by (auto simp: loop_round_def Let_def and_then_Inr_iff split: if_splits)
qed

lemma saved_written:
  assumes "saveCheckpoint L agent fs ttl s z = (Inr (), y)" "rl_stateStore (le_options L) = Some store"
  shows "\<exists>z'. ls_setCheckpoint store (getCheckpointKey (le_parent L) agent) (loop_checkpoint L agent fs s z') ttl z' = (Inr (), y)"
  using assms by (auto simp: saveCheckpoint_def Let_def and_then_Inr_iff split: option.splits if_splits)

text \<open>The message, the narrowing, the data and the signal of a task are all a round takes from it, beside the agent.\<close>

lemma round_same_task:
  assumes "st_agentName task' = st_agentName task" "st_narrowing task' = st_narrowing task"
    "st_data task' = st_data task" "st_signal task' = st_signal task"
  shows "loop_round L task' provider s x = loop_round L task provider s x"
proof -
  have a: "round_task L task' s = round_task L task s"
    using assms by (simp add: round_task_def round_limits_def)
  have b: "active_signal L task' = active_signal L task" using assms by (simp add: active_signal_def)
  have c: "after_success L task' provider = after_success L task provider"
    by (simp only: after_success_def assms(1) fun_eq_iff simp_thms)
  show ?thesis by (simp only: loop_round_def a b c assms(1))
qed

lemma rounds_same_task:
  assumes "st_agentName task' = st_agentName task" "st_narrowing task' = st_narrowing task"
    "st_data task' = st_data task" "st_signal task' = st_signal task"
  shows "loop_rounds n L task' provider s x = loop_rounds n L task provider s x"
proof (induction n arbitrary: s x)
  case (Suc n)
  have "(\<lambda>res x. case res of Stop why s \<Rightarrow> (Inr (loop_result why s), x) | Again s \<Rightarrow> loop_rounds n L task' provider s x) =
    (\<lambda>res x. case res of Stop why s \<Rightarrow> (Inr (loop_result why s), x) | Again s \<Rightarrow> loop_rounds n L task provider s x)"
    using Suc.IH by (simp add: fun_eq_iff split: round_result.splits)
  then show ?case using round_same_task [where L = L, OF assms] by simp
qed simp

text \<open>
  C33: a loop can be resumed where it stopped. When a round goes on and another may follow, the last thing
  it did was to store a checkpoint, and resuming from that checkpoint, in any later state of the world,
  does under the lock exactly what the interrupted loop would have done next, for a task without narrowing,
  data and signal of its own.
\<close>

theorem resumed_loop_continues:
  assumes "loop_round L task provider s x = (Inr (Again s'), y)"
    and "s_iteration s' < rl_maxIterations (le_options L)" "rl_stateStore (le_options L) = Some store"
    and "st_narrowing task = None" "st_data task = None" "st_signal task = None"
  shows "\<exists>c z. ls_setCheckpoint store (getCheckpointKey (le_parent L) (st_agentName task)) c
        (rl_checkpointTtl (le_options L)) z = (Inr (), y) \<and>
      (\<forall>w. resume_loop L c provider w = with_lock L (st_agentName task)
        (loop_rounds (rl_maxIterations (le_options L) - s_iteration s') L task provider s') w)"
proof -
  let ?agent = "st_agentName task"
  from again_saved [OF assms(1,2)] obtain fs z where
    saved: "saveCheckpoint L ?agent fs (rl_checkpointTtl (le_options L)) s' z = (Inr (), y)"
    and fs: "fs = FromProvider \<Longrightarrow> provider \<noteq> None" by blast
  from saved_written [OF saved assms(3)] obtain z' where
    written: "ls_setCheckpoint store (getCheckpointKey (le_parent L) ?agent) (loop_checkpoint L ?agent fs s' z')
      (rl_checkpointTtl (le_options L)) z' = (Inr (), y)" by blast
  let ?c = "loop_checkpoint L ?agent fs s' z'"
  have state: "resumed_state ?c = s'" "cp_version ?c = 1" "cp_feedbackSource ?c = fs" "cp_agentName ?c = ?agent"
    by (simp_all add: resumed_state_def loop_checkpoint_def)
  have fresh: "\<not> (cp_feedbackSource ?c = FromProvider \<and> provider = None)" using fs by (auto simp: state(3))
  have same: "loop_rounds n L (resumed_task ?c) provider s' = loop_rounds n L task provider s'" for n
    by (rule ext, rule rounds_same_task) (simp_all add: resumed_task_def loop_checkpoint_def assms)
  have "resume_loop L ?c provider w = with_lock L ?agent
      (loop_rounds (rl_maxIterations (le_options L) - s_iteration s') L task provider s') w" for w
    unfolding resume_loop_def if_not_P [OF fresh] by (simp add: state(1,2,4) execute_loop_def same)
  with written show ?thesis by blast
qed

text \<open>
  A task with a narrowing of its own loses it: what resumes runs with all tools, permissions and roles of
  the parent.
\<close>

lemma resume_forgets_narrowing:
  "\<exists>n. st_narrowing (round_task L (resumed_task c) s) = Some n \<and> allowedTools n = None \<and> deniedTools n = None \<and>
     allowedPermissions n = None \<and> allowedRoles n = None"
  by (simp add: round_task_def resumed_task_def no_narrowing_set_def)

subsection \<open>A checkpoint that was left behind\<close>

lemma first_save_conflicts:
  assumes "saveCheckpoint L agent fs ttl s z = (Inr (), y)" "rl_stateStore (le_options L) = Some store"
    and "\<And>x. ls_getCheckpoint store (getCheckpointKey (le_parent L) agent) x = (Inr (Some c), x)"
    and "cp_sequence c = Some k" "s_sequence s \<le> k"
  shows False
  using assms by (auto simp: saveCheckpoint_def Let_def)

text \<open>
  a checkpoint left behind blocks the next loop. Checkpoints are deleted only when a loop ends
  satisfied; while one of an earlier loop of the agent in the session is stored, a new loop never gets to a
  second round and cannot report a failed run: it returns only when it is satisfied at once, aborted or out
  of budget, and otherwise throws a checkpoint conflict.
\<close>

theorem leftover_checkpoint_blocks_loop:
  assumes "rl_stateStore (le_options L) = Some store"
    and "\<And>x. ls_getCheckpoint store (getCheckpointKey (le_parent L) (st_agentName task)) x = (Inr (Some c), x)"
    and "cp_sequence c = Some k" "1 \<le> k" "2 \<le> rl_maxIterations (le_options L)"
    and "run_loop_of L task provider x = (Inr r, y)"
  shows "rr_iterations r \<le> 1 \<and> rr_terminationReason r \<in> {Satisfied, Aborted, Budget_exceeded}"
proof -
  let ?s = "\<lparr>s_history = [], s_message = st_message task, s_tokens = 0, s_duration = 0, s_sequence = 0, s_iteration = 0\<rparr>"
  note blocked = first_save_conflicts [OF _ assms(1,2,3)]
  from with_lock_result [OF assms(6) [unfolded run_loop_of_def execute_loop_def]] obtain z z' where
    "loop_rounds (rl_maxIterations (le_options L) - s_iteration ?s) L task provider ?s z = (Inr r, z')" by blast
  with assms(5) obtain res w n where round: "loop_round L task provider ?s z = (Inr res, w)"
    and then_do: "(case res of Stop why s \<Rightarrow> (Inr (loop_result why s), w) | Again s \<Rightarrow> loop_rounds n L task provider s w) = (Inr r, z')"
    by (cases "rl_maxIterations (le_options L)") (auto simp: and_then_Inr_iff)
  have rest: "r = loop_result why s" if "res = Stop why s" for why s using then_do that by simp
  have start: "going L ?s" by (simp add: going_def accounted_def spent_def within_budget_def turned_down_def)
  note keeps = loop_round_keeps [OF round start]
  show ?thesis
  proof (cases res)
    case (Again s')
    with keeps assms(5) have "s_iteration s' < rl_maxIterations (le_options L)" by (simp add: keeps_def)
    with again_saved [of L task provider ?s z s' w] round Again obtain fs u where
      "saveCheckpoint L (st_agentName task) fs (rl_checkpointTtl (le_options L)) s' u = (Inr (), w)" "s_sequence s' = 1"
      by auto
    with blocked [OF this(1)] assms(4) show ?thesis by simp
  next
    case (Stop why s')
    have "why \<noteq> Run_failed"
    proof
      assume "why = Run_failed"
      with failed_saved [of L task provider ?s z s' w] round Stop obtain fs ttl u where
        "saveCheckpoint L (st_agentName task) fs ttl s' u = (Inr (), w)" "s_sequence s' = 1" by auto
      with blocked [OF this(1)] assms(4) show False by simp
    qed
    with Stop rest keeps show ?thesis
      by (cases why) (auto simp: keeps_def loop_result_def accounted_def)
  qed
qed

section \<open>A loop\<close>

definition eager_env :: "unit orch_env" where
  "eager_env =
     \<lparr>oe_run = (\<lambda>_ _ x. (Inr \<lparr>rp_output = Some ''draft'', rp_toolCalls = None, rp_score = None,
        rp_usage = Some \<lparr>inputTokens = Some 3, outputTokens = Some 4, totalTokens = Some 7\<rparr>\<rparr>, x)),
      oe_now = (\<lambda>_. 0), oe_aborted = (\<lambda>_ _. False)\<rparr>"

definition draft :: SubAgentResult where
  "draft = \<lparr>sr_agentName = ''greeter'', sr_status = Success, sr_response = ''draft'', sr_toolCount = 0, sr_error = None,
     sr_score = None, sr_tokens = Some \<lparr>tu_input = 3, tu_output = 4, tu_total = 7\<rparr>, sr_durationMs = Some 0\<rparr>"

text \<open>A store that grants every lock and holds one checkpoint.\<close>

definition holding_store :: "RefinementLoopCheckpoint option \<Rightarrow> unit loop_store" where
  "holding_store c =
     \<lparr>ls_setIfNotExists = Some (\<lambda>_ _ _ x. (Inr True, x)), ls_getLock = (\<lambda>_ x. (Inr None, x)),
      ls_setLock = (\<lambda>_ _ _ x. (Inr (), x)), ls_delete = (\<lambda>_ x. (Inr (), x)),
      ls_getCheckpoint = (\<lambda>_ x. (Inr c, x)), ls_setCheckpoint = (\<lambda>_ _ _ x. (Inr (), x))\<rparr>"

definition picky_loop :: "bool \<Rightarrow> RefinementLoopCheckpoint option \<Rightarrow> unit loop_env" where
  "picky_loop verdict c =
     \<lparr>le_orch = eager_env, le_lockId = (\<lambda>x. (''id'', x)), le_isoNow = (\<lambda>_. ''now''),
      le_options = \<lparr>rl_maxIterations = 3, rl_qualityThreshold = Fin (85 / 100), rl_signal = None,
        rl_satisfactionFn = Some (\<lambda>_ _ x. (Inr (Verdict verdict), x)), rl_budget = None,
        rl_stateStore = Some (holding_store c), rl_checkpointTtl = 86400, rl_errorCheckpointTtl = 3600, rl_lockTtl = 60\<rparr>,
      le_parent = manager, le_parentSignal = None\<rparr>"

definition plain_errand :: SubAgentTask where
  "plain_errand = \<lparr>st_agentName = ''greeter'', st_message = ''Hello'', st_narrowing = None, st_data = None, st_signal = None\<rparr>"

definition begun :: loop_state where
  "begun = \<lparr>s_history = [], s_message = ''Hello'', s_tokens = 0, s_duration = 0, s_sequence = 0, s_iteration = 0\<rparr>"

definition once_round :: loop_state where
  "once_round = \<lparr>s_history = [draft], s_message = default_feedback (picky_loop False None) draft 1, s_tokens = 7,
     s_duration = 0, s_sequence = 1, s_iteration = 1\<rparr>"

lemmas picky_defs = picky_loop_def holding_store_def eager_env_def plain_errand_def begun_def

lemma manager_request:
  "\<exists>input :: unit RunInput. delegation_request DEFAULT_MAX_DEPTH manager (round_task (picky_loop v c) plain_errand begun) (Some (Suc 0)) = Inr input"
  by (simp add: delegation_request_def Let_def narrow_held_def DEFAULT_MAX_DEPTH_def manager_def depth_in_def
      agentic_of_def data_of_def get_prop_def number_of_def or_else_def round_task_def no_narrowing_set_def plain_errand_def)

lemma draft_delegated:
  "delegate (le_orch (picky_loop v c)) DEFAULT_MAX_DEPTH (le_parent (picky_loop v c)) (le_parentSignal (picky_loop v c))
     (round_task (picky_loop v c) plain_errand begun) (Some (Suc 0)) (active_signal (picky_loop v c) plain_errand) () = (Inr draft, ())"
proof -
  from manager_request obtain input :: "unit RunInput" where
    i: "delegation_request DEFAULT_MAX_DEPTH manager (round_task (picky_loop v c) plain_errand begun) (Some (Suc 0)) = Inr input"
    by blast
  have "le_parent (picky_loop v c) = manager" "le_orch (picky_loop v c) = eager_env"
    "le_parentSignal (picky_loop v c) = None" "active_signal (picky_loop v c) plain_errand = None"
    "st_signal (round_task (picky_loop v c) plain_errand begun) = None"
    "st_agentName (round_task (picky_loop v c) plain_errand begun) = ''greeter''"
    by (simp_all add: active_signal_def or_else_def round_task_def picky_defs)
  then show ?thesis
    by (simp add: delegate_def Let_def i is_aborted_def or_else_def)
      (simp add: eager_env_def draft_def tokens_of_def)
qed

lemma picky_fields:
  "is_aborted (le_orch (picky_loop v c)) (active_signal (picky_loop v c) plain_errand) ()  = False"
  "over_budget (picky_loop v c) s = False"
  "rl_maxIterations (le_options (picky_loop v c)) = 3"
  "rl_stateStore (le_options (picky_loop v c)) = Some (holding_store c)"
  "evaluate_round (picky_loop v c) r n () = (Inr (v, r, None), ())"
  by (simp_all add: active_signal_def or_else_def is_aborted_def over_budget_def budget_limit_def
      evaluate_round_def judged_def picky_defs)

lemma draft_fields:
  "sr_status draft = Success" "sr_tokens draft = Some \<lparr>tu_input = 3, tu_output = 4, tu_total = 7\<rparr>" "sr_durationMs draft = Some 0"
  by (simp_all add: draft_def)

abbreviation drafted :: loop_state where
  "drafted \<equiv> \<lparr>s_history = [draft], s_message = ''Hello'', s_tokens = 7, s_duration = 0, s_sequence = 0, s_iteration = 1\<rparr>"

lemma first_round:
  "loop_round (picky_loop v c) plain_errand None begun () = after_success (picky_loop v c) plain_errand None drafted draft ()"
  using draft_delegated [of v c]
  by (simp add: loop_round_def Let_def picky_fields draft_fields begun_def)

lemma picky_round:
  "loop_round (picky_loop False None) plain_errand None begun () = (Inr (Again once_round), ())"
  unfolding first_round
  by (simp add: after_success_def Let_def picky_fields next_message_def saveCheckpoint_def once_round_def holding_store_def)

lemma happy_run:
  "\<exists>r. run_loop_of (picky_loop True c) plain_errand None () = (Inr r, ()) \<and> rr_history r = [draft] \<and>
     rr_terminationReason r = Satisfied"
proof -
  have "loop_round (picky_loop True c) plain_errand None begun () = (Inr (Stop Satisfied drafted), ())"
    unfolding first_round
    by (simp add: after_success_def Let_def picky_fields delete_checkpoint_def holding_store_def)
  then have "execute_loop (picky_loop True c) plain_errand None begun () = (Inr (loop_result Satisfied drafted), ())"
    by (simp add: execute_loop_def picky_fields begun_def numeral_3_eq_3)
  then have "execute_loop (picky_loop True c) plain_errand None \<lparr>s_history = [], s_message = st_message plain_errand,
      s_tokens = 0, s_duration = 0, s_sequence = 0, s_iteration = 0\<rparr> () = (Inr (loop_result Satisfied drafted), ())"
    by (simp add: begun_def plain_errand_def)
  then show ?thesis
    by (simp add: run_loop_of_def with_lock_def acquireLock_def Let_def picky_fields releaseLock_def
        loop_result_def picky_loop_def holding_store_def nullish_def)
qed

theorem refinement_accounts_witness:
  "\<exists>r. run_loop_of (picky_loop True None) plain_errand None () = (Inr r, ()) \<and>
     settled (picky_loop True None) plain_errand 3 r \<and> rr_totalTokens r = 7"
proof -
  from happy_run [of None] obtain r where r: "run_loop_of (picky_loop True None) plain_errand None () = (Inr r, ())"
    "rr_history r = [draft]" by blast
  from refinement_accounts [OF r(1)] have "settled (picky_loop True None) plain_errand 3 r" by (simp add: picky_fields)
  moreover from this r(2) have "rr_totalTokens r = 7"
    by (simp add: settled_def spent_def tokens_used_def draft_fields)
  ultimately show ?thesis using r(1) by blast
qed

theorem resumed_loop_continues_witness:
  "\<exists>c. resume_loop (picky_loop False None) c None () =
     with_lock (picky_loop False None) ''greeter''
       (loop_rounds 2 (picky_loop False None) plain_errand None once_round) ()"
proof -
  have "s_iteration once_round < rl_maxIterations (le_options (picky_loop False None))"
    "rl_stateStore (le_options (picky_loop False None)) = Some (holding_store None)"
    "st_narrowing plain_errand = None" "st_data plain_errand = None" "st_signal plain_errand = None"
    by (simp_all add: once_round_def picky_fields plain_errand_def)
  from resumed_loop_continues [OF picky_round this] show ?thesis
    by (auto simp: once_round_def picky_fields plain_errand_def)
qed

definition leftover :: RefinementLoopCheckpoint where
  "leftover = loop_checkpoint (picky_loop False None) ''greeter'' FromDefault once_round ()"

theorem leftover_checkpoint_blocks_loop_witness:
  "\<exists>r. run_loop_of (picky_loop True (Some leftover)) plain_errand None () = (Inr r, ()) \<and> rr_iterations r \<le> 1"
proof -
  from happy_run obtain r where
    r: "run_loop_of (picky_loop True (Some leftover)) plain_errand None () = (Inr r, ())" by blast
  have "cp_sequence leftover = Some 1"
    by (simp add: leftover_def loop_checkpoint_def once_round_def)
  moreover have "ls_getCheckpoint (holding_store (Some leftover)) k x = (Inr (Some leftover), x)" for k x
    by (simp add: holding_store_def)
  ultimately have "rr_iterations r \<le> 1"
    using leftover_checkpoint_blocks_loop [OF picky_fields(4) _ _ _ _ r] by (simp add: picky_fields)
  with r show ?thesis by blast
qed

end
