(* ===== verification/Parallel_Runner.thy ===== *)
theory Parallel_Runner
  imports Delegation
begin

text \<open>
  Running several sub-agents: \<open>packages/orchestration/src/runners/parallel-subagent.runner.ts\<close>. The
  retries of one task and the fallback chain are functions of the world; the race and the pool of workers
  are driven by the order in which the sub-agents settle, given as a list of events and as a step relation.
\<close>

section \<open>Arithmetic on scores\<close>

fun js_add :: "jsnum \<Rightarrow> jsnum \<Rightarrow> jsnum" where
  "js_add NaN b = NaN"
| "js_add a NaN = NaN"
| "js_add PosInf NegInf = NaN"
| "js_add NegInf PosInf = NaN"
| "js_add PosInf b = PosInf"
| "js_add a PosInf = PosInf"
| "js_add NegInf b = NegInf"
| "js_add a NegInf = NegInf"
| "js_add (Fin a) (Fin b) = Fin (a + b)"

fun js_neg :: "jsnum \<Rightarrow> jsnum" where
  "js_neg (Fin a) = Fin (- a)"
| "js_neg PosInf = NegInf"
| "js_neg NegInf = PosInf"
| "js_neg NaN = NaN"

fun js_square :: "jsnum \<Rightarrow> jsnum" where
  "js_square (Fin a) = Fin (a * a)"
| "js_square NaN = NaN"
| "js_square _ = PosInf"

text \<open>Division by a positive finite number.\<close>

fun js_over :: "jsnum \<Rightarrow> rat \<Rightarrow> jsnum" where
  "js_over (Fin a) c = Fin (a / c)"
| "js_over a c = a"

definition js_min :: "jsnum \<Rightarrow> jsnum \<Rightarrow> jsnum" where
  "js_min a b = (if a = NaN \<or> b = NaN then NaN else if js_le a b then a else b)"

definition js_max :: "jsnum \<Rightarrow> jsnum \<Rightarrow> jsnum" where
  "js_max a b = (if a = NaN \<or> b = NaN then NaN else if js_le a b then b else a)"

definition unit_clamp :: "jsnum \<Rightarrow> jsnum" where
  "unit_clamp s = js_max (Fin 0) (js_min (Fin 1) s)"

definition js_total :: "jsnum list \<Rightarrow> jsnum" where
  "js_total ss = foldl js_add (Fin 0) ss"

text \<open>
  The convergence of scores: one minus the variance over its largest value for scores in the unit
  interval, clamped.
\<close>

definition convergence :: "jsnum list \<Rightarrow> jsnum" where
  "convergence scores =
     (let n = of_nat (length scores);
          mean = js_over (js_total scores) n;
          variance = js_over (js_total (map (\<lambda>s. js_square (js_add s (js_neg mean))) scores)) n
      in unit_clamp (js_add (Fin 1) (js_neg (js_over variance (1 / 4)))))"

section \<open>Options and results\<close>

datatype AggregationStrategy = AllSettled | FirstSuccess | BestOf | ConsensusMerge | FallbackChain

text \<open>An evaluator picks a member of the successful results, or something else (\<open>None\<close>).\<close>

record 'x ParallelRunnerOptions =
  pr_strategy :: AggregationStrategy
  pr_timeoutMs :: int
  pr_retries :: int
  pr_maxConcurrency :: "int option"
  pr_signal :: "nat option"
  pr_fallbackAgentName :: "string option"
  pr_customMergerFn :: "(SubAgentResult list \<Rightarrow> 'x \<Rightarrow> (orchestration_error, string) result \<times> 'x) option"
  pr_evaluatorFn :: "(SubAgentResult list \<Rightarrow> 'x \<Rightarrow> (orchestration_error, nat option) result \<times> 'x) option"
  pr_consensusThreshold :: jsnum

record ParallelRunResult =
  pl_combinedResponse :: string
  pl_results :: "SubAgentResult list"
  pl_successCount :: nat
  pl_failedCount :: nat
  pl_selectedAgent :: "string option"
  pl_consensusScore :: "jsnum option"

text \<open>What wins the race against a delegation that has not settled.\<close>

datatype cut = TimedOut | CutOff

text \<open>How a promise settles: with a result, or rejected.\<close>

datatype settlement = Fulfilled SubAgentResult | Rejected

text \<open>
  The world of a runner: the delegator's, when a delegation is cut, and how the tasks that run
  concurrently settle: in which order for the race; for the fan-out also which worker's call it was and
  what it returned or threw.
\<close>

record 'x parallel_env =
  pe_orch :: "'x orch_env"
  pe_cut :: "int \<Rightarrow> nat option \<Rightarrow> SubAgentTask \<Rightarrow> 'x \<Rightarrow> (cut \<times> 'x) option"
  pe_settlements :: "SubAgentTask list \<Rightarrow> 'x \<Rightarrow> settlement list \<times> 'x"
  pe_fanned :: "SubAgentTask list \<Rightarrow> 'x \<Rightarrow> (nat \<times> (orchestration_error, SubAgentResult) result) list \<times> 'x"
  pe_num :: "jsnum \<Rightarrow> string"
  pe_options :: "'x ParallelRunnerOptions"
  pe_parent :: AgentContext
  pe_parentSignal :: "nat option"

section \<open>One task\<close>

definition aborted_result :: "string \<Rightarrow> SubAgentResult" where
  "aborted_result agent = failed_result agent ''Execution was aborted''"

definition delegateWithTimeout ::
    "'x parallel_env \<Rightarrow> SubAgentTask \<Rightarrow> nat option \<Rightarrow> 'x \<Rightarrow> (orchestration_error, SubAgentResult) result \<times> 'x" where
  "delegateWithTimeout P task signal x =
     (case pe_cut P (pr_timeoutMs (pe_options P)) signal task x of
        Some (TimedOut, y) \<Rightarrow>
          (Inr (failed_result (st_agentName task) (''Sub-agent '' @ st_agentName task @ '' timed out after '' @
             string_of_int (pr_timeoutMs (pe_options P)) @ ''ms'')), y)
      | Some (CutOff, y) \<Rightarrow> (Inr (aborted_result (st_agentName task)), y)
      | None \<Rightarrow> delegate (pe_orch P) DEFAULT_MAX_DEPTH (pe_parent P) (pe_parentSignal P) task None signal x)"

text \<open>The attempts of one task; \<open>n\<close> attempts are left, and \<open>before\<close> is the result of the last one.\<close>

fun attempts ::
    "nat \<Rightarrow> 'x parallel_env \<Rightarrow> SubAgentTask \<Rightarrow> nat option \<Rightarrow> SubAgentResult option \<Rightarrow> 'x
       \<Rightarrow> (orchestration_error, SubAgentResult option \<times> bool) result \<times> 'x" where
  "attempts 0 P task signal before x = (Inr (before, False), x)"
| "attempts (Suc n) P task signal before x =
     (if is_aborted (pe_orch P) signal x then (Inr (Some (aborted_result (st_agentName task)), True), x)
      else and_then (delegateWithTimeout P task signal x) (\<lambda>r x.
        if sr_status r = Success \<or> is_aborted (pe_orch P) signal x then (Inr (Some r, True), x)
        else attempts n P task signal (Some r) x))"

definition executeWithRetry ::
    "'x parallel_env \<Rightarrow> SubAgentTask \<Rightarrow> nat option \<Rightarrow> 'x \<Rightarrow> (orchestration_error, SubAgentResult) result \<times> 'x" where
  "executeWithRetry P task external x =
     (let signal = or_else (st_signal task) external; agent = st_agentName task;
          none = failed_result agent ''Sub-agent failed all execution attempts''
      in if is_aborted (pe_orch P) signal x then (Inr (aborted_result agent), x)
         else and_then (attempts (nat (pr_retries (pe_options P) + 1)) P task signal None x) (\<lambda>(r, final) x.
           if final then (Inr (nullish r none), x)
           else let fallback = nullish (pr_fallbackAgentName (pe_options P)) []
                in if \<not> is_aborted (pe_orch P) signal x \<and> fallback \<noteq> [] \<and> fallback \<noteq> agent
                   then and_then (delegateWithTimeout P (task\<lparr>st_agentName := fallback\<rparr>) signal x) (\<lambda>r x.
                          (Inr (r\<lparr>sr_agentName := agent @ '' (fallback: '' @ fallback @ '')''\<rparr>), x))
                   else (Inr (nullish r none), x)))"

section \<open>The fallback chain\<close>

fun cascade_tasks ::
    "'x parallel_env \<Rightarrow> SubAgentTask list \<Rightarrow> 'x \<Rightarrow> (orchestration_error, SubAgentResult list) result \<times> 'x" where
  "cascade_tasks P [] x = (Inr [], x)"
| "cascade_tasks P (t # ts) x =
     (let signal = pr_signal (pe_options P)
      in if is_aborted (pe_orch P) signal x
         then (Inr (map (\<lambda>t. aborted_result (st_agentName t)) (t # ts)), x)
         else and_then (executeWithRetry P t signal x) (\<lambda>r x.
           if sr_status r = Success then (Inr [r], x)
           else and_then (cascade_tasks P ts x) (\<lambda>rs x. (Inr (r # rs), x))))"

definition successes :: "SubAgentResult list \<Rightarrow> SubAgentResult list" where
  "successes rs = filter (\<lambda>r. sr_status r = Success) rs"

definition error_text :: "SubAgentResult \<Rightarrow> string" where
  "error_text r = nullish (sr_error r) ''undefined''"

definition newline :: string where
  "newline = [CHR 0x0A]"

definition cascade_result :: "SubAgentResult list \<Rightarrow> ParallelRunResult" where
  "cascade_result rs =
     (let found = List.find (\<lambda>r. sr_status r = Success) rs; n = (if found = None then 0 else 1)
      in \<lparr>pl_combinedResponse = (case found of
             Some r \<Rightarrow> sr_response r
           | None \<Rightarrow> join newline (map (\<lambda>r. ''['' @ sr_agentName r @ '' Error: '' @ error_text r @ '']'') rs)),
         pl_results = rs, pl_successCount = n, pl_failedCount = length rs - n,
         pl_selectedAgent = map_option sr_agentName found, pl_consensusScore = None\<rparr>)"

definition cascade ::
    "'x parallel_env \<Rightarrow> SubAgentTask list \<Rightarrow> 'x \<Rightarrow> (orchestration_error, ParallelRunResult) result \<times> 'x" where
  "cascade P ts x = and_then (cascade_tasks P ts x) (\<lambda>rs x. (Inr (cascade_result rs), x))"

section \<open>The race\<close>

record race =
  ra_settled :: nat
  ra_failures :: "SubAgentResult list"
  ra_winner :: "SubAgentResult option"
  ra_resolved :: "SubAgentResult option"

definition race_start :: race where
  "race_start = \<lparr>ra_settled = 0, ra_failures = [], ra_winner = None, ra_resolved = None\<rparr>"

text \<open>A promise resolves once.\<close>

definition resolve_race :: "SubAgentResult \<Rightarrow> race \<Rightarrow> race" where
  "resolve_race r s = (case ra_resolved s of None \<Rightarrow> s\<lparr>ra_resolved := Some r\<rparr> | Some _ \<Rightarrow> s)"

definition all_failed :: SubAgentResult where
  "all_failed = failed_result ''unknown'' ''All sub-agents failed''"

text \<open>
  One settlement, of \<open>n\<close> promises. A winner aborts the controller, so \<open>aborted \<and> winner\<close> is that there is
  a winner.
\<close>

definition settle_one :: "nat \<Rightarrow> settlement \<Rightarrow> race \<Rightarrow> race" where
  "settle_one n e s =
     (let s = s\<lparr>ra_settled := ra_settled s + 1\<rparr>
      in case e of
           Fulfilled r \<Rightarrow>
             if ra_winner s \<noteq> None then s
             else if sr_status r = Success then resolve_race r (s\<lparr>ra_winner := Some r\<rparr>)
             else let s = s\<lparr>ra_failures := ra_failures s @ [r]\<rparr>
                  in if ra_settled s = n then resolve_race r s else s
         | Rejected \<Rightarrow> if ra_settled s = n \<and> ra_winner s = None then resolve_race all_failed s else s)"

definition race_all :: "settlement list \<Rightarrow> race" where
  "race_all es = fold (settle_one (length es)) es race_start"

definition race_result :: "SubAgentResult \<Rightarrow> ParallelRunResult" where
  "race_result w =
     (let ok = sr_status w = Success
      in \<lparr>pl_combinedResponse = (if ok then sr_response w else ''Error: '' @ error_text w), pl_results = [w],
         pl_successCount = (if ok then 1 else 0), pl_failedCount = (if ok then 0 else 1),
         pl_selectedAgent = (if ok then Some (sr_agentName w) else None), pl_consensusScore = None\<rparr>)"

text \<open>\<open>None\<close> is a promise that never resolves.\<close>

definition raceFirstSuccess :: "'x parallel_env \<Rightarrow> SubAgentTask list \<Rightarrow> 'x \<Rightarrow> ParallelRunResult option \<times> 'x" where
  "raceFirstSuccess P ts x =
     (case pe_settlements P ts x of (es, y) \<Rightarrow> (map_option race_result (ra_resolved (race_all es)), y))"

section \<open>Aggregation\<close>

definition better :: "SubAgentResult \<Rightarrow> SubAgentResult \<Rightarrow> SubAgentResult" where
  "better best r = (if js_lt (nullish (sr_score best) (Fin 0)) (nullish (sr_score r) (Fin 0)) then r else best)"

definition best_of :: "SubAgentResult list \<Rightarrow> SubAgentResult" where
  "best_of rs = foldl better (hd rs) (tl rs)"

definition summary ::
    "string \<Rightarrow> SubAgentResult list \<Rightarrow> string option \<Rightarrow> jsnum option \<Rightarrow> ParallelRunResult" where
  "summary text_out rs selected score =
     \<lparr>pl_combinedResponse = text_out, pl_results = rs, pl_successCount = length (successes rs),
      pl_failedCount = length rs - length (successes rs), pl_selectedAgent = selected, pl_consensusScore = score\<rparr>"

definition aggregateBestOf ::
    "'x parallel_env \<Rightarrow> SubAgentResult list \<Rightarrow> 'x \<Rightarrow> (orchestration_error, ParallelRunResult) result \<times> 'x" where
  "aggregateBestOf P rs x =
     (let ok = successes rs;
          pick = (\<lambda>r. Inr (summary (sr_response r) rs (Some (sr_agentName r)) None))
      in if ok = [] then (Inr (summary ''No sub-agents completed successfully.'' rs None None), x)
         else case pr_evaluatorFn (pe_options P) of
           None \<Rightarrow> (pick (best_of ok), x)
         | Some f \<Rightarrow>
             (case f ok x of
                (Inr (Some i), y) \<Rightarrow> (pick (if i < length ok then ok ! i else best_of ok), y)
              | (_, y) \<Rightarrow> (pick (best_of ok), y)))"

definition reported_scores :: "SubAgentResult list \<Rightarrow> jsnum list" where
  "reported_scores rs = concat (map (\<lambda>r. case sr_score r of None \<Rightarrow> [] | Some s \<Rightarrow> [s]) rs)"

definition consensus_of :: "SubAgentResult list \<Rightarrow> jsnum option" where
  "consensus_of ok = (if length (reported_scores ok) \<ge> 2 then Some (convergence (reported_scores ok)) else None)"

definition aggregateConsensus :: "'x parallel_env \<Rightarrow> SubAgentResult list \<Rightarrow> ParallelRunResult" where
  "aggregateConsensus P rs =
     (let ok = successes rs; score = consensus_of ok; threshold = pr_consensusThreshold (pe_options P);
          meets = (case score of None \<Rightarrow> False | Some c \<Rightarrow> js_le threshold c);
          line = (\<lambda>r. ''### [SubAgent: '' @ sr_agentName r @
            (case sr_score r of None \<Rightarrow> [] | Some s \<Rightarrow> '' (Score: '' @ pe_num P s @ '')'') @ '']'' @ newline @ sr_response r);
          header = (if meets then ''**Consensus Reached** (Score: '' @ to_fixed2 (nullish score NaN) @
            '', Threshold: '' @ pe_num P threshold @ '')'' @ newline @ newline else [])
      in if ok = [] then summary ''No sub-agents completed successfully.'' rs None (Some (Fin 0))
         else summary (header @ join (newline @ newline) (map line ok)) rs
           (if meets then Some (sr_agentName (best_of ok)) else None) score)"

definition aggregateAllSettled :: "SubAgentResult list \<Rightarrow> ParallelRunResult" where
  "aggregateAllSettled rs =
     summary (join (newline @ newline) (map (\<lambda>r.
       if sr_status r = Success
       then ''### [SubAgent: '' @ sr_agentName r @ '' - SUCCESS]'' @ newline @ sr_response r
       else ''### [SubAgent: '' @ sr_agentName r @ '' - FAILED]'' @ newline @ ''Error: '' @ error_text r) rs)) rs None None"

definition aggregate ::
    "'x parallel_env \<Rightarrow> SubAgentResult list \<Rightarrow> 'x \<Rightarrow> (orchestration_error, ParallelRunResult) result \<times> 'x" where
  "aggregate P rs x =
     (case pr_customMergerFn (pe_options P) of
        Some f \<Rightarrow> and_then (f rs x) (\<lambda>m x. (Inr (summary m rs None None), x))
      | None \<Rightarrow>
          (case pr_strategy (pe_options P) of
             BestOf \<Rightarrow> aggregateBestOf P rs x
           | ConsensusMerge \<Rightarrow> (Inr (aggregateConsensus P rs), x)
           | _ \<Rightarrow> (Inr (aggregateAllSettled rs), x)))"

section \<open>The fan-out\<close>

text \<open>
  The bounded fan-out: workers take the next index until none is left. A worker waits for the call of one
  task, is done, or was ended by a call that threw; \<open>pool_next\<close> is \<open>activeIndex\<close>, \<open>pool_failed\<close> the error
  \<open>Promise.all\<close> rejects with, the first one.
\<close>

datatype pool_worker = Busy nat | Finished | Crashed nat

record pool =
  pool_next :: nat
  pool_workers :: "pool_worker list"
  pool_results :: "nat \<Rightarrow> SubAgentResult option"
  pool_failed :: "orchestration_error option"

definition pool_empty :: pool where
  "pool_empty = \<lparr>pool_next = 0, pool_workers = [], pool_results = (\<lambda>_. None), pool_failed = None\<rparr>"

text \<open>The head of the worker's loop: it takes an index and begins that task, or ends.\<close>

definition worker_takes :: "nat \<Rightarrow> pool \<Rightarrow> pool_worker" where
  "worker_takes n p = (if pool_next p \<ge> n then Finished else Busy (pool_next p))"

definition launch_worker :: "nat \<Rightarrow> pool \<Rightarrow> pool" where
  "launch_worker n p = p\<lparr>pool_next := pool_next p + 1, pool_workers := pool_workers p @ [worker_takes n p]\<rparr>"

definition pool_start :: "nat \<Rightarrow> nat \<Rightarrow> pool" where
  "pool_start concurrency n = (launch_worker n ^^ min concurrency n) pool_empty"

text \<open>
  The call a worker waits for settles: its result is stored at the index of the task and the worker goes on,
  or the worker ends with the error; the others go on.
\<close>

definition pool_settle :: "nat \<Rightarrow> nat \<times> (orchestration_error, SubAgentResult) result \<Rightarrow> pool \<Rightarrow> pool" where
  "pool_settle n e p =
     (case e of (w, reply) \<Rightarrow>
        if w < length (pool_workers p)
        then case pool_workers p ! w of
            Busy i \<Rightarrow>
              (case reply of
                 Inr r \<Rightarrow> p\<lparr>pool_results := (pool_results p)(i \<mapsto> r), pool_next := pool_next p + 1,
                   pool_workers := (pool_workers p)[w := worker_takes n p]\<rparr>
               | Inl err \<Rightarrow> p\<lparr>pool_workers := (pool_workers p)[w := Crashed i],
                   pool_failed := or_else (pool_failed p) (Some err)\<rparr>)
          | _ \<Rightarrow> p
        else p)"

definition pool_over :: "pool \<Rightarrow> bool" where
  "pool_over p \<longleftrightarrow> (\<forall>w \<in> set (pool_workers p). w = Finished)"

text \<open>\<open>await Promise.all(workers)\<close>, then the array: \<open>None\<close> while it is pending.\<close>

definition pool_outcome :: "nat \<Rightarrow> pool \<Rightarrow> (orchestration_error, SubAgentResult list) result option" where
  "pool_outcome n p =
     (case pool_failed p of
        Some err \<Rightarrow> Some (Inl err)
      | None \<Rightarrow> if pool_over p then Some (Inr (List.map_filter (pool_results p) [0..<n])) else None)"

text \<open>Without a bound there is a promise for each task, and \<open>Promise.all\<close> waits for all of them.\<close>

definition promise_settle ::
    "nat \<times> (orchestration_error, SubAgentResult) result
       \<Rightarrow> (nat \<Rightarrow> (orchestration_error, SubAgentResult) result option) \<times> orchestration_error option
       \<Rightarrow> (nat \<Rightarrow> (orchestration_error, SubAgentResult) result option) \<times> orchestration_error option" where
  "promise_settle e s =
     (case (e, s) of ((i, reply), settled, failed) \<Rightarrow>
        if settled i \<noteq> None then s
        else (settled(i \<mapsto> reply), case reply of Inl err \<Rightarrow> or_else failed (Some err) | Inr _ \<Rightarrow> failed))"

fun all_fulfilled :: "(orchestration_error, SubAgentResult) result option list \<Rightarrow> SubAgentResult list option" where
  "all_fulfilled [] = Some []"
| "all_fulfilled (Some (Inr r) # os) = map_option ((#) r) (all_fulfilled os)"
| "all_fulfilled (_ # os) = None"

definition promises_outcome ::
    "nat \<Rightarrow> (nat \<times> (orchestration_error, SubAgentResult) result) list
       \<Rightarrow> (orchestration_error, SubAgentResult list) result option" where
  "promises_outcome n es =
     (case fold promise_settle (filter (\<lambda>e. fst e < n) es) (\<lambda>_. None, None) of
        (settled, Some err) \<Rightarrow> Some (Inl err)
      | (settled, None) \<Rightarrow> map_option Inr (all_fulfilled (map settled [0..<n])))"

text \<open>The result is \<open>None\<close> when the sub-agents that were started never settle.\<close>

definition fanOut ::
    "'x parallel_env \<Rightarrow> SubAgentTask list \<Rightarrow> 'x \<Rightarrow> (orchestration_error, ParallelRunResult option) result \<times> 'x" where
  "fanOut P ts x =
     (let n = length ts; bound = nullish (pr_maxConcurrency (pe_options P)) 0
      in case pe_fanned P ts x of
        (es, y) \<Rightarrow>
          (case (if bound > 0 \<and> bound < int n
                 then pool_outcome n (fold (pool_settle n) es (pool_start (nat bound) n))
                 else promises_outcome n es) of
             None \<Rightarrow> (Inr None, y)
           | Some (Inl err) \<Rightarrow> (Inl err, y)
           | Some (Inr rs) \<Rightarrow> (case aggregate P rs y of (r, z) \<Rightarrow> (map_sum id Some r, z))))"

text \<open>\<open>run\<close>; the result is \<open>None\<close> when the race or the fan-out never settles.\<close>

definition parallel_run ::
    "'x parallel_env \<Rightarrow> SubAgentTask list \<Rightarrow> 'x \<Rightarrow> (orchestration_error, ParallelRunResult option) result \<times> 'x" where
  "parallel_run P ts x =
     (if ts = [] then (Inr (Some (summary [] [] None None)), x)
      else if is_aborted (pe_orch P) (pr_signal (pe_options P)) x
      then (Inr (Some (summary ''Execution was aborted'' (map (\<lambda>t. aborted_result (st_agentName t)) ts) None None)), x)
      else case pr_strategy (pe_options P) of
        FirstSuccess \<Rightarrow> (case raceFirstSuccess P ts x of (r, y) \<Rightarrow> (Inr r, y))
      | FallbackChain \<Rightarrow> (case cascade P ts x of (r, y) \<Rightarrow> (map_sum id Some r, y))
      | _ \<Rightarrow> fanOut P ts x)"

section \<open>The race resolves\<close>

definition fulfilled :: "settlement list \<Rightarrow> SubAgentResult list" where
  "fulfilled es = concat (map (\<lambda>e. case e of Fulfilled r \<Rightarrow> [r] | Rejected \<Rightarrow> []) es)"

definition first_success :: "settlement list \<Rightarrow> SubAgentResult option" where
  "first_success es = List.find (\<lambda>r. sr_status r = Success) (fulfilled es)"

lemma find_append: "List.find Q (xs @ ys) = (case List.find Q xs of Some a \<Rightarrow> Some a | None \<Rightarrow> List.find Q ys)"
  by (induction xs) auto

lemma first_success_snoc:
  "first_success (es @ [e]) =
     (case first_success es of
        Some r \<Rightarrow> Some r
      | None \<Rightarrow> (case e of Fulfilled r \<Rightarrow> if sr_status r = Success then Some r else None | Rejected \<Rightarrow> None))"
  by (cases e) (simp_all add: first_success_def fulfilled_def find_append split: option.splits)

definition race_state :: "nat \<Rightarrow> settlement list \<Rightarrow> race \<Rightarrow> bool" where
  "race_state n es s \<longleftrightarrow>
     ra_settled s = length es \<and> ra_winner s = first_success es \<and>
     (case first_success es of
        Some r \<Rightarrow> ra_resolved s = Some r
      | None \<Rightarrow> (if length es = n then \<exists>w. ra_resolved s = Some w \<and> sr_status w \<noteq> Success else ra_resolved s = None))"

lemma race_step:
  assumes "race_state n es s" "length es < n"
  shows "race_state n (es @ [e]) (settle_one n e s)"
  using assms
  by (cases e) (auto simp: race_state_def settle_one_def Let_def first_success_snoc resolve_race_def all_failed_def
      failed_result_def split: option.splits if_splits)

lemma race_prefix:
  assumes "0 < n"
  shows "length es \<le> n \<Longrightarrow> race_state n es (fold (settle_one n) es race_start)"
proof (induction es rule: rev_induct)
  case Nil
  with assms show ?case by (simp add: race_state_def race_start_def first_success_def fulfilled_def)
next
  case (snoc e es)
  then show ?case using race_step [of n es _ e] by simp
qed

text \<open>
  C34: the race always has an outcome. Once every sub-agent has settled, in whatever order and whichever of
  them are rejected, the race has resolved: with the first success in that order when there is one, and
  with a failure otherwise. It cannot hang and cannot pick a later success.
\<close>

theorem race_resolves:
  assumes "es \<noteq> []"
  shows "\<exists>w. ra_resolved (race_all es) = Some w \<and>
    (case first_success es of Some r \<Rightarrow> w = r | None \<Rightarrow> sr_status w \<noteq> Success)"
proof -
  have "race_state (length es) es (race_all es)"
    unfolding race_all_def by (rule race_prefix) (simp_all add: assms)
  then show ?thesis by (auto simp: race_state_def split: option.splits)
qed

section \<open>The pool runs every task once\<close>

lemma count_update:
  "w < length xs \<Longrightarrow> count_list (xs[w := v]) a + (if xs ! w = a then 1 else 0) = count_list xs a + (if v = a then 1 else 0)"
proof (induction xs arbitrary: w)
  case (Cons b xs)
  show ?case
  proof (cases w)
    case (Suc k)
    with Cons.prems Cons.IH [of k] show ?thesis by (simp split: if_splits)
  qed auto
qed simp

text \<open>The calls that settled, in order: of which task, and how.\<close>

fun settled_calls ::
    "nat \<Rightarrow> (nat \<times> (orchestration_error, SubAgentResult) result) list \<Rightarrow> pool
       \<Rightarrow> (nat \<times> (orchestration_error, SubAgentResult) result) list" where
  "settled_calls n [] p = []"
| "settled_calls n (e # es) p =
     (if fst e < length (pool_workers p)
      then case pool_workers p ! fst e of Busy i \<Rightarrow> [(i, snd e)] | _ \<Rightarrow> []
      else []) @ settled_calls n es (pool_settle n e p)"

abbreviation "one b \<equiv> (if b then 1 else 0 :: nat)"

text \<open>The place of every task, given the calls that have settled.\<close>

definition pool_inv :: "nat \<Rightarrow> nat \<Rightarrow> (nat \<times> (orchestration_error, SubAgentResult) result) list \<Rightarrow> pool \<Rightarrow> bool" where
  "pool_inv k n calls p \<longleftrightarrow>
     length (pool_workers p) = k \<and>
     (\<forall>i. count_list (pool_workers p) (Busy i) + count_list (map fst calls) i = one (i < pool_next p \<and> i < n)) \<and>
     (\<forall>i. count_list (pool_workers p) (Crashed i) = one (\<exists>err. (i, Inl err) \<in> set calls)) \<and>
     (\<forall>i r. pool_results p i = Some r \<longleftrightarrow> (i, Inr r) \<in> set calls) \<and>
     (Finished \<in> set (pool_workers p) \<longrightarrow> n \<le> pool_next p) \<and>
     pool_failed p = map_option (\<lambda>c. projl (snd c)) (List.find (\<lambda>c. isl (snd c)) calls)"

lemma launched:
  "pool_inv k n [] p \<Longrightarrow> pool_inv (Suc k) n [] (launch_worker n p)"
  by (auto simp: pool_inv_def launch_worker_def worker_takes_def less_Suc_eq)

lemma pool_inv_start: "pool_inv (min c n) n [] (pool_start c n)"
proof -
  have "pool_inv k n [] ((launch_worker n ^^ k) pool_empty)" for k
    by (induction k) (simp_all add: launched, simp add: pool_inv_def pool_empty_def)
  then show ?thesis by (simp add: pool_start_def)
qed

lemma settled_once:
  assumes "pool_inv k n calls p" "w < length (pool_workers p)" "pool_workers p ! w = Busy i"
  shows "i < pool_next p" "i < n" "i \<notin> fst ` set calls"
proof -
  from assms(2,3) have "Busy i \<in> set (pool_workers p)" by (metis nth_mem)
  then have "count_list (pool_workers p) (Busy i) \<noteq> 0" by (simp add: count_list_0_iff)
  moreover have "count_list (pool_workers p) (Busy i) + count_list (map fst calls) i = one (i < pool_next p \<and> i < n)"
    using assms(1) unfolding pool_inv_def by blast
  ultimately have "i < pool_next p" "i < n" "count_list (map fst calls) i = 0" by (auto split: if_splits)
  then show "i < pool_next p" "i < n" "i \<notin> fst ` set calls" by (auto simp: count_list_0_iff)
qed

lemma settle_keeps:
  assumes inv: "pool_inv k n calls p" and busy: "w < length (pool_workers p)" "pool_workers p ! w = Busy i"
  shows "pool_inv k n (calls @ [(i, reply)]) (pool_settle n (w, reply) p)"
proof -
  note known = settled_once [OF assms]
  have place: "count_list (pool_workers p) (Busy j) + count_list (map fst calls) j = one (j < pool_next p \<and> j < n)"
    "count_list (pool_workers p) (Crashed j) = one (\<exists>err. (j, Inl err) \<in> set calls)" for j
    using inv unfolding pool_inv_def by blast+
  have later: "Finished \<in> set ((pool_workers p)[w := v]) \<longrightarrow> v = Finished \<or> n \<le> pool_next p" for v
    using inv set_update_subset_insert [of "pool_workers p" w v] by (auto simp: pool_inv_def)
  note moved = count_update [OF busy(1)]
  show ?thesis
  proof (cases reply)
    case (Inr r)
    have "count_list ((pool_workers p)[w := worker_takes n p]) (Busy j) + count_list (map fst (calls @ [(i, reply)])) j =
        one (j < pool_next p + 1 \<and> j < n)" for j
      using moved [of "worker_takes n p" "Busy j"] place(1) [of j] busy(2) known by (auto simp: worker_takes_def split: if_splits)
    moreover have "count_list ((pool_workers p)[w := worker_takes n p]) (Crashed j) = count_list (pool_workers p) (Crashed j)" for j
      using moved [of "worker_takes n p" "Crashed j"] busy(2) by (simp add: worker_takes_def split: if_splits)
    moreover have "((pool_results p)(i \<mapsto> r)) j = Some q \<longleftrightarrow> (j, Inr q) \<in> set (calls @ [(i, reply)])" for j q
      using inv known(3) Inr by (force simp: pool_inv_def)
    moreover from later [of "worker_takes n p"] have "Finished \<in> set ((pool_workers p)[w := worker_takes n p]) \<longrightarrow> n \<le> pool_next p + 1"
      by (auto simp: worker_takes_def split: if_splits)
    ultimately show ?thesis
      using inv busy Inr place(2) by (simp add: pool_inv_def pool_settle_def find_append or_else_def split: option.splits)
  next
    case (Inl err)
    have "count_list ((pool_workers p)[w := Crashed i]) (Busy j) + count_list (map fst (calls @ [(i, reply)])) j =
        one (j < pool_next p \<and> j < n)" for j
      using moved [of "Crashed i" "Busy j"] place(1) [of j] busy(2) by (auto split: if_splits)
    moreover have "count_list ((pool_workers p)[w := Crashed i]) (Crashed j) =
        one (\<exists>err. (j, Inl err) \<in> set (calls @ [(i, reply)]))" for j
      using moved [of "Crashed i" "Crashed j"] place(2) [of j] busy(2) known(3) Inl by (force split: if_splits)
    moreover from later [of "Crashed i"] have "Finished \<in> set ((pool_workers p)[w := Crashed i]) \<longrightarrow> n \<le> pool_next p" by simp
    ultimately show ?thesis
      using inv busy Inl by (simp add: pool_inv_def pool_settle_def find_append or_else_def split: option.splits)
  qed
qed

lemma settled_calls_inv:
  "pool_inv k n calls p \<Longrightarrow> pool_inv k n (calls @ settled_calls n es p) (fold (pool_settle n) es p)"
proof (induction es arbitrary: calls p)
  case (Cons e es)
  obtain w reply where e: "e = (w, reply)" by (cases e)
  show ?case
  proof (cases "w < length (pool_workers p) \<and> (\<exists>i. pool_workers p ! w = Busy i)")
    case True
    then obtain i where "w < length (pool_workers p)" "pool_workers p ! w = Busy i" by blast
    from Cons.IH [OF settle_keeps [OF Cons.prems this, of reply]] this e show ?thesis by simp
  next
    case False
    then have "pool_settle n e p = p" by (auto simp: pool_settle_def e split: pool_worker.splits)
    with Cons.IH [OF Cons.prems] False e show ?thesis by (auto split: pool_worker.splits)
  qed
qed simp

text \<open>When the pool is over, and what it then returns.\<close>

lemma pool_ends:
  assumes "pool_inv k n calls p" "0 < k" "\<forall>c \<in> set calls. \<not> isl (snd c)"
  shows "pool_over p \<longleftrightarrow> set (map fst calls) = {..<n}"
proof -
  have place: "count_list (pool_workers p) (Busy j) + count_list (map fst calls) j = one (j < pool_next p \<and> j < n)" for j
    using assms(1) unfolding pool_inv_def by blast
  have unhurt: "Crashed i \<notin> set (pool_workers p)" for i
  proof -
    have "count_list (pool_workers p) (Crashed i) = one (\<exists>err. (i, Inl err) \<in> set calls)"
      using assms(1) unfolding pool_inv_def by blast
    moreover have "\<not> (\<exists>err. (i, Inl err) \<in> set calls)" using assms(3) by auto
    ultimately show ?thesis by (simp add: count_list_0_iff)
  qed
  show ?thesis
  proof
    assume over: "pool_over p"
    have "pool_workers p \<noteq> []" using assms(1,2) by (auto simp: pool_inv_def)
    with over have "Finished \<in> set (pool_workers p)" by (cases "pool_workers p") (auto simp: pool_over_def)
    with assms(1) have n: "n \<le> pool_next p" by (simp add: pool_inv_def)
    have "count_list (pool_workers p) (Busy j) = 0" for j using over by (auto simp: pool_over_def count_list_0_iff)
    then have only: "count_list (map fst calls) j = one (j < n)" for j using place [of j] n by (auto split: if_splits)
    have "j \<in> set (map fst calls) \<longleftrightarrow> j < n" for j
      using only [of j] count_list_0_iff [of "map fst calls" j] by (auto split: if_splits)
    then show "set (map fst calls) = {..<n}" by auto
  next
    assume all: "set (map fst calls) = {..<n}"
    have "Busy j \<notin> set (pool_workers p)" for j
    proof (cases "j < n")
      case True
      with all have "count_list (map fst calls) j \<noteq> 0" by (auto simp: count_list_0_iff)
      with place [of j] have "count_list (pool_workers p) (Busy j) = 0" by (simp split: if_splits)
      then show ?thesis by (simp add: count_list_0_iff)
    next
      case False
      with place [of j] show ?thesis by (simp add: count_list_0_iff)
    qed
    with unhurt show "pool_over p" by (metis pool_over_def pool_worker.exhaust)
  qed
qed

text \<open>
  C35: the bounded fan-out runs every task once and returns the results in the order of the tasks. Whichever
  worker's call settles when, with a result or an error, at any moment a task is waiting (its index is not
  taken), or held by exactly one worker, or its one call has settled; there are as many workers as configured;
  the result kept for a task is the one its call returned. A call that throws ends its worker and makes the
  fan-out fail with the first such error; otherwise it returns when the calls of all tasks have settled and
  not before, with the aggregate of their results task by task.
\<close>

theorem pool_runs_each_task_once:
  assumes "pr_maxConcurrency (pe_options P) = Some c" "0 < c" "c < int (length ts)" "pe_fanned P ts x = (es, y)"
    and "n = length ts" "p = fold (pool_settle n) es (pool_start (nat c) n)"
    and "calls = settled_calls n es (pool_start (nat c) n)"
  shows "(\<forall>i < n. count_list (pool_workers p) (Busy i) + count_list (map fst calls) i = one (i < pool_next p)) \<and>
      length (pool_workers p) = nat c \<and>
      (\<forall>i r. pool_results p i = Some r \<longleftrightarrow> (i, Inr r) \<in> set calls) \<and>
      fanOut P ts x =
        (case List.find (\<lambda>call. isl (snd call)) calls of
           Some (i, reply) \<Rightarrow> (Inl (projl reply), y)
         | None \<Rightarrow>
             if set (map fst calls) = {..<n}
             then case aggregate P (map (\<lambda>i. projr (the (map_of calls i))) [0..<n]) y of (r, z) \<Rightarrow> (map_sum id Some r, z)
             else (Inr None, y))"
proof -
  have "min (nat c) n = nat c" using assms(3,5) by linarith
  with settled_calls_inv [OF pool_inv_start, of "nat c" n es] assms(6,7)
  have inv: "pool_inv (nat c) n calls p" by simp
  have out: "fanOut P ts x = (case pool_outcome n p of
      None \<Rightarrow> (Inr None, y) | Some (Inl err) \<Rightarrow> (Inl err, y)
    | Some (Inr rs) \<Rightarrow> (case aggregate P rs y of (r, z) \<Rightarrow> (map_sum id Some r, z)))"
    using assms by (simp add: fanOut_def Let_def nullish_def)
  have failed: "pool_failed p = map_option (\<lambda>c. projl (snd c)) (List.find (\<lambda>c. isl (snd c)) calls)"
    and kept: "\<And>i r. pool_results p i = Some r \<longleftrightarrow> (i, Inr r) \<in> set calls"
    using inv by (auto simp: pool_inv_def)
  have "fanOut P ts x = (case List.find (\<lambda>call. isl (snd call)) calls of
      Some (i, reply) \<Rightarrow> (Inl (projl reply), y)
    | None \<Rightarrow>
        if set (map fst calls) = {..<n}
        then case aggregate P (map (\<lambda>i. projr (the (map_of calls i))) [0..<n]) y of (r, z) \<Rightarrow> (map_sum id Some r, z)
        else (Inr None, y))"
  proof (cases "List.find (\<lambda>call. isl (snd call)) calls")
    case (Some call)
    with out failed show ?thesis by (cases call) (simp add: pool_outcome_def)
  next
    case None
    then have fine: "\<forall>call \<in> set calls. \<not> isl (snd call)" by (auto simp: find_None_iff)
    from pool_ends [OF inv _ this] assms(2) have over: "pool_over p \<longleftrightarrow> set (map fst calls) = {..<n}" by simp
    have "List.map_filter (pool_results p) [0..<n] = map (\<lambda>i. projr (the (map_of calls i))) [0..<n]"
      if all: "set (map fst calls) = {..<n}"
    proof -
      have "pool_results p i = Some (projr (the (map_of calls i)))" if "i < n" for i
      proof -
        from that all have "i \<in> fst ` set calls" by simp
        then obtain reply where o: "map_of calls i = Some reply" by (metis map_of_eq_None_iff option.exhaust)
        then have "(i, reply) \<in> set calls" by (rule map_of_SomeD)
        with fine kept [of i "projr reply"] o show ?thesis by (cases reply) auto
      qed
      then show ?thesis by (simp add: map_filter_def cong: map_cong)
    qed
    with out failed None over show ?thesis by (simp add: pool_outcome_def)
  qed
  then show ?thesis using inv by (auto simp: pool_inv_def)
qed

section \<open>The fallback chain\<close>

lemma cascade_tasks_results:
  assumes "cascade_tasks P ts x = (Inr rs, y)"
  shows "length rs \<le> length ts \<and> successes (butlast rs) = [] \<and> (successes rs = [] \<longrightarrow> length rs = length ts)"
  using assms
proof (induction P ts x arbitrary: rs rule: cascade_tasks.induct)
  case (1 P x)
  then show ?case by (simp add: successes_def)
next
  case (2 P t ts x)
  show ?case
  proof (cases "is_aborted (pe_orch P) (pr_signal (pe_options P)) x")
    case True
    with "2.prems" have rs: "rs = map (\<lambda>t. aborted_result (st_agentName t)) (t # ts)" by (simp add: Let_def)
    have "successes (map (\<lambda>t. aborted_result (st_agentName t)) us) = []" for us
      by (simp add: successes_def aborted_result_def failed_result_def)
    then show ?thesis unfolding rs by (metis map_butlast length_map order_refl)
  next
    case False
    with "2.prems" obtain r z where r: "executeWithRetry P t (pr_signal (pe_options P)) x = (Inr r, z)"
      by (auto simp: Let_def and_then_Inr_iff)
    show ?thesis
    proof (cases "sr_status r = Success")
      case True
      with r False "2.prems" show ?thesis by (auto simp: Let_def successes_def)
    next
      case failed: False
      with r False "2.prems" obtain rs' where rs: "cascade_tasks P ts z = (Inr rs', y)" "rs = r # rs'"
        by (auto simp: Let_def and_then_Inr_iff)
      from "2.IH" [OF refl False r failed rs(1)] rs(2) failed show ?thesis
        by (auto simp: successes_def)
    qed
  qed
qed

text \<open>
  The fallback chain stops at the first success. It asks the agents in order and none after one that
  succeeded; when it reports a success, that is the last result and its answer is the answer of the chain;
  when it reports none, every task has a result.
\<close>

theorem fallback_chain_stops_at_first_success:
  assumes "cascade P ts x = (Inr r, y)"
  shows "length (pl_results r) \<le> length ts \<and> successes (butlast (pl_results r)) = [] \<and>
    (pl_successCount r = 0 \<longrightarrow> length (pl_results r) = length ts) \<and>
    (pl_successCount r \<noteq> 0 \<longrightarrow> pl_successCount r = 1 \<and> sr_status (last (pl_results r)) = Success \<and>
       pl_combinedResponse r = sr_response (last (pl_results r)))"
proof -
  from assms obtain rs where rs: "cascade_tasks P ts x = (Inr rs, y)" "r = cascade_result rs"
    by (auto simp: cascade_def and_then_Inr_iff)
  note facts = cascade_tasks_results [OF rs(1)]
  show ?thesis
  proof (cases "List.find (\<lambda>r. sr_status r = Success) rs")
    case None
    then have "successes rs = []" by (auto simp: successes_def find_None_iff filter_empty_conv)
    with None facts rs(2) show ?thesis by (simp add: cascade_result_def Let_def)
  next
    case (Some w)
    then have w: "w \<in> set rs" "sr_status w = Success" by (auto simp: find_Some_iff)
    then have ne: "rs \<noteq> []" by auto
    have "w = last rs"
    proof (rule ccontr)
      assume "w \<noteq> last rs"
      with w(1) ne have "w \<in> set (butlast rs)" by (metis append_butlast_last_id set_append Un_iff set_ConsD empty_set empty_iff)
      with w(2) facts show False by (auto simp: successes_def filter_empty_conv)
    qed
    with Some w facts rs(2) show ?thesis by (simp add: cascade_result_def Let_def)
  qed
qed

section \<open>Convergence of finite scores\<close>

definition mean_of :: "rat list \<Rightarrow> rat" where
  "mean_of qs = sum_list qs / of_nat (length qs)"

definition variance_of :: "rat list \<Rightarrow> rat" where
  "variance_of qs = sum_list (map (\<lambda>q. (q - mean_of qs) * (q - mean_of qs)) qs) / of_nat (length qs)"

lemma js_total_Fin: "js_total (map Fin qs) = Fin (sum_list qs)"
proof -
  have "foldl js_add (Fin a) (map Fin qs) = Fin (a + sum_list qs)" for a
    by (induction qs arbitrary: a) (simp_all add: add.assoc)
  then show ?thesis by (simp add: js_total_def)
qed

lemma unit_clamp_Fin: "unit_clamp (Fin q) = Fin (max 0 (min 1 q))"
  by (simp add: unit_clamp_def js_min_def js_max_def min_def max_def)

lemma convergence_Fin: "convergence (map Fin qs) = Fin (max 0 (min 1 (1 - 4 * variance_of qs)))"
proof -
  have "map (\<lambda>s. js_square (js_add s (js_neg (Fin m)))) (map Fin qs) = map Fin (map (\<lambda>q. (q - m) * (q - m)) qs)" for m
    by simp
  then have "js_total (map (\<lambda>s. js_square (js_add s (js_neg (Fin m)))) (map Fin qs)) =
      Fin (sum_list (map (\<lambda>q. (q - m) * (q - m)) qs))" for m
    by (simp only: js_total_Fin)
  note squares = this [of "mean_of qs"]
  have mean: "js_over (js_total (map Fin qs)) (of_nat (length (map Fin qs))) = Fin (mean_of qs)"
    by (simp add: js_total_Fin mean_of_def)
  show ?thesis
    unfolding convergence_def Let_def mean squares
    by (simp add: unit_clamp_Fin variance_of_def mult.commute)
qed

lemma sum_squares_nonneg: "0 \<le> sum_list (map (\<lambda>q. f q * f q) qs)" for f :: "'a \<Rightarrow> rat"
  by (induction qs) auto

lemma sum_squares_zero: "sum_list (map (\<lambda>q. f q * f q) qs) = 0 \<longleftrightarrow> (\<forall>q \<in> set qs. f q = 0)" for f :: "'a \<Rightarrow> rat"
proof (induction qs)
  case (Cons a qs)
  have "0 \<le> f a * f a" by simp
  with sum_squares_nonneg [of f qs] Cons show ?case by (auto simp: add_nonneg_eq_0_iff)
qed simp

lemma variance_zero:
  assumes "qs \<noteq> []"
  shows "0 \<le> variance_of qs" "variance_of qs = 0 \<longleftrightarrow> (\<forall>q \<in> set qs. q = hd qs)"
proof -
  show "0 \<le> variance_of qs" by (simp add: variance_of_def sum_squares_nonneg)
  have "variance_of qs = 0 \<longleftrightarrow> (\<forall>q \<in> set qs. q = mean_of qs)"
    using assms sum_squares_zero [of "\<lambda>q. q - mean_of qs" qs] by (simp add: variance_of_def)
  also have "\<dots> \<longleftrightarrow> (\<forall>q \<in> set qs. q = hd qs)"
  proof
    assume all: "\<forall>q \<in> set qs. q = mean_of qs"
    with assms have "hd qs = mean_of qs" by simp
    with all show "\<forall>q \<in> set qs. q = hd qs" by simp
  next
    assume all: "\<forall>q \<in> set qs. q = hd qs"
    then have "sum_list qs = of_nat (length qs) * hd qs"
    proof -
      have "\<forall>q \<in> set rs. q = a \<Longrightarrow> sum_list rs = of_nat (length rs) * a" for rs and a :: rat
        by (induction rs) (auto simp: algebra_simps)
      with all show ?thesis by blast
    qed
    with assms have "mean_of qs = hd qs" by (simp add: mean_of_def)
    with all show "\<forall>q \<in> set qs. q = mean_of qs" by simp
  qed
  finally show "variance_of qs = 0 \<longleftrightarrow> (\<forall>q \<in> set qs. q = hd qs)" .
qed

section \<open>Runs\<close>

definition answer :: SubAgentResult where
  "answer = (failed_result ''b'' [])\<lparr>sr_status := Success, sr_response := ''yes''\<rparr>"

theorem race_resolves_witness:
  "ra_resolved (race_all [Rejected, Fulfilled (failed_result ''a'' ''no''), Fulfilled answer]) = Some answer"
proof -
  have "[Rejected, Fulfilled (failed_result ''a'' ''no''), Fulfilled answer] \<noteq> []" by simp
  from race_resolves [OF this] show ?thesis
    by (simp add: first_success_def fulfilled_def answer_def failed_result_def)
qed

definition stopped_env :: "unit parallel_env" where
  "stopped_env =
     \<lparr>pe_orch = no_runner\<lparr>oe_aborted := (\<lambda>_ _. True)\<rparr>, pe_cut = (\<lambda>_ _ _ _. None), pe_settlements = (\<lambda>_ x. ([], x)),
      pe_fanned = (\<lambda>_ x. ([], x)), pe_num = (\<lambda>_. []),
      pe_options = \<lparr>pr_strategy = FallbackChain, pr_timeoutMs = 30000, pr_retries = 1, pr_maxConcurrency = None,
        pr_signal = Some 0, pr_fallbackAgentName = None, pr_customMergerFn = None, pr_evaluatorFn = None,
        pr_consensusThreshold = Fin (7 / 10)\<rparr>,
      pe_parent = manager, pe_parentSignal = None\<rparr>"

text \<open>Three tasks and two workers: the second worker is done first and takes the third task.\<close>

definition crew_env :: "unit parallel_env" where
  "crew_env = stopped_env\<lparr>pe_fanned := (\<lambda>_ x. ([(1, Inr answer), (0, Inr (failed_result ''a'' ''no'')), (1, Inr answer)], x)),
     pe_options := (pe_options stopped_env)\<lparr>pr_strategy := AllSettled, pr_maxConcurrency := Some 2\<rparr>\<rparr>"

lemma crew_start: "pool_start 2 3 = \<lparr>pool_next = 2, pool_workers = [Busy 0, Busy 1], pool_results = (\<lambda>_. None), pool_failed = None\<rparr>"
  by (simp add: pool_start_def pool_empty_def launch_worker_def worker_takes_def numeral_2_eq_2)

theorem pool_runs_each_task_once_witness:
  "fanOut crew_env [errand [], errand [], errand []] () =
     (Inr (Some (aggregateAllSettled [failed_result ''a'' ''no'', answer, answer])), ())"
proof -
  let ?ts = "[errand [], errand [], errand []]"
  let ?es = "[(1, Inr answer), (0, Inr (failed_result ''a'' ''no'')), (1, Inr answer)]
    :: (nat \<times> (orchestration_error, SubAgentResult) result) list"
  have calls: "settled_calls 3 ?es (pool_start 2 3) =
      [(1, Inr answer), (0, Inr (failed_result ''a'' ''no'')), (2, Inr answer)]"
    by (simp add: crew_start pool_settle_def worker_takes_def)
  have crew: "pr_maxConcurrency (pe_options crew_env) = Some 2" "pe_fanned crew_env ?ts () = (?es, ())"
    "(0 :: int) < 2" "2 < int (length ?ts)" "3 = length ?ts"
    by (simp_all add: crew_env_def)
  from pool_runs_each_task_once [OF crew(1,3,4,2,5) refl refl] have
    "fanOut crew_env ?ts () = (case List.find (\<lambda>call. isl (snd call)) (settled_calls 3 ?es (pool_start (nat 2) 3)) of
       Some (i, reply) \<Rightarrow> (Inl (projl reply), ())
     | None \<Rightarrow>
         if set (map fst (settled_calls 3 ?es (pool_start (nat 2) 3))) = {..<3}
         then case aggregate crew_env (map (\<lambda>i. projr (the (map_of (settled_calls 3 ?es (pool_start (nat 2) 3)) i))) [0..<3]) ()
           of (r, z) \<Rightarrow> (map_sum id Some r, z)
         else (Inr None, ()))" by (elim conjE)
  note facts = this
  have three: "{Suc 0, 0, 2} = {..<3}" by force
  have two: "nat 2 = 2" and order: "[0..<3] = [0, 1, 2 :: nat]" by (simp_all add: upt_rec)
  have "fanOut crew_env ?ts () =
      (case aggregate crew_env [failed_result ''a'' ''no'', answer, answer] () of (r, z) \<Rightarrow> (map_sum id Some r, z))"
    using facts unfolding two calls order by (simp add: three)
  then show ?thesis by (simp add: aggregate_def crew_env_def stopped_env_def)
qed

theorem fallback_chain_stops_at_first_success_witness:
  "\<exists>r. cascade stopped_env [errand [], errand []] () = (Inr r, ()) \<and> length (pl_results r) = 2"
proof -
  have c: "cascade stopped_env [errand [], errand []] () =
      (Inr (cascade_result [aborted_result ''greeter'', aborted_result ''greeter'']), ())"
    by (simp add: cascade_def Let_def is_aborted_def stopped_env_def errand_def)
  from fallback_chain_stops_at_first_success [OF c] c show ?thesis
    by (simp add: cascade_result_def Let_def aborted_result_def failed_result_def)
qed

end
