(* ===== verification/Debate.thy ===== *)
theory Debate
  imports Parallel_Runner
begin

text \<open>
  Debates: \<open>packages/orchestration/src/runners/debate.runner.ts\<close>. Rounds of the parallel runner, the
  consensus score, the choice of the winner and the transcript handed to the next round.
\<close>

section \<open>Records\<close>

record DebaterConfig =
  dc_agentName :: string
  dc_narrowing :: "CapabilityNarrowing option"

record DebateRound =
  dr_roundNumber :: nat
  dr_results :: "SubAgentResult list"
  dr_consensusScore :: jsnum

record DebateOptions =
  do_maxRounds :: nat
  do_consensusThreshold :: jsnum
  do_timeoutMs :: int
  do_retries :: int
  do_maxConcurrency :: "int option"
  do_signal :: "nat option"
  do_formatter :: "(DebateRound \<Rightarrow> string) option"

datatype debate_end = Consensus | Max_debate_rounds | Debate_aborted

record DebateRunResult =
  de_finalResponse :: string
  de_winner :: string
  de_rounds :: "DebateRound list"
  de_consensusScore :: "jsnum option"
  de_requiresHumanReview :: bool
  de_reason :: debate_end

section \<open>Score and winner\<close>

definition debate_score :: "SubAgentResult \<Rightarrow> jsnum" where
  "debate_score r = (case sr_score r of Some s \<Rightarrow> unit_clamp s | None \<Rightarrow> Fin (1 / 2))"

definition calculateConsensusScore :: "SubAgentResult list \<Rightarrow> jsnum" where
  "calculateConsensusScore rs =
     (case successes rs of
        [] \<Rightarrow> Fin 0
      | [r] \<Rightarrow> nullish (sr_score r) (Fin 1)
      | ok \<Rightarrow> convergence (map debate_score ok))"

definition pickWinner :: "SubAgentResult list \<Rightarrow> SubAgentResult" where
  "pickWinner rs =
     (if successes rs = [] then (case rs of r # _ \<Rightarrow> r | [] \<Rightarrow> (failed_result ''unknown'' [])\<lparr>sr_error := None\<rparr>)
      else best_of (successes rs))"

section \<open>The transcript\<close>

text \<open>\<open>replace\<close> with a global pattern: what a match at the start of a text becomes, and what follows it.\<close>

function replace_all :: "(string \<Rightarrow> (string \<times> string) option) \<Rightarrow> string \<Rightarrow> string" where
  "replace_all m s =
     (case m s of
        Some (rep, rest) \<Rightarrow> if length rest < length s then rep @ replace_all m rest else s
      | None \<Rightarrow> (case s of [] \<Rightarrow> [] | c # r \<Rightarrow> c # replace_all m r))"
  by pat_completeness auto

termination
  by (relation "measure (\<lambda>(m, s). length s)") auto

declare replace_all.simps [simp del]

definition literal :: "string \<Rightarrow> string \<Rightarrow> string \<Rightarrow> (string \<times> string) option" where
  "literal pat rep s = (if take (length pat) s = pat then Some (rep, drop (length pat) s) else None)"

definition lower :: "char \<Rightarrow> char" where
  "lower c = (let n = (of_char c :: nat) in if 65 \<le> n \<and> n \<le> 90 then char_of (n + 32) else c)"

text \<open>\<open><\\/(debater|debate_round)>\<close>, ignoring case.\<close>

definition closing_tag :: "string \<Rightarrow> (string \<times> string) option" where
  "closing_tag s =
     (let matches = (\<lambda>name. map lower (take (length name + 3) s) = ''</'' @ name @ ''>'');
          hit = (\<lambda>name. Some (''&lt;/'' @ take (length name) (drop 2 s) @ ''&gt;'', drop (length name + 3) s))
      in if matches ''debater'' then hit ''debater'' else if matches ''debate_round'' then hit ''debate_round'' else None)"

definition sanitizeDebateContent :: "string \<Rightarrow> string" where
  "sanitizeDebateContent s =
     replace_all closing_tag
       (replace_all (literal ''-->'' ''--&gt;'') (replace_all (literal ''<!--'' ''&lt;!--'') s))"

definition debater_block :: "SubAgentResult \<Rightarrow> string" where
  "debater_block r =
     ''<debater name='' @ quoted (sr_agentName r) @
     (case sr_score r of None \<Rightarrow> [] | Some s \<Rightarrow> '' confidence='' @ quoted (to_fixed2 s)) @ ''>'' @ newline @
     sanitizeDebateContent (sr_response r) @ newline @ ''</debater>''"

definition buildTranscript :: "DebateOptions \<Rightarrow> DebateRound \<Rightarrow> string" where
  "buildTranscript D r =
     (case do_formatter D of
        Some f \<Rightarrow> f r
      | None \<Rightarrow> ''<debate_round number='' @ quoted (string_of_nat (dr_roundNumber r)) @ ''>'' @ newline @
          join (newline @ newline) (map debater_block (successes (dr_results r))) @ newline @ ''</debate_round>'')"

section \<open>The debate\<close>

definition debate_tasks :: "DebateOptions \<Rightarrow> DebaterConfig list \<Rightarrow> string \<Rightarrow> SubAgentTask list" where
  "debate_tasks D debaters msg =
     map (\<lambda>d. \<lparr>st_agentName = dc_agentName d, st_message = msg, st_narrowing = dc_narrowing d, st_data = None,
       st_signal = do_signal D\<rparr>) debaters"

definition debate_runner :: "DebateOptions \<Rightarrow> 'x parallel_env \<Rightarrow> 'x parallel_env" where
  "debate_runner D P =
     P\<lparr>pe_options := \<lparr>pr_strategy = ConsensusMerge, pr_timeoutMs = do_timeoutMs D, pr_retries = do_retries D,
        pr_maxConcurrency = do_maxConcurrency D, pr_signal = do_signal D, pr_fallbackAgentName = None,
        pr_customMergerFn = None, pr_evaluatorFn = None, pr_consensusThreshold = do_consensusThreshold D\<rparr>\<rparr>"

definition abortedDebate :: "DebateRound list \<Rightarrow> DebateRunResult" where
  "abortedDebate rounds =
     \<lparr>de_finalResponse = [], de_winner = [], de_rounds = rounds, de_consensusScore = None,
      de_requiresHumanReview = False, de_reason = Debate_aborted\<rparr>"

definition concluded :: "debate_end \<Rightarrow> DebateRound list \<Rightarrow> DebateRound \<Rightarrow> DebateRunResult" where
  "concluded why rounds r =
     \<lparr>de_finalResponse = sr_response (pickWinner (dr_results r)), de_winner = sr_agentName (pickWinner (dr_results r)),
      de_rounds = rounds, de_consensusScore = Some (dr_consensusScore r),
      de_requiresHumanReview = (why = Max_debate_rounds), de_reason = why\<rparr>"

definition score_round :: "nat \<Rightarrow> ParallelRunResult option \<Rightarrow> DebateRound" where
  "score_round n out =
     (let rs = (case out of Some p \<Rightarrow> pl_results p | None \<Rightarrow> [])
      in \<lparr>dr_roundNumber = n, dr_results = rs, dr_consensusScore = calculateConsensusScore rs\<rparr>)"

text \<open>\<open>n\<close> rounds are left; the parallel runner with the merging strategy always resolves.\<close>

fun debate_rounds ::
    "nat \<Rightarrow> DebateOptions \<Rightarrow> 'x parallel_env \<Rightarrow> DebaterConfig list \<Rightarrow> string \<Rightarrow> string \<Rightarrow> DebateRound list \<Rightarrow> 'x
       \<Rightarrow> (orchestration_error, DebateRunResult) result \<times> 'x" where
  "debate_rounds 0 D P ds question msg rounds x =
     (if rounds = [] then (Inl (Raised ''Cannot read properties of undefined (reading results)''), x)
      else (Inr (concluded Max_debate_rounds rounds (last rounds)), x))"
| "debate_rounds (Suc n) D P ds question msg rounds x =
     (if is_aborted (pe_orch P) (do_signal D) x then (Inr (abortedDebate rounds), x)
      else and_then (parallel_run (debate_runner D P) (debate_tasks D ds msg) x) (\<lambda>out x.
        let r = score_round (length rounds + 1) out; rounds = rounds @ [r]
        in if js_le (do_consensusThreshold D) (dr_consensusScore r)
           then (Inr (concluded Consensus rounds r), x)
           else debate_rounds n D P ds question
             (if length rounds < do_maxRounds D then buildTranscript D r @ newline @ newline @ question else msg)
             rounds x))"

definition debate ::
    "DebateOptions \<Rightarrow> 'x parallel_env \<Rightarrow> DebaterConfig list \<Rightarrow> string \<Rightarrow> 'x
       \<Rightarrow> (orchestration_error, DebateRunResult) result \<times> 'x" where
  "debate D P ds question x =
     (if ds = []
      then (Inr \<lparr>de_finalResponse = [], de_winner = [], de_rounds = [], de_consensusScore = None,
                de_requiresHumanReview = False, de_reason = Consensus\<rparr>, x)
      else if is_aborted (pe_orch P) (do_signal D) x then (Inr (abortedDebate []), x)
      else debate_rounds (do_maxRounds D) D P ds question question [] x)"

section \<open>The score measures agreement\<close>

definition finite_score :: "SubAgentResult \<Rightarrow> rat" where
  "finite_score r = (case debate_score r of Fin q \<Rightarrow> q | _ \<Rightarrow> 0)"

lemma unit_clamp_finite: "s \<noteq> NaN \<Longrightarrow> \<exists>q. unit_clamp s = Fin q \<and> 0 \<le> q \<and> q \<le> 1"
  by (cases s) (auto simp: unit_clamp_Fin, auto simp: unit_clamp_def js_min_def js_max_def)

lemma debate_score_finite:
  assumes "sr_score r \<noteq> Some NaN"
  shows "debate_score r = Fin (finite_score r)"
  using assms unit_clamp_finite by (fastforce simp: debate_score_def finite_score_def split: option.splits)

text \<open>
  the consensus score measures agreement. For at least two successful answers without a \<open>NaN\<close> among
  their scores it lies between 0 and 1, and it is 1 exactly when all answers have the same score.
\<close>

theorem consensus_score_measures_agreement:
  assumes "length (successes rs) \<ge> 2" "\<forall>r \<in> set (successes rs). sr_score r \<noteq> Some NaN"
  shows "\<exists>q. calculateConsensusScore rs = Fin q \<and> 0 \<le> q \<and> q \<le> 1 \<and>
    (q = 1 \<longleftrightarrow> (\<forall>r \<in> set (successes rs). debate_score r = debate_score (hd (successes rs))))"
proof -
  let ?ok = "successes rs" and ?qs = "map finite_score (successes rs)"
  have scores: "\<forall>r \<in> set ?ok. debate_score r = Fin (finite_score r)" using assms(2) debate_score_finite by blast
  then have maps: "map debate_score ?ok = map Fin ?qs" by simp
  obtain a b more where ok: "?ok = a # b # more"
    using assms(1) by (cases ?ok; cases "tl ?ok") auto
  then have "calculateConsensusScore rs = convergence (map debate_score ?ok)" by (simp add: calculateConsensusScore_def)
  then have value_is: "calculateConsensusScore rs = Fin (max 0 (min 1 (1 - 4 * variance_of ?qs)))"
    unfolding maps convergence_Fin .
  have ne: "?qs \<noteq> []" using ok by simp
  have "max 0 (min 1 (1 - 4 * v)) = 1 \<longleftrightarrow> v = 0" if "0 \<le> v" for v :: rat
    using that by (auto simp: max_def min_def)
  with variance_zero [OF ne] have "max 0 (min 1 (1 - 4 * variance_of ?qs)) = 1 \<longleftrightarrow> (\<forall>q \<in> set ?qs. q = hd ?qs)" by simp
  also have "\<dots> \<longleftrightarrow> (\<forall>r \<in> set ?ok. debate_score r = debate_score (hd ?ok))"
    using scores ok by auto
  finally show ?thesis using value_is by auto
qed

text \<open>
  The runner of this repository reports no score; then the answers always agree, whatever they say: every
  debate ends with consensus in its first round unless all debaters fail.
\<close>

lemma unscored_debate_agrees:
  assumes "successes rs \<noteq> []" "\<forall>r \<in> set (successes rs). sr_score r = None"
  shows "calculateConsensusScore rs = Fin 1"
proof (cases "length (successes rs) \<ge> 2")
  case True
  have d: "debate_score r = Fin (1 / 2)" if "r \<in> set (successes rs)" for r
    using assms(2) that by (simp add: debate_score_def)
  have "hd (successes rs) \<in> set (successes rs)" using assms(1) by simp
  with d have "\<forall>r \<in> set (successes rs). debate_score r = debate_score (hd (successes rs))" by metis
  with consensus_score_measures_agreement [OF True] assms(2) show ?thesis by auto
next
  case False
  with assms(1) obtain r where "successes rs = [r]"
    by (cases "successes rs"; cases "tl (successes rs)") auto
  with assms(2) show ?thesis by (simp add: calculateConsensusScore_def)
qed

section \<open>How a debate ends\<close>

definition debate_ended :: "DebateOptions \<Rightarrow> DebateRunResult \<Rightarrow> bool" where
  "debate_ended D r \<longleftrightarrow>
     (let rounds = de_rounds r;
          agreed = (\<lambda>d. js_le (do_consensusThreshold D) (dr_consensusScore d))
      in length rounds \<le> do_maxRounds D \<and> map dr_roundNumber rounds = [1..<length rounds + 1] \<and>
         (\<forall>d \<in> set (butlast rounds). \<not> agreed d) \<and>
         (case de_reason r of
            Consensus \<Rightarrow> rounds \<noteq> [] \<and> agreed (last rounds) \<and> \<not> de_requiresHumanReview r
          | Max_debate_rounds \<Rightarrow> length rounds = do_maxRounds D \<and> rounds \<noteq> [] \<and> \<not> agreed (last rounds) \<and>
              de_requiresHumanReview r
          | Debate_aborted \<Rightarrow> \<not> de_requiresHumanReview r) \<and>
         (de_reason r \<noteq> Debate_aborted \<longrightarrow>
            de_winner r = sr_agentName (pickWinner (dr_results (last rounds))) \<and>
            de_finalResponse r = sr_response (pickWinner (dr_results (last rounds)))))"

lemma debate_rounds_ended:
  assumes "debate_rounds n D P ds question msg rounds x = (Inr r, y)" "length rounds + n = do_maxRounds D"
    and "map dr_roundNumber rounds = [1..<length rounds + 1]"
    and "\<forall>d \<in> set rounds. \<not> js_le (do_consensusThreshold D) (dr_consensusScore d)"
  shows "debate_ended D r"
  using assms
proof (induction n arbitrary: msg rounds x)
  case 0
  have "\<forall>d \<in> set (butlast rounds). \<not> js_le (do_consensusThreshold D) (dr_consensusScore d)"
    using 0(4) by (auto dest: in_set_butlastD)
  with 0 show ?case by (auto simp: debate_ended_def Let_def concluded_def split: if_splits)
next
  case (Suc n)
  show ?case
  proof (cases "is_aborted (pe_orch P) (do_signal D) x")
    case True
    have "\<forall>d \<in> set (butlast rounds). \<not> js_le (do_consensusThreshold D) (dr_consensusScore d)"
      using Suc.prems(4) by (auto dest: in_set_butlastD)
    with True Suc.prems show ?thesis by (auto simp: debate_ended_def Let_def abortedDebate_def)
  next
    case False
    with Suc.prems(1) obtain out z where out: "parallel_run (debate_runner D P) (debate_tasks D ds msg) x = (Inr out, z)"
      by (auto simp: and_then_Inr_iff)
    let ?r = "score_round (length rounds + 1) out"
    have num: "dr_roundNumber ?r = length rounds + 1" by (simp add: score_round_def Let_def)
    show ?thesis
    proof (cases "js_le (do_consensusThreshold D) (dr_consensusScore ?r)")
      case True
      with False out Suc.prems have "r = concluded Consensus (rounds @ [?r]) ?r" by (simp add: Let_def)
      with True Suc.prems(2-4) num show ?thesis by (simp add: debate_ended_def Let_def concluded_def)
    next
      case below: False
      with False out Suc.prems(1) obtain m where
        "debate_rounds n D P ds question m (rounds @ [?r]) z = (Inr r, y)" by (simp add: Let_def)
      with Suc.IH [of m "rounds @ [?r]" z] Suc.prems(2-4) num below show ?thesis by simp
    qed
  qed
qed

text \<open>
  a debate ends as it reports. It takes at most the configured number of rounds, numbered from 1; it ends
  with consensus in the first round whose score reaches the threshold, for human review exactly when all
  rounds were taken and none reached it, and its winner comes from the last round.
\<close>

theorem debate_ends_as_reported:
  assumes "debate D P ds question x = (Inr r, y)" "ds \<noteq> []"
  shows "debate_ended D r"
proof (cases "is_aborted (pe_orch P) (do_signal D) x")
  case True
  with assms show ?thesis by (auto simp: debate_def abortedDebate_def debate_ended_def Let_def)
next
  case False
  with assms have "debate_rounds (do_maxRounds D) D P ds question question [] x = (Inr r, y)" by (simp add: debate_def)
  from debate_rounds_ended [OF this] show ?thesis by simp
qed

section \<open>A debate\<close>

definition opinion :: "rat \<Rightarrow> SubAgentResult" where
  "opinion q = answer\<lparr>sr_score := Some (Fin q)\<rparr>"

theorem consensus_score_measures_agreement_witness:
  "\<exists>q. calculateConsensusScore [opinion (1 / 5), opinion (4 / 5)] = Fin q \<and> 0 \<le> q \<and> q < 1"
proof -
  let ?rs = "[opinion (1 / 5), opinion (4 / 5)]"
  have ok: "successes ?rs = ?rs" by (simp add: successes_def opinion_def answer_def)
  have "length (successes ?rs) \<ge> 2" "\<forall>r \<in> set (successes ?rs). sr_score r \<noteq> Some NaN"
    unfolding ok by (simp_all add: opinion_def)
  from consensus_score_measures_agreement [OF this] obtain q where
    q: "calculateConsensusScore ?rs = Fin q" "0 \<le> q" "q \<le> 1"
    "q = 1 \<longleftrightarrow> (\<forall>r \<in> set ?rs. debate_score r = debate_score (hd ?rs))" unfolding ok by blast
  have "debate_score (opinion (4 / 5)) \<noteq> debate_score (opinion (1 / 5))"
    by (simp add: debate_score_def opinion_def unit_clamp_Fin)
  with q(4) have "q \<noteq> 1" by auto
  with q show ?thesis by auto
qed

definition short_debate :: DebateOptions where
  "short_debate = \<lparr>do_maxRounds = 2, do_consensusThreshold = Fin (7 / 10), do_timeoutMs = 30000, do_retries = 1,
     do_maxConcurrency = None, do_signal = None, do_formatter = None\<rparr>"

definition divided_env :: "unit parallel_env" where
  "divided_env = stopped_env\<lparr>pe_orch := no_runner, pe_fanned := (\<lambda>_ x. ([(1, Inr (opinion 1)), (0, Inr (opinion 0))], x))\<rparr>"

lemma divided_score: "calculateConsensusScore [opinion 0, opinion 1] = Fin 0"
proof -
  have "map debate_score [opinion 0, opinion 1] = map Fin [0, 1]"
    by (simp add: debate_score_def opinion_def unit_clamp_Fin)
  moreover have "variance_of [0, 1] = 1 / 4" by (simp add: variance_of_def mean_of_def)
  ultimately show ?thesis
    using convergence_Fin [of "[0, 1]"]
    by (simp add: calculateConsensusScore_def successes_def opinion_def answer_def)
qed

lemma divided_results: "promises_outcome 2 [(1, Inr (opinion 1)), (0, Inr (opinion 0))] = Some (Inr [opinion 0, opinion 1])"
  by (simp add: promises_outcome_def promise_settle_def upt_rec)

lemma divided_round:
  "length (debate_tasks short_debate ds msg) = 2 \<Longrightarrow>
   \<exists>p. parallel_run (debate_runner short_debate divided_env) (debate_tasks short_debate ds msg) () = (Inr (Some p), ()) \<and>
     pl_results p = [opinion 0, opinion 1]"
  by (auto simp: parallel_run_def fanOut_def aggregate_def debate_runner_def divided_env_def stopped_env_def nullish_def
      is_aborted_def short_debate_def aggregateConsensus_def Let_def summary_def divided_results [simplified])

theorem debate_ends_as_reported_witness:
  "\<exists>r. debate short_debate divided_env [\<lparr>dc_agentName = ''a'', dc_narrowing = None\<rparr>, \<lparr>dc_agentName = ''b'', dc_narrowing = None\<rparr>] ''why'' () = (Inr r, ()) \<and>
     debate_ended short_debate r \<and> de_reason r = Max_debate_rounds"
proof -
  let ?ds = "[\<lparr>dc_agentName = ''a'', dc_narrowing = None\<rparr>, \<lparr>dc_agentName = ''b'', dc_narrowing = None\<rparr>]"
  have round: "score_round n (Some p) = \<lparr>dr_roundNumber = n, dr_results = [opinion 0, opinion 1], dr_consensusScore = Fin 0\<rparr>"
    if "pl_results p = [opinion 0, opinion 1]" for n p
    using that by (simp add: score_round_def divided_score)
  have step: "\<exists>p. parallel_run (debate_runner short_debate divided_env) (debate_tasks short_debate ?ds msg) () = (Inr (Some p), ()) \<and>
      pl_results p = [opinion 0, opinion 1]" for msg
    by (rule divided_round) (simp add: debate_tasks_def)
  have quiet_signal: "is_aborted (pe_orch divided_env) (do_signal short_debate) () = False"
    "do_consensusThreshold short_debate = Fin (7 / 10)" "do_maxRounds short_debate = Suc (Suc 0)"
    by (simp_all add: is_aborted_def short_debate_def)
  obtain p where p: "parallel_run (debate_runner short_debate divided_env) (debate_tasks short_debate ?ds ''why'') () = (Inr (Some p), ())"
    "pl_results p = [opinion 0, opinion 1]" using step by blast
  let ?r1 = "\<lparr>dr_roundNumber = 1, dr_results = [opinion 0, opinion 1], dr_consensusScore = Fin 0\<rparr>"
  let ?msg = "buildTranscript short_debate ?r1 @ newline @ newline @ ''why''"
  obtain p2 where p2: "parallel_run (debate_runner short_debate divided_env) (debate_tasks short_debate ?ds ?msg) () = (Inr (Some p2), ())"
    "pl_results p2 = [opinion 0, opinion 1]" using step by blast
  have "\<exists>r. debate short_debate divided_env ?ds ''why'' () = (Inr r, ()) \<and> de_reason r = Max_debate_rounds"
    using p p2 round [OF p(2)] round [OF p2(2)]
    by (simp add: debate_def quiet_signal Let_def concluded_def)
  with debate_ends_as_reported [of short_debate divided_env ?ds "''why''" "()"] show ?thesis by blast
qed

end
