(* ===== verification/Sop_Runner.thy ===== *)
theory Sop_Runner
  imports Parallel_Runner
begin

text \<open>
  Procedures of phases: \<open>packages/orchestration/src/runners/sop.runner.ts\<close>. Each phase is one sub-agent run,
  tried again while it fails or its guard rejects the result; completed phases are checkpointed, and a
  procedure can be resumed from its checkpoint. Message builders and guards are pure functions.
\<close>

section \<open>Records\<close>

definition MAX_PHASES_VISITED :: nat where
  "MAX_PHASES_VISITED = 256"

record SopPhaseResult =
  sp_phaseName :: string
  sp_result :: SubAgentResult
  sp_durationMs :: int

record SopContext =
  sx_phaseHistory :: "SopPhaseResult list"
  sx_lastOutput :: "string option"
  sx_data :: "(string \<times> jsval) list"

record SopPhase =
  ph_name :: string
  ph_agentName :: string
  ph_buildMessage :: "SopContext \<Rightarrow> string"
  ph_narrowing :: "CapabilityNarrowing option"
  ph_guard :: "(SubAgentResult \<Rightarrow> bool) option"

record SopWorkflowCheckpoint =
  sc_sessionId :: string
  sc_tenantId :: "string option"
  sc_completedPhases :: "SopPhaseResult list"
  sc_lastOutput :: "string option"
  sc_data :: "(string \<times> jsval) list option"
  sc_savedAt :: string

datatype sop_end = Sop_completed | Sop_guard_failed | Sop_aborted

record SopRunResult =
  so_phases :: "SopPhaseResult list"
  so_finalOutput :: string
  so_requiresHumanReview :: bool
  so_terminationReason :: sop_end
  so_error :: "string option"

record 'x sop_store =
  st_getCheckpoint :: "string \<Rightarrow> 'x \<Rightarrow> (orchestration_error, SopWorkflowCheckpoint option) result \<times> 'x"
  st_setCheckpoint :: "string \<Rightarrow> SopWorkflowCheckpoint \<Rightarrow> int \<Rightarrow> 'x \<Rightarrow> (orchestration_error, unit) result \<times> 'x"

text \<open>The runner: the delegator's world, when a run is cut, the options and the parent's context.\<close>

record 'x sop_env =
  se_orch :: "'x orch_env"
  se_cut :: "int \<Rightarrow> nat option \<Rightarrow> SubAgentTask \<Rightarrow> 'x \<Rightarrow> (cut \<times> 'x) option"
  se_isoNow :: "'x \<Rightarrow> string"
  se_timeoutMs :: int
  se_retries :: int
  se_signal :: "nat option"
  se_store :: "'x sop_store option"
  se_ttl :: int
  se_parent :: AgentContext
  se_parentSignal :: "nat option"

section \<open>One phase\<close>

definition sop_aborted :: "'x sop_env \<Rightarrow> 'x \<Rightarrow> bool" where
  "sop_aborted S x = is_aborted (se_orch S) (se_signal S) x"

definition executeWithTimeout ::
    "'x sop_env \<Rightarrow> SubAgentTask \<Rightarrow> 'x \<Rightarrow> (orchestration_error, SubAgentResult) result \<times> 'x" where
  "executeWithTimeout S task x =
     (case se_cut S (se_timeoutMs S) (se_signal S) task x of
        Some (TimedOut, y) \<Rightarrow>
          (Inr (failed_result (st_agentName task) (''Phase sub-agent '' @ quoted (st_agentName task) @
             '' timed out after '' @ string_of_int (se_timeoutMs S) @ ''ms'')), y)
      | Some (CutOff, y) \<Rightarrow> (Inr (aborted_result (st_agentName task)), y)
      | None \<Rightarrow> delegate (se_orch S) DEFAULT_MAX_DEPTH (se_parent S) (se_parentSignal S) task None (se_signal S) x)"

definition phase_task :: "'x sop_env \<Rightarrow> SopPhase \<Rightarrow> SopContext \<Rightarrow> SubAgentTask" where
  "phase_task S p ctx =
     \<lparr>st_agentName = ph_agentName p, st_message = ph_buildMessage p ctx, st_narrowing = ph_narrowing p,
      st_data = None, st_signal = se_signal S\<rparr>"

definition passes :: "SopPhase \<Rightarrow> SubAgentResult \<Rightarrow> bool" where
  "passes p r \<longleftrightarrow> sr_status r = Success \<and> (case ph_guard p of None \<Rightarrow> True | Some g \<Rightarrow> g r)"

datatype phase_outcome =
    PhaseDone SubAgentResult
  | PhaseFailed SubAgentResult bool
  | PhaseAborted

text \<open>\<open>n\<close> attempts are left; \<open>before\<close> is the last result and \<open>rejected\<close> the flag of the guard.\<close>

fun phase_attempts ::
    "nat \<Rightarrow> 'x sop_env \<Rightarrow> SopPhase \<Rightarrow> SopContext \<Rightarrow> SubAgentResult option \<Rightarrow> bool \<Rightarrow> 'x
       \<Rightarrow> (orchestration_error, phase_outcome) result \<times> 'x" where
  "phase_attempts 0 S p ctx before rejected x =
     (Inr (PhaseFailed (nullish before (failed_result (ph_agentName p) (''Phase '' @ quoted (ph_name p) @
        '' failed after '' @ string_of_int (se_retries S + 1) @ '' attempt(s)''))) rejected), x)"
| "phase_attempts (Suc n) S p ctx before rejected x =
     (if sop_aborted S x then (Inr PhaseAborted, x)
      else and_then (executeWithTimeout S (phase_task S p ctx) x) (\<lambda>r x.
        if sop_aborted S x \<or> sr_error r = Some ''Execution was aborted'' then (Inr PhaseAborted, x)
        else if passes p r then (Inr (PhaseDone r), x)
        else phase_attempts n S p ctx (Some r) (rejected \<or> sr_status r = Success) x))"

definition executePhaseWithGuardRetries ::
    "'x sop_env \<Rightarrow> SopPhase \<Rightarrow> SopContext \<Rightarrow> 'x \<Rightarrow> (orchestration_error, phase_outcome) result \<times> 'x" where
  "executePhaseWithGuardRetries S p ctx = phase_attempts (nat (se_retries S + 1)) S p ctx None False"

section \<open>Checkpoints and results\<close>

definition sop_key :: "'x sop_env \<Rightarrow> string" where
  "sop_key S =
     ''agentic:sop:checkpoint:'' @
     scopeKey plain_number [(case tenantId (security (se_parent S)) of None \<Rightarrow> PartUndef | Some t \<Rightarrow> PartStr t),
       PartStr (sessionId (se_parent S))]"

definition sop_getCheckpoint ::
    "'x sop_env \<Rightarrow> 'x \<Rightarrow> (orchestration_error, SopWorkflowCheckpoint option) result \<times> 'x" where
  "sop_getCheckpoint S x = (case se_store S of None \<Rightarrow> (Inr None, x) | Some store \<Rightarrow> st_getCheckpoint store (sop_key S) x)"

definition sop_checkpoint :: "'x sop_env \<Rightarrow> SopContext \<Rightarrow> 'x \<Rightarrow> SopWorkflowCheckpoint" where
  "sop_checkpoint S ctx x =
     \<lparr>sc_sessionId = sessionId (se_parent S), sc_tenantId = tenantId (security (se_parent S)),
      sc_completedPhases = sx_phaseHistory ctx, sc_lastOutput = sx_lastOutput ctx, sc_data = Some (sx_data ctx),
      sc_savedAt = se_isoNow S x\<rparr>"

definition savePhaseCheckpoint :: "'x sop_env \<Rightarrow> SopContext \<Rightarrow> 'x \<Rightarrow> (orchestration_error, unit) result \<times> 'x" where
  "savePhaseCheckpoint S ctx x =
     (case se_store S of
        None \<Rightarrow> (Inr (), x)
      | Some store \<Rightarrow> st_setCheckpoint store (sop_key S) (sop_checkpoint S ctx x) (se_ttl S) x)"

definition buildResult :: "SopPhaseResult list \<Rightarrow> sop_end \<Rightarrow> SopRunResult" where
  "buildResult ps why =
     \<lparr>so_phases = ps, so_finalOutput = (if ps = [] then [] else sr_response (sp_result (last ps))),
      so_requiresHumanReview = False, so_terminationReason = why, so_error = None\<rparr>"

section \<open>The procedure\<close>

definition phase_record :: "'x sop_env \<Rightarrow> SopPhase \<Rightarrow> 'x \<Rightarrow> 'x \<Rightarrow> SubAgentResult \<Rightarrow> SopPhaseResult" where
  "phase_record S p x y r =
     \<lparr>sp_phaseName = ph_name p, sp_result = r, sp_durationMs = oe_now (se_orch S) y - oe_now (se_orch S) x\<rparr>"

definition advanced :: "SopContext \<Rightarrow> SopPhaseResult \<Rightarrow> SopContext" where
  "advanced ctx r =
     ctx\<lparr>sx_phaseHistory := sx_phaseHistory ctx @ [r], sx_lastOutput := Some (sr_response (sp_result r))\<rparr>"

text \<open>The loop over the phases; the history of the context is the list of completed phases.\<close>

fun sop_phases ::
    "'x sop_env \<Rightarrow> SopPhase list \<Rightarrow> SopContext \<Rightarrow> 'x \<Rightarrow> (orchestration_error, SopRunResult) result \<times> 'x" where
  "sop_phases S [] ctx x = (Inr (buildResult (sx_phaseHistory ctx) Sop_completed), x)"
| "sop_phases S (p # ps) ctx x =
     (let visited = length (sx_phaseHistory ctx) + 1
      in if visited > MAX_PHASES_VISITED then (Inl (SopMaxTransitionsExceeded visited MAX_PHASES_VISITED), x)
         else if sop_aborted S x then (Inr (buildResult (sx_phaseHistory ctx) Sop_aborted), x)
         else and_then (executePhaseWithGuardRetries S p ctx x) (\<lambda>out y.
           case out of
             PhaseAborted \<Rightarrow> (Inr (buildResult (sx_phaseHistory ctx) Sop_aborted), y)
           | PhaseFailed r True \<Rightarrow>
               (Inr \<lparr>so_phases = sx_phaseHistory ctx @ [phase_record S p x y r], so_finalOutput = sr_response r,
                  so_requiresHumanReview = True, so_terminationReason = Sop_guard_failed,
                  so_error = Some (orchestration_message (\<lambda>_. []) (SopGuardFailed (ph_name p) (ph_agentName p)))\<rparr>, y)
           | PhaseFailed r False \<Rightarrow>
               (Inl (SopPhaseExecution (ph_name p) (ph_agentName p) (nullish (sr_error r) ''Unknown execution error'')), y)
           | PhaseDone r \<Rightarrow>
               and_then (savePhaseCheckpoint S (advanced ctx (phase_record S p x y r)) y) (\<lambda>_ z.
                 sop_phases S ps (advanced ctx (phase_record S p x y r)) z)))"

definition executePhases ::
    "'x sop_env \<Rightarrow> SopPhase list \<Rightarrow> SopContext \<Rightarrow> 'x \<Rightarrow> (orchestration_error, SopRunResult) result \<times> 'x" where
  "executePhases S ps ctx x =
     (if ps = [] \<and> sx_phaseHistory ctx = [] then (Inr (buildResult [] Sop_completed), x)
      else if sop_aborted S x
      then (Inr ((buildResult (sx_phaseHistory ctx) Sop_aborted)\<lparr>so_finalOutput := nullish (sx_lastOutput ctx) []\<rparr>), x)
      else sop_phases S ps ctx x)"

definition sop_run ::
    "'x sop_env \<Rightarrow> SopPhase list \<Rightarrow> (string \<times> jsval) list option \<Rightarrow> 'x
       \<Rightarrow> (orchestration_error, SopRunResult) result \<times> 'x" where
  "sop_run S ps initial =
     executePhases S ps \<lparr>sx_phaseHistory = [], sx_lastOutput = None, sx_data = nullish initial []\<rparr>"

definition sop_resume ::
    "'x sop_env \<Rightarrow> SopPhase list \<Rightarrow> SopWorkflowCheckpoint option \<Rightarrow> 'x
       \<Rightarrow> (orchestration_error, SopRunResult) result \<times> 'x" where
  "sop_resume S ps given x =
     and_then (case given of Some c \<Rightarrow> (Inr (Some c), x) | None \<Rightarrow> sop_getCheckpoint S x) (\<lambda>found x.
       case found of
         None \<Rightarrow> sop_run S ps None x
       | Some c \<Rightarrow>
           (let completed = map sp_phaseName (sc_completedPhases c)
            in executePhases S (filter (\<lambda>p. ph_name p \<notin> set completed) ps)
                 \<lparr>sx_phaseHistory = sc_completedPhases c, sx_lastOutput = sc_lastOutput c,
                  sx_data = nullish (sc_data c) []\<rparr> x))"

section \<open>What a procedure reports\<close>

lemma phase_attempts_done:
  "phase_attempts n S p ctx before rejected x = (Inr (PhaseDone r), y) \<Longrightarrow> passes p r"
  by (induction n S p ctx before rejected x rule: phase_attempts.induct)
    (auto simp: and_then_Inr_iff split: if_splits)

text \<open>The results of the phases, in order: each has the name of its phase and passed it.\<close>

definition passed_all :: "SopPhase list \<Rightarrow> SopPhaseResult list \<Rightarrow> bool" where
  "passed_all ps rs \<longleftrightarrow> list_all2 (\<lambda>p r. sp_phaseName r = ph_name p \<and> passes p (sp_result r)) ps rs"

definition procedure_ended :: "SopPhase list \<Rightarrow> SopRunResult \<Rightarrow> bool" where
  "procedure_ended ps r \<longleftrightarrow>
     (let rs = so_phases r
      in case so_terminationReason r of
           Sop_completed \<Rightarrow> passed_all ps rs \<and> \<not> so_requiresHumanReview r
         | Sop_aborted \<Rightarrow> passed_all (take (length rs) ps) rs \<and> \<not> so_requiresHumanReview r
         | Sop_guard_failed \<Rightarrow> rs \<noteq> [] \<and> length rs \<le> length ps \<and>
             passed_all (take (length rs - 1) ps) (butlast rs) \<and>
             sp_phaseName (last rs) = ph_name (ps ! (length rs - 1)) \<and> so_requiresHumanReview r)"

lemma sop_phases_ended:
  assumes "sop_phases S ps ctx x = (Inr r, y)" "passed_all done_phases (sx_phaseHistory ctx)"
  shows "procedure_ended (done_phases @ ps) r"
  using assms
proof (induction S ps ctx x arbitrary: done_phases rule: sop_phases.induct)
  case (1 S ctx x)
  then show ?case by (auto simp: procedure_ended_def buildResult_def)
next
  case (2 S p ps ctx x)
  have len: "length done_phases = length (sx_phaseHistory ctx)"
    using "2.prems"(2) by (simp add: passed_all_def list_all2_lengthD)
  have aborted: "procedure_ended (done_phases @ p # ps) (buildResult (sx_phaseHistory ctx) Sop_aborted)"
    using "2.prems"(2) len by (simp add: procedure_ended_def buildResult_def)
  show ?case
  proof (cases "length (sx_phaseHistory ctx) + 1 > MAX_PHASES_VISITED \<or> sop_aborted S x")
    case True
    with "2.prems"(1) aborted show ?thesis by (auto simp: Let_def split: if_splits)
  next
    case False
    with "2.prems"(1) obtain out z where out: "executePhaseWithGuardRetries S p ctx x = (Inr out, z)"
      by (auto simp: Let_def and_then_Inr_iff)
    show ?thesis
    proof (cases out)
      case PhaseAborted
      with "2.prems"(1) aborted out False show ?thesis by (auto simp: Let_def)
    next
      case (PhaseFailed q rejected)
      with "2.prems"(1) out False have rejected
        "r = \<lparr>so_phases = sx_phaseHistory ctx @ [phase_record S p x z q], so_finalOutput = sr_response q,
           so_requiresHumanReview = True, so_terminationReason = Sop_guard_failed,
           so_error = Some (orchestration_message (\<lambda>_. []) (SopGuardFailed (ph_name p) (ph_agentName p)))\<rparr>"
        by (cases rejected; simp add: Let_def)+
      with "2.prems"(2) len show ?thesis
        by (simp add: procedure_ended_def phase_record_def nth_append)
    next
      case (PhaseDone q)
      let ?ctx = "advanced ctx (phase_record S p x z q)"
      from "2.prems"(1) out False PhaseDone obtain u w where
        saved: "savePhaseCheckpoint S ?ctx z = (Inr u, w)" and rest: "sop_phases S ps ?ctx w = (Inr r, y)"
        by (auto simp: Let_def and_then_Inr_iff)
      have "passes p q" using out PhaseDone phase_attempts_done by (auto simp: executePhaseWithGuardRetries_def)
      with "2.prems"(2) have "passed_all (done_phases @ [p]) (sx_phaseHistory ?ctx)"
        by (simp add: passed_all_def advanced_def phase_record_def list_all2_appendI)
      with "2.IH" [OF refl _ _ out PhaseDone saved rest, of "done_phases @ [p]"] False show ?thesis by simp
    qed
  qed
qed

text \<open>
  a procedure reports what it did. Its results are those of the first phases, in order and by name, every
  one but possibly the last a success its guard accepted; a completed procedure has one for every phase; a
  rejected guard is reported with the phase that failed it and a request for review.
\<close>

theorem procedure_reports_phases:
  assumes "sop_run S ps initial x = (Inr r, y)"
  shows "procedure_ended ps r"
proof (cases "ps = [] \<or> sop_aborted S x")
  case True
  with assms show ?thesis
    by (auto simp: sop_run_def executePhases_def procedure_ended_def buildResult_def passed_all_def split: if_splits)
next
  case False
  with assms have "sop_phases S ps \<lparr>sx_phaseHistory = [], sx_lastOutput = None, sx_data = nullish initial []\<rparr> x = (Inr r, y)"
    by (simp add: sop_run_def executePhases_def)
  from sop_phases_ended [OF this, of "[]"] show ?thesis by (simp add: passed_all_def)
qed

section \<open>Resuming\<close>

text \<open>
  C37: a procedure resumes after its last completed phase. With distinct phase names, resuming from the
  checkpoint of the first \<open>k\<close> phases does what the interrupted procedure would have done with the phases
  that were left, in any state of the world in which it is not aborted.
\<close>

theorem resumed_procedure_continues:
  assumes "distinct (map ph_name ps)" "passed_all (take k ps) (sx_phaseHistory ctx)" "k \<noteq> 0" "k \<le> length ps"
    and "\<not> sop_aborted S x"
  shows "sop_resume S ps (Some (sop_checkpoint S ctx z)) x = sop_phases S (drop k ps) ctx x"
proof -
  have names: "map sp_phaseName (sx_phaseHistory ctx) = map ph_name (take k ps)"
    using assms(2,4) by (simp add: passed_all_def list_all2_conv_all_nth list_eq_iff_nth_eq)
  have "filter (\<lambda>p. ph_name p \<notin> set (map ph_name (take k ps))) (take k ps) = []"
    by (auto simp: filter_empty_conv)
  moreover have "filter (\<lambda>p. ph_name p \<notin> set (map ph_name (take k ps))) (drop k ps) = drop k ps"
  proof -
    have "distinct (map ph_name (take k ps @ drop k ps))" using assms(1) by simp
    then have "set (map ph_name (take k ps)) \<inter> set (map ph_name (drop k ps)) = {}"
      unfolding map_append distinct_append by blast
    then show ?thesis by (auto simp: filter_id_conv)
  qed
  ultimately have left: "filter (\<lambda>p. ph_name p \<notin> set (map ph_name (take k ps))) ps = drop k ps"
    by (metis append_Nil append_take_drop_id filter_append)
  have ne: "sx_phaseHistory ctx \<noteq> []"
    using assms(2-4) by (auto simp: passed_all_def)
  have eta: "\<lparr>sx_phaseHistory = sx_phaseHistory ctx, sx_lastOutput = sx_lastOutput ctx, sx_data = sx_data ctx\<rparr> = ctx" by simp
  from ne show ?thesis
    using assms(5) unfolding sop_resume_def
    by (simp add: sop_checkpoint_def Let_def names left [simplified] executePhases_def eta)
qed

text \<open>
  The flag of the guard is never cleared: when the guard rejects one attempt and the last attempt fails to
  run, the failed run is reported as a rejection by the guard.
\<close>

lemma guard_flag_sticks:
  assumes "phase_attempts n S p ctx before True x = (Inr (PhaseFailed r b), y)"
  shows b
proof -
  have "phase_attempts n S p ctx before rejected x = (Inr (PhaseFailed r b), y) \<Longrightarrow> rejected \<Longrightarrow> b" for rejected
    by (induction n S p ctx before rejected x rule: phase_attempts.induct)
      (auto simp: and_then_Inr_iff split: if_splits)
  with assms show b by blast
qed

section \<open>A procedure\<close>

definition calm_env :: "unit sop_env" where
  "calm_env =
     \<lparr>se_orch = no_runner, se_cut = (\<lambda>_ _ t _. Some (TimedOut, ())), se_isoNow = (\<lambda>_. ''now''), se_timeoutMs = 30000,
      se_retries = 1, se_signal = None, se_store = None, se_ttl = 86400, se_parent = manager, se_parentSignal = None\<rparr>"

definition phase :: "string \<Rightarrow> SopPhase" where
  "phase n = \<lparr>ph_name = n, ph_agentName = n, ph_buildMessage = (\<lambda>_. []), ph_narrowing = None, ph_guard = None\<rparr>"

definition obliging_env :: "unit sop_env" where
  "obliging_env = calm_env\<lparr>se_cut := (\<lambda>_ _ _ _. None), se_orch := no_runner\<lparr>oe_run := (\<lambda>_ _ x.
     (Inr \<lparr>rp_output = Some ''yes'', rp_toolCalls = None, rp_score = None, rp_usage = None\<rparr>, x))\<rparr>\<rparr>"

lemma obliging_phase:
  "\<exists>r. executePhaseWithGuardRetries obliging_env (phase n) ctx () = (Inr (PhaseDone r), ()) \<and> sr_response r = ''yes''"
proof -
  let ?t = "phase_task obliging_env (phase n) ctx"
  obtain input :: "unit RunInput" where "delegation_request DEFAULT_MAX_DEPTH manager ?t None = Inr input"
    by (simp add: delegation_request_def Let_def narrow_held_def DEFAULT_MAX_DEPTH_def manager_def depth_in_def
        agentic_of_def data_of_def get_prop_def number_of_def or_else_def phase_task_def phase_def)
  then have "\<exists>r. executeWithTimeout obliging_env ?t () = (Inr r, ()) \<and> sr_status r = Success \<and> sr_response r = ''yes'' \<and>
      sr_error r = None"
    by (simp add: executeWithTimeout_def delegate_def Let_def is_aborted_def or_else_def obliging_env_def calm_env_def
        no_runner_def phase_task_def)
  then obtain r where r: "executeWithTimeout obliging_env ?t () = (Inr r, ())" "sr_status r = Success"
    "sr_response r = ''yes''" "sr_error r = None" by blast
  have "\<not> sop_aborted obliging_env ()" "nat (se_retries obliging_env + 1) = Suc (Suc 0)"
    by (simp_all add: sop_aborted_def is_aborted_def obliging_env_def calm_env_def)
  moreover have "passes (phase n) r" using r(2) by (simp add: passes_def phase_def)
  ultimately show ?thesis using r by (simp add: executePhaseWithGuardRetries_def)
qed

theorem procedure_reports_phases_witness:
  "\<exists>r. sop_run obliging_env [phase ''plan''] None () = (Inr r, ()) \<and> procedure_ended [phase ''plan''] r \<and>
     so_finalOutput r = ''yes''"
proof -
  let ?ctx = "\<lparr>sx_phaseHistory = [], sx_lastOutput = None, sx_data = []\<rparr>"
  obtain q where q: "executePhaseWithGuardRetries obliging_env (phase ''plan'') ?ctx () = (Inr (PhaseDone q), ())"
    "sr_response q = ''yes''" using obliging_phase by blast
  have "\<not> sop_aborted obliging_env ()" "se_store obliging_env = None"
    by (simp_all add: sop_aborted_def is_aborted_def obliging_env_def calm_env_def)
  then have "\<exists>r. sop_run obliging_env [phase ''plan''] None () = (Inr r, ()) \<and> so_finalOutput r = ''yes''"
    using q by (simp add: sop_run_def executePhases_def MAX_PHASES_VISITED_def savePhaseCheckpoint_def
        buildResult_def advanced_def phase_record_def)
  with procedure_reports_phases [of obliging_env "[phase ''plan'']" None "()"] show ?thesis by blast
qed

definition after_plan :: SopContext where
  "after_plan = \<lparr>sx_phaseHistory = [\<lparr>sp_phaseName = ''plan'', sp_result = answer, sp_durationMs = 1\<rparr>],
     sx_lastOutput = Some ''yes'', sx_data = []\<rparr>"

theorem resumed_procedure_continues_witness:
  "sop_resume calm_env [phase ''plan'', phase ''build''] (Some (sop_checkpoint calm_env after_plan ())) () =
     sop_phases calm_env [phase ''build''] after_plan ()"
proof -
  have "distinct (map ph_name [phase ''plan'', phase ''build''])"
    "passed_all (take 1 [phase ''plan'', phase ''build'']) (sx_phaseHistory after_plan)"
    "(1 :: nat) \<noteq> 0" "1 \<le> length [phase ''plan'', phase ''build'']" "\<not> sop_aborted calm_env ()"
    by (simp_all add: phase_def passed_all_def after_plan_def passes_def answer_def sop_aborted_def is_aborted_def calm_env_def)
  from resumed_procedure_continues [OF this, of "()"] show ?thesis by simp
qed

end
