(* ===== verification/Js_Fixed.thy ===== *)
theory Js_Fixed
  imports Json_Text Js_Number
begin

text \<open>
  \<open>toFixed\<close>, the language's rounding of a number to a number of decimals, ties away from zero: the number its
  text denotes and the text, for numbers below \<open>10 ^ 21\<close>.
\<close>

definition fixed_units :: "nat \<Rightarrow> 'a :: floor_ceiling \<Rightarrow> nat" where
  "fixed_units d p = nat \<lfloor>\<bar>p\<bar> * 10 ^ d + 1 / 2\<rfloor>"

definition fixed_value :: "nat \<Rightarrow> 'a :: floor_ceiling \<Rightarrow> 'a" where
  "fixed_value d p = (if p < 0 then - 1 else 1) * of_nat (fixed_units d p) / 10 ^ d"

definition fixed_text :: "nat \<Rightarrow> 'a :: floor_ceiling \<Rightarrow> string" where
  "fixed_text d p =
     (let n = fixed_units d p; frac = string_of_nat (n mod 10 ^ d)
      in (if p < 0 then ''-'' else []) @ string_of_nat (n div 10 ^ d) @
         (if d = 0 then [] else CHR 0x2E # replicate (d - length frac) CHR ''0'' @ frac))"

lemma fixed_units_mono: "0 \<le> p \<Longrightarrow> p \<le> q \<Longrightarrow> fixed_units d p \<le> fixed_units d q"
  unfolding fixed_units_def by (intro nat_mono floor_mono add_right_mono mult_right_mono) auto

lemma fixed_value_nonneg [simp]: "0 \<le> p \<Longrightarrow> 0 \<le> fixed_value d p"
  by (simp add: fixed_value_def)

lemma fixed_value_mono: "0 \<le> p \<Longrightarrow> p \<le> q \<Longrightarrow> fixed_value d p \<le> fixed_value d q"
  by (simp add: fixed_value_def fixed_units_mono divide_right_mono)

lemma fixed_value_of_nat [simp]: "fixed_value d (of_nat n :: 'a :: floor_ceiling) = of_nat n"
proof -
  have "(of_nat n :: 'a) * 10 ^ d = of_nat (n * 10 ^ d)" by simp
  then have "\<lfloor>(of_nat n :: 'a) * 10 ^ d + 1 / 2\<rfloor> = int (n * 10 ^ d)"
    by (intro floor_unique) (auto simp: of_nat_mult)
  then show ?thesis by (simp add: fixed_value_def fixed_units_def nat_mult_distrib nat_power_eq)
qed

lemma fixed_value_0_1 [simp]: "fixed_value d 0 = 0" "fixed_value d 1 = 1"
  using fixed_value_of_nat [of d 0] fixed_value_of_nat [of d 1] by simp_all

lemma fixed_value_le_1: "0 \<le> p \<Longrightarrow> p \<le> 1 \<Longrightarrow> fixed_value d p \<le> 1"
  using fixed_value_mono [of p 1 d] by simp

text \<open>Rounding moves a number by at most half a unit of the last decimal.\<close>

lemma fixed_value_close:
  assumes "0 \<le> p"
  shows "\<bar>fixed_value d p - p\<bar> \<le> 1 / 2 / 10 ^ d"
proof -
  let ?t = "p * 10 ^ d + 1 / 2"
  from assms have t: "0 \<le> ?t" by simp
  then have u: "of_nat (fixed_units d p) = (of_int \<lfloor>?t\<rfloor> :: 'a)"
    using assms by (simp add: fixed_units_def)
  have "of_int \<lfloor>?t\<rfloor> \<le> ?t" "?t < of_int \<lfloor>?t\<rfloor> + 1" by linarith+
  then have "\<bar>of_int \<lfloor>?t\<rfloor> - p * 10 ^ d\<bar> \<le> 1 / 2" unfolding abs_le_iff by linarith
  then have "\<bar>of_int \<lfloor>?t\<rfloor> - p * 10 ^ d\<bar> / 10 ^ d \<le> 1 / 2 / 10 ^ d"
    by (intro divide_right_mono) auto
  moreover have "fixed_value d p - p = (of_int \<lfloor>?t\<rfloor> - p * 10 ^ d) / 10 ^ d"
    using assms by (simp add: fixed_value_def u diff_divide_distrib)
  ultimately show ?thesis by (simp add: abs_divide)
qed


end
