(* ===== verification/Eval_Benchmark.thy ===== *)
theory Eval_Benchmark
  imports Eval_Metrics
begin

text \<open>
  The pairwise judge that asks in both orders (\<open>packages/evaluation/src/judge/pairwise-debiased-judge.ts\<close>) and the
  benchmark of an agent over a data set (\<open>runner/benchmark.runner.ts\<close>). The text that explains a pairwise verdict
  is left out.
\<close>

section \<open>The pairwise judge\<close>

datatype pass_winner = First_wins | Second_wins | Pass_tie

record PairwisePassResult =
  pp_winner :: pass_winner
  pp_scoreFirst :: jsnum
  pp_scoreSecond :: jsnum

datatype pairwise_winner = Candidate_a | Candidate_b | Tie

record PairwiseJudgeResult =
  pj_winner :: pairwise_winner
  debiasedScoreA :: rat
  debiasedScoreB :: rat
  positionBiasDetected :: bool
  pj_confidence :: rat

definition validateTieThreshold :: "jsnum \<Rightarrow> (string, rat) result" where
  "validateTieThreshold t =
     (case t of
        Fin q \<Rightarrow> if q < 0 \<or> q > 1 then Inl ''tieThreshold must be a finite number between 0 and 1'' else Inr q
      | _ \<Rightarrow> Inl ''tieThreshold must be a finite number between 0 and 1'')"

definition normalizeScore :: "jsnum \<Rightarrow> (string, rat) result" where
  "normalizeScore s =
     (case s of Fin q \<Rightarrow> Inr (clamp01 q) | _ \<Rightarrow> Inl ''Pairwise judge scores must be finite numbers'')"

definition round4 :: "rat \<Rightarrow> rat" where
  "round4 q = of_int \<lfloor>q * 10000 + 1 / 2\<rfloor> / 10000"

fun forward_winner :: "pass_winner \<Rightarrow> pairwise_winner" where
  "forward_winner First_wins = Candidate_a"
| "forward_winner Second_wins = Candidate_b"
| "forward_winner Pass_tie = Tie"

fun reverse_winner :: "pass_winner \<Rightarrow> pairwise_winner" where
  "reverse_winner First_wins = Candidate_b"
| "reverse_winner Second_wins = Candidate_a"
| "reverse_winner Pass_tie = Tie"

definition bias_detected :: "pass_winner \<Rightarrow> pass_winner \<Rightarrow> bool" where
  "bias_detected f r \<longleftrightarrow> f = First_wins \<and> r = First_wins \<or> f = Second_wins \<and> r = Second_wins"

definition pairwise_confidence :: "pass_winner \<Rightarrow> pass_winner \<Rightarrow> rat" where
  "pairwise_confidence f r =
     (if forward_winner f = reverse_winner r \<and> forward_winner f \<noteq> Tie then 1
      else if bias_detected f r then 3 / 5
      else if forward_winner f = Tie \<or> reverse_winner r = Tie then 3 / 4
      else 9 / 10)"

definition final_winner :: "rat \<Rightarrow> rat \<Rightarrow> rat \<Rightarrow> pairwise_winner" where
  "final_winner tie a b = (if \<bar>a - b\<bar> \<le> tie then Tie else if a - b > 0 then Candidate_a else Candidate_b)"

definition pairwise_verdict :: "rat \<Rightarrow> PairwisePassResult \<Rightarrow> PairwisePassResult \<Rightarrow> (string, PairwiseJudgeResult) result" where
  "pairwise_verdict tie f r =
     (case normalizeScore (pp_scoreFirst f) of Inl e \<Rightarrow> Inl e | Inr a1 \<Rightarrow>
     (case normalizeScore (pp_scoreSecond f) of Inl e \<Rightarrow> Inl e | Inr b1 \<Rightarrow>
     (case normalizeScore (pp_scoreFirst r) of Inl e \<Rightarrow> Inl e | Inr b2 \<Rightarrow>
     (case normalizeScore (pp_scoreSecond r) of Inl e \<Rightarrow> Inl e | Inr a2 \<Rightarrow>
        let a = round4 ((a1 + a2) / 2); b = round4 ((b1 + b2) / 2)
        in Inr \<lparr>pj_winner = final_winner tie a b, debiasedScoreA = a, debiasedScoreB = b,
             positionBiasDetected = bias_detected (pp_winner f) (pp_winner r),
             pj_confidence = pairwise_confidence (pp_winner f) (pp_winner r)\<rparr>))))"

text \<open>
  The judge is a function of what it is shown; both orders are asked at once. A judge that throws rejects the
  evaluation, the forward pass first.
\<close>

definition pairwise_evaluate ::
    "(string \<Rightarrow> 'c \<Rightarrow> 'c \<Rightarrow> string option \<Rightarrow> string option \<Rightarrow> (string, PairwisePassResult) result) \<Rightarrow> rat
       \<Rightarrow> string \<Rightarrow> 'c \<Rightarrow> 'c \<Rightarrow> string option \<Rightarrow> string option \<Rightarrow> (string, PairwiseJudgeResult) result" where
  "pairwise_evaluate judge tie query a b criteria truth =
     (case judge query a b criteria truth of Inl e \<Rightarrow> Inl e | Inr f \<Rightarrow>
     (case judge query b a criteria truth of Inl e \<Rightarrow> Inl e | Inr r \<Rightarrow> pairwise_verdict tie f r))"

subsection \<open>The verdict does not depend on the order of the candidates\<close>

fun swap_winner :: "pairwise_winner \<Rightarrow> pairwise_winner" where
  "swap_winner Candidate_a = Candidate_b"
| "swap_winner Candidate_b = Candidate_a"
| "swap_winner Tie = Tie"

definition swap_verdict :: "PairwiseJudgeResult \<Rightarrow> PairwiseJudgeResult" where
  "swap_verdict v = v\<lparr>pj_winner := swap_winner (pj_winner v), debiasedScoreA := debiasedScoreB v, debiasedScoreB := debiasedScoreA v\<rparr>"

lemma bias_detected_commute: "bias_detected r f = bias_detected f r"
  by (auto simp: bias_detected_def)

lemma pairwise_confidence_commute: "pairwise_confidence r f = pairwise_confidence f r"
  by (cases f; cases r) (simp_all add: pairwise_confidence_def bias_detected_def)

lemma final_winner_commute: "0 \<le> tie \<Longrightarrow> final_winner tie b a = swap_winner (final_winner tie a b)"
  by (auto simp: final_winner_def abs_minus_commute)

text \<open>The verdict in closed form.\<close>

fun fin_part :: "jsnum \<Rightarrow> rat" where
  "fin_part (Fin q) = q"
| "fin_part _ = 0"

definition debiased :: "jsnum \<Rightarrow> jsnum \<Rightarrow> rat" where
  "debiased s t = round4 ((clamp01 (fin_part s) + clamp01 (fin_part t)) / 2)"

lemma debiased_commute: "debiased t s = debiased s t"
  by (simp add: debiased_def add.commute)

lemma normalizeScore_alt:
  "normalizeScore s = (if is_finite s then Inr (clamp01 (fin_part s)) else Inl ''Pairwise judge scores must be finite numbers'')"
  by (cases s) (simp_all add: normalizeScore_def)

lemma pairwise_verdict_alt:
  "pairwise_verdict tie f r =
     (if is_finite (pp_scoreFirst f) \<and> is_finite (pp_scoreSecond f) \<and> is_finite (pp_scoreFirst r) \<and> is_finite (pp_scoreSecond r)
      then Inr \<lparr>pj_winner = final_winner tie (debiased (pp_scoreFirst f) (pp_scoreSecond r)) (debiased (pp_scoreSecond f) (pp_scoreFirst r)),
             debiasedScoreA = debiased (pp_scoreFirst f) (pp_scoreSecond r), debiasedScoreB = debiased (pp_scoreSecond f) (pp_scoreFirst r),
             positionBiasDetected = bias_detected (pp_winner f) (pp_winner r),
             pj_confidence = pairwise_confidence (pp_winner f) (pp_winner r)\<rparr>
      else Inl ''Pairwise judge scores must be finite numbers'')"
  by (simp add: pairwise_verdict_def normalizeScore_alt debiased_def Let_def)

lemma pairwise_verdict_commute:
  assumes "0 \<le> tie"
  shows "pairwise_verdict tie r f = map_sum (\<lambda>e. e) swap_verdict (pairwise_verdict tie f r)"
proof -
  let ?a = "debiased (pp_scoreFirst f) (pp_scoreSecond r)" and ?b = "debiased (pp_scoreSecond f) (pp_scoreFirst r)"
  have "debiased (pp_scoreFirst r) (pp_scoreSecond f) = ?b" "debiased (pp_scoreSecond r) (pp_scoreFirst f) = ?a"
    by (rule debiased_commute)+
  moreover have "final_winner tie ?b ?a = swap_winner (final_winner tie ?a ?b)"
    by (rule final_winner_commute [OF assms])
  ultimately show ?thesis
    unfolding pairwise_verdict_alt [of tie f r] pairwise_verdict_alt [of tie r f]
      bias_detected_commute [of "pp_winner r" "pp_winner f"] pairwise_confidence_commute [of "pp_winner r" "pp_winner f"]
    by (simp add: swap_verdict_def)
qed

lemma pairwise_order_irrelevant:
  assumes "0 \<le> tie" and "\<And>a b. \<exists>p. judge query a b criteria truth = Inr p"
  shows "pairwise_evaluate judge tie query b a criteria truth =
         map_sum (\<lambda>e. e) swap_verdict (pairwise_evaluate judge tie query a b criteria truth)"
proof -
  obtain f where f: "judge query a b criteria truth = Inr f" using assms(2) by blast
  obtain r where r: "judge query b a criteria truth = Inr r" using assms(2) by blast
  from f r show ?thesis by (simp add: pairwise_evaluate_def pairwise_verdict_commute [OF assms(1), of r f])
qed

text \<open>A judge whose scores depend on the position alone decides nothing.\<close>

lemma position_judge_ties:
  assumes "0 \<le> tie" and "pp_scoreFirst f = pp_scoreFirst r" and "pp_scoreSecond f = pp_scoreSecond r"
    and "pairwise_verdict tie f r = Inr v"
  shows "pj_winner v = Tie"
proof -
  from assms(4) have v: "pj_winner v = final_winner tie (debiased (pp_scoreFirst f) (pp_scoreSecond r)) (debiased (pp_scoreSecond f) (pp_scoreFirst r))"
    by (auto simp: pairwise_verdict_alt split: if_splits)
  have "debiased (pp_scoreSecond f) (pp_scoreFirst r) = debiased (pp_scoreFirst f) (pp_scoreSecond r)"
    unfolding assms(2, 3) by (rule debiased_commute)
  with v assms(1) show ?thesis by (simp add: final_winner_def)
qed

text \<open>Scores and winners of a pass are not compared: full confidence in the candidate both passes rejected.\<close>

lemma confident_in_loser:
  "pairwise_verdict (1 / 20) \<lparr>pp_winner = First_wins, pp_scoreFirst = Fin 0, pp_scoreSecond = Fin 1\<rparr>
     \<lparr>pp_winner = Second_wins, pp_scoreFirst = Fin 1, pp_scoreSecond = Fin 0\<rparr> =
   Inr \<lparr>pj_winner = Candidate_b, debiasedScoreA = 0, debiasedScoreB = 1, positionBiasDetected = False, pj_confidence = 1\<rparr>"
proof -
  have "\<lfloor>20001 / 2 :: rat\<rfloor> = 10000" "\<lfloor>1 / 2 :: rat\<rfloor> = 0" by (rule floor_unique; simp)+
  then show ?thesis
    by (simp add: pairwise_verdict_def normalizeScore_def clamp01_def final_winner_def pairwise_confidence_def
        bias_detected_def round4_def Let_def)
qed

section \<open>The benchmark\<close>

fun js_add :: "jsnum \<Rightarrow> jsnum \<Rightarrow> jsnum" where
  "js_add (Fin a) (Fin b) = Fin (a + b)"
| "js_add NaN _ = NaN"
| "js_add _ NaN = NaN"
| "js_add PosInf NegInf = NaN"
| "js_add NegInf PosInf = NaN"
| "js_add PosInf _ = PosInf"
| "js_add NegInf _ = NegInf"
| "js_add _ n = n"

fun js_square :: "jsnum \<Rightarrow> jsnum" where
  "js_square (Fin a) = Fin (a * a)"
| "js_square NaN = NaN"
| "js_square _ = PosInf"

fun js_over :: "jsnum \<Rightarrow> nat \<Rightarrow> jsnum" where
  "js_over (Fin a) n = Fin (a / of_nat n)"
| "js_over v n = v"

definition js_sum :: "jsnum list \<Rightarrow> jsnum" where
  "js_sum vs = foldl js_add (Fin 0) vs"

definition calculateVariance :: "jsnum list \<Rightarrow> jsnum" where
  "calculateVariance scores =
     (if scores = [] then Fin 0
      else let mean = js_over (js_sum scores) (length scores)
           in js_over (js_sum (map (\<lambda>s. js_square (js_add s (js_neg mean))) scores)) (length scores))"

record MultiTrialResult =
  mt_scores :: "jsnum list"
  meanScore :: jsnum
  standardDeviation :: jsnum
  mt_passRate :: rat

definition calculateMultiTrialStats :: "(jsnum \<Rightarrow> jsnum) \<Rightarrow> jsnum list \<Rightarrow> MultiTrialResult" where
  "calculateMultiTrialStats sqrt_of scores =
     (if scores = [] then \<lparr>mt_scores = [], meanScore = Fin 0, standardDeviation = Fin 0, mt_passRate = 0\<rparr>
      else \<lparr>mt_scores = scores,
        meanScore = js_fixed4 (js_over (js_sum scores) (length scores)),
        standardDeviation = js_fixed4 (sqrt_of (calculateVariance scores)),
        mt_passRate = fixed_value 4 (of_nat (length (filter (js_le (Fin (3 / 5))) scores)) / of_nat (length scores))\<rparr>)"

type_synonym 'x metric = "EvalDatasetItem \<Rightarrow> EvaluatedRun \<Rightarrow> 'x \<Rightarrow> (string, MetricResult) result \<times> 'x"

record 'x bench_env =
  be_run :: "string \<Rightarrow> string \<Rightarrow> EvalDatasetItem \<Rightarrow> 'x \<Rightarrow> (string, EvaluatedRun) result \<times> 'x"
  be_metrics :: "'x metric list"
  be_trials :: nat
  be_sqrt :: "jsnum \<Rightarrow> jsnum"

fun run_metrics :: "'x metric list \<Rightarrow> EvalDatasetItem \<Rightarrow> EvaluatedRun \<Rightarrow> 'x \<Rightarrow> (string, MetricResult list) result \<times> 'x" where
  "run_metrics [] item r x = (Inr [], x)"
| "run_metrics (m # ms) item r x =
     (case m item r x of
        (Inl e, y) \<Rightarrow> (Inl e, y)
      | (Inr res, y) \<Rightarrow> (case run_metrics ms item r y of (Inl e, z) \<Rightarrow> (Inl e, z) | (Inr rs, z) \<Rightarrow> (Inr (res # rs), z)))"

text \<open>One trial: its score and what is kept of it.\<close>

record trial =
  tr_score :: jsnum
  tr_run :: EvaluatedRun
  tr_metrics :: "MetricResult list"

definition failed_trial :: "string \<Rightarrow> string \<Rightarrow> trial" where
  "failed_trial sid m =
     \<lparr>tr_score = Fin 0,
      tr_run = \<lparr>er_sessionId = sid, er_output = [], er_toolCalls = [], er_totalTokens = None, er_durationMs = None\<rparr>,
      tr_metrics = [metric_result ''ExecutionError'' False 0 (if m = [] then ''Agent execution exception'' else m)]\<rparr>"

definition trial_session :: "string \<Rightarrow> EvalDatasetItem \<Rightarrow> nat \<Rightarrow> string" where
  "trial_session agent item n = ''eval_'' @ agent @ ''_'' @ ev_id item @ ''_t'' @ string_of_nat n"

definition run_trial :: "'x bench_env \<Rightarrow> string \<Rightarrow> EvalDatasetItem \<Rightarrow> nat \<Rightarrow> 'x \<Rightarrow> trial \<times> 'x" where
  "run_trial B agent item n x =
     (let sid = trial_session agent item n in
      case be_run B agent sid item x of
        (Inl m, y) \<Rightarrow> (failed_trial sid m, y)
      | (Inr r, y) \<Rightarrow>
          (case run_metrics (be_metrics B) item r y of
             (Inl m, z) \<Rightarrow> (failed_trial sid m, z)
           | (Inr ms, z) \<Rightarrow>
               (\<lparr>tr_score = js_over (js_sum (map mr_score ms)) (max (length ms) 1), tr_run = r, tr_metrics = ms\<rparr>, z)))"

fun run_trials :: "nat \<Rightarrow> 'x bench_env \<Rightarrow> string \<Rightarrow> EvalDatasetItem \<Rightarrow> nat \<Rightarrow> 'x \<Rightarrow> trial list \<times> 'x" where
  "run_trials 0 B agent item n x = ([], x)"
| "run_trials (Suc k) B agent item n x =
     (case run_trial B agent item n x of (t, y) \<Rightarrow>
        (case run_trials k B agent item (n + 1) y of (ts, z) \<Rightarrow> (t # ts, z)))"

text \<open>The result of an item: the last trial, with score and verdict taken from all of them.\<close>

record EvalItemResult =
  ei_item :: EvalDatasetItem
  ei_last :: "trial option"
  ei_overallPassed :: bool
  ei_score :: jsnum
  multiTrialSummary :: MultiTrialResult

definition item_result :: "'x bench_env \<Rightarrow> EvalDatasetItem \<Rightarrow> trial list \<Rightarrow> EvalItemResult" where
  "item_result B item ts =
     (let summary = calculateMultiTrialStats (be_sqrt B) (map tr_score ts)
      in \<lparr>ei_item = item, ei_last = (if ts = [] then None else Some (last ts)),
          ei_overallPassed = (4 / 5 \<le> mt_passRate summary), ei_score = meanScore summary, multiTrialSummary = summary\<rparr>)"

fun run_items :: "'x bench_env \<Rightarrow> string \<Rightarrow> EvalDatasetItem list \<Rightarrow> 'x \<Rightarrow> EvalItemResult list \<times> 'x" where
  "run_items B agent [] x = ([], x)"
| "run_items B agent (item # items) x =
     (case run_trials (be_trials B) B agent item 1 x of (ts, y) \<Rightarrow>
        (case run_items B agent items y of (rs, z) \<Rightarrow> (item_result B item ts # rs, z)))"

record BenchmarkSummary =
  totalItems :: nat
  passedItems :: nat
  failedItems :: nat
  bs_passRate :: rat
  averageScore :: jsnum
  overallVariance :: jsnum
  itemResults :: "EvalItemResult list"

definition runBenchmark :: "'x bench_env \<Rightarrow> string \<Rightarrow> EvalDatasetItem list \<Rightarrow> 'x \<Rightarrow> BenchmarkSummary \<times> 'x" where
  "runBenchmark B agent dataset x =
     (case run_items B agent dataset x of
        (rs, y) \<Rightarrow>
          let n = length rs; passed = length (filter ei_overallPassed rs); scores = map ei_score rs
          in (\<lparr>totalItems = n, passedItems = passed, failedItems = n - passed,
               bs_passRate = fixed_value 4 (if n = 0 then 0 else of_nat passed / of_nat n),
               averageScore = js_fixed4 (if n = 0 then Fin 0 else js_over (js_sum scores) n),
               overallVariance = js_fixed4 (calculateVariance scores), itemResults = rs\<rparr>, y))"

section \<open>What a benchmark reports\<close>

definition unit_score :: "jsnum \<Rightarrow> bool" where
  "unit_score v \<longleftrightarrow> (\<exists>q. v = Fin q \<and> 0 \<le> q \<and> q \<le> 1)"

lemma foldl_js_add: "foldl js_add (Fin a) (map Fin qs) = Fin (a + sum_list qs)"
  by (induction qs arbitrary: a) (auto simp: add.assoc)

lemma js_sum_Fin [simp]: "js_sum (map Fin qs) = Fin (sum_list qs)"
  by (simp add: js_sum_def foldl_js_add)

lemma unit_scoresE:
  assumes "\<forall>v \<in> set vs. unit_score v"
  obtains qs where "vs = map Fin qs" and "\<forall>q \<in> set qs. 0 \<le> q \<and> q \<le> 1"
proof -
  have "\<exists>qs. vs = map Fin qs \<and> (\<forall>q \<in> set qs. 0 \<le> q \<and> q \<le> 1)"
    using assms
  proof (induction vs)
    case (Cons v vs)
    then obtain qs q where "vs = map Fin qs" "\<forall>q \<in> set qs. 0 \<le> q \<and> q \<le> 1" "v = Fin q" "0 \<le> q" "q \<le> 1"
      by (auto simp: unit_score_def)
    then show ?case by (intro exI [of _ "q # qs"]) auto
  qed simp
  with that show thesis by blast
qed

lemma sum_list_unit: "\<forall>q \<in> set qs. 0 \<le> q \<and> q \<le> (1 :: rat) \<Longrightarrow> 0 \<le> sum_list qs \<and> sum_list qs \<le> of_nat (length qs)"
  by (induction qs) auto

lemma mean_unit:
  assumes "\<forall>v \<in> set vs. unit_score v" and "length vs \<le> n" and "0 < n"
  shows "unit_score (js_over (js_sum vs) n)"
proof -
  from assms(1) obtain qs where vs: "vs = map Fin qs" and qs: "\<forall>q \<in> set qs. 0 \<le> q \<and> q \<le> 1" by (rule unit_scoresE)
  from sum_list_unit [OF qs] assms(2) vs have "sum_list qs \<le> of_nat n"
    by (metis length_map of_nat_le_iff order_trans)
  with sum_list_unit [OF qs] assms(3) show ?thesis by (simp add: vs unit_score_def divide_le_eq_1)
qed

lemma js_fixed4_unit: "unit_score v \<Longrightarrow> unit_score (js_fixed4 v)"
  by (auto simp: unit_score_def fixed_value_le_1)

definition unit_metric :: "'x metric \<Rightarrow> bool" where
  "unit_metric m \<longleftrightarrow> (\<forall>item r x res y. m item r x = (Inr res, y) \<longrightarrow> unit_score (mr_score res))"

lemma unit_metricD: "unit_metric m \<Longrightarrow> m item r x = (Inr res, y) \<Longrightarrow> unit_score (mr_score res)"
  unfolding unit_metric_def by blast

lemma run_metrics_unit:
  "run_metrics ms item r x = (Inr rs, y) \<Longrightarrow> \<forall>m \<in> set ms. unit_metric m \<Longrightarrow>
     length rs = length ms \<and> (\<forall>res \<in> set rs. unit_score (mr_score res))"
  by (induction ms arbitrary: x rs) (auto split: prod.splits sum.splits dest: unit_metricD)

lemma run_trial_unit:
  assumes "run_trial B agent item n x = (t, y)" and "\<forall>m \<in> set (be_metrics B). unit_metric m"
  shows "unit_score (tr_score t)"
proof -
  obtain out z where run: "be_run B agent (trial_session agent item n) item x = (out, z)" by fastforce
  show ?thesis
  proof (cases out)
    case (Inl m)
    with assms(1) run show ?thesis by (auto simp: run_trial_def Let_def failed_trial_def unit_score_def)
  next
    case (Inr r)
    obtain ms w where ms: "run_metrics (be_metrics B) item r z = (ms, w)" by fastforce
    show ?thesis
    proof (cases ms)
      case (Inl m)
      with assms(1) run Inr ms show ?thesis by (auto simp: run_trial_def Let_def failed_trial_def unit_score_def)
    next
      case scores: (Inr rs)
      from run_metrics_unit [OF ms [unfolded scores] assms(2)]
      have "\<forall>v \<in> set (map mr_score rs). unit_score v" by auto
      from mean_unit [OF this, of "max (length rs) 1"]
      show ?thesis using assms(1) run Inr ms scores by (auto simp: run_trial_def Let_def)
    qed
  qed
qed

lemma run_trials_unit:
  assumes "run_trials k B agent item n x = (ts, y)" and "\<forall>m \<in> set (be_metrics B). unit_metric m"
  shows "length ts = k \<and> (\<forall>t \<in> set ts. unit_score (tr_score t))"
  using assms(1)
proof (induction k arbitrary: n x ts)
  case (Suc k)
  then obtain t z ts' where t: "run_trial B agent item n x = (t, z)" and ts: "run_trials k B agent item (n + 1) z = (ts', y)" "ts = t # ts'"
    by (auto split: prod.splits)
  from Suc.IH [OF ts(1)] run_trial_unit [OF t assms(2)] ts(2) show ?case by simp
qed simp

lemma item_result_unit:
  assumes "\<forall>t \<in> set ts. unit_score (tr_score t)"
  shows "unit_score (ei_score (item_result B item ts))"
proof (cases "ts = []")
  case False
  have "\<forall>v \<in> set (map tr_score ts). unit_score v" using assms by auto
  from js_fixed4_unit [OF mean_unit [OF this, of "length ts"]] False show ?thesis
    by (simp add: item_result_def calculateMultiTrialStats_def Let_def)
qed (simp add: item_result_def calculateMultiTrialStats_def Let_def unit_score_def)

lemma run_items_unit:
  assumes "run_items B agent items x = (rs, y)" and "\<forall>m \<in> set (be_metrics B). unit_metric m"
  shows "map ei_item rs = items \<and> (\<forall>r \<in> set rs. unit_score (ei_score r) \<and> length (mt_scores (multiTrialSummary r)) = be_trials B)"
  using assms(1)
proof (induction items arbitrary: x rs)
  case (Cons item items)
  then obtain ts z rs' where ts: "run_trials (be_trials B) B agent item 1 x = (ts, z)"
    and rs: "run_items B agent items z = (rs', y)" "rs = item_result B item ts # rs'"
    by (auto split: prod.splits)
  note t = run_trials_unit [OF ts assms(2)]
  have "ei_item (item_result B item ts) = item" "length (mt_scores (multiTrialSummary (item_result B item ts))) = be_trials B"
    using t by (auto simp: item_result_def calculateMultiTrialStats_def Let_def)
  with Cons.IH [OF rs(1)] item_result_unit [of ts B item] t rs(2) show ?case by simp
qed simp

text \<open>The summary of a benchmark accounts for its items, whatever the runs and metrics do.\<close>

lemma benchmark_accounts:
  assumes "runBenchmark B agent dataset x = (S, y)" and "\<forall>m \<in> set (be_metrics B). unit_metric m"
  shows "map ei_item (itemResults S) = dataset" and "totalItems S = length dataset"
    and "passedItems S + failedItems S = totalItems S"
    and "0 \<le> bs_passRate S" and "bs_passRate S \<le> 1" and "unit_score (averageScore S)"
proof -
  obtain rs where rs: "run_items B agent dataset x = (rs, y)"
    and S: "itemResults S = rs" "totalItems S = length rs" "passedItems S = length (filter ei_overallPassed rs)"
      "failedItems S = length rs - length (filter ei_overallPassed rs)"
      "bs_passRate S = fixed_value 4 (if length rs = 0 then 0 else of_nat (length (filter ei_overallPassed rs)) / of_nat (length rs))"
      "averageScore S = js_fixed4 (if length rs = 0 then Fin 0 else js_over (js_sum (map ei_score rs)) (length rs))"
    using assms(1) by (auto simp: runBenchmark_def Let_def split: prod.splits)
  note items = run_items_unit [OF rs assms(2)]
  from items have len: "length rs = length dataset" by (metis length_map)
  show "map ei_item (itemResults S) = dataset" "totalItems S = length dataset"
    "passedItems S + failedItems S = totalItems S"
    using items len S length_filter_le [of ei_overallPassed rs] by simp_all
  show "0 \<le> bs_passRate S" "bs_passRate S \<le> 1"
    using S length_filter_le [of ei_overallPassed rs] by (auto intro!: fixed_value_le_1 simp: divide_le_eq_1)
  have "\<forall>v \<in> set (map ei_score rs). unit_score v" using items by auto
  from js_fixed4_unit [OF mean_unit [OF this, of "length rs"]] show "unit_score (averageScore S)"
    by (cases "length rs = 0") (auto simp: S unit_score_def)
qed

text \<open>
  The verdict of an item looks at mean scores alone: a run that calls a forbidden tool passes when its
  other two metrics are full, although its policy metric failed.
\<close>

lemma benchmark_passes_failed_metric:
  assumes "be_trials B = 1" and "be_metrics B = map (\<lambda>m item r x. (Inr (m item r), x)) [m1, m2, m3]"
    and "be_run B agent (trial_session agent item 1) item x = (Inr r, y)"
    and "mr_score (m1 item r) = Fin 0" and "mr_score (m2 item r) = Fin 1" and "mr_score (m3 item r) = Fin 1"
  shows "passedItems (fst (runBenchmark B agent [item] x)) = 1"
proof -
  let ?ms = "[m1 item r, m2 item r, m3 item r]"
  have sum: "js_over (js_sum (map mr_score ?ms)) (max (length ?ms) 1) = Fin (2 / 3)"
    using assms(4-6) js_sum_Fin [of "[0, 1, 1]"] by simp
  have "run_trials (be_trials B) B agent item 1 x = ([\<lparr>tr_score = Fin (2 / 3), tr_run = r, tr_metrics = ?ms\<rparr>], y)"
    using assms(1-3) sum by (simp add: run_trial_def Let_def)
  then have "run_items B agent [item] x =
      ([item_result B item [\<lparr>tr_score = Fin (2 / 3), tr_run = r, tr_metrics = ?ms\<rparr>]], y)" by simp
  moreover have "ei_overallPassed (item_result B item [\<lparr>tr_score = Fin (2 / 3), tr_run = r, tr_metrics = ?ms\<rparr>])"
    by (simp add: item_result_def calculateMultiTrialStats_def Let_def)
  ultimately show ?thesis by (simp add: runBenchmark_def Let_def)
qed

end
