(* ===== verification/Retrieval_Metrics.thy ===== *)
theory Retrieval_Metrics
  imports Complex_Main Js_Fixed "HOL-Library.Multiset"
begin

text \<open>
  Scoring retrieval, \<open>packages/evaluation/src\<close>: the ranking of the retrieved chunks
  (\<open>metrics/retrieval/ranking.ts\<close>), the rank-based metrics (\<open>ranking.metrics.ts\<close>), faithfulness
  (\<open>faithfulness.metric.ts\<close>) and the benchmark of a retriever (\<open>runner/retrieval-benchmark.runner.ts\<close>).
  Scores of metrics are reals, since nDCG takes powers and logarithms; a score that is not finite is \<open>None\<close>, which only
  a metric of the caller's can return. The \<open>details\<close> of a result are left out.
\<close>

section \<open>Data\<close>

record RetrievedChunk =
  ch_id :: string
  ch_parentId :: "string option"
  ch_content :: string

record RetrievalContext =
  cx_query :: string
  cx_chunks :: "RetrievedChunk list option"
  cx_scores :: "(string \<times> jsnum) list option"
  hydratedParentContext :: "string option"
  compressedContext :: "string option"
  graphContext :: "string option"
  relationalFacts :: "string list option"

record RetrievalEvalDatasetItem =
  ri_id :: string
  ri_query :: string
  relevantIds :: "string list"
  relevanceGrades :: "(string \<times> jsnum) list option"
  expectedAnswer :: "string option"
  ri_filter :: "jsval option"

datatype RelevanceMatch = Match_id | Match_parentId | Match_by "RetrievedChunk \<Rightarrow> string"

datatype RankBy = Rank_scores | Rank_order

record RankedResult =
  rm_metricName :: string
  rm_passed :: bool
  rm_score :: "real option"
  rm_reason :: string

section \<open>Ranking\<close>

text \<open>The key a chunk is sorted by: higher scores first, chunks without a finite score last.\<close>

datatype rank_key = At rat | Unscored

instantiation rank_key :: linorder
begin

fun less_eq_rank_key :: "rank_key \<Rightarrow> rank_key \<Rightarrow> bool" where
  "less_eq_rank_key _ Unscored = True"
| "less_eq_rank_key Unscored (At _) = False"
| "less_eq_rank_key (At a) (At b) = (b \<le> a)"

definition less_rank_key :: "rank_key \<Rightarrow> rank_key \<Rightarrow> bool" where
  "less_rank_key k l \<longleftrightarrow> k \<le> l \<and> \<not> l \<le> k"

instance
proof
  fix k l m :: rank_key
  show "k < l \<longleftrightarrow> k \<le> l \<and> \<not> l \<le> k" by (rule less_rank_key_def)
  show "k \<le> k" by (cases k) auto
  show "k \<le> l \<Longrightarrow> l \<le> m \<Longrightarrow> k \<le> m" by (cases k; cases l; cases m) auto
  show "k \<le> l \<Longrightarrow> l \<le> k \<Longrightarrow> k = l" by (cases k; cases l) auto
  show "k \<le> l \<or> l \<le> k" by (cases k; cases l) auto
qed

end

definition matchIdOf :: "RelevanceMatch \<Rightarrow> RetrievedChunk \<Rightarrow> string" where
  "matchIdOf m c =
     (case m of Match_by f \<Rightarrow> f c | Match_parentId \<Rightarrow> nullish (ch_parentId c) (ch_id c) | Match_id \<Rightarrow> ch_id c)"

definition scoreOf :: "(string \<times> jsnum) list \<Rightarrow> RetrievedChunk \<Rightarrow> rank_key" where
  "scoreOf scores c = (case map_of scores (ch_id c) of Some (Fin q) \<Rightarrow> At q | _ \<Rightarrow> Unscored)"

definition rankedChunks :: "RankBy \<Rightarrow> RetrievalContext \<Rightarrow> RetrievedChunk list" where
  "rankedChunks by context =
     (let chunks = nullish (cx_chunks context) []; scores = nullish (cx_scores context) []
      in if by = Rank_order \<or> scores = [] then chunks else sort_key (scoreOf scores) chunks)"

text \<open>\<open>[...new Set(xs)]\<close>.\<close>

fun each_once :: "'a list \<Rightarrow> 'a list" where
  "each_once [] = []"
| "each_once (x # xs) = x # removeAll x (each_once xs)"

definition rankedIds :: "RelevanceMatch \<Rightarrow> RankBy \<Rightarrow> RetrievalContext \<Rightarrow> string list" where
  "rankedIds m by context = each_once (map (matchIdOf m) (rankedChunks by context))"

lemma set_each_once [simp]: "set (each_once xs) = set xs"
  by (induction xs) auto

lemma distinct_each_once [simp]: "distinct (each_once xs)"
  by (induction xs) (auto simp: distinct_removeAll)

lemma rankedIds_distinct [simp]: "distinct (rankedIds m by context)"
  by (simp add: rankedIds_def)

lemma rankedChunks_mset: "mset (rankedChunks by context) = mset (nullish (cx_chunks context) [])"
  by (simp add: rankedChunks_def Let_def)

lemma rankedChunks_sorted:
  "nullish (cx_scores context) [] \<noteq> [] \<Longrightarrow>
     sorted (map (scoreOf (nullish (cx_scores context) [])) (rankedChunks Rank_scores context))"
  by (simp add: rankedChunks_def Let_def)

section \<open>Rank-based metrics\<close>

definition assertK :: "(jsnum \<Rightarrow> string) \<Rightarrow> jsnum \<Rightarrow> (string, nat) result" where
  "assertK ns k =
     (if is_integer k \<and> js_le (Fin 1) k then Inr (nat (int_of k))
      else Inl (''k must be a positive integer, received '' @ ns k @ ''.''))"

record Scored =
  sc_score :: real
  sc_reason :: string
  sc_passScore :: "real option"

definition MAX_GRADE :: real where
  "MAX_GRADE = 30"

definition recall_score :: "nat \<Rightarrow> string list \<Rightarrow> string list \<Rightarrow> Scored" where
  "recall_score k ranked relevant =
     (let found = filter (\<lambda>i. i \<in> set relevant) (take k ranked)
      in \<lparr>sc_score = length found / length relevant,
          sc_reason = string_of_nat (length found) @ '' of '' @ string_of_nat (length relevant) @
            '' relevant ids in the top '' @ string_of_nat k,
          sc_passScore = None\<rparr>)"

definition precision_score :: "nat \<Rightarrow> string list \<Rightarrow> string list \<Rightarrow> Scored" where
  "precision_score k ranked relevant =
     (let hits = length (filter (\<lambda>i. i \<in> set relevant) (take k ranked)); best = real (min (length relevant) k) / k
      in \<lparr>sc_score = hits / k,
          sc_reason = string_of_nat hits @ '' of the top '' @ string_of_nat k @ '' slots are relevant (at most '' @
            string_of_nat (min (length relevant) k) @ '' can be)'',
          sc_passScore = Some (hits / k / best)\<rparr>)"

definition hit_rate_score :: "nat \<Rightarrow> string list \<Rightarrow> string list \<Rightarrow> Scored" where
  "hit_rate_score k ranked relevant =
     (let hit = (\<exists>i \<in> set (take k ranked). i \<in> set relevant)
      in \<lparr>sc_score = (if hit then 1 else 0),
          sc_reason = (if hit then ''a relevant id is in the top '' else ''no relevant id in the top '') @ string_of_nat k,
          sc_passScore = None\<rparr>)"

fun find_index :: "('a \<Rightarrow> bool) \<Rightarrow> 'a list \<Rightarrow> nat option" where
  "find_index p [] = None"
| "find_index p (x # xs) = (if p x then Some 0 else map_option Suc (find_index p xs))"

definition reciprocal_score :: "nat option \<Rightarrow> string list \<Rightarrow> string list \<Rightarrow> Scored" where
  "reciprocal_score k ranked relevant =
     (case find_index (\<lambda>i. i \<in> set relevant) (case k of None \<Rightarrow> ranked | Some n \<Rightarrow> take n ranked) of
        None \<Rightarrow> \<lparr>sc_score = 0, sc_reason = ''no relevant id retrieved'', sc_passScore = None\<rparr>
      | Some i \<Rightarrow> \<lparr>sc_score = 1 / real (i + 1), sc_reason = ''first relevant id at rank '' @ string_of_nat (i + 1),
          sc_passScore = None\<rparr>)"

definition grade :: "RetrievalEvalDatasetItem \<Rightarrow> string list \<Rightarrow> string \<Rightarrow> real" where
  "grade item relevant i =
     (if i \<notin> set relevant then 0
      else case map_of (nullish (relevanceGrades item) []) i of
        Some (Fin g) \<Rightarrow> min MAX_GRADE (max 0 (of_rat g))
      | _ \<Rightarrow> 1)"

fun dcg_from :: "nat \<Rightarrow> real list \<Rightarrow> real" where
  "dcg_from i [] = 0"
| "dcg_from i (g # gs) = (2 powr g - 1) / log 2 (real (i + 2)) + dcg_from (i + 1) gs"

definition dcgOf :: "real list \<Rightarrow> real" where
  "dcgOf grades = dcg_from 0 grades"

definition ideal_grades :: "nat \<Rightarrow> real list \<Rightarrow> real list" where
  "ideal_grades k gs = take k (rev (sort gs))"

definition ndcg_score :: "nat \<Rightarrow> RetrievalEvalDatasetItem \<Rightarrow> string list \<Rightarrow> string list \<Rightarrow> Scored" where
  "ndcg_score k item ranked relevant =
     (let dcg = dcgOf (map (grade item relevant) (take k ranked));
          ideal = dcgOf (ideal_grades k (map (grade item relevant) relevant))
      in \<lparr>sc_score = (if ideal > 0 then dcg / ideal else 0),
          sc_reason = ''DCG '' @ fixed_text 4 dcg @ '' of an ideal '' @ fixed_text 4 ideal @ '' over the top '' @ string_of_nat k,
          sc_passScore = None\<rparr>)"

text \<open>The metrics by what they compute; \<open>k\<close> has passed \<open>assertK\<close>.\<close>

datatype ranking_kind = RecallAtK nat | PrecisionAtK nat | HitRateAtK nat | ReciprocalRank "nat option" | NdcgAtK nat

fun kind_name :: "ranking_kind \<Rightarrow> string" where
  "kind_name (RecallAtK k) = ''Recall@'' @ string_of_nat k"
| "kind_name (PrecisionAtK k) = ''Precision@'' @ string_of_nat k"
| "kind_name (HitRateAtK k) = ''HitRate@'' @ string_of_nat k"
| "kind_name (ReciprocalRank None) = ''MRR''"
| "kind_name (ReciprocalRank (Some k)) = ''MRR@'' @ string_of_nat k"
| "kind_name (NdcgAtK k) = ''nDCG@'' @ string_of_nat k"

fun kind_score :: "ranking_kind \<Rightarrow> RetrievalEvalDatasetItem \<Rightarrow> string list \<Rightarrow> string list \<Rightarrow> Scored" where
  "kind_score (RecallAtK k) item ranked relevant = recall_score k ranked relevant"
| "kind_score (PrecisionAtK k) item ranked relevant = precision_score k ranked relevant"
| "kind_score (HitRateAtK k) item ranked relevant = hit_rate_score k ranked relevant"
| "kind_score (ReciprocalRank k) item ranked relevant = reciprocal_score k ranked relevant"
| "kind_score (NdcgAtK k) item ranked relevant = ndcg_score k item ranked relevant"

record RankingMetric =
  km_name :: string
  km_kind :: ranking_kind
  km_threshold :: real
  km_matchOn :: RelevanceMatch
  km_rankBy :: RankBy

definition make_metric :: "ranking_kind \<Rightarrow> string option \<Rightarrow> real option \<Rightarrow> RelevanceMatch option \<Rightarrow> RankBy option \<Rightarrow> RankingMetric" where
  "make_metric kind nm threshold matchOn rankBy =
     \<lparr>km_name = nullish nm (kind_name kind), km_kind = kind, km_threshold = nullish threshold (1 / 2),
      km_matchOn = nullish matchOn Match_id, km_rankBy = nullish rankBy Rank_scores\<rparr>"

definition ranking_evaluate :: "RankingMetric \<Rightarrow> RetrievalEvalDatasetItem \<Rightarrow> RetrievalContext \<Rightarrow> RankedResult" where
  "ranking_evaluate M item context =
     (let relevant = each_once (relevantIds item) in
      if relevant = [] then
        \<lparr>rm_metricName = km_name M, rm_passed = False, rm_score = Some 0,
         rm_reason = ''The item has no relevantIds, so retrieval quality cannot be measured.''\<rparr>
      else let s = kind_score (km_kind M) item (rankedIds (km_matchOn M) (km_rankBy M) context) relevant
           in \<lparr>rm_metricName = km_name M,
               rm_passed = (km_threshold M \<le> fixed_value 4 (nullish (sc_passScore s) (sc_score s))),
               rm_score = Some (fixed_value 4 (sc_score s)), rm_reason = sc_reason s\<rparr>)"

section \<open>The scores are shares\<close>

lemma hits_le:
  assumes "distinct ranked"
  shows "length (filter (\<lambda>i. i \<in> set relevant) (take k ranked)) \<le> length relevant"
    and "length (filter (\<lambda>i. i \<in> set relevant) (take k ranked)) \<le> k"
proof -
  let ?f = "filter (\<lambda>i. i \<in> set relevant) (take k ranked)"
  from assms have "distinct ?f" by simp
  then have "length ?f = card (set ?f)" by (rule distinct_card [symmetric])
  also have "\<dots> \<le> card (set relevant)" by (intro card_mono) auto
  also have "\<dots> \<le> length relevant" by (rule card_length)
  finally show "length ?f \<le> length relevant" .
  show "length ?f \<le> k" using length_filter_le [of "\<lambda>i. i \<in> set relevant" "take k ranked"] by simp
qed

lemma recall_range:
  "distinct ranked \<Longrightarrow> 0 \<le> sc_score (recall_score k ranked relevant) \<and> sc_score (recall_score k ranked relevant) \<le> 1"
  using hits_le(1) [of ranked relevant k] by (auto simp: recall_score_def Let_def divide_le_eq_1)

text \<open>Recall is full exactly when every relevant id is among the first \<open>k\<close>.\<close>

lemma recall_full:
  assumes "distinct ranked" and "distinct relevant" and "relevant \<noteq> []"
  shows "sc_score (recall_score k ranked relevant) = 1 \<longleftrightarrow> set relevant \<subseteq> set (take k ranked)"
proof -
  let ?f = "filter (\<lambda>i. i \<in> set relevant) (take k ranked)"
  from assms(1) have f: "length ?f = card (set relevant \<inter> set (take k ranked))"
    by (subst distinct_card [symmetric]) (auto intro: arg_cong [where f = card])
  from assms(2) have r: "length relevant = card (set relevant)" by (simp add: distinct_card)
  have "sc_score (recall_score k ranked relevant) = 1 \<longleftrightarrow> length ?f = length relevant"
    using assms(3) by (auto simp: recall_score_def Let_def)
  also have "\<dots> \<longleftrightarrow> set relevant \<inter> set (take k ranked) = set relevant"
    unfolding f r using card_subset_eq [of "set relevant" "set relevant \<inter> set (take k ranked)"] by auto
  finally show ?thesis by blast
qed

lemma precision_score_range:
  assumes "distinct ranked" and "0 < k" and "relevant \<noteq> []"
  shows "0 \<le> sc_score (precision_score k ranked relevant)" and "sc_score (precision_score k ranked relevant) \<le> 1"
    and "0 \<le> the (sc_passScore (precision_score k ranked relevant))"
    and "the (sc_passScore (precision_score k ranked relevant)) \<le> 1"
  using hits_le [OF assms(1), of relevant k] assms(2, 3)
  by (auto simp: precision_score_def Let_def divide_le_eq_1 min_def)

section \<open>The ideal order\<close>

lemma gain_mono: "g \<le> h \<Longrightarrow> 2 powr g - 1 \<le> (2 powr h - 1 :: real)"
  by simp

lemma gain_nonneg: "0 \<le> g \<Longrightarrow> 0 \<le> 2 powr g - (1 :: real)"
  using ge_one_powr_ge_zero [of 2 g] by simp

definition discount :: "nat \<Rightarrow> real" where
  "discount i = 1 / log 2 (real (i + 2))"

lemma discount_pos: "0 < discount i"
  by (simp add: discount_def)

lemma discount_mono: "i \<le> j \<Longrightarrow> discount j \<le> discount i"
  unfolding discount_def by (intro divide_left_mono) (auto intro!: mult_pos_pos)

lemma dcg_from_Cons: "dcg_from i (g # gs) = (2 powr g - 1) * discount i + dcg_from (i + 1) gs"
  by (simp add: discount_def)

declare dcg_from.simps(2) [simp del]

lemma dcg_from_sum: "dcg_from i gs = (\<Sum>j < length gs. (2 powr (gs ! j) - 1) * discount (i + j))"
proof (induction gs arbitrary: i)
  case (Cons g gs)
  have "dcg_from i (g # gs) = (2 powr g - 1) * discount i + (\<Sum>j < length gs. (2 powr (gs ! j) - 1) * discount (i + 1 + j))"
    by (simp add: dcg_from_Cons Cons.IH)
  also have "\<dots> = (\<Sum>j < length (g # gs). (2 powr ((g # gs) ! j) - 1) * discount (i + j))"
    by (simp add: sum.lessThan_Suc_shift del: sum.lessThan_Suc)
  finally show ?case .
qed simp

text \<open>Moving the best grade to the front never lowers the gain.\<close>

lemma dcg_from_update:
  assumes "j < length gs"
  shows "dcg_from i (gs[j := h]) = dcg_from i gs + (2 powr h - 2 powr (gs ! j)) * discount (i + j)"
proof -
  have "dcg_from i (gs[j := h]) = (\<Sum>k < length gs. (2 powr (gs[j := h] ! k) - 1) * discount (i + k))"
    by (simp add: dcg_from_sum)
  also have "\<dots> = (2 powr h - 1) * discount (i + j) + (\<Sum>k \<in> {..<length gs} - {j}. (2 powr (gs ! k) - 1) * discount (i + k))"
    using assms by (subst sum.remove [of _ j]) auto
  also have "\<dots> = (2 powr h - 2 powr (gs ! j)) * discount (i + j) +
      ((2 powr (gs ! j) - 1) * discount (i + j) + (\<Sum>k \<in> {..<length gs} - {j}. (2 powr (gs ! k) - 1) * discount (i + k)))"
    by (simp add: algebra_simps)
  also have "\<dots> = (2 powr h - 2 powr (gs ! j)) * discount (i + j) + dcg_from i gs"
    unfolding dcg_from_sum using assms by (subst (2) sum.remove [of _ j]) auto
  finally show ?thesis by simp
qed

lemma dcg_exchange:
  assumes "m \<in> set gs" and "\<forall>h \<in> set (g # gs). h \<le> m"
  obtains gs' where "mset (g # gs) = mset (m # gs')" and "dcg_from i (g # gs) \<le> dcg_from i (m # gs')"
    and "length gs' = length gs"
proof -
  from assms(1) obtain j where j: "j < length gs" "gs ! j = m" by (auto simp: in_set_conv_nth)
  let ?gs = "gs[j := g]"
  have "mset ?gs + {#m#} = mset gs + {#g#}"
    using j nth_mem_mset [OF j(1)] by (simp add: mset_update)
  then have ms: "mset (g # gs) = mset (m # ?gs)" by simp
  have "0 \<le> (2 powr m - 2 powr g) * (discount i - discount (i + 1 + j))"
    using assms(2) discount_mono [of i "i + 1 + j"] by (intro mult_nonneg_nonneg) auto
  then have "dcg_from i (g # gs) \<le> dcg_from i (m # ?gs)"
    using j by (simp add: dcg_from_Cons dcg_from_update algebra_simps)
  with ms that show thesis by simp
qed

lemma dcg_from_mono_shift: "(\<forall>g \<in> set gs. 0 \<le> g) \<Longrightarrow> 0 \<le> dcg_from i gs"
  unfolding dcg_from_sum
  by (intro sum_nonneg mult_nonneg_nonneg gain_nonneg less_imp_le [OF discount_pos]) auto

text \<open>Among the lists of grades drawn from a stock, the largest first gain most.\<close>

lemma sorted_grades_best:
  assumes "sorted_wrt (\<ge>) S" and "mset gs \<subseteq># mset S"
  shows "dcg_from i gs \<le> dcg_from i (take (length gs) S)"
  using assms
proof (induction "length gs" arbitrary: gs S i)
  case (Suc n)
  then obtain g rest where gs: "gs = g # rest" and n: "n = length rest" by (cases gs) auto
  from Suc.prems(2) obtain m S' where S: "S = m # S'" by (cases S) (auto simp: gs)
  from Suc.prems have top: "\<forall>h \<in> set gs. h \<le> m"
    using set_mset_mono [OF Suc.prems(2)] by (auto simp: S)
  have sorted: "sorted_wrt (\<ge>) S'" using Suc.prems(1) by (simp add: S)
  show ?case
  proof (cases "m \<in> set rest")
    case True
    from dcg_exchange [OF True, of g i] top obtain gs' where ms: "mset (g # rest) = mset (m # gs')"
      and le: "dcg_from i (g # rest) \<le> dcg_from i (m # gs')" and len: "length gs' = length rest"
      by (auto simp: gs)
    from ms Suc.prems(2) have "mset gs' \<subseteq># mset S'" by (simp add: gs S)
    with Suc.hyps(1) [of gs' S' "i + 1"] n len sorted
    have "dcg_from (i + 1) gs' \<le> dcg_from (i + 1) (take (length gs') S')" by simp
    with le show ?thesis by (simp add: gs S len dcg_from_Cons)
  next
    case False
    have "mset rest \<subseteq># mset S'"
    proof (cases "g = m")
      case True with Suc.prems(2) show ?thesis by (simp add: gs S)
    next
      case other: False
      have "mset rest \<subseteq># mset S" using Suc.prems(2) by (simp add: gs) (meson mset_subset_eq_insertD subset_mset.less_imp_le)
      with False show ?thesis
        by (simp add: S) (metis add_mset_remove_trivial count_inI diff_single_trivial in_multiset_in_set
            insert_DiffM subset_eq_diff_conv add_mset_add_single)
    qed
    with Suc.hyps(1) [of rest S' "i + 1"] n sorted
    have "dcg_from (i + 1) rest \<le> dcg_from (i + 1) (take (length rest) S')" by simp
    moreover have "(2 powr g - 1) * discount i \<le> (2 powr m - 1) * discount i"
      using top discount_pos [of i] by (intro mult_right_mono) (auto simp: gs)
    ultimately show ?thesis by (simp add: gs S dcg_from_Cons)
  qed
qed simp

lemma dcg_from_append_zeros: "dcg_from i (gs @ replicate z 0) = dcg_from i gs"
proof (induction gs arbitrary: i)
  case Nil
  show ?case by (induction z arbitrary: i) (auto simp: dcg_from_Cons)
qed (simp add: dcg_from_Cons)

lemma dcg_from_take_le:
  assumes "\<forall>g \<in> set gs. 0 \<le> g" and "m \<le> n"
  shows "dcg_from i (take m gs) \<le> dcg_from i (take n gs)"
  using assms
proof (induction gs arbitrary: i m n)
  case (Cons g gs)
  show ?case
  proof (cases m)
    case 0
    have "\<forall>h \<in> set (take n (g # gs)). 0 \<le> h" using Cons.prems(1) by (metis in_set_takeD)
    from dcg_from_mono_shift [OF this, of i] 0 show ?thesis by simp
  next
    case (Suc m')
    with Cons.prems(2) obtain n' where "n = Suc n'" "m' \<le> n'" by (cases n) auto
    with Cons.IH [of m' n' "i + 1"] Cons.prems(1) Suc show ?thesis by (simp add: dcg_from_Cons)
  qed
qed simp

lemma grade_nonneg [simp]: "0 \<le> grade item relevant i"
  by (auto simp: grade_def MAX_GRADE_def min_def split: option.splits jsnum.splits)

lemma grade_irrelevant: "i \<notin> set relevant \<Longrightarrow> grade item relevant i = 0"
  by (simp add: grade_def)

text \<open>The grades of distinct results are those of distinct relevant ids, and zeros.\<close>

lemma grades_in_stock:
  assumes "distinct ranked"
  shows "mset (map (grade item relevant) ranked) \<subseteq>#
    mset (map (grade item relevant) relevant @ replicate (length ranked) 0)"
proof -
  let ?g = "grade item relevant" and ?in = "filter (\<lambda>i. i \<in> set relevant) ranked"
    and ?out = "filter (\<lambda>i. i \<notin> set relevant) ranked"
  have "mset ?in \<subseteq># mset relevant"
  proof (rule mset_subset_eqI)
    fix a
    show "count (mset ?in) a \<le> count (mset relevant) a"
    proof (cases "a \<in> set relevant")
      case True
      have "count (mset ?in) a \<le> 1" using assms distinct_filter [OF assms] by (simp add: distinct_count_atmost_1)
      also from True have "1 \<le> count (mset relevant) a" by simp
      finally show ?thesis .
    next
      case False
      then have "a \<notin># mset ?in" by simp
      then show ?thesis by (simp only: not_in_iff)
    qed
  qed
  then have "image_mset ?g (mset ?in) \<subseteq># image_mset ?g (mset relevant)" by (rule image_mset_subseteq_mono)
  moreover have "map ?g ?out = replicate (length ?out) 0"
    by (intro replicate_eqI) (auto simp: grade_irrelevant)
  then have "image_mset ?g (mset ?out) = replicate_mset (length ?out) 0"
    by (metis mset_map mset_replicate)
  moreover have "replicate_mset (length ?out) (0 :: real) \<subseteq># replicate_mset (length ranked) 0"
    using length_filter_le [of "\<lambda>i. i \<notin> set relevant" ranked] by (simp add: subseteq_mset_def)
  moreover have "mset ranked = mset ?in + mset ?out" by simp
  ultimately show ?thesis
    by (metis (no_types, lifting) image_mset_union mset_append mset_map mset_replicate subset_mset.add_mono)
qed

lemma dcg_at_most_ideal:
  assumes "distinct ranked"
  shows "dcgOf (map (grade item relevant) (take k ranked)) \<le> dcgOf (ideal_grades k (map (grade item relevant) relevant))"
proof -
  let ?g = "grade item relevant" and ?top = "take k ranked"
  let ?best = "rev (sort (map ?g relevant))"
  let ?S = "?best @ replicate (length ?top) 0"
  have nonneg: "\<forall>g \<in> set ?S. 0 \<le> g" by auto
  have "sorted (replicate (length ?top) 0 @ sort (map ?g relevant))"
    by (auto simp: sorted_append)
  then have sorted: "sorted_wrt (\<ge>) ?S"
    by (metis rev_append rev_replicate rev_rev_ident sorted_wrt_rev)
  have "mset (map ?g ?top) \<subseteq># mset ?S"
    using grades_in_stock [of ?top item relevant] assms by simp
  from sorted_grades_best [OF sorted this, of 0]
  have "dcgOf (map ?g ?top) \<le> dcg_from 0 (take (length ?top) ?S)" by (simp add: dcgOf_def)
  also have "\<dots> \<le> dcg_from 0 (take k ?S)" using nonneg by (intro dcg_from_take_le) auto
  also have "\<dots> = dcgOf (ideal_grades k (map ?g relevant))"
    by (simp add: dcgOf_def ideal_grades_def dcg_from_append_zeros)
  finally show ?thesis .
qed

lemma ndcg_range:
  assumes "distinct ranked"
  shows "0 \<le> sc_score (ndcg_score k item ranked relevant)" and "sc_score (ndcg_score k item ranked relevant) \<le> 1"
proof -
  let ?d = "dcgOf (map (grade item relevant) (take k ranked))"
  have "0 \<le> ?d" unfolding dcgOf_def by (intro dcg_from_mono_shift) auto
  with dcg_at_most_ideal [OF assms, of item relevant k]
  show "0 \<le> sc_score (ndcg_score k item ranked relevant)" and "sc_score (ndcg_score k item ranked relevant) \<le> 1"
    by (auto simp: ndcg_score_def Let_def divide_le_eq_1)
qed

text \<open>A ranking that starts with the relevant ids in the order of their grades has the score 1.\<close>

lemma ndcg_perfect:
  assumes "map (grade item relevant) (take k ranked) = ideal_grades k (map (grade item relevant) relevant)"
    and "0 < dcgOf (ideal_grades k (map (grade item relevant) relevant))"
  shows "sc_score (ndcg_score k item ranked relevant) = 1"
  using assms by (simp add: ndcg_score_def Let_def)

lemma find_index_nth: "find_index P xs = Some i \<Longrightarrow> i < length xs \<and> P (xs ! i) \<and> (\<forall>j < i. \<not> P (xs ! j))"
proof (induction xs arbitrary: i)
  case (Cons x xs)
  show ?case
  proof (cases "P x")
    case False
    with Cons.prems obtain j where "find_index P xs = Some j" "i = Suc j" by auto
    with Cons.IH [of j] False show ?thesis by (auto simp: less_Suc_eq_0_disj)
  qed (use Cons.prems in auto)
qed simp

lemma kind_score_range:
  assumes "distinct ranked" and "relevant \<noteq> []"
  shows "0 \<le> sc_score (kind_score kind item ranked relevant) \<and> sc_score (kind_score kind item ranked relevant) \<le> 1"
proof (cases kind)
  case (RecallAtK k) with recall_range [OF assms(1)] show ?thesis by simp
next
  case (PrecisionAtK k)
  show ?thesis
  proof (cases "k = 0")
    case True with PrecisionAtK show ?thesis by (simp add: precision_score_def Let_def)
  qed (use precision_score_range [OF assms(1) _ assms(2)] PrecisionAtK in simp)
next
  case (HitRateAtK k) then show ?thesis by (simp add: hit_rate_score_def Let_def)
next
  case (ReciprocalRank k) then show ?thesis by (auto simp: reciprocal_score_def divide_le_eq_1 split: option.splits)
next
  case (NdcgAtK k) with ndcg_range [OF assms(1)] show ?thesis by simp
qed

lemma ranking_scores_are_shares_core:
  "\<exists>s. rm_score (ranking_evaluate M item context) = Some s \<and> 0 \<le> s \<and> s \<le> 1"
proof (cases "each_once (relevantIds item) = []")
  case False
  from kind_score_range [OF rankedIds_distinct False]
  show ?thesis using False by (simp add: ranking_evaluate_def Let_def fixed_value_le_1)
qed (simp add: ranking_evaluate_def)

section \<open>Faithfulness\<close>

record FaithfulnessJudgeInput =
  fj_query :: string
  fj_answer :: string
  fj_contexts :: "string list"
  fj_expectedAnswer :: "string option"

record FaithfulnessMetricOptions =
  fo_threshold :: "real option"
  fo_maxContexts :: "nat option"
  fo_rankBy :: "RankBy option"
  fo_contexts :: "(RetrievalContext \<Rightarrow> string list) option"
  fo_name :: "string option"

definition defaultContexts :: "FaithfulnessMetricOptions \<Rightarrow> RetrievalContext \<Rightarrow> string list" where
  "defaultContexts o' context =
     (let passages = map ch_content (rankedChunks (nullish (fo_rankBy o') Rank_scores) context);
          present = (\<lambda>t. case t of Some s \<Rightarrow> [s] | None \<Rightarrow> []);
          extra = filter (\<lambda>t. t \<noteq> []) (present (hydratedParentContext context) @ present (compressedContext context) @
            present (graphContext context) @ nullish (relationalFacts context) [])
      in (case fo_maxContexts o' of None \<Rightarrow> passages | Some n \<Rightarrow> take n passages) @ extra)"

type_synonym 'x retrieval_metric =
  "RetrievalEvalDatasetItem \<Rightarrow> RetrievalContext \<Rightarrow> string option \<Rightarrow> 'x \<Rightarrow> (string, RankedResult) result \<times> 'x"

definition failed_metric :: "string \<Rightarrow> string \<Rightarrow> RankedResult" where
  "failed_metric nm why = \<lparr>rm_metricName = nm, rm_passed = False, rm_score = Some 0, rm_reason = why\<rparr>"

definition faithfulness_evaluate ::
    "(FaithfulnessJudgeInput \<Rightarrow> 'x \<Rightarrow> (string, real option \<times> string) result \<times> 'x) \<Rightarrow> FaithfulnessMetricOptions
       \<Rightarrow> 'x retrieval_metric" where
  "faithfulness_evaluate judge o' item context given x =
     (let nm = nullish (fo_name o') ''Faithfulness'' in
      case given of
        None \<Rightarrow> (Inr (failed_metric nm (''No answer to judge: configure RetrievalBenchmarkRunner with an `answer` function, or see the item'' @ [char_of (39 :: nat)] @ ''s answerError.'')), x)
      | Some a \<Rightarrow>
          let contexts = (case fo_contexts o' of Some f \<Rightarrow> f context | None \<Rightarrow> defaultContexts o' context)
          in (case judge \<lparr>fj_query = ri_query item, fj_answer = a, fj_contexts = contexts, fj_expectedAnswer = expectedAnswer item\<rparr> x of
                (Inl m, y) \<Rightarrow> (Inr (failed_metric nm (''Faithfulness judge failed: '' @ m)), y)
              | (Inr (None, _), y) \<Rightarrow>
                  (Inr (failed_metric nm ''Faithfulness judge failed: the faithfulness judge must return a finite score''), y)
              | (Inr (Some s, why), y) \<Rightarrow>
                  let v = fixed_value 4 (min 1 (max 0 s))
                  in (Inr \<lparr>rm_metricName = nm, rm_passed = (nullish (fo_threshold o') (7 / 10) \<le> v), rm_score = Some v,
                      rm_reason = why\<rparr>, y)))"

section \<open>The benchmark\<close>

text \<open>A source of retrievals; a knowledge base answers with scored chunks, the last score of an id counting.\<close>

datatype 'x RetrievalSource =
    Retriever "string \<Rightarrow> nat \<Rightarrow> jsval option \<Rightarrow> 'x \<Rightarrow> (string, RetrievalContext) result \<times> 'x"
  | Pipeline "string \<Rightarrow> nat \<Rightarrow> jsval option \<Rightarrow> 'x \<Rightarrow> (string, RetrievalContext) result \<times> 'x"
  | Scored_source "string \<Rightarrow> nat \<Rightarrow> jsval option \<Rightarrow> 'x \<Rightarrow> (string, (RetrievedChunk \<times> jsnum) list) result \<times> 'x"

fun toRetriever :: "'x RetrievalSource \<Rightarrow> string \<Rightarrow> nat \<Rightarrow> jsval option \<Rightarrow> 'x \<Rightarrow> (string, RetrievalContext) result \<times> 'x" where
  "toRetriever (Retriever f) query topK flt x = f query topK flt x"
| "toRetriever (Pipeline f) query topK flt x = f query topK flt x"
| "toRetriever (Scored_source f) query topK flt x =
     (case f query topK flt x of
        (Inl m, y) \<Rightarrow> (Inl m, y)
      | (Inr scored, y) \<Rightarrow>
          (Inr \<lparr>cx_query = query, cx_chunks = Some (map fst scored),
             cx_scores = Some (rev (map (\<lambda>(c, s). (ch_id c, s)) scored)),
             hydratedParentContext = None, compressedContext = None, graphContext = None, relationalFacts = None\<rparr>, y))"

record 'x retrieval_runner =
  rr_source :: "'x RetrievalSource"
  rr_metrics :: "(string \<times> 'x retrieval_metric) list"
  rr_topK :: nat
  rr_matchOn :: RelevanceMatch
  rr_rankBy :: RankBy
  rr_answer :: "(RetrievalEvalDatasetItem \<Rightarrow> RetrievalContext \<Rightarrow> 'x \<Rightarrow> (string, string) result \<times> 'x) option"

text \<open>The default metrics, and the check that no two metrics share a name.\<close>

definition built_in_metric :: "RankingMetric \<Rightarrow> string \<times> 'x retrieval_metric" where
  "built_in_metric M = (km_name M, \<lambda>item context given x. (Inr (ranking_evaluate M item context), x))"

definition default_metrics :: "nat \<Rightarrow> RelevanceMatch \<Rightarrow> RankBy \<Rightarrow> (string \<times> 'x retrieval_metric) list" where
  "default_metrics k m by =
     map (\<lambda>kind. built_in_metric (make_metric kind None None (Some m) (Some by)))
       [RecallAtK k, PrecisionAtK k, ReciprocalRank (Some k), NdcgAtK k]"

fun repeated_name :: "string list \<Rightarrow> string set \<Rightarrow> string option" where
  "repeated_name [] seen = None"
| "repeated_name (n # ns) seen = (if n \<in> seen then Some n else repeated_name ns (insert n seen))"

definition make_runner ::
    "(jsnum \<Rightarrow> string) \<Rightarrow> 'x RetrievalSource \<Rightarrow> (string \<times> 'x retrieval_metric) list option \<Rightarrow> jsnum option \<Rightarrow> jsnum option
       \<Rightarrow> RelevanceMatch option \<Rightarrow> RankBy option
       \<Rightarrow> (RetrievalEvalDatasetItem \<Rightarrow> RetrievalContext \<Rightarrow> 'x \<Rightarrow> (string, string) result \<times> 'x) option
       \<Rightarrow> (string, 'x retrieval_runner) result" where
  "make_runner ns src metrics topK given_k m by answer =
     (let positive = (\<lambda>nm v. if is_integer v \<and> js_le (Fin 1) v then Inr (nat (int_of v))
            else Inl (nm @ '' must be a positive integer, received '' @ ns v @ ''.''));
          top = nullish topK (Fin 5)
      in case positive ''topK'' top of Inl e \<Rightarrow> Inl e | Inr t \<Rightarrow>
         (case positive ''k'' (nullish given_k top) of Inl e \<Rightarrow> Inl e | Inr k \<Rightarrow>
            let matchOn = nullish m Match_id; rankBy = nullish by Rank_scores;
                ms = (case metrics of Some ms \<Rightarrow> ms | None \<Rightarrow> default_metrics k matchOn rankBy)
            in (case repeated_name (map fst ms) {} of
                  Some n \<Rightarrow> Inl (''Two metrics are named '' @ quoted n @
                    '', so their averages would collide. Give one a distinct name.'')
                | None \<Rightarrow> Inr \<lparr>rr_source = src, rr_metrics = ms, rr_topK = t, rr_matchOn = matchOn, rr_rankBy = rankBy,
                    rr_answer = answer\<rparr>)))"

record RetrievalEvalItemResult =
  re_item :: RetrievalEvalDatasetItem
  retrievedIds :: "string list"
  re_answer :: "string option"
  re_metrics :: "RankedResult list"
  re_overallPassed :: bool
  re_score :: real
  re_error :: "string option"
  answerError :: "string option"

definition mean_score :: "real option list \<Rightarrow> real" where
  "mean_score vs =
     (let safe = map (\<lambda>v. case v of Some s \<Rightarrow> s | None \<Rightarrow> 0) vs
      in if safe = [] then 0 else sum_list safe / length safe)"

fun evaluate_metrics ::
    "(string \<times> 'x retrieval_metric) list \<Rightarrow> RetrievalEvalDatasetItem \<Rightarrow> RetrievalContext \<Rightarrow> string option \<Rightarrow> 'x
       \<Rightarrow> RankedResult list \<times> 'x" where
  "evaluate_metrics [] item context given x = ([], x)"
| "evaluate_metrics ((nm, f) # ms) item context given x =
     (case f item context given x of
        (out, y) \<Rightarrow>
          let r = (case out of
                     Inl m \<Rightarrow> failed_metric nm (''The metric threw: '' @ m)
                   | Inr res \<Rightarrow> if rm_score res = None
                       then failed_metric nm ''The metric returned a score that is not a finite number.'' else res)
          in (case evaluate_metrics ms item context given y of (rs, z) \<Rightarrow> (r # rs, z)))"

definition evaluateItem :: "'x retrieval_runner \<Rightarrow> RetrievalEvalDatasetItem \<Rightarrow> 'x \<Rightarrow> RetrievalEvalItemResult \<times> 'x" where
  "evaluateItem R item x =
     (case toRetriever (rr_source R) (ri_query item) (rr_topK R) (ri_filter item) x of
        (Inl e, y) \<Rightarrow>
          (\<lparr>re_item = item, retrievedIds = [], re_answer = None,
            re_metrics = map (\<lambda>(nm, _). failed_metric nm (''Retrieval failed: '' @ e)) (rr_metrics R),
            re_overallPassed = False, re_score = 0, re_error = Some e, answerError = None\<rparr>, y)
      | (Inr context, y) \<Rightarrow>
          (case (case rr_answer R of None \<Rightarrow> (None, None, y)
                 | Some f \<Rightarrow> (case f item context y of (Inl e, z) \<Rightarrow> (None, Some e, z) | (Inr a, z) \<Rightarrow> (Some a, None, z))) of
             (a, err, z) \<Rightarrow>
               (case evaluate_metrics (rr_metrics R) item context a z of
                  (ms, w) \<Rightarrow>
                    (\<lparr>re_item = item, retrievedIds = rankedIds (rr_matchOn R) (rr_rankBy R) context, re_answer = a,
                      re_metrics = ms, re_overallPassed = list_all rm_passed ms,
                      re_score = fixed_value 4 (mean_score (map rm_score ms)), re_error = None, answerError = err\<rparr>, w))))"

fun evaluate_items :: "'x retrieval_runner \<Rightarrow> RetrievalEvalDatasetItem list \<Rightarrow> 'x \<Rightarrow> RetrievalEvalItemResult list \<times> 'x" where
  "evaluate_items R [] x = ([], x)"
| "evaluate_items R (item # items) x =
     (case evaluateItem R item x of (r, y) \<Rightarrow> (case evaluate_items R items y of (rs, z) \<Rightarrow> (r # rs, z)))"

record RetrievalBenchmarkSummary =
  rs_totalItems :: nat
  rs_passedItems :: nat
  rs_failedItems :: nat
  rs_passRate :: real
  metricAverages :: "(string \<times> real) list"
  rs_averageScore :: real
  rs_itemResults :: "RetrievalEvalItemResult list"

definition metric_average :: "RetrievalEvalItemResult list \<Rightarrow> string \<Rightarrow> real" where
  "metric_average rs nm =
     fixed_value 4 (mean_score (map (\<lambda>r. case List.find (\<lambda>m. rm_metricName m = nm) (re_metrics r) of
        Some m \<Rightarrow> rm_score m | None \<Rightarrow> Some 0) rs))"

definition run_retrieval_benchmark :: "'x retrieval_runner \<Rightarrow> RetrievalEvalDatasetItem list \<Rightarrow> 'x \<Rightarrow> RetrievalBenchmarkSummary \<times> 'x" where
  "run_retrieval_benchmark R dataset x =
     (case evaluate_items R dataset x of
        (rs, y) \<Rightarrow>
          let passed = length (filter re_overallPassed rs)
          in (\<lparr>rs_totalItems = length rs, rs_passedItems = passed, rs_failedItems = length rs - passed,
               rs_passRate = fixed_value 4 (if rs = [] then 0 else passed / length rs),
               metricAverages = map (\<lambda>(nm, _). (nm, metric_average rs nm)) (rr_metrics R),
               rs_averageScore = fixed_value 4 (mean_score (map (\<lambda>r. Some (re_score r)) rs)), rs_itemResults = rs\<rparr>, y))"

section \<open>What a benchmark reports\<close>

definition share :: "real option \<Rightarrow> bool" where
  "share v \<longleftrightarrow> (case v of None \<Rightarrow> True | Some s \<Rightarrow> 0 \<le> s \<and> s \<le> 1)"

definition share_valued :: "'x retrieval_metric \<Rightarrow> bool" where
  "share_valued f \<longleftrightarrow> (\<forall>item context given x res y. f item context given x = (Inr res, y) \<longrightarrow> share (rm_score res))"

lemma sum_list_le_length: "\<forall>s \<in> set xs. s \<le> (1 :: real) \<Longrightarrow> sum_list xs \<le> length xs"
  by (induction xs) auto

lemma mean_score_range:
  assumes "\<forall>v \<in> set vs. share v"
  shows "0 \<le> mean_score vs" and "mean_score vs \<le> 1"
proof -
  let ?s = "map (\<lambda>v. case v of Some s \<Rightarrow> s | None \<Rightarrow> 0) vs"
  have b: "\<forall>s \<in> set ?s. 0 \<le> s \<and> s \<le> (1 :: real)"
    using assms by (auto simp: share_def split: option.splits)
  have "0 \<le> sum_list ?s" using b by (intro sum_list_nonneg) auto
  moreover have "sum_list ?s \<le> length vs" using sum_list_le_length [of ?s] b by simp
  ultimately show "0 \<le> mean_score vs" and "mean_score vs \<le> 1"
    by (auto simp: mean_score_def Let_def divide_le_eq_1)
qed

lemma built_in_share_valued: "share_valued (snd (built_in_metric M))"
proof -
  have "share (rm_score (ranking_evaluate M item ctx))" for item ctx
    using ranking_scores_are_shares_core [of M item ctx] by (auto simp: share_def)
  then show ?thesis by (auto simp: share_valued_def built_in_metric_def)
qed

lemma share_valuedD: "share_valued f \<Longrightarrow> f item context given x = (Inr res, y) \<Longrightarrow> share (rm_score res)"
  unfolding share_valued_def by blast

lemma failed_metric_share [simp]: "share (rm_score (failed_metric nm why))"
  by (simp add: failed_metric_def share_def)

lemma evaluate_metrics_result:
  assumes "evaluate_metrics ms item context given x = (rs, y)"
  shows "length rs = length ms"
    and "\<forall>m \<in> set ms. share_valued (snd m) \<Longrightarrow> \<forall>r \<in> set rs. share (rm_score r)"
  using assms
  by (induction ms arbitrary: x rs y)
     (fastforce simp: Let_def dest: share_valuedD split: prod.splits sum.splits)+

lemma evaluateItem_cases:
  assumes "evaluateItem R item x = (r, y)"
  obtains (failed) why where "re_item r = item" "re_metrics r = map (\<lambda>m. failed_metric (fst m) why) (rr_metrics R)"
      "re_score r = 0" "\<not> re_overallPassed r"
    | (scored) ctx a z ms where "re_item r = item" "evaluate_metrics (rr_metrics R) item ctx a z = (ms, y)"
      "re_metrics r = ms" "re_score r = fixed_value 4 (mean_score (map rm_score ms))"
proof -
  obtain out y1 where out: "toRetriever (rr_source R) (ri_query item) (rr_topK R) (ri_filter item) x = (out, y1)"
    by fastforce
  show thesis
  proof (cases out)
    case (Inl e)
    with assms out have "re_item r = item" "\<not> re_overallPassed r" "re_score r = 0"
      "re_metrics r = map (\<lambda>m. failed_metric (fst m) (''Retrieval failed: '' @ e)) (rr_metrics R)"
      by (auto simp: evaluateItem_def case_prod_beta)
    then show thesis by (intro failed)
  next
    case (Inr ctx)
    obtain a err z where ans: "(case rr_answer R of None \<Rightarrow> (None, None, y1)
        | Some f \<Rightarrow> (case f item ctx y1 of (Inl e, z) \<Rightarrow> (None, Some e, z) | (Inr a, z) \<Rightarrow> (Some a, None, z))) = (a, err, z)"
      using prod_cases3 by blast
    obtain ms w where ms: "evaluate_metrics (rr_metrics R) item ctx a z = (ms, w)" by fastforce
    from assms out Inr ans ms have "re_item r = item" "re_metrics r = ms" "y = w"
      "re_score r = fixed_value 4 (mean_score (map rm_score ms))"
      by (auto simp: evaluateItem_def)
    with ms show thesis by (intro scored) auto
  qed
qed

lemma evaluateItem_result:
  assumes "evaluateItem R item x = (r, y)"
  shows "re_item r = item" and "length (re_metrics r) = length (rr_metrics R)"
    and "\<forall>m \<in> set (rr_metrics R). share_valued (snd m) \<Longrightarrow>
      (\<forall>m \<in> set (re_metrics r). share (rm_score m)) \<and> 0 \<le> re_score r \<and> re_score r \<le> 1"
proof -
  have "re_item r = item \<and> length (re_metrics r) = length (rr_metrics R) \<and>
    ((\<forall>m \<in> set (rr_metrics R). share_valued (snd m)) \<longrightarrow>
      (\<forall>m \<in> set (re_metrics r). share (rm_score m)) \<and> 0 \<le> re_score r \<and> re_score r \<le> 1)"
    using assms
  proof (cases rule: evaluateItem_cases)
    case (scored ctx a z ms)
    note ms = evaluate_metrics_result [OF scored(2)]
    have "\<forall>v \<in> set (map rm_score ms). share v" if "\<forall>m \<in> set (rr_metrics R). share_valued (snd m)"
      using ms(2) [OF that] by auto
    with ms mean_score_range [of "map rm_score ms"] scored show ?thesis by (auto simp: fixed_value_le_1)
  qed auto
  then show "re_item r = item" and "length (re_metrics r) = length (rr_metrics R)"
    and "\<forall>m \<in> set (rr_metrics R). share_valued (snd m) \<Longrightarrow>
      (\<forall>m \<in> set (re_metrics r). share (rm_score m)) \<and> 0 \<le> re_score r \<and> re_score r \<le> 1" by auto
qed

text \<open>A retrieval that throws is an item that scores 0; the items after it are evaluated all the same.\<close>

lemma evaluate_items_result:
  assumes "evaluate_items R items x = (rs, y)"
  shows "map re_item rs = items"
    and "\<forall>m \<in> set (rr_metrics R). share_valued (snd m) \<Longrightarrow>
      \<forall>r \<in> set rs. (\<forall>m \<in> set (re_metrics r). share (rm_score m)) \<and> 0 \<le> re_score r \<and> re_score r \<le> 1"
  using assms
proof (induction items arbitrary: x rs y)
  case (Cons item items)
  {
    case 1
    then show ?case using Cons.IH(1) by (auto split: prod.splits dest: evaluateItem_result(1))
  next
    case 2
    then obtain r z rs' where r: "evaluateItem R item x = (r, z)" and rs: "evaluate_items R items z = (rs', y)" "rs = r # rs'"
      by (auto split: prod.splits)
    from evaluateItem_result(3) [OF r 2(1)] Cons.IH(2) [OF 2(1) rs(1)] rs(2) show ?case by simp
  }
qed auto

lemma retrieval_summary_accounts:
  assumes "run_retrieval_benchmark R dataset x = (S, y)"
  shows "map re_item (rs_itemResults S) = dataset" and "rs_totalItems S = length dataset"
    and "rs_passedItems S + rs_failedItems S = length dataset"
    and "rs_passedItems S = length (filter re_overallPassed (rs_itemResults S))"
    and "\<forall>m \<in> set (rr_metrics R). share_valued (snd m) \<Longrightarrow>
      (\<forall>(nm, a) \<in> set (metricAverages S). 0 \<le> a \<and> a \<le> 1) \<and> 0 \<le> rs_averageScore S \<and> rs_averageScore S \<le> 1"
proof -
  obtain rs where rs: "evaluate_items R dataset x = (rs, y)"
    and S: "rs_itemResults S = rs" "rs_totalItems S = length rs" "rs_passedItems S = length (filter re_overallPassed rs)"
      "rs_failedItems S = length rs - length (filter re_overallPassed rs)"
      "metricAverages S = map (\<lambda>(nm, _). (nm, metric_average rs nm)) (rr_metrics R)"
      "rs_averageScore S = fixed_value 4 (mean_score (map (\<lambda>r. Some (re_score r)) rs))"
    using assms by (auto simp: run_retrieval_benchmark_def Let_def split: prod.splits)
  note items = evaluate_items_result [OF rs]
  from items(1) have len: "length rs = length dataset" by (metis length_map)
  show "map re_item (rs_itemResults S) = dataset" "rs_totalItems S = length dataset"
    "rs_passedItems S = length (filter re_overallPassed (rs_itemResults S))"
    using S items(1) len by simp_all
  show "rs_passedItems S + rs_failedItems S = length dataset"
    using S len length_filter_le [of re_overallPassed rs] by simp
  assume shares: "\<forall>m \<in> set (rr_metrics R). share_valued (snd m)"
  note b = items(2) [OF shares]
  have "0 \<le> metric_average rs nm \<and> metric_average rs nm \<le> 1" for nm
  proof -
    have "\<forall>v \<in> set (map (\<lambda>r. case List.find (\<lambda>m. rm_metricName m = nm) (re_metrics r) of
        Some m \<Rightarrow> rm_score m | None \<Rightarrow> Some 0) rs). share v"
      using b by (auto simp: find_Some_iff share_def split: option.splits) (metis nth_mem option.inject share_def option.case)+
    from mean_score_range [OF this] show ?thesis by (simp add: metric_average_def fixed_value_le_1)
  qed
  moreover have "\<forall>v \<in> set (map (\<lambda>r. Some (re_score r)) rs). share v" using b by (auto simp: share_def)
  from mean_score_range [OF this] have "0 \<le> rs_averageScore S \<and> rs_averageScore S \<le> 1"
    by (simp add: S fixed_value_le_1)
  ultimately show "(\<forall>(nm, a) \<in> set (metricAverages S). 0 \<le> a \<and> a \<le> 1) \<and> 0 \<le> rs_averageScore S \<and> rs_averageScore S \<le> 1"
    by (auto simp: S)
qed

text \<open>
  C38: Every rank-based metric reports a share: whatever is retrieved, in whatever order, with repeated or unknown ids
  and arbitrary scores and grades, the reported score of recall, precision, hit rate, reciprocal rank and
  nDCG is between 0 and 1. For nDCG this says that no ranking gains more than the ideal one.
\<close>

lemma ranking_scores_are_shares:
  "\<exists>s. rm_score (ranking_evaluate M item context) = Some s \<and> 0 \<le> s \<and> s \<le> 1"
  by (rule ranking_scores_are_shares_core)

end
