(* ===== verification/Hybrid_Store.thy ===== *)
theory Hybrid_Store
  imports Complex_Main Eval_Metrics "HOL-Library.AList" "HOL-Library.Multiset"
begin

text \<open>
  The vector store of \<open>packages/rag/src/stores/hybrid-vector.store.ts\<close> with its incremental index, the fusion of
  rankings (\<open>utils/rrf-fusion.ts\<close>) and cosine similarity (\<open>utils/cosine-similarity.ts\<close>). Scores are reals; a JavaScript
  \<open>Map\<close> whose order matters is an association list in insertion order (\<open>AList.update\<close> is \<open>set\<close>,
  \<open>AList.delete\<close> is \<open>delete\<close>). The embedding provider acts on the world \<open>'x\<close>.
\<close>

section \<open>Data\<close>

record DocumentChunk =
  dc_id :: string
  dc_parentId :: string
  dc_content :: string
  dc_embedding :: "real list option"
  dc_metadata :: props
  dc_provenance :: "(string \<times> string) option"

datatype fusion_method = Weighted | Rrf

record 'x HybridVectorStoreOptions =
  hv_embedDocuments :: "(string list \<Rightarrow> 'x \<Rightarrow> (string, real list list) result \<times> 'x) option"
  hv_embedQuery :: "(string \<Rightarrow> 'x \<Rightarrow> (string, real list) result \<times> 'x) option"
  hv_vectorWeight :: real
  hv_fusionMethod :: fusion_method
  hv_rrfK :: real
  hv_stopWords :: "string set"
  hv_bm25K1 :: real
  hv_bm25B :: real
  hv_embeddingBatchSize :: nat

text \<open>The private fields: the chunks, and the statistics of their terms.\<close>

record hybrid_store =
  chunksMap :: "(string \<times> DocumentChunk) list"
  chunkTermFreqs :: "string \<rightharpoonup> (string \<times> nat) list"
  docFreq :: "string \<rightharpoonup> int"
  totalTokenCount :: int

definition empty_store :: hybrid_store where
  "empty_store = \<lparr>chunksMap = [], chunkTermFreqs = Map.empty, docFreq = Map.empty, totalTokenCount = 0\<rparr>"

section \<open>The index\<close>

definition tokenize :: "string set \<Rightarrow> string \<Rightarrow> string list" where
  "tokenize stops s = filter (\<lambda>t. t \<noteq> [] \<and> t \<notin> stops) (split_spaces [] (lower_case s))"

definition count_token :: "string \<Rightarrow> (string \<times> nat) list \<Rightarrow> (string \<times> nat) list" where
  "count_token t m = AList.update t (nullish (map_of m t) 0 + 1) m"

definition term_freq :: "string list \<Rightarrow> (string \<times> nat) list" where
  "term_freq tokens = fold count_token tokens []"

definition drop_term :: "string \<times> nat \<Rightarrow> int \<times> (string \<rightharpoonup> int) \<Rightarrow> int \<times> (string \<rightharpoonup> int)" where
  "drop_term entry acc =
     (case entry of (t, n) \<Rightarrow> case acc of (tokens, df) \<Rightarrow>
        (tokens - int n,
         case df t of None \<Rightarrow> df | Some d \<Rightarrow> if d \<le> 1 then df(t := None) else df(t \<mapsto> d - 1)))"

definition removeFromCorpusStats :: "string \<Rightarrow> hybrid_store \<Rightarrow> hybrid_store" where
  "removeFromCorpusStats i s =
     (case chunkTermFreqs s i of
        None \<Rightarrow> s
      | Some tf \<Rightarrow>
          (case fold drop_term tf (totalTokenCount s, docFreq s) of
             (n, df) \<Rightarrow> s\<lparr>totalTokenCount := n, docFreq := df, chunkTermFreqs := (chunkTermFreqs s)(i := None)\<rparr>))"

definition addToCorpusStats :: "string set \<Rightarrow> DocumentChunk \<Rightarrow> hybrid_store \<Rightarrow> hybrid_store" where
  "addToCorpusStats stops c s =
     (let tokens = tokenize stops (dc_content c); tf = term_freq tokens
      in s\<lparr>docFreq := fold (\<lambda>t df. df(t \<mapsto> nullish (df t) 0 + 1)) (map fst tf) (docFreq s),
           totalTokenCount := totalTokenCount s + int (length tokens),
           chunkTermFreqs := (chunkTermFreqs s)(dc_id c \<mapsto> tf)\<rparr>)"

definition index_chunk :: "string set \<Rightarrow> DocumentChunk \<Rightarrow> hybrid_store \<Rightarrow> hybrid_store" where
  "index_chunk stops c s =
     (let s1 = (if map_of (chunksMap s) (dc_id c) \<noteq> None then removeFromCorpusStats (dc_id c) s else s)
      in addToCorpusStats stops c (s1\<lparr>chunksMap := AList.update (dc_id c) c (chunksMap s1)\<rparr>))"

definition deleteChunk :: "string \<Rightarrow> hybrid_store \<Rightarrow> bool \<times> hybrid_store" where
  "deleteChunk i s =
     (map_of (chunksMap s) i \<noteq> None, (removeFromCorpusStats i s)\<lparr>chunksMap := AList.delete i (chunksMap s)\<rparr>)"

definition clear_store :: "hybrid_store \<Rightarrow> hybrid_store" where
  "clear_store s = empty_store"

subsection \<open>Ingestion\<close>

text \<open>The contents of the chunks without an embedding, and the embeddings put back in their places.\<close>

fun unembedded :: "DocumentChunk list \<Rightarrow> string list" where
  "unembedded [] = []"
| "unembedded (c # cs) = (if dc_embedding c = None then dc_content c # unembedded cs else unembedded cs)"

fun attach :: "DocumentChunk list \<Rightarrow> real list list \<Rightarrow> DocumentChunk list" where
  "attach (c # cs) vs =
     (if dc_embedding c = None then (case vs of v # vs \<Rightarrow> c\<lparr>dc_embedding := Some v\<rparr> # attach cs vs | [] \<Rightarrow> c # cs)
      else c # attach cs vs)"
| "attach [] vs = []"

function embed_batches ::
    "nat \<Rightarrow> (string list \<Rightarrow> 'x \<Rightarrow> (string, real list list) result \<times> 'x) \<Rightarrow> string list \<Rightarrow> 'x
       \<Rightarrow> (string, real list list) result \<times> 'x" where
  "embed_batches n f texts x =
     (if texts = [] \<or> n = 0 then (Inr [], x)
      else case f (take n texts) x of
        (Inl m, y) \<Rightarrow> (Inl m, y)
      | (Inr vs, y) \<Rightarrow>
          if length vs \<noteq> length (take n texts)
          then (Inl (''HybridVectorStore: embedding provider returned '' @ string_of_nat (length vs) @
                  '' embedding(s) for a batch of '' @ string_of_nat (length (take n texts)) @ '' chunk(s). '' @
                  ''A misaligned response would silently attach wrong or undefined embeddings.''), y)
          else (case embed_batches n f (drop n texts) y of (Inl m, z) \<Rightarrow> (Inl m, z) | (Inr ws, z) \<Rightarrow> (Inr (vs @ ws), z)))"
  by pat_completeness auto
termination
  by (relation "measure (\<lambda>(n, f, texts, x). length texts)") auto

declare embed_batches.simps [simp del]

definition addChunks ::
    "'x HybridVectorStoreOptions \<Rightarrow> DocumentChunk list \<Rightarrow> hybrid_store \<Rightarrow> 'x \<Rightarrow> (string, unit) result \<times> hybrid_store \<times> 'x" where
  "addChunks P chunks s x =
     (if chunks = [] then (Inr (), s, x)
      else case (case hv_embedDocuments P of
                   Some f \<Rightarrow> embed_batches (hv_embeddingBatchSize P) f (unembedded chunks) x
                 | None \<Rightarrow> (Inr [], x)) of
        (Inl m, y) \<Rightarrow> (Inl m, s, y)
      | (Inr vs, y) \<Rightarrow> (Inr (), fold (index_chunk (hv_stopWords P)) (attach chunks vs) s, y))"

section \<open>Scores\<close>

definition cosineSimilarity :: "real list \<Rightarrow> real list \<Rightarrow> real" where
  "cosineSimilarity a b =
     (if length a \<noteq> length b \<or> a = [] then 0
      else let dot = (\<Sum>(x, y) \<leftarrow> zip a b. x * y);
               denominator = sqrt (\<Sum>(x, y) \<leftarrow> zip a b. x * x) * sqrt (\<Sum>(x, y) \<leftarrow> zip a b. y * y)
           in if denominator > 0 then dot / denominator else 0)"

definition avgDocLength :: "hybrid_store \<Rightarrow> real" where
  "avgDocLength s = (if chunksMap s = [] then 0 else of_int (totalTokenCount s) / length (chunksMap s))"

definition idf :: "hybrid_store \<Rightarrow> string \<Rightarrow> real" where
  "idf s t =
     (let n = real (length (chunksMap s)); df = of_int (nullish (docFreq s t) 0)
      in ln ((n - df + 1 / 2) / (df + 1 / 2) + 1))"

definition totalTermCount :: "(string \<times> nat) list \<Rightarrow> nat" where
  "totalTermCount tf = sum_list (map snd tf)"

definition term_score :: "'x HybridVectorStoreOptions \<Rightarrow> hybrid_store \<Rightarrow> (string \<times> nat) list \<Rightarrow> string \<Rightarrow> real" where
  "term_score P s tf t =
     (let f = real (nullish (map_of tf t) 0); avg = (if avgDocLength s = 0 then 1 else avgDocLength s)
      in if f = 0 then 0
         else idf s t * (f * (hv_bm25K1 P + 1) /
           (f + hv_bm25K1 P * (1 - hv_bm25B P + hv_bm25B P * (totalTermCount tf / avg)))))"

definition bm25Score :: "'x HybridVectorStoreOptions \<Rightarrow> hybrid_store \<Rightarrow> string \<Rightarrow> string list \<Rightarrow> real" where
  "bm25Score P s i terms =
     (case chunkTermFreqs s i of None \<Rightarrow> 0 | Some tf \<Rightarrow> (\<Sum>t \<leftarrow> terms. term_score P s tf t))"

subsection \<open>Fusing rankings\<close>

fun fuse_list :: "real \<Rightarrow> real \<Rightarrow> nat \<Rightarrow> string list \<Rightarrow> (string \<times> real) list \<Rightarrow> (string \<times> real) list" where
  "fuse_list k w i [] scores = scores"
| "fuse_list k w i (x # xs) scores =
     fuse_list k w (i + 1) xs (AList.update x (nullish (map_of scores x) 0 + w / (k + i + 1)) scores)"

fun reciprocalRankFusion :: "real \<Rightarrow> (string list \<times> real) list \<Rightarrow> (string \<times> real) list \<Rightarrow> (string \<times> real) list" where
  "reciprocalRankFusion k [] scores = scores"
| "reciprocalRankFusion k ((xs, w) # rankings) scores = reciprocalRankFusion k rankings (fuse_list k w 0 xs scores)"

record raw_score =
  rw_chunk :: DocumentChunk
  rw_bm25 :: real
  rw_vector :: real

definition ranked_by :: "(raw_score \<Rightarrow> real) \<Rightarrow> raw_score list \<Rightarrow> string list" where
  "ranked_by f raws = map (dc_id \<circ> rw_chunk) (sort_key (\<lambda>r. - f r) (filter (\<lambda>r. f r > 0) raws))"

definition fuseByRrf :: "'x HybridVectorStoreOptions \<Rightarrow> raw_score list \<Rightarrow> (DocumentChunk \<times> real) list" where
  "fuseByRrf P raws =
     (let byId = (\<lambda>i. the (map_of (rev (map (\<lambda>r. (dc_id (rw_chunk r), rw_chunk r)) raws)) i));
          fused = reciprocalRankFusion (hv_rrfK P)
            [(ranked_by rw_bm25 raws, 1 - hv_vectorWeight P), (ranked_by rw_vector raws, hv_vectorWeight P)] []
      in map (\<lambda>(i, score). (byId i, score)) fused)"

definition blend :: "'x HybridVectorStoreOptions \<Rightarrow> raw_score list \<Rightarrow> (DocumentChunk \<times> real) list" where
  "blend P raws =
     (let maxBm = foldr max (map rw_bm25 raws) (1 / 10000); maxVec = foldr max (map rw_vector raws) (1 / 10000)
      in map (\<lambda>r. (rw_chunk r, (1 - hv_vectorWeight P) * (rw_bm25 r / maxBm) + hv_vectorWeight P * (rw_vector r / maxVec))) raws)"

section \<open>Search\<close>

definition matches_filter :: "props option \<Rightarrow> DocumentChunk \<Rightarrow> bool" where
  "matches_filter flt c =
     (case flt of None \<Rightarrow> True | Some ps \<Rightarrow> list_all (\<lambda>(k, v). same_value (get_prop (dc_metadata c) k) v) ps)"

definition raw_score_of :: "'x HybridVectorStoreOptions \<Rightarrow> hybrid_store \<Rightarrow> string list \<Rightarrow> real list option \<Rightarrow> DocumentChunk \<Rightarrow> raw_score" where
  "raw_score_of P s terms queryVector c =
     \<lparr>rw_chunk = c, rw_bm25 = bm25Score P s (dc_id c) terms,
      rw_vector = (case (queryVector, dc_embedding c) of (Some q, Some v) \<Rightarrow> cosineSimilarity q v | _ \<Rightarrow> 0)\<rparr>"

definition top_scored :: "nat \<Rightarrow> (DocumentChunk \<times> real) list \<Rightarrow> (DocumentChunk \<times> real) list" where
  "top_scored limit scored = take limit (filter (\<lambda>r. snd r > 0) (sort_key (\<lambda>r. - snd r) scored))"

text \<open>The chunks of the store that satisfy the filter, scored and cut off.\<close>

definition search_with ::
    "'x HybridVectorStoreOptions \<Rightarrow> string \<Rightarrow> nat \<Rightarrow> props option \<Rightarrow> real list option \<Rightarrow> hybrid_store \<Rightarrow> (DocumentChunk \<times> real) list" where
  "search_with P query limit flt queryVector s =
     (let terms = map fst (term_freq (tokenize (hv_stopWords P) query));
          raws = map (raw_score_of P s terms queryVector) (filter (matches_filter flt) (map snd (chunksMap s)))
      in if raws = [] then []
         else top_scored limit (case hv_fusionMethod P of Rrf \<Rightarrow> fuseByRrf P raws | Weighted \<Rightarrow> blend P raws))"

definition searchHybridScored ::
    "'x HybridVectorStoreOptions \<Rightarrow> string \<Rightarrow> nat \<Rightarrow> props option \<Rightarrow> hybrid_store \<Rightarrow> 'x
       \<Rightarrow> (string, (DocumentChunk \<times> real) list) result \<times> 'x" where
  "searchHybridScored P query limit flt s x =
     (if chunksMap s = [] then (Inr [], x)
      else case hv_embedQuery P of
        None \<Rightarrow> (Inr (search_with P query limit flt None s), x)
      | Some f \<Rightarrow>
          (case f query x of
             (Inl m, y) \<Rightarrow> (Inl m, y)
           | (Inr v, y) \<Rightarrow> (Inr (search_with P query limit flt (Some v) s), y)))"

definition searchHybrid ::
    "'x HybridVectorStoreOptions \<Rightarrow> string \<Rightarrow> nat \<Rightarrow> props option \<Rightarrow> hybrid_store \<Rightarrow> 'x \<Rightarrow> (string, DocumentChunk list) result \<times> 'x" where
  "searchHybrid P query limit flt s x =
     (case searchHybridScored P query limit flt s x of (Inl m, y) \<Rightarrow> (Inl m, y) | (Inr rs, y) \<Rightarrow> (Inr (map fst rs), y))"

section \<open>The incremental index is the index of the contents\<close>

text \<open>The statistics computed from the chunks at hand, with nothing kept.\<close>

definition tokens_of :: "string set \<Rightarrow> DocumentChunk \<Rightarrow> string list" where
  "tokens_of stops c = tokenize stops (dc_content c)"

definition doc_count :: "string set \<Rightarrow> string \<Rightarrow> (string \<times> DocumentChunk) list \<Rightarrow> nat" where
  "doc_count stops t cs = (\<Sum>p \<leftarrow> cs. if t \<in> set (tokens_of stops (snd p)) then 1 else 0)"

definition index_of_chunks :: "string set \<Rightarrow> (string \<times> DocumentChunk) list \<Rightarrow> hybrid_store" where
  "index_of_chunks stops cs =
     \<lparr>chunksMap = cs,
      chunkTermFreqs = (\<lambda>i. map_option (\<lambda>c. term_freq (tokens_of stops c)) (map_of cs i)),
      docFreq = (\<lambda>t. if doc_count stops t cs = 0 then None else Some (int (doc_count stops t cs))),
      totalTokenCount = int (\<Sum>p \<leftarrow> cs. length (tokens_of stops (snd p)))\<rparr>"

definition keyed :: "(string \<times> DocumentChunk) list \<Rightarrow> bool" where
  "keyed cs \<longleftrightarrow> distinct (map fst cs) \<and> (\<forall>(i, c) \<in> set cs. dc_id c = i)"

subsection \<open>Term frequencies\<close>

lemma term_freq_snoc: "term_freq (ts @ [t]) = count_token t (term_freq ts)"
  by (simp add: term_freq_def)

lemma term_freq_Nil [simp]: "term_freq [] = []"
  by (simp add: term_freq_def)

lemma term_freq_distinct [simp]: "distinct (map fst (term_freq ts))"
  by (induction ts rule: rev_induct) (simp_all add: term_freq_snoc count_token_def distinct_update)

lemma term_freq_map_of: "map_of (term_freq ts) t = (if t \<in> set ts then Some (count_list ts t) else None)"
  by (induction ts rule: rev_induct) (auto simp: term_freq_snoc count_token_def update_conv' nullish_def)

lemma term_freq_keys: "fst ` set (term_freq ts) = set ts"
proof -
  have "fst ` set (term_freq ts) = dom (map_of (term_freq ts))" by (simp add: dom_map_of_conv_image_fst)
  then show ?thesis by (auto simp: term_freq_map_of dom_def split: if_splits)
qed

lemma sum_values_update:
  "distinct (map fst m) \<Longrightarrow> sum_list (map snd (AList.update t (Suc (nullish (map_of m t) 0)) m)) = Suc (sum_list (map snd m))"
  by (induction m) (auto simp: nullish_def split: option.splits)

lemma term_freq_total: "sum_list (map snd (term_freq ts)) = length ts"
  by (induction ts rule: rev_induct) (simp_all add: term_freq_snoc count_token_def sum_values_update)

subsection \<open>Sums over the chunks\<close>

lemma sum_delete:
  fixes f :: "'v \<Rightarrow> nat"
  shows "distinct (map fst cs) \<Longrightarrow> map_of cs i = Some c \<Longrightarrow>
    (\<Sum>p \<leftarrow> cs. f (snd p)) = f c + (\<Sum>p \<leftarrow> AList.delete i cs. f (snd p))"
proof (induction cs)
  case (Cons p cs)
  show ?case
  proof (cases "fst p = i")
    case True
    with Cons.prems have "AList.delete i (p # cs) = AList.delete i cs" "map_of cs i = None" "snd p = c"
      by (auto simp: map_of_eq_None_iff)
    moreover from this(2) have "AList.delete i cs = cs" by (simp add: delete_id map_of_eq_None_iff)
    ultimately show ?thesis by simp
  next
    case False
    with Cons show ?thesis by (cases p) auto
  qed
qed simp

lemma sum_update:
  fixes f :: "'v \<Rightarrow> nat"
  shows "distinct (map fst cs) \<Longrightarrow> (\<Sum>p \<leftarrow> AList.update i c cs. f (snd p)) = f c + (\<Sum>p \<leftarrow> AList.delete i cs. f (snd p))"
proof (induction cs)
  case (Cons p cs)
  show ?case
  proof (cases "fst p = i")
    case True
    with Cons.prems have "i \<notin> fst ` set cs" by auto
    then have "AList.delete i cs = cs" by (rule delete_id)
    with True show ?thesis by (cases p) auto
  next
    case False
    with Cons show ?thesis by (cases p) auto
  qed
qed simp

lemma doc_count_delete:
  "distinct (map fst cs) \<Longrightarrow> map_of cs i = Some c \<Longrightarrow>
     doc_count stops t cs = (if t \<in> set (tokens_of stops c) then 1 else 0) + doc_count stops t (AList.delete i cs)"
  unfolding doc_count_def by (rule sum_delete)

lemma doc_count_update:
  "distinct (map fst cs) \<Longrightarrow>
     doc_count stops t (AList.update i c cs) = (if t \<in> set (tokens_of stops c) then 1 else 0) + doc_count stops t (AList.delete i cs)"
  unfolding doc_count_def by (rule sum_update)

subsection \<open>The two walks over a chunk's terms\<close>

lemma fold_drop_term:
  "distinct (map fst tf) \<Longrightarrow>
     fold drop_term tf (n, df) =
       (n - int (sum_list (map snd tf)),
        \<lambda>t. if t \<in> fst ` set tf then (case df t of None \<Rightarrow> None | Some d \<Rightarrow> if d \<le> 1 then None else Some (d - 1)) else df t)"
proof (induction tf arbitrary: n df)
  case (Cons p tf)
  obtain t k where p: "p = (t, k)" by fastforce
  let ?df = "case df t of None \<Rightarrow> df | Some d \<Rightarrow> if d \<le> 1 then df(t := None) else df(t \<mapsto> d - 1)"
  have t: "t \<notin> fst ` set tf" and d: "distinct (map fst tf)" using Cons.prems p by auto
  have "fold drop_term (p # tf) (n, df) = fold drop_term tf (n - int k, ?df)" by (simp add: p drop_term_def)
  also have "\<dots> = (n - int k - int (sum_list (map snd tf)),
      \<lambda>u. if u \<in> fst ` set tf then (case ?df u of None \<Rightarrow> None | Some d \<Rightarrow> if d \<le> 1 then None else Some (d - 1)) else ?df u)"
    by (rule Cons.IH [OF d])
  also have "\<dots> = (n - int (sum_list (map snd (p # tf))),
      \<lambda>u. if u \<in> fst ` set (p # tf) then (case df u of None \<Rightarrow> None | Some d \<Rightarrow> if d \<le> 1 then None else Some (d - 1)) else df u)"
    using t by (auto simp: p fun_eq_iff split: option.splits)
  finally show ?case .
qed simp

lemma fold_add_term:
  "distinct ks \<Longrightarrow>
     fold (\<lambda>t df. df(t \<mapsto> nullish (df t) 0 + 1)) ks df = (\<lambda>t. if t \<in> set ks then Some (nullish (df t) 0 + (1 :: int)) else df t)"
  by (induction ks arbitrary: df) (auto simp: fun_eq_iff)

subsection \<open>Refinement\<close>

lemma remove_refines:
  assumes "distinct (map fst cs)"
  shows "removeFromCorpusStats i (index_of_chunks stops cs) = (index_of_chunks stops (AList.delete i cs))\<lparr>chunksMap := cs\<rparr>"
proof (cases "map_of cs i")
  case None
  then have "AList.delete i cs = cs" by (simp add: delete_id map_of_eq_None_iff)
  with None show ?thesis by (simp add: removeFromCorpusStats_def index_of_chunks_def)
next
  case (Some c)
  let ?tf = "term_freq (tokens_of stops c)"
  have df: "(\<lambda>t. if t \<in> fst ` set ?tf
      then (case docFreq (index_of_chunks stops cs) t of None \<Rightarrow> None | Some d \<Rightarrow> if d \<le> 1 then None else Some (d - 1))
      else docFreq (index_of_chunks stops cs) t) = docFreq (index_of_chunks stops (AList.delete i cs))"
    by (rule ext) (simp add: index_of_chunks_def term_freq_keys doc_count_delete [OF assms Some, of stops])
  have total: "totalTokenCount (index_of_chunks stops cs) - int (sum_list (map snd ?tf)) =
      totalTokenCount (index_of_chunks stops (AList.delete i cs))"
    using sum_delete [OF assms Some, of "\<lambda>c. length (tokens_of stops c)"]
    by (simp add: index_of_chunks_def term_freq_total)
  have tfs: "(chunkTermFreqs (index_of_chunks stops cs))(i := None) = chunkTermFreqs (index_of_chunks stops (AList.delete i cs))"
    by (auto simp: index_of_chunks_def delete_conv' fun_eq_iff)
  have entry: "chunkTermFreqs (index_of_chunks stops cs) i = Some ?tf" by (simp add: index_of_chunks_def Some)
  have "removeFromCorpusStats i (index_of_chunks stops cs) =
      (index_of_chunks stops cs)\<lparr>totalTokenCount := totalTokenCount (index_of_chunks stops (AList.delete i cs)),
        docFreq := docFreq (index_of_chunks stops (AList.delete i cs)),
        chunkTermFreqs := chunkTermFreqs (index_of_chunks stops (AList.delete i cs))\<rparr>"
    unfolding removeFromCorpusStats_def entry option.case fold_drop_term [OF term_freq_distinct] prod.case df total tfs ..
  then show ?thesis by (simp add: index_of_chunks_def)
qed

lemma add_refines:
  assumes "distinct (map fst cs)"
  shows "addToCorpusStats stops c ((index_of_chunks stops (AList.delete (dc_id c) cs))\<lparr>chunksMap := AList.update (dc_id c) c cs\<rparr>) =
    index_of_chunks stops (AList.update (dc_id c) c cs)"
proof -
  let ?old = "AList.delete (dc_id c) cs" and ?new = "AList.update (dc_id c) c cs"
  let ?ks = "map fst (term_freq (tokenize stops (dc_content c)))"
  have ks: "set ?ks = set (tokens_of stops c)" by (simp add: term_freq_keys tokens_of_def)
  have df: "(\<lambda>t. if t \<in> set ?ks then Some (nullish (docFreq (index_of_chunks stops ?old) t) 0 + (1 :: int))
      else docFreq (index_of_chunks stops ?old) t) = docFreq (index_of_chunks stops ?new)"
    unfolding ks by (rule ext) (simp add: index_of_chunks_def doc_count_update [OF assms, of stops])
  have total: "totalTokenCount (index_of_chunks stops ?old) + int (length (tokenize stops (dc_content c))) =
      totalTokenCount (index_of_chunks stops ?new)"
    using sum_update [OF assms, of "\<lambda>c. length (tokens_of stops c)" "dc_id c" c]
    by (simp add: index_of_chunks_def tokens_of_def)
  have tfs: "(chunkTermFreqs (index_of_chunks stops ?old))(dc_id c \<mapsto> term_freq (tokenize stops (dc_content c))) =
      chunkTermFreqs (index_of_chunks stops ?new)"
    by (auto simp: index_of_chunks_def delete_conv' update_conv' tokens_of_def fun_eq_iff)
  show ?thesis
    unfolding addToCorpusStats_def Let_def fold_add_term [OF term_freq_distinct]
    using df total tfs by (simp add: index_of_chunks_def cong: if_cong)
qed

lemma index_chunk_refines:
  assumes "distinct (map fst cs)"
  shows "index_chunk stops c (index_of_chunks stops cs) = index_of_chunks stops (AList.update (dc_id c) c cs)"
proof -
  have cs: "chunksMap (index_of_chunks stops cs) = cs" by (simp add: index_of_chunks_def)
  let ?s1 = "if map_of cs (dc_id c) \<noteq> None then removeFromCorpusStats (dc_id c) (index_of_chunks stops cs) else index_of_chunks stops cs"
  have "?s1 = (index_of_chunks stops (AList.delete (dc_id c) cs))\<lparr>chunksMap := cs\<rparr>"
  proof (cases "map_of cs (dc_id c)")
    case None
    then have "AList.delete (dc_id c) cs = cs" by (simp add: delete_id map_of_eq_None_iff)
    with None show ?thesis by (simp add: index_of_chunks_def)
  qed (simp add: remove_refines [OF assms])
  then show ?thesis
    using add_refines [OF assms, of stops c] by (simp add: index_chunk_def Let_def cs)
qed

lemma delete_refines:
  assumes "distinct (map fst cs)"
  shows "snd (deleteChunk i (index_of_chunks stops cs)) = index_of_chunks stops (AList.delete i cs)"
  using remove_refines [OF assms, of i stops] by (simp add: deleteChunk_def) (simp add: index_of_chunks_def)

subsection \<open>Every state the store can reach\<close>

inductive reachable :: "'x HybridVectorStoreOptions \<Rightarrow> hybrid_store \<Rightarrow> bool" for P where
  start: "reachable P empty_store"
| ingest: "\<lbrakk>reachable P s; addChunks P chunks s x = (out, s', y)\<rbrakk> \<Longrightarrow> reachable P s'"
| remove: "\<lbrakk>reachable P s; deleteChunk i s = (found, s')\<rbrakk> \<Longrightarrow> reachable P s'"
| clear: "reachable P s \<Longrightarrow> reachable P (clear_store s)"

lemma set_update_le: "set (AList.update k v al) \<subseteq> insert (k, v) (set al)"
  by (induction al) auto

lemma set_delete_le: "set (AList.delete k al) \<subseteq> set al"
  by (induction al) auto

lemma keyed_update: "keyed cs \<Longrightarrow> keyed (AList.update (dc_id c) c cs)"
  using set_update_le [of "dc_id c" c cs] unfolding keyed_def by (auto simp: distinct_update)

lemma keyed_delete: "keyed cs \<Longrightarrow> keyed (AList.delete i cs)"
  using set_delete_le [of i cs] unfolding keyed_def by (auto simp: delete_keys distinct_removeAll)

lemma index_chunks_refine:
  "keyed cs \<Longrightarrow> \<exists>cs'. fold (index_chunk stops) chunks (index_of_chunks stops cs) = index_of_chunks stops cs' \<and> keyed cs'"
proof (induction chunks arbitrary: cs)
  case (Cons c chunks)
  then have "distinct (map fst cs)" by (simp add: keyed_def)
  from index_chunk_refines [OF this, of stops c] Cons.IH [OF keyed_update [OF Cons.prems, of c]]
  show ?case by simp
qed auto

lemma empty_refines: "empty_store = index_of_chunks stops []"
  by (simp add: empty_store_def index_of_chunks_def doc_count_def fun_eq_iff)

lemma reachable_refines: "reachable P s \<Longrightarrow> \<exists>cs. s = index_of_chunks (hv_stopWords P) cs \<and> keyed cs"
proof (induction rule: reachable.induct)
  case start
  show ?case by (rule exI [of _ "[]"]) (simp add: empty_refines [symmetric] keyed_def)
next
  case (ingest s chunks x out s' y)
  then obtain cs where cs: "s = index_of_chunks (hv_stopWords P) cs" "keyed cs" by blast
  from ingest(2) have "s' = s \<or> (\<exists>vs. s' = fold (index_chunk (hv_stopWords P)) (attach chunks vs) s)"
    by (auto simp: addChunks_def split: if_splits sum.splits prod.splits)
  with cs index_chunks_refine [OF cs(2), of "hv_stopWords P"] show ?case by auto
next
  case (remove s i found s')
  then obtain cs where cs: "s = index_of_chunks (hv_stopWords P) cs" "keyed cs" by blast
  from remove(2) have "s' = snd (deleteChunk i s)" by simp
  with cs delete_refines [of cs i "hv_stopWords P"] keyed_delete [OF cs(2), of i] show ?case
    by (auto simp: keyed_def)
next
  case (clear s)
  show ?case by (rule exI [of _ "[]"]) (simp add: clear_store_def empty_refines [symmetric] keyed_def)
qed

text \<open>
  C39: The incremental index is right. However chunks were ingested, replaced, deleted and cleared, with
  embeddings failing in between, the term frequencies, the document frequencies and the token count the store keeps
  are those computed from the chunks it holds.
\<close>

theorem index_matches_contents:
  assumes "reachable P s"
  shows "s = index_of_chunks (hv_stopWords P) (chunksMap s) \<and> distinct (map fst (chunksMap s))"
proof -
  from reachable_refines [OF assms] obtain cs where "s = index_of_chunks (hv_stopWords P) cs" "keyed cs" by blast
  then show ?thesis by (simp add: index_of_chunks_def keyed_def)
qed

definition ex_options :: "unit HybridVectorStoreOptions" where
  "ex_options =
     \<lparr>hv_embedDocuments = None, hv_embedQuery = None, hv_vectorWeight = 0, hv_fusionMethod = Weighted, hv_rrfK = 60,
      hv_stopWords = {}, hv_bm25K1 = 6 / 5, hv_bm25B = 3 / 4, hv_embeddingBatchSize = 100\<rparr>"

definition ex_chunk :: "string \<Rightarrow> string \<Rightarrow> DocumentChunk" where
  "ex_chunk i s =
     \<lparr>dc_id = i, dc_parentId = ''d'', dc_content = s, dc_embedding = None, dc_metadata = [], dc_provenance = None\<rparr>"

text \<open>A chunk is ingested, replaced by another text, and joined by a second.\<close>

definition ex_store :: hybrid_store where
  "ex_store = fst (snd (addChunks ex_options [ex_chunk ''a'' ''old text'', ex_chunk ''a'' ''new text'', ex_chunk ''b'' ''text''] empty_store ()))"

lemma ex_store_reachable: "reachable ex_options ex_store"
proof -
  let ?cs = "[ex_chunk ''a'' ''old text'', ex_chunk ''a'' ''new text'', ex_chunk ''b'' ''text'']"
  obtain r s' where a: "addChunks ex_options ?cs empty_store () = (r, s', ())"
    by (cases "addChunks ex_options ?cs empty_store ()") auto
  from reachable.ingest [OF reachable.start a] show ?thesis by (simp add: ex_store_def a)
qed

theorem index_matches_contents_witness:
  "ex_store = index_of_chunks (hv_stopWords ex_options) (chunksMap ex_store) \<and> distinct (map fst (chunksMap ex_store))"
  by (rule index_matches_contents [OF ex_store_reachable])

lemma chunksMap_index [simp]: "chunksMap (index_of_chunks stops cs) = cs"
  by (simp add: index_of_chunks_def)

text \<open>The document frequency of a term never exceeds the number of chunks, so no logarithm is of a negative number.\<close>

lemma doc_count_le: "doc_count stops t cs \<le> length cs"
  by (induction cs) (auto simp: doc_count_def)

lemma idf_pos:
  assumes "reachable P s"
  shows "0 < idf s t"
proof -
  from reachable_refines [OF assms] obtain cs where s: "s = index_of_chunks (hv_stopWords P) cs" by blast
  let ?d = "real (doc_count (hv_stopWords P) t cs)"
  have df: "nullish (docFreq s t) 0 = int (doc_count (hv_stopWords P) t cs)" by (simp add: s index_of_chunks_def)
  have "?d \<le> length cs" using doc_count_le by simp
  then have "0 < (real (length cs) - ?d + 1 / 2) / (?d + 1 / 2)" by (intro divide_pos_pos) auto
  then show ?thesis by (simp add: idf_def Let_def df) (simp add: s)
qed

section \<open>Search results\<close>

lemma foldr_max_pos: "0 < (z :: real) \<Longrightarrow> 0 < foldr max xs z"
  by (induction xs) auto

lemma top_scored_set: "set (top_scored limit xs) \<subseteq> {r \<in> set xs. snd r > 0}"
  by (auto simp: top_scored_def dest!: in_set_takeD)

lemma top_scored_length: "length (top_scored limit xs) \<le> limit"
  by (simp add: top_scored_def)

lemma top_scored_sorted: "sorted_wrt (\<ge>) (map snd (top_scored limit xs))"
proof -
  have "sorted (map (\<lambda>r. - snd r) (filter (\<lambda>r. snd r > 0) (sort_key (\<lambda>r. - snd r) xs)))"
    by (intro sorted_filter) simp
  then have "sorted (map (\<lambda>r. - snd r) (top_scored limit xs))"
    by (simp add: top_scored_def take_map [symmetric] sorted_wrt_take)
  then show ?thesis by (simp add: sorted_wrt_map)
qed

lemma distinct_sort_filter_take:
  "distinct (map f xs) \<Longrightarrow> distinct (map f (take n (filter p (sort_key k xs))))"
proof -
  assume "distinct (map f xs)"
  then have "distinct (map f (sort_key k xs))"
    by (metis mset_map mset_sort mset_eq_imp_distinct_iff)
  then have "distinct (map f (filter p (sort_key k xs)))" by (rule distinct_map_filter)
  then show ?thesis by (simp add: take_map [symmetric] distinct_take)
qed

lemma keys_fuse_list: "fst ` set (fuse_list k w i xs scores) = fst ` set scores \<union> set xs"
  by (induction xs arbitrary: i scores) (auto simp: dom_update)

lemma distinct_fuse_list: "distinct (map fst scores) \<Longrightarrow> distinct (map fst (fuse_list k w i xs scores))"
  by (induction xs arbitrary: i scores) (auto simp: distinct_update)

lemma keys_rrf: "fst ` set (reciprocalRankFusion k rankings scores) = fst ` set scores \<union> (\<Union>l \<in> set rankings. set (fst l))"
  by (induction k rankings scores rule: reciprocalRankFusion.induct) (simp_all add: keys_fuse_list Un_assoc)

lemma distinct_rrf: "distinct (map fst scores) \<Longrightarrow> distinct (map fst (reciprocalRankFusion k rankings scores))"
  by (induction rankings arbitrary: scores) (auto simp: distinct_fuse_list)

text \<open>The score of an id is the sum of its weighted reciprocal ranks over the rankings that contain it.\<close>

lemma fuse_list_score:
  "distinct xs \<Longrightarrow>
     nullish (map_of (fuse_list k w i xs scores) a) 0 =
       nullish (map_of scores a) 0 + (if a \<in> set xs then w / (k + i + length (takeWhile (\<lambda>x. x \<noteq> a) xs) + 1) else 0)"
proof (induction xs arbitrary: i scores)
  case (Cons x xs)
  then show ?case by (auto simp: update_conv' add_ac)
qed simp

lemma rrf_score:
  assumes "\<forall>(xs, w) \<in> set rankings. distinct xs"
  shows "nullish (map_of (reciprocalRankFusion k rankings scores) a) 0 = nullish (map_of scores a) 0 +
    (\<Sum>(xs, w) \<leftarrow> rankings. if a \<in> set xs then w / (k + length (takeWhile (\<lambda>x. x \<noteq> a) xs) + 1) else 0)"
  using assms
proof (induction rankings arbitrary: scores)
  case (Cons l rankings)
  obtain xs w where l: "l = (xs, w)" by fastforce
  with Cons.prems have "distinct xs" "\<forall>(xs, w) \<in> set rankings. distinct xs" by auto
  with Cons.IH fuse_list_score [of xs k w 0 scores a] show ?case by (simp add: l)
qed simp

lemma blend_chunks: "map fst (blend P raws) = map rw_chunk raws"
  by (simp add: blend_def Let_def comp_def)

lemma fuseByRrf_chunks:
  assumes "distinct (map (dc_id \<circ> rw_chunk) raws)"
  shows "set (map fst (fuseByRrf P raws)) \<subseteq> rw_chunk ` set raws" and "distinct (map (dc_id \<circ> fst) (fuseByRrf P raws))"
proof -
  let ?m = "map_of (rev (map (\<lambda>r. (dc_id (rw_chunk r), rw_chunk r)) raws))"
  let ?fused = "reciprocalRankFusion (hv_rrfK P)
    [(ranked_by rw_bm25 raws, 1 - hv_vectorWeight P), (ranked_by rw_vector raws, hv_vectorWeight P)] []"
  have "fst ` set ?fused = set (ranked_by rw_bm25 raws) \<union> set (ranked_by rw_vector raws)"
    by (simp add: keys_rrf del: reciprocalRankFusion.simps)
  then have keys: "fst ` set ?fused \<subseteq> (dc_id \<circ> rw_chunk) ` set raws"
    by (auto simp: ranked_by_def)
  have at_id: "?m (dc_id (rw_chunk r)) = Some (rw_chunk r)" if "r \<in> set raws" for r
    using assms that by (intro map_of_is_SomeI) (auto simp: comp_def rev_map [symmetric])
  have byId: "the (?m i) \<in> rw_chunk ` set raws \<and> dc_id (the (?m i)) = i" if "i \<in> fst ` set ?fused" for i
  proof -
    from keys that obtain r where "r \<in> set raws" "dc_id (rw_chunk r) = i" by auto
    with at_id [of r] show ?thesis by auto
  qed
  have f: "fuseByRrf P raws = map (\<lambda>(i, score). (the (?m i), score)) ?fused"
    by (simp add: fuseByRrf_def Let_def)
  show "set (map fst (fuseByRrf P raws)) \<subseteq> rw_chunk ` set raws"
    unfolding f using byId by force
  have "map (dc_id \<circ> fst) (fuseByRrf P raws) = map fst ?fused"
    unfolding f using byId by (auto simp: comp_def case_prod_beta)
  then show "distinct (map (dc_id \<circ> fst) (fuseByRrf P raws))" by (simp add: distinct_rrf del: reciprocalRankFusion.simps)
qed

lemma top_scored_member:
  assumes "(c, score) \<in> set (if b then [] else top_scored limit xs)"
  shows "c \<in> set (map fst xs)" and "score > 0"
  using assms top_scored_set [of limit xs] by (force split: if_splits)+

lemma search_with_results:
  assumes "keyed (chunksMap s)"
  shows "\<forall>(c, score) \<in> set (search_with P query limit flt q s). c \<in> snd ` set (chunksMap s) \<and> matches_filter flt c \<and> score > 0"
    and "distinct (map (dc_id \<circ> fst) (search_with P query limit flt q s))"
    and "length (search_with P query limit flt q s) \<le> limit"
    and "sorted_wrt (\<ge>) (map snd (search_with P query limit flt q s))"
proof -
  let ?terms = "map fst (term_freq (tokenize (hv_stopWords P) query))"
  let ?cs = "filter (matches_filter flt) (map snd (chunksMap s))"
  let ?raws = "map (raw_score_of P s ?terms q) ?cs"
  let ?scored = "case hv_fusionMethod P of Rrf \<Rightarrow> fuseByRrf P ?raws | Weighted \<Rightarrow> blend P ?raws"
  have raws_chunks: "map rw_chunk ?raws = ?cs" by (simp add: raw_score_of_def comp_def)
  have chunk: "rw_chunk \<circ> raw_score_of P s ?terms q = (\<lambda>c. c)" by (simp add: raw_score_of_def comp_def)
  have "map dc_id (map snd (chunksMap s)) = map fst (chunksMap s)"
    using assms by (auto simp: keyed_def)
  then have "distinct (map dc_id ?cs)"
    using assms by (intro distinct_map_filter) (simp only: keyed_def)
  then have ids: "distinct (map (dc_id \<circ> rw_chunk) ?raws)"
    using chunk by (simp add: raw_score_of_def comp_def)
  have "set (map fst ?scored) \<subseteq> rw_chunk ` set ?raws"
    using fuseByRrf_chunks(1) [OF ids, of P] blend_chunks [of P ?raws]
    by (cases "hv_fusionMethod P") (auto simp del: list.set_map simp add: set_map)
  also have "rw_chunk ` set ?raws = set ?cs" using arg_cong [OF raws_chunks, of set] by (simp only: list.set_map)
  finally have members: "set (map fst ?scored) \<subseteq> set ?cs" .
  have scored_ids: "distinct (map (dc_id \<circ> fst) ?scored)"
  proof (cases "hv_fusionMethod P")
    case Weighted
    have "map (dc_id \<circ> fst) (blend P ?raws) = map dc_id (map fst (blend P ?raws))" by simp
    with Weighted ids show ?thesis by (simp add: blend_chunks comp_def)
  qed (use fuseByRrf_chunks(2) [OF ids, of P] in simp)
  have s: "search_with P query limit flt q s = (if ?raws = [] then [] else top_scored limit ?scored)"
    unfolding search_with_def Let_def ..
  show "\<forall>(c, score) \<in> set (search_with P query limit flt q s). c \<in> snd ` set (chunksMap s) \<and> matches_filter flt c \<and> score > 0"
  proof (intro ballI, clarify)
    fix c score
    assume "(c, score) \<in> set (search_with P query limit flt q s)"
    from top_scored_member [OF this [unfolded s]] have r: "c \<in> set (map fst ?scored)" and "score > 0" .
    from subsetD [OF members r] \<open>score > 0\<close> show "c \<in> snd ` set (chunksMap s) \<and> matches_filter flt c \<and> 0 < score" by simp
  qed
  show "distinct (map (dc_id \<circ> fst) (search_with P query limit flt q s))"
    unfolding s top_scored_def by (cases "?raws = []") (simp_all only: if_True if_False distinct_sort_filter_take [OF scored_ids] list.map distinct.simps simp_thms)
  show "length (search_with P query limit flt q s) \<le> limit" "sorted_wrt (\<ge>) (map snd (search_with P query limit flt q s))"
    unfolding s by (cases "?raws = []"; simp only: if_True if_False top_scored_length top_scored_sorted list.size list.map sorted_wrt.simps)+
qed

section \<open>Cosine similarity\<close>

lemma sum_squares_expand:
  "(\<Sum>(x, y) \<leftarrow> ps. (b * x - d * y) * (b * x - d * y)) =
     b * b * (\<Sum>(x, y) \<leftarrow> ps. x * x) - 2 * b * d * (\<Sum>(x, y) \<leftarrow> ps. x * y) + d * d * (\<Sum>(x, y) \<leftarrow> ps. y * y :: real)"
  by (induction ps) (auto simp: algebra_simps)

lemma sum_pair_squares_nonneg: "0 \<le> (\<Sum>(x, y) \<leftarrow> ps. f x y * f x y :: real)"
  by (induction ps) auto

lemma cauchy_schwarz_list:
  "(\<Sum>(x, y) \<leftarrow> ps. x * y :: real) * (\<Sum>(x, y) \<leftarrow> ps. x * y) \<le> (\<Sum>(x, y) \<leftarrow> ps. x * x) * (\<Sum>(x, y) \<leftarrow> ps. y * y)"
proof -
  let ?A = "\<Sum>(x, y) \<leftarrow> ps. x * x" and ?B = "\<Sum>(x, y) \<leftarrow> ps. y * y" and ?D = "\<Sum>(x, y) \<leftarrow> ps. x * y"
  have "0 \<le> (\<Sum>(x, y) \<leftarrow> ps. (?B * x - ?D * y) * (?B * x - ?D * y))" by (rule sum_pair_squares_nonneg)
  then have le: "0 \<le> ?B * (?A * ?B - ?D * ?D)" unfolding sum_squares_expand by (simp add: algebra_simps)
  show ?thesis
  proof (cases "?B = 0")
    case True
    have "(\<Sum>(x, y) \<leftarrow> ps. y * y) = 0 \<Longrightarrow> ?D = 0"
    proof (induction ps)
      case (Cons p ps)
      have nonneg: "0 \<le> snd p * snd p" "0 \<le> (\<Sum>(x, y) \<leftarrow> ps. y * y)" by (simp, rule sum_pair_squares_nonneg)
      have "snd p * snd p + (\<Sum>(x, y) \<leftarrow> ps. y * y) = 0" using Cons.prems by (simp add: case_prod_beta')
      with nonneg have "snd p * snd p = 0" "(\<Sum>(x, y) \<leftarrow> ps. y * y) = 0" by linarith+
      with Cons.IH show ?case by (simp add: case_prod_beta')
    qed simp
    with True show ?thesis by simp
  next
    case False
    moreover have "0 \<le> ?B" by (rule sum_pair_squares_nonneg)
    ultimately show ?thesis using le by (simp add: zero_le_mult_iff)
  qed
qed

lemma cosineSimilarity_range: "\<bar>cosineSimilarity a b\<bar> \<le> 1"
proof -
  let ?ps = "zip a b"
  let ?A = "\<Sum>(x, y) \<leftarrow> ?ps. x * x" and ?B = "\<Sum>(x, y) \<leftarrow> ?ps. y * y" and ?D = "\<Sum>(x, y) \<leftarrow> ?ps. x * y"
  have "sqrt (?D * ?D) \<le> sqrt (?A * ?B)" by (rule real_sqrt_le_mono [OF cauchy_schwarz_list])
  then have "\<bar>?D\<bar> \<le> sqrt ?A * sqrt ?B" by (simp add: real_sqrt_mult)
  then show ?thesis by (simp add: cosineSimilarity_def Let_def abs_divide divide_le_eq_1)
qed

end
