(* ===== verification/Rag_Pipeline.thy ===== *)
theory Rag_Pipeline
  imports Hybrid_Store U_Curve Output_Rails
begin

text \<open>
  Retrieval over a vector store, \<open>packages/rag/src\<close>: the knowledge base (\<open>engines/knowledge-base.ts\<close>), the pipeline
  (\<open>engines/rag-pipeline.ts\<close>) and its strategies after retrieval: maximal marginal relevance
  (\<open>strategies/mmr.strategy.ts\<close>), reranking (\<open>reranker.strategy.ts\<close>), parent hydration
  (\<open>parent-child-hydration.strategy.ts\<close>) and the U-shaped layout (\<open>u-shaped-context.strategy.ts\<close>). The store is
  an interface; its contract is the locale \<open>vector_store\<close>.
\<close>

section \<open>The store interface and its contract\<close>

record ('s, 'x) VectorStoreAdapter =
  va_addChunks :: "(DocumentChunk list \<Rightarrow> 's \<Rightarrow> 'x \<Rightarrow> (string, unit) result \<times> 's \<times> 'x) option"
  va_searchChunks :: "string \<Rightarrow> nat \<Rightarrow> props option \<Rightarrow> 's \<Rightarrow> 'x \<Rightarrow> (string, DocumentChunk list) result \<times> 'x"
  va_searchChunksScored :: "(string \<Rightarrow> nat \<Rightarrow> props option \<Rightarrow> 's \<Rightarrow> 'x \<Rightarrow> (string, (DocumentChunk \<times> real) list) result \<times> 'x) option"

definition hybrid_adapter :: "'x HybridVectorStoreOptions \<Rightarrow> (hybrid_store, 'x) VectorStoreAdapter" where
  "hybrid_adapter P =
     \<lparr>va_addChunks = Some (addChunks P), va_searchChunks = searchHybrid P,
      va_searchChunksScored = Some (searchHybridScored P)\<rparr>"

section \<open>The knowledge base\<close>

record Document =
  doc_id :: string
  doc_title :: string
  doc_rawContent :: string
  doc_chunks :: "DocumentChunk list"
  doc_metadata :: props
  doc_timestamp :: int

record DocumentInput =
  in_id :: "string option"
  in_title :: string
  in_rawContent :: string
  in_metadata :: "props option"
  in_timestamp :: "int option"

record 'x kb_env =
  kb_splitter :: "Document \<Rightarrow> 'x \<Rightarrow> (string, DocumentChunk list) result \<times> 'x"
  kb_uuid :: "'x \<Rightarrow> string"
  kb_now :: "'x \<Rightarrow> int"

type_synonym 's knowledge_base = "(string \<rightharpoonup> Document) \<times> 's"

definition ingestDocument ::
    "'x kb_env \<Rightarrow> ('s, 'x) VectorStoreAdapter \<Rightarrow> DocumentInput \<Rightarrow> 's knowledge_base \<Rightarrow> 'x
       \<Rightarrow> (string, Document) result \<times> 's knowledge_base \<times> 'x" where
  "ingestDocument E V d kb x =
     (let i = (case in_id d of Some (c # cs) \<Rightarrow> c # cs | _ \<Rightarrow> kb_uuid E x);
          full = \<lparr>doc_id = i, doc_title = in_title d, doc_rawContent = in_rawContent d, doc_chunks = [],
            doc_metadata = nullish (in_metadata d) [], doc_timestamp = nullish (in_timestamp d) (kb_now E x)\<rparr>
      in case kb_splitter E full x of
           (Inl m, y) \<Rightarrow> (Inl m, kb, y)
         | (Inr chunks, y) \<Rightarrow>
             let docs = (fst kb)(i \<mapsto> full\<lparr>doc_chunks := chunks\<rparr>)
             in (case va_addChunks V of
                   None \<Rightarrow> (Inr (full\<lparr>doc_chunks := chunks\<rparr>), (docs, snd kb), y)
                 | Some f \<Rightarrow>
                     (case f chunks (snd kb) y of
                        (Inl m, s, z) \<Rightarrow> (Inl m, (docs, s), z)
                      | (Inr _, s, z) \<Rightarrow> (Inr (full\<lparr>doc_chunks := chunks\<rparr>), (docs, s), z))))"

definition getDocument :: "string \<Rightarrow> 's knowledge_base \<Rightarrow> Document option" where
  "getDocument i kb = fst kb i"

definition tagExternal :: "DocumentChunk \<Rightarrow> DocumentChunk" where
  "tagExternal c = c\<lparr>dc_provenance := Some (''external'', dc_parentId c)\<rparr>"

definition queryChunks ::
    "('s, 'x) VectorStoreAdapter \<Rightarrow> string \<Rightarrow> nat \<Rightarrow> props option \<Rightarrow> 's \<Rightarrow> 'x \<Rightarrow> (string, DocumentChunk list) result \<times> 'x" where
  "queryChunks V query limit flt s x =
     (case va_searchChunks V query limit flt s x of (Inl m, y) \<Rightarrow> (Inl m, y) | (Inr cs, y) \<Rightarrow> (Inr (map tagExternal cs), y))"

definition queryChunksScored ::
    "('s, 'x) VectorStoreAdapter \<Rightarrow> string \<Rightarrow> nat \<Rightarrow> props option \<Rightarrow> 's \<Rightarrow> 'x
       \<Rightarrow> (string, (DocumentChunk \<times> real) list) result \<times> 'x" where
  "queryChunksScored V query limit flt s x =
     (case va_searchChunksScored V of
        Some f \<Rightarrow>
          (case f query limit flt s x of
             (Inl m, y) \<Rightarrow> (Inl m, y)
           | (Inr rs, y) \<Rightarrow> (Inr (map (\<lambda>(c, score). (tagExternal c, score)) rs), y))
      | None \<Rightarrow>
          (case va_searchChunks V query limit flt s x of
             (Inl m, y) \<Rightarrow> (Inl m, y)
           | (Inr cs, y) \<Rightarrow> (Inr (map (\<lambda>(rank, c). (tagExternal c, 1 / real (rank + 1))) (enumerate 0 cs)), y)))"

section \<open>The pipeline\<close>

record RAGContext =
  rx_query :: string
  rx_expandedQueries :: "string list option"
  rx_chunks :: "DocumentChunk list option"
  rx_scores :: "(string \<times> real) list option"
  rx_hydratedParentContext :: "string option"
  rx_compressedContext :: "string option"
  rx_relationalFacts :: "string list option"
  rx_graphContext :: "string option"
  rx_filter :: "props option"
  rx_metadata :: props

type_synonym 'x strategy = "RAGContext \<Rightarrow> 'x \<Rightarrow> (string, RAGContext) result \<times> 'x"

datatype rag_phase = Pre_retrieval | Post_retrieval

record 'x RAGPipeline =
  preRetrievalStrategies :: "'x strategy list"
  postRetrievalStrategies :: "'x strategy list"

definition addStrategy :: "rag_phase option \<times> 'x strategy \<Rightarrow> 'x RAGPipeline \<Rightarrow> 'x RAGPipeline" where
  "addStrategy st R =
     (if fst st = Some Pre_retrieval then R\<lparr>preRetrievalStrategies := preRetrievalStrategies R @ [snd st]\<rparr>
      else R\<lparr>postRetrievalStrategies := postRetrievalStrategies R @ [snd st]\<rparr>)"

definition make_pipeline :: "(rag_phase option \<times> 'x strategy) list \<Rightarrow> 'x RAGPipeline" where
  "make_pipeline sts = fold addStrategy sts \<lparr>preRetrievalStrategies = [], postRetrievalStrategies = []\<rparr>"

fun run_strategies :: "'x strategy list \<Rightarrow> 'x strategy" where
  "run_strategies [] ctx x = (Inr ctx, x)"
| "run_strategies (f # fs) ctx x =
     (case f ctx x of (Inl m, y) \<Rightarrow> (Inl m, y) | (Inr ctx, y) \<Rightarrow> run_strategies fs ctx y)"

text \<open>The chunks found so far, by id in the order of their first find, and the best score of each.\<close>

type_synonym found = "(string \<times> DocumentChunk) list \<times> (string \<times> real) list"

definition note_chunk :: "DocumentChunk \<times> real \<Rightarrow> found \<Rightarrow> found" where
  "note_chunk r acc =
     (case r of (c, score) \<Rightarrow> case acc of (chunks, scores) \<Rightarrow>
        (AList.update (dc_id c) c chunks,
         case map_of scores (dc_id c) of
           None \<Rightarrow> AList.update (dc_id c) score scores
         | Some best \<Rightarrow> if score > best then AList.update (dc_id c) score scores else scores))"

fun retrieve_all ::
    "('s, 'x) VectorStoreAdapter \<Rightarrow> nat \<Rightarrow> props option \<Rightarrow> 's \<Rightarrow> string list \<Rightarrow> found \<Rightarrow> 'x \<Rightarrow> (string, found) result \<times> 'x" where
  "retrieve_all V topK flt s [] acc x = (Inr acc, x)"
| "retrieve_all V topK flt s (q # qs) acc x =
     (if trim q = [] then retrieve_all V topK flt s qs acc x
      else case queryChunksScored V q topK flt s x of
        (Inl m, y) \<Rightarrow> (Inl m, y)
      | (Inr rs, y) \<Rightarrow> retrieve_all V topK flt s qs (fold note_chunk rs acc) y)"

definition initial_context :: "string \<Rightarrow> props option \<Rightarrow> RAGContext" where
  "initial_context query flt =
     \<lparr>rx_query = query, rx_expandedQueries = None, rx_chunks = Some [], rx_scores = None, rx_hydratedParentContext = None,
      rx_compressedContext = None, rx_relationalFacts = None, rx_graphContext = None, rx_filter = flt, rx_metadata = []\<rparr>"

definition executePipeline ::
    "('s, 'x) VectorStoreAdapter \<Rightarrow> 'x RAGPipeline \<Rightarrow> string \<Rightarrow> nat \<Rightarrow> props option \<Rightarrow> 's \<Rightarrow> 'x \<Rightarrow> (string, RAGContext) result \<times> 'x" where
  "executePipeline V R query topK flt s x =
     (case run_strategies (preRetrievalStrategies R) (initial_context query flt) x of
        (Inl m, y) \<Rightarrow> (Inl m, y)
      | (Inr ctx, y) \<Rightarrow>
          (case retrieve_all V topK (rx_filter ctx) s (rx_query ctx # nullish (rx_expandedQueries ctx) []) ([], []) y of
             (Inl m, z) \<Rightarrow> (Inl m, z)
           | (Inr (chunks, scores), z) \<Rightarrow>
               run_strategies (postRetrievalStrategies R)
                 (ctx\<lparr>rx_chunks := Some (map snd chunks), rx_scores := Some scores\<rparr>) z))"

section \<open>Strategies after retrieval\<close>

subsection \<open>Maximal marginal relevance\<close>

definition max_similarity :: "DocumentChunk \<Rightarrow> DocumentChunk list \<Rightarrow> real" where
  "max_similarity c selected =
     (case dc_embedding c of
        None \<Rightarrow> 0
      | Some v \<Rightarrow>
          nullish (fold (\<lambda>s best. case dc_embedding s of
              None \<Rightarrow> best
            | Some w \<Rightarrow> let sim = cosineSimilarity v w
                in if best = None \<or> sim > nullish best 0 then Some sim else best) selected None) 0)"

definition mmr_score :: "real \<Rightarrow> (string \<times> real) list \<Rightarrow> DocumentChunk list \<Rightarrow> DocumentChunk \<Rightarrow> real" where
  "mmr_score l scores selected c = l * nullish (map_of scores (dc_id c)) 0 - (1 - l) * max_similarity c selected"

text \<open>The first index of the greatest value.\<close>

fun best_index :: "('a \<Rightarrow> real) \<Rightarrow> 'a list \<Rightarrow> nat \<Rightarrow> nat \<Rightarrow> real option \<Rightarrow> nat" where
  "best_index f [] i b best = b"
| "best_index f (x # xs) i b best =
     (if best = None \<or> f x > nullish best 0 then best_index f xs (i + 1) i (Some (f x)) else best_index f xs (i + 1) b best)"

fun mmr_select :: "nat \<Rightarrow> real \<Rightarrow> (string \<times> real) list \<Rightarrow> DocumentChunk list \<Rightarrow> DocumentChunk list \<Rightarrow> DocumentChunk list" where
  "mmr_select 0 l scores remaining selected = selected"
| "mmr_select (Suc k) l scores remaining selected =
     (if remaining = [] then selected
      else let i = best_index (mmr_score l scores selected) remaining 0 0 None
           in mmr_select k l scores (take i remaining @ drop (Suc i) remaining) (selected @ [remaining ! i]))"

definition mmr_process :: "nat \<Rightarrow> real \<Rightarrow> 'x strategy" where
  "mmr_process topK l ctx x =
     (let chunks = nullish (rx_chunks ctx) [] in
      if chunks = [] then (Inr ctx, x)
      else if \<forall>c \<in> set chunks. dc_embedding c = None then (Inr (ctx\<lparr>rx_chunks := Some (take topK chunks)\<rparr>), x)
      else (Inr (ctx\<lparr>rx_chunks := Some (mmr_select topK l (nullish (rx_scores ctx) []) chunks [])\<rparr>), x))"

subsection \<open>Reranking\<close>

record 'x RerankerStrategyOptions =
  rk_topK :: nat
  rk_rerankFn :: "(string \<Rightarrow> DocumentChunk list \<Rightarrow> 'x \<Rightarrow> (string, real list) result \<times> 'x) option"
  rk_minScore :: "real option"
  rk_throw :: bool
  rk_onRerankFailure :: "string \<Rightarrow> 'x \<Rightarrow> 'x"

text \<open>\<open>split(/\s+/)\<close>.\<close>

fun split_runs :: "bool \<Rightarrow> string \<Rightarrow> string \<Rightarrow> string list" where
  "split_runs inside w [] = [rev w]"
| "split_runs inside w (c # s) =
     (if is_space c then (if inside then split_runs True w s else rev w # split_runs True [] s)
      else split_runs False (c # w) s)"

type_synonym rescored = "(DocumentChunk \<times> real) list \<times> (string \<times> real) list"

fun custom_scores :: "DocumentChunk list \<Rightarrow> real list \<Rightarrow> (string \<times> real) list \<Rightarrow> rescored" where
  "custom_scores [] vs scores = ([], scores)"
| "custom_scores (c # cs) vs scores =
     (let v = (case vs of v # _ \<Rightarrow> v | [] \<Rightarrow> nullish (map_of scores (dc_id c)) 0)
      in case custom_scores cs (drop 1 vs) (AList.update (dc_id c) v scores) of (rs, scores) \<Rightarrow> ((c, v) # rs, scores))"

definition term_overlap :: "string set \<Rightarrow> DocumentChunk \<Rightarrow> real" where
  "term_overlap queryTokens c =
     (let tokens = split_runs False [] (lower_case (dc_content c))
      in real (length (filter (\<lambda>t. t \<in> queryTokens) tokens)) / real (max (length tokens) 1))"

fun overlap_scores :: "string set \<Rightarrow> DocumentChunk list \<Rightarrow> (string \<times> real) list \<Rightarrow> rescored" where
  "overlap_scores queryTokens [] scores = ([], scores)"
| "overlap_scores queryTokens (c # cs) scores =
     (let v = term_overlap queryTokens c * nullish (map_of scores (dc_id c)) 1
      in case overlap_scores queryTokens cs (AList.update (dc_id c) v scores) of (rs, scores) \<Rightarrow> ((c, v) # rs, scores))"

definition rerank_finish :: "'x RerankerStrategyOptions \<Rightarrow> RAGContext \<Rightarrow> rescored \<Rightarrow> RAGContext" where
  "rerank_finish P ctx r =
     (case r of (rs, scores) \<Rightarrow>
        let sorted = sort_key (\<lambda>r. - snd r) rs;
            kept = (case rk_minScore P of None \<Rightarrow> sorted | Some m \<Rightarrow> filter (\<lambda>r. snd r \<ge> m) sorted)
        in ctx\<lparr>rx_chunks := Some (map fst (take (rk_topK P) kept)), rx_scores := Some scores\<rparr>)"

definition reranker_process :: "'x RerankerStrategyOptions \<Rightarrow> 'x strategy" where
  "reranker_process P ctx x =
     (let chunks = nullish (rx_chunks ctx) []; scores = nullish (rx_scores ctx) [];
          queryTokens = set (filter (\<lambda>t. 2 < length t) (split_runs False [] (lower_case (rx_query ctx))));
          internal = rerank_finish P ctx (overlap_scores queryTokens chunks scores)
      in if chunks = [] then (Inr ctx, x)
         else case rk_rerankFn P of
           None \<Rightarrow> (Inr internal, x)
         | Some f \<Rightarrow>
             (case f (rx_query ctx) chunks x of
                (Inr vs, y) \<Rightarrow> (Inr (rerank_finish P ctx (custom_scores chunks vs scores)), y)
              | (Inl m, y) \<Rightarrow>
                  let z = rk_onRerankFailure P m y in if rk_throw P then (Inl m, z) else (Inr internal, z)))"

subsection \<open>Hydration with the parent's text\<close>

record 'x HydrationOptions =
  hy_parentStore :: "(string \<Rightarrow> 'x \<Rightarrow> (string, DocumentChunk option) result \<times> 'x) option"
  hy_replaceChunkContent :: bool

text \<open>\<open>metadata.parentText\<close> is a string, as the cast says.\<close>

definition own_parent_text :: "DocumentChunk \<Rightarrow> string" where
  "own_parent_text c = (case get_prop (dc_metadata c) ''parentText'' of JStr s \<Rightarrow> s | _ \<Rightarrow> dc_content c)"

definition parent_text :: "'x HydrationOptions \<Rightarrow> DocumentChunk \<Rightarrow> 'x \<Rightarrow> (string, string) result \<times> 'x" where
  "parent_text P c x =
     (case hy_parentStore P of
        Some f \<Rightarrow>
          if dc_parentId c = [] then (Inr (own_parent_text c), x)
          else (case f (dc_parentId c) x of
                  (Inl m, y) \<Rightarrow> (Inl m, y)
                | (Inr (Some p), y) \<Rightarrow> (Inr (if dc_content p = [] then own_parent_text c else dc_content p), y)
                | (Inr None, y) \<Rightarrow> (Inr (own_parent_text c), y))
      | None \<Rightarrow> (Inr (own_parent_text c), x))"

definition hydrated :: "'x HydrationOptions \<Rightarrow> string \<Rightarrow> DocumentChunk \<Rightarrow> DocumentChunk" where
  "hydrated P text_in c =
     c\<lparr>dc_content := (if hy_replaceChunkContent P then text_in else dc_content c),
       dc_metadata := AList.update ''parentHydrated'' (JBool True)
         (AList.update ''originalChildContent'' (JStr (dc_content c)) (dc_metadata c))\<rparr>"

fun hydrate_all ::
    "'x HydrationOptions \<Rightarrow> DocumentChunk list \<Rightarrow> (string \<times> string) list \<Rightarrow> 'x
       \<Rightarrow> (string, DocumentChunk list \<times> (string \<times> string) list) result \<times> 'x" where
  "hydrate_all P [] parents x = (Inr ([], parents), x)"
| "hydrate_all P (c # cs) parents x =
     (case parent_text P c x of
        (Inl m, y) \<Rightarrow> (Inl m, y)
      | (Inr t, y) \<Rightarrow>
          (case hydrate_all P cs (AList.update (if dc_parentId c = [] then dc_id c else dc_parentId c) t parents) y of
             (Inl m, z) \<Rightarrow> (Inl m, z)
           | (Inr (rest, parents), z) \<Rightarrow> (Inr (hydrated P t c # rest, parents), z)))"

definition hydration_process :: "'x HydrationOptions \<Rightarrow> 'x strategy" where
  "hydration_process P ctx x =
     (case rx_chunks ctx of
        Some (c # cs) \<Rightarrow>
          (case hydrate_all P (c # cs) [] x of
             (Inl m, y) \<Rightarrow> (Inl m, y)
           | (Inr (updated, parents), y) \<Rightarrow>
               (Inr (ctx\<lparr>rx_chunks := Some updated,
                  rx_hydratedParentContext := Some (join ([CHR 0x0A] @ ''---'' @ [CHR 0x0A]) (map snd parents))\<rparr>), y))
      | _ \<Rightarrow> (Inr ctx, x))"

subsection \<open>The U-shaped layout\<close>

record UShapedContextStrategyOptions =
  us_placement :: placement
  us_maxChunks :: "nat option"
  us_header :: "string option"
  us_footer :: "string option"
  us_chunkSeparator :: string

definition u_reorder :: "placement \<Rightarrow> 'a list \<Rightarrow> 'a option list" where
  "u_reorder strategy items =
     (if length items \<le> 1 then map Some items
      else place (strategy = Primacy_first) items 0 0 (int (length items) - 1) (replicate (length items) None))"

definition chunk_title :: "nat \<Rightarrow> DocumentChunk \<Rightarrow> string" where
  "chunk_title i c =
     (let title = get_prop (dc_metadata c) ''title'';
          raw = (if title = JUndef \<or> title = JNull then get_prop (dc_metadata c) ''section'' else title);
          fallback = ''Chunk '' @ string_of_nat (i + 1)
      in case raw of JStr s \<Rightarrow> if trim s = [] then fallback else trim s | _ \<Rightarrow> fallback)"

definition chunk_block :: "(string \<Rightarrow> string) \<Rightarrow> nat \<Rightarrow> DocumentChunk \<Rightarrow> (string, string) result" where
  "chunk_block strip i c =
     wrapWithBoundary strip ''retrieved_chunk''
       (''[Reference: '' @ chunk_title i c @ '']'' @ [CHR 0x0A] @ dc_content c)"

fun chunk_blocks :: "(string \<Rightarrow> string) \<Rightarrow> nat \<Rightarrow> DocumentChunk list \<Rightarrow> (string, string list) result" where
  "chunk_blocks strip i [] = Inr []"
| "chunk_blocks strip i (c # cs) =
     (case chunk_block strip i c of
        Inl m \<Rightarrow> Inl m
      | Inr b \<Rightarrow> (case chunk_blocks strip (i + 1) cs of Inl m \<Rightarrow> Inl m | Inr bs \<Rightarrow> Inr (b # bs)))"

definition rank_chunks :: "(string \<times> real) list \<Rightarrow> DocumentChunk list \<Rightarrow> DocumentChunk list" where
  "rank_chunks scores chunks =
     (if scores = [] then chunks else sort_key (\<lambda>c. - nullish (map_of scores (dc_id c)) 0) chunks)"

definition keep_top :: "nat option \<Rightarrow> 'a list \<Rightarrow> 'a list" where
  "keep_top limit xs = (case limit of Some n \<Rightarrow> if n > 0 \<and> length xs > n then take n xs else xs | None \<Rightarrow> xs)"

definition u_shaped_process :: "(string \<Rightarrow> string) \<Rightarrow> UShapedContextStrategyOptions \<Rightarrow> 'x strategy" where
  "u_shaped_process strip P ctx x =
     (let chunks = nullish (rx_chunks ctx) []; scores = nullish (rx_scores ctx) [];
          ordered = map the (u_reorder (us_placement P) (keep_top (us_maxChunks P) (rank_chunks scores chunks)));
          extra = (\<lambda>t. case t of Some (c # cs) \<Rightarrow> [c # cs] | _ \<Rightarrow> [])
      in if chunks = [] then (Inr ctx, x)
         else case chunk_blocks strip 0 ordered of
           Inl m \<Rightarrow> (Inl m, x)
         | Inr blocks \<Rightarrow>
             (Inr (ctx\<lparr>rx_chunks := Some ordered,
                rx_compressedContext := Some (join [CHR 0x0A, CHR 0x0A]
                  (extra (us_header P) @ [join (us_chunkSeparator P) blocks] @ extra (us_footer P))),
                rx_metadata := AList.update ''chunkCount'' (JNum (Fin (of_nat (length ordered))))
                  (AList.update ''uShapeStrategy''
                    (JStr (case us_placement P of Primacy_first \<Rightarrow> ''primacy_first'' | Recency_first \<Rightarrow> ''recency_first''))
                    (AList.update ''uShapeApplied'' (JBool True) (rx_metadata ctx)))\<rparr>), x))"

section \<open>What a strategy may do to its chunks\<close>

text \<open>
  A chunk comes from a source when it has the id, the parent and the provenance of one of the chunks; a
  strategy keeps sources when every chunk of its result comes from a chunk it was given.
\<close>

definition from_source :: "DocumentChunk \<Rightarrow> DocumentChunk list \<Rightarrow> bool" where
  "from_source c cs \<longleftrightarrow>
     (\<exists>c' \<in> set cs. dc_id c = dc_id c' \<and> dc_parentId c = dc_parentId c' \<and> dc_provenance c = dc_provenance c')"

definition keeps_sources :: "'x strategy \<Rightarrow> bool" where
  "keeps_sources f \<longleftrightarrow> (\<forall>ctx x ctx' y. f ctx x = (Inr ctx', y) \<longrightarrow>
     (\<forall>c \<in> set (nullish (rx_chunks ctx') []). from_source c (nullish (rx_chunks ctx) [])))"

definition keeps_filter :: "'x strategy \<Rightarrow> bool" where
  "keeps_filter f \<longleftrightarrow> (\<forall>ctx x ctx' y. f ctx x = (Inr ctx', y) \<longrightarrow> rx_filter ctx' = rx_filter ctx)"

lemma keeps_sourcesD:
  "keeps_sources f \<Longrightarrow> f ctx x = (Inr ctx', y) \<Longrightarrow> c \<in> set (nullish (rx_chunks ctx') []) \<Longrightarrow>
     from_source c (nullish (rx_chunks ctx) [])"
  unfolding keeps_sources_def by blast

lemma keeps_filterD: "keeps_filter f \<Longrightarrow> f ctx x = (Inr ctx', y) \<Longrightarrow> rx_filter ctx' = rx_filter ctx"
  unfolding keeps_filter_def by blast

lemma from_source_refl: "c \<in> set cs \<Longrightarrow> from_source c cs"
  by (auto simp: from_source_def)

lemma from_source_trans: "from_source c cs \<Longrightarrow> \<forall>c \<in> set cs. from_source c ds \<Longrightarrow> from_source c ds"
  by (auto simp: from_source_def)

lemma keeps_sources_subset:
  assumes "\<And>ctx x ctx' y. f ctx x = (Inr ctx', y) \<Longrightarrow> set (nullish (rx_chunks ctx') []) \<subseteq> set (nullish (rx_chunks ctx) [])"
  shows "keeps_sources f"
  using assms unfolding keeps_sources_def by (blast intro: from_source_refl)

lemma run_strategies_sources:
  assumes "\<forall>f \<in> set fs. keeps_sources f" and "run_strategies fs ctx x = (Inr ctx', y)"
    and "c \<in> set (nullish (rx_chunks ctx') [])"
  shows "from_source c (nullish (rx_chunks ctx) [])"
  using assms
proof (induction fs arbitrary: ctx x)
  case (Cons f fs)
  then obtain ctx1 x1 where f: "f ctx x = (Inr ctx1, x1)" and fs: "run_strategies fs ctx1 x1 = (Inr ctx', y)"
    by (auto split: prod.splits sum.splits)
  from Cons.IH [OF _ fs Cons.prems(3)] Cons.prems(1) have "from_source c (nullish (rx_chunks ctx1) [])" by simp
  moreover have "\<forall>d \<in> set (nullish (rx_chunks ctx1) []). from_source d (nullish (rx_chunks ctx) [])"
    using keeps_sourcesD [where f = f, OF _ f] Cons.prems(1) by simp
  ultimately show ?case by (rule from_source_trans)
qed (auto intro: from_source_refl)

lemma run_strategies_filter:
  "\<forall>f \<in> set fs. keeps_filter f \<Longrightarrow> run_strategies fs ctx x = (Inr ctx', y) \<Longrightarrow> rx_filter ctx' = rx_filter ctx"
proof (induction fs arbitrary: ctx x)
  case (Cons f fs)
  then obtain ctx1 x1 where f: "f ctx x = (Inr ctx1, x1)" and fs: "run_strategies fs ctx1 x1 = (Inr ctx', y)"
    by (auto split: prod.splits sum.splits)
  with Cons.IH [OF _ fs] keeps_filterD [where f = f, OF _ f] Cons.prems(1) show ?case by simp
qed simp

subsection \<open>The strategies of the package keep sources\<close>

lemma best_index_range: "best_index f xs i b best \<in> {i ..< i + length xs} \<union> {b}"
proof (induction xs arbitrary: i b best)
  case (Cons x xs)
  from Cons.IH [of "i + 1" i "Some (f x)"] Cons.IH [of "i + 1" b best] show ?case by auto
qed simp

text \<open>What the scan picks is best: no other candidate has a greater score.\<close>

lemma best_index_scan:
  assumes "b < length ys" and "\<forall>y \<in> set ys. f y \<le> f (ys ! b)"
  shows "\<forall>z \<in> set (ys @ xs). f z \<le> f ((ys @ xs) ! best_index f xs (length ys) b (Some (f (ys ! b))))"
  using assms
proof (induction xs arbitrary: ys b)
  case (Cons x xs)
  show ?case
  proof (cases "f x > f (ys ! b)")
    case True
    then have "\<forall>y \<in> set (ys @ [x]). f y \<le> f ((ys @ [x]) ! length ys)" using Cons.prems(2) by auto
    from Cons.IH [OF _ this] True show ?thesis by simp
  next
    case False
    then have "\<forall>y \<in> set (ys @ [x]). f y \<le> f ((ys @ [x]) ! b)" using Cons.prems by (auto simp: nth_append)
    from Cons.IH [OF _ this] False Cons.prems(1) show ?thesis by (simp add: nth_append)
  qed
qed simp

lemma best_index_best:
  assumes "xs \<noteq> []"
  shows "best_index f xs 0 0 None < length xs" and "\<forall>z \<in> set xs. f z \<le> f (xs ! best_index f xs 0 0 None)"
proof -
  obtain x ys where xs: "xs = x # ys" using assms by (cases xs) auto
  from best_index_range [of f xs 0 0 None] xs show "best_index f xs 0 0 None < length xs" by auto
  from best_index_scan [of 0 "[x]" f ys] show "\<forall>z \<in> set xs. f z \<le> f (xs ! best_index f xs 0 0 None)"
    by (simp add: xs)
qed

lemma remove_nth_mset: "i < length xs \<Longrightarrow> mset (take i xs @ drop (Suc i) xs) + {#xs ! i#} = mset xs"
  by (subst (4) id_take_nth_drop [of i xs]) simp_all

lemma mmr_select_mset: "mset (mmr_select k l scores remaining selected) \<subseteq># mset remaining + mset selected"
proof (induction k arbitrary: remaining selected)
  case (Suc k)
  show ?case
  proof (cases "remaining = []")
    case False
    let ?i = "best_index (mmr_score l scores selected) remaining 0 0 None"
    note i = best_index_best(1) [OF False, of "mmr_score l scores selected"]
    let ?rest = "take ?i remaining @ drop (Suc ?i) remaining"
    have "mset ?rest + mset (selected @ [remaining ! ?i]) = (mset ?rest + {#remaining ! ?i#}) + mset selected" by simp
    also have "\<dots> = mset remaining + mset selected" by (simp only: remove_nth_mset [OF i])
    finally have ms: "mset ?rest + mset (selected @ [remaining ! ?i]) = mset remaining + mset selected" .
    have "mmr_select (Suc k) l scores remaining selected = mmr_select k l scores ?rest (selected @ [remaining ! ?i])"
      using False by (simp add: Let_def)
    with Suc.IH [of ?rest "selected @ [remaining ! ?i]"] show ?thesis by (simp only: ms)
  qed simp
qed simp

lemma mmr_select_length:
  "length (mmr_select k l scores remaining selected) = length selected + min k (length remaining)"
proof (induction k arbitrary: remaining selected)
  case (Suc k)
  show ?case
  proof (cases "remaining = []")
    case False
    let ?i = "best_index (mmr_score l scores selected) remaining 0 0 None"
    note i = best_index_best(1) [OF False, of "mmr_score l scores selected"]
    let ?rest = "take ?i remaining @ drop (Suc ?i) remaining"
    from i have len: "length remaining = Suc (length ?rest)" by simp
    have "mmr_select (Suc k) l scores remaining selected = mmr_select k l scores ?rest (selected @ [remaining ! ?i])"
      using False by (simp add: Let_def)
    then have "length (mmr_select (Suc k) l scores remaining selected) = length (selected @ [remaining ! ?i]) + min k (length ?rest)"
      by (simp only: Suc.IH)
    then show ?thesis unfolding len by simp
  qed simp
qed simp

lemma mmr_keeps_sources: "keeps_sources (mmr_process topK l)"
proof (rule keeps_sources_subset)
  fix ctx ctx' :: RAGContext and x y :: 'a
  assume "mmr_process topK l ctx x = (Inr ctx', y)"
  moreover have sub: "set (mmr_select topK l sc cs []) \<subseteq> set cs" for sc cs
    using set_mset_mono [OF mmr_select_mset [of topK l sc cs "[]"]] by simp
  ultimately show "set (nullish (rx_chunks ctx') []) \<subseteq> set (nullish (rx_chunks ctx) [])"
    by (auto simp: mmr_process_def Let_def dest: in_set_takeD subsetD [OF sub] split: if_splits)
qed

lemma custom_scores_chunks: "map fst (fst (custom_scores cs vs scores)) = cs"
  by (induction cs vs scores rule: custom_scores.induct) (auto simp: Let_def split: prod.splits)

lemma overlap_scores_chunks: "map fst (fst (overlap_scores q cs scores)) = cs"
  by (induction q cs scores rule: overlap_scores.induct) (auto simp: Let_def split: prod.splits)

lemma rerank_finish_subset:
  "set (nullish (rx_chunks (rerank_finish P ctx r)) []) \<subseteq> fst ` set (fst r)"
  by (auto simp: rerank_finish_def Let_def split: prod.splits option.splits dest!: in_set_takeD)

lemma reranker_keeps_sources: "keeps_sources (reranker_process P)"
proof (rule keeps_sources_subset)
  fix ctx ctx' :: RAGContext and x y :: 'a
  assume r: "reranker_process P ctx x = (Inr ctx', y)"
  let ?chunks = "nullish (rx_chunks ctx) []"
  let ?q = "set (filter (\<lambda>t. 2 < length t) (split_runs False [] (lower_case (rx_query ctx))))"
  have "ctx' = ctx \<or> ctx' = rerank_finish P ctx (overlap_scores ?q ?chunks (nullish (rx_scores ctx) [])) \<or>
      (\<exists>vs. ctx' = rerank_finish P ctx (custom_scores ?chunks vs (nullish (rx_scores ctx) [])))"
    using r by (auto simp: reranker_process_def Let_def split: if_splits option.splits sum.splits prod.splits)
  moreover have "set (nullish (rx_chunks (rerank_finish P ctx r)) []) \<subseteq> set ?chunks" if "map fst (fst r) = ?chunks" for r
    using rerank_finish_subset [of P ctx r] that by (metis list.set_map)
  ultimately show "set (nullish (rx_chunks ctx') []) \<subseteq> set ?chunks"
    using custom_scores_chunks overlap_scores_chunks by (metis order_refl)
qed

lemma hydrate_all_sources:
  "hydrate_all P cs parents x = (Inr (ds, ps), y) \<Longrightarrow> d \<in> set ds \<Longrightarrow> from_source d cs"
proof (induction cs arbitrary: parents x ds)
  case (Cons c cs)
  then obtain t ds' where ds: "ds = hydrated P t c # ds'"
    and rest: "\<exists>parents x. hydrate_all P cs parents x = (Inr (ds', ps), y)"
    by (auto split: prod.splits sum.splits)
  show ?case
  proof (cases "d = hydrated P t c")
    case True
    then show ?thesis by (auto simp: from_source_def hydrated_def)
  next
    case False
    with ds Cons.prems(2) rest Cons.IH have "from_source d cs" by auto
    then show ?thesis by (auto simp: from_source_def)
  qed
qed simp

lemma hydration_keeps_sources: "keeps_sources (hydration_process P)"
  unfolding keeps_sources_def
  by (auto simp: hydration_process_def intro: hydrate_all_sources from_source_refl
      split: option.splits list.splits prod.splits sum.splits simp del: hydrate_all.simps)

lemma u_reorder_shape: "u_reorder strategy items = map Some (u_shape strategy items)"
proof -
  have flat: "by_score (\<lambda>_. 0) items = items" by (simp add: by_score_def sort_key_const)
  from reorder_shape [of strategy "\<lambda>_. 0" items] show ?thesis
    unfolding reorderToUCurve_def u_reorder_def flat .
qed

lemma u_shape_mset: "mset (u_shape strategy xs) = mset xs"
  using every_other_mset [of xs] by (cases strategy) (auto simp: u_shape_def add.commute)

lemma u_shape_set: "set (u_shape strategy xs) = set xs"
  by (metis set_mset_mset u_shape_mset)

lemma rank_chunks_set [simp]: "set (rank_chunks scores chunks) = set chunks"
  by (simp add: rank_chunks_def)

lemma keep_top_subset: "set (keep_top limit xs) \<subseteq> set xs"
  by (auto simp: keep_top_def dest: in_set_takeD split: option.splits)

lemma u_shaped_keeps_sources: "keeps_sources (u_shaped_process strip P)"
proof (rule keeps_sources_subset)
  fix ctx ctx' :: RAGContext and x y :: 'a
  assume u: "u_shaped_process strip P ctx x = (Inr ctx', y)"
  let ?chunks = "nullish (rx_chunks ctx) []" and ?scores = "nullish (rx_scores ctx) []"
  let ?kept = "keep_top (us_maxChunks P) (rank_chunks ?scores ?chunks)"
  from u have "ctx' = ctx \<or> rx_chunks ctx' = Some (map the (u_reorder (us_placement P) ?kept))"
    by (auto simp: u_shaped_process_def Let_def split: if_splits sum.splits)
  moreover have "set (map the (u_reorder (us_placement P) ?kept)) = set ?kept"
    by (simp add: u_reorder_shape comp_def u_shape_set)
  moreover have "set ?kept \<subseteq> set ?chunks" using keep_top_subset [of "us_maxChunks P" "rank_chunks ?scores ?chunks"] by simp
  ultimately show "set (nullish (rx_chunks ctx') []) \<subseteq> set ?chunks" by auto
qed

section \<open>The contract of a store\<close>

text \<open>
  What the pipeline relies on: a search answers with chunks the store holds that satisfy the filter, and with no more
  than it was asked for.
\<close>

locale vector_store =
  fixes V :: "('s, 'x) VectorStoreAdapter"
    and stored :: "'s \<Rightarrow> DocumentChunk set"
    and valid_state :: "'s \<Rightarrow> bool"
  assumes search_law: "valid_state s \<Longrightarrow> va_searchChunks V query limit flt s x = (Inr cs, y) \<Longrightarrow>
      set cs \<subseteq> {c \<in> stored s. matches_filter flt c} \<and> length cs \<le> limit"
    and scored_law: "valid_state s \<Longrightarrow> va_searchChunksScored V = Some f \<Longrightarrow> f query limit flt s x = (Inr rs, y) \<Longrightarrow>
      fst ` set rs \<subseteq> {c \<in> stored s. matches_filter flt c} \<and> length rs \<le> limit"
begin

definition held :: "'s \<Rightarrow> props option \<Rightarrow> DocumentChunk set" where
  "held s flt = tagExternal ` {c \<in> stored s. matches_filter flt c}"

lemma queryChunksScored_held:
  assumes "valid_state s" and "queryChunksScored V query limit flt s x = (Inr rs, y)"
  shows "fst ` set rs \<subseteq> held s flt \<and> length rs \<le> limit"
proof (cases "va_searchChunksScored V")
  case None
  with assms(2) obtain cs where cs: "va_searchChunks V query limit flt s x = (Inr cs, y)"
    and rs: "rs = map (\<lambda>(rank, c). (tagExternal c, 1 / real (rank + 1))) (enumerate 0 cs)"
    by (auto simp: queryChunksScored_def split: prod.splits sum.splits)
  have "map fst rs = map tagExternal (map snd (enumerate 0 cs))"
    unfolding rs by (simp add: comp_def case_prod_beta del: map_snd_enumerate)
  then have m: "map fst rs = map tagExternal cs" by simp
  then have "fst ` set rs = tagExternal ` set cs" by (metis list.set_map)
  moreover from m have "length rs = length cs" by (metis length_map)
  ultimately show ?thesis using search_law [OF assms(1) cs] by (auto simp: held_def)
next
  case (Some f)
  with assms(2) obtain ps where ps: "f query limit flt s x = (Inr ps, y)"
    and rs: "rs = map (\<lambda>(c, score). (tagExternal c, score)) ps"
    by (auto simp: queryChunksScored_def split: prod.splits sum.splits)
  have "map fst rs = map tagExternal (map fst ps)" unfolding rs by (simp add: comp_def case_prod_beta)
  then have "fst ` set rs = tagExternal ` fst ` set ps" by (metis list.set_map)
  moreover have "length rs = length ps" by (simp add: rs)
  ultimately show ?thesis using scored_law [OF assms(1) Some ps] by (auto simp: held_def)
qed

lemma note_chunk_held:
  "snd ` set (fst acc) \<subseteq> H \<Longrightarrow> fst r \<in> H \<Longrightarrow> snd ` set (fst (note_chunk r acc)) \<subseteq> H"
  using image_mono [OF set_update_le [of "dc_id (fst r)" "fst r" "fst acc"], of snd]
  by (cases r; cases acc) (simp add: note_chunk_def, blast)

lemma note_chunks_held:
  "snd ` set (fst acc) \<subseteq> H \<Longrightarrow> fst ` set rs \<subseteq> H \<Longrightarrow> snd ` set (fst (fold note_chunk rs acc)) \<subseteq> H"
proof (induction rs arbitrary: acc)
  case (Cons r rs)
  from note_chunk_held [OF Cons.prems(1), of r] Cons.prems(2) have "snd ` set (fst (note_chunk r acc)) \<subseteq> H" by simp
  from Cons.IH [OF this] Cons.prems(2) show ?case by simp
qed simp

lemma retrieve_all_held:
  assumes "valid_state s"
  shows "retrieve_all V topK flt s qs acc x = (Inr acc', y) \<Longrightarrow> snd ` set (fst acc) \<subseteq> held s flt \<Longrightarrow>
    snd ` set (fst acc') \<subseteq> held s flt"
proof (induction qs arbitrary: acc x)
  case (Cons q qs)
  show ?case
  proof (cases "trim q = []")
    case False
    with Cons.prems(1) obtain rs z where rs: "queryChunksScored V q topK flt s x = (Inr rs, z)"
      and rest: "retrieve_all V topK flt s qs (fold note_chunk rs acc) z = (Inr acc', y)"
      by (auto split: prod.splits sum.splits)
    from queryChunksScored_held [OF assms rs] note_chunks_held [OF Cons.prems(2), of rs] Cons.IH [OF rest]
    show ?thesis by blast
  qed (use Cons in simp)
qed simp

lemma pipeline_sources:
  assumes "valid_state s" and "\<forall>f \<in> set (preRetrievalStrategies R). keeps_filter f"
    and "\<forall>f \<in> set (postRetrievalStrategies R). keeps_sources f"
    and "executePipeline V R query topK flt s x = (Inr ctx, y)" and "c \<in> set (nullish (rx_chunks ctx) [])"
  shows "\<exists>c' \<in> stored s. matches_filter flt c' \<and> dc_id c = dc_id c' \<and> dc_provenance c = Some (''external'', dc_parentId c')"
proof -
  from assms(4) obtain ctx1 y1 acc z
    where pre: "run_strategies (preRetrievalStrategies R) (initial_context query flt) x = (Inr ctx1, y1)"
      and ret: "retrieve_all V topK (rx_filter ctx1) s (rx_query ctx1 # nullish (rx_expandedQueries ctx1) []) ([], []) y1 = (Inr acc, z)"
      and post: "run_strategies (postRetrievalStrategies R)
        (ctx1\<lparr>rx_chunks := Some (map snd (fst acc)), rx_scores := Some (snd acc)\<rparr>) z = (Inr ctx, y)"
    by (auto simp: executePipeline_def split: prod.splits sum.splits simp del: retrieve_all.simps)
  from run_strategies_filter [OF assms(2) pre] have flt: "rx_filter ctx1 = flt" by (simp add: initial_context_def)
  from retrieve_all_held [OF assms(1) ret] flt have held: "snd ` set (fst acc) \<subseteq> held s flt" by simp
  from run_strategies_sources [OF assms(3) post assms(5)] have "from_source c (map snd (fst acc))" by simp
  then obtain c1 where c1: "c1 \<in> snd ` set (fst acc)" "dc_id c = dc_id c1" "dc_provenance c = dc_provenance c1"
    by (auto simp: from_source_def)
  with held obtain c' where "c' \<in> stored s" "matches_filter flt c'" "c1 = tagExternal c'" by (auto simp: held_def)
  with c1 show ?thesis by (auto simp: tagExternal_def)
qed

end

text \<open>The vector store of the package meets the contract in every state it can reach.\<close>

lemma searchHybridScored_law:
  assumes "reachable P s" and "searchHybridScored P query limit flt s x = (Inr rs, y)"
  shows "fst ` set rs \<subseteq> {c \<in> snd ` set (chunksMap s). matches_filter flt c} \<and> length rs \<le> limit"
proof -
  from reachable_refines [OF assms(1)] have "keyed (chunksMap s)" by auto
  from assms(2) have "rs = [] \<or> (\<exists>q. rs = search_with P query limit flt q s)"
    by (auto simp: searchHybridScored_def split: if_splits option.splits prod.splits sum.splits)
  then show ?thesis
  proof (elim disjE exE)
    fix q assume rs: "rs = search_with P query limit flt q s"
    note r = search_with_results [OF \<open>keyed (chunksMap s)\<close>, where P = P and query = query and limit = limit and flt = flt and q = q]
    have "c \<in> snd ` set (chunksMap s) \<and> matches_filter flt c" if "c \<in> fst ` set rs" for c
    proof -
      from that obtain score where "(c, score) \<in> set rs" by auto
      with r(1) show ?thesis unfolding rs by blast
    qed
    then have "fst ` set rs \<subseteq> {c \<in> snd ` set (chunksMap s). matches_filter flt c}" by blast
    with r(3) show ?thesis by (simp only: rs simp_thms)
  qed simp
qed

interpretation hybrid_search: vector_store "hybrid_adapter P" "\<lambda>s. snd ` set (chunksMap s)" "reachable P" for P
proof
  fix s query limit flt x cs y
  assume "reachable P s" and "va_searchChunks (hybrid_adapter P) query limit flt s x = (Inr cs, y)"
  then obtain rs where "searchHybridScored P query limit flt s x = (Inr rs, y)" "cs = map fst rs"
    by (auto simp: hybrid_adapter_def searchHybrid_def split: prod.splits sum.splits)
  from searchHybridScored_law [OF \<open>reachable P s\<close> this(1)] this(2)
  show "set cs \<subseteq> {c \<in> snd ` set (chunksMap s). matches_filter flt c} \<and> length cs \<le> limit"
    by (simp only: list.set_map length_map)
next
  fix s f query limit flt x rs y
  assume "reachable P s" and "va_searchChunksScored (hybrid_adapter P) = Some f" and "f query limit flt s x = (Inr rs, y)"
  then have "searchHybridScored P query limit flt s x = (Inr rs, y)" by (simp add: hybrid_adapter_def)
  from searchHybridScored_law [OF \<open>reachable P s\<close> this]
  show "fst ` set rs \<subseteq> {c \<in> snd ` set (chunksMap s). matches_filter flt c} \<and> length rs \<le> limit" .
qed

text \<open>
  C40: Retrieval is isolated. Whatever was ingested, updated and deleted before, every chunk the pipeline hands on stems
  from a chunk the store holds that satisfies the caller's filter, and it is labelled as external content of its
  document, when the strategies before retrieval leave the filter alone and those after it add no chunks of
  their own, as the maximal marginal relevance, reranking, hydration and U-shape strategies do.
\<close>

theorem retrieval_is_isolated:
  assumes "reachable P s" and "\<forall>f \<in> set (preRetrievalStrategies R). keeps_filter f"
    and "\<forall>f \<in> set (postRetrievalStrategies R). keeps_sources f"
    and "executePipeline (hybrid_adapter P) R query topK flt s x = (Inr ctx, y)"
    and "c \<in> set (nullish (rx_chunks ctx) [])"
  shows "\<exists>c' \<in> snd ` set (chunksMap s).
    matches_filter flt c' \<and> dc_id c = dc_id c' \<and> dc_provenance c = Some (''external'', dc_parentId c')"
  by (rule hybrid_search.pipeline_sources [OF assms])

definition sample_options :: "unit HybridVectorStoreOptions" where
  "sample_options =
     \<lparr>hv_embedDocuments = None, hv_embedQuery = None, hv_vectorWeight = 0, hv_fusionMethod = Weighted, hv_rrfK = 60,
      hv_stopWords = {}, hv_bm25K1 = 6 / 5, hv_bm25B = 3 / 4, hv_embeddingBatchSize = 100\<rparr>"

definition sample_chunk :: DocumentChunk where
  "sample_chunk =
     \<lparr>dc_id = ''c1'', dc_parentId = ''d1'', dc_content = ''refund rules'', dc_embedding = None,
      dc_metadata = [(''tenant'', JStr ''t1'')], dc_provenance = None\<rparr>"

definition sample_store :: hybrid_store where
  "sample_store = index_of_chunks {} [(''c1'', sample_chunk)]"

definition sample_filter :: "props option" where
  "sample_filter = Some [(''tenant'', JStr ''t1'')]"

lemma sample_reachable: "reachable sample_options sample_store"
proof -
  have "addChunks sample_options [sample_chunk] empty_store () = (Inr (), index_chunk {} sample_chunk empty_store, ())"
    by (simp add: addChunks_def sample_options_def sample_chunk_def)
  from reachable.ingest [OF reachable.start this] index_chunk_refines [of "[]" "{}" sample_chunk]
  show ?thesis by (simp add: empty_refines [of "{}", symmetric] sample_store_def) (simp add: sample_chunk_def)
qed

lemma sample_tokens: "tokenize {} ''refund rules'' = [''refund'', ''rules'']" "tokenize {} ''refund'' = [''refund'']"
  by (simp_all add: tokenize_def lower_case_def is_space_def Let_def)

lemma sample_bm25: "0 < bm25Score sample_options sample_store ''c1'' [''refund'']"
proof -
  have tf: "chunkTermFreqs sample_store ''c1'' = Some [(''refund'', 1), (''rules'', 1)]"
    by (simp add: sample_store_def index_of_chunks_def tokens_of_def sample_chunk_def sample_tokens)
       (simp add: term_freq_def count_token_def nullish_def)
  have avg: "avgDocLength sample_store = 2"
    by (simp add: avgDocLength_def sample_store_def index_of_chunks_def tokens_of_def sample_chunk_def sample_tokens)
  from idf_pos [OF sample_reachable, of "''refund''"] show ?thesis
    by (simp add: bm25Score_def tf term_score_def Let_def avg totalTermCount_def sample_options_def)
qed

lemma sample_retrieval:
  "\<exists>ctx. executePipeline (hybrid_adapter sample_options) (make_pipeline []) ''refund'' 5 sample_filter sample_store () =
      (Inr ctx, ()) \<and> rx_chunks ctx = Some [tagExternal sample_chunk]"
proof -
  let ?r = "raw_score_of sample_options sample_store [''refund''] None sample_chunk"
  have r: "rw_chunk ?r = sample_chunk" "rw_vector ?r = 0" "0 < rw_bm25 ?r"
    using sample_bm25 by (simp_all add: raw_score_of_def sample_chunk_def)
  have terms: "map fst (term_freq [''refund'']) = [''refund'']" by (simp add: term_freq_def count_token_def)
  have f: "matches_filter sample_filter sample_chunk"
    by (simp add: matches_filter_def sample_filter_def sample_chunk_def get_prop_def)
  have "search_with sample_options ''refund'' 5 sample_filter None sample_store = top_scored 5 (blend sample_options [?r])"
    using f terms by (simp add: search_with_def Let_def sample_tokens sample_options_def sample_store_def)
  moreover obtain v where "blend sample_options [?r] = [(sample_chunk, v)]" "0 < v"
    using r by (simp add: blend_def Let_def sample_options_def)
  ultimately have s: "search_with sample_options ''refund'' 5 sample_filter None sample_store = [(sample_chunk, v)]"
    by (simp add: top_scored_def)
  have "searchHybridScored sample_options ''refund'' 5 sample_filter sample_store () = (Inr [(sample_chunk, v)], ())"
    using s by (simp add: searchHybridScored_def sample_options_def) (simp add: sample_store_def)
  then have "queryChunksScored (hybrid_adapter sample_options) ''refund'' 5 sample_filter sample_store () =
      (Inr [(tagExternal sample_chunk, v)], ())"
    by (simp add: queryChunksScored_def hybrid_adapter_def)
  then show ?thesis
    by (simp add: executePipeline_def make_pipeline_def initial_context_def note_chunk_def trim_def is_space_def)
qed

theorem retrieval_is_isolated_witness:
  "\<exists>c' \<in> snd ` set (chunksMap sample_store). matches_filter sample_filter c' \<and>
     dc_id (tagExternal sample_chunk) = dc_id c' \<and> dc_provenance (tagExternal sample_chunk) = Some (''external'', dc_parentId c')"
proof -
  from sample_retrieval obtain ctx where ctx: "executePipeline (hybrid_adapter sample_options) (make_pipeline []) ''refund'' 5
      sample_filter sample_store () = (Inr ctx, ())" "rx_chunks ctx = Some [tagExternal sample_chunk]" by blast
  show ?thesis
    by (rule retrieval_is_isolated [OF sample_reachable _ _ ctx(1)]) (simp_all add: make_pipeline_def ctx(2))
qed

section \<open>Documents ingested again\<close>

lemma index_chunk_chunks [simp]: "chunksMap (index_chunk stops c s) = AList.update (dc_id c) c (chunksMap s)"
  by (simp add: index_chunk_def addToCorpusStats_def removeFromCorpusStats_def Let_def split: option.splits prod.splits)

lemma index_chunks_other:
  "i \<notin> dc_id ` set cs \<Longrightarrow> map_of (chunksMap (fold (index_chunk stops) cs s)) i = map_of (chunksMap s) i"
  by (induction cs arbitrary: s) (auto simp: update_conv')

lemma attach_ids: "map dc_id (attach cs vs) = map dc_id cs"
  by (induction cs vs rule: attach.induct) (auto split: list.splits)

text \<open>
  Ingesting a document again replaces the document but not its chunks: a chunk of the old version whose
  id the new version does not use is still found.
\<close>

lemma reingest_keeps_old_chunks:
  assumes "ingestDocument E (hybrid_adapter P) d (docs, s) x = (Inr full, (docs', s'), y)"
    and "map_of (chunksMap s) i = Some c" and "i \<notin> dc_id ` set (doc_chunks full)"
  shows "map_of (chunksMap s') i = Some c"
proof -
  from assms(1) obtain z where "addChunks P (doc_chunks full) s z = (Inr (), s', y)"
    by (auto simp: ingestDocument_def Let_def hybrid_adapter_def split: prod.splits sum.splits)
  then have "s' = s \<or> (\<exists>vs. s' = fold (index_chunk (hv_stopWords P)) (attach (doc_chunks full) vs) s)"
    by (auto simp: addChunks_def split: if_splits prod.splits sum.splits)
  moreover have "i \<notin> dc_id ` set (attach (doc_chunks full) vs)" for vs
    using assms(3) attach_ids [of "doc_chunks full" vs] by (metis list.set_map)
  ultimately show ?thesis using assms(2) index_chunks_other by auto
qed

end
