(* ===== verification/Spec2Isabelle.thy ===== *)
theory Spec2Isabelle
  imports Resilient_Model Approval_Lifecycle Audit_Trail Hash_Chain Json_Schema Tool_Args Transcript Idempotency Turn_Budget Turn_Transcript Turn_Outcome
    Cascade Write_Queue State_Store Agent_Runner Suspension Runner_State Recovery
    Rate_Limits Simple_Policies Shared_Rate_Limit Redaction Output_Rails U_Curve
    Delegation Refinement_Loop Parallel_Runner Debate Sop_Runner Jev_Gates Eval_Metrics Eval_Benchmark Retrieval_Metrics
    Hybrid_Store Rag_Pipeline
begin

text \<open>
  nestjs-agentic runs language-model agents inside a Nest application. This library models the part of the
  packages under \<open>src/packages\<close> that decides what an agent may do and what becomes of its turns, and proves
  what that part promises.

  \<^bold>\<open>The program.\<close> A caller hands a message to the runner (\<open>agent-runner.service.ts\<close>), which resolves the registered
  agent and its tools, loads the conversation of the session and starts the executor
  (\<open>agent-executor.service.ts\<close>). The executor alternates between model and tools within the limits of the
  turn. Every tool is a closure of the tool provider (\<open>local-tool.provider.ts\<close>): it validates the arguments, runs
  the chain of policies, replays a completed call, runs the method, and passes its output through the
  output rails. A policy may demand an approval: the provider then stores a record, the turn
  suspends, and the approval service (\<open>approval.service.ts\<close>) later settles the record and lets the runner
  resume. What happens is written to the audit trail, whose sink can chain its entries by hashes. Models are
  reached through a cascade, a retry loop and a circuit breaker. The orchestration package builds on the
  runner: delegation, refinement loops, parallel runs, debates and procedures. The jev package adds policies
  that ask an external judge, the evaluation package scores what agents and retrievers
  return, the rag package ingests documents and retrieves their chunks.

  \<^bold>\<open>Conventions.\<close> A TypeScript interface is a \<open>record\<close>, a union a \<open>datatype\<close>, an optional property an \<open>option\<close>, a
  thrown error the left side of a sum. \<open>Prelude\<close> has the numbers (\<open>jsnum\<close>: an exact rational
  for a finite double, \<open>NaN\<close>, the infinities), the values (\<open>jsval\<close>: trees, objects as property lists in
  insertion order) and the shared lemmas; \<open>Js_Number\<close> is \<open>Number(string)\<close>, \<open>Json_Text\<close> is \<open>JSON.stringify\<close>.
  Strings are lists of 8-bit code units. What a component acts on (stores, clock, abort signal, model, tools,
  callbacks) is the world \<open>'x\<close> of an environment record: each call of a collaborator maps the world to an
  outcome and a world, so that a call may throw and every reading may differ from the one before (the approval store
  and the authorizer of \<open>Approval_Service\<close> return; its notifications and the runner may throw).
  Where calls interleave at an \<open>await\<close>, the other callers are a function applied to the state at each such point,
  or the steps of an inductive relation. Code outside the repository (\<open>RegExp\<close>, \<open>JSON.parse\<close>, SHA-256, the
  printing of a double, the commands of a shared server, model and judge services, embedding providers) is a
  parameter; what a theorem needs of it is a hypothesis that states its documented behaviour, and each
  has a witness that instantiates the parameter.

  \<^bold>\<open>Theories.\<close> Paths are relative to \<open>packages/core/src\<close> unless they name a package.

  \<^item> \<open>Agent_Types\<close> (\<open>interfaces\<close>) is the data exchanged; \<open>Agent_Errors\<close> (\<open>errors.ts\<close>) the errors of a turn with
    their messages; \<open>Scope_Key\<close> (\<open>utils/scope-key.ts\<close>) the composite keys of stored scopes.
  \<^item> \<open>Tool_Discovery\<close> (\<open>discovery\<close>, \<open>interfaces/policy.interface.ts\<close>), \<open>Tool_Args\<close> (\<open>utils/tool-args.validator.ts\<close>),
    \<open>Tool_Provider\<close> (\<open>providers/local-tool.provider.ts\<close>) are decorated methods, argument validation and the guarded
    closure \<open>execute_tool\<close>; \<open>Tool_Guarding\<close> shows that a tool runs only with the consent of every policy, that
    a denial wins, on which terms a call is withheld, and that rails protect every output.
    \<open>Idempotency\<close> is the store of completed calls, with the replay of a call through it.
  \<^item> \<open>Approval_Store\<close> (\<open>stores/in-memory/in-memory-approval.store.ts\<close>, \<open>stores/approval-records.ts\<close>),
    \<open>Approval_Service\<close> (\<open>services/approval.service.ts\<close>) and \<open>Approval_Lifecycle\<close>: the atomic claim, versions and
    signatures, dual control, the authorizer, expiry, and what each way of ending \<open>settle\<close> leaves behind.
  \<^item> \<open>Executor\<close> (\<open>services/agent-executor.service.ts\<close>), both loops with all their exits. \<open>Turn_Budget\<close> bounds model
    calls and tool calls, \<open>Turn_Transcript\<close> is the invariant of the conversation, \<open>Turn_Outcome\<close> has
    structured answers, recovery and the agreement of streaming with the plain loop. \<open>Turn_Conversation\<close> says what
    the conversation of a finished turn consists of, round by round.
  \<^item> \<open>Agent_Runner\<close> (\<open>services/agent-runner.service.ts\<close>); \<open>Suspension\<close>, \<open>Runner_State\<close> and \<open>Recovery\<close> follow a
    turn and its conversation through approval, through its session (with the session store in memory) and through a crash. \<open>Write_Queue\<close>
    (\<open>utils/deferred-write-queue.ts\<close>) is the order of asynchronous writes.
  \<^item> \<open>State_Store\<close> (\<open>interfaces/state-store.interface.ts\<close>, in-memory state and session stores).
  \<^item> \<open>Circuit_Breaker\<close>, \<open>Retry\<close>, \<open>Resilient_Model\<close> (\<open>utils/circuit-breaker.ts\<close>, \<open>utils/retry.ts\<close>,
    \<open>adapters/resilient-model.adapter.ts\<close>) and \<open>Cascade\<close> (\<open>cascading\<close>): reaching a model.
  \<^item> \<open>Audit_Trail\<close> (\<open>services/audit-trail.service.ts\<close>) and \<open>Hash_Chain\<close> (\<open>audit/hash-chain-audit.sink.ts\<close>).
  \<^item> \<open>Json_Schema\<close> (\<open>utils/json-schema.validator.ts\<close>) with the meaning of each keyword, stated apart from the validator's
    tasks, which it is proved to decide, and
    \<open>Structured_Output\<close> (\<open>utils/structured-output.ts\<close>).
  \<^item> \<open>Transcript\<close> (\<open>utils/session-history.ts\<close>, \<open>reducers\<close>): shortening a history without breaking its protocol.
  \<^item> \<open>Rate_Limits\<close>, \<open>Shared_Rate_Limit\<close>, \<open>Simple_Policies\<close>, \<open>Redaction\<close>, \<open>Output_Rails\<close> (\<open>policies\<close>,
    \<open>utils/redaction-traversal.ts\<close>, \<open>utils/prompt-injection-sanitizer.ts\<close>): the built-in policies and rails;
    \<open>U_Curve\<close> (\<open>utils/u-curve-context.formatter.ts\<close>): the layout of a prompt.
  \<^item> \<open>Delegation\<close>, \<open>Refinement_Loop\<close>, \<open>Parallel_Runner\<close>, \<open>Debate\<close>, \<open>Sop_Runner\<close> (\<open>packages/orchestration/src\<close>).
  \<^item> \<open>Jev_Gates\<close> (\<open>packages/jev/src\<close>): questions to a judge and the gates that act on its answers.
  \<^item> \<open>Eval_Metrics\<close>, \<open>Eval_Benchmark\<close>, \<open>Retrieval_Metrics\<close> (\<open>packages/evaluation/src\<close>): metrics over runs and over
    retrieval, the pairwise judge, the benchmarks. nDCG is over the reals, every other score exact rationals;
    \<open>Js_Fixed\<close> is \<open>toFixed\<close>.
  \<^item> \<open>Hybrid_Store\<close> (\<open>packages/rag/src/stores\<close>, \<open>utils\<close>): the vector store, whose incremental index is proved equal to the
    one computed from its contents; \<open>Rag_Pipeline\<close> (\<open>engines\<close>, \<open>strategies\<close>): knowledge base, pipeline and four of its
    strategies, with the isolation of what is retrieved. Scores are reals.

  \<^bold>\<open>Interfaces.\<close> Where a client relies on a store, the contract is a locale, with the client's lemmas proved inside and
  an interpretation on the modelled store: \<open>approval_store\<close>, \<open>idempotency_store\<close>, \<open>state_store\<close>,
  \<open>session_records\<close>, \<open>checkpoint_records\<close>, \<open>approval_records\<close>, \<open>chain_destination\<close> and \<open>vector_store\<close>.

  \<^bold>\<open>Bounds.\<close> Loops over data recurse on the data or on a measure of it. The loops of a turn recurse on the rounds that \<open>maxIterations\<close>
  leaves, the repair of answers on its repairs, retries on attempts, procedures on
  \<open>MAX_PHASES_VISITED = 256\<close>, the bound of the code: these counters are the code's own, not fuel beside it. The walk of
  a schema has a measure of its own over value depth, the schemas followed and the size of the node. The one search
  that takes fuel, the free name of a gate in \<open>Jev_Gates\<close>, gets one more than there are names taken, and
  \<open>gateName_new\<close> shows that this is enough.
  \<open>turn_within_budget\<close>, \<open>delegation_depth_bounded\<close> and \<open>race_resolves\<close> are the theorems that things end.

  \<^bold>\<open>Not modelled.\<close>
  \<^item> \<open>packages/memory\<close>: scoring with exponential decay over external stores; no decision about a tool call or a turn
    depends on it. Of \<open>packages/rag\<close> the splitters, the adapters of embedding and rerank services, the graph,
    hierarchical, query expansion, late chunking and compression strategies; of \<open>packages/evaluation\<close> the
    Markdown reporter and the details attached to results.
  \<^item> \<open>packages/mcp\<close> and \<open>packages/model-openai\<close>: transports and wire formats of external services.
  \<^item> The Redis and PostgreSQL stores and the PostgreSQL sink: SQL statements and scripts whose effect is the
    behaviour of the servers (the script of the shared rate limit is modelled).
  \<^item> Observers, exporters and the console sink: they report and cannot influence a turn. For the same reason the
    notifications and measured durations are left out of \<open>Executor\<close> and \<open>Agent_Runner\<close>.
  \<^item> Modules and decorators: what the container provides is the environment of the models.
  \<^item> The default confidence extractors of the cascade (a parameter there), test support, examples, the site and the
    package of re-exports.
\<close>

end
